(* ===== verification/Prelude.thy ===== *)
theory Prelude
  imports Main "HOL-Library.Word" "HOL-Library.Multiset" "HOL-Library.AList"
    "HOL-Library.Product_Lexorder"
begin

text \<open>
  Shared vocabulary of the development: machine-word synonyms, the slab layout (one flat buffer
  that holds fixed-width rows), \<open>Vec::swap_remove\<close>, \<open>Iterator::position\<close>, hash maps as
  association lists with distinct keys, and the collections of rewrite rules the component
  theories extend.
\<close>

named_theorems slab_simps \<open>reading and writing rows of a slab\<close>
named_theorems hash_simps \<open>hash maps as association lists\<close>

type_synonym u8 = "8 word"
type_synonym u32 = "32 word"
type_synonym u64 = "64 word"
type_synonym vecid = "64 word"

section \<open>Sublists up to order\<close>

lemma mset_sub_set: "mset xs \<subseteq># mset ys \<Longrightarrow> x \<in> set xs \<Longrightarrow> x \<in> set ys"
  by (drule set_mset_mono) auto

lemma mset_sub_distinct:
  assumes "mset xs \<subseteq># mset ys" "distinct ys"
  shows "distinct xs"
proof -
  obtain D where "mset ys = mset xs + D" using assms(1) by (metis mset_subset_eq_exists_conv)
  then obtain zs where "mset ys = mset (xs @ zs)" by (metis ex_mset mset_append)
  then have "distinct (xs @ zs)" using assms(2) by (metis mset_eq_imp_distinct_iff)
  then show ?thesis by simp
qed

lemma mset_take_subset: "mset (take n xs) \<subseteq># mset xs"
  by (metis append_take_drop_id mset_append mset_subset_eq_add_left)

section \<open>Slabs\<close>

text \<open>\<open>&data[i * dim..(i + 1) * dim]\<close>\<close>

definition row :: "nat \<Rightarrow> 'a list \<Rightarrow> nat \<Rightarrow> 'a list" where
  "row d xs i = take d (drop (i * d) xs)"

text \<open>\<open>data[i * dim..(i + 1) * dim].copy_from_slice(v)\<close>\<close>

definition set_row :: "nat \<Rightarrow> 'a list \<Rightarrow> nat \<Rightarrow> 'a list \<Rightarrow> 'a list" where
  "set_row d xs i v = take (i * d) xs @ v @ drop ((i + 1) * d) xs"

text \<open>\<open>data.chunks_exact(dim)\<close>, for a non-zero width\<close>

definition rows :: "nat \<Rightarrow> 'a list \<Rightarrow> 'a list list" where
  "rows d xs = map (row d xs) [0..<length xs div d]"

lemma length_row [slab_simps]:
  "length xs = n * d \<Longrightarrow> i < n \<Longrightarrow> length (row d xs i) = d"
proof -
  assume "length xs = n * d" "i < n"
  moreover from \<open>i < n\<close> have "i * d + d \<le> n * d"
    by (metis Suc_leI add.commute mult_Suc mult_le_mono1)
  ultimately show ?thesis by (simp add: row_def)
qed

lemma length_set_row [slab_simps]:
  "length xs = n * d \<Longrightarrow> i < n \<Longrightarrow> length v = d \<Longrightarrow> length (set_row d xs i v) = n * d"
proof -
  assume a: "length xs = n * d" "i < n" "length v = d"
  from a(2) have "i * d + d \<le> n * d"
    by (metis Suc_leI add.commute mult_Suc mult_le_mono1)
  with a show ?thesis by (simp add: set_row_def add.commute)
qed

lemma row_append_left [slab_simps]:
  "length xs = n * d \<Longrightarrow> i < n \<Longrightarrow> row d (xs @ ys) i = row d xs i"
proof -
  assume a: "length xs = n * d" "i < n"
  from a(2) have "i * d + d \<le> n * d"
    by (metis Suc_leI add.commute mult_Suc mult_le_mono1)
  with a show ?thesis by (simp add: row_def)
qed

lemma row_append_last [slab_simps]:
  "length xs = n * d \<Longrightarrow> length v = d \<Longrightarrow> row d (xs @ v) n = v"
  by (simp add: row_def)

lemma row_set_row_same [slab_simps]:
  "length xs = n * d \<Longrightarrow> i < n \<Longrightarrow> length v = d \<Longrightarrow> row d (set_row d xs i v) i = v"
proof -
  assume a: "length xs = n * d" "i < n" "length v = d"
  from a(2) have "i * d \<le> n * d" by simp
  with a show ?thesis by (simp add: row_def set_row_def)
qed

lemma row_set_row_other [slab_simps]:
  assumes "length xs = n * d" "i < n" "j < n" "j \<noteq> i" "length v = d"
  shows "row d (set_row d xs i v) j = row d xs j"
proof (cases "j < i")
  case True
  then have "j * d + d \<le> i * d"
    by (metis Suc_leI add.commute mult_Suc mult_le_mono1)
  moreover from assms have "i * d \<le> n * d" by simp
  ultimately have "take d (drop (j * d) (take (i * d) xs @ v @ drop ((i + 1) * d) xs)) =
      take d (drop (j * d) (take (i * d) xs))" using assms by simp
  also have "\<dots> = take d (drop (j * d) xs)"
    using \<open>j * d + d \<le> i * d\<close> by (simp add: drop_take min_def)
  finally show ?thesis by (simp add: row_def set_row_def)
next
  case False
  with assms have "i < j" by simp
  then obtain k where j: "j = Suc (i + k)" using less_iff_Suc_add by blast
  have "i * d \<le> n * d" using assms by simp
  then have "drop (j * d) (set_row d xs i v) = drop (j * d) xs"
    using assms j by (simp add: set_row_def add.commute add.left_commute algebra_simps)
  then show ?thesis by (simp add: row_def)
qed

lemma row_take [slab_simps]:
  "i < n \<Longrightarrow> row d (take (n * d) xs) i = row d xs i"
proof -
  assume "i < n"
  then have "i * d + d \<le> n * d"
    by (metis Suc_leI add.commute mult_Suc mult_le_mono1)
  then have "d \<le> n * d - i * d" by simp
  then show ?thesis by (simp add: row_def drop_take min_def)
qed

lemma rows_eq:
  "0 < d \<Longrightarrow> length xs = n * d \<Longrightarrow> rows d xs = map (row d xs) [0..<n]"
  by (simp add: rows_def)

section \<open>Search and removal by position\<close>

text \<open>\<open>ids.iter().position(|&e| e == id)\<close>\<close>

fun position :: "'a \<Rightarrow> 'a list \<Rightarrow> nat option" where
  "position y [] = None"
| "position y (x # xs) = (if x = y then Some 0 else map_option Suc (position y xs))"

lemma position_None [simp]: "position y xs = None \<longleftrightarrow> y \<notin> set xs"
  by (induction xs) auto

lemma position_notin [simp]: "y \<notin> set xs \<Longrightarrow> position y xs = None"
  by simp

lemma position_SomeD: "position y xs = Some i \<Longrightarrow> i < length xs \<and> xs ! i = y"
  by (induction xs arbitrary: i) (auto split: if_splits)

lemma position_less: "position y xs = Some i \<Longrightarrow> i < length xs"
  by (simp add: position_SomeD)

lemma position_nth: "position y xs = Some i \<Longrightarrow> xs ! i = y"
  by (simp add: position_SomeD)

lemma position_distinct:
  "distinct xs \<Longrightarrow> i < length xs \<Longrightarrow> position (xs ! i) xs = Some i"
proof -
  assume d: "distinct xs" and i: "i < length xs"
  then have "position (xs ! i) xs \<noteq> None" by simp
  then obtain j where j: "position (xs ! i) xs = Some j" by blast
  then have "j < length xs" "xs ! j = xs ! i" by (simp_all add: position_SomeD)
  with d i have "j = i" by (simp add: nth_eq_iff_index_eq)
  with j show ?thesis by simp
qed

lemma position_append_in: "y \<in> set xs \<Longrightarrow> position y (xs @ ys) = position y xs"
  by (induction xs) auto

lemma plus_Suc_eta: "(+) (Suc n) = (\<lambda>x. Suc (n + x))"
  by (simp add: fun_eq_iff)

lemma plus_zero_eta: "(+) (0::nat) = (\<lambda>x. x)"
  by (simp add: fun_eq_iff)

lemma position_append_notin:
  "y \<notin> set xs \<Longrightarrow> position y (xs @ ys) = map_option (\<lambda>i. length xs + i) (position y ys)"
  by (induction xs)
    (auto simp: option.map_comp comp_def plus_zero_eta plus_Suc_eta option.map_ident)

text \<open>\<open>Vec::swap_remove(pos)\<close>: the last element takes the place of the removed one.\<close>

definition swap_remove :: "nat \<Rightarrow> 'a list \<Rightarrow> 'a list" where
  "swap_remove p xs = butlast (xs[p := last xs])"

lemma length_swap_remove [simp]: "length (swap_remove p xs) = length xs - 1"
  by (simp add: swap_remove_def)

lemma nth_swap_remove:
  "p < length xs \<Longrightarrow> i < length xs - 1 \<Longrightarrow>
   swap_remove p xs ! i = (if i = p then last xs else xs ! i)"
  by (simp add: swap_remove_def nth_butlast nth_list_update)

lemma mset_swap_remove:
  assumes "p < length xs"
  shows "mset (swap_remove p xs) = mset xs - {#xs ! p#}"
proof -
  have ne: "xs \<noteq> []" using assms by auto
  have "mset (xs[p := last xs]) = add_mset (last xs) (mset xs - {#xs ! p#})"
    using assms by (rule mset_update)
  moreover have "last (xs[p := last xs]) = last xs"
  proof (cases "p = length xs - 1")
    case True then show ?thesis using ne by (simp add: last_list_update)
  next
    case False then show ?thesis using ne by (simp add: last_list_update)
  qed
  moreover have "mset (xs[p := last xs]) =
      add_mset (last (xs[p := last xs])) (mset (butlast (xs[p := last xs])))"
    using ne by (metis append_butlast_last_id list_update_nonempty mset.simps(1,2)
        add_mset_add_single mset_append)
  ultimately show ?thesis by (simp add: swap_remove_def)
qed

lemma set_swap_remove:
  "distinct xs \<Longrightarrow> p < length xs \<Longrightarrow> set (swap_remove p xs) = set xs - {xs ! p}"
proof -
  assume d: "distinct xs" and p: "p < length xs"
  have "set_mset (mset (swap_remove p xs)) = set_mset (mset xs - {#xs ! p#})"
    using p by (simp add: mset_swap_remove)
  then show ?thesis using d p
    by (metis mset_remove1 set_mset_mset set_remove1_eq)
qed

lemma distinct_swap_remove:
  "distinct xs \<Longrightarrow> p < length xs \<Longrightarrow> distinct (swap_remove p xs)"
proof -
  assume d: "distinct xs" and p: "p < length xs"
  have "mset (swap_remove p xs) = mset (remove1 (xs ! p) xs)"
    using p by (simp add: mset_swap_remove)
  then show ?thesis using d by (metis distinct_remove1 mset_eq_imp_distinct_iff)
qed

section \<open>Keyed slabs\<close>

text \<open>
  A list of distinct keys with the slab of their rows. \<open>slab_remove\<close> is the code's removal from the
  data buffer: the last row is copied into the vacated slot and the buffer truncated.
\<close>

definition slab_ok :: "nat \<Rightarrow> 'k list \<Rightarrow> 'a list \<Rightarrow> bool" where
  "slab_ok d ids xs \<longleftrightarrow> distinct ids \<and> length xs = length ids * d"

definition slab_get :: "nat \<Rightarrow> 'k list \<Rightarrow> 'a list \<Rightarrow> 'k \<Rightarrow> 'a list option" where
  "slab_get d ids xs y = map_option (row d xs) (position y ids)"

definition slab_remove :: "nat \<Rightarrow> nat \<Rightarrow> nat \<Rightarrow> 'a list \<Rightarrow> 'a list" where
  "slab_remove d pos end xs =
     take (end * d) (if pos \<noteq> end then set_row d xs pos (row d xs end) else xs)"

lemma slab_get_dom [slab_simps]: "dom (slab_get d ids xs) = set ids"
  by (auto simp: slab_get_def dom_def)

lemma slab_get_None: "slab_get d ids xs y = None \<longleftrightarrow> y \<notin> set ids"
  by (simp add: slab_get_def)

lemma slab_get_length: "slab_ok d ids xs \<Longrightarrow> slab_get d ids xs y = Some v \<Longrightarrow> length v = d"
  by (auto simp: slab_get_def slab_ok_def length_row [of xs "length ids"] dest: position_less)

lemma slab_get_nth:
  "slab_ok d ids xs \<Longrightarrow> i < length ids \<Longrightarrow> slab_get d ids xs (ids ! i) = Some (row d xs i)"
  by (simp add: slab_get_def slab_ok_def position_distinct)

lemma slab_ok_Nil [slab_simps]: "slab_ok d [] []"
  by (simp add: slab_ok_def)

lemma slab_get_Nil [slab_simps]: "slab_get d [] xs = Map.empty"
  by (simp add: slab_get_def fun_eq_iff)

lemma slab_ok_push [slab_simps]:
  "slab_ok d ids xs \<Longrightarrow> y \<notin> set ids \<Longrightarrow> length v = d \<Longrightarrow> slab_ok d (ids @ [y]) (xs @ v)"
  by (simp add: slab_ok_def)

lemma slab_get_push [slab_simps]:
  assumes "slab_ok d ids xs" "y \<notin> set ids" "length v = d"
  shows "slab_get d (ids @ [y]) (xs @ v) = (slab_get d ids xs)(y \<mapsto> v)"
proof
  fix z
  show "slab_get d (ids @ [y]) (xs @ v) z = ((slab_get d ids xs)(y \<mapsto> v)) z"
  proof (cases "z \<in> set ids")
    case True
    then obtain i where "position z ids = Some i" by (metis not_Some_eq position_None)
    then show ?thesis using True assms position_less [of z ids i]
      by (auto simp: slab_get_def slab_ok_def position_append_in
          row_append_left [of xs "length ids" d i])
  next
    case False
    then show ?thesis using assms
      by (auto simp: slab_get_def slab_ok_def position_append_notin row_append_last)
  qed
qed

lemma slab_ok_set_row [slab_simps]:
  "slab_ok d ids xs \<Longrightarrow> position y ids = Some p \<Longrightarrow> length v = d \<Longrightarrow> slab_ok d ids (set_row d xs p v)"
  by (simp add: slab_ok_def length_set_row position_less)

lemma slab_get_set_row [slab_simps]:
  assumes "slab_ok d ids xs" "position y ids = Some p" "length v = d"
  shows "slab_get d ids (set_row d xs p v) = (slab_get d ids xs)(y \<mapsto> v)"
proof
  fix z
  have p: "p < length ids" "ids ! p = y" using position_SomeD [OF assms(2)] by auto
  show "slab_get d ids (set_row d xs p v) z = ((slab_get d ids xs)(y \<mapsto> v)) z"
  proof (cases "position z ids")
    case None
    then have "z \<noteq> y" using p by auto
    then show ?thesis using None by (simp add: slab_get_def del: position_None)
  next
    case (Some i)
    then have i: "i < length ids" "ids ! i = z" by (auto dest: position_SomeD)
    then show ?thesis using Some p assms
      by (cases "i = p")
        (auto simp: slab_get_def slab_ok_def row_set_row_same [of xs "length ids"]
          row_set_row_other [of xs "length ids"])
  qed
qed

lemma length_slab_remove:
  assumes "length xs = Suc n * d" "p < Suc n"
  shows "length (slab_remove d p n xs) = n * d"
proof (cases "p = n")
  case False
  then show ?thesis using assms
    by (simp add: slab_remove_def length_set_row [of xs "Suc n"] length_row [of xs "Suc n"])
qed (use assms in \<open>simp add: slab_remove_def\<close>)

lemma row_slab_remove:
  assumes "length xs = Suc n * d" "p < Suc n" "i < n"
  shows "row d (slab_remove d p n xs) i = (if i = p then row d xs n else row d xs i)"
  using assms
  by (simp add: slab_remove_def row_take row_set_row_same [of xs "Suc n"]
      row_set_row_other [of xs "Suc n"] length_row [of xs "Suc n"])

lemma slab_ok_remove [slab_simps]:
  assumes "slab_ok d ids xs" "position y ids = Some p"
  shows "slab_ok d (swap_remove p ids) (slab_remove d p (length ids - 1) xs)"
proof -
  have "p < length ids" using assms(2) by (rule position_less)
  then obtain n where n: "length ids = Suc n" by (cases "length ids") auto
  with assms \<open>p < length ids\<close> show ?thesis
    by (simp add: slab_ok_def distinct_swap_remove length_slab_remove)
qed

lemma slab_get_remove [slab_simps]:
  assumes ok: "slab_ok d ids xs" and pos: "position y ids = Some p"
  shows "slab_get d (swap_remove p ids) (slab_remove d p (length ids - 1) xs) =
    (slab_get d ids xs)(y := None)"
proof
  fix z
  let ?ids = "swap_remove p ids" and ?xs = "slab_remove d p (length ids - 1) xs"
  have p: "p < length ids" "ids ! p = y" using position_SomeD [OF pos] by auto
  then obtain n where n: "length ids = Suc n" by (cases "length ids") auto
  have d: "distinct ids" and len: "length xs = Suc n * d" using ok n by (auto simp: slab_ok_def)
  have st: "set ?ids = set ids - {y}" using set_swap_remove [OF d p(1)] p(2) by simp
  show "slab_get d ?ids ?xs z = ((slab_get d ids xs)(y := None)) z"
  proof (cases "z \<in> set ?ids")
    case False
    then have "slab_get d ?ids ?xs z = None" by (simp add: slab_get_None)
    moreover have "z = y \<or> slab_get d ids xs z = None" using False st by (auto simp: slab_get_None)
    ultimately show ?thesis by auto
  next
    case True
    then obtain i where i: "i < length ?ids" "?ids ! i = z" by (metis in_set_conv_nth)
    then have "i < n" using n by simp
    have "slab_get d ?ids ?xs z = Some (row d ?xs i)"
      using slab_get_nth [OF slab_ok_remove [OF ok pos] i(1)] i(2) by simp
    also have "row d ?xs i = (if i = p then row d xs n else row d xs i)"
      using row_slab_remove [OF len, of p i] p(1) n \<open>i < n\<close> by simp
    also have "Some \<dots> = slab_get d ids xs z"
    proof (cases "i = p")
      case True
      have "z = ids ! n" using i True n p(1) nth_swap_remove [of p ids i]
        by (simp add: last_conv_nth)
          (metis diff_Suc_1 last_conv_nth length_0_conv nat.distinct(1))
      then show ?thesis using slab_get_nth [OF ok, of n] n True by simp
    next
      case False
      have "z = ids ! i" using i False n p(1) nth_swap_remove [of p ids i] by simp
      then show ?thesis using slab_get_nth [OF ok, of i] n False \<open>i < n\<close> by simp
    qed
    finally show ?thesis using True st by auto
  qed
qed

text \<open>Iterating over keys and rows together visits what the lookups return.\<close>

lemma slab_index_items:
  "slab_ok d ids xs \<Longrightarrow> map (\<lambda>i. (ids ! i, row d xs i)) [0..<length ids] =
    map (\<lambda>y. (y, the (slab_get d ids xs y))) ids"
  by (rule nth_equalityI) (simp_all add: slab_get_nth)

lemma slab_items:
  assumes "slab_ok d ids xs" "0 < d"
  shows "zip ids (rows d xs) = map (\<lambda>y. (y, the (slab_get d ids xs y))) ids"
proof (rule nth_equalityI)
  have "rows d xs = map (row d xs) [0..<length ids]"
    using assms by (simp add: rows_eq slab_ok_def)
  then show "length (zip ids (rows d xs)) = length (map (\<lambda>y. (y, the (slab_get d ids xs y))) ids)"
    by simp
  fix i assume "i < length (zip ids (rows d xs))"
  then show "zip ids (rows d xs) ! i = map (\<lambda>y. (y, the (slab_get d ids xs y))) ids ! i"
    using assms by (simp add: rows_eq slab_ok_def slab_get_def position_distinct)
qed

section \<open>Hash maps as association lists\<close>

text \<open>
  \<open>HashMap<K, V>\<close> is an association list with distinct keys; its iteration order is never
  assumed: where the code iterates over a map, the order is an argument.
\<close>

definition hm_insert :: "'k \<Rightarrow> 'v \<Rightarrow> ('k \<times> 'v) list \<Rightarrow> ('k \<times> 'v) list" where
  "hm_insert k v m = AList.update k v m"

definition hm_remove :: "'k \<Rightarrow> ('k \<times> 'v) list \<Rightarrow> ('k \<times> 'v) list" where
  "hm_remove k m = AList.delete k m"

abbreviation hm_get :: "('k \<times> 'v) list \<Rightarrow> 'k \<Rightarrow> 'v option" where
  "hm_get m k \<equiv> map_of m k"

definition hm_ok :: "('k \<times> 'v) list \<Rightarrow> bool" where
  "hm_ok m \<longleftrightarrow> distinct (map fst m)"

lemma hm_get_insert [hash_simps]: "map_of (hm_insert k v m) = (map_of m)(k \<mapsto> v)"
  by (simp add: hm_insert_def update_conv')

lemma hm_get_remove [hash_simps]: "map_of (hm_remove k m) = (map_of m)(k := None)"
  by (simp add: hm_remove_def delete_conv')

lemma hm_ok_Nil [hash_simps]: "hm_ok []"
  by (simp add: hm_ok_def)

lemma hm_ok_insert [hash_simps]: "hm_ok m \<Longrightarrow> hm_ok (hm_insert k v m)"
  by (simp add: hm_ok_def hm_insert_def distinct_update)

lemma hm_ok_remove [hash_simps]: "hm_ok m \<Longrightarrow> hm_ok (hm_remove k m)"
  by (simp add: hm_ok_def hm_remove_def distinct_delete)

lemma hm_keys_insert [hash_simps]: "fst ` set (hm_insert k v m) = insert k (fst ` set m)"
  by (metis dom_fun_upd dom_map_of_conv_image_fst hm_get_insert option.distinct(1))

lemma hm_keys_remove [hash_simps]: "fst ` set (hm_remove k m) = fst ` set m - {k}"
  by (metis dom_fun_upd dom_map_of_conv_image_fst hm_get_remove)

lemma map_of_rev_distinct: "distinct (map fst xs) \<Longrightarrow> map_of (rev xs) = map_of xs"
proof -
  assume d: "distinct (map fst xs)"
  then have "distinct (map fst (rev xs))" by (simp flip: rev_map)
  then show ?thesis using map_of_inject_set [OF _ d, of "rev xs"] by simp
qed

lemma hm_length: "hm_ok m \<Longrightarrow> length m = card (dom (map_of m))"
  by (metis dom_map_of_conv_image_fst distinct_card hm_ok_def length_map list.set_map)

section \<open>Fallible steps\<close>

text \<open>
  A method on \<open>&mut self\<close> that returns \<open>Result\<close> is a pair: what it returns, and the state it leaves
  behind, also when it fails. \<open>and_then\<close> is the \<open>?\<close> operator between two such steps.
\<close>

definition and_then :: "('e + 'a) \<times> 's \<Rightarrow> ('a \<Rightarrow> 's \<Rightarrow> ('e + 'b) \<times> 's) \<Rightarrow> ('e + 'b) \<times> 's" where
  "and_then m f = (case m of (Inl e, s) \<Rightarrow> (Inl e, s) | (Inr x, s) \<Rightarrow> f x s)"

lemma and_then_simps [simp]:
  "and_then (Inl e, s) f = (Inl e, s)"
  "and_then (Inr x, s) f = f x s"
  by (simp_all add: and_then_def)

lemma and_then_cong [fundef_cong]:
  "m = m' \<Longrightarrow> (\<And>x s. m' = (Inr x, s) \<Longrightarrow> f x s = f' x s) \<Longrightarrow> and_then m f = and_then m' f'"
  by (auto simp: and_then_def split: prod.split sum.split)

end
