(* ===== verification/Floats.thy ===== *)
theory Floats
  imports Prelude
begin

text \<open>
  Rust's \<open>f32\<close> and \<open>f64\<close> as IEEE 754 binary32 and binary64 bit patterns. A pattern is decoded
  into a sign, an integer significand and a power of two; an operation is computed exactly on
  those integers and rounded once, to nearest with ties to even. \<open>okey\<close> is the total order of
  \<open>ordered_float::OrderedFloat\<close> (NaN greatest and equal to itself, both zeros equal), which every
  result list of the program is sorted by.
\<close>

type_synonym f32 = "32 word"
type_synonym f64 = "64 word"

datatype fl = NaN | Inf bool | Num bool nat int

section \<open>Decoding\<close>

text \<open>\<open>t\<close> stored significand bits and \<open>w\<close> exponent bits: 23 and 8, or 52 and 11.\<close>

definition fl_emin :: "nat \<Rightarrow> nat \<Rightarrow> int" where
  "fl_emin t w = 2 - 2 ^ (w - 1) - int t"

definition fl_decode :: "nat \<Rightarrow> nat \<Rightarrow> nat \<Rightarrow> fl" where
  "fl_decode t w n =
     (let s = (n div 2 ^ (t + w)) mod 2 = 1; ef = (n div 2 ^ t) mod 2 ^ w; fr = n mod 2 ^ t
      in if ef = 2 ^ w - 1 then (if fr = 0 then Inf s else NaN)
         else if ef = 0 then Num s fr (fl_emin t w)
         else Num s (fr + 2 ^ t) (fl_emin t w + int ef - 1))"

definition f32_dec :: "f32 \<Rightarrow> fl" where
  "f32_dec x = fl_decode 23 8 (unat x)"

definition f64_dec :: "f64 \<Rightarrow> fl" where
  "f64_dec x = fl_decode 52 11 (unat x)"

section \<open>Rounding\<close>

fun bitlen :: "nat \<Rightarrow> nat" where
  "bitlen n = (if n = 0 then 0 else Suc (bitlen (n div 2)))"

declare bitlen.simps [simp del]

text \<open>
  The pattern of the value \<open>m * 2 ^ e\<close>, or, with \<open>sticky\<close>, of a value strictly between
  \<open>m * 2 ^ e\<close> and \<open>(m + 1) * 2 ^ e\<close> (the callers then supply more bits than the format keeps).
\<close>

definition fl_round :: "nat \<Rightarrow> nat \<Rightarrow> bool \<Rightarrow> nat \<Rightarrow> int \<Rightarrow> bool \<Rightarrow> nat" where
  "fl_round t w s m e sticky =
     (let sbit = (if s then 2 ^ (t + w) else 0) in
      if m = 0 then sbit else
      let q = max (fl_emin t w) (e + int (bitlen m) - int (t + 1));
          m' = (if q \<le> e then m * 2 ^ nat (e - q)
                else let k = nat (q - e); hi = m div 2 ^ k; rem = m mod 2 ^ k; half = 2 ^ (k - 1)
                     in if rem > half \<or> (rem = half \<and> (sticky \<or> odd hi)) then hi + 1 else hi);
          mag = nat (q - fl_emin t w) * 2 ^ t + m';
          top = (2 ^ w - 1) * 2 ^ t
      in sbit + (if mag \<ge> top then top else mag))"

definition fl_nan :: "nat \<Rightarrow> nat \<Rightarrow> nat" where
  "fl_nan t w = (2 ^ w - 1) * 2 ^ t + 2 ^ (t - 1)"

fun fl_encode :: "nat \<Rightarrow> nat \<Rightarrow> fl \<Rightarrow> nat" where
  "fl_encode t w NaN = fl_nan t w"
| "fl_encode t w (Inf s) = (if s then 2 ^ (t + w) else 0) + (2 ^ w - 1) * 2 ^ t"
| "fl_encode t w (Num s m e) = fl_round t w s m e False"

definition f32_enc :: "fl \<Rightarrow> f32" where
  "f32_enc v = of_nat (fl_encode 23 8 v)"

definition f64_enc :: "fl \<Rightarrow> f64" where
  "f64_enc v = of_nat (fl_encode 52 11 v)"

section \<open>Exact operations\<close>

definition sgnd :: "bool \<Rightarrow> nat \<Rightarrow> int" where
  "sgnd s m = (if s then - int m else int m)"

fun fl_add :: "fl \<Rightarrow> fl \<Rightarrow> fl" where
  "fl_add NaN _ = NaN"
| "fl_add _ NaN = NaN"
| "fl_add (Inf s) (Inf s') = (if s = s' then Inf s else NaN)"
| "fl_add (Inf s) (Num _ _ _) = Inf s"
| "fl_add (Num _ _ _) (Inf s) = Inf s"
| "fl_add (Num s m e) (Num s' m' e') =
     (let e0 = min e e';
          z = sgnd s (m * 2 ^ nat (e - e0)) + sgnd s' (m' * 2 ^ nat (e' - e0))
      in if z = 0 then Num (s \<and> s') 0 e0 else Num (z < 0) (nat \<bar>z\<bar>) e0)"

fun fl_neg :: "fl \<Rightarrow> fl" where
  "fl_neg NaN = NaN"
| "fl_neg (Inf s) = Inf (\<not> s)"
| "fl_neg (Num s m e) = Num (\<not> s) m e"

fun fl_mul :: "fl \<Rightarrow> fl \<Rightarrow> fl" where
  "fl_mul NaN _ = NaN"
| "fl_mul _ NaN = NaN"
| "fl_mul (Inf s) (Inf s') = Inf (s \<noteq> s')"
| "fl_mul (Inf s) (Num s' m _) = (if m = 0 then NaN else Inf (s \<noteq> s'))"
| "fl_mul (Num s m _) (Inf s') = (if m = 0 then NaN else Inf (s \<noteq> s'))"
| "fl_mul (Num s m e) (Num s' m' e') = Num (s \<noteq> s') (m * m') (e + e')"

text \<open>Integer square root, one bit of the result per step.\<close>

fun isqrt :: "nat \<Rightarrow> nat" where
  "isqrt n = (if n = 0 then 0
              else let r = 2 * isqrt (n div 4) in if (r + 1) * (r + 1) \<le> n then r + 1 else r)"

declare isqrt.simps [simp del]

text \<open>
  Division and square root produce a significand longer than the format keeps, with the
  discarded tail as the sticky bit, and are rounded directly.
\<close>

fun fl_div_enc :: "nat \<Rightarrow> nat \<Rightarrow> fl \<Rightarrow> fl \<Rightarrow> nat" where
  "fl_div_enc t w NaN _ = fl_nan t w"
| "fl_div_enc t w _ NaN = fl_nan t w"
| "fl_div_enc t w (Inf s) (Inf s') = fl_nan t w"
| "fl_div_enc t w (Inf s) (Num s' m e) = fl_encode t w (Inf (s \<noteq> s'))"
| "fl_div_enc t w (Num s m e) (Inf s') = fl_encode t w (Num (s \<noteq> s') 0 0)"
| "fl_div_enc t w (Num s m e) (Num s' m' e') =
     (if m' = 0 then (if m = 0 then fl_nan t w else fl_encode t w (Inf (s \<noteq> s')))
      else let sh = t + 3 + bitlen m'; n = m * 2 ^ sh
           in fl_round t w (s \<noteq> s') (n div m') (e - e' - int sh) (n mod m' \<noteq> 0))"

fun fl_sqrt_enc :: "nat \<Rightarrow> nat \<Rightarrow> fl \<Rightarrow> nat" where
  "fl_sqrt_enc t w NaN = fl_nan t w"
| "fl_sqrt_enc t w (Inf s) = (if s then fl_nan t w else fl_encode t w (Inf False))"
| "fl_sqrt_enc t w (Num s m e) =
     (if m = 0 then fl_encode t w (Num s 0 e)
      else if s then fl_nan t w
      else let sh = (let k = 2 * (t + 3) in if even (e - int k) then k else k + 1);
               n = m * 2 ^ sh; r = isqrt n
           in fl_round t w False r ((e - int sh) div 2) (r * r \<noteq> n))"

definition f32_add :: "f32 \<Rightarrow> f32 \<Rightarrow> f32" where
  "f32_add x y = f32_enc (fl_add (f32_dec x) (f32_dec y))"

definition f32_neg :: "f32 \<Rightarrow> f32" where
  "f32_neg x = xor x 0x80000000"

definition f32_abs :: "f32 \<Rightarrow> f32" where
  "f32_abs x = and x 0x7FFFFFFF"

definition f32_sub :: "f32 \<Rightarrow> f32 \<Rightarrow> f32" where
  "f32_sub x y = f32_enc (fl_add (f32_dec x) (fl_neg (f32_dec y)))"

definition f32_mul :: "f32 \<Rightarrow> f32 \<Rightarrow> f32" where
  "f32_mul x y = f32_enc (fl_mul (f32_dec x) (f32_dec y))"

definition f32_div :: "f32 \<Rightarrow> f32 \<Rightarrow> f32" where
  "f32_div x y = of_nat (fl_div_enc 23 8 (f32_dec x) (f32_dec y))"

definition f32_sqrt :: "f32 \<Rightarrow> f32" where
  "f32_sqrt x = of_nat (fl_sqrt_enc 23 8 (f32_dec x))"

definition f64_mul :: "f64 \<Rightarrow> f64 \<Rightarrow> f64" where
  "f64_mul x y = f64_enc (fl_mul (f64_dec x) (f64_dec y))"

definition f64_add :: "f64 \<Rightarrow> f64 \<Rightarrow> f64" where
  "f64_add x y = f64_enc (fl_add (f64_dec x) (f64_dec y))"

definition f64_sub :: "f64 \<Rightarrow> f64 \<Rightarrow> f64" where
  "f64_sub x y = f64_enc (fl_add (f64_dec x) (fl_neg (f64_dec y)))"

section \<open>Casts\<close>

text \<open>\<open>n as f32\<close>, \<open>x as f64\<close>, \<open>x as f32\<close>\<close>

definition f32_of_nat :: "nat \<Rightarrow> f32" where
  "f32_of_nat n = f32_enc (Num False n 0)"

definition f64_of_f32 :: "f32 \<Rightarrow> f64" where
  "f64_of_f32 x = f64_enc (f32_dec x)"

definition f32_of_f64 :: "f64 \<Rightarrow> f32" where
  "f32_of_f64 x = f32_enc (f64_dec x)"

text \<open>\<open>f32::round\<close>: to the nearest integer, halves away from zero.\<close>

fun fl_trunc :: "fl \<Rightarrow> nat" where
  "fl_trunc (Num s m e) = (if e \<ge> 0 then m * 2 ^ nat e else m div 2 ^ nat (- e))"
| "fl_trunc _ = 0"

fun fl_round_int :: "fl \<Rightarrow> fl" where
  "fl_round_int (Num s m e) =
     (if e \<ge> 0 then Num s m e else Num s ((m + 2 ^ nat (- e - 1)) div 2 ^ nat (- e)) 0)"
| "fl_round_int v = v"

definition f32_round :: "f32 \<Rightarrow> f32" where
  "f32_round x = f32_enc (fl_round_int (f32_dec x))"

text \<open>\<open>x as u8\<close>: truncates and saturates, NaN becomes 0.\<close>

definition f32_to_u8 :: "f32 \<Rightarrow> u8" where
  "f32_to_u8 x = (case f32_dec x of
       NaN \<Rightarrow> 0
     | Inf s \<Rightarrow> if s then 0 else 255
     | Num s m e \<Rightarrow> if s then 0 else of_nat (min 255 (fl_trunc (Num s m e))))"

section \<open>Comparison\<close>

definition f32_is_nan :: "f32 \<Rightarrow> bool" where
  "f32_is_nan x = (unat x mod 2 ^ 31 > 0x7F800000)"

definition f32_key :: "f32 \<Rightarrow> int" where
  "f32_key x = (if unat x \<ge> 2 ^ 31 then - int (unat x - 2 ^ 31) else int (unat x))"

definition f32_lt :: "f32 \<Rightarrow> f32 \<Rightarrow> bool" where
  "f32_lt x y \<longleftrightarrow> \<not> f32_is_nan x \<and> \<not> f32_is_nan y \<and> f32_key x < f32_key y"

definition f32_le :: "f32 \<Rightarrow> f32 \<Rightarrow> bool" where
  "f32_le x y \<longleftrightarrow> \<not> f32_is_nan x \<and> \<not> f32_is_nan y \<and> f32_key x \<le> f32_key y"

definition f32_eq :: "f32 \<Rightarrow> f32 \<Rightarrow> bool" where
  "f32_eq x y \<longleftrightarrow> \<not> f32_is_nan x \<and> \<not> f32_is_nan y \<and> f32_key x = f32_key y"

definition f64_is_nan :: "f64 \<Rightarrow> bool" where
  "f64_is_nan x = (unat x mod 2 ^ 63 > 0x7FF0000000000000)"

definition f64_key :: "f64 \<Rightarrow> int" where
  "f64_key x = (if unat x \<ge> 2 ^ 63 then - int (unat x - 2 ^ 63) else int (unat x))"

definition f64_lt :: "f64 \<Rightarrow> f64 \<Rightarrow> bool" where
  "f64_lt x y \<longleftrightarrow> \<not> f64_is_nan x \<and> \<not> f64_is_nan y \<and> f64_key x < f64_key y"

definition f64_le :: "f64 \<Rightarrow> f64 \<Rightarrow> bool" where
  "f64_le x y \<longleftrightarrow> \<not> f64_is_nan x \<and> \<not> f64_is_nan y \<and> f64_key x \<le> f64_key y"

text \<open>\<open>OrderedFloat<f32>\<close>: its \<open>Ord\<close> compares these keys.\<close>

definition okey :: "f32 \<Rightarrow> int" where
  "okey x = (if f32_is_nan x then 2 ^ 31 else f32_key x)"

text \<open>\<open>f32::clamp\<close>\<close>

definition f32_clamp :: "f32 \<Rightarrow> f32 \<Rightarrow> f32 \<Rightarrow> f32" where
  "f32_clamp x lo hi =
     (let x' = (if f32_lt x lo then lo else x) in if f32_lt hi x' then hi else x')"

abbreviation f32_one :: f32 where "f32_one \<equiv> 0x3F800000"
abbreviation f32_neg_zero :: f32 where "f32_neg_zero \<equiv> 0x80000000"
abbreviation f32_MAX :: f32 where "f32_MAX \<equiv> 0x7F7FFFFF"
abbreviation f32_MIN :: f32 where "f32_MIN \<equiv> 0xFF7FFFFF"
abbreviation f32_EPSILON :: f32 where "f32_EPSILON \<equiv> 0x34000000"

text \<open>\<open>iter.sum::<f32>()\<close> folds from negative zero, the neutral element of addition.\<close>

definition f32_sum :: "f32 list \<Rightarrow> f32" where
  "f32_sum xs = foldl f32_add f32_neg_zero xs"

section \<open>The order\<close>

lemma f32_lt_okey: "f32_lt x y \<Longrightarrow> okey x < okey y"
  by (simp add: f32_lt_def okey_def)

lemma f32_lt_irrefl [simp]: "\<not> f32_lt x x"
  by (simp add: f32_lt_def)

lemma f32_lt_trans: "f32_lt x y \<Longrightarrow> f32_lt y z \<Longrightarrow> f32_lt x z"
  by (auto simp: f32_lt_def)

lemma okey_lt_iff: "\<not> f32_is_nan x \<Longrightarrow> \<not> f32_is_nan y \<Longrightarrow> f32_lt x y \<longleftrightarrow> okey x < okey y"
  by (simp add: f32_lt_def okey_def)

lemma f32_clamp_bounds:
  assumes "\<not> f32_is_nan x" "f32_le lo hi"
  shows "f32_le lo (f32_clamp x lo hi) \<and> f32_le (f32_clamp x lo hi) hi"
  using assms by (auto simp: f32_clamp_def Let_def f32_lt_def f32_le_def)

end
