(* ===== verification/Core.thy ===== *)
theory Core
  imports Floats
begin

text \<open>
  The crate \<open>likhadb-core\<close> and what every index shares: the metric, the error type, result rows,
  the scalar distance kernels of \<open>distance.rs\<close>, the accelerated \<open>simd_distance\<close> of
  \<open>likhadb-index/src/flat.rs\<close>, and the runtime record \<open>rt\<close>. The record holds what is not under
  \<open>src/\<close> or is left open by the language: the \<open>simsimd\<close> kernels, the iteration order of hash maps
  and of binary heaps, and the way \<open>rayon\<close> splits a parallel loop.
\<close>

section \<open>Types\<close>

datatype metric = Cosine | Dot | L2

type_synonym vec = "f32 list"

text \<open>
  \<open>LikhaDbError\<close>; the message of \<open>InvalidArgument\<close> and \<open>Fts\<close> is not modelled. \<open>Panicked\<close> is not
  a value of the Rust enum: it marks a run that ends in a panic instead of returning.
\<close>

datatype db_error =
    DimMismatch nat nat
  | CollectionNotFound string
  | VectorNotFound vecid
  | CollectionAlreadyExists string
  | InvalidArgument
  | FtsError
  | Panicked

text \<open>\<open>ScoredResult\<close>: the payload type is a parameter, the index layer never looks at it.\<close>

record 'p scored_result =
  r_id :: vecid
  r_score :: f32
  r_payload :: "'p option"

text \<open>\<open>SourceBinding\<close>: the Iceberg table a collection mirrors.\<close>

record source_binding =
  source_namespace :: "string list"
  source_table :: string
  id_column :: string
  vector_column :: string
  payload_columns :: "string list"

section \<open>The runtime\<close>

text \<open>
  How \<open>rayon\<close> divides the items of a parallel \<open>fold\<close>/\<open>reduce\<close>: a sequential leaf, or a split
  after \<open>n\<close> items whose halves are folded independently and then combined.
\<close>

datatype par = Seq | Split nat par par

record rt =
  k_dot :: "vec \<Rightarrow> vec \<Rightarrow> f64 option"
  k_cosine :: "vec \<Rightarrow> vec \<Rightarrow> f64 option"
  k_sqeuclidean :: "vec \<Rightarrow> vec \<Rightarrow> f64 option"
  id_heap_iter :: "(f32 \<times> vecid) list \<Rightarrow> (f32 \<times> vecid) list"
  node_heap_iter :: "(f32 \<times> nat) list \<Rightarrow> (f32 \<times> nat) list"
  hash_iter :: "vecid list \<Rightarrow> vecid list"
  par_tree :: "nat \<Rightarrow> par"
  num_threads :: nat

text \<open>Documented behaviour: iterators over heaps and maps visit every element exactly once.\<close>

definition rt_ok :: "rt \<Rightarrow> bool" where
  "rt_ok rt \<longleftrightarrow> (\<forall>h. mset (id_heap_iter rt h) = mset h) \<and>
     (\<forall>h. mset (node_heap_iter rt h) = mset h) \<and> (\<forall>ks. mset (hash_iter rt ks) = mset ks)"

lemma id_heap_iter_mset: "rt_ok rt \<Longrightarrow> mset (id_heap_iter rt h) = mset h"
  by (simp add: rt_ok_def)

lemma node_heap_iter_mset: "rt_ok rt \<Longrightarrow> mset (node_heap_iter rt h) = mset h"
  by (simp add: rt_ok_def)

lemma hash_iter_mset: "rt_ok rt \<Longrightarrow> mset (hash_iter rt ks) = mset ks"
  by (simp add: rt_ok_def)

lemma set_id_heap_iter: "rt_ok rt \<Longrightarrow> set (id_heap_iter rt h) = set h"
  by (metis id_heap_iter_mset set_mset_mset)

lemma set_node_heap_iter: "rt_ok rt \<Longrightarrow> set (node_heap_iter rt h) = set h"
  by (metis node_heap_iter_mset set_mset_mset)

lemma set_hash_iter: "rt_ok rt \<Longrightarrow> set (hash_iter rt ks) = set ks"
  by (metis hash_iter_mset set_mset_mset)

lemma distinct_hash_iter: "rt_ok rt \<Longrightarrow> distinct (hash_iter rt ks) \<longleftrightarrow> distinct ks"
  by (metis hash_iter_mset mset_eq_imp_distinct_iff)

text \<open>A runtime without accelerated kernels that visits everything in order, on one thread.\<close>

definition plain_rt :: rt where
  "plain_rt = \<lparr>k_dot = \<lambda>_ _. None, k_cosine = \<lambda>_ _. None, k_sqeuclidean = \<lambda>_ _. None,
     id_heap_iter = id, node_heap_iter = id, hash_iter = id, par_tree = \<lambda>_. Seq, num_threads = 1\<rparr>"

lemma plain_rt_ok: "rt_ok plain_rt"
  by (simp add: rt_ok_def plain_rt_def)

text \<open>
  \<open>par_iter().fold(init, step).reduce(init, combine)\<close>: every leaf folds its items from a fresh
  accumulator, and \<open>reduce\<close> combines starting from another fresh one.
\<close>

fun par_fold_reduce ::
  "par \<Rightarrow> 'b \<Rightarrow> ('b \<Rightarrow> 'a \<Rightarrow> 'b) \<Rightarrow> ('b \<Rightarrow> 'b \<Rightarrow> 'b) \<Rightarrow> 'a list \<Rightarrow> 'b" where
  "par_fold_reduce Seq init step combine xs = combine init (foldl step init xs)"
| "par_fold_reduce (Split n l r) init step combine xs =
     combine (par_fold_reduce l init step combine (take n xs))
       (par_fold_reduce r init step combine (drop n xs))"

lemma par_fold_reduce_inv:
  assumes "P init" "\<And>h x. P h \<Longrightarrow> x \<in> set xs \<Longrightarrow> P (step h x)" "\<And>a b. P a \<Longrightarrow> P b \<Longrightarrow> P (combine a b)"
  shows "P (par_fold_reduce t init step combine xs)"
  using assms(2)
proof (induction t arbitrary: xs)
  case Seq
  then have "P (foldl step h xs)" if "P h" for h
    using that by (induction xs arbitrary: h) auto
  then show ?case using assms(1,3) by simp
next
  case (Split n l r)
  have "P (par_fold_reduce l init step combine (take n xs))"
    by (rule Split.IH(1)) (metis Split.prems in_set_takeD)
  moreover have "P (par_fold_reduce r init step combine (drop n xs))"
    by (rule Split.IH(2)) (metis Split.prems in_set_dropD)
  ultimately show ?case using assms(3) by simp
qed

text \<open>\<open>filter.is_none_or(|f| f(id))\<close>\<close>

definition keep :: "(vecid \<Rightarrow> bool) option \<Rightarrow> vecid \<Rightarrow> bool" where
  "keep f y = (case f of None \<Rightarrow> True | Some p \<Rightarrow> p y)"

section \<open>Distances\<close>

definition dot_product :: "vec \<Rightarrow> vec \<Rightarrow> f32" where
  "dot_product a b = f32_sum (map2 f32_mul a b)"

definition cosine_distance :: "vec \<Rightarrow> vec \<Rightarrow> f32" where
  "cosine_distance a b =
     (let dot = dot_product a b;
          norm_a = f32_sqrt (f32_sum (map (\<lambda>x. f32_mul x x) a));
          norm_b = f32_sqrt (f32_sum (map (\<lambda>x. f32_mul x x) b))
      in f32_sub f32_one (f32_div dot (f32_add (f32_mul norm_a norm_b) f32_EPSILON)))"

definition l2_distance :: "vec \<Rightarrow> vec \<Rightarrow> f32" where
  "l2_distance a b =
     f32_sqrt (f32_sum (map2 (\<lambda>x y. f32_mul (f32_sub x y) (f32_sub x y)) a b))"

definition distance :: "metric \<Rightarrow> vec \<Rightarrow> vec \<Rightarrow> f32" where
  "distance m a b = (case m of
       Cosine \<Rightarrow> cosine_distance a b
     | Dot \<Rightarrow> f32_neg (dot_product a b)
     | L2 \<Rightarrow> l2_distance a b)"

definition simd_distance :: "rt \<Rightarrow> metric \<Rightarrow> vec \<Rightarrow> vec \<Rightarrow> f32" where
  "simd_distance rt m a b = (case m of
       Dot \<Rightarrow>
         let v = (case k_dot rt a b of Some v \<Rightarrow> v | None \<Rightarrow> f64_of_f32 (dot_product a b))
         in f32_neg (f32_of_f64 v)
     | Cosine \<Rightarrow>
         f32_of_f64 (case k_cosine rt a b of Some v \<Rightarrow> v | None \<Rightarrow> f64_of_f32 (cosine_distance a b))
     | L2 \<Rightarrow>
         let sq = (case k_sqeuclidean rt a b of
               Some v \<Rightarrow> v
             | None \<Rightarrow> f64_of_f32 (f32_mul (l2_distance a b) (l2_distance a b)))
         in f32_sqrt (f32_of_f64 sq))"

end
