(* ===== verification/TopK.thy ===== *)
theory TopK
  imports Core
begin

text \<open>
  \<open>BinaryHeap<(OrderedFloat<f32>, K)>\<close> and the bounded top-k accumulation every search runs. A heap
  is the ascending list of its elements under the tuple order, so the maximum is the last element
  and, for \<open>Reverse\<close>, the minimum the first. The main lemma says that folding \<open>topk_push\<close> over any
  input, split and merged by \<open>rayon\<close> in any way, keeps exactly the \<open>k\<close> smallest keys.
\<close>

section \<open>Binary heaps\<close>

definition hkey :: "f32 \<times> 'k::linorder \<Rightarrow> int \<times> 'k" where
  "hkey x = (okey (fst x), snd x)"

definition heap_push :: "f32 \<times> 'k::linorder \<Rightarrow> (f32 \<times> 'k) list \<Rightarrow> (f32 \<times> 'k) list" where
  "heap_push x h = insort_key hkey x h"

definition heap_peek :: "'a list \<Rightarrow> 'a option" where
  "heap_peek h = (if h = [] then None else Some (last h))"

definition heap_pop :: "'a list \<Rightarrow> 'a list" where
  "heap_pop h = butlast h"

definition heap_ok :: "(f32 \<times> 'k::linorder) list \<Rightarrow> bool" where
  "heap_ok h \<longleftrightarrow> sorted (map hkey h)"

lemma heap_ok_Nil [simp]: "heap_ok []"
  by (simp add: heap_ok_def)

lemma heap_ok_push [simp]: "heap_ok (heap_push x h) \<longleftrightarrow> heap_ok h"
  by (simp add: heap_ok_def heap_push_def sorted_insort_key)

lemma heap_ok_pop: "heap_ok h \<Longrightarrow> heap_ok (heap_pop h)"
  by (simp add: heap_ok_def heap_pop_def map_butlast sorted_butlast)

lemma length_heap_pop [simp, termination_simp]: "length (heap_pop h) = length h - 1"
  by (simp add: heap_pop_def)

lemma set_heap_pop: "set (heap_pop h) \<subseteq> set h"
  by (auto simp: heap_pop_def dest: in_set_butlastD)

lemma set_heap_push [simp]: "set (heap_push x h) = insert x (set h)"
  by (simp add: heap_push_def set_insort_key)

lemma length_heap_push [simp]: "length (heap_push x h) = Suc (length h)"
  by (simp add: heap_push_def length_insort)

lemma mset_heap_push [simp]: "mset (heap_push x h) = add_mset x (mset h)"
  by (simp add: heap_push_def)

section \<open>Sorted keys\<close>

definition keys :: "(f32 \<times> 'k) list \<Rightarrow> int list" where
  "keys h = map (okey \<circ> fst) h"

lemma keys_Nil [simp]: "keys [] = []"
  and keys_Cons [simp]: "keys (x # xs) = okey (fst x) # keys xs"
  and keys_append [simp]: "keys (xs @ ys) = keys xs @ keys ys"
  and length_keys [simp]: "length (keys xs) = length xs"
  by (simp_all add: keys_def)

lemma sorted_keys: "heap_ok h \<Longrightarrow> sorted (keys h)"
proof -
  assume "heap_ok h"
  then have "sorted (map fst (map hkey h))"
    unfolding heap_ok_def
    by (induction h) (auto simp: hkey_def less_eq_prod_def)
  then show ?thesis by (simp add: keys_def hkey_def comp_def)
qed

lemma mset_keys_push: "mset (keys (heap_push x h)) = add_mset (okey (fst x)) (mset (keys h))"
  by (metis keys_Cons keys_def mset.simps(2) mset_heap_push mset_map)

lemma sorted_mset_unique: "sorted xs \<Longrightarrow> sorted ys \<Longrightarrow> mset xs = mset ys \<Longrightarrow> xs = ys"
  by (metis properties_for_sort sorted_sort_id)

lemma keys_heap_push: "heap_ok h \<Longrightarrow> keys (heap_push x h) = insort (okey (fst x)) (keys h)"
  by (rule sorted_mset_unique)
    (simp_all add: sorted_keys mset_keys_push sorted_insort)

section \<open>Bounded accumulation\<close>

text \<open>
  \<open>if heap.len() < k { push } else if let Some(&(worst, _)) = heap.peek() { if dist < worst
  { pop; push } }\<close>
\<close>

definition topk_push :: "nat \<Rightarrow> (f32 \<times> 'k::linorder) list \<Rightarrow> f32 \<times> 'k \<Rightarrow> (f32 \<times> 'k) list" where
  "topk_push k h x =
     (if length h < k then heap_push x h
      else case heap_peek h of
          None \<Rightarrow> h
        | Some worst \<Rightarrow> if okey (fst x) < okey (fst worst) then heap_push x (heap_pop h) else h)"

lemma heap_ok_topk_push: "heap_ok h \<Longrightarrow> heap_ok (topk_push k h x)"
  by (simp add: topk_push_def heap_ok_pop split: option.split)

lemma mset_butlast_subset: "mset (butlast xs) \<subseteq># mset xs"
  by (metis append_butlast_last_id butlast.simps(1) mset_append mset_subset_eq_add_left subset_mset.order_refl)

lemma topk_push_mset: "mset (topk_push k h x) \<subseteq># add_mset x (mset h)"
proof -
  have "add_mset x (mset (heap_pop h)) \<subseteq># add_mset x (mset h)"
    by (simp add: heap_pop_def mset_butlast_subset)
  moreover have "mset h \<subseteq># add_mset x (mset h)" by simp
  ultimately show ?thesis by (auto simp: topk_push_def split: option.split)
qed

lemma length_topk_push: "length h \<le> k \<Longrightarrow> length (topk_push k h x) \<le> k"
  by (auto simp: topk_push_def heap_pop_def heap_peek_def split: option.split)

lemma sorted_le_last: "sorted xs \<Longrightarrow> y \<in> set xs \<Longrightarrow> y \<le> last xs"
  by (induction xs) auto

lemma insort_greater_last:
  "sorted xs \<Longrightarrow> \<forall>y \<in> set xs. y \<le> x \<Longrightarrow> insort x xs = xs @ [x]" for x :: "'a::linorder"
  by (rule sorted_mset_unique) (simp_all add: sorted_append sorted_insort)

lemma take_insort_butlast:
  fixes x :: "'a::linorder"
  assumes "sorted ys" "ys \<noteq> []" "x < last ys"
  shows "insort x (butlast ys) = take (length ys) (insort x ys)"
proof -
  have le: "\<forall>y \<in> set (butlast ys). y \<le> last ys"
    using assms(1,2) by (metis append_butlast_last_id list.set_intros(1) sorted_append)
  have "insort x (butlast ys) @ [last ys] = insort x ys"
  proof (rule sorted_mset_unique)
    show "sorted (insort x (butlast ys) @ [last ys])"
      using assms le by (auto simp: sorted_append sorted_insort sorted_butlast set_insort_key)
    show "sorted (insort x ys)" using assms by (simp add: sorted_insort)
    show "mset (insort x (butlast ys) @ [last ys]) = mset (insort x ys)"
      using assms(2) by (metis append_butlast_last_id mset_append mset_insort union_mset_add_mset_left)
  qed
  moreover have "length (insort x (butlast ys)) = length ys"
    using assms(2) by (simp add: length_insort)
  ultimately show ?thesis by (metis append_eq_conv_conj)
qed

lemma keys_topk_push:
  assumes "heap_ok h" "length h \<le> k"
  shows "keys (topk_push k h x) = take k (insort (okey (fst x)) (keys h))"
proof (cases "length h < k")
  case True
  then show ?thesis using assms by (simp add: topk_push_def keys_heap_push length_insort)
next
  case False
  with assms have len: "length h = k" by simp
  show ?thesis
  proof (cases "h = []")
    case True
    then show ?thesis using len by (simp add: topk_push_def heap_peek_def)
  next
    case ne: False
    have last: "okey (fst (last h)) = last (keys h)"
      using ne by (simp add: keys_def last_map)
    have srt: "sorted (keys h)" using assms(1) by (rule sorted_keys)
    show ?thesis
    proof (cases "okey (fst x) < okey (fst (last h))")
      case True
      have "keys (heap_pop h) = butlast (keys h)" by (simp add: heap_pop_def keys_def map_butlast)
      with True ne False have "keys (topk_push k h x) = insort (okey (fst x)) (butlast (keys h))"
        using assms by (simp add: topk_push_def heap_peek_def keys_heap_push heap_ok_pop)
      also have "\<dots> = take (length (keys h)) (insort (okey (fst x)) (keys h))"
        using srt ne True last by (intro take_insort_butlast) (auto simp: keys_def)
      finally show ?thesis using len by simp
    next
      case ge: False
      have "\<forall>y \<in> set (keys h). y \<le> last (keys h)"
        using srt by (blast intro: sorted_le_last)
      with ge last have "\<forall>y \<in> set (keys h). y \<le> okey (fst x)" by auto
      with srt have "insort (okey (fst x)) (keys h) = keys h @ [okey (fst x)]"
        by (rule insort_greater_last)
      then show ?thesis using ge ne False len by (simp add: topk_push_def heap_peek_def)
    qed
  qed
qed

definition topk_fold :: "nat \<Rightarrow> (f32 \<times> 'k::linorder) list \<Rightarrow> (f32 \<times> 'k) list \<Rightarrow> (f32 \<times> 'k) list" where
  "topk_fold k h xs = foldl (topk_push k) h xs"

lemma heap_ok_topk_fold: "heap_ok h \<Longrightarrow> heap_ok (topk_fold k h xs)"
  unfolding topk_fold_def by (induction xs arbitrary: h) (auto simp: heap_ok_topk_push)

lemma length_topk_fold: "length h \<le> k \<Longrightarrow> length (topk_fold k h xs) \<le> k"
  unfolding topk_fold_def by (induction xs arbitrary: h) (auto simp: length_topk_push)

lemma topk_fold_mset: "mset (topk_fold k h xs) \<subseteq># mset h + mset xs"
  unfolding topk_fold_def
proof (induction xs arbitrary: h)
  case (Cons x xs)
  have "mset (topk_push k h x) + mset xs \<subseteq># add_mset x (mset h) + mset xs"
    by (rule subset_mset.add_right_mono) (rule topk_push_mset)
  with Cons [of "topk_push k h x"] have
    "mset (foldl (topk_push k) (topk_push k h x) xs) \<subseteq># add_mset x (mset h) + mset xs"
    by (rule subset_mset.order_trans)
  then show ?case by simp
qed simp

lemma take_insort_take:
  fixes x :: "'a::linorder"
  assumes "sorted ys"
  shows "take k (insort x (take k ys)) = take k (insort x ys)"
  using assms
proof (induction ys arbitrary: k)
  case (Cons y ys)
  show ?case
  proof (cases k)
    case (Suc j)
    show ?thesis
    proof (cases "x \<le> y")
      case True
      then show ?thesis using Suc by (simp add: take_Cons' min_def)
    next
      case False
      then show ?thesis using Suc Cons by simp
    qed
  qed simp
qed simp

text \<open>The keys of a bounded fold are the \<open>k\<close> smallest of everything seen.\<close>

lemma keys_topk_fold:
  assumes "heap_ok h" "length h \<le> k"
  shows "keys (topk_fold k h xs) = take k (sort (keys h @ keys xs))"
  using assms
proof (induction xs arbitrary: h rule: rev_induct)
  case Nil
  then show ?case by (simp add: topk_fold_def sorted_sort_id sorted_keys)
next
  case (snoc x xs)
  have "keys (topk_fold k h (xs @ [x])) =
      take k (insort (okey (fst x)) (keys (topk_fold k h xs)))"
    using snoc.prems
    by (simp add: topk_fold_def keys_topk_push heap_ok_topk_fold [unfolded topk_fold_def]
        length_topk_fold [unfolded topk_fold_def])
  also have "\<dots> = take k (insort (okey (fst x)) (sort (keys h @ keys xs)))"
    using snoc by (simp add: take_insort_take)
  also have "insort (okey (fst x)) (sort (keys h @ keys xs)) = sort (keys h @ keys (xs @ [x]))"
    by (rule sorted_mset_unique) (simp_all add: sorted_insort)
  finally show ?case .
qed

section \<open>Parallel accumulation\<close>

text \<open>The \<open>reduce\<close> closure: push the items of one heap, in its iteration order, into the other.\<close>

definition topk_merge ::
  "((f32 \<times> 'k::linorder) list \<Rightarrow> (f32 \<times> 'k) list) \<Rightarrow> nat \<Rightarrow> (f32 \<times> 'k) list \<Rightarrow> (f32 \<times> 'k) list \<Rightarrow> (f32 \<times> 'k) list" where
  "topk_merge iter k a b = topk_fold k a (iter b)"

lemma keys_iter_mset:
  "mset (iter h) = mset h \<Longrightarrow> sort (keys xs @ keys (iter h)) = sort (keys xs @ keys h)"
  by (rule sorted_mset_unique) (simp_all add: keys_def)

lemma take_sort_append_take:
  fixes xs ys :: "'a::linorder list"
  shows "take k (sort (xs @ take k (sort ys))) = take k (sort (xs @ ys))"
proof (induction xs)
  case Nil
  then show ?case by (simp add: sorted_sort_id sorted_wrt_take)
next
  case (Cons x xs)
  have "take k (sort ((x # xs) @ take k (sort ys))) =
      take k (insort x (take k (sort (xs @ take k (sort ys)))))"
    by (simp add: take_insort_take)
  also have "\<dots> = take k (insort x (sort (xs @ ys)))"
    by (simp add: Cons.IH take_insort_take)
  finally show ?case by simp
qed

lemma append_take_sort_swap: "sort (xs @ ys) = sort (ys @ (xs :: 'a::linorder list))"
  by (rule sorted_mset_unique) simp_all

lemma take_sort_both:
  fixes xs ys :: "'a::linorder list"
  shows "take k (sort (take k (sort xs) @ take k (sort ys))) = take k (sort (xs @ ys))"
proof -
  have "take k (sort (take k (sort xs) @ take k (sort ys))) =
      take k (sort (ys @ take k (sort xs)))"
    by (metis append_take_sort_swap take_sort_append_take)
  then show ?thesis by (metis append_take_sort_swap take_sort_append_take)
qed

text \<open>
  Whatever the split of the input and whatever order heaps are iterated in, the parallel
  accumulation ends with the \<open>k\<close> smallest keys of the input.
\<close>

lemma par_topk_invariant:
  assumes "\<And>h. mset (iter h) = mset h"
  shows "heap_ok (par_fold_reduce t [] (topk_push k) (topk_merge iter k) xs) \<and>
    length (par_fold_reduce t [] (topk_push k) (topk_merge iter k) xs) \<le> k \<and>
    mset (par_fold_reduce t [] (topk_push k) (topk_merge iter k) xs) \<subseteq># mset xs \<and>
    keys (par_fold_reduce t [] (topk_push k) (topk_merge iter k) xs) = take k (sort (keys xs))"
proof (induction t arbitrary: xs)
  case Seq
  let ?h = "topk_fold k [] xs"
  have "keys (topk_fold k [] (iter ?h)) = take k (sort (keys ?h))"
    using keys_topk_fold [of "[]" k "iter ?h"] keys_iter_mset [of iter ?h "[]"] assms by simp
  also have "\<dots> = take k (sort (keys xs))"
    using keys_topk_fold [of "[]" k xs] by (simp add: sorted_sort_id sorted_wrt_take)
  finally have k: "keys (topk_fold k [] (iter ?h)) = take k (sort (keys xs))" .
  have "mset (topk_fold k [] (iter ?h)) \<subseteq># mset ?h"
    using topk_fold_mset [of k "[]" "iter ?h"] assms by simp
  also have "mset ?h \<subseteq># mset xs" using topk_fold_mset [of k "[]" xs] by simp
  finally show ?case
    using k by (simp add: topk_merge_def heap_ok_topk_fold length_topk_fold flip: topk_fold_def)
next
  case (Split n l r)
  let ?pfr = "\<lambda>t xs. par_fold_reduce t [] (topk_push k) (topk_merge iter k) xs"
  let ?a = "?pfr l (take n xs)" and ?b = "?pfr r (drop n xs)"
  have a: "heap_ok ?a" "length ?a \<le> k" "mset ?a \<subseteq># mset (take n xs)"
      "keys ?a = take k (sort (keys (take n xs)))"
    and b: "mset ?b \<subseteq># mset (drop n xs)" "keys ?b = take k (sort (keys (drop n xs)))"
    using Split.IH(1) [of "take n xs"] Split.IH(2) [of "drop n xs"] by auto
  have "keys (topk_fold k ?a (iter ?b)) = take k (sort (keys ?a @ keys ?b))"
    using keys_topk_fold [OF a(1,2)] keys_iter_mset [of iter ?b ?a] assms by simp
  also have "\<dots> = take k (sort (keys (take n xs) @ keys (drop n xs)))"
    by (simp add: a(4) b(2) take_sort_both)
  also have "keys (take n xs) @ keys (drop n xs) = keys xs"
    by (metis append_take_drop_id keys_append)
  finally have k: "keys (topk_fold k ?a (iter ?b)) = take k (sort (keys xs))" .
  have "mset (topk_fold k ?a (iter ?b)) \<subseteq># mset ?a + mset ?b"
    using topk_fold_mset [of k ?a "iter ?b"] assms by simp
  also have "\<dots> \<subseteq># mset (take n xs) + mset (drop n xs)"
    using a(3) b(1) by (rule subset_mset.add_mono)
  also have "\<dots> = mset xs" by (metis append_take_drop_id mset_append)
  finally show ?case
    using k a heap_ok_topk_fold [OF a(1)] length_topk_fold [OF a(2)]
    by (simp add: topk_merge_def [of iter k ?a ?b])
qed

section \<open>Result lists\<close>

text \<open>
  \<open>results.sort_by(|a, b| OrderedFloat(a.score).partial_cmp(&OrderedFloat(b.score)))\<close>: a stable
  sort on the key of the score.
\<close>

definition result_of :: "f32 \<times> vecid \<Rightarrow> 'p scored_result" where
  "result_of x = \<lparr>r_id = snd x, r_score = fst x, r_payload = None\<rparr>"

definition sort_results :: "'p scored_result list \<Rightarrow> 'p scored_result list" where
  "sort_results rs = sort_key (okey \<circ> r_score) rs"

abbreviation score_keys :: "'p scored_result list \<Rightarrow> int list" where
  "score_keys rs \<equiv> map (okey \<circ> r_score) rs"

text \<open>\<open>sorted_results\<close> of \<open>ivf.rs\<close>, inlined in \<open>FlatIndex::search\<close>.\<close>

definition sorted_results :: "rt \<Rightarrow> (f32 \<times> vecid) list \<Rightarrow> 'p scored_result list" where
  "sorted_results rt heap = sort_results (map result_of (id_heap_iter rt heap))"

lemma score_keys_results:
  assumes "rt_ok rt"
  shows "score_keys (sorted_results rt h :: 'p scored_result list) = sort (keys h)"
proof (rule sorted_mset_unique)
  have "mset (score_keys (sorted_results rt h :: 'p scored_result list)) =
      image_mset (\<lambda>x. okey (fst x)) (mset (id_heap_iter rt h))"
    by (simp add: sorted_results_def sort_results_def result_of_def comp_def
        multiset.map_comp)
  then show "mset (score_keys (sorted_results rt h :: 'p scored_result list)) = mset (sort (keys h))"
    using assms by (simp add: id_heap_iter_mset keys_def comp_def)
qed (simp_all add: sorted_results_def sort_results_def)

lemma mset_sorted_results:
  "rt_ok rt \<Longrightarrow> mset (sorted_results rt h) = image_mset result_of (mset h)"
  by (simp add: sorted_results_def sort_results_def id_heap_iter_mset)

lemma set_sorted_results:
  "rt_ok rt \<Longrightarrow> set (sorted_results rt h) = result_of ` set h"
  by (simp add: sorted_results_def sort_results_def set_id_heap_iter)

lemma length_sorted_results: "rt_ok rt \<Longrightarrow> length (sorted_results rt h) = length h"
  by (metis mset_sorted_results size_image_mset size_mset)

lemma sorted_score_keys: "sorted (score_keys (sorted_results rt h))"
  by (simp add: sorted_results_def sort_results_def)

section \<open>Specification of an exact search\<close>

text \<open>
  \<open>rs\<close> is a list of the \<open>k\<close> best of the candidates \<open>items\<close>: its scores are the \<open>k\<close> smallest, in
  ascending order, and its rows are distinct occurrences of candidates (equal scores at the cut may
  be chosen either way).
\<close>

definition is_top_k :: "nat \<Rightarrow> (f32 \<times> vecid) list \<Rightarrow> 'p scored_result list \<Rightarrow> bool" where
  "is_top_k k items rs \<longleftrightarrow> score_keys rs = take k (sort (keys items)) \<and>
     mset rs \<subseteq># mset (map result_of items)"

lemma is_top_k_length: "is_top_k k items rs \<Longrightarrow> length rs = min k (length items)"
proof -
  assume "is_top_k k items rs"
  then have "length (score_keys rs) = length (take k (sort (keys items)))"
    by (simp only: is_top_k_def)
  then show ?thesis by simp
qed

lemma is_top_k_sorted: "is_top_k k items rs \<Longrightarrow> sorted (score_keys rs)"
  by (simp add: is_top_k_def sorted_wrt_take)

lemma is_top_k_set: "is_top_k k items rs \<Longrightarrow> set rs \<subseteq> result_of ` set items"
  unfolding is_top_k_def by (metis list.set_map set_mset_mono set_mset_mset)

lemma is_top_k_distinct:
  assumes "is_top_k k items rs" "distinct (map snd items)"
  shows "distinct (map r_id rs)"
proof -
  have "mset (map r_id rs) \<subseteq># image_mset r_id (mset (map result_of items :: 'a scored_result list))"
    using assms(1) unfolding is_top_k_def by (metis image_mset_subseteq_mono mset_map)
  also have "\<dots> = mset (map snd items)"
    by (simp add: multiset.map_comp comp_def result_of_def)
  finally show ?thesis using assms(2) by (rule mset_sub_distinct)
qed

lemma is_top_k_Nil: "k = 0 \<or> items = [] \<Longrightarrow> is_top_k k items []"
  by (auto simp: is_top_k_def)

text \<open>
  A parallel loop whose iterations each push a list of items is a parallel loop over those items.
\<close>

lemma par_fold_reduce_concat:
  "\<exists>t'. par_fold_reduce t init (\<lambda>h x. foldl step h (g x)) comb xs =
    par_fold_reduce t' init step comb (concat (map g xs))"
proof (induction t arbitrary: xs)
  case Seq
  have "foldl (\<lambda>h x. foldl step h (g x)) init xs = foldl step init (concat (map g xs))"
    by (induction xs arbitrary: init) auto
  then have "par_fold_reduce Seq init (\<lambda>h x. foldl step h (g x)) comb xs =
      par_fold_reduce Seq init step comb (concat (map g xs))" by simp
  then show ?case by blast
next
  case (Split n l r)
  let ?m = "length (concat (map g (take n xs)))"
  obtain l' r' where
    "par_fold_reduce l init (\<lambda>h x. foldl step h (g x)) comb (take n xs) =
       par_fold_reduce l' init step comb (concat (map g (take n xs)))"
    "par_fold_reduce r init (\<lambda>h x. foldl step h (g x)) comb (drop n xs) =
       par_fold_reduce r' init step comb (concat (map g (drop n xs)))"
    using Split.IH by metis
  moreover have "concat (map g xs) = concat (map g (take n xs)) @ concat (map g (drop n xs))"
    by (metis append_take_drop_id concat_append map_append)
  ultimately have "par_fold_reduce (Split n l r) init (\<lambda>h x. foldl step h (g x)) comb xs =
      par_fold_reduce (Split ?m l' r') init step comb (concat (map g xs))"
    by simp
  then show ?case by blast
qed

lemma par_search_top_k:
  assumes "rt_ok rt"
  shows "is_top_k k (concat (map g xs)) (sorted_results rt
    (par_fold_reduce t [] (\<lambda>h x. foldl (topk_push k) h (g x)) (topk_merge (id_heap_iter rt) k) xs))"
proof -
  obtain t' where t': "par_fold_reduce t [] (\<lambda>h x. foldl (topk_push k) h (g x))
      (topk_merge (id_heap_iter rt) k) xs =
      par_fold_reduce t' [] (topk_push k) (topk_merge (id_heap_iter rt) k) (concat (map g xs))"
      (is "?a = ?b")
    using par_fold_reduce_concat by metis
  have b: "mset ?b \<subseteq># mset (concat (map g xs))" "keys ?b = take k (sort (keys (concat (map g xs))))"
    using par_topk_invariant [of "id_heap_iter rt" t' k "concat (map g xs)"] assms
    by (simp_all add: id_heap_iter_mset)
  have "mset (sorted_results rt ?b) \<subseteq># mset (map result_of (concat (map g xs)))"
    using image_mset_subseteq_mono [OF b(1)] assms by (simp add: mset_sorted_results)
  moreover have "score_keys (sorted_results rt ?b) = take k (sort (keys (concat (map g xs))))"
    using assms by (simp add: score_keys_results b(2) sorted_sort_id sorted_wrt_take)
  ultimately show ?thesis by (simp only: t' is_top_k_def)
qed

lemma seq_search_top_k:
  assumes "rt_ok rt"
  shows "is_top_k k items (sorted_results rt (topk_fold k [] items))"
proof -
  have "mset (topk_fold k [] items) \<subseteq># mset items" using topk_fold_mset [of k "[]" items] by simp
  then have "mset (sorted_results rt (topk_fold k [] items)) \<subseteq># mset (map result_of items)"
    using image_mset_subseteq_mono assms by (fastforce simp: mset_sorted_results)
  moreover have "keys (topk_fold k [] items) = take k (sort (keys items))"
    using keys_topk_fold [of "[]" k items] by simp
  ultimately show ?thesis
    using assms by (simp add: is_top_k_def score_keys_results sorted_sort_id sorted_wrt_take)
qed

lemma is_top_k_mset: "mset xs = mset ys \<Longrightarrow> is_top_k k xs rs \<longleftrightarrow> is_top_k k ys rs"
proof -
  assume m: "mset xs = mset ys"
  then have "sort (keys xs) = sort (keys ys)"
    by (intro sorted_mset_unique) (simp_all add: keys_def)
  with m show ?thesis by (simp add: is_top_k_def)
qed

end
