(* ===== verification/Traits.thy ===== *)
theory Traits
  imports TopK
begin

text \<open>
  The trait \<open>VectorIndex\<close> of \<open>likhadb-index/src/traits.rs\<close>. Its default \<open>insert_batch\<close> is a function of
  the \<open>insert\<close> it delegates to. The contract every implementation keeps is the locale
  \<open>vector_index\<close>: what the ids, the count and the search results are after each operation, whatever
  the implementation stores. \<open>exact_store\<close> adds that a lookup returns the vector inserted last, and
  \<open>exact_search\<close> that a search returns the nearest live vectors. The component theories interpret
  the locales on the models of the flat, IVF and HNSW indexes and on the boxed trait object.
\<close>

section \<open>Default method\<close>

text \<open>
  A failing \<open>insert\<close> leaves the batch half applied, so the state is returned with the error too.
\<close>

fun default_insert_batch ::
  "('s \<Rightarrow> vecid \<Rightarrow> vec \<Rightarrow> db_error + 's) \<Rightarrow> 's \<Rightarrow> (vecid \<times> vec) list \<Rightarrow> (db_error + unit) \<times> 's" where
  "default_insert_batch ins s [] = (Inr (), s)"
| "default_insert_batch ins s ((y, v) # vs) =
     (case ins s y v of
        Inl e \<Rightarrow> (Inl e, s)
      | Inr s' \<Rightarrow> default_insert_batch ins s' vs)"

lemma default_insert_batch_fold:
  assumes step: "\<And>s y v. I s \<Longrightarrow> length v = d \<Longrightarrow>
      \<exists>s'. ins s y v = Inr s' \<and> I s' \<and> view s' = upd (view s) (y, v)"
    and "I s" "\<forall>(y, v) \<in> set vs. length v = d"
  shows "\<exists>s'. default_insert_batch ins s vs = (Inr (), s') \<and> I s' \<and> view s' = foldl upd (view s) vs"
  using assms(2,3)
proof (induction vs arbitrary: s)
  case (Cons x vs)
  obtain y v where x: "x = (y, v)" by (cases x)
  then obtain s1 where "ins s y v = Inr s1" "I s1" "view s1 = upd (view s) (y, v)"
    using step [of s v y] Cons.prems by auto
  then show ?case using Cons.IH [of s1] Cons.prems(2) x by auto
qed simp

text \<open>A row of the wrong length stops the batch after the rows before it.\<close>

lemma default_insert_batch_err:
  assumes step: "\<And>s y v. I s \<Longrightarrow> length v = d \<Longrightarrow> \<exists>s'. ins s y v = Inr s' \<and> I s'"
    and err: "\<And>s y v. I s \<Longrightarrow> length v \<noteq> d \<Longrightarrow> ins s y v = Inl (DimMismatch d (length v))"
    and "I s" "\<not> (\<forall>(y, v) \<in> set vs. length v = d)"
  shows "\<exists>n s'. default_insert_batch ins s vs = (Inl (DimMismatch d n), s') \<and> I s'"
  using assms(3,4)
proof (induction vs arbitrary: s)
  case (Cons x vs)
  obtain y v where x: "x = (y, v)" by (cases x)
  show ?case
  proof (cases "length v = d")
    case True
    then obtain s1 where "ins s y v = Inr s1" "I s1" using step [OF Cons.prems(1)] by blast
    then show ?thesis using Cons.IH [of s1] Cons.prems(2) True x by auto
  next
    case False
    then show ?thesis using err [OF Cons.prems(1)] Cons.prems(1) x by simp
  qed
qed simp

lemma foldl_map_upd: "foldl (\<lambda>m (y, v). m(y \<mapsto> v)) m vs = m ++ map_of (rev vs)"
proof (induction vs rule: rev_induct)
  case (snoc x vs)
  then show ?case by (cases x) (simp add: map_add_def fun_eq_iff)
qed simp

lemma foldl_insert_key: "foldl (\<lambda>D (y, v). {y} \<union> D) D vs = D \<union> fst ` set vs"
  by (induction vs arbitrary: D) auto

text \<open>The candidates of an exhaustive scan of a store.\<close>

definition scan_items ::
  "rt \<Rightarrow> metric \<Rightarrow> (vecid \<Rightarrow> vec option) \<Rightarrow> vecid list \<Rightarrow> vec \<Rightarrow> (vecid \<Rightarrow> bool) option \<Rightarrow> (f32 \<times> vecid) list"
where
  "scan_items rt m gt ids q f =
     map (\<lambda>y. (simd_distance rt m q (the (gt y)), y)) (filter (keep f) ids)"

lemma scan_items_ids: "map snd (scan_items rt m gt ids q f) = filter (keep f) ids"
  by (simp add: scan_items_def comp_def)

section \<open>The contract\<close>

text \<open>
  The first argument of \<open>insert\<close> is the level the HNSW index draws for the new node; the other
  indexes ignore it. \<open>insert_batch\<close> takes one draw per row.
\<close>

locale vector_index =
  fixes ok :: "'s \<Rightarrow> bool"
    and dim_of :: "'s \<Rightarrow> nat"
    and insert :: "nat \<Rightarrow> 's \<Rightarrow> vecid \<Rightarrow> vec \<Rightarrow> db_error + 's"
    and insert_batch :: "(nat \<Rightarrow> nat) \<Rightarrow> 's \<Rightarrow> (vecid \<times> vec) list \<Rightarrow> (db_error + unit) \<times> 's"
    and delete :: "'s \<Rightarrow> vecid \<Rightarrow> bool \<times> 's"
    and search :: "'s \<Rightarrow> vec \<Rightarrow> nat \<Rightarrow> (vecid \<Rightarrow> bool) option \<Rightarrow> db_error + 'p scored_result list"
    and get :: "'s \<Rightarrow> vecid \<Rightarrow> vec option"
    and len :: "'s \<Rightarrow> nat"
    and list_ids :: "'s \<Rightarrow> vecid list"
  assumes insert_mismatch:
      "length v \<noteq> dim_of s \<Longrightarrow> insert l s y v = Inl (DimMismatch (dim_of s) (length v))"
    and insert_total: "length v = dim_of s \<Longrightarrow> \<exists>s'. insert l s y v = Inr s'"
    and insert_ok: "ok s \<Longrightarrow> insert l s y v = Inr s' \<Longrightarrow>
      ok s' \<and> dim_of s' = dim_of s \<and> dom (get s') = {y} \<union> dom (get s)"
    and batch_ok: "ok s \<Longrightarrow> \<forall>(y, v) \<in> set vs. length v = dim_of s \<Longrightarrow>
      \<exists>s'. insert_batch ls s vs = (Inr (), s') \<and> ok s' \<and> dim_of s' = dim_of s \<and>
        dom (get s') = dom (get s) \<union> fst ` set vs"
    and batch_err: "ok s \<Longrightarrow> \<not> (\<forall>(y, v) \<in> set vs. length v = dim_of s) \<Longrightarrow>
      \<exists>n s'. insert_batch ls s vs = (Inl (DimMismatch (dim_of s) n), s') \<and> ok s' \<and> dim_of s' = dim_of s \<and>
        dom (get s) \<subseteq> dom (get s')"
    and delete_ok: "ok s \<Longrightarrow> delete s y = (b, s') \<Longrightarrow>
      ok s' \<and> dim_of s' = dim_of s \<and> b = (get s y \<noteq> None) \<and> get s' = (get s)(y := None)"
    and get_dim: "ok s \<Longrightarrow> get s y = Some v \<Longrightarrow> length v = dim_of s"
    and len_ok: "ok s \<Longrightarrow> len s = card (dom (get s))"
    and list_ids_ok: "ok s \<Longrightarrow> distinct (list_ids s) \<and> set (list_ids s) = dom (get s)"
    and search_mismatch:
      "length q \<noteq> dim_of s \<Longrightarrow> search s q k f = Inl (DimMismatch (dim_of s) (length q))"
    and search_ok: "ok s \<Longrightarrow> length q = dim_of s \<Longrightarrow>
      \<exists>rs. search s q k f = Inr rs \<and> length rs \<le> k \<and> sorted (score_keys rs) \<and>
        (\<forall>r \<in> set rs. get s (r_id r) \<noteq> None \<and> keep f (r_id r) \<and> r_payload r = None)"
begin

lemma insert_ok_iff: "(\<exists>s'. insert l s y v = Inr s') \<longleftrightarrow> length v = dim_of s"
  by (cases "length v = dim_of s") (auto simp: insert_mismatch insert_total)

lemma insert_cases:
  assumes "ok s"
  obtains (err) "length v \<noteq> dim_of s" "insert l s y v = Inl (DimMismatch (dim_of s) (length v))"
  | (success) s' where "length v = dim_of s" "insert l s y v = Inr s'" "ok s'" "dim_of s' = dim_of s"
      "dom (get s') = {y} \<union> dom (get s)"
proof (cases "length v = dim_of s")
  case True
  then obtain s' where "insert l s y v = Inr s'" using insert_total by blast
  then show thesis using True insert_ok [OF assms] success by blast
next
  case False
  then show thesis using err insert_mismatch by blast
qed

lemma finite_dom: "ok s \<Longrightarrow> finite (dom (get s))"
  using list_ids_ok [of s] List.finite_set [of "list_ids s"] by simp

lemma len_list_ids: "ok s \<Longrightarrow> length (list_ids s) = len s"
  using list_ids_ok [of s] len_ok [of s] distinct_card [of "list_ids s"] by simp

lemma len_insert:
  "ok s \<Longrightarrow> insert l s y v = Inr s' \<Longrightarrow> len s' = (if get s y = None then len s + 1 else len s)"
proof -
  assume s: "ok s" "insert l s y v = Inr s'"
  have d: "ok s'" "dom (get s') = Set.insert y (dom (get s))"
    using insert_ok [OF s] by simp_all
  have "len s' = card (Set.insert y (dom (get s)))" using len_ok [OF d(1)] d(2) by simp
  also have "\<dots> = (if y \<in> dom (get s) then card (dom (get s)) else Suc (card (dom (get s))))"
    using finite_dom [OF s(1)] by (rule card_insert_if)
  finally show ?thesis using len_ok [OF s(1)] by (simp add: domIff)
qed

lemma len_delete:
  "ok s \<Longrightarrow> delete s y = (b, s') \<Longrightarrow> len s = (if b then len s' + 1 else len s')"
proof -
  assume s: "ok s" "delete s y = (b, s')"
  have d: "ok s'" "b = (y \<in> dom (get s))" "dom (get s') = dom (get s) - {y}"
    using delete_ok [OF s] by auto
  show ?thesis
    using card_Suc_Diff1 [OF finite_dom [OF s(1)], of y] d s by (cases b) (auto simp: len_ok)
qed

lemma delete_absent: "ok s \<Longrightarrow> get s y = None \<Longrightarrow> fst (delete s y) = False"
  by (cases "delete s y") (auto dest: delete_ok)

lemma delete_twice:
  "ok s \<Longrightarrow> delete s y = (b, s') \<Longrightarrow> fst (delete s' y) = False"
  using delete_absent [of s' y] delete_ok [of s y b s'] by simp

end

locale exact_store = vector_index +
  assumes insert_get: "ok s \<Longrightarrow> insert l s y v = Inr s' \<Longrightarrow> get s' = (get s)(y \<mapsto> v)"
    and batch_get: "ok s \<Longrightarrow> \<forall>(y, v) \<in> set vs. length v = dim_of s \<Longrightarrow>
      insert_batch ls s vs = (Inr (), s') \<Longrightarrow> get s' = get s ++ map_of (rev vs)"
begin

lemma insert_delete:
  assumes "ok s" "insert l s y v = Inr s'" "delete s' y = (b, s'')"
  shows "b \<and> get s'' = (get s)(y := None)"
proof -
  have "ok s'" "get s' = (get s)(y \<mapsto> v)"
    using insert_ok [OF assms(1,2)] insert_get [OF assms(1,2)] by simp_all
  then show ?thesis using delete_ok [OF _ assms(3)] by simp
qed

end

locale exact_search = vector_index +
  fixes rt :: rt and metric_of :: "'a \<Rightarrow> metric"
  assumes search_exact: "ok s \<Longrightarrow> search s q k f = Inr rs \<Longrightarrow>
    is_top_k k (scan_items rt (metric_of s) (get s) (list_ids s) q f) rs"
begin

lemma search_length:
  "ok s \<Longrightarrow> search s q k f = Inr rs \<Longrightarrow> length rs = min k (length (filter (keep f) (list_ids s)))"
  by (drule (1) search_exact, drule is_top_k_length) (simp add: scan_items_def)

lemma search_distinct:
  assumes "ok s" "search s q k f = Inr rs"
  shows "distinct (map r_id rs)"
proof (rule is_top_k_distinct [OF search_exact [OF assms]])
  show "distinct (map snd (scan_items rt (metric_of s) (get s) (list_ids s) q f))"
    using list_ids_ok [OF assms(1)] by (simp add: scan_items_ids)
qed

text \<open>No live vector that passes the filter and is missing from the answer beats the last row.\<close>

lemma search_complete:
  assumes "ok s" "search s q k f = Inr rs" "length rs < k"
    and "get s y \<noteq> None" "keep f y"
  shows "y \<in> r_id ` set rs"
proof -
  let ?ids = "filter (keep f) (list_ids s)"
  have n: "length rs = length ?ids" using search_length [OF assms(1,2)] assms(3) by simp
  have d: "distinct (map r_id rs)" using search_distinct [OF assms(1,2)] .
  have "set rs \<subseteq> result_of ` set (scan_items rt (metric_of s) (get s) (list_ids s) q f)"
    by (rule is_top_k_set [OF search_exact [OF assms(1,2)]])
  then have sub: "r_id ` set rs \<subseteq> set ?ids"
    by (fastforce simp: result_of_def scan_items_def)
  have "card (r_id ` set rs) = card (set ?ids)"
    using distinct_card [OF d] distinct_card [of ?ids] n list_ids_ok [OF assms(1)] by simp
  then have "r_id ` set rs = set ?ids"
    using card_subset_eq [OF List.finite_set sub] by blast
  then show ?thesis using assms(4,5) list_ids_ok [OF assms(1)] by auto
qed

end

end
