(* ===== verification/Flat.thy ===== *)
theory Flat
  imports Traits
begin

text \<open>
  \<open>FlatIndex\<close> of \<open>likhadb-index/src/flat.rs\<close>: all vectors in one slab, an exhaustive parallel scan.
  The invariant is that the ids are distinct and the slab has one row per id; under it the index is
  the finite map \<open>flat_get\<close>, its operations are map operations, and its search is exact for every
  schedule of the parallel loop.
\<close>

section \<open>State and operations\<close>

record flat =
  flat_dim :: nat
  flat_metric :: metric
  flat_ids :: "vecid list"
  flat_data :: "f32 list"

definition flat_new :: "nat \<Rightarrow> metric \<Rightarrow> flat" where
  "flat_new d m = \<lparr>flat_dim = d, flat_metric = m, flat_ids = [], flat_data = []\<rparr>"

definition flat_get :: "flat \<Rightarrow> vecid \<Rightarrow> vec option" where
  "flat_get ix y = (case position y (flat_ids ix) of
       None \<Rightarrow> None
     | Some pos \<Rightarrow> Some (row (flat_dim ix) (flat_data ix) pos))"

definition flat_insert :: "flat \<Rightarrow> vecid \<Rightarrow> vec \<Rightarrow> db_error + flat" where
  "flat_insert ix y v =
     (if length v \<noteq> flat_dim ix then Inl (DimMismatch (flat_dim ix) (length v))
      else case position y (flat_ids ix) of
          Some pos \<Rightarrow> Inr (ix\<lparr>flat_data := set_row (flat_dim ix) (flat_data ix) pos v\<rparr>)
        | None \<Rightarrow> Inr (ix\<lparr>flat_ids := flat_ids ix @ [y], flat_data := flat_data ix @ v\<rparr>))"

definition flat_delete :: "flat \<Rightarrow> vecid \<Rightarrow> bool \<times> flat" where
  "flat_delete ix y = (case position y (flat_ids ix) of
       None \<Rightarrow> (False, ix)
     | Some pos \<Rightarrow>
         let end = length (flat_ids ix) - 1
         in (True, ix\<lparr>flat_ids := swap_remove pos (flat_ids ix),
               flat_data := slab_remove (flat_dim ix) pos end (flat_data ix)\<rparr>))"

text \<open>The \<open>fold\<close> closure: one stored vector into a thread's heap.\<close>

definition flat_step ::
  "rt \<Rightarrow> flat \<Rightarrow> vec \<Rightarrow> nat \<Rightarrow> (vecid \<Rightarrow> bool) option \<Rightarrow> (f32 \<times> vecid) list \<Rightarrow> vecid \<times> vec \<Rightarrow> (f32 \<times> vecid) list"
where
  "flat_step rt ix q k f local x =
     (if keep f (fst x) then topk_push k local (simd_distance rt (flat_metric ix) q (snd x), fst x)
      else local)"

text \<open>\<open>par_chunks_exact\<close> panics on a zero width; an empty index returns before it is reached.\<close>

definition flat_search ::
  "rt \<Rightarrow> flat \<Rightarrow> vec \<Rightarrow> nat \<Rightarrow> (vecid \<Rightarrow> bool) option \<Rightarrow> db_error + 'p scored_result list"
where
  "flat_search rt ix q k f =
     (if length q \<noteq> flat_dim ix then Inl (DimMismatch (flat_dim ix) (length q))
      else if k = 0 \<or> flat_ids ix = [] then Inr []
      else if flat_dim ix = 0 then Inl Panicked
      else let heap = par_fold_reduce (par_tree rt (length (flat_ids ix))) []
                 (flat_step rt ix q k f) (topk_merge (id_heap_iter rt) k)
                 (zip (flat_ids ix) (rows (flat_dim ix) (flat_data ix)))
           in Inr (sorted_results rt heap))"

definition flat_len :: "flat \<Rightarrow> nat" where
  "flat_len ix = length (flat_ids ix)"

definition flat_list_ids :: "flat \<Rightarrow> vecid list" where
  "flat_list_ids ix = flat_ids ix"

section \<open>The invariant\<close>

definition flat_ok :: "flat \<Rightarrow> bool" where
  "flat_ok ix \<longleftrightarrow> slab_ok (flat_dim ix) (flat_ids ix) (flat_data ix)"

lemma flat_get_slab: "flat_get ix = slab_get (flat_dim ix) (flat_ids ix) (flat_data ix)"
  by (simp add: flat_get_def slab_get_def fun_eq_iff split: option.split)

lemma flat_get_dom: "dom (flat_get ix) = set (flat_ids ix)"
  by (simp add: flat_get_slab slab_simps)

lemma flat_new_ok: "flat_ok (flat_new d m) \<and> flat_get (flat_new d m) = Map.empty"
  by (simp add: flat_ok_def flat_get_slab flat_new_def slab_simps)

lemma flat_insert_total: "length v = flat_dim ix \<Longrightarrow> \<exists>ix'. flat_insert ix y v = Inr ix'"
  by (simp add: flat_insert_def split: option.split)

lemma flat_insert_ok:
  assumes "flat_ok ix" "flat_insert ix y v = Inr ix'"
  shows "flat_ok ix' \<and> flat_dim ix' = flat_dim ix \<and> flat_metric ix' = flat_metric ix \<and>
    flat_get ix' = (flat_get ix)(y \<mapsto> v)"
proof (cases "position y (flat_ids ix)")
  case None
  then show ?thesis using assms
    by (auto simp: flat_insert_def flat_ok_def flat_get_slab slab_simps split: if_splits)
next
  case (Some pos)
  then show ?thesis using assms
    by (auto simp: flat_insert_def flat_ok_def flat_get_slab slab_simps split: if_splits)
qed

lemma flat_delete_ok:
  assumes "flat_ok ix" "flat_delete ix y = (b, ix')"
  shows "flat_ok ix' \<and> flat_dim ix' = flat_dim ix \<and> flat_metric ix' = flat_metric ix \<and>
    b = (flat_get ix y \<noteq> None) \<and> flat_get ix' = (flat_get ix)(y := None)"
proof (cases "position y (flat_ids ix)")
  case None
  then show ?thesis using assms by (auto simp: flat_delete_def flat_get_slab slab_get_def)
next
  case (Some pos)
  then have "ix' = ix\<lparr>flat_ids := swap_remove pos (flat_ids ix),
      flat_data := slab_remove (flat_dim ix) pos (length (flat_ids ix) - 1) (flat_data ix)\<rparr>" "b"
    using assms(2) by (auto simp: flat_delete_def Let_def)
  moreover have "flat_get ix y \<noteq> None" using Some by (simp add: flat_get_def)
  ultimately show ?thesis using assms(1) Some
      slab_ok_remove [of "flat_dim ix" "flat_ids ix" "flat_data ix" y pos]
      slab_get_remove [of "flat_dim ix" "flat_ids ix" "flat_data ix" y pos]
    by (simp add: flat_ok_def flat_get_slab)
qed

section \<open>Search\<close>

lemma flat_step_fold:
  "flat_step rt ix q k f =
     (\<lambda>h x. foldl (topk_push k) h
        (if keep f (fst x) then [(simd_distance rt (flat_metric ix) q (snd x), fst x)] else []))"
  by (simp add: flat_step_def fun_eq_iff)

lemma flat_scan_items:
  assumes "flat_ok ix" "0 < flat_dim ix"
  shows "concat (map (\<lambda>x. if keep f (fst x)
      then [(simd_distance rt (flat_metric ix) q (snd x), fst x)] else [])
      (zip (flat_ids ix) (rows (flat_dim ix) (flat_data ix)))) =
    scan_items rt (flat_metric ix) (flat_get ix) (flat_list_ids ix) q f"
proof -
  have "zip (flat_ids ix) (rows (flat_dim ix) (flat_data ix)) =
      map (\<lambda>y. (y, the (flat_get ix y))) (flat_ids ix)"
    using assms by (simp add: flat_get_slab flat_ok_def slab_items)
  moreover have "concat (map (\<lambda>y. if keep f y then [g y] else []) ys) = map g (filter (keep f) ys)"
    for ys and g :: "vecid \<Rightarrow> f32 \<times> vecid" by (induction ys) auto
  ultimately show ?thesis by (simp add: scan_items_def flat_list_ids_def comp_def)
qed

lemma flat_search_exact:
  assumes "rt_ok rt" "flat_ok ix" "flat_search rt ix q k f = Inr rs"
  shows "is_top_k k (scan_items rt (flat_metric ix) (flat_get ix) (flat_list_ids ix) q f) rs"
proof (cases "k = 0 \<or> flat_ids ix = []")
  case True
  then have "rs = []" using assms(3) by (auto simp: flat_search_def split: if_splits)
  then show ?thesis using True is_top_k_Nil by (auto simp: scan_items_def flat_list_ids_def)
next
  case False
  then have d: "0 < flat_dim ix" and rs: "rs = sorted_results rt
      (par_fold_reduce (par_tree rt (length (flat_ids ix))) [] (flat_step rt ix q k f)
        (topk_merge (id_heap_iter rt) k) (zip (flat_ids ix) (rows (flat_dim ix) (flat_data ix))))"
    using assms(3) by (auto simp: flat_search_def split: if_splits)
  show ?thesis
    unfolding rs flat_step_fold flat_scan_items [OF assms(2) d, symmetric]
    by (rule par_search_top_k [OF assms(1)])
qed

lemma flat_search_total:
  "length q = flat_dim ix \<Longrightarrow> 0 < flat_dim ix \<Longrightarrow> \<exists>rs. flat_search rt ix q k f = Inr rs"
  by (simp add: flat_search_def Let_def)

lemma scan_items_sound:
  assumes "is_top_k k (scan_items rt m gt ids q f) rs" "r \<in> set rs"
  shows "r_id r \<in> set ids \<and> keep f (r_id r) \<and> r_payload r = None \<and>
    r_score r = simd_distance rt m q (the (gt (r_id r)))"
  using is_top_k_set [OF assms(1)] assms(2) by (fastforce simp: scan_items_def result_of_def)

section \<open>The contract\<close>

lemma flat_batch:
  assumes "flat_ok ix" "\<forall>(y, v) \<in> set vs. length v = flat_dim ix"
  shows "\<exists>ix'. default_insert_batch flat_insert ix vs = (Inr (), ix') \<and>
    (flat_ok ix' \<and> flat_dim ix' = flat_dim ix \<and> flat_metric ix' = flat_metric ix) \<and>
    flat_get ix' = flat_get ix ++ map_of (rev vs)"
  unfolding foldl_map_upd [symmetric]
proof (rule default_insert_batch_fold [where d = "flat_dim ix" and view = flat_get and
      I = "\<lambda>s. flat_ok s \<and> flat_dim s = flat_dim ix \<and> flat_metric s = flat_metric ix"])
  fix s y and v :: vec
  assume s: "flat_ok s \<and> flat_dim s = flat_dim ix \<and> flat_metric s = flat_metric ix"
    and "length v = flat_dim ix"
  then obtain s' where "flat_insert s y v = Inr s'" using flat_insert_total [of v s y] by auto
  then show "\<exists>s'. flat_insert s y v = Inr s' \<and>
      (flat_ok s' \<and> flat_dim s' = flat_dim ix \<and> flat_metric s' = flat_metric ix) \<and>
      flat_get s' = (case (y, v) of (y, v) \<Rightarrow> (flat_get s)(y \<mapsto> v))"
    using s flat_insert_ok [of s y v s'] by simp
qed (use assms in auto)

definition flat_inv :: "rt \<Rightarrow> flat \<Rightarrow> bool" where
  "flat_inv rt ix \<longleftrightarrow> rt_ok rt \<and> flat_ok ix \<and> 0 < flat_dim ix"

lemma flat_batch_ok:
  "flat_inv rt ix \<Longrightarrow> \<forall>(y, v) \<in> set vs. length v = flat_dim ix \<Longrightarrow>
    \<exists>ix'. default_insert_batch flat_insert ix vs = (Inr (), ix') \<and> flat_inv rt ix' \<and>
      flat_dim ix' = flat_dim ix \<and> dom (flat_get ix') = dom (flat_get ix) \<union> fst ` set vs"
  using flat_batch [of ix vs] by (auto simp: flat_inv_def dom_map_of_conv_image_fst)

lemma flat_batch_err:
  "flat_inv rt ix \<Longrightarrow> \<not> (\<forall>(y, v) \<in> set vs. length v = flat_dim ix) \<Longrightarrow>
    \<exists>n ix'. default_insert_batch flat_insert ix vs = (Inl (DimMismatch (flat_dim ix) n), ix') \<and> flat_inv rt ix' \<and>
      flat_dim ix' = flat_dim ix \<and> dom (flat_get ix) \<subseteq> dom (flat_get ix')"
proof (rule default_insert_batch_err [of "\<lambda>s. flat_inv rt s \<and> flat_dim s = flat_dim ix \<and> dom (flat_get ix) \<subseteq> dom (flat_get s)"])
  fix s y and v :: vec
  assume s: "flat_inv rt s \<and> flat_dim s = flat_dim ix \<and> dom (flat_get ix) \<subseteq> dom (flat_get s)"
    and "length v = flat_dim ix"
  then obtain s' where "flat_insert s y v = Inr s'" using flat_insert_total [of v s y] by auto
  then show "\<exists>s'. flat_insert s y v = Inr s' \<and>
      flat_inv rt s' \<and> flat_dim s' = flat_dim ix \<and> dom (flat_get ix) \<subseteq> dom (flat_get s')"
    using s flat_insert_ok [of s y v s'] by (auto simp: flat_inv_def)
qed (auto simp: flat_insert_def)

lemma flat_search_ok:
  fixes f :: "(vecid \<Rightarrow> bool) option"
  assumes ok: "flat_inv rt ix" and q: "length q = flat_dim ix"
  shows "\<exists>rs :: 'p scored_result list. flat_search rt ix q k f = Inr rs \<and> length rs \<le> k \<and>
    sorted (score_keys rs) \<and>
    (\<forall>r \<in> set rs. flat_get ix (r_id r) \<noteq> None \<and> keep f (r_id r) \<and> r_payload r = None)"
proof -
  obtain rs :: "'p scored_result list" where rs: "flat_search rt ix q k f = Inr rs"
    using flat_search_total q ok by (metis flat_inv_def)
  have top: "is_top_k k (scan_items rt (flat_metric ix) (flat_get ix) (flat_list_ids ix) q f) rs"
    using ok flat_search_exact [OF _ _ rs] by (simp add: flat_inv_def)
  have "flat_get ix (r_id r) \<noteq> None \<and> keep f (r_id r) \<and> r_payload r = None" if "r \<in> set rs" for r
    using scan_items_sound [OF top that] flat_get_dom [of ix] by (auto simp: flat_list_ids_def)
  then show ?thesis using rs is_top_k_length [OF top] is_top_k_sorted [OF top] by auto
qed

interpretation flat: vector_index "flat_inv rt" flat_dim "\<lambda>l. flat_insert"
  "\<lambda>ls. default_insert_batch flat_insert" flat_delete "flat_search rt" flat_get flat_len flat_list_ids
  for rt
proof (unfold_locales, goal_cases)
  case (3 s l y v s')
  then show ?case using flat_insert_ok [of s y v s'] by (auto simp: flat_inv_def)
next
  case (5 s vs ls)
  then show ?case using flat_batch_err [of rt s vs] by simp
next
  case (6 s y b s')
  then show ?case using flat_delete_ok [of s y b s'] by (auto simp: flat_inv_def)
next
  case (7 s y v)
  then show ?case by (auto simp: flat_inv_def flat_ok_def flat_get_slab intro: slab_get_length)
next
  case (4 s vs ls)
  then show ?case by (rule flat_batch_ok)
next
  case (11 s q k f)
  then show ?case by (rule flat_search_ok)
qed (simp_all add: flat_insert_total flat_insert_def flat_search_def flat_len_def flat_list_ids_def
      flat_get_dom flat_inv_def flat_ok_def slab_ok_def distinct_card split: option.split)

interpretation flat: exact_store "flat_inv rt" flat_dim "\<lambda>l. flat_insert"
  "\<lambda>ls. default_insert_batch flat_insert" flat_delete "flat_search rt" flat_get flat_len flat_list_ids
  for rt
proof (unfold_locales, goal_cases)
  case (1 s l y v s')
  then show ?case using flat_insert_ok [of s y v s'] by (simp add: flat_inv_def)
next
  case (2 s vs ls s')
  then show ?case using flat_batch [of s vs] by (auto simp: flat_inv_def)
qed

interpretation flat: exact_search "flat_inv rt" flat_dim "\<lambda>l. flat_insert"
  "\<lambda>ls. default_insert_batch flat_insert" flat_delete "flat_search rt" flat_get flat_len flat_list_ids
  rt flat_metric
  for rt
  by unfold_locales (simp add: flat_inv_def flat_search_exact)

section \<open>Properties\<close>

text \<open>C4. An exhaustive search is exact: for every schedule of the parallel loop and every iteration
  order of the heaps, the scores returned are the \<open>k\<close> smallest distances between the query and the
  live vectors that pass the filter, in ascending order; every row is a different live id with its own
  distance, and there are \<open>k\<close> rows unless fewer vectors pass.\<close>

theorem flat_search_nearest:
  assumes "rt_ok rt" "flat_ok ix" "flat_search rt ix q k f = Inr rs"
  shows "map (okey \<circ> r_score) rs = take k (sort (map (\<lambda>y. okey (simd_distance rt (flat_metric ix) q
        (the (flat_get ix y)))) (filter (keep f) (flat_list_ids ix)))) \<and>
    distinct (map r_id rs) \<and>
    (\<forall>r \<in> set rs. keep f (r_id r) \<and> (\<exists>v. flat_get ix (r_id r) = Some v \<and>
        r_score r = simd_distance rt (flat_metric ix) q v))"
proof -
  note top = flat_search_exact [OF assms]
  have "keys (scan_items rt (flat_metric ix) (flat_get ix) (flat_list_ids ix) q f) =
      map (\<lambda>y. okey (simd_distance rt (flat_metric ix) q (the (flat_get ix y))))
        (filter (keep f) (flat_list_ids ix))"
    by (simp add: keys_def scan_items_def comp_def)
  moreover have "distinct (map r_id rs)"
    using is_top_k_distinct [OF top] assms(2)
    by (simp add: scan_items_ids flat_list_ids_def flat_ok_def slab_ok_def)
  moreover have "keep f (r_id r) \<and> (\<exists>v. flat_get ix (r_id r) = Some v \<and>
      r_score r = simd_distance rt (flat_metric ix) q v)" if "r \<in> set rs" for r
  proof -
    note sound = scan_items_sound [OF top that]
    then obtain v where "flat_get ix (r_id r) = Some v"
      using flat_get_dom [of ix] by (auto simp: flat_list_ids_def)
    with sound show ?thesis by simp
  qed
  ultimately show ?thesis using top by (simp add: is_top_k_def)
qed

definition flat_example :: flat where
  "flat_example = \<lparr>flat_dim = 1, flat_metric = L2, flat_ids = [7, 8, 9],
     flat_data = [0x40A00000, 0x40000000, 0x3F800000]\<rparr>"

theorem flat_search_nearest_witness:
  "map r_id (sorted_results plain_rt [(0x3F800000, 9), (0x40000000, 8)] :: unit scored_result list) = [9, 8] \<and>
   (\<exists>rs :: unit scored_result list. flat_search plain_rt flat_example [0] 2 None = Inr rs \<and>
      distinct (map r_id rs) \<and> (\<forall>r \<in> set rs. \<exists>v. flat_get flat_example (r_id r) = Some v))"
proof -
  have "length [0 :: f32] = flat_dim flat_example" "0 < flat_dim flat_example"
    by (simp_all add: flat_example_def)
  then obtain rs :: "unit scored_result list" where
    rs: "flat_search plain_rt flat_example [0] 2 None = Inr rs" using flat_search_total by blast
  moreover have "flat_ok flat_example" by (simp add: flat_ok_def flat_example_def slab_ok_def)
  ultimately have "distinct (map r_id rs)" "\<forall>r \<in> set rs. \<exists>v. flat_get flat_example (r_id r) = Some v"
    using flat_search_nearest [OF plain_rt_ok _ rs] by blast+
  then show ?thesis using rs by (auto simp: sorted_results_def sort_results_def plain_rt_def result_of_def
      okey_def f32_is_nan_def f32_key_def)
qed

text \<open>C7. The flat index refines a finite map: a vector of the wrong length is refused and changes
  nothing, an insertion binds the id to the vector whether the id was there or not, a deletion reports
  whether the id was there and unbinds it, the swap of the last row included, and both keep the slab
  invariant.\<close>

theorem flat_refines_map:
  assumes "flat_ok ix"
  shows "(length v \<noteq> flat_dim ix \<longrightarrow> flat_insert ix y v = Inl (DimMismatch (flat_dim ix) (length v))) \<and>
    (length v = flat_dim ix \<longrightarrow> (\<exists>ix'. flat_insert ix y v = Inr ix' \<and> flat_ok ix' \<and>
       flat_get ix' = (flat_get ix)(y \<mapsto> v))) \<and>
    fst (flat_delete ix y) = (flat_get ix y \<noteq> None) \<and> flat_ok (snd (flat_delete ix y)) \<and>
    flat_get (snd (flat_delete ix y)) = (flat_get ix)(y := None)"
proof -
  have "flat_ok ix' \<and> flat_get ix' = (flat_get ix)(y \<mapsto> v)" if "flat_insert ix y v = Inr ix'" for ix'
    using flat_insert_ok [OF assms that] by simp
  then show ?thesis
    using flat_insert_total [of v ix y] flat_delete_ok [OF assms, of y "fst (flat_delete ix y)"
        "snd (flat_delete ix y)"] by (auto simp: flat_insert_def)
qed

theorem flat_refines_map_witness:
  "\<exists>ix'. flat_insert flat_example 8 [0] = Inr ix' \<and> flat_get ix' 8 = Some [0] \<and>
    flat_get (snd (flat_delete flat_example 7)) 7 = None"
proof -
  have ok: "flat_ok flat_example" by (simp add: flat_ok_def flat_example_def slab_ok_def)
  have "length [0 :: f32] = flat_dim flat_example" by (simp add: flat_example_def)
  then show ?thesis
    using flat_refines_map [OF ok, of "[0]" 8] flat_refines_map [OF ok, of "[0]" 7] by auto
qed

text \<open>\<open>FlatIndex::new\<close> accepts a zero dimension; the first search after an insertion of the empty
  vector then panics inside \<open>par_chunks_exact\<close> instead of returning.\<close>

theorem flat_zero_dim_panics:
  "flat_insert (flat_new 0 m) y [] = Inr ((flat_new 0 m)\<lparr>flat_ids := [y]\<rparr>) \<and>
   (0 < k \<longrightarrow> flat_search rt ((flat_new 0 m)\<lparr>flat_ids := [y]\<rparr>) [] k f = Inl Panicked)"
  by (simp add: flat_insert_def flat_search_def flat_new_def)

theorem flat_zero_dim_panics_witness:
  "flat_search plain_rt ((flat_new 0 L2)\<lparr>flat_ids := [3]\<rparr>) [] 1 None = (Inl Panicked :: db_error + unit scored_result list)"
  by (rule flat_zero_dim_panics [THEN conjunct2, THEN mp]) simp

end
