(* ===== verification/Ivf.thy ===== *)
theory Ivf
  imports Flat
begin

text \<open>
  \<open>IvfIndex\<close> of \<open>likhadb-index/src/ivf.rs\<close>: a staging slab until \<open>nlist\<close> vectors are there, then
  k-means centroids with one posting list per centroid, raw or quantized to one byte per dimension.
  The invariant ties the posting lists to \<open>id_to_list\<close>; under it the index is a finite map, training
  keeps its contents (up to quantization), and probing every list makes the search exact.
\<close>

section \<open>Scalar quantizer\<close>

record sq8 =
  q_mins :: "f32 list"
  q_scales :: "f32 list"

abbreviation f32_255 :: f32 where "f32_255 \<equiv> 0x437F0000"

definition sq8_fit :: "f32 list \<Rightarrow> nat \<Rightarrow> nat \<Rightarrow> sq8" where
  "sq8_fit data n d =
     (let mins = foldl (\<lambda>ms i. map2 (\<lambda>m v. if f32_lt v m then v else m) ms (row d data i))
            (replicate d f32_MAX) [0..<n];
          maxs = foldl (\<lambda>ms i. map2 (\<lambda>m v. if f32_lt m v then v else m) ms (row d data i))
            (replicate d f32_MIN) [0..<n];
          scales = map2 (\<lambda>mn mx. let r = f32_sub mx mn
            in if f32_lt 0 r then f32_div r f32_255 else f32_one) mins maxs
      in \<lparr>q_mins = mins, q_scales = scales\<rparr>)"

definition sq8_encode :: "sq8 \<Rightarrow> vec \<Rightarrow> u8 list" where
  "sq8_encode q v = map (\<lambda>i. f32_to_u8 (f32_clamp
     (f32_round (f32_div (f32_sub (v ! i) (q_mins q ! i)) (q_scales q ! i))) 0 f32_255)) [0..<length v]"

definition sq8_decode :: "sq8 \<Rightarrow> u8 list \<Rightarrow> vec" where
  "sq8_decode q codes = map (\<lambda>i. f32_add (q_mins q ! i)
     (f32_mul (f32_of_nat (unat (codes ! i))) (q_scales q ! i))) [0..<length codes]"

definition asym_distance :: "rt \<Rightarrow> sq8 \<Rightarrow> metric \<Rightarrow> vec \<Rightarrow> u8 list \<Rightarrow> f32" where
  "asym_distance rt q m query codes = simd_distance rt m query (sq8_decode q codes)"

definition sq8_ok :: "nat \<Rightarrow> sq8 \<Rightarrow> bool" where
  "sq8_ok d q \<longleftrightarrow> length (q_mins q) = d \<and> length (q_scales q) = d"

lemma length_sq8_encode [simp]: "length (sq8_encode q v) = length v"
  by (simp add: sq8_encode_def)

lemma length_sq8_decode [simp]: "length (sq8_decode q codes) = length codes"
  by (simp add: sq8_decode_def)

lemma length_foldl_map2:
  "length ms = d \<Longrightarrow> \<forall>i \<in> set xs. length (g i) = d \<Longrightarrow>
   length (foldl (\<lambda>ms i. map2 f ms (g i)) ms xs) = d"
  by (induction xs arbitrary: ms) auto

lemma sq8_fit_ok: "length data = n * d \<Longrightarrow> sq8_ok d (sq8_fit data n d)"
proof -
  assume "length data = n * d"
  then have "\<forall>i \<in> set [0..<n]. length (row d data i) = d" by (simp add: length_row [of data n])
  then show ?thesis
    by (simp add: sq8_ok_def sq8_fit_def Let_def length_foldl_map2 [where d = d])
qed

section \<open>Posting lists\<close>

record posting =
  p_ids :: "vecid list"
  p_data :: "f32 list"
  p_codes :: "u8 list"

definition posting_new :: posting where
  "posting_new = \<lparr>p_ids = [], p_data = [], p_codes = []\<rparr>"

definition posting_push :: "posting \<Rightarrow> vecid \<Rightarrow> vec \<Rightarrow> posting" where
  "posting_push p y v = p\<lparr>p_ids := p_ids p @ [y], p_data := p_data p @ v\<rparr>"

definition posting_push_codes :: "posting \<Rightarrow> vecid \<Rightarrow> u8 list \<Rightarrow> posting" where
  "posting_push_codes p y codes = p\<lparr>p_ids := p_ids p @ [y], p_codes := p_codes p @ codes\<rparr>"

definition remove_by_id :: "posting \<Rightarrow> vecid \<Rightarrow> nat \<Rightarrow> bool \<times> posting" where
  "remove_by_id p y d = (case position y (p_ids p) of
       None \<Rightarrow> (False, p)
     | Some pos \<Rightarrow> (True, p\<lparr>p_ids := swap_remove pos (p_ids p),
          p_data := slab_remove d pos (length (p_ids p) - 1) (p_data p)\<rparr>))"

definition remove_by_id_sq8 :: "posting \<Rightarrow> vecid \<Rightarrow> nat \<Rightarrow> bool \<times> posting" where
  "remove_by_id_sq8 p y d = (case position y (p_ids p) of
       None \<Rightarrow> (False, p)
     | Some pos \<Rightarrow> (True, p\<lparr>p_ids := swap_remove pos (p_ids p),
          p_codes := slab_remove d pos (length (p_ids p) - 1) (p_codes p)\<rparr>))"

definition ids_and_chunks :: "posting \<Rightarrow> nat \<Rightarrow> (vecid \<times> vec) list" where
  "ids_and_chunks p d = zip (p_ids p) (rows d (p_data p))"

definition ids_and_codes :: "posting \<Rightarrow> nat \<Rightarrow> (vecid \<times> u8 list) list" where
  "ids_and_codes p d = zip (p_ids p) (rows d (p_codes p))"

definition get_f32_by_id :: "posting \<Rightarrow> vecid \<Rightarrow> nat \<Rightarrow> vec option" where
  "get_f32_by_id p y d = map_option (row d (p_data p)) (position y (p_ids p))"

definition get_codes_by_id :: "posting \<Rightarrow> vecid \<Rightarrow> nat \<Rightarrow> u8 list option" where
  "get_codes_by_id p y d = map_option (row d (p_codes p)) (position y (p_ids p))"

section \<open>K-means\<close>

definition MAX_KMEANS_ITER :: nat where "MAX_KMEANS_ITER = 25"
definition KMEANS_TOL :: f32 where "KMEANS_TOL = 0x38D1B717"

text \<open>
  \<open>(0..k).min_by(..).unwrap_or(0)\<close>: the first of the centroids that no later one is strictly closer
  than (a NaN compares as equal).
\<close>

definition nearest_of :: "rt \<Rightarrow> metric \<Rightarrow> nat \<Rightarrow> f32 list \<Rightarrow> nat \<Rightarrow> vec \<Rightarrow> nat" where
  "nearest_of rt m d cents k v =
     foldl (\<lambda>a b. if f32_lt (simd_distance rt m v (row d cents b)) (simd_distance rt m v (row d cents a))
        then b else a) 0 [1..<k]"

definition kmeans_init :: "f32 list \<Rightarrow> nat \<Rightarrow> nat \<Rightarrow> nat \<Rightarrow> f32 list" where
  "kmeans_init data n d k = concat (map (\<lambda>i. row d data ((i * n) div k)) [0..<k])"

definition kmeans_sums ::
  "rt \<Rightarrow> f32 list \<Rightarrow> nat \<Rightarrow> nat \<Rightarrow> nat \<Rightarrow> nat list \<Rightarrow> f32 list \<times> nat list" where
  "kmeans_sums rt data n d k assignments =
     par_fold_reduce (par_tree rt n) (replicate (k * d) 0, replicate k 0)
       (\<lambda>(sums, counts) i. let c = assignments ! i
          in (set_row d sums c (map2 f32_add (row d sums c) (row d data i)), counts[c := counts ! c + 1]))
       (\<lambda>(a_sums, a_counts) (b_sums, b_counts). (map2 f32_add a_sums b_sums, map2 (+) a_counts b_counts))
       [0..<n]"

text \<open>\<open>max_by_key\<close> returns the last of the maximal elements.\<close>

definition kmeans_means :: "nat \<Rightarrow> nat \<Rightarrow> f32 list \<Rightarrow> f32 list \<times> nat list \<Rightarrow> f32 list" where
  "kmeans_means d k cents sc =
     (let counts = snd sc;
          src = foldl (\<lambda>a b. if counts ! a \<le> counts ! b then b else a) 0 [1..<k]
      in foldl (\<lambda>new c.
           if counts ! c = 0 then set_row d new c (row d cents src)
           else set_row d new c (map (\<lambda>x. f32_div x (f32_of_nat (counts ! c))) (row d new c)))
         (fst sc) [0..<k])"

definition kmeans_step :: "rt \<Rightarrow> f32 list \<Rightarrow> nat \<Rightarrow> nat \<Rightarrow> nat \<Rightarrow> metric \<Rightarrow> f32 list \<Rightarrow> f32 list" where
  "kmeans_step rt data n d k m cents =
     (let assignments = map (\<lambda>i. nearest_of rt m d cents k (row d data i)) [0..<n]
      in kmeans_means d k cents (kmeans_sums rt data n d k assignments))"

definition kmeans_converged :: "nat \<Rightarrow> nat \<Rightarrow> f32 list \<Rightarrow> f32 list \<Rightarrow> bool" where
  "kmeans_converged d k old new =
     list_all (\<lambda>c. list_all (\<lambda>(x, y). f32_lt (f32_abs (f32_sub x y)) KMEANS_TOL)
        (zip (row d old c) (row d new c))) [0..<k]"

fun kmeans_loop ::
  "nat \<Rightarrow> rt \<Rightarrow> f32 list \<Rightarrow> nat \<Rightarrow> nat \<Rightarrow> nat \<Rightarrow> metric \<Rightarrow> f32 list \<Rightarrow> f32 list" where
  "kmeans_loop 0 rt data n d k m cents = cents"
| "kmeans_loop (Suc j) rt data n d k m cents =
     (let new = kmeans_step rt data n d k m cents
      in if kmeans_converged d k cents new then new else kmeans_loop j rt data n d k m new)"

definition kmeans :: "rt \<Rightarrow> f32 list \<Rightarrow> nat \<Rightarrow> nat \<Rightarrow> nat \<Rightarrow> metric \<Rightarrow> f32 list" where
  "kmeans rt data n d k m = kmeans_loop MAX_KMEANS_ITER rt data n d k m (kmeans_init data n d k)"

section \<open>The index\<close>

record ivf =
  ivf_dim :: nat
  ivf_metric :: metric
  ivf_nlist :: nat
  ivf_nprobe :: nat
  staging_ids :: "vecid list"
  staging_data :: "f32 list"
  ivf_trained :: bool
  ivf_centroids :: "f32 list"
  ivf_lists :: "posting list"
  id_to_list :: "(vecid \<times> nat) list"
  ivf_quantize :: bool
  ivf_quantizer :: "sq8 option"

definition ivf_new :: "nat \<Rightarrow> metric \<Rightarrow> nat \<Rightarrow> nat \<Rightarrow> db_error + ivf" where
  "ivf_new d m nlist nprobe =
     (if d = 0 then Inl InvalidArgument
      else if nlist = 0 then Inl InvalidArgument
      else if nprobe = 0 \<or> nprobe > nlist then Inl InvalidArgument
      else Inr \<lparr>ivf_dim = d, ivf_metric = m, ivf_nlist = nlist, ivf_nprobe = nprobe,
        staging_ids = [], staging_data = [], ivf_trained = False, ivf_centroids = [], ivf_lists = [],
        id_to_list = [], ivf_quantize = False, ivf_quantizer = None\<rparr>)"

definition ivf_new_sq8 :: "nat \<Rightarrow> metric \<Rightarrow> nat \<Rightarrow> nat \<Rightarrow> db_error + ivf" where
  "ivf_new_sq8 d m nlist nprobe = (case ivf_new d m nlist nprobe of
       Inl e \<Rightarrow> Inl e
     | Inr ix \<Rightarrow> Inr (ix\<lparr>ivf_quantize := True\<rparr>))"

definition nearest_centroid :: "rt \<Rightarrow> ivf \<Rightarrow> vec \<Rightarrow> nat" where
  "nearest_centroid rt ix v =
     nearest_of rt (ivf_metric ix) (ivf_dim ix) (ivf_centroids ix) (ivf_nlist ix) v"

text \<open>Put a vector into the list of its nearest centroid; the body of the loop of \<open>train\<close>.\<close>

definition ivf_place :: "rt \<Rightarrow> ivf \<Rightarrow> vecid \<Rightarrow> vec \<Rightarrow> ivf" where
  "ivf_place rt ix y v =
     (let c = nearest_centroid rt ix v;
          p = (case ivf_quantizer ix of
              Some q \<Rightarrow> posting_push_codes (ivf_lists ix ! c) y (sq8_encode q v)
            | None \<Rightarrow> posting_push (ivf_lists ix ! c) y v)
      in ix\<lparr>ivf_lists := (ivf_lists ix)[c := p], id_to_list := hm_insert y c (id_to_list ix)\<rparr>)"

definition ivf_train :: "rt \<Rightarrow> ivf \<Rightarrow> ivf" where
  "ivf_train rt ix =
     (let n = length (staging_ids ix);
          ix1 = ix\<lparr>
            ivf_centroids := kmeans rt (staging_data ix) n (ivf_dim ix) (ivf_nlist ix) (ivf_metric ix),
            ivf_lists := replicate (ivf_nlist ix) posting_new,
            ivf_quantizer := (if ivf_quantize ix then Some (sq8_fit (staging_data ix) n (ivf_dim ix))
              else ivf_quantizer ix)\<rparr>;
          ix2 = foldl (\<lambda>s i. ivf_place rt s (staging_ids ix ! i) (row (ivf_dim ix) (staging_data ix) i))
            ix1 [0..<n]
      in ix2\<lparr>staging_ids := [], staging_data := [], ivf_trained := True\<rparr>)"

definition ivf_get :: "ivf \<Rightarrow> vecid \<Rightarrow> vec option" where
  "ivf_get ix y =
     (if \<not> ivf_trained ix then map_option (row (ivf_dim ix) (staging_data ix)) (position y (staging_ids ix))
      else case hm_get (id_to_list ix) y of
          None \<Rightarrow> None
        | Some l \<Rightarrow> (case ivf_quantizer ix of
              Some q \<Rightarrow> map_option (sq8_decode q) (get_codes_by_id (ivf_lists ix ! l) y (ivf_dim ix))
            | None \<Rightarrow> get_f32_by_id (ivf_lists ix ! l) y (ivf_dim ix)))"

text \<open>Take a vector out of the list it is in: the same lines in \<open>insert\<close> and \<open>delete\<close>.\<close>

definition ivf_unlink :: "ivf \<Rightarrow> vecid \<Rightarrow> nat \<Rightarrow> ivf" where
  "ivf_unlink ix y l =
     (let p = (case ivf_quantizer ix of
            Some q \<Rightarrow> snd (remove_by_id_sq8 (ivf_lists ix ! l) y (ivf_dim ix))
          | None \<Rightarrow> snd (remove_by_id (ivf_lists ix ! l) y (ivf_dim ix)))
      in ix\<lparr>ivf_lists := (ivf_lists ix)[l := p], id_to_list := hm_remove y (id_to_list ix)\<rparr>)"

definition ivf_insert :: "rt \<Rightarrow> ivf \<Rightarrow> vecid \<Rightarrow> vec \<Rightarrow> db_error + ivf" where
  "ivf_insert rt ix y v =
     (if length v \<noteq> ivf_dim ix then Inl (DimMismatch (ivf_dim ix) (length v))
      else if ivf_trained ix then
        let ix1 = (case hm_get (id_to_list ix) y of Some old \<Rightarrow> ivf_unlink ix y old | None \<Rightarrow> ix)
        in Inr (ivf_place rt ix1 y v)
      else case position y (staging_ids ix) of
          Some pos \<Rightarrow> Inr (ix\<lparr>staging_data := set_row (ivf_dim ix) (staging_data ix) pos v\<rparr>)
        | None \<Rightarrow>
            let ix1 = ix\<lparr>staging_ids := staging_ids ix @ [y], staging_data := staging_data ix @ v\<rparr>
            in if length (staging_ids ix1) \<ge> ivf_nlist ix then Inr (ivf_train rt ix1) else Inr ix1)"

definition ivf_delete :: "ivf \<Rightarrow> vecid \<Rightarrow> bool \<times> ivf" where
  "ivf_delete ix y =
     (if ivf_trained ix then (case hm_get (id_to_list ix) y of
          Some l \<Rightarrow> (True, ivf_unlink ix y l)
        | None \<Rightarrow> (False, ix))
      else case position y (staging_ids ix) of
          Some pos \<Rightarrow> (True, ix\<lparr>staging_ids := swap_remove pos (staging_ids ix),
             staging_data := slab_remove (ivf_dim ix) pos (length (staging_ids ix) - 1) (staging_data ix)\<rparr>)
        | None \<Rightarrow> (False, ix))"

definition search_staging ::
  "rt \<Rightarrow> ivf \<Rightarrow> vec \<Rightarrow> nat \<Rightarrow> (vecid \<Rightarrow> bool) option \<Rightarrow> 'p scored_result list"
where
  "search_staging rt ix q k f =
     sorted_results rt (foldl (\<lambda>h i. let y = staging_ids ix ! i in
        if keep f y then topk_push k h
          (simd_distance rt (ivf_metric ix) q (row (ivf_dim ix) (staging_data ix) i), y) else h)
       [] [0..<length (staging_ids ix)])"

text \<open>The \<open>fold\<close> closure of \<open>search_trained\<close>: the items of one posting list into a thread's heap.\<close>

definition list_step ::
  "rt \<Rightarrow> ivf \<Rightarrow> vec \<Rightarrow> nat \<Rightarrow> (vecid \<Rightarrow> bool) option \<Rightarrow> (f32 \<times> vecid) list \<Rightarrow> nat \<Rightarrow> (f32 \<times> vecid) list"
where
  "list_step rt ix q k f local c = (case ivf_quantizer ix of
       Some qz \<Rightarrow> foldl (\<lambda>h (y, codes). if keep f y
           then topk_push k h (asym_distance rt qz (ivf_metric ix) q codes, y) else h)
         local (ids_and_codes (ivf_lists ix ! c) (ivf_dim ix))
     | None \<Rightarrow> foldl (\<lambda>h (y, chunk). if keep f y
           then topk_push k h (simd_distance rt (ivf_metric ix) q chunk, y) else h)
         local (ids_and_chunks (ivf_lists ix ! c) (ivf_dim ix)))"

definition probe_lists :: "rt \<Rightarrow> ivf \<Rightarrow> vec \<Rightarrow> nat list" where
  "probe_lists rt ix q = map snd (take (ivf_nprobe ix) (sort_key hkey (map (\<lambda>c.
     (simd_distance rt (ivf_metric ix) q (row (ivf_dim ix) (ivf_centroids ix) c), c)) [0..<ivf_nlist ix])))"

definition search_trained ::
  "rt \<Rightarrow> ivf \<Rightarrow> vec \<Rightarrow> nat \<Rightarrow> (vecid \<Rightarrow> bool) option \<Rightarrow> 'p scored_result list"
where
  "search_trained rt ix q k f =
     (let probe = probe_lists rt ix q
      in sorted_results rt (par_fold_reduce (par_tree rt (length probe)) [] (list_step rt ix q k f)
           (topk_merge (id_heap_iter rt) k) probe))"

definition ivf_search ::
  "rt \<Rightarrow> ivf \<Rightarrow> vec \<Rightarrow> nat \<Rightarrow> (vecid \<Rightarrow> bool) option \<Rightarrow> db_error + 'p scored_result list"
where
  "ivf_search rt ix q k f =
     (if length q \<noteq> ivf_dim ix then Inl (DimMismatch (ivf_dim ix) (length q))
      else if k = 0 then Inr []
      else if \<not> ivf_trained ix then Inr (search_staging rt ix q k f)
      else Inr (search_trained rt ix q k f))"

definition ivf_len :: "ivf \<Rightarrow> nat" where
  "ivf_len ix = (if ivf_trained ix then length (id_to_list ix) else length (staging_ids ix))"

definition ivf_list_ids :: "rt \<Rightarrow> ivf \<Rightarrow> vecid list" where
  "ivf_list_ids rt ix =
     (if ivf_trained ix then hash_iter rt (map fst (id_to_list ix)) else staging_ids ix)"

text \<open>\<open>expect\<close> panics on an error; it is proved below not to happen.\<close>

definition ivf_compact :: "rt \<Rightarrow> ivf \<Rightarrow> (db_error + ivf) option" where
  "ivf_compact rt ix =
     (if \<not> ivf_trained ix then None
      else Some (case (if ivf_quantize ix
              then ivf_new_sq8 (ivf_dim ix) (ivf_metric ix) (ivf_nlist ix) (ivf_nprobe ix)
              else ivf_new (ivf_dim ix) (ivf_metric ix) (ivf_nlist ix) (ivf_nprobe ix)) of
            Inl _ \<Rightarrow> Inl Panicked
          | Inr fresh \<Rightarrow> foldl (\<lambda>acc y. case acc of
                Inl e \<Rightarrow> Inl e
              | Inr s \<Rightarrow> (case ivf_get ix y of
                    None \<Rightarrow> Inr s
                  | Some v \<Rightarrow> (case ivf_insert rt s y v of Inl _ \<Rightarrow> Inl Panicked | Inr s' \<Rightarrow> Inr s')))
              (Inr fresh) (ivf_list_ids rt ix)))"

section \<open>Invariant\<close>

text \<open>What a lookup in one posting list returns, raw or decoded, and what it stores for a vector.\<close>

definition post_get :: "sq8 option \<Rightarrow> nat \<Rightarrow> posting \<Rightarrow> vecid \<Rightarrow> vec option" where
  "post_get qz d p y = (case qz of
       Some q \<Rightarrow> map_option (sq8_decode q) (slab_get d (p_ids p) (p_codes p) y)
     | None \<Rightarrow> slab_get d (p_ids p) (p_data p) y)"

definition stored :: "sq8 option \<Rightarrow> vec \<Rightarrow> vec" where
  "stored qz v = (case qz of Some q \<Rightarrow> sq8_decode q (sq8_encode q v) | None \<Rightarrow> v)"

definition post_ok :: "sq8 option \<Rightarrow> nat \<Rightarrow> posting \<Rightarrow> bool" where
  "post_ok qz d p = (case qz of
       Some q \<Rightarrow> slab_ok d (p_ids p) (p_codes p) \<and> p_data p = []
     | None \<Rightarrow> slab_ok d (p_ids p) (p_data p) \<and> p_codes p = [])"

text \<open>The part of the invariant that holds while \<open>train\<close> is filling the lists, too.\<close>

definition lists_ok :: "ivf \<Rightarrow> bool" where
  "lists_ok ix \<longleftrightarrow> length (ivf_lists ix) = ivf_nlist ix \<and> 0 < ivf_nlist ix \<and>
     list_all (post_ok (ivf_quantizer ix) (ivf_dim ix)) (ivf_lists ix) \<and> hm_ok (id_to_list ix) \<and>
     (\<forall>y l. hm_get (id_to_list ix) y = Some l \<longleftrightarrow> l < ivf_nlist ix \<and> y \<in> set (p_ids (ivf_lists ix ! l)))"

definition ivf_ok :: "ivf \<Rightarrow> bool" where
  "ivf_ok ix \<longleftrightarrow> 0 < ivf_dim ix \<and> 0 < ivf_nlist ix \<and> 0 < ivf_nprobe ix \<and> ivf_nprobe ix \<le> ivf_nlist ix \<and>
     (if ivf_trained ix
      then staging_ids ix = [] \<and> staging_data ix = [] \<and> lists_ok ix \<and>
        length (ivf_centroids ix) = ivf_nlist ix * ivf_dim ix \<and>
        ivf_quantize ix = (ivf_quantizer ix \<noteq> None) \<and>
        (\<forall>q. ivf_quantizer ix = Some q \<longrightarrow> sq8_ok (ivf_dim ix) q)
      else slab_ok (ivf_dim ix) (staging_ids ix) (staging_data ix) \<and>
        length (staging_ids ix) < ivf_nlist ix \<and> ivf_lists ix = [] \<and> id_to_list ix = [] \<and>
        ivf_quantizer ix = None)"

text \<open>The contents of the posting lists, whether or not training has finished.\<close>

definition lists_get :: "ivf \<Rightarrow> vecid \<Rightarrow> vec option" where
  "lists_get ix y = (case hm_get (id_to_list ix) y of
       None \<Rightarrow> None
     | Some l \<Rightarrow> post_get (ivf_quantizer ix) (ivf_dim ix) (ivf_lists ix ! l) y)"

lemma ivf_get_trained: "ivf_trained ix \<Longrightarrow> ivf_get ix = lists_get ix"
  by (simp add: ivf_get_def lists_get_def post_get_def get_f32_by_id_def get_codes_by_id_def
      slab_get_def fun_eq_iff split: option.split)

lemma ivf_get_staging:
  "\<not> ivf_trained ix \<Longrightarrow> ivf_get ix = slab_get (ivf_dim ix) (staging_ids ix) (staging_data ix)"
  by (simp add: ivf_get_def slab_get_def fun_eq_iff)

lemma post_get_dom: "dom (post_get qz d p) = set (p_ids p)"
proof -
  have "post_get qz d p y = None \<longleftrightarrow> y \<notin> set (p_ids p)" for y
    by (cases qz) (simp_all add: post_get_def slab_get_None)
  then show ?thesis by (auto simp: dom_def)
qed

lemma lists_get_dom: "lists_ok ix \<Longrightarrow> dom (lists_get ix) = dom (map_of (id_to_list ix))"
proof -
  assume ok: "lists_ok ix"
  have "lists_get ix y = None \<longleftrightarrow> map_of (id_to_list ix) y = None" for y
  proof (cases "map_of (id_to_list ix) y")
    case (Some l)
    then have "y \<in> set (p_ids (ivf_lists ix ! l))" using ok by (auto simp: lists_ok_def)
    then have "post_get (ivf_quantizer ix) (ivf_dim ix) (ivf_lists ix ! l) y \<noteq> None"
      using post_get_dom by fastforce
    then show ?thesis using Some by (simp add: lists_get_def)
  qed (simp add: lists_get_def)
  then show ?thesis by (auto simp: dom_def)
qed

lemma ivf_get_dom:
  "ivf_ok ix \<Longrightarrow> dom (ivf_get ix) =
    (if ivf_trained ix then dom (map_of (id_to_list ix)) else set (staging_ids ix))"
  by (simp add: ivf_get_trained ivf_get_staging ivf_ok_def lists_get_dom slab_get_dom)

section \<open>Posting lists keep their slabs\<close>

definition post_push :: "sq8 option \<Rightarrow> posting \<Rightarrow> vecid \<Rightarrow> vec \<Rightarrow> posting" where
  "post_push qz p y v = (case qz of
       Some q \<Rightarrow> posting_push_codes p y (sq8_encode q v) | None \<Rightarrow> posting_push p y v)"

definition post_remove :: "sq8 option \<Rightarrow> posting \<Rightarrow> vecid \<Rightarrow> nat \<Rightarrow> posting" where
  "post_remove qz p y d = (case qz of
       Some q \<Rightarrow> snd (remove_by_id_sq8 p y d) | None \<Rightarrow> snd (remove_by_id p y d))"

lemma post_push_ok:
  assumes "post_ok qz d p" "y \<notin> set (p_ids p)" "length v = d"
  shows "post_ok qz d (post_push qz p y v) \<and> p_ids (post_push qz p y v) = p_ids p @ [y] \<and>
    post_get qz d (post_push qz p y v) = (post_get qz d p)(y \<mapsto> stored qz v)"
proof (cases qz)
  case None
  then show ?thesis using assms
    by (simp add: post_ok_def post_push_def posting_push_def post_get_def stored_def
        slab_ok_push slab_get_push fun_eq_iff)
next
  case (Some q)
  then show ?thesis using assms
    by (simp add: post_ok_def post_push_def posting_push_codes_def post_get_def stored_def
        slab_ok_push slab_get_push fun_eq_iff)
qed

lemma post_remove_ok:
  assumes "post_ok qz d p" "y \<in> set (p_ids p)"
  shows "post_ok qz d (post_remove qz p y d) \<and> set (p_ids (post_remove qz p y d)) = set (p_ids p) - {y} \<and>
    post_get qz d (post_remove qz p y d) = (post_get qz d p)(y := None)"
proof -
  obtain pos where pos: "position y (p_ids p) = Some pos"
    using assms(2) by (metis not_Some_eq position_None)
  have d: "distinct (p_ids p)"
    using assms(1) by (simp add: post_ok_def slab_ok_def split: option.splits)
  have st: "set (swap_remove pos (p_ids p)) = set (p_ids p) - {y}"
    using set_swap_remove [OF d position_less [OF pos]] position_nth [OF pos] by simp
  show ?thesis
  proof (cases qz)
    case None
    then show ?thesis using assms(1) pos st
        slab_ok_remove [of d "p_ids p" "p_data p" y pos]
        slab_get_remove [of d "p_ids p" "p_data p" y pos]
      by (simp add: post_ok_def post_remove_def remove_by_id_def post_get_def fun_eq_iff)
  next
    case (Some q)
    then show ?thesis using assms(1) pos st
        slab_ok_remove [of d "p_ids p" "p_codes p" y pos]
        slab_get_remove [of d "p_ids p" "p_codes p" y pos]
      by (simp add: post_ok_def post_remove_def remove_by_id_sq8_def post_get_def fun_eq_iff)
  qed
qed

lemma nearest_of_less: "0 < k \<Longrightarrow> nearest_of rt m d cents k v < k"
proof -
  assume k: "0 < k"
  have "foldl (\<lambda>a b. if g b a then b else a) a xs < k" if "a < k" "\<forall>b \<in> set xs. b < k" for a xs g
    using that by (induction xs arbitrary: a) auto
  then show ?thesis using k by (simp add: nearest_of_def)
qed

lemma ivf_place_eq:
  "ivf_place rt ix y v = ix\<lparr>ivf_lists := (ivf_lists ix)[nearest_centroid rt ix v :=
       post_push (ivf_quantizer ix) (ivf_lists ix ! nearest_centroid rt ix v) y v],
     id_to_list := hm_insert y (nearest_centroid rt ix v) (id_to_list ix)\<rparr>"
  by (simp add: ivf_place_def post_push_def Let_def split: option.split)

lemma ivf_unlink_eq:
  "ivf_unlink ix y l = ix\<lparr>ivf_lists := (ivf_lists ix)[l :=
       post_remove (ivf_quantizer ix) (ivf_lists ix ! l) y (ivf_dim ix)],
     id_to_list := hm_remove y (id_to_list ix)\<rparr>"
  by (simp add: ivf_unlink_def post_remove_def Let_def split: option.split)

lemma list_all_nth: "list_all P xs \<Longrightarrow> i < length xs \<Longrightarrow> P (xs ! i)"
  by (simp add: list_all_length)

lemma list_all_update: "list_all P xs \<Longrightarrow> P x \<Longrightarrow> list_all P (xs[i := x])"
  by (cases "i < length xs") (simp_all add: list_all_length nth_list_update)

lemma ivf_place_ok:
  assumes ok: "lists_ok ix" and y: "hm_get (id_to_list ix) y = None" and v: "length v = ivf_dim ix"
  shows "lists_ok (ivf_place rt ix y v) \<and>
    lists_get (ivf_place rt ix y v) = (lists_get ix)(y \<mapsto> stored (ivf_quantizer ix) v)"
proof -
  let ?c = "nearest_centroid rt ix v" and ?qz = "ivf_quantizer ix" and ?d = "ivf_dim ix"
  let ?p = "post_push ?qz (ivf_lists ix ! ?c) y v"
  have c: "?c < ivf_nlist ix" using ok by (simp add: nearest_centroid_def nearest_of_less lists_ok_def)
  have len: "length (ivf_lists ix) = ivf_nlist ix" using ok by (simp add: lists_ok_def)
  have iff: "hm_get (id_to_list ix) z = Some l \<longleftrightarrow> l < ivf_nlist ix \<and> z \<in> set (p_ids (ivf_lists ix ! l))"
    for z l using ok by (simp add: lists_ok_def)
  have new: "y \<notin> set (p_ids (ivf_lists ix ! l))" if "l < ivf_nlist ix" for l
    using iff [of y l] y that by simp
  have p: "post_ok ?qz ?d ?p" "p_ids ?p = p_ids (ivf_lists ix ! ?c) @ [y]"
      "post_get ?qz ?d ?p = (post_get ?qz ?d (ivf_lists ix ! ?c))(y \<mapsto> stored ?qz v)"
    using post_push_ok [of ?qz ?d "ivf_lists ix ! ?c" y v] new [OF c] v ok c len
    by (auto simp: lists_ok_def list_all_nth)
  have "lists_ok (ivf_place rt ix y v)"
    using ok p c len iff new
    by (auto simp: lists_ok_def ivf_place_eq hash_simps list_all_update nth_list_update split: if_splits)
  moreover have "lists_get (ivf_place rt ix y v) z = ((lists_get ix)(y \<mapsto> stored ?qz v)) z" for z
  proof (cases "z = y")
    case True
    then show ?thesis using p c len by (simp add: lists_get_def ivf_place_eq hash_simps)
  next
    case False
    then show ?thesis using p c len
      by (auto simp: lists_get_def ivf_place_eq hash_simps nth_list_update split: option.split)
  qed
  ultimately show ?thesis by auto
qed

lemma ivf_unlink_ok:
  assumes ok: "lists_ok ix" and l: "hm_get (id_to_list ix) y = Some l"
  shows "lists_ok (ivf_unlink ix y l) \<and> lists_get (ivf_unlink ix y l) = (lists_get ix)(y := None)"
proof -
  let ?qz = "ivf_quantizer ix" and ?d = "ivf_dim ix"
  let ?p = "post_remove ?qz (ivf_lists ix ! l) y ?d"
  have len: "length (ivf_lists ix) = ivf_nlist ix" using ok by (simp add: lists_ok_def)
  have iff: "hm_get (id_to_list ix) z = Some l \<longleftrightarrow> l < ivf_nlist ix \<and> z \<in> set (p_ids (ivf_lists ix ! l))"
    for z l using ok by (simp add: lists_ok_def)
  have c: "l < ivf_nlist ix" "y \<in> set (p_ids (ivf_lists ix ! l))" using iff [of y l] l by auto
  have only: "y \<in> set (p_ids (ivf_lists ix ! l')) \<Longrightarrow> l' < ivf_nlist ix \<Longrightarrow> l' = l" for l'
    using iff [of y l'] l by auto
  have p: "post_ok ?qz ?d ?p" "set (p_ids ?p) = set (p_ids (ivf_lists ix ! l)) - {y}"
      "post_get ?qz ?d ?p = (post_get ?qz ?d (ivf_lists ix ! l))(y := None)"
    using post_remove_ok [of ?qz ?d "ivf_lists ix ! l" y] ok c len
    by (auto simp: lists_ok_def list_all_nth)
  have "((hm_get (id_to_list ix))(y := None)) z = Some l' \<longleftrightarrow>
      l' < ivf_nlist ix \<and> z \<in> set (p_ids ((ivf_lists ix)[l := ?p] ! l'))" for z l'
  proof (cases "z = y")
    case True
    then show ?thesis using p(2) only [of l'] len by (cases "l' = l") auto
  next
    case False
    then show ?thesis using p(2) c(1) len iff [of z l'] by (cases "l' = l") auto
  qed
  then have "lists_ok (ivf_unlink ix y l)"
    using ok p(1) by (simp add: lists_ok_def ivf_unlink_eq hash_simps list_all_update)
  moreover have "lists_get (ivf_unlink ix y l) z = ((lists_get ix)(y := None)) z" for z
    using p c len
    by (auto simp: lists_get_def ivf_unlink_eq hash_simps nth_list_update split: option.split)
  ultimately show ?thesis by auto
qed

section \<open>K-means keeps the shape of the centroids\<close>

lemma length_kmeans_init:
  assumes "length data = n * d" "0 < n"
  shows "length (kmeans_init data n d k) = k * d"
proof -
  have "length (row d data (i * n div k)) = d" if "i < k" for i
  proof -
    have "i * n < n * k" using that assms(2) by (simp add: mult.commute)
    then have "i * n div k < n" by (rule less_mult_imp_div_less)
    then show ?thesis using assms(1) by (simp add: length_row [of data n])
  qed
  then have "sum_list (map (\<lambda>i. length (row d data (i * n div k))) [0..<k]) = sum_list (map (\<lambda>i. d) [0..<k])"
    by (intro arg_cong [where f = sum_list] map_cong) auto
  then show ?thesis by (simp add: kmeans_init_def length_concat comp_def sum_list_triv)
qed

lemma length_kmeans_sums:
  assumes "length data = n * d" "\<forall>i < n. assignments ! i < k"
  shows "length (fst (kmeans_sums rt data n d k assignments)) = k * d"
  unfolding kmeans_sums_def
proof (rule par_fold_reduce_inv [where P = "\<lambda>s. length (fst s) = k * d"])
  fix h :: "f32 list \<times> nat list" and i assume h: "length (fst h) = k * d" and "i \<in> set [0..<n]"
  then have i: "i < n" "assignments ! i < k" using assms(2) by auto
  have "length (row d (fst h) (assignments ! i)) = d" "length (row d data i) = d"
    using h i assms(1) by (simp_all add: length_row [of _ k] length_row [of _ n])
  then show "length (fst ((\<lambda>(sums, counts) i. let c = assignments ! i in
      (set_row d sums c (map2 f32_add (row d sums c) (row d data i)), counts[c := counts ! c + 1])) h i)) = k * d"
    using h i by (cases h) (simp add: Let_def length_set_row)
qed (auto split: prod.split)

lemma length_foldl_set_row:
  "length xs = k * d \<Longrightarrow> \<forall>c \<in> set cs. c < k \<Longrightarrow> (\<And>s c. c < k \<Longrightarrow> length s = k * d \<Longrightarrow> length (g s c) = d) \<Longrightarrow>
   length (foldl (\<lambda>s c. set_row d s c (g s c)) xs cs) = k * d"
  by (induction cs arbitrary: xs) (auto simp: length_set_row)

lemma foldl_pick_less:
  "a < k \<Longrightarrow> \<forall>b \<in> set xs. b < k \<Longrightarrow> foldl (\<lambda>a b. if g a b then b else a) a xs < (k :: nat)"
  by (induction xs arbitrary: a) auto

lemma length_kmeans_means:
  assumes "length (fst sc) = k * d" "length cents = k * d" "0 < k"
  shows "length (kmeans_means d k cents sc) = k * d"
proof -
  let ?src = "foldl (\<lambda>a b. if snd sc ! a \<le> snd sc ! b then b else a) 0 [1..<k]"
  let ?g = "\<lambda>new c. if snd sc ! c = 0 then row d cents ?src
    else map (\<lambda>x. f32_div x (f32_of_nat (snd sc ! c))) (row d new c)"
  have "?src < k" using assms(3) by (intro foldl_pick_less) auto
  then have "length (foldl (\<lambda>s c. set_row d s c (?g s c)) (fst sc) [0..<k]) = k * d"
    using assms by (intro length_foldl_set_row) (auto simp: length_row [of _ k])
  then show ?thesis by (simp add: kmeans_means_def Let_def if_distrib del: One_nat_def)
qed

lemma length_kmeans_step:
  assumes "length data = n * d" "length cents = k * d" "0 < k"
  shows "length (kmeans_step rt data n d k m cents) = k * d"
  unfolding kmeans_step_def Let_def
  using assms by (intro length_kmeans_means length_kmeans_sums) (auto simp: nearest_of_less)

lemma length_kmeans_loop:
  "length data = n * d \<Longrightarrow> length cents = k * d \<Longrightarrow> 0 < k \<Longrightarrow>
   length (kmeans_loop j rt data n d k m cents) = k * d"
  by (induction j arbitrary: cents) (simp_all add: Let_def length_kmeans_step)

lemma length_kmeans:
  "length data = n * d \<Longrightarrow> 0 < n \<Longrightarrow> 0 < k \<Longrightarrow> length (kmeans rt data n d k m) = k * d"
  by (simp add: kmeans_def length_kmeans_loop length_kmeans_init)

section \<open>Training\<close>

lemma ivf_place_fold:
  assumes "lists_ok ix" "distinct (map fst xs)"
    "\<forall>(y, v) \<in> set xs. hm_get (id_to_list ix) y = None \<and> length v = ivf_dim ix"
  shows "\<exists>L M. foldl (\<lambda>s (y, v). ivf_place rt s y v) ix xs = ix\<lparr>ivf_lists := L, id_to_list := M\<rparr> \<and>
    lists_ok (ix\<lparr>ivf_lists := L, id_to_list := M\<rparr>) \<and>
    lists_get (ix\<lparr>ivf_lists := L, id_to_list := M\<rparr>) =
      lists_get ix ++ map_of (rev (map (\<lambda>(y, v). (y, stored (ivf_quantizer ix) v)) xs))"
  using assms
proof (induction xs rule: rev_induct)
  case Nil
  show ?case by (rule exI [of _ "ivf_lists ix"], rule exI [of _ "id_to_list ix"]) (simp add: Nil)
next
  case (snoc x xs)
  obtain y v where x: "x = (y, v)" by (cases x)
  obtain L M where LM: "foldl (\<lambda>s (y, v). ivf_place rt s y v) ix xs = ix\<lparr>ivf_lists := L, id_to_list := M\<rparr>"
      "lists_ok (ix\<lparr>ivf_lists := L, id_to_list := M\<rparr>)"
      "lists_get (ix\<lparr>ivf_lists := L, id_to_list := M\<rparr>) =
        lists_get ix ++ map_of (rev (map (\<lambda>(y, v). (y, stored (ivf_quantizer ix) v)) xs))"
    using snoc by auto
  let ?s = "ix\<lparr>ivf_lists := L, id_to_list := M\<rparr>"
  have "y \<notin> fst ` set xs" using snoc.prems(2) x by auto
  then have "map_of (rev (map (\<lambda>(y, v). (y, stored (ivf_quantizer ix) v)) xs)) y = None"
    by (simp add: map_of_eq_None_iff image_image case_prod_beta)
  moreover have "lists_get ix y = None" using snoc.prems(3) x by (simp add: lists_get_def)
  ultimately have "lists_get ?s y = None" by (simp add: LM(3) map_add_None)
  then have "hm_get (id_to_list ?s) y = None" using lists_get_dom [OF LM(2)] by (metis domIff)
  then have step: "lists_ok (ivf_place rt ?s y v)"
      "lists_get (ivf_place rt ?s y v) = (lists_get ?s)(y \<mapsto> stored (ivf_quantizer ix) v)"
    using ivf_place_ok [OF LM(2), of y v rt] snoc.prems(3) x by auto
  have get: "lists_get (ivf_place rt ?s y v) =
      lists_get ix ++ map_of (rev (map (\<lambda>(y, v). (y, stored (ivf_quantizer ix) v)) (xs @ [x])))"
    by (simp add: step(2) LM(3) x)
  obtain L' M' where e: "ivf_place rt ?s y v = ix\<lparr>ivf_lists := L', id_to_list := M'\<rparr>"
    by (auto simp: ivf_place_eq)
  have f: "foldl (\<lambda>s (y, v). ivf_place rt s y v) ix (xs @ [x]) = ivf_place rt ?s y v"
    using LM(1) x by simp
  show ?case
  proof (intro exI conjI)
    show "foldl (\<lambda>s (y, v). ivf_place rt s y v) ix (xs @ [x]) = ix\<lparr>ivf_lists := L', id_to_list := M'\<rparr>"
      using f e by simp
    show "lists_ok (ix\<lparr>ivf_lists := L', id_to_list := M'\<rparr>)" using step(1) e by simp
  qed (simp only: get flip: e)
qed

definition same_params :: "ivf \<Rightarrow> ivf \<Rightarrow> bool" where
  "same_params a b \<longleftrightarrow> ivf_dim a = ivf_dim b \<and> ivf_metric a = ivf_metric b \<and>
     ivf_nlist a = ivf_nlist b \<and> ivf_nprobe a = ivf_nprobe b \<and> ivf_quantize a = ivf_quantize b"

text \<open>Training keeps the contents: raw, or as what quantizing and decoding gives.\<close>

lemma ivf_train_ok:
  assumes un: "\<not> ivf_trained ix" "0 < ivf_dim ix" "0 < ivf_nlist ix" "0 < ivf_nprobe ix"
      "ivf_nprobe ix \<le> ivf_nlist ix" "ivf_lists ix = []" "id_to_list ix = []" "ivf_quantizer ix = None"
    and slab: "slab_ok (ivf_dim ix) (staging_ids ix) (staging_data ix)" and ne: "staging_ids ix \<noteq> []"
  shows "ivf_ok (ivf_train rt ix) \<and> same_params (ivf_train rt ix) ix \<and> ivf_trained (ivf_train rt ix) \<and>
    ivf_get (ivf_train rt ix) = (\<lambda>y. map_option (stored (ivf_quantizer (ivf_train rt ix))) (ivf_get ix y))"
proof -
  let ?n = "length (staging_ids ix)" and ?d = "ivf_dim ix"
  let ?qz = "if ivf_quantize ix then Some (sq8_fit (staging_data ix) ?n ?d) else ivf_quantizer ix"
  let ?g = "slab_get ?d (staging_ids ix) (staging_data ix)"
  define ix1 where "ix1 = ix\<lparr>
      ivf_centroids := kmeans rt (staging_data ix) ?n ?d (ivf_nlist ix) (ivf_metric ix),
      ivf_lists := replicate (ivf_nlist ix) posting_new, ivf_quantizer := ?qz\<rparr>"
  have len: "length (staging_data ix) = ?n * ?d" using slab by (simp add: slab_ok_def)
  define items where "items = map (\<lambda>y. (y, the (?g y))) (staging_ids ix)"
  have "post_ok ?qz ?d posting_new"
    by (simp add: post_ok_def posting_new_def slab_ok_Nil split: option.split)
  then have ok1: "lists_ok ix1" "lists_get ix1 = Map.empty"
    using un by (auto simp: lists_ok_def lists_get_def ix1_def hm_ok_Nil posting_new_def list_all_length)
  have "\<forall>(y, v) \<in> set items. hm_get (id_to_list ix1) y = None \<and> length v = ivf_dim ix1"
  proof -
    have "length (the (?g y)) = ?d" if "y \<in> set (staging_ids ix)" for y
    proof -
      have "?g y \<noteq> None" using that by (simp add: slab_get_None)
      then obtain v where "?g y = Some v" by blast
      then show ?thesis using slab_get_length [OF slab] by simp
    qed
    then show ?thesis using un by (auto simp: items_def ix1_def)
  qed
  moreover have "distinct (map fst items)" using slab by (simp add: items_def comp_def slab_ok_def)
  ultimately obtain L M where LM:
      "foldl (\<lambda>s (y, v). ivf_place rt s y v) ix1 items = ix1\<lparr>ivf_lists := L, id_to_list := M\<rparr>"
      "lists_ok (ix1\<lparr>ivf_lists := L, id_to_list := M\<rparr>)"
      "lists_get (ix1\<lparr>ivf_lists := L, id_to_list := M\<rparr>) =
        map_of (rev (map (\<lambda>(y, v). (y, stored (ivf_quantizer ix1) v)) items))"
    using ivf_place_fold [OF ok1(1), of items rt] ok1(2) by auto
  have fold_eq: "foldl (\<lambda>s i. ivf_place rt s (staging_ids ix ! i) (row ?d (staging_data ix) i)) ix1 [0..<?n] =
      foldl (\<lambda>s (y, v). ivf_place rt s y v) ix1 items"
    unfolding items_def slab_index_items [OF slab, symmetric] by (simp add: foldl_map)
  have train: "ivf_train rt ix = ix1\<lparr>ivf_lists := L, id_to_list := M, staging_ids := [],
      staging_data := [], ivf_trained := True\<rparr>"
    unfolding ivf_train_def Let_def ix1_def [symmetric] fold_eq LM(1) by simp
  have "ivf_ok (ivf_train rt ix)"
    using LM(2) un len ne by (simp add: train ivf_ok_def lists_ok_def ix1_def length_kmeans sq8_fit_ok)
  moreover have "ivf_get (ivf_train rt ix) y = map_option (stored ?qz) (ivf_get ix y)" for y
  proof -
    have "ivf_get (ivf_train rt ix) y = lists_get (ix1\<lparr>ivf_lists := L, id_to_list := M\<rparr>) y"
      by (simp add: ivf_get_trained train lists_get_def split: option.split)
    also have "\<dots> = map_of (map (\<lambda>y. (y, stored ?qz (the (?g y)))) (staging_ids ix)) y"
    proof -
      have e: "map (\<lambda>(y, v). (y, stored (ivf_quantizer ix1) v)) items =
          map (\<lambda>y. (y, stored ?qz (the (?g y)))) (staging_ids ix)"
        by (simp add: items_def ix1_def)
      have "distinct (map fst (map (\<lambda>y. (y, stored ?qz (the (?g y)))) (staging_ids ix)))"
        using slab by (simp add: comp_def slab_ok_def)
      then show ?thesis unfolding LM(3) e by (simp only: map_of_rev_distinct)
    qed
    also have "\<dots> = map_option (stored ?qz) (?g y)"
      using slab_get_None [of ?d "staging_ids ix" "staging_data ix" y]
      by (cases "?g y") (auto simp: map_of_map_restrict restrict_map_def)
    finally show ?thesis using un by (simp add: ivf_get_staging)
  qed
  ultimately show ?thesis by (auto simp: train ix1_def same_params_def)
qed

section \<open>Insertion and deletion\<close>

lemma stored_None [simp]: "stored None v = v"
  by (simp add: stored_def)

lemma map_option_stored_None [simp]: "map_option (stored None) x = x"
  by (cases x) simp_all

lemma length_stored [simp]: "length (stored qz v) = length v"
  by (simp add: stored_def split: option.split)

lemma ivf_insert_total: "length v = ivf_dim ix \<Longrightarrow> \<exists>ix'. ivf_insert rt ix y v = Inr ix'"
  by (simp add: ivf_insert_def Let_def split: option.split)

lemma ivf_insert_trained:
  assumes ok: "ivf_ok ix" and tr: "ivf_trained ix" and ins: "ivf_insert rt ix y v = Inr ix'"
  shows "ivf_ok ix' \<and> same_params ix' ix \<and> ivf_trained ix' \<and> ivf_quantizer ix' = ivf_quantizer ix \<and>
    ivf_get ix' = (ivf_get ix)(y \<mapsto> stored (ivf_quantizer ix) v)"
proof -
  define ix1 where
    "ix1 = (case hm_get (id_to_list ix) y of Some old \<Rightarrow> ivf_unlink ix y old | None \<Rightarrow> ix)"
  have lists: "lists_ok ix" using ok tr by (simp add: ivf_ok_def)
  have v: "length v = ivf_dim ix" and ix': "ix' = ivf_place rt ix1 y v"
    using ins tr by (auto simp: ivf_insert_def ix1_def Let_def split: if_splits)
  obtain L M where eq1: "ix1 = ix\<lparr>ivf_lists := L, id_to_list := M\<rparr>"
  proof (cases "hm_get (id_to_list ix) y")
    case None
    then show thesis by (intro that [of "id_to_list ix" "ivf_lists ix"]) (simp add: ix1_def)
  qed (auto simp: ix1_def ivf_unlink_eq intro: that)
  have 1: "lists_ok ix1 \<and> lists_get ix1 = (lists_get ix)(y := None)"
  proof (cases "hm_get (id_to_list ix) y")
    case None
    then have "lists_get ix y = None" by (simp add: lists_get_def)
    then show ?thesis using lists None by (auto simp: ix1_def)
  next
    case (Some l)
    then show ?thesis using ivf_unlink_ok [OF lists] by (simp add: ix1_def)
  qed
  then have "hm_get (id_to_list ix1) y = None"
    using lists_get_dom [of ix1] by (metis domIff fun_upd_same)
  then have 2: "lists_ok ix' \<and> lists_get ix' = (lists_get ix1)(y \<mapsto> stored (ivf_quantizer ix1) v)"
    using ivf_place_ok [of ix1 y v rt] 1 v by (simp add: ix' eq1)
  obtain L' M' where eq: "ix' = ix\<lparr>ivf_lists := L', id_to_list := M'\<rparr>"
    by (auto simp: ix' ivf_place_eq eq1)
  have "ivf_ok ix'" using ok tr 2 by (auto simp: ivf_ok_def eq)
  moreover have "ivf_get ix' = (ivf_get ix)(y \<mapsto> stored (ivf_quantizer ix) v)"
  proof -
    have "ivf_get ix' = lists_get ix'" using tr by (simp add: ivf_get_trained eq)
    also have "\<dots> = (lists_get ix)(y \<mapsto> stored (ivf_quantizer ix) v)" using 1 2 by (simp add: eq1)
    finally show ?thesis using tr by (simp add: ivf_get_trained)
  qed
  ultimately show ?thesis using tr by (simp add: same_params_def eq)
qed

lemma ivf_insert_staging:
  assumes ok: "ivf_ok ix" and tr: "\<not> ivf_trained ix" and ins: "ivf_insert rt ix y v = Inr ix'"
  shows "ivf_ok ix' \<and> same_params ix' ix \<and>
    ivf_get ix' = (\<lambda>z. map_option (stored (ivf_quantizer ix')) (((ivf_get ix)(y \<mapsto> v)) z))"
proof -
  let ?ix1 = "ix\<lparr>staging_ids := staging_ids ix @ [y], staging_data := staging_data ix @ v\<rparr>"
  have slab: "slab_ok (ivf_dim ix) (staging_ids ix) (staging_data ix)" and qz: "ivf_quantizer ix = None"
    using ok tr by (simp_all add: ivf_ok_def)
  have v: "length v = ivf_dim ix" using ins by (auto simp: ivf_insert_def split: if_splits)
  show ?thesis
  proof (cases "position y (staging_ids ix)")
    case (Some pos)
    then have ix': "ix' = ix\<lparr>staging_data := set_row (ivf_dim ix) (staging_data ix) pos v\<rparr>"
      using ins tr v by (simp add: ivf_insert_def)
    then show ?thesis using ok tr qz v slab_ok_set_row [OF slab Some v] slab_get_set_row [OF slab Some v]
      by (auto simp: ivf_ok_def same_params_def ivf_get_staging)
  next
    case None
    then have y: "y \<notin> set (staging_ids ix)" by simp
    have slab1: "slab_ok (ivf_dim ix) (staging_ids ix @ [y]) (staging_data ix @ v)"
      and get1: "ivf_get ?ix1 = (ivf_get ix)(y \<mapsto> v)"
      using slab_ok_push [OF slab y v] slab_get_push [OF slab y v] tr by (simp_all add: ivf_get_staging)
    show ?thesis
    proof (cases "ivf_nlist ix \<le> Suc (length (staging_ids ix))")
      case True
      then have "ix' = ivf_train rt ?ix1" using ins tr v None y by (simp add: ivf_insert_def)
      moreover have "ivf_ok (ivf_train rt ?ix1) \<and> same_params (ivf_train rt ?ix1) ?ix1 \<and>
          ivf_trained (ivf_train rt ?ix1) \<and> ivf_get (ivf_train rt ?ix1) =
            (\<lambda>y. map_option (stored (ivf_quantizer (ivf_train rt ?ix1))) (ivf_get ?ix1 y))"
        using ok tr slab1 qz by (intro ivf_train_ok) (simp_all add: ivf_ok_def)
      ultimately show ?thesis by (simp add: same_params_def get1)
    next
      case False
      then have "ix' = ?ix1" using ins tr v None y by (simp add: ivf_insert_def)
      then show ?thesis using ok tr slab1 qz get1 False by (simp add: ivf_ok_def same_params_def fun_eq_iff)
    qed
  qed
qed

lemma ivf_insert_ok:
  assumes "ivf_ok ix" "ivf_insert rt ix y v = Inr ix'"
  shows "ivf_ok ix' \<and> same_params ix' ix \<and> dom (ivf_get ix') = {y} \<union> dom (ivf_get ix) \<and>
    (\<not> ivf_quantize ix \<longrightarrow> ivf_get ix' = (ivf_get ix)(y \<mapsto> v))"
proof (cases "ivf_trained ix")
  case True
  then show ?thesis using ivf_insert_trained [OF assms(1) True assms(2)] assms(1)
    by (auto simp: ivf_ok_def split: option.splits)
next
  case False
  note st = ivf_insert_staging [OF assms(1) False assms(2)]
  have "ivf_quantizer ix' = None" if "\<not> ivf_quantize ix"
    using st that by (auto simp: ivf_ok_def same_params_def split: if_splits option.splits)
  moreover have "dom (ivf_get ix') = {y} \<union> dom (ivf_get ix)"
    using st by (auto simp: dom_def)
  ultimately show ?thesis using st by (auto simp: fun_eq_iff)
qed

lemma ivf_delete_ok:
  assumes ok: "ivf_ok ix" and del: "ivf_delete ix y = (b, ix')"
  shows "ivf_ok ix' \<and> same_params ix' ix \<and> ivf_trained ix' = ivf_trained ix \<and>
    b = (ivf_get ix y \<noteq> None) \<and> ivf_get ix' = (ivf_get ix)(y := None)"
proof (cases "ivf_trained ix")
  case True
  then have lists: "lists_ok ix" using ok by (simp add: ivf_ok_def)
  show ?thesis
  proof (cases "hm_get (id_to_list ix) y")
    case None
    then show ?thesis using True del ok
      by (auto simp: ivf_delete_def same_params_def ivf_get_trained lists_get_def)
  next
    case (Some l)
    then have r: "b" "ix' = ivf_unlink ix y l" using True del by (simp_all add: ivf_delete_def)
    obtain L M where eq: "ix' = ix\<lparr>ivf_lists := L, id_to_list := M\<rparr>"
      by (auto simp: r ivf_unlink_eq)
    have "ivf_get ix y \<noteq> None"
      using Some lists_get_dom [OF lists] True by (metis domIff ivf_get_trained option.distinct(1))
    moreover have un: "lists_ok ix'" "lists_get ix' = (lists_get ix)(y := None)"
      using ivf_unlink_ok [OF lists Some] by (simp_all add: r)
    moreover have "ivf_get ix' = (ivf_get ix)(y := None)"
    proof -
      have "ivf_get ix' = lists_get ix'" using True by (simp add: ivf_get_trained eq)
      then show ?thesis using un(2) True by (simp add: ivf_get_trained)
    qed
    moreover have "ivf_ok ix'" using ok True un(1) by (auto simp: ivf_ok_def eq)
    ultimately show ?thesis using r(1) by (simp add: same_params_def eq)
  qed
next
  case False
  then have slab: "slab_ok (ivf_dim ix) (staging_ids ix) (staging_data ix)" using ok by (simp add: ivf_ok_def)
  show ?thesis
  proof (cases "position y (staging_ids ix)")
    case None
    then show ?thesis using False del ok
      by (auto simp: ivf_delete_def same_params_def ivf_get_def)
  next
    case (Some pos)
    then show ?thesis using False del ok slab_ok_remove [OF slab Some] slab_get_remove [OF slab Some]
      by (auto simp: ivf_delete_def same_params_def ivf_get_staging ivf_ok_def slab_get_def)
  qed
qed

section \<open>Search\<close>

lemma foldl_if_topk:
  "foldl (\<lambda>h (y, c). if keep f y then topk_push k h (g c, y) else h) h xs =
     foldl (topk_push k) h (map (\<lambda>(y, c). (g c, y)) (filter (\<lambda>x. keep f (fst x)) xs))"
  by (induction xs arbitrary: h) auto

lemma filter_items:
  "map (\<lambda>(y, c). (g c, y)) (filter (\<lambda>x. keep f (fst x)) (map (\<lambda>y. (y, h y)) ids)) =
     map (\<lambda>y. (g (h y), y)) (filter (keep f) ids)"
  by (induction ids) auto

lemma list_step_scan:
  assumes ok: "ivf_ok ix" "ivf_trained ix" and c: "c < ivf_nlist ix"
  shows "list_step rt ix q k f h c =
    foldl (topk_push k) h (scan_items rt (ivf_metric ix) (ivf_get ix) (p_ids (ivf_lists ix ! c)) q f)"
proof -
  let ?p = "ivf_lists ix ! c" and ?d = "ivf_dim ix"
  have lists: "lists_ok ix" and d: "0 < ?d" using ok by (simp_all add: ivf_ok_def)
  then have p: "post_ok (ivf_quantizer ix) ?d ?p" using c by (simp add: lists_ok_def list_all_nth)
  have get: "ivf_get ix y = post_get (ivf_quantizer ix) ?d ?p y" if "y \<in> set (p_ids ?p)" for y
  proof -
    have "hm_get (id_to_list ix) y = Some c" using lists c that by (simp add: lists_ok_def)
    then show ?thesis using ok(2) by (simp add: ivf_get_trained lists_get_def)
  qed
  show ?thesis
  proof (cases "ivf_quantizer ix")
    case None
    have "map (\<lambda>y. (simd_distance rt (ivf_metric ix) q (the (slab_get ?d (p_ids ?p) (p_data ?p) y)), y))
        (filter (keep f) (p_ids ?p)) =
      scan_items rt (ivf_metric ix) (ivf_get ix) (p_ids ?p) q f"
      using get None by (simp add: scan_items_def post_get_def)
    then show ?thesis
      using p d None by (simp add: list_step_def ids_and_chunks_def post_ok_def slab_items foldl_if_topk filter_items)
  next
    case (Some qz)
    have "the (ivf_get ix y) = sq8_decode qz (the (slab_get ?d (p_ids ?p) (p_codes ?p) y))"
      if "y \<in> set (p_ids ?p)" for y
    proof -
      have "slab_get ?d (p_ids ?p) (p_codes ?p) y \<noteq> None" using that by (simp add: slab_get_None)
      then show ?thesis using get [OF that] Some by (auto simp: post_get_def)
    qed
    then have "map (\<lambda>y. (asym_distance rt qz (ivf_metric ix) q (the (slab_get ?d (p_ids ?p) (p_codes ?p) y)), y))
        (filter (keep f) (p_ids ?p)) =
      scan_items rt (ivf_metric ix) (ivf_get ix) (p_ids ?p) q f"
      by (simp add: scan_items_def asym_distance_def)
    then show ?thesis
      using p d Some by (simp add: list_step_def ids_and_codes_def post_ok_def slab_items foldl_if_topk filter_items)
  qed
qed

lemma par_fold_reduce_cong:
  "(\<And>h x. x \<in> set xs \<Longrightarrow> step h x = step' h x) \<Longrightarrow>
   par_fold_reduce t init step comb xs = par_fold_reduce t init step' comb xs"
proof (induction t arbitrary: xs)
  case Seq
  have "foldl step init xs = foldl step' init xs" using Seq by (intro foldl_cong) auto
  then show ?case by simp
next
  case (Split n l r)
  have "par_fold_reduce l init step comb (take n xs) = par_fold_reduce l init step' comb (take n xs)"
    by (rule Split.IH(1)) (rule Split.prems, erule in_set_takeD)
  moreover have "par_fold_reduce r init step comb (drop n xs) = par_fold_reduce r init step' comb (drop n xs)"
    by (rule Split.IH(2)) (rule Split.prems, erule in_set_dropD)
  ultimately show ?case by simp
qed

lemma mset_probe_all: "mset (map snd (sort_key hkey (map (\<lambda>c. (g c, c)) [0..<n]))) = mset [0..<n]"
proof -
  have "mset (map snd (sort_key hkey (map (\<lambda>c. (g c, c)) [0..<n]))) = mset (map snd (map (\<lambda>c. (g c, c)) [0..<n]))"
    by (simp only: mset_map mset_sort)
  then show ?thesis by (simp add: comp_def)
qed

lemma probe_lists_less: "c \<in> set (probe_lists rt ix q) \<Longrightarrow> c < ivf_nlist ix"
proof -
  assume "c \<in> set (probe_lists rt ix q)"
  then have "c \<in> snd ` set (sort_key hkey (map (\<lambda>c. (simd_distance rt (ivf_metric ix) q
      (row (ivf_dim ix) (ivf_centroids ix) c), c)) [0..<ivf_nlist ix]))"
    unfolding probe_lists_def using set_take_subset by fastforce
  then show ?thesis by auto
qed

lemma distinct_probe_lists: "distinct (probe_lists rt ix q)"
proof -
  let ?xs = "sort_key hkey (map (\<lambda>c.
     (simd_distance rt (ivf_metric ix) q (row (ivf_dim ix) (ivf_centroids ix) c), c)) [0..<ivf_nlist ix])"
  have "distinct (map snd ?xs)" by (simp only: mset_eq_imp_distinct_iff [OF mset_probe_all] distinct_upt)
  then show ?thesis by (simp add: probe_lists_def take_map [symmetric])
qed

lemma length_probe_lists: "length (probe_lists rt ix q) = min (ivf_nprobe ix) (ivf_nlist ix)"
  by (simp add: probe_lists_def)

definition probed_ids :: "rt \<Rightarrow> ivf \<Rightarrow> vec \<Rightarrow> vecid list" where
  "probed_ids rt ix q = concat (map (\<lambda>c. p_ids (ivf_lists ix ! c)) (probe_lists rt ix q))"

lemma search_trained_top_k:
  assumes "rt_ok rt" "ivf_ok ix" "ivf_trained ix"
  shows "is_top_k k (scan_items rt (ivf_metric ix) (ivf_get ix) (probed_ids rt ix q) q f)
    (search_trained rt ix q k f)"
proof -
  let ?g = "\<lambda>c. scan_items rt (ivf_metric ix) (ivf_get ix) (p_ids (ivf_lists ix ! c)) q f"
  have "concat (map ?g cs) = scan_items rt (ivf_metric ix) (ivf_get ix)
      (concat (map (\<lambda>c. p_ids (ivf_lists ix ! c)) cs)) q f" for cs
    by (induction cs) (simp_all add: scan_items_def)
  moreover have "par_fold_reduce t [] (list_step rt ix q k f) (topk_merge (id_heap_iter rt) k) (probe_lists rt ix q) =
      par_fold_reduce t [] (\<lambda>h x. foldl (topk_push k) h (?g x)) (topk_merge (id_heap_iter rt) k) (probe_lists rt ix q)" for t
    by (rule par_fold_reduce_cong) (simp add: list_step_scan assms probe_lists_less)
  ultimately show ?thesis
    using par_search_top_k [OF assms(1), of k ?g "probe_lists rt ix q"]
    by (simp add: search_trained_def Let_def probed_ids_def)
qed

lemma search_staging_top_k:
  assumes "rt_ok rt" "ivf_ok ix" "\<not> ivf_trained ix"
  shows "is_top_k k (scan_items rt (ivf_metric ix) (ivf_get ix) (staging_ids ix) q f) (search_staging rt ix q k f)"
proof -
  let ?d = "ivf_dim ix"
  have slab: "slab_ok ?d (staging_ids ix) (staging_data ix)" using assms by (simp add: ivf_ok_def)
  have "foldl (\<lambda>h i. let y = staging_ids ix ! i in if keep f y
      then topk_push k h (simd_distance rt (ivf_metric ix) q (row ?d (staging_data ix) i), y) else h)
      [] [0..<length (staging_ids ix)] =
    foldl (\<lambda>h (y, v). if keep f y then topk_push k h (simd_distance rt (ivf_metric ix) q v, y) else h) []
      (map (\<lambda>i. (staging_ids ix ! i, row ?d (staging_data ix) i)) [0..<length (staging_ids ix)])"
    by (simp add: foldl_map Let_def)
  also have "\<dots> = topk_fold k [] (scan_items rt (ivf_metric ix) (ivf_get ix) (staging_ids ix) q f)"
    using assms(3) unfolding slab_index_items [OF slab] foldl_if_topk filter_items
    by (simp add: topk_fold_def scan_items_def ivf_get_staging)
  finally show ?thesis by (simp add: search_staging_def seq_search_top_k assms(1))
qed

text \<open>The ids a search looks at: all that are staged, or those of the probed lists.\<close>

definition searched_ids :: "rt \<Rightarrow> ivf \<Rightarrow> vec \<Rightarrow> vecid list" where
  "searched_ids rt ix q = (if ivf_trained ix then probed_ids rt ix q else staging_ids ix)"

lemma set_probed_ids: "ivf_ok ix \<Longrightarrow> ivf_trained ix \<Longrightarrow> set (probed_ids rt ix q) \<subseteq> dom (ivf_get ix)"
proof
  fix y assume ok: "ivf_ok ix" "ivf_trained ix" and "y \<in> set (probed_ids rt ix q)"
  then obtain c where "c < ivf_nlist ix" "y \<in> set (p_ids (ivf_lists ix ! c))"
    by (auto simp: probed_ids_def dest: probe_lists_less)
  then have "hm_get (id_to_list ix) y = Some c" using ok by (simp add: ivf_ok_def lists_ok_def)
  then show "y \<in> dom (ivf_get ix)" using ok by (auto simp: ivf_get_dom)
qed

lemma distinct_concat_map:
  "distinct xs \<Longrightarrow> (\<And>x. x \<in> set xs \<Longrightarrow> distinct (g x)) \<Longrightarrow>
   (\<And>x y z. x \<in> set xs \<Longrightarrow> y \<in> set xs \<Longrightarrow> z \<in> set (g x) \<Longrightarrow> z \<in> set (g y) \<Longrightarrow> x = y) \<Longrightarrow>
   distinct (concat (map g xs))"
proof (induction xs)
  case (Cons x xs)
  have "distinct (concat (map g xs))" using Cons.prems by (intro Cons.IH) auto
  moreover have "set (g x) \<inter> set (concat (map g xs)) = {}"
  proof -
    have False if "y \<in> set xs" "z \<in> set (g x)" "z \<in> set (g y)" for y z
      using Cons.prems(3) [of x y z] Cons.prems(1) that by auto
    then show ?thesis by auto
  qed
  ultimately show ?case using Cons.prems(2) by simp
qed simp

lemma distinct_list_ids:
  "ivf_ok ix \<Longrightarrow> ivf_trained ix \<Longrightarrow> c < ivf_nlist ix \<Longrightarrow> distinct (p_ids (ivf_lists ix ! c))"
proof -
  assume "ivf_ok ix" "ivf_trained ix" "c < ivf_nlist ix"
  then have "post_ok (ivf_quantizer ix) (ivf_dim ix) (ivf_lists ix ! c)"
    by (simp add: ivf_ok_def lists_ok_def list_all_nth)
  then show ?thesis by (simp add: post_ok_def slab_ok_def split: option.splits)
qed

lemma same_list:
  assumes "ivf_ok ix" "ivf_trained ix" "c < ivf_nlist ix" "c' < ivf_nlist ix"
    and "y \<in> set (p_ids (ivf_lists ix ! c))" "y \<in> set (p_ids (ivf_lists ix ! c'))"
  shows "c = c'"
proof -
  have "hm_get (id_to_list ix) y = Some c" "hm_get (id_to_list ix) y = Some c'"
    using assms by (simp_all add: ivf_ok_def lists_ok_def)
  then show ?thesis by simp
qed

lemma distinct_probed_ids:
  assumes "ivf_ok ix" "ivf_trained ix"
  shows "distinct (probed_ids rt ix q)"
  unfolding probed_ids_def
  by (rule distinct_concat_map [OF distinct_probe_lists])
    (auto intro: distinct_list_ids [OF assms] same_list [OF assms] dest: probe_lists_less)

lemma ivf_search_top_k:
  assumes "rt_ok rt" "ivf_ok ix" "ivf_search rt ix q k f = Inr rs"
  shows "is_top_k k (scan_items rt (ivf_metric ix) (ivf_get ix) (searched_ids rt ix q) q f) rs"
proof (cases "k = 0")
  case True
  then show ?thesis using assms(3) is_top_k_Nil by (auto simp: ivf_search_def split: if_splits)
next
  case False
  then show ?thesis using assms search_trained_top_k search_staging_top_k
    by (auto simp: ivf_search_def searched_ids_def split: if_splits)
qed

lemma searched_ids_sub: "ivf_ok ix \<Longrightarrow> set (searched_ids rt ix q) \<subseteq> dom (ivf_get ix)"
  using set_probed_ids [of ix rt q] ivf_get_dom [of ix] by (simp add: searched_ids_def)

lemma distinct_searched_ids: "ivf_ok ix \<Longrightarrow> distinct (searched_ids rt ix q)"
  by (cases "ivf_trained ix") (simp_all add: searched_ids_def distinct_probed_ids ivf_ok_def slab_ok_def)

lemma ivf_list_ids_ok:
  assumes "rt_ok rt" "ivf_ok ix"
  shows "distinct (ivf_list_ids rt ix) \<and> set (ivf_list_ids rt ix) = dom (ivf_get ix)"
proof (cases "ivf_trained ix")
  case True
  then have "distinct (map fst (id_to_list ix))" using assms(2) by (simp add: ivf_ok_def lists_ok_def hm_ok_def)
  then show ?thesis using True assms(1) ivf_get_dom [OF assms(2)]
    by (simp add: ivf_list_ids_def distinct_hash_iter set_hash_iter dom_map_of_conv_image_fst)
next
  case False
  then have "distinct (staging_ids ix)" using assms(2) by (simp add: ivf_ok_def slab_ok_def)
  then show ?thesis using False ivf_get_dom [OF assms(2)] by (simp add: ivf_list_ids_def)
qed

text \<open>With \<open>nprobe = nlist\<close> every list is probed.\<close>

lemma mset_searched_ids:
  assumes "rt_ok rt" "ivf_ok ix" "ivf_nprobe ix = ivf_nlist ix"
  shows "mset (searched_ids rt ix q) = mset (ivf_list_ids rt ix)"
proof (cases "ivf_trained ix")
  case True
  have "set (probe_lists rt ix q) = {0..<ivf_nlist ix}"
  proof (rule card_subset_eq)
    show "card (set (probe_lists rt ix q)) = card {0..<ivf_nlist ix}"
      using distinct_card [OF distinct_probe_lists] assms(3) by (simp add: length_probe_lists)
  qed (auto dest: probe_lists_less)
  then have "y \<in> set (searched_ids rt ix q) \<longleftrightarrow> (\<exists>c < ivf_nlist ix. y \<in> set (p_ids (ivf_lists ix ! c)))" for y
    using True by (auto simp: searched_ids_def probed_ids_def)
  moreover have "y \<in> dom (map_of (id_to_list ix)) \<longleftrightarrow> (\<exists>c < ivf_nlist ix. y \<in> set (p_ids (ivf_lists ix ! c)))" for y
    using True assms(2) by (simp add: ivf_ok_def lists_ok_def domIff) 
  ultimately have "set (searched_ids rt ix q) = dom (map_of (id_to_list ix))" by blast
  then have "set (searched_ids rt ix q) = set (ivf_list_ids rt ix)"
    using ivf_list_ids_ok [OF assms(1,2)] True assms(2) by (simp add: ivf_get_dom)
  then show ?thesis
    using set_eq_iff_mset_eq_distinct [OF distinct_searched_ids [OF assms(2)], of "ivf_list_ids rt ix" rt q]
      ivf_list_ids_ok [OF assms(1,2)] by blast
qed (simp add: searched_ids_def ivf_list_ids_def)

lemma ivf_search_exact:
  assumes "rt_ok rt" "ivf_ok ix" "ivf_nprobe ix = ivf_nlist ix" "ivf_search rt ix q k f = Inr rs"
  shows "is_top_k k (scan_items rt (ivf_metric ix) (ivf_get ix) (ivf_list_ids rt ix) q f) rs"
proof -
  have "mset (scan_items rt (ivf_metric ix) (ivf_get ix) (searched_ids rt ix q) q f) =
      mset (scan_items rt (ivf_metric ix) (ivf_get ix) (ivf_list_ids rt ix) q f)"
    using mset_searched_ids [OF assms(1-3), of q] by (simp add: scan_items_def)
  then show ?thesis using ivf_search_top_k [OF assms(1,2,4)] is_top_k_mset by blast
qed

section \<open>Compaction\<close>

lemma ivf_new_ok:
  "ivf_new d m nlist nprobe = Inr ix \<Longrightarrow> ivf_ok ix \<and> \<not> ivf_trained ix \<and> ivf_get ix = Map.empty \<and>
     ivf_dim ix = d \<and> ivf_metric ix = m \<and> ivf_nlist ix = nlist \<and> ivf_nprobe ix = nprobe \<and>
     \<not> ivf_quantize ix"
  by (auto simp: ivf_new_def ivf_ok_def slab_ok_Nil ivf_get_staging slab_get_Nil split: if_splits)

lemma ivf_new_total:
  "0 < d \<Longrightarrow> 0 < nlist \<Longrightarrow> 0 < nprobe \<Longrightarrow> nprobe \<le> nlist \<Longrightarrow> \<exists>ix. ivf_new d m nlist nprobe = Inr ix"
  by (simp add: ivf_new_def)

lemma ivf_new_sq8_ok:
  "ivf_new_sq8 d m nlist nprobe = Inr ix \<Longrightarrow> ivf_ok ix \<and> \<not> ivf_trained ix \<and> ivf_get ix = Map.empty \<and>
     ivf_dim ix = d \<and> ivf_metric ix = m \<and> ivf_nlist ix = nlist \<and> ivf_nprobe ix = nprobe \<and>
     ivf_quantize ix"
  by (auto simp: ivf_new_sq8_def ivf_new_def ivf_ok_def slab_ok_Nil ivf_get_staging slab_get_Nil
      split: if_splits)

lemma ivf_get_length: "ivf_ok ix \<Longrightarrow> ivf_get ix y = Some v \<Longrightarrow> length v = ivf_dim ix"
proof (cases "ivf_trained ix")
  case True
  assume ok: "ivf_ok ix" and v: "ivf_get ix y = Some v"
  then obtain l where l: "hm_get (id_to_list ix) y = Some l"
      "post_get (ivf_quantizer ix) (ivf_dim ix) (ivf_lists ix ! l) y = Some v"
    using True by (auto simp: ivf_get_trained lists_get_def split: option.splits)
  then have "l < ivf_nlist ix" using ok True by (simp add: ivf_ok_def lists_ok_def)
  then have "post_ok (ivf_quantizer ix) (ivf_dim ix) (ivf_lists ix ! l)"
    using ok True by (simp add: ivf_ok_def lists_ok_def list_all_nth)
  then show ?thesis using l(2)
    by (auto simp: post_ok_def post_get_def dest: slab_get_length split: option.splits)
qed (auto simp: ivf_get_staging ivf_ok_def intro: slab_get_length)

text \<open>The loop of \<open>compact\<close> over any distinct ids that are present.\<close>

lemma ivf_compact_loop:
  assumes "ivf_ok ix" "ivf_ok s0" "same_params s0 ix" "ivf_get s0 = Map.empty" "set ys \<subseteq> dom (ivf_get ix)"
  shows "\<exists>s. foldl (\<lambda>acc y. case acc of Inl e \<Rightarrow> Inl e
      | Inr s \<Rightarrow> (case ivf_get ix y of None \<Rightarrow> Inr s
          | Some v \<Rightarrow> (case ivf_insert rt s y v of Inl _ \<Rightarrow> Inl Panicked | Inr s' \<Rightarrow> Inr s')))
      (Inr s0) ys = Inr s \<and> ivf_ok s \<and> same_params s ix \<and> dom (ivf_get s) = set ys \<and>
      (\<not> ivf_quantize ix \<longrightarrow> ivf_get s = ivf_get ix |` set ys)"
  using assms(5)
proof (induction ys rule: rev_induct)
  case (snoc y ys)
  then obtain s where s: "foldl (\<lambda>acc y. case acc of Inl e \<Rightarrow> Inl e
      | Inr s \<Rightarrow> (case ivf_get ix y of None \<Rightarrow> Inr s
          | Some v \<Rightarrow> (case ivf_insert rt s y v of Inl _ \<Rightarrow> Inl Panicked | Inr s' \<Rightarrow> Inr s')))
      (Inr s0) ys = Inr s" "ivf_ok s" "same_params s ix" "dom (ivf_get s) = set ys"
      "\<not> ivf_quantize ix \<longrightarrow> ivf_get s = ivf_get ix |` set ys" by auto
  obtain v where v: "ivf_get ix y = Some v" using snoc.prems by auto
  then have "length v = ivf_dim s" using ivf_get_length [OF assms(1)] s(3) by (simp add: same_params_def)
  then obtain s' where s': "ivf_insert rt s y v = Inr s'" using ivf_insert_total by blast
  have "ivf_get s' = ivf_get ix |` set (ys @ [y])" if "\<not> ivf_quantize ix"
  proof -
    have "ivf_get s' = (ivf_get s)(y \<mapsto> v)"
      using ivf_insert_ok [OF s(2) s'] s(3) that by (simp add: same_params_def)
    then show ?thesis using s(5) that v by (auto simp: restrict_map_def fun_eq_iff)
  qed
  moreover have "ivf_ok s'" "same_params s' ix" "dom (ivf_get s') = set (ys @ [y])"
    using ivf_insert_ok [OF s(2) s'] s(3,4) by (auto simp: same_params_def)
  ultimately show ?case using s(1) s' v by simp
qed (use assms in \<open>simp add: restrict_map_def\<close>)

lemma ivf_compact_ok:
  assumes "rt_ok rt" "ivf_ok ix" "ivf_trained ix"
  shows "\<exists>s. ivf_compact rt ix = Some (Inr s) \<and> ivf_ok s \<and> same_params s ix \<and>
    dom (ivf_get s) = dom (ivf_get ix) \<and> (\<not> ivf_quantize ix \<longrightarrow> ivf_get s = ivf_get ix)"
proof -
  have "0 < ivf_dim ix" "0 < ivf_nlist ix" "0 < ivf_nprobe ix" "ivf_nprobe ix \<le> ivf_nlist ix"
    using assms(2) by (simp_all add: ivf_ok_def)
  then obtain s0 where s0: "ivf_new (ivf_dim ix) (ivf_metric ix) (ivf_nlist ix) (ivf_nprobe ix) = Inr s0"
    using ivf_new_total by blast
  let ?s0 = "if ivf_quantize ix then s0\<lparr>ivf_quantize := True\<rparr> else s0"
  have sq8: "ivf_new_sq8 (ivf_dim ix) (ivf_metric ix) (ivf_nlist ix) (ivf_nprobe ix) = Inr (s0\<lparr>ivf_quantize := True\<rparr>)"
    using s0 by (simp add: ivf_new_sq8_def)
  have "ivf_ok ?s0 \<and> same_params ?s0 ix \<and> ivf_get ?s0 = Map.empty"
    using ivf_new_ok [OF s0] ivf_new_sq8_ok [OF sq8] by (auto simp: same_params_def)
  moreover have ids: "set (ivf_list_ids rt ix) = dom (ivf_get ix)" using ivf_list_ids_ok [OF assms(1,2)] by simp
  ultimately obtain s where s: "foldl (\<lambda>acc y. case acc of Inl e \<Rightarrow> Inl e
      | Inr s \<Rightarrow> (case ivf_get ix y of None \<Rightarrow> Inr s
          | Some v \<Rightarrow> (case ivf_insert rt s y v of Inl _ \<Rightarrow> Inl Panicked | Inr s' \<Rightarrow> Inr s')))
      (Inr ?s0) (ivf_list_ids rt ix) = Inr s" "ivf_ok s" "same_params s ix"
      "dom (ivf_get s) = dom (ivf_get ix)"
      "\<not> ivf_quantize ix \<longrightarrow> ivf_get s = ivf_get ix |` dom (ivf_get ix)"
    using ivf_compact_loop [OF assms(2), of ?s0 "ivf_list_ids rt ix" rt] by auto
  have "ivf_compact rt ix = Some (Inr s)"
    using s(1) assms(3) s0 sq8 by (cases "ivf_quantize ix") (simp_all add: ivf_compact_def)
  moreover have "ivf_get ix |` dom (ivf_get ix) = ivf_get ix"
    by (auto simp: restrict_map_def fun_eq_iff domIff)
  ultimately show ?thesis using s by auto
qed

text \<open>
  What inserting the ids \<open>ys\<close> with the vectors \<open>w\<close> into an empty index leaves: below \<open>nlist\<close> ids the staging area
  in that order; from then on an index trained on the first \<open>nlist\<close> vectors, the rest placed by its centroids.
\<close>

definition built_from :: "rt \<Rightarrow> vecid list \<Rightarrow> (vecid \<Rightarrow> vec) \<Rightarrow> ivf \<Rightarrow> bool" where
  "built_from rt ys w s \<longleftrightarrow>
     (if length ys < ivf_nlist s
      then \<not> ivf_trained s \<and> staging_ids s = ys \<and> staging_data s = concat (map w ys)
      else let data = concat (map w (take (ivf_nlist s) ys))
        in ivf_trained s \<and> ivf_centroids s = kmeans rt data (ivf_nlist s) (ivf_dim s) (ivf_nlist s) (ivf_metric s) \<and>
          ivf_quantizer s = (if ivf_quantize s then Some (sq8_fit data (ivf_nlist s) (ivf_dim s)) else None)) \<and>
     ivf_get s = (\<lambda>y. if y \<in> set ys then Some (stored (ivf_quantizer s) (w y)) else None)"

lemma ivf_place_model [simp]:
  "ivf_centroids (ivf_place rt s y v) = ivf_centroids s" "ivf_quantizer (ivf_place rt s y v) = ivf_quantizer s"
  by (simp_all add: ivf_place_eq)

lemma ivf_place_fold_model:
  "ivf_centroids (foldl (\<lambda>s i. ivf_place rt s (f i) (g i)) s js) = ivf_centroids s \<and>
   ivf_quantizer (foldl (\<lambda>s i. ivf_place rt s (f i) (g i)) s js) = ivf_quantizer s"
  by (induction js arbitrary: s) simp_all

lemma ivf_train_model:
  "ivf_centroids (ivf_train rt ix) =
     kmeans rt (staging_data ix) (length (staging_ids ix)) (ivf_dim ix) (ivf_nlist ix) (ivf_metric ix)"
  "ivf_quantizer (ivf_train rt ix) =
     (if ivf_quantize ix then Some (sq8_fit (staging_data ix) (length (staging_ids ix)) (ivf_dim ix)) else ivf_quantizer ix)"
  by (simp_all add: ivf_train_def Let_def ivf_place_fold_model)

lemma ivf_insert_trained_model:
  "ivf_trained s \<Longrightarrow> ivf_insert rt s y v = Inr s' \<Longrightarrow> ivf_centroids s' = ivf_centroids s"
  by (auto simp: ivf_insert_def ivf_unlink_def Let_def split: if_splits option.splits)

lemma built_from_step:
  assumes ok: "ivf_ok s" and b: "built_from rt ys w s" and y: "y \<notin> set ys" and ins: "ivf_insert rt s y (w y) = Inr s'"
  shows "built_from rt (ys @ [y]) w s'"
proof (cases "ivf_trained s")
  case True
  note t = ivf_insert_trained [OF ok True ins] ivf_insert_trained_model [OF True ins]
  then have e: "ivf_nlist s' = ivf_nlist s" "ivf_dim s' = ivf_dim s" "ivf_metric s' = ivf_metric s"
      "ivf_quantize s' = ivf_quantize s" by (auto simp: same_params_def)
  have "\<not> length ys < ivf_nlist s" using b True by (auto simp: built_from_def)
  then show ?thesis using b t e by (auto simp: built_from_def Let_def fun_eq_iff)
next
  case False
  have st: "staging_ids s = ys" "staging_data s = concat (map w ys)" "length ys < ivf_nlist s"
    using b False by (auto simp: built_from_def Let_def split: if_splits)
  note g = ivf_insert_staging [OF ok False ins]
  have qz: "ivf_quantizer s = None" using ok False by (simp add: ivf_ok_def)
  have get: "ivf_get s' = (\<lambda>z. if z \<in> set (ys @ [y]) then Some (stored (ivf_quantizer s') (w z)) else None)"
    using b g qz by (auto simp: built_from_def fun_eq_iff)
  have e: "ivf_nlist s' = ivf_nlist s" "ivf_dim s' = ivf_dim s" "ivf_metric s' = ivf_metric s"
      "ivf_quantize s' = ivf_quantize s" using g by (auto simp: same_params_def)
  let ?s1 = "s\<lparr>staging_ids := ys @ [y], staging_data := concat (map w (ys @ [y]))\<rparr>"
  have s': "s' = (if ivf_nlist s \<le> Suc (length ys) then ivf_train rt ?s1 else ?s1)"
    using ins st False y by (auto simp: ivf_insert_def Let_def split: if_splits)
  show ?thesis
  proof (cases "ivf_nlist s \<le> Suc (length ys)")
    case True
    then have n: "ivf_nlist s = Suc (length ys)" using st(3) by simp
    have "ivf_trained s'" using s' True by (simp add: ivf_train_def Let_def)
    moreover have "ivf_centroids s' = kmeans rt (concat (map w (ys @ [y]))) (Suc (length ys)) (ivf_dim s) (Suc (length ys)) (ivf_metric s)"
      "ivf_quantizer s' = (if ivf_quantize s then Some (sq8_fit (concat (map w (ys @ [y]))) (Suc (length ys)) (ivf_dim s)) else None)"
      using s' True qz n by (simp_all add: ivf_train_model)
    ultimately show ?thesis using get n unfolding built_from_def Let_def e by simp
  next
    case F: False
    then have "\<not> ivf_trained s'" "staging_ids s' = ys @ [y]" "staging_data s' = concat (map w (ys @ [y]))"
      using s' False by simp_all
    then show ?thesis using get e F by (simp add: built_from_def)
  qed
qed

lemma ivf_compact_builds:
  assumes "rt_ok rt" "ivf_ok ix" "ivf_compact rt ix = Some (Inr s)"
  shows "built_from rt (ivf_list_ids rt ix) (\<lambda>y. the (ivf_get ix y)) s"
proof -
  let ?w = "\<lambda>y. the (ivf_get ix y)"
  let ?step = "\<lambda>acc y. case acc of Inl e \<Rightarrow> Inl e
      | Inr s \<Rightarrow> (case ivf_get ix y of None \<Rightarrow> Inr s
          | Some v \<Rightarrow> (case ivf_insert rt s y v of Inl _ \<Rightarrow> Inl Panicked | Inr s' \<Rightarrow> Inr s'))"
  obtain s0 where s0: "(if ivf_quantize ix
      then ivf_new_sq8 (ivf_dim ix) (ivf_metric ix) (ivf_nlist ix) (ivf_nprobe ix)
      else ivf_new (ivf_dim ix) (ivf_metric ix) (ivf_nlist ix) (ivf_nprobe ix)) = Inr s0"
    and fold: "foldl ?step (Inr s0) (ivf_list_ids rt ix) = Inr s"
    using assms(3) by (auto simp: ivf_compact_def split: if_splits sum.splits)
  have new: "ivf_ok s0 \<and> \<not> ivf_trained s0 \<and> ivf_get s0 = Map.empty \<and> same_params s0 ix"
    using s0 ivf_new_ok ivf_new_sq8_ok by (auto simp: same_params_def split: if_splits)
  have empty: "staging_ids s0 = [] \<and> staging_data s0 = []"
    using s0 by (auto simp: ivf_new_sq8_def ivf_new_def split: if_splits)
  have start: "built_from rt [] ?w s0" using new empty by (auto simp: built_from_def ivf_ok_def)
  have "distinct ys \<Longrightarrow> set ys \<subseteq> dom (ivf_get ix) \<Longrightarrow>
      \<exists>s. foldl ?step (Inr s0) ys = Inr s \<and> ivf_ok s \<and> same_params s ix \<and> built_from rt ys ?w s" for ys
  proof (induction ys rule: rev_induct)
    case (snoc y ys)
    then obtain t where t: "foldl ?step (Inr s0) ys = Inr t" "ivf_ok t" "same_params t ix" "built_from rt ys ?w t"
      by auto
    obtain v where v: "ivf_get ix y = Some v" using snoc.prems by auto
    then have "length v = ivf_dim t" using ivf_get_length [OF assms(2)] t(3) by (simp add: same_params_def)
    then obtain t' where t': "ivf_insert rt t y v = Inr t'" using ivf_insert_total by blast
    then have "built_from rt (ys @ [y]) ?w t'"
      using built_from_step [OF t(2,4), of y t'] v snoc.prems by simp
    moreover have "ivf_ok t'" "same_params t' ix"
      using ivf_insert_ok [OF t(2) t'] t(3) by (auto simp: same_params_def)
    ultimately show ?case using t(1) t' v by simp
  qed (use new start in simp)
  from this [of "ivf_list_ids rt ix"] show ?thesis
    using ivf_list_ids_ok [OF assms(1,2)] fold by auto
qed

section \<open>The contract\<close>

text \<open>The invariant with a condition on the parameters, which no operation changes.\<close>

definition ivf_inv :: "(nat \<Rightarrow> nat \<Rightarrow> bool \<Rightarrow> bool) \<Rightarrow> rt \<Rightarrow> ivf \<Rightarrow> bool" where
  "ivf_inv P rt ix \<longleftrightarrow> rt_ok rt \<and> ivf_ok ix \<and> P (ivf_nlist ix) (ivf_nprobe ix) (ivf_quantize ix)"

abbreviation any_params :: "nat \<Rightarrow> nat \<Rightarrow> bool \<Rightarrow> bool" where
  "any_params nlist nprobe quantize \<equiv> True"

abbreviation raw_params :: "nat \<Rightarrow> nat \<Rightarrow> bool \<Rightarrow> bool" where
  "raw_params nlist nprobe quantize \<equiv> \<not> quantize"

abbreviation full_probe :: "nat \<Rightarrow> nat \<Rightarrow> bool \<Rightarrow> bool" where
  "full_probe nlist nprobe quantize \<equiv> nprobe = nlist"

lemma ivf_batch:
  assumes "ivf_ok ix" "\<forall>(y, v) \<in> set vs. length v = ivf_dim ix"
  shows "\<exists>ix'. default_insert_batch (ivf_insert rt) ix vs = (Inr (), ix') \<and>
    (ivf_ok ix' \<and> same_params ix' ix) \<and> dom (ivf_get ix') = dom (ivf_get ix) \<union> fst ` set vs"
  unfolding foldl_insert_key [symmetric]
proof (rule default_insert_batch_fold [where d = "ivf_dim ix" and view = "\<lambda>s. dom (ivf_get s)" and
      I = "\<lambda>s. ivf_ok s \<and> same_params s ix"])
  fix s y and v :: vec
  assume s: "ivf_ok s \<and> same_params s ix" and v: "length v = ivf_dim ix"
  then obtain s' where "ivf_insert rt s y v = Inr s'"
    using ivf_insert_total [of v s rt y] by (auto simp: same_params_def)
  then show "\<exists>s'. ivf_insert rt s y v = Inr s' \<and> (ivf_ok s' \<and> same_params s' ix) \<and>
      dom (ivf_get s') = (case (y, v) of (y, v) \<Rightarrow> {y} \<union> dom (ivf_get s))"
    using s ivf_insert_ok [of s rt y v s'] by (auto simp: same_params_def)
qed (use assms in \<open>auto simp: same_params_def\<close>)

lemma ivf_batch_raw:
  assumes "ivf_ok ix" "\<not> ivf_quantize ix" "\<forall>(y, v) \<in> set vs. length v = ivf_dim ix"
  shows "\<exists>ix'. default_insert_batch (ivf_insert rt) ix vs = (Inr (), ix') \<and>
    (ivf_ok ix' \<and> same_params ix' ix) \<and> ivf_get ix' = ivf_get ix ++ map_of (rev vs)"
  unfolding foldl_map_upd [symmetric]
proof (rule default_insert_batch_fold [where d = "ivf_dim ix" and view = ivf_get and
      I = "\<lambda>s. ivf_ok s \<and> same_params s ix"])
  fix s y and v :: vec
  assume s: "ivf_ok s \<and> same_params s ix" and v: "length v = ivf_dim ix"
  then obtain s' where "ivf_insert rt s y v = Inr s'"
    using ivf_insert_total [of v s rt y] by (auto simp: same_params_def)
  then show "\<exists>s'. ivf_insert rt s y v = Inr s' \<and> (ivf_ok s' \<and> same_params s' ix) \<and>
      ivf_get s' = (case (y, v) of (y, v) \<Rightarrow> (ivf_get s)(y \<mapsto> v))"
    using s ivf_insert_ok [of s rt y v s'] assms(2) by (auto simp: same_params_def)
qed (use assms in \<open>auto simp: same_params_def\<close>)

lemma ivf_batch_ok:
  "ivf_inv P rt ix \<Longrightarrow> \<forall>(y, v) \<in> set vs. length v = ivf_dim ix \<Longrightarrow>
    \<exists>ix'. default_insert_batch (ivf_insert rt) ix vs = (Inr (), ix') \<and> ivf_inv P rt ix' \<and>
      ivf_dim ix' = ivf_dim ix \<and> dom (ivf_get ix') = dom (ivf_get ix) \<union> fst ` set vs"
  using ivf_batch [of ix vs rt] by (auto simp: ivf_inv_def same_params_def)

lemma ivf_len_ok: "ivf_ok ix \<Longrightarrow> ivf_len ix = card (dom (ivf_get ix))"
  using ivf_get_dom [of ix]
  by (auto simp: ivf_len_def ivf_ok_def lists_ok_def slab_ok_def hm_length distinct_card)

lemma ivf_search_total: "length q = ivf_dim ix \<Longrightarrow> \<exists>rs. ivf_search rt ix q k f = Inr rs"
  by (simp add: ivf_search_def)

lemma ivf_batch_err:
  "ivf_inv P rt ix \<Longrightarrow> \<not> (\<forall>(y, v) \<in> set vs. length v = ivf_dim ix) \<Longrightarrow>
    \<exists>n ix'. default_insert_batch (ivf_insert rt) ix vs = (Inl (DimMismatch (ivf_dim ix) n), ix') \<and> ivf_inv P rt ix' \<and>
      ivf_dim ix' = ivf_dim ix \<and> dom (ivf_get ix) \<subseteq> dom (ivf_get ix')"
proof (rule default_insert_batch_err [of "\<lambda>s. ivf_inv P rt s \<and> ivf_dim s = ivf_dim ix \<and> dom (ivf_get ix) \<subseteq> dom (ivf_get s)"])
  fix s y and v :: vec
  assume s: "ivf_inv P rt s \<and> ivf_dim s = ivf_dim ix \<and> dom (ivf_get ix) \<subseteq> dom (ivf_get s)"
    and len: "length v = ivf_dim ix"
  then obtain s' where "ivf_insert rt s y v = Inr s'" using ivf_insert_total [of v s rt y] by auto
  moreover from this have "dom (ivf_get s') = {y} \<union> dom (ivf_get s)" "ivf_inv P rt s'" "ivf_dim s' = ivf_dim s"
    using s ivf_insert_ok [of s rt y v s'] by (simp_all add: ivf_inv_def same_params_def)
  ultimately show "\<exists>s'. ivf_insert rt s y v = Inr s' \<and>
      ivf_inv P rt s' \<and> ivf_dim s' = ivf_dim ix \<and> dom (ivf_get ix) \<subseteq> dom (ivf_get s')"
    using s by auto
qed (auto simp: ivf_insert_def)

lemma ivf_search_ok:
  fixes f :: "(vecid \<Rightarrow> bool) option"
  assumes ok: "ivf_inv P rt ix" and q: "length q = ivf_dim ix"
  shows "\<exists>rs :: 'p scored_result list. ivf_search rt ix q k f = Inr rs \<and> length rs \<le> k \<and>
    sorted (score_keys rs) \<and>
    (\<forall>r \<in> set rs. ivf_get ix (r_id r) \<noteq> None \<and> keep f (r_id r) \<and> r_payload r = None)"
proof -
  obtain rs :: "'p scored_result list" where rs: "ivf_search rt ix q k f = Inr rs"
    using ivf_search_total q by blast
  have top: "is_top_k k (scan_items rt (ivf_metric ix) (ivf_get ix) (searched_ids rt ix q) q f) rs"
    using ok ivf_search_top_k [OF _ _ rs] by (simp add: ivf_inv_def)
  have "ivf_get ix (r_id r) \<noteq> None \<and> keep f (r_id r) \<and> r_payload r = None" if "r \<in> set rs" for r
    using scan_items_sound [OF top that] searched_ids_sub [of ix rt q] ok by (auto simp: ivf_inv_def)
  then show ?thesis using rs is_top_k_length [OF top] is_top_k_sorted [OF top] by auto
qed

interpretation ivf: vector_index "ivf_inv P rt" ivf_dim "\<lambda>l. ivf_insert rt"
  "\<lambda>ls. default_insert_batch (ivf_insert rt)" ivf_delete "ivf_search rt" ivf_get ivf_len "ivf_list_ids rt"
  for P rt
proof (unfold_locales, goal_cases)
  case (2 v s l y)
  then show ?case by (rule ivf_insert_total)
next
  case (3 s l y v s')
  then show ?case using ivf_insert_ok [of s rt y v s'] by (simp add: ivf_inv_def same_params_def)
next
  case (4 s vs ls)
  then show ?case by (rule ivf_batch_ok)
next
  case (5 s vs ls)
  then show ?case by (rule ivf_batch_err)
next
  case (6 s y b s')
  then show ?case using ivf_delete_ok [of s y b s'] by (simp add: ivf_inv_def same_params_def)
next
  case (7 s y v)
  then show ?case by (simp add: ivf_inv_def ivf_get_length)
next
  case (8 s)
  then show ?case by (simp add: ivf_inv_def ivf_len_ok)
next
  case (9 s)
  then show ?case by (simp add: ivf_inv_def ivf_list_ids_ok)
next
  case (11 s q k f)
  then show ?case by (rule ivf_search_ok)
qed (simp_all add: ivf_insert_def ivf_search_def)

interpretation ivf_raw: exact_store "ivf_inv raw_params rt" ivf_dim "\<lambda>l. ivf_insert rt"
  "\<lambda>ls. default_insert_batch (ivf_insert rt)" ivf_delete "ivf_search rt" ivf_get ivf_len "ivf_list_ids rt"
  for rt
proof (unfold_locales, goal_cases)
  case (1 s l y v s')
  then show ?case using ivf_insert_ok [of s rt y v s'] by (simp add: ivf_inv_def)
next
  case (2 s vs ls s')
  then show ?case using ivf_batch_raw [of s vs rt] by (auto simp: ivf_inv_def)
qed

interpretation ivf_full: exact_search "ivf_inv full_probe rt" ivf_dim "\<lambda>l. ivf_insert rt"
  "\<lambda>ls. default_insert_batch (ivf_insert rt)" ivf_delete "ivf_search rt" ivf_get ivf_len "ivf_list_ids rt"
  rt ivf_metric
  for rt
  by unfold_locales (simp add: ivf_inv_def ivf_search_exact)

section \<open>Properties\<close>

definition ivf_example :: ivf where
  "ivf_example = \<lparr>ivf_dim = 1, ivf_metric = L2, ivf_nlist = 2, ivf_nprobe = 2, staging_ids = [5],
     staging_data = [0x3F800000], ivf_trained = False, ivf_centroids = [], ivf_lists = [],
     id_to_list = [], ivf_quantize = True, ivf_quantizer = None\<rparr>"

lemma ivf_example_ok: "ivf_ok ivf_example"
  by (simp add: ivf_ok_def ivf_example_def slab_ok_def)

text \<open>C8. Insertion into an IVF index keeps the invariant (posting lists, slabs and \<open>id_to_list\<close> agree)
  and binds the id, on every path: overwriting in staging, growing staging, reaching \<open>nlist\<close> and
  training, and moving an id between posting lists. Without quantization every other vector is kept
  exactly; with it, a vector that reaches the posting lists is what encoding and decoding gives, and the
  insertion that triggers training converts all of them. A wrong length is refused.\<close>

theorem ivf_insert_contents:
  assumes "ivf_ok ix"
  shows "(length v \<noteq> ivf_dim ix \<longrightarrow> ivf_insert rt ix y v = Inl (DimMismatch (ivf_dim ix) (length v))) \<and>
    (length v = ivf_dim ix \<longrightarrow> (\<exists>ix'. ivf_insert rt ix y v = Inr ix' \<and> ivf_ok ix' \<and>
       (if ivf_trained ix then ivf_get ix' = (ivf_get ix)(y \<mapsto> stored (ivf_quantizer ix) v)
        else ivf_get ix' = (\<lambda>z. map_option (stored (ivf_quantizer ix')) (((ivf_get ix)(y \<mapsto> v)) z))) \<and>
       (\<not> ivf_quantize ix \<longrightarrow> ivf_get ix' = (ivf_get ix)(y \<mapsto> v))))"
proof -
  have "\<exists>ix'. ivf_insert rt ix y v = Inr ix' \<and> ivf_ok ix' \<and>
      (if ivf_trained ix then ivf_get ix' = (ivf_get ix)(y \<mapsto> stored (ivf_quantizer ix) v)
       else ivf_get ix' = (\<lambda>z. map_option (stored (ivf_quantizer ix')) (((ivf_get ix)(y \<mapsto> v)) z))) \<and>
      (\<not> ivf_quantize ix \<longrightarrow> ivf_get ix' = (ivf_get ix)(y \<mapsto> v))" if l: "length v = ivf_dim ix"
  proof -
    obtain ix' where ins: "ivf_insert rt ix y v = Inr ix'" using ivf_insert_total [OF l] by blast
    show ?thesis
      using ins ivf_insert_ok [OF assms ins] ivf_insert_trained [OF assms _ ins] ivf_insert_staging [OF assms _ ins]
      by (cases "ivf_trained ix") auto
  qed
  then show ?thesis by (simp add: ivf_insert_def)
qed

theorem ivf_insert_contents_witness:
  "\<exists>ix'. ivf_insert plain_rt ivf_example 6 [0] = Inr ix' \<and> ivf_ok ix' \<and> ivf_get ix' 6 \<noteq> None"
proof -
  have "length [0 :: f32] = ivf_dim ivf_example" "\<not> ivf_trained ivf_example"
    by (simp_all add: ivf_example_def)
  then show ?thesis using ivf_insert_contents [OF ivf_example_ok, of "[0]" plain_rt 6] by auto
qed

text \<open>Deletion from an IVF index, trained or not, reports whether the id was there, removes exactly
  it, and keeps the invariant, the parameters and the training state.\<close>

theorem ivf_delete_contents:
  assumes "ivf_ok ix"
  shows "ivf_ok (snd (ivf_delete ix y)) \<and> same_params (snd (ivf_delete ix y)) ix \<and>
    fst (ivf_delete ix y) = (ivf_get ix y \<noteq> None) \<and>
    ivf_get (snd (ivf_delete ix y)) = (ivf_get ix)(y := None) \<and>
    ivf_len (snd (ivf_delete ix y)) = ivf_len ix - (if ivf_get ix y = None then 0 else 1)"
proof -
  have del: "ivf_delete ix y = (fst (ivf_delete ix y), snd (ivf_delete ix y))" by simp
  note d = ivf_delete_ok [OF assms del]
  moreover have "card (dom ((ivf_get ix)(y := None))) = card (dom (ivf_get ix)) - (if ivf_get ix y = None then 0 else 1)"
    by (auto simp: domIff card_Diff_singleton_if)
  ultimately show ?thesis by (simp add: ivf_len_ok assms)
qed

theorem ivf_delete_contents_witness:
  "fst (ivf_delete ivf_example 5) \<and> ivf_get (snd (ivf_delete ivf_example 5)) 5 = None \<and>
   ivf_get ivf_example 5 = Some [0x3F800000]"
proof -
  have "ivf_get ivf_example 5 = Some [0x3F800000]"
    by (simp add: ivf_get_def ivf_example_def row_def)
  then show ?thesis using ivf_delete_contents [OF ivf_example_ok, of 5] by simp
qed

text \<open>C9. An IVF search returns the exact \<open>k\<close> best of the vectors it probes: the staged ones before
  training, afterwards those in the posting lists of the \<open>nprobe\<close> centroids nearest to the query.
  With \<open>nprobe = nlist\<close> these are all live vectors, so the search is as exact as the flat one (on the
  decoded vectors when quantized).\<close>

theorem ivf_search_probed:
  assumes "rt_ok rt" "ivf_ok ix" "ivf_search rt ix q k f = Inr rs"
  shows "is_top_k k (scan_items rt (ivf_metric ix) (ivf_get ix) (searched_ids rt ix q) q f) rs \<and>
    set (searched_ids rt ix q) \<subseteq> dom (ivf_get ix) \<and> distinct (map r_id rs) \<and>
    length (probe_lists rt ix q) = ivf_nprobe ix \<and>
    (ivf_nprobe ix = ivf_nlist ix \<longrightarrow>
       is_top_k k (scan_items rt (ivf_metric ix) (ivf_get ix) (ivf_list_ids rt ix) q f) rs)"
proof -
  note top = ivf_search_top_k [OF assms]
  have "distinct (map r_id rs)"
    using is_top_k_distinct [OF top] distinct_searched_ids [OF assms(2)] by (simp add: scan_items_ids)
  moreover have "ivf_nprobe ix \<le> ivf_nlist ix" using assms(2) by (simp add: ivf_ok_def)
  ultimately show ?thesis
    using top searched_ids_sub [OF assms(2)] ivf_search_exact [OF assms(1,2) _ assms(3)]
    by (simp add: length_probe_lists)
qed

theorem ivf_search_probed_witness:
  "\<exists>rs :: unit scored_result list. ivf_search plain_rt ivf_example [0] 3 None = Inr rs \<and> distinct (map r_id rs)"
proof -
  have "length [0 :: f32] = ivf_dim ivf_example" by (simp add: ivf_example_def)
  then obtain rs :: "unit scored_result list" where rs: "ivf_search plain_rt ivf_example [0] 3 None = Inr rs"
    using ivf_search_total by blast
  then show ?thesis using ivf_search_probed [OF plain_rt_ok ivf_example_ok rs] by blast
qed

text \<open>C10. Compacting a trained IVF index never panics and rebuilds an index with the same parameters from the
  live vectors, in the order the ids are listed. With fewer than \<open>nlist\<close> live vectors the result is untrained and
  holds them in its staging area. Otherwise it is trained again: its centroids are those of k-means, and its
  quantizer the one fitted, on the first \<open>nlist\<close> live vectors as they could be read from the old index; every live
  vector is there as that quantizer stores it (exactly, without quantization), and nothing else.\<close>

theorem ivf_compact_contents:
  assumes "rt_ok rt" "ivf_ok ix"
  shows "if ivf_trained ix
    then \<exists>s. ivf_compact rt ix = Some (Inr s) \<and> ivf_ok s \<and> same_params s ix \<and>
      (let ys = ivf_list_ids rt ix; n = ivf_nlist ix; data = concat (map (\<lambda>y. the (ivf_get ix y)) (take n ys))
       in if length ys < n
         then \<not> ivf_trained s \<and> staging_ids s = ys \<and> ivf_get s = ivf_get ix
         else ivf_trained s \<and> ivf_centroids s = kmeans rt data n (ivf_dim ix) n (ivf_metric ix) \<and>
           ivf_quantizer s = (if ivf_quantize ix then Some (sq8_fit data n (ivf_dim ix)) else None) \<and>
           ivf_get s = (\<lambda>y. map_option (stored (ivf_quantizer s)) (ivf_get ix y)))
    else ivf_compact rt ix = None"
proof (cases "ivf_trained ix")
  case True
  obtain s where s: "ivf_compact rt ix = Some (Inr s)" "ivf_ok s" "same_params s ix"
    using ivf_compact_ok [OF assms True] by blast
  note b = ivf_compact_builds [OF assms s(1)]
  have "set (ivf_list_ids rt ix) = dom (ivf_get ix)" using ivf_list_ids_ok [OF assms] by simp
  then have get: "ivf_get s = (\<lambda>y. map_option (stored (ivf_quantizer s)) (ivf_get ix y))"
    using b by (auto simp: built_from_def fun_eq_iff domIff)
  moreover have "ivf_quantizer s = None" if "\<not> ivf_trained s" using s(2) that by (simp add: ivf_ok_def)
  ultimately have un: "ivf_get s = ivf_get ix" if "\<not> ivf_trained s" using that by (simp add: option.map_ident)
  have e: "ivf_nlist s = ivf_nlist ix" "ivf_dim s = ivf_dim ix" "ivf_metric s = ivf_metric ix"
      "ivf_quantize s = ivf_quantize ix" using s(3) by (simp_all add: same_params_def)
  note c = conjunct1 [OF b [unfolded built_from_def]]
  show ?thesis
  proof (cases "length (ivf_list_ids rt ix) < ivf_nlist ix")
    case t: True
    then have "\<not> ivf_trained s \<and> staging_ids s = ivf_list_ids rt ix" using c e by simp
    then show ?thesis using s un t True by (simp add: Let_def)
  next
    case F: False
    then show ?thesis using s get c True unfolding e Let_def if_not_P [OF F] if_P [OF True] by (intro exI [of _ s] conjI) blast+
  qed
qed (simp add: ivf_compact_def)

theorem ivf_compact_contents_witness:
  "\<exists>ix s. ivf_trained ix \<and> ivf_quantize ix \<and> ivf_compact plain_rt ix = Some (Inr s) \<and> ivf_trained s \<and>
     ivf_centroids s = kmeans plain_rt (the (ivf_get ix 5)) 1 1 1 L2 \<and> dom (ivf_get s) = {5}"
proof -
  let ?start = "ivf_example\<lparr>ivf_nlist := 1, ivf_nprobe := 1\<rparr>"
  let ?ix = "ivf_train plain_rt ?start"
  have "ivf_ok ?ix \<and> same_params ?ix ?start \<and> ivf_trained ?ix \<and>
      ivf_get ?ix = (\<lambda>y. map_option (stored (ivf_quantizer ?ix)) (ivf_get ?start y))"
    by (rule ivf_train_ok) (simp_all add: ivf_example_def slab_ok_def)
  then have t: "ivf_ok ?ix" "same_params ?ix ?start" "ivf_trained ?ix"
      "ivf_get ?ix = (\<lambda>y. map_option (stored (ivf_quantizer ?ix)) (ivf_get ?start y))" by blast+
  have "dom (ivf_get ?start) = {5}" by (auto simp: ivf_get_def ivf_example_def split: if_splits)
  then have d: "dom (ivf_get ?ix) = {5}" unfolding t(4) by (auto simp: dom_def)
  have ids: "ivf_list_ids plain_rt ?ix = [5]"
  proof -
    have l: "distinct (ivf_list_ids plain_rt ?ix)" "set (ivf_list_ids plain_rt ?ix) = {5}"
      using ivf_list_ids_ok [OF plain_rt_ok t(1)] d by simp_all
    then have "length (ivf_list_ids plain_rt ?ix) = 1" using distinct_card [OF l(1)] by simp
    then obtain y where "ivf_list_ids plain_rt ?ix = [y]" by (auto simp: length_Suc_conv)
    then show ?thesis using l(2) by simp
  qed
  have p: "ivf_nlist ?ix = 1" "ivf_dim ?ix = 1" "ivf_metric ?ix = L2" "ivf_quantize ?ix"
    using t(2) by (simp_all add: same_params_def ivf_example_def)
  from ivf_compact_contents [OF plain_rt_ok t(1)] t(3) ids p
  obtain s where "ivf_compact plain_rt ?ix = Some (Inr s)" "ivf_trained s"
      "ivf_centroids s = kmeans plain_rt (the (ivf_get ?ix 5)) 1 1 1 L2"
      "ivf_get s = (\<lambda>y. map_option (stored (ivf_quantizer s)) (ivf_get ?ix y))" by (auto simp: Let_def)
  moreover from this(4) have "dom (ivf_get s) = {5}" using d by (auto simp: dom_def)
  ultimately show ?thesis using t(3) p(4) by blast
qed

end
