(* ===== verification/Hnsw.thy ===== *)
theory Hnsw
  imports Traits
begin

text \<open>
  \<open>HnswIndex\<close> of \<open>likhadb-index/src/hnsw.rs\<close>: the layered graph, beam search, neighbour selection,
  insertion in two stages (a read-only plan, then an ordered commit), the bulk build in waves,
  tombstones and compaction. The level a node draws is an argument (\<open>random_level\<close> is a random
  number passed through a logarithm; \<open>ml\<close> only scales it and is left out of the state). The stamps of
  a search are the booleans \<open>stamps[i] == epoch\<close>.

  The invariant bounds every neighbour list, keeps every edge inside the graph and inside the layer,
  and ties nodes, ids and tombstones together; all index accesses of the code are in range under it.
  Where it does not hold the code would panic, and the model skips the access.
\<close>

section \<open>State\<close>

definition MAX_LEVEL :: nat where "MAX_LEVEL = 16"

record hnsw_node =
  hn_id :: vecid
  hn_layers :: "nat list list"

record insertion_plan =
  plan_id :: vecid
  plan_vector :: vec
  plan_level :: nat
  plan_neighbours :: "nat list list"

record hnsw =
  h_dim :: nat
  h_metric :: metric
  h_m :: nat
  h_m0 :: nat
  h_ef_construction :: nat
  h_ef_search :: nat
  h_use_heuristic :: bool
  h_nodes :: "hnsw_node list"
  h_data :: "f32 list"
  h_id_to_node :: "(vecid \<times> nat) list"
  h_deleted :: "vecid set"
  h_entry_point :: "nat option"
  h_max_level :: nat

text \<open>\<open>m0 = 2 * m\<close> is computed in \<open>usize\<close>: an overflow panics in a build with overflow checks (\<open>dev.sh\<close>, the
  tests). A release build wraps around instead; that value is not modelled.\<close>

definition hnsw_new :: "nat \<Rightarrow> metric \<Rightarrow> nat \<Rightarrow> nat \<Rightarrow> nat \<Rightarrow> db_error + hnsw" where
  "hnsw_new d m m_edges ef_construction ef_search =
     (if d = 0 then Inl InvalidArgument
      else if m_edges < 2 then Inl InvalidArgument
      else if ef_construction < m_edges then Inl InvalidArgument
      else if ef_search < 1 then Inl InvalidArgument
      else if 2 ^ 64 \<le> 2 * m_edges then Inl Panicked
      else Inr \<lparr>h_dim = d, h_metric = m, h_m = m_edges, h_m0 = 2 * m_edges,
        h_ef_construction = ef_construction, h_ef_search = ef_search, h_use_heuristic = False,
        h_nodes = [], h_data = [], h_id_to_node = [], h_deleted = {}, h_entry_point = None,
        h_max_level = 0\<rparr>)"

definition with_heuristic :: "hnsw \<Rightarrow> bool \<Rightarrow> hnsw" where
  "with_heuristic ix b = ix\<lparr>h_use_heuristic := b\<rparr>"

definition vec_of :: "hnsw \<Rightarrow> nat \<Rightarrow> vec" where
  "vec_of ix i = row (h_dim ix) (h_data ix) i"

definition node_dist :: "rt \<Rightarrow> hnsw \<Rightarrow> vec \<Rightarrow> nat \<Rightarrow> f32" where
  "node_dist rt ix query i = simd_distance rt (h_metric ix) query (vec_of ix i)"

definition m_at :: "hnsw \<Rightarrow> nat \<Rightarrow> nat" where
  "m_at ix level = (if level = 0 then h_m0 ix else h_m ix)"

text \<open>\<open>self.nodes[i].layers.get(level)\<close>, empty when there is no such layer\<close>

definition layer_of :: "hnsw \<Rightarrow> nat \<Rightarrow> nat \<Rightarrow> nat list" where
  "layer_of ix i level =
     (if i < length (h_nodes ix) \<and> level < length (hn_layers (h_nodes ix ! i))
      then hn_layers (h_nodes ix ! i) ! level else [])"

section \<open>Beam search in one layer\<close>

type_synonym node_heap = "(f32 \<times> nat) list"

text \<open>\<open>w.peek().map(|&(d, _)| d).unwrap_or(OrderedFloat(f32::MAX))\<close>\<close>

definition worst_dist :: "node_heap \<Rightarrow> f32" where
  "worst_dist w = (case heap_peek w of Some x \<Rightarrow> fst x | None \<Rightarrow> f32_MAX)"

definition visit_neighbour ::
  "rt \<Rightarrow> hnsw \<Rightarrow> vec \<Rightarrow> nat \<Rightarrow> bool list \<times> node_heap \<times> node_heap \<Rightarrow> nat \<Rightarrow> bool list \<times> node_heap \<times> node_heap"
where
  "visit_neighbour rt ix query ef st nbr = (case st of (stamps, w, c) \<Rightarrow>
     if \<not> nbr < length stamps \<or> stamps ! nbr then (stamps, w, c)
     else let stamps' = stamps[nbr := True]; d = node_dist rt ix query nbr
       in if okey d < okey (worst_dist w) \<or> length w < ef
          then let w' = heap_push (d, nbr) w
            in (stamps', if length w' > ef then heap_pop w' else w', heap_push (d, nbr) c)
          else (stamps', w, c))"

text \<open>A visit takes one unstamped node for each candidate it adds, which bounds the loop.\<close>

definition search_measure :: "bool list \<times> node_heap \<times> node_heap \<Rightarrow> nat" where
  "search_measure st = (case st of (stamps, w, c) \<Rightarrow> length c + length (filter Not stamps))"

lemma count_stamp:
  "i < length stamps \<Longrightarrow> \<not> stamps ! i \<Longrightarrow>
   Suc (length (filter Not (stamps[i := True]))) = length (filter Not stamps)"
proof (induction stamps arbitrary: i)
  case (Cons s stamps)
  then show ?case by (cases i) auto
qed simp

lemma visit_measure: "search_measure (visit_neighbour rt ix query ef st nbr) \<le> search_measure st"
proof -
  obtain stamps w c where st: "st = (stamps, w, c)" by (cases st)
  show ?thesis
    using count_stamp [of nbr stamps]
    by (auto simp: st visit_neighbour_def search_measure_def Let_def)
qed

lemma visits_measure: "search_measure (foldl (visit_neighbour rt ix query ef) st nbrs) \<le> search_measure st"
proof (induction nbrs arbitrary: st)
  case (Cons nbr nbrs)
  have "search_measure (foldl (visit_neighbour rt ix query ef) (visit_neighbour rt ix query ef st nbr) nbrs)
      \<le> search_measure (visit_neighbour rt ix query ef st nbr)" by (rule Cons.IH)
  also have "\<dots> \<le> search_measure st" by (rule visit_measure)
  finally show ?case by simp
qed simp

function search_loop ::
  "rt \<Rightarrow> hnsw \<Rightarrow> vec \<Rightarrow> nat \<Rightarrow> nat \<Rightarrow> bool list \<times> node_heap \<times> node_heap \<Rightarrow> node_heap"
where
  "search_loop rt ix query ef level (stamps, w, []) = w"
| "search_loop rt ix query ef level (stamps, w, x # c) =
     (if okey (fst x) > okey (worst_dist w) then w
      else search_loop rt ix query ef level
        (foldl (visit_neighbour rt ix query ef) (stamps, w, c) (layer_of ix (snd x) level)))"
  by pat_completeness auto

termination search_loop
proof (relation "measure (\<lambda>(rt, ix, query, ef, level, st). search_measure st)", goal_cases)
  case (2 rt ix query ef level stamps w x c)
  have "search_measure (foldl (visit_neighbour rt ix query ef) (stamps, w, c) (layer_of ix (snd x) level)) \<le>
      search_measure (stamps, w, c)" by (rule visits_measure)
  then show ?case by (simp add: search_measure_def)
qed simp

definition search_layer :: "rt \<Rightarrow> hnsw \<Rightarrow> vec \<Rightarrow> nat list \<Rightarrow> nat \<Rightarrow> nat \<Rightarrow> node_heap" where
  "search_layer rt ix query entry_points ef level =
     search_loop rt ix query ef level
       (foldl (\<lambda>(stamps, w, c) ep.
            let d = node_dist rt ix query ep
            in (stamps[ep := True], heap_push (d, ep) w, heap_push (d, ep) c))
          (replicate (length (h_nodes ix)) False, [], []) entry_points)"

section \<open>Neighbour selection\<close>

text \<open>\<open>while candidates.len() > m_max { candidates.pop(); }\<close>\<close>

fun trim_heap :: "nat \<Rightarrow> node_heap \<Rightarrow> node_heap" where
  "trim_heap m_max h = (if length h > m_max then trim_heap m_max (heap_pop h) else h)"

declare trim_heap.simps [simp del]

definition select_neighbors :: "rt \<Rightarrow> node_heap \<Rightarrow> nat \<Rightarrow> nat list" where
  "select_neighbors rt candidates m_max = map snd (node_heap_iter rt (trim_heap m_max candidates))"

fun heuristic_loop ::
  "rt \<Rightarrow> hnsw \<Rightarrow> nat \<Rightarrow> node_heap \<Rightarrow> nat list \<Rightarrow> nat list \<Rightarrow> nat list \<times> nat list"
where
  "heuristic_loop rt ix m_max [] selected discarded = (selected, discarded)"
| "heuristic_loop rt ix m_max ((dq, cand) # cs) selected discarded =
     (if length selected = m_max then (selected, discarded)
      else if list_all (\<lambda>nb. f32_lt dq (simd_distance rt (h_metric ix) (vec_of ix cand) (vec_of ix nb))) selected
      then heuristic_loop rt ix m_max cs (selected @ [cand]) discarded
      else heuristic_loop rt ix m_max cs selected (discarded @ [cand]))"

text \<open>\<open>into_sorted_vec\<close> is the heap in ascending order.\<close>

definition select_neighbors_heuristic :: "rt \<Rightarrow> hnsw \<Rightarrow> node_heap \<Rightarrow> nat \<Rightarrow> nat list" where
  "select_neighbors_heuristic rt ix candidates m_max =
     (case heuristic_loop rt ix m_max candidates [] [] of (selected, discarded) \<Rightarrow>
        selected @ take (m_max - length selected) discarded)"

definition select_neighbors_configured :: "rt \<Rightarrow> hnsw \<Rightarrow> node_heap \<Rightarrow> nat \<Rightarrow> nat list" where
  "select_neighbors_configured rt ix candidates m_max =
     (if h_use_heuristic ix then select_neighbors_heuristic rt ix candidates m_max
      else select_neighbors rt candidates m_max)"

text \<open>\<open>self.nodes[i].layers[level] = ns\<close>\<close>

definition set_layer :: "hnsw \<Rightarrow> nat \<Rightarrow> nat \<Rightarrow> nat list \<Rightarrow> hnsw" where
  "set_layer ix i level ns = ix\<lparr>h_nodes := (h_nodes ix)[i :=
     (h_nodes ix ! i)\<lparr>hn_layers := (hn_layers (h_nodes ix ! i))[level := ns]\<rparr>]\<rparr>"

definition prune_connections :: "rt \<Rightarrow> hnsw \<Rightarrow> nat \<Rightarrow> nat \<Rightarrow> nat \<Rightarrow> hnsw" where
  "prune_connections rt ix i level m_max =
     (let nbrs = layer_of ix i level
      in if length nbrs \<le> m_max then ix
         else let query = vec_of ix i;
                heap = foldl (\<lambda>h n. heap_push (simd_distance rt (h_metric ix) query (vec_of ix n), n) h) [] nbrs
           in set_layer ix i level (select_neighbors_configured rt ix heap m_max))"

text \<open>\<open>heap.iter().min_by(..)\<close>: the first minimum in iteration order\<close>

definition closest_live :: "rt \<Rightarrow> node_heap \<Rightarrow> nat option" where
  "closest_live rt heap = (case node_heap_iter rt heap of
       [] \<Rightarrow> None
     | x # xs \<Rightarrow> Some (snd (foldl (\<lambda>a b. if okey (fst b) < okey (fst a) then b else a) x xs)))"

section \<open>Insertion\<close>

text \<open>The loop that descends greedily, one entry point per layer.\<close>

definition greedy_descent :: "rt \<Rightarrow> hnsw \<Rightarrow> vec \<Rightarrow> nat \<Rightarrow> nat list \<Rightarrow> nat" where
  "greedy_descent rt ix query ep levels =
     foldl (\<lambda>ep lc. case closest_live rt (search_layer rt ix query [ep] 1 lc) of
         Some closest \<Rightarrow> closest | None \<Rightarrow> ep) ep levels"

definition plan_insert :: "rt \<Rightarrow> hnsw \<Rightarrow> vecid \<Rightarrow> vec \<Rightarrow> nat \<Rightarrow> insertion_plan" where
  "plan_insert rt ix y v level = (case h_entry_point ix of
       None \<Rightarrow> \<lparr>plan_id = y, plan_vector = v, plan_level = level, plan_neighbours = replicate (level + 1) []\<rparr>
     | Some ep0 \<Rightarrow>
         let ep = greedy_descent rt ix v ep0 (rev [level + 1..<h_max_level ix + 1]);
             nbrs = snd (foldl (\<lambda>(ep, nbrs) lc.
                 let candidates = search_layer rt ix v [ep] (h_ef_construction ix) lc;
                     ep' = (case closest_live rt candidates of Some closest \<Rightarrow> closest | None \<Rightarrow> ep)
                 in (ep', nbrs[lc := select_neighbors_configured rt ix candidates (m_at ix lc)]))
               (ep, replicate (level + 1) []) (rev [0..<min level (h_max_level ix) + 1]))
         in \<lparr>plan_id = y, plan_vector = v, plan_level = level, plan_neighbours = nbrs\<rparr>)"

text \<open>One reverse edge of \<open>commit_insert\<close>.\<close>

definition link_back :: "rt \<Rightarrow> nat \<Rightarrow> nat \<Rightarrow> hnsw \<Rightarrow> nat \<Rightarrow> hnsw" where
  "link_back rt node_idx lc ix nbr =
     (if nbr < length (h_nodes ix) \<and> lc < length (hn_layers (h_nodes ix ! nbr))
      then let ix1 = set_layer ix nbr lc (layer_of ix nbr lc @ [node_idx])
        in if length (layer_of ix1 nbr lc) > m_at ix lc then prune_connections rt ix1 nbr lc (m_at ix lc)
           else ix1
      else ix)"

definition commit_insert :: "rt \<Rightarrow> hnsw \<Rightarrow> insertion_plan \<Rightarrow> hnsw" where
  "commit_insert rt ix p =
     (let y = plan_id p;
          ix0 = (if hm_get (h_id_to_node ix) y \<noteq> None then ix\<lparr>h_deleted := insert y (h_deleted ix)\<rparr> else ix);
          node_idx = length (h_nodes ix0);
          ix1 = ix0\<lparr>h_nodes := h_nodes ix0 @ [\<lparr>hn_id = y, hn_layers = plan_neighbours p\<rparr>],
            h_data := h_data ix0 @ plan_vector p,
            h_id_to_node := hm_insert y node_idx (h_id_to_node ix0),
            h_deleted := h_deleted ix0 - {y}\<rparr>;
          ix2 = foldl (\<lambda>s lc. foldl (link_back rt node_idx lc) s (layer_of s node_idx lc)) ix1
            [0..<length (plan_neighbours p)]
      in if h_entry_point ix2 = None \<or> plan_level p > h_max_level ix2
         then ix2\<lparr>h_entry_point := Some node_idx, h_max_level := plan_level p\<rparr> else ix2)"

text \<open>The waves of \<open>build_from_vecs\<close>: the rows of a chunk are planned on the same graph, then committed in order.\<close>

function hnsw_waves :: "rt \<Rightarrow> hnsw \<Rightarrow> (vecid \<times> vec \<times> nat) list \<Rightarrow> hnsw" where
  "hnsw_waves rt ix [] = ix"
| "hnsw_waves rt ix (r # rs) =
     (let wave_size = max (num_threads rt) 1;
          wave = take wave_size (r # rs);
          plans = map (\<lambda>(y, v, level). plan_insert rt ix y v level) wave
      in hnsw_waves rt (foldl (commit_insert rt) ix plans) (drop wave_size (r # rs)))"
  by pat_completeness auto

termination hnsw_waves
  by (relation "measure (\<lambda>(rt, ix, rs). length rs)") auto

definition build_from_vecs ::
  "rt \<Rightarrow> (nat \<Rightarrow> nat) \<Rightarrow> hnsw \<Rightarrow> (vecid \<times> vec) list \<Rightarrow> (db_error + unit) \<times> hnsw"
where
  "build_from_vecs rt levels ix vecs =
     (case find (\<lambda>x. length (snd x) \<noteq> h_dim ix) vecs of
        Some x \<Rightarrow> (Inl (DimMismatch (h_dim ix) (length (snd x))), ix)
      | None \<Rightarrow>
          let rows = map (\<lambda>i. (fst (vecs ! i), snd (vecs ! i), min (levels i) MAX_LEVEL)) [0..<length vecs]
          in case rows of
              [] \<Rightarrow> (Inr (), ix)
            | (y, v, level) # rest \<Rightarrow>
                if h_entry_point ix = None
                then (Inr (), hnsw_waves rt (commit_insert rt ix (plan_insert rt ix y v level)) rest)
                else (Inr (), hnsw_waves rt ix rows))"

section \<open>The trait operations\<close>

definition hnsw_get :: "hnsw \<Rightarrow> vecid \<Rightarrow> vec option" where
  "hnsw_get ix y = (if y \<in> h_deleted ix then None
     else case hm_get (h_id_to_node ix) y of None \<Rightarrow> None | Some i \<Rightarrow> Some (row (h_dim ix) (h_data ix) i))"

definition hnsw_insert :: "rt \<Rightarrow> nat \<Rightarrow> hnsw \<Rightarrow> vecid \<Rightarrow> vec \<Rightarrow> db_error + hnsw" where
  "hnsw_insert rt random_level ix y v =
     (if length v \<noteq> h_dim ix then Inl (DimMismatch (h_dim ix) (length v))
      else Inr (commit_insert rt ix (plan_insert rt ix y v (min random_level MAX_LEVEL))))"

definition hnsw_delete :: "hnsw \<Rightarrow> vecid \<Rightarrow> bool \<times> hnsw" where
  "hnsw_delete ix y =
     (if hm_get (h_id_to_node ix) y = None \<or> y \<in> h_deleted ix then (False, ix)
      else let ix1 = ix\<lparr>h_deleted := insert y (h_deleted ix)\<rparr>;
               ep_deleted = (case h_entry_point ix of Some ep \<Rightarrow> hn_id (h_nodes ix ! ep) = y | None \<Rightarrow> False)
        in if ep_deleted
           then let new_ep = find (\<lambda>i. hn_id (h_nodes ix1 ! i) \<notin> h_deleted ix1) (rev [0..<length (h_nodes ix1)])
             in (True, ix1\<lparr>h_entry_point := new_ep,
                   h_max_level := (case new_ep of Some ep \<Rightarrow> length (hn_layers (h_nodes ix1 ! ep)) - 1 | None \<Rightarrow> 0)\<rparr>)
           else (True, ix1))"

definition hnsw_search ::
  "rt \<Rightarrow> hnsw \<Rightarrow> vec \<Rightarrow> nat \<Rightarrow> (vecid \<Rightarrow> bool) option \<Rightarrow> db_error + 'p scored_result list"
where
  "hnsw_search rt ix query k f =
     (if length query \<noteq> h_dim ix then Inl (DimMismatch (h_dim ix) (length query))
      else if k = 0 then Inr []
      else case h_entry_point ix of None \<Rightarrow> Inr []
        | Some ep0 \<Rightarrow>
            let ep = greedy_descent rt ix query ep0 (rev [1..<h_max_level ix + 1]);
                ef = max (h_ef_search ix) k;
                candidates = search_layer rt ix query [ep] ef 0;
                live = filter (\<lambda>x. let node_id = hn_id (h_nodes ix ! snd x)
                   in node_id \<notin> h_deleted ix \<and> keep f node_id) (node_heap_iter rt candidates);
                results = map (\<lambda>x. result_of (fst x, hn_id (h_nodes ix ! snd x))) live
            in Inr (take k (sort_results results)))"

definition hnsw_len :: "hnsw \<Rightarrow> nat" where
  "hnsw_len ix = length (h_id_to_node ix) - card (h_deleted ix)"

definition hnsw_list_ids :: "rt \<Rightarrow> hnsw \<Rightarrow> vecid list" where
  "hnsw_list_ids rt ix = filter (\<lambda>y. y \<notin> h_deleted ix) (hash_iter rt (map fst (h_id_to_node ix)))"

definition hnsw_tombstone_ratio :: "hnsw \<Rightarrow> f32" where
  "hnsw_tombstone_ratio ix =
     (let physical = length (h_nodes ix)
      in if physical = 0 then 0
         else f32_div (f32_of_nat (physical - hnsw_len ix)) (f32_of_nat physical))"

text \<open>\<open>prepare_compaction\<close>: the empty replacement and the live vectors in node order.\<close>

definition hnsw_prepare_compaction :: "hnsw \<Rightarrow> (db_error + hnsw) \<times> (vecid \<times> vec) list" where
  "hnsw_prepare_compaction ix =
     ((case hnsw_new (h_dim ix) (h_metric ix) (h_m ix) (h_ef_construction ix) (h_ef_search ix) of
         Inl _ \<Rightarrow> Inl Panicked
       | Inr r \<Rightarrow> Inr (with_heuristic r (h_use_heuristic ix))),
      map (\<lambda>i. (hn_id (h_nodes ix ! i), vec_of ix i))
        (filter (\<lambda>i. hm_get (h_id_to_node ix) (hn_id (h_nodes ix ! i)) = Some i \<and>
            hn_id (h_nodes ix ! i) \<notin> h_deleted ix) [0..<length (h_nodes ix)]))"

text \<open>\<open>compact\<close>: \<open>PreparedIndexCompaction::build\<close> on the plan.\<close>

definition hnsw_compact :: "rt \<Rightarrow> (nat \<Rightarrow> nat) \<Rightarrow> hnsw \<Rightarrow> db_error + hnsw" where
  "hnsw_compact rt levels ix = (case hnsw_prepare_compaction ix of
       (Inl e, _) \<Rightarrow> Inl e
     | (Inr r, live) \<Rightarrow> (case build_from_vecs rt levels r live of
           (Inl _, _) \<Rightarrow> Inl Panicked
         | (Inr _, s) \<Rightarrow> Inr s))"

section \<open>The graph invariant\<close>

definition valid :: "hnsw \<Rightarrow> nat \<Rightarrow> nat \<Rightarrow> bool" where
  "valid ix l i \<longleftrightarrow> i < length (h_nodes ix) \<and> l < length (hn_layers (h_nodes ix ! i))"

definition edges_ok :: "hnsw \<Rightarrow> nat \<Rightarrow> nat list \<Rightarrow> bool" where
  "edges_ok ix l ns \<longleftrightarrow> length ns \<le> m_at ix l \<and> (\<forall>n \<in> set ns. valid ix l n)"

definition graph_ok :: "hnsw \<Rightarrow> bool" where
  "graph_ok ix \<longleftrightarrow> (\<forall>i l. valid ix l i \<longrightarrow> edges_ok ix l (hn_layers (h_nodes ix ! i) ! l))"

lemma valid_mono: "valid ix l i \<Longrightarrow> l' \<le> l \<Longrightarrow> valid ix l' i"
  by (simp add: valid_def)

lemma valid_update [simp]:
  "valid (ix\<lparr>h_entry_point := e\<rparr>) = valid ix" "valid (ix\<lparr>h_max_level := ml\<rparr>) = valid ix"
  "valid (ix\<lparr>h_deleted := D\<rparr>) = valid ix" "valid (ix\<lparr>h_use_heuristic := b\<rparr>) = valid ix"
  by (simp_all add: valid_def fun_eq_iff)

lemma graph_ok_update [simp]:
  "graph_ok (ix\<lparr>h_entry_point := e\<rparr>) = graph_ok ix" "graph_ok (ix\<lparr>h_max_level := ml\<rparr>) = graph_ok ix"
  "graph_ok (ix\<lparr>h_deleted := D\<rparr>) = graph_ok ix" "graph_ok (ix\<lparr>h_use_heuristic := b\<rparr>) = graph_ok ix"
  by (simp_all add: graph_ok_def edges_ok_def m_at_def cong: if_cong)

lemma layer_of_valid: "graph_ok ix \<Longrightarrow> n \<in> set (layer_of ix i l) \<Longrightarrow> valid ix l n"
proof -
  assume g: "graph_ok ix" and n: "n \<in> set (layer_of ix i l)"
  then have v: "valid ix l i" by (auto simp: layer_of_def valid_def split: if_splits)
  then have "n \<in> set (hn_layers (h_nodes ix ! i) ! l)" using n by (simp add: layer_of_def valid_def)
  then show ?thesis using g v by (simp add: graph_ok_def edges_ok_def)
qed

section \<open>Beam search stays in the layer\<close>

definition beam_ok ::
  "rt \<Rightarrow> hnsw \<Rightarrow> vec \<Rightarrow> nat \<Rightarrow> nat \<Rightarrow> bool list \<times> node_heap \<times> node_heap \<Rightarrow> bool"
where
  "beam_ok rt ix q ef l st \<longleftrightarrow> (case st of (stamps, w, c) \<Rightarrow>
     length stamps = length (h_nodes ix) \<and> heap_ok w \<and> length w \<le> max ef 1 \<and> distinct (map snd w) \<and>
     (\<forall>x \<in> set w \<union> set c. valid ix l (snd x) \<and> fst x = node_dist rt ix q (snd x) \<and> stamps ! snd x))"

lemma map_snd_heap_pop: "distinct (map snd w) \<Longrightarrow> distinct (map snd (heap_pop w))"
  by (simp add: heap_pop_def map_butlast distinct_butlast)

lemma distinct_heap_push:
  "distinct (map snd w) \<Longrightarrow> snd x \<notin> snd ` set w \<Longrightarrow> distinct (map snd (heap_push x w))"
proof -
  assume "distinct (map snd w)" "snd x \<notin> snd ` set w"
  then have "distinct (map snd (x # w))" by simp
  moreover have "mset (map snd (heap_push x w)) = mset (map snd (x # w))" by simp
  ultimately show ?thesis by (metis mset_eq_imp_distinct_iff)
qed

lemma beam_visit:
  assumes "beam_ok rt ix q ef l st" "valid ix l nbr"
  shows "beam_ok rt ix q ef l (visit_neighbour rt ix q ef st nbr)"
proof -
  obtain stamps w c where st: "st = (stamps, w, c)" by (cases st)
  show ?thesis
  proof (cases "nbr < length stamps \<and> \<not> stamps ! nbr")
    case False
    then show ?thesis using assms(1) by (auto simp: st visit_neighbour_def)
  next
    case True
    let ?d = "node_dist rt ix q nbr" and ?s = "stamps[nbr := True]"
    let ?w = "heap_push (?d, nbr) w"
    have b: "length stamps = length (h_nodes ix)" "heap_ok w" "length w \<le> max ef 1" "distinct (map snd w)"
        "\<forall>x \<in> set w \<union> set c. valid ix l (snd x) \<and> fst x = node_dist rt ix q (snd x) \<and> stamps ! snd x"
      using assms(1) by (auto simp: st beam_ok_def)
    have "nbr \<notin> snd ` set w" using b(5) True by auto
    then have d: "distinct (map snd ?w)" using b(4) by (simp add: distinct_heap_push)
    have all: "\<forall>x \<in> set ?w \<union> set (heap_push (?d, nbr) c).
        valid ix l (snd x) \<and> fst x = node_dist rt ix q (snd x) \<and> ?s ! snd x"
      using b(5) assms(2) True by (auto simp: nth_list_update)
    have pop: "\<forall>x \<in> set (heap_pop ?w) \<union> set (heap_push (?d, nbr) c).
        valid ix l (snd x) \<and> fst x = node_dist rt ix q (snd x) \<and> ?s ! snd x"
      using all set_heap_pop [of ?w] by blast
    have old: "\<forall>x \<in> set w \<union> set c. valid ix l (snd x) \<and> fst x = node_dist rt ix q (snd x) \<and> ?s ! snd x"
      using b(5) True by (auto simp: nth_list_update)
    show ?thesis
      using True b(1-4) d all pop old
      by (simp add: st visit_neighbour_def beam_ok_def Let_def heap_ok_pop map_snd_heap_pop del: set_heap_push)
  qed
qed

lemma beam_visits:
  "beam_ok rt ix q ef l st \<Longrightarrow> \<forall>n \<in> set nbrs. valid ix l n \<Longrightarrow>
   beam_ok rt ix q ef l (foldl (visit_neighbour rt ix q ef) st nbrs)"
  by (induction nbrs arbitrary: st) (simp_all add: beam_visit)

lemma search_loop_ok:
  "graph_ok ix \<Longrightarrow> beam_ok rt ix q ef l st \<Longrightarrow>
   \<exists>stamps. beam_ok rt ix q ef l (stamps, search_loop rt ix q ef l st, [])"
proof (induction rt ix q ef l st rule: search_loop.induct)
  case (1 rt ix query ef level stamps w)
  then show ?case by auto
next
  case (2 rt ix query ef level stamps w x c)
  show ?case
  proof (cases "okey (fst x) > okey (worst_dist w)")
    case True
    then show ?thesis using 2 by (auto simp: beam_ok_def)
  next
    case False
    have "beam_ok rt ix query ef level (stamps, w, c)" using "2.prems"(2) by (auto simp: beam_ok_def)
    then have "beam_ok rt ix query ef level
        (foldl (visit_neighbour rt ix query ef) (stamps, w, c) (layer_of ix (snd x) level))"
      by (rule beam_visits) (blast intro: layer_of_valid "2.prems"(1))
    then show ?thesis using "2.IH" False "2.prems"(1) by simp
  qed
qed

text \<open>What the construction and the search need to know of a result heap.\<close>

definition layer_heap :: "rt \<Rightarrow> hnsw \<Rightarrow> vec \<Rightarrow> nat \<Rightarrow> nat \<Rightarrow> node_heap \<Rightarrow> bool" where
  "layer_heap rt ix q ef l w \<longleftrightarrow> heap_ok w \<and> length w \<le> max ef 1 \<and> distinct (map snd w) \<and>
     (\<forall>x \<in> set w. valid ix l (snd x) \<and> fst x = node_dist rt ix q (snd x))"

lemma search_layer_ok:
  assumes "graph_ok ix" "valid ix l ep"
  shows "layer_heap rt ix q ef l (search_layer rt ix q [ep] ef l)"
proof -
  have "beam_ok rt ix q ef l ((replicate (length (h_nodes ix)) False)[ep := True],
      heap_push (node_dist rt ix q ep, ep) [], heap_push (node_dist rt ix q ep, ep) [])"
    using assms(2) by (simp add: beam_ok_def heap_push_def heap_ok_def valid_def)
  then obtain stamps where "beam_ok rt ix q ef l (stamps, search_layer rt ix q [ep] ef l, [])"
    using search_loop_ok [OF assms(1)] by (fastforce simp: search_layer_def Let_def)
  then show ?thesis by (simp add: beam_ok_def layer_heap_def)
qed

lemma closest_live_in:
  assumes "rt_ok rt" "closest_live rt h = Some i"
  shows "\<exists>x \<in> set h. snd x = i"
proof -
  have pick: "foldl (\<lambda>a b. if okey (fst b) < okey (fst a) then b else a) x xs \<in> set (x # xs)"
    for x :: "f32 \<times> nat" and xs
  proof (induction xs arbitrary: x)
    case (Cons y ys)
    show ?case using Cons.IH [of x] Cons.IH [of y]
      by (cases "okey (fst y) < okey (fst x)") auto
  qed simp
  obtain x xs where h: "node_heap_iter rt h = x # xs"
    using assms(2) by (auto simp: closest_live_def split: list.splits)
  then have "i = snd (foldl (\<lambda>a b. if okey (fst b) < okey (fst a) then b else a) x xs)"
    using assms(2) by (simp add: closest_live_def)
  moreover have "foldl (\<lambda>a b. if okey (fst b) < okey (fst a) then b else a) x xs \<in> set h"
    using pick [of x xs] unfolding set_node_heap_iter [OF assms(1), of h, symmetric] h .
  ultimately show ?thesis by blast
qed

lemma closest_live_valid:
  "rt_ok rt \<Longrightarrow> graph_ok ix \<Longrightarrow> valid ix l ep \<Longrightarrow>
   closest_live rt (search_layer rt ix q [ep] ef l) = Some i \<Longrightarrow> valid ix l i"
  using search_layer_ok [of ix l ep rt q ef] closest_live_in
  by (fastforce simp: layer_heap_def)

lemma greedy_descent_valid:
  assumes "rt_ok rt" "graph_ok ix"
  shows "sorted_wrt (\<ge>) levels \<Longrightarrow> \<forall>lc \<in> set levels. valid ix lc ep \<and> l \<le> lc \<Longrightarrow> valid ix l ep \<Longrightarrow>
    valid ix l (greedy_descent rt ix q ep levels)"
proof (induction levels arbitrary: ep)
  case (Cons lc levels)
  let ?ep = "case closest_live rt (search_layer rt ix q [ep] 1 lc) of Some closest \<Rightarrow> closest | None \<Rightarrow> ep"
  have lc: "valid ix lc ?ep"
    using Cons.prems closest_live_valid [OF assms, of lc ep q 1] by (auto split: option.split)
  then have "valid ix l (greedy_descent rt ix q ?ep levels)"
    using Cons.prems by (intro Cons.IH) (auto intro: valid_mono)
  then show ?case by (simp add: greedy_descent_def)
qed (simp add: greedy_descent_def)

section \<open>Selection keeps candidates and degree\<close>

lemma trim_heap_take: "trim_heap m h = take m h"
proof (induction m h rule: trim_heap.induct)
  case (1 m h)
  show ?case
  proof (cases "length h > m")
    case True
    then show ?thesis using 1 by (simp add: trim_heap.simps [of m h] heap_pop_def take_butlast)
  qed (simp add: trim_heap.simps [of m h])
qed

lemma heuristic_loop_ok:
  assumes "heuristic_loop rt ix m cs sel disc = (sel', disc')" "length sel \<le> m"
  shows "length sel' \<le> m \<and> set sel' \<union> set disc' \<subseteq> set sel \<union> set disc \<union> snd ` set cs"
  using assms
proof (induction rt ix m cs sel disc rule: heuristic_loop.induct)
  case (2 rt ix m_max dq cand cs selected discarded)
  then show ?case by (auto split: if_splits)
qed auto

lemma select_configured_ok:
  assumes "rt_ok rt"
  shows "length (select_neighbors_configured rt ix h m) \<le> m \<and>
    set (select_neighbors_configured rt ix h m) \<subseteq> snd ` set h"
proof (cases "h_use_heuristic ix")
  case True
  obtain sel disc where l: "heuristic_loop rt ix m h [] [] = (sel, disc)" by fastforce
  then have "length sel \<le> m" "set sel \<union> set disc \<subseteq> snd ` set h"
    using heuristic_loop_ok [OF l] by auto
  then show ?thesis using True l set_take_subset [of "m - length sel" disc]
    by (auto simp: select_neighbors_configured_def select_neighbors_heuristic_def)
next
  case False
  have "length (node_heap_iter rt (take m h)) \<le> m"
    by (metis assms length_take min.cobounded2 node_heap_iter_mset size_mset)
  then show ?thesis using False assms set_take_subset [of m h]
    by (auto simp: select_neighbors_configured_def select_neighbors_def trim_heap_take set_node_heap_iter)
qed

section \<open>The invariant of the index\<close>

definition hnsw_params_ok :: "hnsw \<Rightarrow> bool" where
  "hnsw_params_ok ix \<longleftrightarrow> 0 < h_dim ix \<and> 2 \<le> h_m ix \<and> h_m0 ix = 2 * h_m ix \<and>
     2 * h_m ix < 2 ^ 64 \<and>
     h_m ix \<le> h_ef_construction ix \<and> 1 \<le> h_ef_search ix"

definition ids_ok :: "hnsw \<Rightarrow> bool" where
  "ids_ok ix \<longleftrightarrow> hm_ok (h_id_to_node ix) \<and>
     (\<forall>y i. hm_get (h_id_to_node ix) y = Some i \<longrightarrow> i < length (h_nodes ix) \<and> hn_id (h_nodes ix ! i) = y) \<and>
     (\<forall>i < length (h_nodes ix). hm_get (h_id_to_node ix) (hn_id (h_nodes ix ! i)) \<noteq> None) \<and>
     h_deleted ix \<subseteq> dom (hm_get (h_id_to_node ix))"

definition entry_ok :: "hnsw \<Rightarrow> bool" where
  "entry_ok ix \<longleftrightarrow> (case h_entry_point ix of
       None \<Rightarrow> h_max_level ix = 0 \<and> dom (hm_get (h_id_to_node ix)) = h_deleted ix
     | Some ep \<Rightarrow> ep < length (h_nodes ix) \<and> length (hn_layers (h_nodes ix ! ep)) = h_max_level ix + 1)"

definition hnsw_ok :: "hnsw \<Rightarrow> bool" where
  "hnsw_ok ix \<longleftrightarrow> hnsw_params_ok ix \<and> length (h_data ix) = length (h_nodes ix) * h_dim ix \<and>
     graph_ok ix \<and> ids_ok ix \<and> entry_ok ix \<and>
     (\<forall>i < length (h_nodes ix). hn_layers (h_nodes ix ! i) \<noteq> [] \<and>
        length (hn_layers (h_nodes ix ! i)) \<le> MAX_LEVEL + 1)"

text \<open>A plan that can be committed to \<open>ix\<close>, or to any graph grown from it.\<close>

definition plan_ok :: "hnsw \<Rightarrow> insertion_plan \<Rightarrow> bool" where
  "plan_ok ix p \<longleftrightarrow> length (plan_vector p) = h_dim ix \<and> plan_level p \<le> MAX_LEVEL \<and>
     length (plan_neighbours p) = plan_level p + 1 \<and>
     (\<forall>l \<le> plan_level p. edges_ok ix l (plan_neighbours p ! l))"

lemma edges_ok_Nil [simp]: "edges_ok ix l []"
  by (simp add: edges_ok_def)

lemma select_layer_edges:
  assumes "rt_ok rt" "graph_ok ix" "valid ix l ep"
  shows "edges_ok ix l (select_neighbors_configured rt ix (search_layer rt ix q [ep] ef l) (m_at ix l))"
proof -
  have "valid ix l n" if "n \<in> snd ` set (search_layer rt ix q [ep] ef l)" for n
    using search_layer_ok [OF assms(2,3), of rt q ef] that by (auto simp: layer_heap_def)
  then show ?thesis
    using select_configured_ok [OF assms(1), of ix "search_layer rt ix q [ep] ef l" "m_at ix l"]
    by (simp add: edges_ok_def) blast
qed

lemma sorted_rev_upt: "sorted_wrt (\<ge>) (rev [a..<b])"
  by (simp add: sorted_wrt_rev del: upt.simps)

lemma plan_layers_ok:
  assumes "rt_ok rt" "graph_ok ix"
  shows "sorted_wrt (\<ge>) levels \<Longrightarrow> \<forall>lc \<in> set levels. valid ix lc ep \<Longrightarrow>
    \<forall>l < length nbrs. edges_ok ix l (nbrs ! l) \<Longrightarrow>
    length (snd (foldl (\<lambda>(ep, nbrs) lc.
        let candidates = search_layer rt ix v [ep] ef lc;
            ep' = (case closest_live rt candidates of Some closest \<Rightarrow> closest | None \<Rightarrow> ep)
        in (ep', nbrs[lc := select_neighbors_configured rt ix candidates (m_at ix lc)])) (ep, nbrs) levels)) = length nbrs \<and>
    (\<forall>l < length nbrs. edges_ok ix l (snd (foldl (\<lambda>(ep, nbrs) lc.
        let candidates = search_layer rt ix v [ep] ef lc;
            ep' = (case closest_live rt candidates of Some closest \<Rightarrow> closest | None \<Rightarrow> ep)
        in (ep', nbrs[lc := select_neighbors_configured rt ix candidates (m_at ix lc)])) (ep, nbrs) levels) ! l))"
proof (induction levels arbitrary: ep nbrs)
  case (Cons lc levels)
  let ?cand = "search_layer rt ix v [ep] ef lc"
  let ?ep = "case closest_live rt ?cand of Some closest \<Rightarrow> closest | None \<Rightarrow> ep"
  let ?nbrs = "nbrs[lc := select_neighbors_configured rt ix ?cand (m_at ix lc)]"
  have ep: "valid ix lc ep" using Cons.prems(2) by simp
  have "valid ix lc ?ep" using closest_live_valid [OF assms ep, of v ef] ep by (auto split: option.split)
  then have v: "\<forall>l \<in> set levels. valid ix l ?ep"
    using Cons.prems(1) by (auto intro: valid_mono)
  have "\<forall>l < length ?nbrs. edges_ok ix l (?nbrs ! l)"
  proof (intro allI impI)
    fix l assume "l < length ?nbrs"
    then show "edges_ok ix l (?nbrs ! l)"
      using Cons.prems(3) select_layer_edges [OF assms ep, of v ef] by (cases "l = lc") simp_all
  qed
  from Cons.IH [OF _ v this] Cons.prems(1) show ?case by (simp add: Let_def)
qed simp

lemma plan_insert_ok:
  assumes "rt_ok rt" "hnsw_ok ix" "length v = h_dim ix" "level \<le> MAX_LEVEL"
  shows "plan_ok ix (plan_insert rt ix y v level)"
proof (cases "h_entry_point ix")
  case None
  then show ?thesis using assms by (simp add: plan_insert_def plan_ok_def del: replicate.simps)
next
  case (Some ep0)
  have g: "graph_ok ix" and ep0: "\<And>l. l \<le> h_max_level ix \<Longrightarrow> valid ix l ep0"
    using assms(2) Some by (auto simp: hnsw_ok_def entry_ok_def valid_def)
  let ?ep = "greedy_descent rt ix v ep0 (rev [level + 1..<h_max_level ix + 1])"
  have "valid ix l ?ep" if "l \<le> min level (h_max_level ix)" for l
    using that by (intro greedy_descent_valid [OF assms(1) g sorted_rev_upt]) (auto simp: ep0)
  then have ep: "\<forall>lc \<in> set (rev [0..<min level (h_max_level ix) + 1]). valid ix lc ?ep" by auto
  have srt: "sorted_wrt (\<ge>) (rev [0..<min level (h_max_level ix) + 1])" by (rule sorted_rev_upt)
  have nb: "\<forall>l < length (replicate (level + 1) ([] :: nat list)). edges_ok ix l (replicate (level + 1) [] ! l)"
    by (simp del: replicate.simps)
  show ?thesis
    using plan_layers_ok [OF assms(1) g srt ep nb, of v "h_ef_construction ix"] Some assms(3,4)
    by (simp add: plan_insert_def plan_ok_def Let_def less_Suc_eq_le del: replicate.simps upt.simps)
qed

section \<open>Committing keeps the invariant\<close>

text \<open>The ids and layer counts of the nodes; edges come and go, these only grow at the end.\<close>

definition shape :: "hnsw \<Rightarrow> (vecid \<times> nat) list" where
  "shape ix = map (\<lambda>n. (hn_id n, length (hn_layers n))) (h_nodes ix)"

definition relinked :: "hnsw \<Rightarrow> hnsw \<Rightarrow> bool" where
  "relinked ix ix' \<longleftrightarrow> (\<exists>nodes. ix' = ix\<lparr>h_nodes := nodes\<rparr>) \<and> shape ix' = shape ix"

lemma relinked_refl [simp]: "relinked ix ix"
  by (auto simp: relinked_def intro: exI [of _ "h_nodes ix"])

lemma relinked_trans: "relinked a b \<Longrightarrow> relinked b c \<Longrightarrow> relinked a c"
  by (auto simp: relinked_def)

lemma valid_shape: "valid ix l i \<longleftrightarrow> i < length (shape ix) \<and> l < snd (shape ix ! i)"
  by (auto simp: valid_def shape_def)

lemma relinked_valid: "relinked ix ix' \<Longrightarrow> valid ix' l i = valid ix l i"
  by (simp add: relinked_def valid_shape)

lemma relinked_m_at: "relinked ix ix' \<Longrightarrow> m_at ix' l = m_at ix l"
  by (auto simp: relinked_def m_at_def)

lemma relinked_edges: "relinked ix ix' \<Longrightarrow> edges_ok ix' l ns = edges_ok ix l ns"
  by (simp add: edges_ok_def relinked_valid relinked_m_at)

lemma set_layer_relinked: "valid ix l i \<Longrightarrow> relinked ix (set_layer ix i l ns)"
  by (auto simp: relinked_def set_layer_def shape_def map_update valid_def list_update_same_conv)

lemma set_layer_ok:
  assumes "graph_ok ix" "valid ix l i" "edges_ok ix l ns"
  shows "graph_ok (set_layer ix i l ns)"
  unfolding graph_ok_def
proof (intro allI impI)
  fix j k assume v: "valid (set_layer ix i l ns) k j"
  have re: "relinked ix (set_layer ix i l ns)" using assms(2) by (rule set_layer_relinked)
  have "hn_layers (h_nodes (set_layer ix i l ns) ! j) ! k =
      (if j = i \<and> k = l then ns else hn_layers (h_nodes ix ! j) ! k)"
    using assms(2) by (auto simp: set_layer_def valid_def nth_list_update)
  moreover have "edges_ok ix k (hn_layers (h_nodes ix ! j) ! k)"
    using assms(1) v re by (simp add: graph_ok_def relinked_valid)
  ultimately show "edges_ok (set_layer ix i l ns) k (hn_layers (h_nodes (set_layer ix i l ns) ! j) ! k)"
    using assms(3) re by (simp add: relinked_edges)
qed

lemma set_layer_twice: "set_layer (set_layer ix i l a) i l b = set_layer ix i l b"
  by (cases "i < length (h_nodes ix)") (simp_all add: set_layer_def list_update_beyond)

lemma set_heap_fold: "set (foldl (\<lambda>h n. heap_push (g n, n) h) h ns) = set h \<union> (\<lambda>n. (g n, n)) ` set ns"
  by (induction ns arbitrary: h) auto

lemma layer_of_set_layer: "valid ix l i \<Longrightarrow> layer_of (set_layer ix i l ns) i l = ns"
  by (simp add: layer_of_def set_layer_def valid_def)

lemma link_back_ok:
  assumes "rt_ok rt" "graph_ok ix" "valid ix lc node_idx"
  shows "graph_ok (link_back rt node_idx lc ix nbr) \<and> relinked ix (link_back rt node_idx lc ix nbr)"
proof (cases "valid ix lc nbr")
  case False
  then show ?thesis using assms(2) by (auto simp: link_back_def valid_def)
next
  case True
  let ?ns = "layer_of ix nbr lc @ [node_idx]"
  let ?ix1 = "set_layer ix nbr lc ?ns"
  have valid_ns: "\<forall>n \<in> set ?ns. valid ix lc n" using layer_of_valid [OF assms(2)] assms(3) by auto
  have lay: "layer_of ?ix1 nbr lc = ?ns" using True by (rule layer_of_set_layer)
  show ?thesis
  proof (cases "length ?ns \<le> m_at ix lc")
    case le: True
    then have "edges_ok ix lc ?ns" using valid_ns by (simp add: edges_ok_def)
    then show ?thesis
      using True le lay set_layer_ok [OF assms(2) True] set_layer_relinked [OF True]
      by (simp add: link_back_def valid_def Let_def)
  next
    case gt: False
    define heap where "heap = foldl (\<lambda>h n. heap_push
      (simd_distance rt (h_metric ?ix1) (vec_of ?ix1 nbr) (vec_of ?ix1 n), n) h) [] ?ns"
    let ?sel = "select_neighbors_configured rt ?ix1 heap (m_at ix lc)"
    have "snd ` set heap = set ?ns" by (auto simp: heap_def set_heap_fold image_image)
    then have sel: "edges_ok ix lc ?sel"
      using select_configured_ok [OF assms(1), of ?ix1 heap "m_at ix lc"] valid_ns
      unfolding edges_ok_def by blast
    have "link_back rt node_idx lc ix nbr = set_layer ?ix1 nbr lc ?sel"
      using True gt lay
      by (simp add: link_back_def prune_connections_def valid_def Let_def heap_def)
    then have "link_back rt node_idx lc ix nbr = set_layer ix nbr lc ?sel"
      by (simp only: set_layer_twice)
    then show ?thesis using set_layer_ok [OF assms(2) True sel] set_layer_relinked [OF True] by simp
  qed
qed

lemma link_backs_ok:
  "rt_ok rt \<Longrightarrow> graph_ok ix \<Longrightarrow> valid ix lc node_idx \<Longrightarrow>
   graph_ok (foldl (link_back rt node_idx lc) ix nbrs) \<and> relinked ix (foldl (link_back rt node_idx lc) ix nbrs)"
proof (induction nbrs arbitrary: ix)
  case (Cons nbr nbrs)
  let ?ix = "link_back rt node_idx lc ix nbr"
  have 1: "graph_ok ?ix" "relinked ix ?ix" using link_back_ok Cons.prems by blast+
  then have "valid ?ix lc node_idx" using Cons.prems(3) by (simp add: relinked_valid)
  from Cons.IH [OF Cons.prems(1) 1(1) this] show ?case using relinked_trans [OF 1(2)] by simp
qed simp

lemma link_layers_ok:
  "rt_ok rt \<Longrightarrow> graph_ok ix \<Longrightarrow> \<forall>lc \<in> set lcs. valid ix lc node_idx \<Longrightarrow>
   graph_ok (foldl (\<lambda>s lc. foldl (link_back rt node_idx lc) s (layer_of s node_idx lc)) ix lcs) \<and>
   relinked ix (foldl (\<lambda>s lc. foldl (link_back rt node_idx lc) s (layer_of s node_idx lc)) ix lcs)"
proof (induction lcs arbitrary: ix)
  case (Cons lc lcs)
  let ?ix = "foldl (link_back rt node_idx lc) ix (layer_of ix node_idx lc)"
  have 1: "graph_ok ?ix" "relinked ix ?ix" using link_backs_ok Cons.prems by auto
  then have "\<forall>lc \<in> set lcs. valid ?ix lc node_idx" using Cons.prems(3) by (simp add: relinked_valid)
  from Cons.IH [OF Cons.prems(1) 1(1) this] show ?case using relinked_trans [OF 1(2)] by simp
qed simp

text \<open>The graph with the new node in place, before the reverse edges.\<close>

definition add_node :: "hnsw \<Rightarrow> insertion_plan \<Rightarrow> hnsw" where
  "add_node ix p = ix\<lparr>h_nodes := h_nodes ix @ [\<lparr>hn_id = plan_id p, hn_layers = plan_neighbours p\<rparr>],
     h_data := h_data ix @ plan_vector p,
     h_id_to_node := hm_insert (plan_id p) (length (h_nodes ix)) (h_id_to_node ix),
     h_deleted := h_deleted ix - {plan_id p}\<rparr>"

definition relink :: "rt \<Rightarrow> hnsw \<Rightarrow> nat \<Rightarrow> nat \<Rightarrow> hnsw" where
  "relink rt ix node_idx n =
     foldl (\<lambda>s lc. foldl (link_back rt node_idx lc) s (layer_of s node_idx lc)) ix [0..<n]"

definition same_hparams :: "hnsw \<Rightarrow> hnsw \<Rightarrow> bool" where
  "same_hparams a b \<longleftrightarrow> h_dim a = h_dim b \<and> h_metric a = h_metric b \<and> h_m a = h_m b \<and> h_m0 a = h_m0 b \<and>
     h_ef_construction a = h_ef_construction b \<and> h_ef_search a = h_ef_search b \<and>
     h_use_heuristic a = h_use_heuristic b"

definition grows :: "hnsw \<Rightarrow> hnsw \<Rightarrow> bool" where
  "grows ix ix' \<longleftrightarrow> same_hparams ix' ix \<and> (\<forall>l i. valid ix l i \<longrightarrow> valid ix' l i)"

lemma commit_insert_eq:
  "commit_insert rt ix p =
     (let ix2 = relink rt (add_node ix p) (length (h_nodes ix)) (length (plan_neighbours p))
      in if h_entry_point ix2 = None \<or> plan_level p > h_max_level ix2
         then ix2\<lparr>h_entry_point := Some (length (h_nodes ix)), h_max_level := plan_level p\<rparr> else ix2)"
proof -
  have "(let ix0 = (if hm_get (h_id_to_node ix) (plan_id p) \<noteq> None
        then ix\<lparr>h_deleted := insert (plan_id p) (h_deleted ix)\<rparr> else ix)
      in ix0\<lparr>h_nodes := h_nodes ix0 @ [\<lparr>hn_id = plan_id p, hn_layers = plan_neighbours p\<rparr>],
        h_data := h_data ix0 @ plan_vector p,
        h_id_to_node := hm_insert (plan_id p) (length (h_nodes ix0)) (h_id_to_node ix0),
        h_deleted := h_deleted ix0 - {plan_id p}\<rparr>) = add_node ix p"
    by (cases "hm_get (h_id_to_node ix) (plan_id p)") (simp_all add: add_node_def Let_def)
  moreover have "length (h_nodes (if hm_get (h_id_to_node ix) (plan_id p) \<noteq> None
      then ix\<lparr>h_deleted := insert (plan_id p) (h_deleted ix)\<rparr> else ix)) = length (h_nodes ix)"
    by simp
  ultimately show ?thesis by (simp only: commit_insert_def relink_def Let_def)
qed

lemma grows_edges: "grows ix ix' \<Longrightarrow> edges_ok ix l ns \<Longrightarrow> edges_ok ix' l ns"
  by (auto simp: grows_def edges_ok_def m_at_def same_hparams_def)

lemma grows_refl [simp]: "grows ix ix"
  by (simp add: grows_def same_hparams_def)

lemma grows_trans: "grows a b \<Longrightarrow> grows b c \<Longrightarrow> grows a c"
  by (simp add: grows_def same_hparams_def)

lemma grows_plan: "grows ix ix' \<Longrightarrow> plan_ok ix p \<Longrightarrow> plan_ok ix' p"
  by (auto simp: plan_ok_def intro: grows_edges) (simp add: grows_def same_hparams_def)

lemma relinked_grows: "relinked ix ix' \<Longrightarrow> grows ix ix'"
  by (auto simp: grows_def relinked_valid) (auto simp: relinked_def same_hparams_def)

lemma add_node_entry:
  "h_entry_point (add_node ix p) = h_entry_point ix" "h_max_level (add_node ix p) = h_max_level ix"
  by (simp_all add: add_node_def)

lemma add_node_grows: "grows ix (add_node ix p)"
  by (auto simp: grows_def same_hparams_def add_node_def valid_def nth_append)

lemma relinked_length: "relinked ix ix' \<Longrightarrow> length (h_nodes ix') = length (h_nodes ix)"
proof -
  assume "relinked ix ix'"
  then have "length (shape ix') = length (shape ix)" by (simp add: relinked_def)
  then show ?thesis by (simp add: shape_def)
qed

lemma relinked_node:
  assumes "relinked ix ix'" "i < length (h_nodes ix)"
  shows "hn_id (h_nodes ix' ! i) = hn_id (h_nodes ix ! i) \<and>
    length (hn_layers (h_nodes ix' ! i)) = length (hn_layers (h_nodes ix ! i))"
proof -
  have "shape ix' ! i = (hn_id (h_nodes ix' ! i), length (hn_layers (h_nodes ix' ! i)))"
    using assms relinked_length [OF assms(1)] by (simp add: shape_def)
  moreover have "shape ix ! i = (hn_id (h_nodes ix ! i), length (hn_layers (h_nodes ix ! i)))"
    using assms by (simp add: shape_def)
  moreover have "shape ix' = shape ix" using assms by (simp add: relinked_def)
  ultimately show ?thesis by simp
qed

lemma relinked_fields:
  assumes "relinked ix ix'"
  shows "h_data ix' = h_data ix" "h_id_to_node ix' = h_id_to_node ix" "h_deleted ix' = h_deleted ix"
    "h_entry_point ix' = h_entry_point ix" "h_max_level ix' = h_max_level ix" "h_dim ix' = h_dim ix"
  using assms by (auto simp: relinked_def)

lemma add_node_graph:
  assumes "hnsw_ok ix" "plan_ok ix p"
  shows "graph_ok (add_node ix p)"
  unfolding graph_ok_def
proof (intro allI impI)
  fix i l assume v: "valid (add_node ix p) l i"
  let ?ns = "hn_layers (h_nodes (add_node ix p) ! i) ! l"
  have "edges_ok ix l ?ns"
  proof (cases "i < length (h_nodes ix)")
    case True
    then show ?thesis using v assms(1)
      by (simp add: add_node_def valid_def nth_append hnsw_ok_def graph_ok_def)
  next
    case False
    then have "i = length (h_nodes ix)" "l < length (plan_neighbours p)"
      using v by (auto simp: add_node_def valid_def nth_append split: if_splits)
    then show ?thesis using assms(2) by (simp add: add_node_def plan_ok_def)
  qed
  then show "edges_ok (add_node ix p) l ?ns" by (rule grows_edges [OF add_node_grows])
qed

lemma add_node_ids: "ids_ok ix \<Longrightarrow> ids_ok (add_node ix p)"
  unfolding ids_ok_def
proof (intro conjI allI impI; (elim conjE)?)
  assume "hm_ok (h_id_to_node ix)"
  then show "hm_ok (h_id_to_node (add_node ix p))" by (simp add: add_node_def hash_simps)
next
  fix y i
  assume a: "\<forall>y i. hm_get (h_id_to_node ix) y = Some i \<longrightarrow> i < length (h_nodes ix) \<and> hn_id (h_nodes ix ! i) = y"
    "hm_get (h_id_to_node (add_node ix p)) y = Some i"
  then show "i < length (h_nodes (add_node ix p))" "hn_id (h_nodes (add_node ix p) ! i) = y"
    by (fastforce simp: add_node_def hash_simps nth_append less_Suc_eq split: if_splits)+
next
  fix i
  assume "\<forall>i < length (h_nodes ix). hm_get (h_id_to_node ix) (hn_id (h_nodes ix ! i)) \<noteq> None"
    "i < length (h_nodes (add_node ix p))"
  then show "hm_get (h_id_to_node (add_node ix p)) (hn_id (h_nodes (add_node ix p) ! i)) \<noteq> None"
    by (auto simp: add_node_def hash_simps nth_append less_Suc_eq)
next
  assume "h_deleted ix \<subseteq> dom (hm_get (h_id_to_node ix))"
  then show "h_deleted (add_node ix p) \<subseteq> dom (hm_get (h_id_to_node (add_node ix p)))"
    by (auto simp: add_node_def hash_simps subset_iff domIff)
qed

lemma add_node_get:
  assumes ok: "hnsw_ok ix" and v: "length (plan_vector p) = h_dim ix"
  shows "hnsw_get (add_node ix p) z = ((hnsw_get ix)(plan_id p \<mapsto> plan_vector p)) z"
proof -
  have data: "length (h_data ix) = length (h_nodes ix) * h_dim ix" using ok by (simp add: hnsw_ok_def)
  have ids: "hm_get (h_id_to_node ix) z = Some i \<Longrightarrow> i < length (h_nodes ix)" for i
    using ok by (simp add: hnsw_ok_def ids_ok_def)
  show ?thesis
  proof (cases "z = plan_id p")
    case True
    then show ?thesis using row_append_last [OF data v] by (simp add: hnsw_get_def add_node_def hash_simps)
  next
    case False
    then show ?thesis using row_append_left [OF data] ids
      by (auto simp: hnsw_get_def add_node_def hash_simps split: option.split)
  qed
qed

lemma relinked_ids: "relinked ix ix' \<Longrightarrow> ids_ok ix \<Longrightarrow> ids_ok ix'"
  by (simp add: ids_ok_def relinked_length relinked_node relinked_fields)

text \<open>An insertion binds its id to its vector and nothing else, and keeps the invariant.\<close>

lemma commit_insert_ok:
  assumes rt: "rt_ok rt" and ok: "hnsw_ok ix" and p: "plan_ok ix p"
  shows "hnsw_ok (commit_insert rt ix p) \<and> grows ix (commit_insert rt ix p) \<and>
    h_entry_point (commit_insert rt ix p) \<noteq> None \<and>
    hnsw_get (commit_insert rt ix p) = (hnsw_get ix)(plan_id p \<mapsto> plan_vector p)"
proof -
  let ?n = "length (h_nodes ix)" and ?ix1 = "add_node ix p"
  let ?ix2 = "relink rt ?ix1 ?n (length (plan_neighbours p))"
  let ?ix' = "commit_insert rt ix p"
  have len: "length (plan_neighbours p) = plan_level p + 1" "length (plan_vector p) = h_dim ix"
      "plan_level p \<le> MAX_LEVEL"
    using p by (simp_all add: plan_ok_def)
  have new: "\<forall>lc \<in> set [0..<length (plan_neighbours p)]. valid ?ix1 lc ?n"
    by (simp add: add_node_def valid_def)
  have re: "graph_ok ?ix2" "relinked ?ix1 ?ix2"
    using link_layers_ok [OF rt add_node_graph [OF ok p] new] by (simp_all add: relink_def)
  note nodes = relinked_length [OF re(2)] relinked_node [OF re(2)] and fields = relinked_fields [OF re(2)]
  have n2: "length (h_nodes ?ix2) = Suc ?n" using nodes(1) by (simp add: add_node_def)
  have lay: "length (hn_layers (h_nodes ?ix2 ! i)) =
      (if i < ?n then length (hn_layers (h_nodes ix ! i)) else plan_level p + 1)" if "i < Suc ?n" for i
    using nodes(2) [of i] that len(1) by (auto simp: add_node_def nth_append)
  obtain e ml where ix': "?ix' = ?ix2\<lparr>h_entry_point := e, h_max_level := ml\<rparr>"
      and e: "e = Some ?n \<and> ml = plan_level p \<or> e \<noteq> None \<and> e = h_entry_point ix \<and> ml = h_max_level ix"
  proof (cases "h_entry_point ?ix2 = None \<or> plan_level p > h_max_level ?ix2")
    case True
    then show thesis
      by (intro that [of "plan_level p" "Some ?n"]) (simp_all add: commit_insert_eq Let_def)
  next
    case False
    then have "?ix' = ?ix2\<lparr>h_entry_point := h_entry_point ?ix2, h_max_level := h_max_level ?ix2\<rparr>"
      by (auto simp: commit_insert_eq Let_def)
    then show thesis using False fields(4,5)
      by (intro that [of "h_max_level ix" "h_entry_point ix"]) (simp_all add: add_node_entry)
  qed
  have valid': "valid ?ix' = valid ?ix2" by (simp add: ix')
  have "graph_ok ?ix'" using re(1) by (simp add: ix')
  moreover have "ids_ok ?ix'"
    using relinked_ids [OF re(2) add_node_ids] ok by (simp add: ids_ok_def ix' hnsw_ok_def)
  moreover have "entry_ok ?ix'"
    using e
  proof
    assume "e = Some ?n \<and> ml = plan_level p"
    then show ?thesis using lay [of ?n] n2 by (simp add: entry_ok_def ix')
  next
    assume a: "e \<noteq> None \<and> e = h_entry_point ix \<and> ml = h_max_level ix"
    then obtain ep where ep: "e = Some ep" by blast
    then have "ep < ?n" "length (hn_layers (h_nodes ix ! ep)) = ml + 1"
      using ok a by (simp_all add: hnsw_ok_def entry_ok_def)
    then show ?thesis using lay [of ep] n2 ep by (simp add: entry_ok_def ix')
  qed
  moreover have "length (h_data ?ix') = length (h_nodes ?ix') * h_dim ?ix'"
    using ok n2 len(2) fields by (simp add: ix' hnsw_ok_def add_node_def)
  moreover have "\<forall>i < length (h_nodes ?ix'). hn_layers (h_nodes ?ix' ! i) \<noteq> [] \<and>
      length (hn_layers (h_nodes ?ix' ! i)) \<le> MAX_LEVEL + 1"
  proof (intro allI impI)
    fix i assume "i < length (h_nodes ?ix')"
    then have i: "i < Suc ?n" using n2 by (simp add: ix')
    have "0 < length (hn_layers (h_nodes ?ix2 ! i)) \<and> length (hn_layers (h_nodes ?ix2 ! i)) \<le> MAX_LEVEL + 1"
      unfolding lay [OF i] using ok len(3) by (simp add: hnsw_ok_def)
    then show "hn_layers (h_nodes ?ix' ! i) \<noteq> [] \<and> length (hn_layers (h_nodes ?ix' ! i)) \<le> MAX_LEVEL + 1"
      by (simp add: ix')
  qed
  moreover have gr: "grows ix ?ix'"
  proof -
    have "grows ?ix2 ?ix'" by (simp add: grows_def valid' same_hparams_def ix')
    then show ?thesis using add_node_grows relinked_grows [OF re(2)] grows_trans by blast
  qed
  moreover have "hnsw_params_ok ?ix'"
    using gr ok by (simp add: grows_def same_hparams_def hnsw_params_ok_def hnsw_ok_def)
  moreover have "hnsw_get ?ix' z = ((hnsw_get ix)(plan_id p \<mapsto> plan_vector p)) z" for z
  proof -
    have "hnsw_get ?ix' z = hnsw_get ?ix1 z" by (simp add: hnsw_get_def ix' fields split: option.split)
    then show ?thesis using add_node_get [OF ok len(2)] by simp
  qed
  ultimately show ?thesis using e by (auto simp: hnsw_ok_def ix')
qed

section \<open>Insertion and bulk build\<close>

lemma plan_insert_fields [simp]:
  "plan_id (plan_insert rt ix y v level) = y" "plan_vector (plan_insert rt ix y v level) = v"
  by (simp_all add: plan_insert_def Let_def split: option.split)

lemma hnsw_insert_ok:
  assumes "rt_ok rt" "hnsw_ok ix" "hnsw_insert rt l ix y v = Inr ix'"
  shows "hnsw_ok ix' \<and> grows ix ix' \<and> hnsw_get ix' = (hnsw_get ix)(y \<mapsto> v)"
proof -
  have "length v = h_dim ix" and ix': "ix' = commit_insert rt ix (plan_insert rt ix y v (min l MAX_LEVEL))"
    using assms(3) by (auto simp: hnsw_insert_def split: if_splits)
  then have "plan_ok ix (plan_insert rt ix y v (min l MAX_LEVEL))"
    using plan_insert_ok [OF assms(1,2), of v "min l MAX_LEVEL" y] by simp
  then show ?thesis using commit_insert_ok [OF assms(1,2)] ix' by fastforce
qed

lemma hnsw_insert_total: "length v = h_dim ix \<Longrightarrow> \<exists>ix'. hnsw_insert rt l ix y v = Inr ix'"
  by (simp add: hnsw_insert_def)

lemma commits_ok:
  "rt_ok rt \<Longrightarrow> hnsw_ok ix \<Longrightarrow> \<forall>p \<in> set plans. plan_ok ix p \<Longrightarrow>
   hnsw_ok (foldl (commit_insert rt) ix plans) \<and> grows ix (foldl (commit_insert rt) ix plans) \<and>
   hnsw_get (foldl (commit_insert rt) ix plans) =
     foldl (\<lambda>m (y, v). m(y \<mapsto> v)) (hnsw_get ix) (map (\<lambda>p. (plan_id p, plan_vector p)) plans)"
proof (induction plans arbitrary: ix)
  case (Cons p plans)
  let ?ix = "commit_insert rt ix p"
  have 1: "hnsw_ok ?ix" "grows ix ?ix" "hnsw_get ?ix = (hnsw_get ix)(plan_id p \<mapsto> plan_vector p)"
    using commit_insert_ok [of rt ix p] Cons.prems by auto
  then have "\<forall>p \<in> set plans. plan_ok ?ix p" using Cons.prems(3) grows_plan by auto
  from Cons.IH [OF Cons.prems(1) 1(1) this] show ?case using 1 grows_trans [OF 1(2)] by auto
qed simp

lemma hnsw_waves_ok:
  "rt_ok rt \<Longrightarrow> hnsw_ok ix \<Longrightarrow> \<forall>(y, v, l) \<in> set rs. length v = h_dim ix \<and> l \<le> MAX_LEVEL \<Longrightarrow>
   hnsw_ok (hnsw_waves rt ix rs) \<and> grows ix (hnsw_waves rt ix rs) \<and>
   hnsw_get (hnsw_waves rt ix rs) = foldl (\<lambda>m (y, v). m(y \<mapsto> v)) (hnsw_get ix) (map (\<lambda>(y, v, l). (y, v)) rs)"
proof (induction rt ix rs rule: hnsw_waves.induct)
  case (2 rt ix r rs)
  let ?n = "max (num_threads rt) 1" and ?rs = "r # rs"
  let ?plans = "map (\<lambda>(y, v, l). plan_insert rt ix y v l) (take ?n ?rs)"
  let ?ix = "foldl (commit_insert rt) ix ?plans"
  have "plan_ok ix (plan_insert rt ix y v l)" if "(y, v, l) \<in> set (take ?n ?rs)" for y v l
    using plan_insert_ok [OF "2.prems"(1,2)] "2.prems"(3) in_set_takeD [OF that] by auto
  then have "\<forall>p \<in> set ?plans. plan_ok ix p" by auto
  from commits_ok [OF "2.prems"(1,2) this]
  have 1: "hnsw_ok ?ix" "grows ix ?ix" "hnsw_get ?ix =
      foldl (\<lambda>m (y, v). m(y \<mapsto> v)) (hnsw_get ix) (map (\<lambda>(y, v, l). (y, v)) (take ?n ?rs))"
    by (auto simp: comp_def case_prod_unfold)
  have "h_dim ?ix = h_dim ix" using 1(2) by (simp add: grows_def same_hparams_def)
  moreover have "\<forall>(y, v, l) \<in> set (drop ?n ?rs). length v = h_dim ix \<and> l \<le> MAX_LEVEL"
    by (rule ballI, rule bspec [OF "2.prems"(3)], erule in_set_dropD)
  ultimately have "\<forall>(y, v, l) \<in> set (drop ?n ?rs). length v = h_dim ?ix \<and> l \<le> MAX_LEVEL"
    by (simp only:)
  from "2.IH" [OF refl refl refl "2.prems"(1) 1(1) this]
  have 2: "hnsw_ok (hnsw_waves rt ?ix (drop ?n ?rs))" "grows ?ix (hnsw_waves rt ?ix (drop ?n ?rs))"
      "hnsw_get (hnsw_waves rt ?ix (drop ?n ?rs)) =
        foldl (\<lambda>m (y, v). m(y \<mapsto> v)) (hnsw_get ?ix) (map (\<lambda>(y, v, l). (y, v)) (drop ?n ?rs))" by blast+
  have w: "hnsw_waves rt ix ?rs = hnsw_waves rt ?ix (drop ?n ?rs)" by (simp only: hnsw_waves.simps Let_def)
  have get: "hnsw_get (hnsw_waves rt ?ix (drop ?n ?rs)) =
      foldl (\<lambda>m (y, v). m(y \<mapsto> v)) (hnsw_get ix) (map (\<lambda>(y, v, l). (y, v)) ?rs)"
    unfolding 2(3) 1(3) foldl_append [symmetric] map_append [symmetric] append_take_drop_id ..
  show ?case unfolding w by (intro conjI 2(1) grows_trans [OF 1(2) 2(2)] get)
qed simp

lemma build_from_vecs_err:
  "\<not> (\<forall>(y, v) \<in> set vs. length v = h_dim ix) \<Longrightarrow>
    \<exists>n. build_from_vecs rt ls ix vs = (Inl (DimMismatch (h_dim ix) n), ix)"
proof -
  assume "\<not> (\<forall>(y, v) \<in> set vs. length v = h_dim ix)"
  then have "find (\<lambda>x. length (snd x) \<noteq> h_dim ix) vs \<noteq> None" by (auto simp: find_None_iff)
  then show ?thesis by (auto simp: build_from_vecs_def)
qed

lemma build_from_vecs_ok:
  assumes "rt_ok rt" "hnsw_ok ix" "\<forall>(y, v) \<in> set vs. length v = h_dim ix"
  shows "\<exists>ix'. build_from_vecs rt ls ix vs = (Inr (), ix') \<and> hnsw_ok ix' \<and> grows ix ix' \<and>
    hnsw_get ix' = hnsw_get ix ++ map_of (rev vs)"
proof -
  have "find (\<lambda>x. length (snd x) \<noteq> h_dim ix) vs = None"
    using assms(3) by (auto simp: find_None_iff)
  define rows where "rows = map (\<lambda>i. (fst (vs ! i), snd (vs ! i), min (ls i) MAX_LEVEL)) [0..<length vs]"
  have rows: "map (\<lambda>(y, v, l). (y, v)) rows = vs"
    by (rule nth_equalityI) (simp_all add: rows_def)
  have "length (snd (vs ! i)) = h_dim ix" if "i < length vs" for i
    using assms(3) that nth_mem [OF that] by fastforce
  then have rows_ok: "\<forall>(y, v, l) \<in> set rows. length v = h_dim ix \<and> l \<le> MAX_LEVEL"
    by (auto simp: rows_def)
  show ?thesis
  proof (cases rows)
    case Nil
    then show ?thesis using assms(2) rows by (auto simp: build_from_vecs_def)
  next
    case (Cons r rest)
    obtain y v l where r: "r = (y, v, l)" by (cases r)
    let ?one = "commit_insert rt ix (plan_insert rt ix y v l)"
    show ?thesis
    proof (cases "h_entry_point ix")
      case None
      have "plan_ok ix (plan_insert rt ix y v l)"
        using rows_ok Cons r plan_insert_ok [OF assms(1,2)] by simp
      from commit_insert_ok [OF assms(1,2) this]
      have 1: "hnsw_ok ?one" "grows ix ?one" "hnsw_get ?one = (hnsw_get ix)(y \<mapsto> v)" by auto
      have "\<forall>(y, v, l) \<in> set rest. length v = h_dim ?one \<and> l \<le> MAX_LEVEL"
        using rows_ok Cons 1(2) by (auto simp: grows_def same_hparams_def)
      from hnsw_waves_ok [OF assms(1) 1(1) this] grows_trans [OF 1(2)]
      have 2: "hnsw_ok (hnsw_waves rt ?one rest)" "grows ix (hnsw_waves rt ?one rest)"
          "hnsw_get (hnsw_waves rt ?one rest) = hnsw_get ix ++ map_of (rev vs)"
        using 1(3) Cons r unfolding rows [symmetric] foldl_map_upd [symmetric] by auto
      have "build_from_vecs rt ls ix vs = (Inr (), hnsw_waves rt ?one rest)"
        using \<open>find _ vs = None\<close> None Cons r by (simp add: build_from_vecs_def Let_def rows_def [symmetric])
      then show ?thesis using 2 by blast
    next
      case (Some ep)
      have "build_from_vecs rt ls ix vs = (Inr (), hnsw_waves rt ix rows)"
        using \<open>find _ vs = None\<close> Some Cons r
        by (simp add: build_from_vecs_def Let_def rows_def [symmetric])
      then show ?thesis
        using hnsw_waves_ok [OF assms(1,2) rows_ok] rows by (simp add: foldl_map_upd)
    qed
  qed
qed

section \<open>Deletion\<close>

lemma find_SomeD: "find P xs = Some x \<Longrightarrow> x \<in> set xs \<and> P x"
  by (induction xs) (auto split: if_splits)

lemma hnsw_delete_ok:
  assumes ok: "hnsw_ok ix" and del: "hnsw_delete ix y = (b, ix')"
  shows "hnsw_ok ix' \<and> grows ix ix' \<and> b = (hnsw_get ix y \<noteq> None) \<and> hnsw_get ix' = (hnsw_get ix)(y := None)"
proof (cases "hm_get (h_id_to_node ix) y = None \<or> y \<in> h_deleted ix")
  case True
  then have "hnsw_get ix y = None" by (auto simp: hnsw_get_def)
  then show ?thesis using True del ok by (auto simp: hnsw_delete_def)
next
  case False
  let ?ix1 = "ix\<lparr>h_deleted := insert y (h_deleted ix)\<rparr>"
  let ?new = "find (\<lambda>i. hn_id (h_nodes ?ix1 ! i) \<notin> h_deleted ?ix1) (rev [0..<length (h_nodes ?ix1)])"
  have ids: "ids_ok ix" using ok by (simp add: hnsw_ok_def)
  obtain e ml where ix': "ix' = ?ix1\<lparr>h_entry_point := e, h_max_level := ml\<rparr>" "b"
    and e: "e = ?new \<and> ml = (case ?new of Some ep \<Rightarrow> length (hn_layers (h_nodes ix ! ep)) - 1 | None \<Rightarrow> 0) \<or>
      (\<exists>ep. h_entry_point ix = Some ep \<and> e = Some ep \<and> ml = h_max_level ix)"
  proof (cases "h_entry_point ix")
    case None
    then have "dom (hm_get (h_id_to_node ix)) = h_deleted ix" using ok by (simp add: hnsw_ok_def entry_ok_def)
    then show thesis using False by blast
  next
    case (Some ep)
    show thesis
    proof (cases "hn_id (h_nodes ix ! ep) = y")
      case True
      then show thesis using False Some del
        by (intro that [of "case ?new of Some ep \<Rightarrow> length (hn_layers (h_nodes ix ! ep)) - 1 | None \<Rightarrow> 0" ?new])
          (auto simp: hnsw_delete_def Let_def cong: option.case_cong)
    next
      case neq: False
      then have "ix' = ?ix1" "b" using False Some del by (auto simp: hnsw_delete_def Let_def)
      then show thesis using Some by (intro that [of "h_max_level ix" "h_entry_point ix"]) auto
    qed
  qed
  have "hnsw_get ix y \<noteq> None" using False by (auto simp: hnsw_get_def)
  moreover have "hnsw_get ix' = (hnsw_get ix)(y := None)"
    by (auto simp: hnsw_get_def ix' fun_eq_iff split: option.split)
  moreover have gr: "grows ix ix'" by (simp add: grows_def same_hparams_def ix')
  moreover have "entry_ok ix'"
    using e
  proof
    assume new: "e = ?new \<and> ml = (case ?new of Some ep \<Rightarrow> length (hn_layers (h_nodes ix ! ep)) - 1 | None \<Rightarrow> 0)"
    show ?thesis
    proof (cases "?new")
      case None
      then have all: "\<forall>i < length (h_nodes ix). hn_id (h_nodes ix ! i) \<in> insert y (h_deleted ix)"
        by (auto simp: find_None_iff)
      have "dom (hm_get (h_id_to_node ix)) = insert y (h_deleted ix)"
      proof
        show "dom (hm_get (h_id_to_node ix)) \<subseteq> insert y (h_deleted ix)"
          using all ids by (force simp: ids_ok_def)
        show "insert y (h_deleted ix) \<subseteq> dom (hm_get (h_id_to_node ix))"
          using ids False by (auto simp: ids_ok_def)
      qed
      then show ?thesis using new None by (simp add: entry_ok_def ix')
    next
      case (Some ep)
      then have "ep < length (h_nodes ix)" using find_SomeD [OF Some] by simp
      then have "hn_layers (h_nodes ix ! ep) \<noteq> []" using ok by (simp add: hnsw_ok_def)
      then show ?thesis using new Some \<open>ep < length (h_nodes ix)\<close> by (simp add: entry_ok_def ix')
    qed
  next
    assume "\<exists>ep. h_entry_point ix = Some ep \<and> e = Some ep \<and> ml = h_max_level ix"
    then show ?thesis using ok by (auto simp: entry_ok_def ix' hnsw_ok_def)
  qed
  moreover have "ids_ok ix'" using ids False by (auto simp: ids_ok_def ix')
  ultimately show ?thesis using ok ix'(2) by (simp add: hnsw_ok_def hnsw_params_ok_def ix'(1))
qed

section \<open>Search\<close>

text \<open>Every node is the current one of its id: no node left behind by an overwrite.\<close>

definition canonical :: "hnsw \<Rightarrow> bool" where
  "canonical ix \<longleftrightarrow> (\<forall>i < length (h_nodes ix). hm_get (h_id_to_node ix) (hn_id (h_nodes ix ! i)) = Some i)"

lemma canonicalD:
  "canonical ix \<Longrightarrow> i < length (h_nodes ix) \<Longrightarrow> hm_get (h_id_to_node ix) (hn_id (h_nodes ix ! i)) = Some i"
  by (simp add: canonical_def)

lemma hnsw_search_total: "length q = h_dim ix \<Longrightarrow> \<exists>rs. hnsw_search rt ix q k f = Inr rs"
  by (simp add: hnsw_search_def Let_def split: option.split)

text \<open>The rows of a search are nodes found in layer 0 whose id is live and passes the filter.\<close>

lemma hnsw_search_nodes:
  assumes "rt_ok rt" "hnsw_ok ix" "hnsw_search rt ix q k f = Inr rs"
  shows "length rs \<le> k \<and> sorted (score_keys rs) \<and>
    (\<exists>nodes. distinct nodes \<and> (\<forall>i \<in> set nodes. i < length (h_nodes ix) \<and>
        hn_id (h_nodes ix ! i) \<notin> h_deleted ix \<and> keep f (hn_id (h_nodes ix ! i))) \<and>
      mset rs \<subseteq># mset (map (\<lambda>i. result_of (node_dist rt ix q i, hn_id (h_nodes ix ! i))) nodes))"
proof (cases "k = 0 \<or> h_entry_point ix = None")
  case True
  then have "rs = []" using assms(3) by (auto simp: hnsw_search_def split: if_splits)
  then show ?thesis by (auto intro: exI [of _ "[]"])
next
  case False
  then obtain ep0 where ep0: "h_entry_point ix = Some ep0" "0 < k" by auto
  let ?ep = "greedy_descent rt ix q ep0 (rev [1..<h_max_level ix + 1])"
  let ?cand = "search_layer rt ix q [?ep] (max (h_ef_search ix) k) 0"
  let ?live = "filter (\<lambda>x. hn_id (h_nodes ix ! snd x) \<notin> h_deleted ix \<and> keep f (hn_id (h_nodes ix ! snd x)))
    (node_heap_iter rt ?cand)"
  let ?row = "\<lambda>x :: f32 \<times> nat. result_of (fst x, hn_id (h_nodes ix ! snd x))"
  have g: "graph_ok ix" and v0: "\<And>l. l \<le> h_max_level ix \<Longrightarrow> valid ix l ep0"
    using assms(2) ep0 by (auto simp: hnsw_ok_def entry_ok_def valid_def)
  have "valid ix 0 ?ep"
    by (rule greedy_descent_valid [OF assms(1) g sorted_rev_upt]) (auto simp: v0)
  then have heap: "layer_heap rt ix q (max (h_ef_search ix) k) 0 ?cand" by (rule search_layer_ok [OF g])
  have rs: "rs = take k (sort_results (map ?row ?live))"
    using assms(3) ep0 by (auto simp: hnsw_search_def Let_def split: if_splits)
  have "distinct (map snd (node_heap_iter rt ?cand))"
  proof (rule mset_sub_distinct)
    show "mset (map snd (node_heap_iter rt ?cand)) \<subseteq># mset (map snd ?cand)"
      using node_heap_iter_mset [OF assms(1), of ?cand] by simp
    show "distinct (map snd ?cand)" using heap by (simp add: layer_heap_def)
  qed
  then have 1: "distinct (map snd ?live)" by (simp add: distinct_map_filter)
  have mem: "valid ix 0 (snd x) \<and> fst x = node_dist rt ix q (snd x)" if "x \<in> set ?live" for x
    using heap that set_node_heap_iter [OF assms(1), of ?cand] by (auto simp: layer_heap_def)
  then have 2: "\<forall>i \<in> set (map snd ?live). i < length (h_nodes ix) \<and>
      hn_id (h_nodes ix ! i) \<notin> h_deleted ix \<and> keep f (hn_id (h_nodes ix ! i))"
    by (auto simp: valid_def)
  have eq: "map ?row ?live = map (\<lambda>i. result_of (node_dist rt ix q i, hn_id (h_nodes ix ! i))) (map snd ?live)"
    using mem by auto
  have "mset rs \<subseteq># mset (map ?row ?live)"
    using mset_take_subset [of k "sort_results (map ?row ?live)"] by (simp add: rs sort_results_def)
  then have 3: "mset rs \<subseteq># mset (map (\<lambda>i. result_of (node_dist rt ix q i, hn_id (h_nodes ix ! i))) (map snd ?live))"
    unfolding eq .
  have "length rs \<le> k" "sorted (score_keys rs)"
    by (simp_all add: rs sort_results_def sorted_wrt_take flip: take_map)
  then show ?thesis using 1 2 3 by blast
qed

lemma live_get:
  "hnsw_ok ix \<Longrightarrow> i < length (h_nodes ix) \<Longrightarrow> hn_id (h_nodes ix ! i) \<notin> h_deleted ix \<Longrightarrow>
   hnsw_get ix (hn_id (h_nodes ix ! i)) \<noteq> None"
  by (auto simp: hnsw_ok_def ids_ok_def hnsw_get_def)

lemma hnsw_search_sound:
  assumes "rt_ok rt" "hnsw_ok ix" "hnsw_search rt ix q k f = Inr rs" "r \<in> set rs"
  shows "hnsw_get ix (r_id r) \<noteq> None \<and> keep f (r_id r) \<and> r_payload r = None"
proof -
  obtain nodes where n: "\<forall>i \<in> set nodes. i < length (h_nodes ix) \<and>
        hn_id (h_nodes ix ! i) \<notin> h_deleted ix \<and> keep f (hn_id (h_nodes ix ! i))"
      "mset rs \<subseteq># mset (map (\<lambda>i. result_of (node_dist rt ix q i, hn_id (h_nodes ix ! i))) nodes)"
    using hnsw_search_nodes [OF assms(1-3)] by blast
  have "r \<in> set (map (\<lambda>i. result_of (node_dist rt ix q i, hn_id (h_nodes ix ! i))) nodes)"
    using n(2) assms(4) by (rule mset_sub_set)
  then obtain i where "i \<in> set nodes" "r = result_of (node_dist rt ix q i, hn_id (h_nodes ix ! i))" by auto
  then show ?thesis using n(1) live_get [OF assms(2)] by (simp add: result_of_def)
qed

text \<open>Without overwritten nodes, the rows are distinct ids with the distance of their current vector.\<close>

lemma hnsw_search_canonical:
  assumes "rt_ok rt" "hnsw_ok ix" "canonical ix" "hnsw_search rt ix q k f = Inr rs"
  shows "distinct (map r_id rs) \<and> (\<forall>r \<in> set rs. \<exists>v. hnsw_get ix (r_id r) = Some v \<and>
    r_score r = simd_distance rt (h_metric ix) q v)"
proof -
  obtain nodes where n: "distinct nodes" "\<forall>i \<in> set nodes. i < length (h_nodes ix) \<and>
        hn_id (h_nodes ix ! i) \<notin> h_deleted ix \<and> keep f (hn_id (h_nodes ix ! i))"
      "mset rs \<subseteq># mset (map (\<lambda>i. result_of (node_dist rt ix q i, hn_id (h_nodes ix ! i))) nodes)"
    using hnsw_search_nodes [OF assms(1,2,4)] by blast
  have "inj_on (\<lambda>i. hn_id (h_nodes ix ! i)) (set nodes)"
  proof (rule inj_onI)
    fix i j assume i: "i \<in> set nodes" and j: "j \<in> set nodes" and e: "hn_id (h_nodes ix ! i) = hn_id (h_nodes ix ! j)"
    have "hm_get (h_id_to_node ix) (hn_id (h_nodes ix ! i)) = Some i"
      by (rule canonicalD [OF assms(3)]) (use n(2) i in blast)
    moreover have "hm_get (h_id_to_node ix) (hn_id (h_nodes ix ! j)) = Some j"
      by (rule canonicalD [OF assms(3)]) (use n(2) j in blast)
    ultimately show "i = j" unfolding e by simp
  qed
  then have d: "distinct (map (\<lambda>i. hn_id (h_nodes ix ! i)) nodes)" using n(1) by (simp add: distinct_map)
  have "mset (map r_id rs) \<subseteq># mset (map (\<lambda>i. hn_id (h_nodes ix ! i)) nodes)"
    using image_mset_subseteq_mono [OF n(3), of r_id] by (simp add: multiset.map_comp comp_def result_of_def)
  then have 1: "distinct (map r_id rs)" using d by (rule mset_sub_distinct)
  have 2: "\<exists>v. hnsw_get ix (r_id r) = Some v \<and> r_score r = simd_distance rt (h_metric ix) q v"
    if "r \<in> set rs" for r
  proof -
    have "r \<in> set (map (\<lambda>i. result_of (node_dist rt ix q i, hn_id (h_nodes ix ! i))) nodes)"
      using n(3) that by (rule mset_sub_set)
    then obtain i where i: "i \<in> set nodes" "r = result_of (node_dist rt ix q i, hn_id (h_nodes ix ! i))" by auto
    then have "i < length (h_nodes ix)" "r_id r \<notin> h_deleted ix" and id: "r_id r = hn_id (h_nodes ix ! i)"
      using n(2) by (auto simp: result_of_def)
    then have "hm_get (h_id_to_node ix) (r_id r) = Some i" "r_id r \<notin> h_deleted ix"
      unfolding id by (auto intro: canonicalD [OF assms(3)])
    then have "hnsw_get ix (r_id r) = Some (vec_of ix i)" by (simp add: hnsw_get_def vec_of_def)
    then show ?thesis using i by (simp add: result_of_def node_dist_def)
  qed
  show ?thesis using 1 2 by blast
qed

section \<open>Counting and listing\<close>

lemma hnsw_get_dom: "ids_ok ix \<Longrightarrow> dom (hnsw_get ix) = dom (hm_get (h_id_to_node ix)) - h_deleted ix"
  by (auto simp: hnsw_get_def dom_def split: if_splits option.splits)

lemma hnsw_len_ok: "ids_ok ix \<Longrightarrow> hnsw_len ix = card (dom (hnsw_get ix))"
proof -
  assume ids: "ids_ok ix"
  then have "card (dom (hnsw_get ix)) = card (dom (hm_get (h_id_to_node ix))) - card (h_deleted ix)"
    unfolding hnsw_get_dom [OF ids]
    by (intro card_Diff_subset) (auto simp: ids_ok_def intro: finite_subset finite_dom_map_of)
  then show ?thesis using ids by (simp add: hnsw_len_def ids_ok_def hm_length)
qed

lemma hnsw_list_ids_ok:
  "rt_ok rt \<Longrightarrow> ids_ok ix \<Longrightarrow> distinct (hnsw_list_ids rt ix) \<and> set (hnsw_list_ids rt ix) = dom (hnsw_get ix)"
  unfolding hnsw_get_dom
  by (auto simp: hnsw_list_ids_def ids_ok_def hm_ok_def distinct_hash_iter set_hash_iter
      dom_map_of_conv_image_fst)

section \<open>Compaction\<close>

lemma hnsw_new_ok:
  "hnsw_new d m me efc efs = Inr ix \<Longrightarrow> hnsw_ok ix \<and> hnsw_get ix = Map.empty \<and> canonical ix \<and>
     h_dim ix = d \<and> h_metric ix = m \<and> h_m ix = me \<and> h_ef_construction ix = efc \<and> h_ef_search ix = efs"
  by (auto simp: hnsw_new_def hnsw_ok_def hnsw_params_ok_def graph_ok_def valid_def ids_ok_def entry_ok_def
      hnsw_get_def canonical_def hash_simps split: if_splits)

lemma with_heuristic_ok: "hnsw_ok ix \<Longrightarrow> hnsw_ok (with_heuristic ix b) \<and> hnsw_get (with_heuristic ix b) = hnsw_get ix"
  by (simp add: hnsw_ok_def hnsw_params_ok_def ids_ok_def entry_ok_def with_heuristic_def hnsw_get_def
      fun_eq_iff split: option.splits)

abbreviation live_vectors :: "hnsw \<Rightarrow> (vecid \<times> vec) list" where
  "live_vectors ix \<equiv> snd (hnsw_prepare_compaction ix)"

lemma live_vectors_ok:
  assumes "hnsw_ok ix"
  shows "distinct (map fst (live_vectors ix)) \<and> map_of (live_vectors ix) = hnsw_get ix \<and>
    (\<forall>(y, v) \<in> set (live_vectors ix). length v = h_dim ix)"
proof -
  let ?P = "\<lambda>i. hm_get (h_id_to_node ix) (hn_id (h_nodes ix ! i)) = Some i \<and> hn_id (h_nodes ix ! i) \<notin> h_deleted ix"
  let ?is = "filter ?P [0..<length (h_nodes ix)]"
  have live: "live_vectors ix = map (\<lambda>i. (hn_id (h_nodes ix ! i), vec_of ix i)) ?is"
    by (simp add: hnsw_prepare_compaction_def)
  have "inj_on (\<lambda>i. hn_id (h_nodes ix ! i)) (set ?is)"
  proof (rule inj_onI)
    fix i j assume i: "i \<in> set ?is" and j: "j \<in> set ?is" and e: "hn_id (h_nodes ix ! i) = hn_id (h_nodes ix ! j)"
    have "hm_get (h_id_to_node ix) (hn_id (h_nodes ix ! i)) = Some i" using i by simp
    moreover have "hm_get (h_id_to_node ix) (hn_id (h_nodes ix ! j)) = Some j" using j by simp
    ultimately show "i = j" unfolding e by simp
  qed
  then have d: "distinct (map fst (live_vectors ix))" by (simp add: live comp_def distinct_map)
  have ids: "hm_get (h_id_to_node ix) y = Some i \<Longrightarrow> i < length (h_nodes ix) \<and> hn_id (h_nodes ix ! i) = y" for y i
    using assms by (simp add: hnsw_ok_def ids_ok_def)
  have "map_of (live_vectors ix) y = hnsw_get ix y" for y
  proof (cases "hnsw_get ix y")
    case None
    then have "y \<notin> fst ` set (live_vectors ix)"
      by (auto simp: live hnsw_get_def split: if_splits option.splits)
    then show ?thesis using None by (simp add: map_of_eq_None_iff)
  next
    case (Some v)
    then obtain i where "hm_get (h_id_to_node ix) y = Some i" "v = vec_of ix i" "y \<notin> h_deleted ix"
      by (auto simp: hnsw_get_def vec_of_def split: if_splits option.splits)
    moreover from this have "i < length (h_nodes ix)" "hn_id (h_nodes ix ! i) = y" using ids by blast+
    ultimately have "i \<in> set ?is" "(y, v) = (hn_id (h_nodes ix ! i), vec_of ix i)" by simp_all
    then have "(y, v) \<in> set (live_vectors ix)" unfolding live set_map by (rule rev_image_eqI)
    then show ?thesis using d Some by (simp add: map_of_is_SomeI)
  qed
  then have "map_of (live_vectors ix) = hnsw_get ix" by auto
  moreover have "\<forall>(y, v) \<in> set (live_vectors ix). length v = h_dim ix"
    using assms by (auto simp: live vec_of_def hnsw_ok_def length_row [of _ "length (h_nodes ix)"])
  ultimately show ?thesis using d by blast
qed

text \<open>Compaction rebuilds exactly the live contents and never panics.\<close>

lemma hnsw_compact_ok:
  assumes "rt_ok rt" "hnsw_ok ix"
  shows "\<exists>s. hnsw_compact rt ls ix = Inr s \<and> hnsw_ok s \<and> hnsw_get s = hnsw_get ix \<and> h_dim s = h_dim ix"
proof -
  obtain r0 where r0: "hnsw_new (h_dim ix) (h_metric ix) (h_m ix) (h_ef_construction ix) (h_ef_search ix) = Inr r0"
    using assms(2) by (auto simp: hnsw_new_def hnsw_ok_def hnsw_params_ok_def)
  let ?r = "with_heuristic r0 (h_use_heuristic ix)"
  have r: "hnsw_ok ?r" "hnsw_get ?r = Map.empty" "h_dim ?r = h_dim ix"
    using hnsw_new_ok [OF r0] with_heuristic_ok [of r0] by (simp_all add: with_heuristic_def)
  obtain live where prep: "hnsw_prepare_compaction ix = (Inr ?r, live)"
    by (simp add: hnsw_prepare_compaction_def r0)
  then have live: "distinct (map fst live)" "map_of live = hnsw_get ix" "\<forall>(y, v) \<in> set live. length v = h_dim ?r"
    using live_vectors_ok [OF assms(2)] r(3) by simp_all
  obtain s where s: "build_from_vecs rt ls ?r live = (Inr (), s)" "hnsw_ok s" "grows ?r s"
      "hnsw_get s = hnsw_get ?r ++ map_of (rev live)"
    using build_from_vecs_ok [OF assms(1) r(1) live(3), of ls] by blast
  have "map_of (rev live) = hnsw_get ix" using live by (simp add: map_of_rev_distinct)
  then have "hnsw_compact rt ls ix = Inr s" "hnsw_get s = hnsw_get ix"
    using s r prep by (simp_all add: hnsw_compact_def)
  moreover have "h_dim s = h_dim ix" using s(3) r(3) by (simp add: grows_def same_hparams_def)
  ultimately show ?thesis using s(2) by blast
qed

section \<open>Building from distinct fresh ids leaves no overwritten node\<close>

lemma commit_insert_nodes:
  assumes "rt_ok rt" "hnsw_ok ix" "plan_ok ix p"
  shows "length (h_nodes (commit_insert rt ix p)) = Suc (length (h_nodes ix)) \<and>
    (\<forall>i < Suc (length (h_nodes ix)). hn_id (h_nodes (commit_insert rt ix p) ! i) =
        (if i = length (h_nodes ix) then plan_id p else hn_id (h_nodes ix ! i))) \<and>
    h_id_to_node (commit_insert rt ix p) = hm_insert (plan_id p) (length (h_nodes ix)) (h_id_to_node ix)"
proof -
  let ?n = "length (h_nodes ix)" and ?ix1 = "add_node ix p"
  let ?ix2 = "relink rt ?ix1 ?n (length (plan_neighbours p))"
  have new: "\<forall>lc \<in> set [0..<length (plan_neighbours p)]. valid ?ix1 lc ?n"
    by (simp add: add_node_def valid_def)
  have re: "relinked ?ix1 ?ix2"
    using link_layers_ok [OF assms(1) add_node_graph [OF assms(2,3)] new] by (simp add: relink_def)
  have "h_nodes (commit_insert rt ix p) = h_nodes ?ix2" "h_id_to_node (commit_insert rt ix p) = h_id_to_node ?ix2"
    by (simp_all add: commit_insert_eq Let_def)
  moreover have "length (h_nodes ?ix2) = Suc ?n" using relinked_length [OF re] by (simp add: add_node_def)
  moreover have "hn_id (h_nodes ?ix2 ! i) = (if i = ?n then plan_id p else hn_id (h_nodes ix ! i))" if "i < Suc ?n" for i
    using relinked_node [OF re, of i] that by (auto simp: add_node_def nth_append less_Suc_eq)
  moreover have "h_id_to_node ?ix2 = hm_insert (plan_id p) ?n (h_id_to_node ix)"
    using relinked_fields(2) [OF re] by (simp add: add_node_def)
  ultimately show ?thesis by simp
qed

definition node_ids :: "hnsw \<Rightarrow> vecid set" where
  "node_ids ix = dom (hm_get (h_id_to_node ix))"

lemma commit_canonical:
  assumes "rt_ok rt" "hnsw_ok ix" "plan_ok ix p" "canonical ix" "plan_id p \<notin> node_ids ix"
  shows "canonical (commit_insert rt ix p) \<and> node_ids (commit_insert rt ix p) = insert (plan_id p) (node_ids ix)"
proof -
  note n = commit_insert_nodes [OF assms(1-3)]
  have ids: "node_ids (commit_insert rt ix p) = insert (plan_id p) (node_ids ix)"
    using n by (auto simp: node_ids_def hash_simps)
  have "hm_get (h_id_to_node (commit_insert rt ix p)) (hn_id (h_nodes (commit_insert rt ix p) ! i)) = Some i"
    if "i < Suc (length (h_nodes ix))" for i
  proof (cases "i = length (h_nodes ix)")
    case True
    then show ?thesis using n by (simp add: hash_simps)
  next
    case False
    then have i: "i < length (h_nodes ix)" using that by simp
    note c = canonicalD [OF assms(4) i]
    then have "hn_id (h_nodes ix ! i) \<noteq> plan_id p" using assms(5) by (auto simp: node_ids_def)
    then show ?thesis using n i c by (simp add: hash_simps)
  qed
  then show ?thesis using ids n by (simp add: canonical_def)
qed

lemma commits_canonical:
  "rt_ok rt \<Longrightarrow> hnsw_ok ix \<Longrightarrow> \<forall>p \<in> set plans. plan_ok ix p \<Longrightarrow> canonical ix \<Longrightarrow>
   distinct (map plan_id plans) \<Longrightarrow> plan_id ` set plans \<inter> node_ids ix = {} \<Longrightarrow>
   canonical (foldl (commit_insert rt) ix plans) \<and>
   node_ids (foldl (commit_insert rt) ix plans) = node_ids ix \<union> plan_id ` set plans"
proof (induction plans arbitrary: ix)
  case (Cons p plans)
  let ?ix = "commit_insert rt ix p"
  have 1: "hnsw_ok ?ix" "grows ix ?ix" using commit_insert_ok [of rt ix p] Cons.prems by auto
  have 2: "canonical ?ix" "node_ids ?ix = insert (plan_id p) (node_ids ix)"
    using commit_canonical [of rt ix p] Cons.prems by auto
  have "\<forall>p \<in> set plans. plan_ok ?ix p" using Cons.prems(3) grows_plan [OF 1(2)] by auto
  moreover have "plan_id ` set plans \<inter> node_ids ?ix = {}" using Cons.prems(5,6) 2(2) by auto
  ultimately show ?case using Cons.IH [of ?ix] Cons.prems(1,5) 1 2 by auto
qed simp

lemma disjoint_later: "A \<inter> N = {} \<Longrightarrow> D \<subseteq> A \<Longrightarrow> T \<inter> D = {} \<Longrightarrow> D \<inter> (N \<union> T) = {}"
  by blast

lemma hnsw_waves_canonical:
  "rt_ok rt \<Longrightarrow> hnsw_ok ix \<Longrightarrow> \<forall>(y, v, l) \<in> set rs. length v = h_dim ix \<and> l \<le> MAX_LEVEL \<Longrightarrow> canonical ix \<Longrightarrow>
   distinct (map fst rs) \<Longrightarrow> fst ` set rs \<inter> node_ids ix = {} \<Longrightarrow>
   canonical (hnsw_waves rt ix rs)"
proof (induction rt ix rs rule: hnsw_waves.induct)
  case (2 rt ix r rs)
  let ?n = "max (num_threads rt) 1" and ?rs = "r # rs"
  let ?plans = "map (\<lambda>(y, v, l). plan_insert rt ix y v l) (take ?n ?rs)"
  let ?ix = "foldl (commit_insert rt) ix ?plans"
  have "plan_ok ix (plan_insert rt ix y v l)" if "(y, v, l) \<in> set (take ?n ?rs)" for y v l
    using plan_insert_ok [OF "2.prems"(1,2)] "2.prems"(3) in_set_takeD [OF that] by auto
  then have plans: "\<forall>p \<in> set ?plans. plan_ok ix p" by auto
  have pid: "map plan_id (map (\<lambda>(y, v, l). plan_insert rt ix y v l) xs) = map fst xs" for xs
    by (induction xs) auto
  have split: "distinct (map fst (take ?n ?rs) @ map fst (drop ?n ?rs))"
    using "2.prems"(5) unfolding map_append [symmetric] append_take_drop_id .
  have sub: "fst ` set (take ?n ?rs) \<subseteq> fst ` set ?rs" "fst ` set (drop ?n ?rs) \<subseteq> fst ` set ?rs"
    by (intro image_mono set_take_subset set_drop_subset)+
  have ids: "plan_id ` set ?plans = fst ` set (take ?n ?rs)" unfolding set_map [symmetric] pid ..
  have "canonical ?ix \<and> node_ids ?ix = node_ids ix \<union> fst ` set (take ?n ?rs)"
    unfolding ids [symmetric]
  proof (rule commits_canonical [OF "2.prems"(1,2) plans "2.prems"(4)])
    show "distinct (map plan_id ?plans)" unfolding pid using split by simp
    show "plan_id ` set ?plans \<inter> node_ids ix = {}" unfolding ids using sub(1) "2.prems"(6) by blast
  qed
  then have c: "canonical ?ix" "node_ids ?ix = node_ids ix \<union> fst ` set (take ?n ?rs)" by blast+
  have ok: "hnsw_ok ?ix" "grows ix ?ix" using commits_ok [OF "2.prems"(1,2) plans] by blast+
  have dim: "h_dim ?ix = h_dim ix" using ok(2) by (simp add: grows_def same_hparams_def)
  have "canonical (hnsw_waves rt ?ix (drop ?n ?rs))"
  proof (rule "2.IH" [OF refl refl refl "2.prems"(1) ok(1) _ c(1)])
    show "\<forall>(y, v, l) \<in> set (drop ?n ?rs). length v = h_dim ?ix \<and> l \<le> MAX_LEVEL"
      unfolding dim by (rule ballI, rule bspec [OF "2.prems"(3)], erule in_set_dropD)
    show "distinct (map fst (drop ?n ?rs))" using split by simp
    show "fst ` set (drop ?n ?rs) \<inter> node_ids ?ix = {}"
      unfolding c(2) by (rule disjoint_later [OF "2.prems"(6) sub(2)])
        (use split in \<open>simp only: distinct_append set_map\<close>)
  qed
  moreover have "hnsw_waves rt ix ?rs = hnsw_waves rt ?ix (drop ?n ?rs)" by (simp only: hnsw_waves.simps Let_def)
  ultimately show ?case by simp
qed simp

lemma build_canonical:
  assumes "rt_ok rt" "hnsw_ok ix" "canonical ix" "\<forall>(y, v) \<in> set vs. length v = h_dim ix"
    "distinct (map fst vs)" "node_ids ix = {}" "build_from_vecs rt ls ix vs = (b, ix')"
  shows "canonical ix'"
proof -
  have "find (\<lambda>x. length (snd x) \<noteq> h_dim ix) vs = None"
    using assms(4) by (auto simp: find_None_iff)
  define rows where "rows = map (\<lambda>i. (fst (vs ! i), snd (vs ! i), min (ls i) MAX_LEVEL)) [0..<length vs]"
  have ids: "map fst rows = map fst vs"
    by (rule nth_equalityI) (simp_all add: rows_def)
  have "length (snd (vs ! i)) = h_dim ix" if "i < length vs" for i
    using assms(4) that nth_mem [OF that] by fastforce
  then have rows_ok: "\<forall>(y, v, l) \<in> set rows. length v = h_dim ix \<and> l \<le> MAX_LEVEL"
    by (auto simp: rows_def)
  have d: "distinct (map fst rows)" using ids assms(5) by simp
  have w: "canonical (hnsw_waves rt ix rows)"
    using assms(6) by (intro hnsw_waves_canonical [OF assms(1,2) rows_ok assms(3) d]) simp
  show ?thesis
  proof (cases rows)
    case Nil
    then show ?thesis using assms(3,7) \<open>find _ vs = None\<close> by (auto simp: build_from_vecs_def rows_def)
  next
    case (Cons r rest)
    obtain y v l where r: "r = (y, v, l)" by (cases r)
    let ?one = "commit_insert rt ix (plan_insert rt ix y v l)"
    have plan: "plan_ok ix (plan_insert rt ix y v l)"
      using rows_ok Cons r plan_insert_ok [OF assms(1,2)] by simp
    have 1: "hnsw_ok ?one" "grows ix ?one" using commit_insert_ok [OF assms(1,2) plan] by auto
    have 2: "canonical ?one" "node_ids ?one = {y}"
      using commit_canonical [OF assms(1,2) plan assms(3)] assms(6) by auto
    have "canonical (hnsw_waves rt ?one rest)"
    proof (rule hnsw_waves_canonical [OF assms(1) 1(1) _ 2(1)])
      show "\<forall>(y, v, l) \<in> set rest. length v = h_dim ?one \<and> l \<le> MAX_LEVEL"
        using rows_ok Cons 1(2) by (auto simp: grows_def same_hparams_def)
    qed (use d 2(2) Cons r in auto)
    then show ?thesis using w assms(7) \<open>find _ vs = None\<close> Cons r
      by (auto simp: build_from_vecs_def Let_def rows_def [symmetric] split: if_splits)
  qed
qed

lemma hnsw_compact_canonical:
  assumes "rt_ok rt" "hnsw_ok ix" "hnsw_compact rt ls ix = Inr s"
  shows "canonical s"
proof -
  obtain r0 where r0: "hnsw_new (h_dim ix) (h_metric ix) (h_m ix) (h_ef_construction ix) (h_ef_search ix) = Inr r0"
    using assms(2) by (auto simp: hnsw_new_def hnsw_ok_def hnsw_params_ok_def)
  let ?r = "with_heuristic r0 (h_use_heuristic ix)"
  have r: "hnsw_ok ?r" "canonical ?r" "h_dim ?r = h_dim ix" "node_ids ?r = {}"
    using hnsw_new_ok [OF r0] with_heuristic_ok [of r0] r0
    by (auto simp: with_heuristic_def canonical_def node_ids_def hnsw_new_def split: if_splits)
  obtain live where prep: "hnsw_prepare_compaction ix = (Inr ?r, live)"
    by (simp add: hnsw_prepare_compaction_def r0)
  then have live: "distinct (map fst live)" "\<forall>(y, v) \<in> set live. length v = h_dim ?r"
    using live_vectors_ok [OF assms(2)] r(3) by simp_all
  obtain b where "build_from_vecs rt ls ?r live = (b, s)"
    using assms(3) prep by (auto simp: hnsw_compact_def split: sum.splits prod.splits)
  then show ?thesis using build_canonical [OF assms(1) r(1,2) live(2,1) r(4)] by blast
qed

text \<open>Insertions only take ids out of the tombstones.\<close>

lemma link_back_deleted [simp]: "h_deleted (link_back rt n lc ix nbr) = h_deleted ix"
  by (simp add: link_back_def prune_connections_def set_layer_def Let_def)

lemma link_backs_deleted [simp]: "h_deleted (foldl (link_back rt n lc) ix ns) = h_deleted ix"
  by (induction ns arbitrary: ix) simp_all

lemma relink_deleted [simp]: "h_deleted (relink rt ix n m) = h_deleted ix"
proof -
  have "h_deleted (foldl (\<lambda>s lc. foldl (link_back rt n lc) s (layer_of s n lc)) ix ls) = h_deleted ix" for ls
    by (induction ls arbitrary: ix) simp_all
  then show ?thesis by (simp add: relink_def)
qed

lemma commit_insert_deleted: "h_deleted (commit_insert rt ix p) = h_deleted ix - {plan_id p}"
  by (simp add: commit_insert_eq Let_def) (simp add: add_node_def)

lemma commits_deleted: "h_deleted (foldl (commit_insert rt) ix ps) \<subseteq> h_deleted ix"
proof (induction ps arbitrary: ix)
  case (Cons p ps)
  show ?case using Cons.IH [of "commit_insert rt ix p"] by (auto simp: commit_insert_deleted)
qed simp

lemma hnsw_waves_deleted: "h_deleted (hnsw_waves rt ix rs) \<subseteq> h_deleted ix"
proof (induction rt ix rs rule: hnsw_waves.induct)
  case (2 rt ix r rs)
  show ?case
    using subset_trans [OF "2.IH" [OF refl refl refl] commits_deleted] by (simp only: hnsw_waves.simps Let_def)
qed simp

lemma build_from_vecs_deleted: "h_deleted (snd (build_from_vecs rt ls ix vs)) \<subseteq> h_deleted ix"
proof -
  have "h_deleted (hnsw_waves rt (commit_insert rt ix p) rs) \<subseteq> h_deleted ix" for p rs
    using hnsw_waves_deleted [of rt "commit_insert rt ix p" rs] by (auto simp: commit_insert_deleted)
  then show ?thesis using hnsw_waves_deleted
    by (simp add: build_from_vecs_def Let_def del: hnsw_waves.simps split: option.splits list.splits)
qed

lemma hnsw_compact_deleted:
  assumes "hnsw_compact rt ls ix = Inr s"
  shows "h_deleted s = {}"
proof (cases "fst (hnsw_prepare_compaction ix)")
  case (Inl e)
  then show ?thesis using assms by (simp add: hnsw_compact_def case_prod_unfold)
next
  case (Inr r)
  then have "h_deleted r = {}"
    by (auto simp: hnsw_prepare_compaction_def hnsw_new_def with_heuristic_def split: if_splits)
  moreover have "s = snd (build_from_vecs rt ls r (snd (hnsw_prepare_compaction ix)))"
    using assms Inr by (simp add: hnsw_compact_def case_prod_unfold split: sum.splits)
  ultimately show ?thesis using build_from_vecs_deleted [of rt ls r] by auto
qed

lemma canonical_node_count:
  assumes "canonical ix" "ids_ok ix"
  shows "length (h_nodes ix) = card (dom (hm_get (h_id_to_node ix)))"
proof -
  let ?id = "\<lambda>i. hn_id (h_nodes ix ! i)"
  have "inj_on ?id {..<length (h_nodes ix)}"
  proof (rule inj_onI)
    fix i j assume "i \<in> {..<length (h_nodes ix)}" "j \<in> {..<length (h_nodes ix)}" and e: "?id i = ?id j"
    then have "hm_get (h_id_to_node ix) (?id i) = Some i" "hm_get (h_id_to_node ix) (?id j) = Some j"
      using canonicalD [OF assms(1)] by blast+
    then show "i = j" unfolding e by simp
  qed
  moreover have "?id ` {..<length (h_nodes ix)} = dom (hm_get (h_id_to_node ix))"
  proof
    show "?id ` {..<length (h_nodes ix)} \<subseteq> dom (hm_get (h_id_to_node ix))"
      using canonicalD [OF assms(1)] by blast
    show "dom (hm_get (h_id_to_node ix)) \<subseteq> ?id ` {..<length (h_nodes ix)}"
    proof
      fix y assume "y \<in> dom (hm_get (h_id_to_node ix))"
      then obtain i where "hm_get (h_id_to_node ix) y = Some i" by blast
      then have "i < length (h_nodes ix)" "?id i = y" using assms(2) unfolding ids_ok_def by blast+
      then show "y \<in> ?id ` {..<length (h_nodes ix)}" by blast
    qed
  qed
  ultimately show ?thesis using card_image [of ?id "{..<length (h_nodes ix)}"] by simp
qed

section \<open>The contract\<close>

definition hnsw_inv :: "rt \<Rightarrow> hnsw \<Rightarrow> bool" where
  "hnsw_inv rt ix \<longleftrightarrow> rt_ok rt \<and> hnsw_ok ix"

lemma hnsw_search_ok:
  fixes f :: "(vecid \<Rightarrow> bool) option"
  assumes ok: "hnsw_inv rt ix" and q: "length q = h_dim ix"
  shows "\<exists>rs :: 'p scored_result list. hnsw_search rt ix q k f = Inr rs \<and> length rs \<le> k \<and>
    sorted (score_keys rs) \<and>
    (\<forall>r \<in> set rs. hnsw_get ix (r_id r) \<noteq> None \<and> keep f (r_id r) \<and> r_payload r = None)"
proof -
  obtain rs :: "'p scored_result list" where rs: "hnsw_search rt ix q k f = Inr rs"
    using hnsw_search_total q by blast
  then show ?thesis
    using hnsw_search_nodes [OF _ _ rs] hnsw_search_sound [OF _ _ rs] ok unfolding hnsw_inv_def by blast
qed

lemma hnsw_get_length: "hnsw_ok ix \<Longrightarrow> hnsw_get ix y = Some v \<Longrightarrow> length v = h_dim ix"
  by (auto simp: hnsw_get_def hnsw_ok_def ids_ok_def length_row [of _ "length (h_nodes ix)"]
      split: if_splits option.splits)

lemma grows_dim: "grows ix ix' \<Longrightarrow> h_dim ix' = h_dim ix"
  by (simp add: grows_def same_hparams_def)

interpretation hnsw: vector_index "hnsw_inv rt" h_dim "hnsw_insert rt" "build_from_vecs rt" hnsw_delete
  "hnsw_search rt" hnsw_get hnsw_len "hnsw_list_ids rt"
  for rt
proof (unfold_locales, goal_cases)
  case (2 v s l y)
  then show ?case by (rule hnsw_insert_total)
next
  case (3 s l y v s')
  then show ?case using hnsw_insert_ok [of rt s l y v s'] by (auto simp: hnsw_inv_def grows_dim)
next
  case (4 s vs ls)
  then show ?case using build_from_vecs_ok [of rt s vs ls]
    by (auto simp: hnsw_inv_def grows_dim dom_map_of_conv_image_fst)
next
  case (5 s vs ls)
  then show ?case using build_from_vecs_err [of vs s rt ls] by auto
next
  case (6 s y b s')
  then show ?case using hnsw_delete_ok [of s y b s'] by (simp add: hnsw_inv_def grows_dim)
next
  case (7 s y v)
  then show ?case by (simp add: hnsw_inv_def hnsw_get_length)
next
  case (8 s)
  then show ?case by (simp add: hnsw_inv_def hnsw_ok_def hnsw_len_ok)
next
  case (9 s)
  then show ?case by (simp add: hnsw_inv_def hnsw_ok_def hnsw_list_ids_ok)
next
  case (11 q s k f)
  then show ?case by (rule hnsw_search_ok)
qed (simp_all add: hnsw_insert_def hnsw_search_def)

interpretation hnsw: exact_store "hnsw_inv rt" h_dim "hnsw_insert rt" "build_from_vecs rt" hnsw_delete
  "hnsw_search rt" hnsw_get hnsw_len "hnsw_list_ids rt"
  for rt
proof (unfold_locales, goal_cases)
  case (1 s l y v s')
  then show ?case using hnsw_insert_ok [of rt s l y v s'] by (simp add: hnsw_inv_def)
next
  case (2 s vs ls s')
  then show ?case using build_from_vecs_ok [of rt s vs ls] by (auto simp: hnsw_inv_def)
qed

section \<open>Two insertions of one id\<close>

lemma ghost_graph:
  assumes rt: "rt_ok rt" and new: "hnsw_new d m me efc efs = Inr ix0" and a: "length a = d" and b: "length b = d"
    and i1: "hnsw_insert rt 0 ix0 y a = Inr ix1" and i2: "hnsw_insert rt 0 ix1 y b = Inr ix2"
  shows "ix2 = ix0\<lparr>h_nodes := [\<lparr>hn_id = y, hn_layers = [[1]]\<rparr>, \<lparr>hn_id = y, hn_layers = [[0]]\<rparr>],
    h_data := a @ b, h_id_to_node := [(y, 1)], h_deleted := {}, h_entry_point := Some 0, h_max_level := 0\<rparr>"
proof -
  have ix0: "h_nodes ix0 = []" "h_data ix0 = []" "h_id_to_node ix0 = []" "h_deleted ix0 = {}"
     "h_entry_point ix0 = None" "h_max_level ix0 = 0" "h_dim ix0 = d" "h_m0 ix0 = 2 * h_m ix0" "2 \<le> h_m ix0"
     "h_use_heuristic ix0 = False"
    using new by (auto simp: hnsw_new_def split: if_splits)
  have ix1: "ix1 = ix0\<lparr>h_nodes := [\<lparr>hn_id = y, hn_layers = [[]]\<rparr>],
    h_data := a, h_id_to_node := [(y, 0)], h_deleted := {}, h_entry_point := Some 0, h_max_level := 0\<rparr>"
    using i1 a by (simp add: hnsw_insert_def ix0 plan_insert_def commit_insert_def Let_def layer_of_def hm_insert_def)
  have nhi: "node_heap_iter rt [x] = [x]" for x
  proof -
    have "mset (node_heap_iter rt [x]) = {#x#}" using node_heap_iter_mset [OF rt, of "[x]"] by simp
    then show ?thesis by simp
  qed
  have sl: "search_layer rt ix1 b [0] efc' 0 = [(node_dist rt ix1 b 0, 0)]" for efc'
    by (simp add: search_layer_def Let_def heap_push_def ix1 layer_of_def worst_dist_def heap_peek_def)
  have tk: "take (2 * h_m ix0) [x] = [x]" for x :: "f32 \<times> nat"
    using ix0(9) by (cases "2 * h_m ix0") auto
  have pl: "plan_insert rt ix1 y b 0 = \<lparr>plan_id = y, plan_vector = b, plan_level = 0, plan_neighbours = [[0]]\<rparr>"
    by (simp add: plan_insert_def ix1 Let_def greedy_descent_def)
       (simp add: sl [unfolded ix1] closest_live_def nhi select_neighbors_configured_def ix0 select_neighbors_def
          trim_heap_take m_at_def tk nhi)
  let ?p = "\<lparr>plan_id = y, plan_vector = b, plan_level = 0, plan_neighbours = [[0]]\<rparr>"
  let ?R = "ix0\<lparr>h_nodes := [\<lparr>hn_id = y, hn_layers = [[]]\<rparr>, \<lparr>hn_id = y, hn_layers = [[0]]\<rparr>],
    h_data := a @ b, h_id_to_node := [(y, 1)], h_deleted := {}, h_entry_point := Some 0, h_max_level := 0\<rparr>"
  have add: "add_node ix1 ?p = ?R" by (simp add: add_node_def ix1 hm_insert_def)
  have link: "link_back rt 1 0 ?R 0 = ix0\<lparr>h_nodes := [\<lparr>hn_id = y, hn_layers = [[1]]\<rparr>, \<lparr>hn_id = y, hn_layers = [[0]]\<rparr>],
    h_data := a @ b, h_id_to_node := [(y, 1)], h_deleted := {}, h_entry_point := Some 0, h_max_level := 0\<rparr>"
    using ix0(8,9) by (simp add: link_back_def layer_of_def set_layer_def m_at_def Let_def)
  have "layer_of ?R 1 0 = [0]" by (simp add: layer_of_def)
  then have re: "relink rt ?R 1 1 = link_back rt 1 0 ?R 0" by (simp add: relink_def)
  have "length (h_nodes ix1) = 1" "length (plan_neighbours ?p) = 1" by (simp_all add: ix1)
  then have "commit_insert rt ix1 ?p = (let ix2 = relink rt ?R 1 1
      in if h_entry_point ix2 = None \<or> plan_level ?p > h_max_level ix2
         then ix2\<lparr>h_entry_point := Some 1, h_max_level := plan_level ?p\<rparr> else ix2)"
    by (simp only: commit_insert_eq add)
  then have "commit_insert rt ix1 ?p = link_back rt 1 0 ?R 0"
    unfolding re link by simp
  moreover have "ix2 = commit_insert rt ix1 ?p"
    using i2 b pl by (simp add: hnsw_insert_def ix1 ix0 split: if_splits)
  ultimately show ?thesis using link by simp
qed

lemma ghost_beam:
  assumes "h_nodes ix = [\<lparr>hn_id = y, hn_layers = [[1]]\<rparr>, \<lparr>hn_id = y, hn_layers = [[0]]\<rparr>]" "2 \<le> ef"
  shows "mset (search_layer rt ix q [0] ef 0) = {#(node_dist rt ix q 0, 0), (node_dist rt ix q 1, 1)#}"
proof -
  let ?d0 = "node_dist rt ix q 0" and ?d1 = "node_dist rt ix q 1"
  let ?w = "heap_push (?d1, 1) [(?d0, 0)]"
  have l: "layer_of ix 0 0 = [1]" "layer_of ix 1 0 = [0]" by (simp_all add: layer_of_def assms)
  have "okey ?d1 \<le> okey (worst_dist ?w)"
    by (auto simp: worst_dist_def heap_peek_def heap_push_def hkey_def less_eq_prod_def)
  then have "search_loop rt ix q ef 0 ([True, True], ?w, [(?d1, 1)]) = ?w"
    by (simp add: l [simplified] visit_neighbour_def)
  moreover have "search_layer rt ix q [0] ef 0 = search_loop rt ix q ef 0 ([True, True], ?w, [(?d1, 1)])"
    using assms(2)
    by (simp add: search_layer_def Let_def heap_push_def assms(1) l worst_dist_def heap_peek_def visit_neighbour_def)
  ultimately show ?thesis by simp
qed

section \<open>Properties\<close>

definition hnsw_example :: hnsw where
  "hnsw_example = \<lparr>h_dim = 1, h_metric = L2, h_m = 2, h_m0 = 4, h_ef_construction = 2, h_ef_search = 1,
     h_use_heuristic = False, h_nodes = [], h_data = [], h_id_to_node = [], h_deleted = {},
     h_entry_point = None, h_max_level = 0\<rparr>"

lemma hnsw_example_new: "hnsw_new 1 L2 2 2 1 = Inr hnsw_example"
  by (simp add: hnsw_new_def hnsw_example_def)

lemma hnsw_example_ok: "hnsw_ok hnsw_example"
  using hnsw_new_ok [OF hnsw_example_new] by simp

lemma hnsw_example_insert: "\<exists>ix. hnsw_insert plain_rt 0 hnsw_example 7 [0] = Inr ix \<and> h_dim ix = 1"
proof -
  obtain ix where ix: "hnsw_insert plain_rt 0 hnsw_example 7 [0] = Inr ix"
    using hnsw_insert_total [of "[0]" hnsw_example plain_rt 0 7] by (auto simp: hnsw_example_def)
  then have "h_dim ix = 1"
    using hnsw_insert_ok [OF plain_rt_ok hnsw_example_ok ix] grows_dim by (fastforce simp: hnsw_example_def)
  then show ?thesis using ix by blast
qed

text \<open>C11. Every operation of the HNSW index keeps the graph invariant, whatever levels are drawn: at most
  \<open>2m\<close> neighbours per node in layer 0 and \<open>m\<close> above, every edge inside the graph and to a node that
  has the layer, one slab row per node, the id map pointing at nodes with their own id, tombstones only
  for known ids, and an entry point on the top layer.\<close>

theorem hnsw_graph_invariant:
  assumes "rt_ok rt" "hnsw_ok ix"
  shows "(\<forall>ix'. hnsw_insert rt l ix y v = Inr ix' \<longrightarrow> hnsw_ok ix') \<and>
    hnsw_ok (snd (hnsw_delete ix y)) \<and>
    ((\<forall>(z, w) \<in> set vs. length w = h_dim ix) \<longrightarrow> hnsw_ok (snd (build_from_vecs rt ls ix vs))) \<and>
    (\<forall>i j. j < length (hn_layers (h_nodes ix ! i)) \<and> i < length (h_nodes ix) \<longrightarrow>
       length (hn_layers (h_nodes ix ! i) ! j) \<le> (if j = 0 then 2 * h_m ix else h_m ix) \<and>
       (\<forall>n \<in> set (hn_layers (h_nodes ix ! i) ! j). n < length (h_nodes ix) \<and>
          j < length (hn_layers (h_nodes ix ! n))))"
proof -
  have del: "hnsw_ok (snd (hnsw_delete ix y))"
    using hnsw_delete_ok [OF assms(2) surjective_pairing] by blast
  have ins: "\<forall>ix'. hnsw_insert rt l ix y v = Inr ix' \<longrightarrow> hnsw_ok ix'"
    using hnsw_insert_ok [OF assms] by blast
  have batch: "(\<forall>(z, w) \<in> set vs. length w = h_dim ix) \<longrightarrow> hnsw_ok (snd (build_from_vecs rt ls ix vs))"
    using build_from_vecs_ok [OF assms, of vs ls] by auto
  have edges: "\<forall>i j. j < length (hn_layers (h_nodes ix ! i)) \<and> i < length (h_nodes ix) \<longrightarrow>
       length (hn_layers (h_nodes ix ! i) ! j) \<le> (if j = 0 then 2 * h_m ix else h_m ix) \<and>
       (\<forall>n \<in> set (hn_layers (h_nodes ix ! i) ! j). n < length (h_nodes ix) \<and>
          j < length (hn_layers (h_nodes ix ! n)))"
  proof (intro allI impI)
    fix i j assume "j < length (hn_layers (h_nodes ix ! i)) \<and> i < length (h_nodes ix)"
    then have "valid ix j i" by (simp add: valid_def)
    moreover have "graph_ok ix" and m0: "h_m0 ix = 2 * h_m ix"
      using assms(2) by (simp_all add: hnsw_ok_def hnsw_params_ok_def)
    ultimately have "edges_ok ix j (hn_layers (h_nodes ix ! i) ! j)" unfolding graph_ok_def by blast
    then show "length (hn_layers (h_nodes ix ! i) ! j) \<le> (if j = 0 then 2 * h_m ix else h_m ix) \<and>
        (\<forall>n \<in> set (hn_layers (h_nodes ix ! i) ! j). n < length (h_nodes ix) \<and>
          j < length (hn_layers (h_nodes ix ! n)))"
      unfolding edges_ok_def m_at_def valid_def m0 by blast
  qed
  show ?thesis by (intro conjI ins del batch edges)
qed

theorem hnsw_graph_invariant_witness:
  "\<exists>ix. hnsw_insert plain_rt 3 hnsw_example 7 [0] = Inr ix \<and> hnsw_ok ix"
proof -
  obtain ix where "hnsw_insert plain_rt 3 hnsw_example 7 [0] = Inr ix"
    using hnsw_insert_total [of "[0]" hnsw_example plain_rt 3 7] by (auto simp: hnsw_example_def)
  then show ?thesis using hnsw_graph_invariant [OF plain_rt_ok hnsw_example_ok, of 3 7 "[0]"] by blast
qed

text \<open>C12. Seen through \<open>get\<close>, the HNSW index is a finite map: insertion binds, deletion (with its choice of
  a new entry point) unbinds and reports presence, and the bulk build in parallel waves binds the rows in
  input order, so that the last row of an id wins. \<open>len\<close> counts the bound ids. A row of the wrong length
  anywhere in a batch is refused before anything changes.\<close>

theorem hnsw_refines_map:
  assumes "rt_ok rt" "hnsw_ok ix"
  shows "(length v = h_dim ix \<longrightarrow> (\<exists>ix'. hnsw_insert rt l ix y v = Inr ix' \<and> hnsw_get ix' = (hnsw_get ix)(y \<mapsto> v))) \<and>
    fst (hnsw_delete ix y) = (hnsw_get ix y \<noteq> None) \<and>
    hnsw_get (snd (hnsw_delete ix y)) = (hnsw_get ix)(y := None) \<and>
    (if \<forall>(z, w) \<in> set vs. length w = h_dim ix
     then fst (build_from_vecs rt ls ix vs) = Inr () \<and>
       hnsw_get (snd (build_from_vecs rt ls ix vs)) = hnsw_get ix ++ map_of (rev vs)
     else (\<exists>n. fst (build_from_vecs rt ls ix vs) = Inl (DimMismatch (h_dim ix) n)) \<and>
       snd (build_from_vecs rt ls ix vs) = ix) \<and>
    hnsw_len ix = card (dom (hnsw_get ix))"
proof -
  have "\<exists>ix'. hnsw_insert rt l ix y v = Inr ix' \<and> hnsw_get ix' = (hnsw_get ix)(y \<mapsto> v)" if len: "length v = h_dim ix"
  proof -
    obtain ix' where "hnsw_insert rt l ix y v = Inr ix'" using hnsw_insert_total [OF len] by blast
    then show ?thesis using hnsw_insert_ok [OF assms] by blast
  qed
  moreover have "fst (hnsw_delete ix y) = (hnsw_get ix y \<noteq> None) \<and>
      hnsw_get (snd (hnsw_delete ix y)) = (hnsw_get ix)(y := None)"
    using hnsw_delete_ok [OF assms(2) surjective_pairing] by blast
  moreover have "if \<forall>(z, w) \<in> set vs. length w = h_dim ix
     then fst (build_from_vecs rt ls ix vs) = Inr () \<and>
       hnsw_get (snd (build_from_vecs rt ls ix vs)) = hnsw_get ix ++ map_of (rev vs)
     else (\<exists>n. fst (build_from_vecs rt ls ix vs) = Inl (DimMismatch (h_dim ix) n)) \<and>
       snd (build_from_vecs rt ls ix vs) = ix"
  proof (cases "\<forall>(z, w) \<in> set vs. length w = h_dim ix")
    case True
    then show ?thesis using build_from_vecs_ok [OF assms True, of ls] by auto
  next
    case False
    then have "find (\<lambda>x. length (snd x) \<noteq> h_dim ix) vs \<noteq> None" unfolding find_None_iff by auto
    then obtain x where "find (\<lambda>x. length (snd x) \<noteq> h_dim ix) vs = Some x" by blast
    then show ?thesis using False by (simp add: build_from_vecs_def)
  qed
  moreover have "hnsw_len ix = card (dom (hnsw_get ix))" using assms(2) by (simp add: hnsw_ok_def hnsw_len_ok)
  ultimately show ?thesis by blast
qed

theorem hnsw_refines_map_witness:
  "hnsw_get (snd (build_from_vecs plain_rt (\<lambda>_. 0) hnsw_example [(1, [0]), (2, [0]), (1, [0x3F800000])])) 1 = Some [0x3F800000]"
proof -
  have "\<forall>(z, w) \<in> set [(1 :: vecid, [0 :: f32]), (2, [0]), (1, [0x3F800000])]. length w = h_dim hnsw_example"
    by (simp add: hnsw_example_def)
  then show ?thesis
    using hnsw_refines_map [OF plain_rt_ok hnsw_example_ok, of "[]" 0 0 "[(1, [0]), (2, [0]), (1, [0x3F800000])]" "\<lambda>_. 0"]
    by simp
qed

text \<open>C13. An HNSW search returns at most \<open>k\<close> rows in ascending order of score, each for a live id that
  passes the filter. While no id has been overwritten, the ids are distinct and every score is the
  distance of the query to the id's current vector.\<close>

theorem hnsw_search_rows:
  assumes "rt_ok rt" "hnsw_ok ix" "hnsw_search rt ix q k f = Inr rs"
  shows "length rs \<le> k \<and> sorted (map (okey \<circ> r_score) rs) \<and>
    (\<forall>r \<in> set rs. hnsw_get ix (r_id r) \<noteq> None \<and> keep f (r_id r)) \<and>
    (canonical ix \<longrightarrow> distinct (map r_id rs) \<and> (\<forall>r \<in> set rs. \<exists>v. hnsw_get ix (r_id r) = Some v \<and>
        r_score r = simd_distance rt (h_metric ix) q v))"
  using hnsw_search_nodes [OF assms] hnsw_search_sound [OF assms] hnsw_search_canonical [OF assms(1,2) _ assms(3)]
  by blast

theorem hnsw_search_rows_witness:
  "\<exists>ix rs. hnsw_insert plain_rt 0 hnsw_example 7 [0] = Inr ix \<and>
    hnsw_search plain_rt ix [0] 4 None = Inr (rs :: unit scored_result list) \<and>
    (\<forall>r \<in> set rs. hnsw_get ix (r_id r) \<noteq> None)"
proof -
  obtain ix where ix: "hnsw_insert plain_rt 0 hnsw_example 7 [0] = Inr ix" "h_dim ix = 1"
    using hnsw_example_insert by blast
  then obtain rs :: "unit scored_result list" where rs: "hnsw_search plain_rt ix [0] 4 None = Inr rs"
    using hnsw_search_total [of "[0]" ix plain_rt 4 None] by auto
  then show ?thesis
    using ix hnsw_search_rows [OF plain_rt_ok _ rs] hnsw_insert_ok [OF plain_rt_ok hnsw_example_ok ix(1)] by blast
qed

text \<open>C14. The beam search of one layer, started at a node of that layer, returns at most \<open>ef\<close> different
  nodes, all of that layer and each with its own distance to the query; it always terminates.\<close>

theorem search_layer_sound:
  assumes "hnsw_ok ix" "ep < length (h_nodes ix)" "level < length (hn_layers (h_nodes ix ! ep))" "1 \<le> ef"
  shows "length (search_layer rt ix q [ep] ef level) \<le> ef \<and>
    distinct (map snd (search_layer rt ix q [ep] ef level)) \<and>
    (\<forall>(d, i) \<in> set (search_layer rt ix q [ep] ef level). i < length (h_nodes ix) \<and>
       level < length (hn_layers (h_nodes ix ! i)) \<and>
       d = simd_distance rt (h_metric ix) q (row (h_dim ix) (h_data ix) i))"
  using search_layer_ok [of ix level ep rt q ef] assms
  by (auto simp: layer_heap_def valid_def hnsw_ok_def node_dist_def vec_of_def max_def)

theorem search_layer_sound_witness:
  "\<exists>ix. hnsw_insert plain_rt 0 hnsw_example 7 [0] = Inr ix \<and>
    length (search_layer plain_rt ix [0] [0] 5 0) \<le> 5"
proof -
  obtain ix where ix: "hnsw_insert plain_rt 0 hnsw_example 7 [0] = Inr ix" using hnsw_example_insert by blast
  then have "hnsw_ok ix" using hnsw_insert_ok [OF plain_rt_ok hnsw_example_ok] by blast
  moreover have "0 < length (h_nodes ix)" "0 < length (hn_layers (h_nodes ix ! 0))"
    using ix by (auto simp: hnsw_insert_def hnsw_example_def plan_insert_def commit_insert_def Let_def layer_of_def)
  ultimately show ?thesis using ix search_layer_sound [of ix 0 0 5 plain_rt "[0]"] by auto
qed

text \<open>C15. Compacting an HNSW index never panics, keeps the contents exactly, and rebuilds the graph without
  garbage: no tombstone is left, every node is the current one of its id, and there are exactly as many
  nodes as live vectors.\<close>

theorem hnsw_compact_contents:
  assumes "rt_ok rt" "hnsw_ok ix"
  shows "\<exists>s. hnsw_compact rt ls ix = Inr s \<and> hnsw_ok s \<and> hnsw_get s = hnsw_get ix \<and> h_deleted s = {} \<and>
    (\<forall>i < length (h_nodes s). hm_get (h_id_to_node s) (hn_id (h_nodes s ! i)) = Some i) \<and>
    length (h_nodes s) = card (dom (hnsw_get ix))"
proof -
  obtain s where s: "hnsw_compact rt ls ix = Inr s" "hnsw_ok s" "hnsw_get s = hnsw_get ix"
    using hnsw_compact_ok [OF assms, of ls] by blast
  note c = hnsw_compact_canonical [OF assms s(1)] and d = hnsw_compact_deleted [OF s(1)]
  have ids: "ids_ok s" using s(2) by (simp add: hnsw_ok_def)
  then have "length (h_nodes s) = card (dom (hnsw_get ix))"
    using canonical_node_count [OF c ids] hnsw_get_dom [OF ids] d s(3) by simp
  then show ?thesis using s c d unfolding canonical_def by blast
qed

theorem hnsw_compact_contents_witness:
  "\<exists>ix s. 7 \<in> h_deleted ix \<and> length (h_nodes ix) = 2 \<and> hnsw_compact plain_rt (\<lambda>_. 1) ix = Inr s \<and>
     h_deleted s = {} \<and> length (h_nodes s) = 1 \<and> hnsw_get s 8 = Some [1]"
proof -
  obtain a where a: "hnsw_insert plain_rt 0 hnsw_example 7 [0] = Inr a" "h_dim a = 1" using hnsw_example_insert by blast
  note a' = hnsw_insert_ok [OF plain_rt_ok hnsw_example_ok a(1)]
  obtain b where b: "hnsw_insert plain_rt 0 a 8 [1] = Inr b" using hnsw_insert_total [of "[1]" a plain_rt 0 8] a(2) by auto
  have b': "hnsw_ok b" "hnsw_get b = (hnsw_get a)(8 \<mapsto> [1])" using hnsw_insert_ok [OF plain_rt_ok _ b] a' by blast+
  obtain t c where c: "hnsw_delete b 7 = (t, c)" by fastforce
  have c': "hnsw_ok c" "t = (hnsw_get b 7 \<noteq> None)" "hnsw_get c = (hnsw_get b)(7 := None)"
    using hnsw_delete_ok [OF b'(1) c] by auto
  have get: "hnsw_get b = [7 \<mapsto> [0], 8 \<mapsto> [1]]" "hnsw_get c = [8 \<mapsto> [1]]"
    using a' b' c' by (auto simp: hnsw_get_def hnsw_example_def fun_eq_iff)
  have "7 \<in> h_deleted c" using c c'(2) get(1) by (auto simp: hnsw_delete_def Let_def split: if_splits)
  moreover have "length (h_nodes c) = length (h_nodes b)"
    using c by (auto simp: hnsw_delete_def Let_def split: if_splits)
  moreover have "length (h_nodes a) = 1"
    using commit_insert_nodes [OF plain_rt_ok hnsw_example_ok plan_insert_ok [OF plain_rt_ok hnsw_example_ok], of "[0]" 0 7] a(1)
    by (simp add: hnsw_insert_def hnsw_example_def)
  moreover have "length (h_nodes b) = Suc (length (h_nodes a))"
    using commit_insert_nodes [OF plain_rt_ok _ plan_insert_ok [OF plain_rt_ok], of a "[1]" 0 8] a(2) a' b
    by (simp add: hnsw_insert_def)
  ultimately show ?thesis
    using hnsw_compact_contents [OF plain_rt_ok c'(1), of "\<lambda>_. 1"] get(2) by fastforce
qed

text \<open>C16. Overwriting leaves the old node searchable: after inserting an id twice, a search for two rows
  returns the id twice, once with the distance to the vector it no longer has, although \<open>get\<close> and
  \<open>len\<close> know only the new one.\<close>

theorem hnsw_overwrite_ghost:
  assumes rt: "rt_ok rt" and new: "hnsw_new d m me efc efs = Inr ix0" and len: "length a = d" "length b = d" "length q = d"
    and i1: "hnsw_insert rt 0 ix0 y a = Inr ix1" and i2: "hnsw_insert rt 0 ix1 y b = Inr ix2" and k: "2 \<le> k"
  shows "hnsw_get ix2 y = Some b \<and> hnsw_len ix2 = 1 \<and>
    (\<exists>rs :: 'p scored_result list. hnsw_search rt ix2 q k None = Inr rs \<and> map r_id rs = [y, y] \<and>
      mset (map r_score rs) = {#simd_distance rt m q a, simd_distance rt m q b#})"
proof -
  note ix2 = ghost_graph [OF rt new len(1,2) i1 i2]
  have dm: "h_dim ix0 = d" "h_metric ix0 = m" using new by (auto simp: hnsw_new_def split: if_splits)
  have rows: "vec_of ix2 0 = a" "vec_of ix2 1 = b" using len by (simp_all add: vec_of_def ix2 dm row_def)
  let ?heap = "search_layer rt ix2 q [0] (max (h_ef_search ix2) k) 0"
  let ?rows = "map (\<lambda>x. result_of (fst x, hn_id (h_nodes ix2 ! snd x))) (node_heap_iter rt ?heap) :: 'p scored_result list"
  have nodes: "h_nodes ix2 = [\<lparr>hn_id = y, hn_layers = [[1]]\<rparr>, \<lparr>hn_id = y, hn_layers = [[0]]\<rparr>]" by (simp add: ix2)
  have heap: "mset (node_heap_iter rt ?heap) = {#(simd_distance rt m q a, 0), (simd_distance rt m q b, 1)#}"
    using ghost_beam [OF nodes, of "max (h_ef_search ix2) k" rt q] k rows dm node_heap_iter_mset [OF rt, of ?heap]
    by (simp add: node_dist_def ix2)
  have "set_mset (mset (node_heap_iter rt ?heap)) = {(simd_distance rt m q a, 0), (simd_distance rt m q b, 1)}"
    unfolding heap by simp
  then have ids: "\<forall>x \<in> set (node_heap_iter rt ?heap). hn_id (h_nodes ix2 ! snd x) = y" by (simp add: nodes)
  have "mset (map r_id (sort_results ?rows)) = image_mset (\<lambda>x. hn_id (h_nodes ix2 ! snd x)) (mset (node_heap_iter rt ?heap))"
    by (simp add: sort_results_def result_of_def multiset.map_comp comp_def)
  also have "\<dots> = mset [y, y]" unfolding heap by (simp add: nodes)
  finally have "mset (map r_id (sort_results ?rows)) = mset [y, y]" .
  then have r_ids: "map r_id (sort_results ?rows) = [y, y]"
  proof -
    assume m: "mset (map r_id (sort_results ?rows)) = mset [y, y]"
    have "map r_id (sort_results ?rows) = replicate 2 y"
      using mset_eq_length [OF m] mset_eq_setD [OF m] by (intro replicate_eqI) auto
    then show ?thesis by (simp add: numeral_2_eq_2)
  qed
  have scores: "mset (map r_score (sort_results ?rows)) = {#simd_distance rt m q a, simd_distance rt m q b#}"
    by (simp add: sort_results_def result_of_def multiset.map_comp comp_def heap)
  have "length (sort_results ?rows) = 2" using arg_cong [OF r_ids, of length] by simp
  then have take: "take k (sort_results ?rows) = sort_results ?rows" using k by simp
  have "filter (\<lambda>x. hn_id (h_nodes ix2 ! snd x) \<notin> h_deleted ix2 \<and> keep None (hn_id (h_nodes ix2 ! snd x)))
      (node_heap_iter rt ?heap) = node_heap_iter rt ?heap"
    by (simp add: ix2 keep_def)
  then have s1: "hnsw_search rt ix2 q k None = Inr (sort_results ?rows)"
    using k len(3) take by (simp add: hnsw_search_def Let_def) (simp add: ix2 dm greedy_descent_def Let_def)
  have s2: "hnsw_get ix2 y = Some b" using rows len by (simp add: hnsw_get_def ix2 vec_of_def)
  have s3: "hnsw_len ix2 = 1" by (simp add: hnsw_len_def ix2)
  have "\<exists>rs :: 'p scored_result list. hnsw_search rt ix2 q k None = Inr rs \<and> map r_id rs = [y, y] \<and> mset (map r_score rs) = {#simd_distance rt m q a, simd_distance rt m q b#}"
    by (rule exI [of _ "sort_results ?rows"]) (rule conjI [OF s1 conjI [OF r_ids scores]])
  then show ?thesis using s2 s3 by (simp only: simp_thms)
qed

theorem hnsw_overwrite_ghost_witness:
  "\<exists>ix1 ix2 rs. hnsw_insert plain_rt 0 hnsw_example 7 [0] = Inr ix1 \<and>
    hnsw_insert plain_rt 0 ix1 7 [0x3F800000] = Inr ix2 \<and>
    hnsw_search plain_rt ix2 [0] 2 None = Inr (rs :: unit scored_result list) \<and> map r_id rs = [7, 7]"
proof -
  obtain ix1 where 1: "hnsw_insert plain_rt 0 hnsw_example 7 [0] = Inr ix1" "h_dim ix1 = 1"
    using hnsw_example_insert by blast
  then obtain ix2 where 2: "hnsw_insert plain_rt 0 ix1 7 [0x3F800000] = Inr ix2"
    using hnsw_insert_total [of "[0x3F800000]" ix1 plain_rt 0 7] by auto
  have "length [0 :: f32] = 1" "length [0x3F800000 :: f32] = 1" "(2 :: nat) \<le> 2" by simp_all
  from hnsw_overwrite_ghost [where 'p = unit, OF plain_rt_ok hnsw_example_new this(1,2,1) 1(1) 2 this(3)]
  have "\<exists>rs :: unit scored_result list. hnsw_search plain_rt ix2 [0] 2 None = Inr rs \<and> map r_id rs = [7, 7]"
    by (elim conjE exE) (rule exI, rule conjI)
  then obtain rs :: "unit scored_result list" where
    rs: "hnsw_search plain_rt ix2 [0] 2 None = Inr rs" "map r_id rs = [7, 7]" by (elim exE conjE)
  show ?thesis by (intro exI [of _ ix1] exI [of _ ix2] exI [of _ rs] conjI 1(1) 2 rs)
qed

end
