(* ===== verification/AnyIndex.thy ===== *)
theory AnyIndex
  imports Ivf Hnsw
begin

text \<open>
  \<open>Box<dyn VectorIndex>\<close>: the three index types behind the trait object, with the provided methods of
  \<open>likhadb-index/src/traits.rs\<close> where a type does not override them, and the off-thread compaction plan
  \<open>PreparedIndexCompaction\<close>. The same three cases are the snapshot enum of \<open>snapshot.rs\<close>, whose
  \<open>into_box\<close> and the indexes' \<open>to_snapshot\<close> are its constructors.
\<close>

section \<open>Dispatch\<close>

datatype any_index = FlatIndex flat | IvfIndex ivf | HnswIndex hnsw

definition ix_insert :: "rt \<Rightarrow> nat \<Rightarrow> any_index \<Rightarrow> vecid \<Rightarrow> vec \<Rightarrow> db_error + any_index" where
  "ix_insert rt l ix y v = (case ix of
       FlatIndex s \<Rightarrow> map_sum id FlatIndex (flat_insert s y v)
     | IvfIndex s \<Rightarrow> map_sum id IvfIndex (ivf_insert rt s y v)
     | HnswIndex s \<Rightarrow> map_sum id HnswIndex (hnsw_insert rt l s y v))"

definition ix_insert_batch ::
  "rt \<Rightarrow> (nat \<Rightarrow> nat) \<Rightarrow> any_index \<Rightarrow> (vecid \<times> vec) list \<Rightarrow> (db_error + unit) \<times> any_index"
where
  "ix_insert_batch rt ls ix vs = (case ix of
       FlatIndex s \<Rightarrow> map_prod id FlatIndex (default_insert_batch flat_insert s vs)
     | IvfIndex s \<Rightarrow> map_prod id IvfIndex (default_insert_batch (ivf_insert rt) s vs)
     | HnswIndex s \<Rightarrow> map_prod id HnswIndex (build_from_vecs rt ls s vs))"

definition ix_delete :: "any_index \<Rightarrow> vecid \<Rightarrow> bool \<times> any_index" where
  "ix_delete ix y = (case ix of
       FlatIndex s \<Rightarrow> map_prod id FlatIndex (flat_delete s y)
     | IvfIndex s \<Rightarrow> map_prod id IvfIndex (ivf_delete s y)
     | HnswIndex s \<Rightarrow> map_prod id HnswIndex (hnsw_delete s y))"

definition ix_search ::
  "rt \<Rightarrow> any_index \<Rightarrow> vec \<Rightarrow> nat \<Rightarrow> (vecid \<Rightarrow> bool) option \<Rightarrow> db_error + 'p scored_result list"
where
  "ix_search rt ix q k f = (case ix of
       FlatIndex s \<Rightarrow> flat_search rt s q k f
     | IvfIndex s \<Rightarrow> ivf_search rt s q k f
     | HnswIndex s \<Rightarrow> hnsw_search rt s q k f)"

definition ix_get :: "any_index \<Rightarrow> vecid \<Rightarrow> vec option" where
  "ix_get ix = (case ix of FlatIndex s \<Rightarrow> flat_get s | IvfIndex s \<Rightarrow> ivf_get s | HnswIndex s \<Rightarrow> hnsw_get s)"

definition ix_len :: "any_index \<Rightarrow> nat" where
  "ix_len ix = (case ix of FlatIndex s \<Rightarrow> flat_len s | IvfIndex s \<Rightarrow> ivf_len s | HnswIndex s \<Rightarrow> hnsw_len s)"

definition ix_dim :: "any_index \<Rightarrow> nat" where
  "ix_dim ix = (case ix of FlatIndex s \<Rightarrow> flat_dim s | IvfIndex s \<Rightarrow> ivf_dim s | HnswIndex s \<Rightarrow> h_dim s)"

definition ix_is_empty :: "any_index \<Rightarrow> bool" where
  "ix_is_empty ix \<longleftrightarrow> ix_len ix = 0"

definition ix_list_ids :: "rt \<Rightarrow> any_index \<Rightarrow> vecid list" where
  "ix_list_ids rt ix = (case ix of
       FlatIndex s \<Rightarrow> flat_list_ids s
     | IvfIndex s \<Rightarrow> ivf_list_ids rt s
     | HnswIndex s \<Rightarrow> hnsw_list_ids rt s)"

definition ix_type :: "any_index \<Rightarrow> string" where
  "ix_type ix = (case ix of
       FlatIndex s \<Rightarrow> ''FlatIndex'' | IvfIndex s \<Rightarrow> ''IvfIndex'' | HnswIndex s \<Rightarrow> ''HnswIndex'')"

definition ix_tombstone_ratio :: "any_index \<Rightarrow> f32" where
  "ix_tombstone_ratio ix = (case ix of HnswIndex s \<Rightarrow> hnsw_tombstone_ratio s | _ \<Rightarrow> 0)"

section \<open>Compaction\<close>

record prepared_compaction =
  replacement :: any_index
  prepared_live :: "(vecid \<times> vec) list"

definition ix_prepare_compaction :: "any_index \<Rightarrow> (db_error + prepared_compaction) option" where
  "ix_prepare_compaction ix = (case ix of
       HnswIndex s \<Rightarrow> (case hnsw_prepare_compaction s of
           (Inl e, _) \<Rightarrow> Some (Inl e)
         | (Inr r, live) \<Rightarrow> Some (Inr \<lparr>replacement = HnswIndex r, prepared_live = live\<rparr>))
     | _ \<Rightarrow> None)"

definition prepared_build :: "rt \<Rightarrow> (nat \<Rightarrow> nat) \<Rightarrow> prepared_compaction \<Rightarrow> db_error + any_index" where
  "prepared_build rt ls p = (case ix_insert_batch rt ls (replacement p) (prepared_live p) of
       (Inl e, _) \<Rightarrow> Inl e
     | (Inr _, s) \<Rightarrow> Inr s)"

definition ix_compact :: "rt \<Rightarrow> (nat \<Rightarrow> nat) \<Rightarrow> any_index \<Rightarrow> (db_error + any_index) option" where
  "ix_compact rt ls ix = (case ix of
       FlatIndex s \<Rightarrow> None
     | IvfIndex s \<Rightarrow> map_option (map_sum id IvfIndex) (ivf_compact rt s)
     | HnswIndex s \<Rightarrow> Some (map_sum id HnswIndex (hnsw_compact rt ls s)))"

section \<open>The contract\<close>

definition any_inv :: "(nat \<Rightarrow> nat \<Rightarrow> bool \<Rightarrow> bool) \<Rightarrow> rt \<Rightarrow> any_index \<Rightarrow> bool" where
  "any_inv P rt ix = (case ix of
       FlatIndex s \<Rightarrow> flat_inv rt s | IvfIndex s \<Rightarrow> ivf_inv P rt s | HnswIndex s \<Rightarrow> hnsw_inv rt s)"

lemmas ix_defs = ix_insert_def ix_insert_batch_def ix_delete_def ix_search_def ix_get_def ix_len_def
  ix_dim_def ix_list_ids_def any_inv_def

lemma map_sum_Inr: "map_sum id g x = Inr y \<longleftrightarrow> (\<exists>z. x = Inr z \<and> y = g z)"
  by (cases x) auto

lemma map_prod_eq: "map_prod id g x = (b, y) \<longleftrightarrow> (\<exists>z. x = (b, z) \<and> y = g z)"
  by (cases x) auto

interpretation any: vector_index "any_inv P rt" ix_dim "ix_insert rt" "ix_insert_batch rt" ix_delete
  "ix_search rt" ix_get ix_len "ix_list_ids rt"
  for P rt
proof (unfold_locales, goal_cases)
  case (1 v s l y)
  then show ?case
    by (cases s) (simp_all add: ix_defs flat.insert_mismatch ivf.insert_mismatch hnsw.insert_mismatch)
next
  case (2 v s l y)
  then show ?case
    by (cases s) (auto simp: ix_defs map_sum_Inr flat_insert_total ivf_insert_total hnsw_insert_total)
next
  case (3 s l y v s')
  show ?case
  proof (cases s)
    case (FlatIndex t)
    with 3 obtain z where z: "flat_insert t y v = Inr z" "s' = FlatIndex z" by (auto simp: ix_defs map_sum_Inr)
    show ?thesis using flat.insert_ok [of rt t y v z] z 3(1) FlatIndex by (simp add: ix_defs)
  next
    case (IvfIndex t)
    with 3 obtain z where z: "ivf_insert rt t y v = Inr z" "s' = IvfIndex z" by (auto simp: ix_defs map_sum_Inr)
    show ?thesis using ivf.insert_ok [of P rt t y v z] z 3(1) IvfIndex by (simp add: ix_defs)
  next
    case (HnswIndex t)
    with 3 obtain z where z: "hnsw_insert rt l t y v = Inr z" "s' = HnswIndex z" by (auto simp: ix_defs map_sum_Inr)
    show ?thesis using hnsw.insert_ok [of rt t l y v z] z 3(1) HnswIndex by (simp add: ix_defs)
  qed
next
  case (4 s vs ls)
  then show ?case
  proof (cases s)
    case (FlatIndex t)
    then show ?thesis using 4 flat.batch_ok [of rt t vs] by (auto simp: ix_defs)
  next
    case (IvfIndex t)
    then show ?thesis using 4 ivf.batch_ok [of P rt t vs] by (auto simp: ix_defs)
  next
    case (HnswIndex t)
    then show ?thesis using 4 hnsw.batch_ok [of rt t vs ls] by (auto simp: ix_defs)
  qed
next
  case (5 s vs ls)
  then show ?case
  proof (cases s)
    case (FlatIndex t)
    then show ?thesis using 5 flat.batch_err [of rt t vs] by (auto simp: ix_defs)
  next
    case (IvfIndex t)
    then show ?thesis using 5 ivf.batch_err [of P rt t vs] by (auto simp: ix_defs)
  next
    case (HnswIndex t)
    then show ?thesis using 5 hnsw.batch_err [of rt t vs ls] by (auto simp: ix_defs)
  qed
next
  case (6 s y b s')
  then show ?case
    by (cases s) (auto simp: ix_defs map_prod_eq dest: flat.delete_ok ivf.delete_ok hnsw.delete_ok)
next
  case (7 s y v)
  then show ?case
    by (cases s) (simp_all add: ix_defs flat.get_dim ivf.get_dim hnsw.get_dim)
next
  case (8 s)
  then show ?case
    by (cases s) (simp_all add: ix_defs flat.len_ok ivf.len_ok hnsw.len_ok)
next
  case (9 s)
  then show ?case
    by (cases s) (simp_all add: ix_defs flat.list_ids_ok ivf.list_ids_ok hnsw.list_ids_ok)
next
  case (10 q s k f)
  then show ?case
    by (cases s) (simp_all add: ix_defs flat.search_mismatch ivf.search_mismatch hnsw.search_mismatch)
next
  case (11 s q k f)
  then show ?case
  proof (cases s)
    case (FlatIndex t)
    then show ?thesis using 11 flat.search_ok [of rt t q k f] by (simp add: ix_defs)
  next
    case (IvfIndex t)
    then show ?thesis using 11 ivf.search_ok [of P rt t q k f] by (simp add: ix_defs)
  next
    case (HnswIndex t)
    then show ?thesis using 11 hnsw.search_ok [of rt t q k f] by (simp add: ix_defs)
  qed
qed

interpretation any_raw: exact_store "any_inv raw_params rt" ix_dim "ix_insert rt" "ix_insert_batch rt" ix_delete
  "ix_search rt" ix_get ix_len "ix_list_ids rt"
  for rt
proof (unfold_locales, goal_cases)
  case (1 s l y v s')
  then show ?case
    by (cases s) (auto simp: ix_defs map_sum_Inr dest: flat.insert_get ivf_raw.insert_get hnsw.insert_get)
next
  case (2 s vs ls s')
  then show ?case
  proof (cases s)
    case (FlatIndex t)
    then show ?thesis using 2 flat.batch_get [of rt t vs] by (auto simp: ix_defs map_prod_eq)
  next
    case (IvfIndex t)
    then show ?thesis using 2 ivf_raw.batch_get [of rt t vs] by (auto simp: ix_defs map_prod_eq)
  next
    case (HnswIndex t)
    then show ?thesis using 2 hnsw.batch_get [of rt t vs ls] by (auto simp: ix_defs map_prod_eq)
  qed
qed

text \<open>What a compaction plan holds: an empty replacement and the live vectors.\<close>

lemma prepare_compaction_ok:
  assumes "any_inv P rt ix" "ix_prepare_compaction ix = Some r"
  shows "\<exists>p. r = Inr p \<and> any_inv P rt (replacement p) \<and> ix_get (replacement p) = Map.empty \<and>
    ix_dim (replacement p) = ix_dim ix \<and> distinct (map fst (prepared_live p)) \<and>
    map_of (prepared_live p) = ix_get ix \<and> (\<forall>(y, v) \<in> set (prepared_live p). length v = ix_dim ix)"
proof -
  obtain s where s: "ix = HnswIndex s" using assms(2) by (cases ix) (simp_all add: ix_prepare_compaction_def)
  have ok: "rt_ok rt" "hnsw_ok s" using assms(1) by (simp_all add: s any_inv_def hnsw_inv_def)
  obtain r0 where r0: "hnsw_new (h_dim s) (h_metric s) (h_m s) (h_ef_construction s) (h_ef_search s) = Inr r0"
    using ok(2) by (auto simp: hnsw_new_def hnsw_ok_def hnsw_params_ok_def)
  let ?r = "with_heuristic r0 (h_use_heuristic s)"
  have hr: "hnsw_ok ?r" "hnsw_get ?r = Map.empty" "h_dim ?r = h_dim s"
    using hnsw_new_ok [OF r0] with_heuristic_ok [of r0] by (simp_all add: with_heuristic_def)
  obtain live where prep: "hnsw_prepare_compaction s = (Inr ?r, live)"
    by (simp add: hnsw_prepare_compaction_def r0)
  then have "r = Inr \<lparr>replacement = HnswIndex ?r, prepared_live = live\<rparr>"
    using assms(2) by (simp add: s ix_prepare_compaction_def)
  then show ?thesis
    using live_vectors_ok [OF ok(2)] prep hr ok by (simp add: s ix_defs hnsw_inv_def)
qed

text \<open>Building a plan gives an index with exactly the captured contents, and cannot fail.\<close>

lemma prepared_build_ok:
  assumes "any_inv P rt ix" "ix_prepare_compaction ix = Some (Inr p)"
  shows "\<exists>s. prepared_build rt ls p = Inr s \<and> any_inv P rt s \<and> ix_dim s = ix_dim ix \<and> ix_get s = ix_get ix"
proof -
  obtain t where t: "ix = HnswIndex t" using assms(2) by (cases ix) (simp_all add: ix_prepare_compaction_def)
  obtain r where r: "replacement p = HnswIndex r"
    using assms(2) by (auto simp: t ix_prepare_compaction_def split: prod.splits sum.splits)
  note p = prepare_compaction_ok [OF assms]
  then have live: "any_inv P rt (replacement p)" "ix_get (replacement p) = Map.empty"
      "ix_dim (replacement p) = ix_dim ix" "distinct (map fst (prepared_live p))"
      "map_of (prepared_live p) = ix_get ix" "\<forall>(y, v) \<in> set (prepared_live p). length v = ix_dim (replacement p)"
    by auto
  obtain s where s: "ix_insert_batch rt ls (replacement p) (prepared_live p) = (Inr (), s)" "any_inv P rt s"
      "ix_dim s = ix_dim (replacement p)"
    using any.batch_ok [OF live(1,6), of ls] by auto
  have "any_inv raw_params rt (replacement p)" using live(1) by (simp add: any_inv_def r)
  then have "ix_get s = ix_get (replacement p) ++ map_of (rev (prepared_live p))"
    using any_raw.batch_get [OF _ live(6) s(1)] by simp
  also have "\<dots> = ix_get ix" by (simp add: live map_of_rev_distinct)
  finally show ?thesis using s live(3) by (simp add: prepared_build_def)
qed

text \<open>No operation changes the kind of an index.\<close>

lemma ix_type_ops:
  "ix_insert rt l ix y v = Inr ix' \<Longrightarrow> ix_type ix' = ix_type ix"
  "ix_insert_batch rt ls ix vs = (r, ix') \<Longrightarrow> ix_type ix' = ix_type ix"
  "ix_delete ix y = (b, ix') \<Longrightarrow> ix_type ix' = ix_type ix"
  by (cases ix; auto simp: ix_insert_def ix_insert_batch_def ix_delete_def ix_type_def map_sum_Inr map_prod_eq)+

text \<open>
  A quantized list keeps the code of a vector, not the vector. The view of an index is its finite map, and of a quantized
  one the ids alone, with the empty vector each.
\<close>

definition stores_exactly :: "any_index \<Rightarrow> bool" where
  "stores_exactly ix \<longleftrightarrow> (case ix of IvfIndex s \<Rightarrow> \<not> ivf_quantize s | _ \<Rightarrow> True)"

definition ix_view :: "any_index \<Rightarrow> vecid \<Rightarrow> vec option" where
  "ix_view ix y = map_option (\<lambda>v. if stores_exactly ix then v else []) (ix_get ix y)"

lemma ix_view_exact: "stores_exactly ix \<Longrightarrow> ix_view ix = ix_get ix"
  by (simp add: ix_view_def fun_eq_iff option.map_ident)

lemma ix_view_ids: "\<not> stores_exactly ix \<Longrightarrow> ix_view ix y = (if ix_get ix y = None then None else Some [])"
  by (cases "ix_get ix y") (simp_all add: ix_view_def)

lemma stores_exactly_raw: "any_inv any_params rt ix \<Longrightarrow> stores_exactly ix \<Longrightarrow> any_inv raw_params rt ix"
  by (cases ix) (auto simp: any_inv_def ivf_inv_def stores_exactly_def)

lemma stores_exactly_kept:
  assumes "any_inv any_params rt ix" "ix_type ix' = ix_type ix" "\<And>P. any_inv P rt ix \<Longrightarrow> any_inv P rt ix'"
  shows "stores_exactly ix' = stores_exactly ix"
proof -
  let ?P = "\<lambda>(nlist :: nat) (nprobe :: nat) q. q \<longleftrightarrow> \<not> stores_exactly ix"
  have "any_inv ?P rt ix" using assms(1) by (cases ix) (auto simp: any_inv_def ivf_inv_def stores_exactly_def)
  then have "any_inv ?P rt ix'" by (rule assms(3))
  then show ?thesis using assms(2) by (cases ix; cases ix') (auto simp: any_inv_def ivf_inv_def stores_exactly_def ix_type_def)
qed

lemma ix_view_insert:
  assumes ok: "any_inv any_params rt ix" and run: "ix_insert rt l ix y v = Inr ix'"
  shows "stores_exactly ix' = stores_exactly ix \<and> ix_view ix' = (ix_view ix)(y \<mapsto> (if stores_exactly ix then v else []))"
proof -
  have same: "stores_exactly ix' = stores_exactly ix"
    by (rule stores_exactly_kept [OF ok ix_type_ops(1) [OF run]]) (use any.insert_ok run in blast)
  show ?thesis
  proof (cases "stores_exactly ix")
    case True
    then show ?thesis using any_raw.insert_get [OF stores_exactly_raw [OF ok True] run] same by (simp add: ix_view_exact)
  next
    case False
    have "dom (ix_get ix') = {y} \<union> dom (ix_get ix)" using any.insert_ok [OF ok run] by blast
    then have "ix_get ix' z = None \<longleftrightarrow> z \<noteq> y \<and> ix_get ix z = None" for z by (metis UnCI UnE domIff insertCI singletonD)
    then have "ix_view ix' z = ((ix_view ix)(y \<mapsto> [])) z" for z using False same by (simp add: ix_view_ids)
    then show ?thesis using False same by (auto simp: fun_eq_iff)
  qed
qed

lemma map_of_constant: "map_of (map (\<lambda>(y, v). (y, c)) vs) y = (if y \<in> fst ` set vs then Some c else None)"
  by (induction vs) auto

lemma ix_view_batch:
  assumes ok: "any_inv any_params rt ix" and dims: "\<forall>(y, v) \<in> set vs. length v = ix_dim ix"
    and run: "ix_insert_batch rt ls ix vs = (Inr (), ix')"
  shows "stores_exactly ix' = stores_exactly ix \<and>
    ix_view ix' = ix_view ix ++ map_of (rev (map (\<lambda>(y, v). (y, if stores_exactly ix then v else [])) vs))"
proof -
  have kept: "any_inv P rt ix'" if P: "any_inv P rt ix" for P using any.batch_ok [OF P dims, of ls] run by auto
  have same: "stores_exactly ix' = stores_exactly ix"
    by (rule stores_exactly_kept [OF ok ix_type_ops(2) [OF run] kept])
  show ?thesis
  proof (cases "stores_exactly ix")
    case True
    then have "ix_get ix' = ix_get ix ++ map_of (rev vs)"
      using any_raw.batch_get [OF stores_exactly_raw [OF ok True] dims] run by blast
    then show ?thesis using True same by (simp add: ix_view_exact)
  next
    case False
    have "dom (ix_get ix') = dom (ix_get ix) \<union> fst ` set vs" using any.batch_ok [OF ok dims, of ls] run by auto
    then have "ix_get ix' y = None \<longleftrightarrow> ix_get ix y = None \<and> y \<notin> fst ` set vs" for y by (metis UnCI UnE domIff)
    then have "ix_view ix' y = (ix_view ix ++ map_of (rev (map (\<lambda>(y, v). (y, [])) vs))) y" for y
      using False same by (simp add: ix_view_ids map_add_def map_of_constant rev_map)
    then show ?thesis using False same by (auto simp: fun_eq_iff)
  qed
qed

lemma ix_view_delete:
  assumes ok: "any_inv any_params rt ix" and run: "ix_delete ix y = (b, ix')"
  shows "stores_exactly ix' = stores_exactly ix \<and> ix_view ix' = (ix_view ix)(y := None)"
proof -
  have "stores_exactly ix' = stores_exactly ix"
    by (rule stores_exactly_kept [OF ok ix_type_ops(3) [OF run]]) (use any.delete_ok run in blast)
  then show ?thesis using any.delete_ok [OF ok run] by (auto simp: ix_view_def fun_eq_iff)
qed

section \<open>Snapshots\<close>

text \<open>\<open>to_snapshot\<close> clones the index into the enum; \<open>into_box\<close> takes it out again.\<close>

definition into_box :: "any_index \<Rightarrow> any_index" where
  "into_box s = (case s of FlatIndex f \<Rightarrow> FlatIndex f | IvfIndex i \<Rightarrow> IvfIndex i | HnswIndex h \<Rightarrow> HnswIndex h)"

definition to_snapshot :: "any_index \<Rightarrow> any_index" where
  "to_snapshot ix = (case ix of FlatIndex f \<Rightarrow> FlatIndex f | IvfIndex i \<Rightarrow> IvfIndex i | HnswIndex h \<Rightarrow> HnswIndex h)"

lemma into_box_to_snapshot [simp]: "into_box (to_snapshot ix) = ix"
  by (simp add: into_box_def to_snapshot_def split: any_index.split)

end
