(* ===== verification/Meta.thy ===== *)
theory Meta
  imports Core
begin

text \<open>
  Payloads and filters: \<open>likhadb-store/src/meta.rs\<close>. A payload is a \<open>serde_json::Value\<close>; its numbers
  are a type parameter (\<open>serde_json::Number\<close> up to its equality) with \<open>as_f64\<close> as an argument.
  \<open>eval_predicate\<close> is the interpreter of filter documents as the code has it; \<open>sat\<close> is the meaning
  of a filter as a tree, and \<open>pred_json\<close> its document.
\<close>

section \<open>JSON values\<close>

text \<open>An object is a \<open>BTreeMap\<close>: its entries are listed in key order, each key once.\<close>

datatype 'n json =
    JNull
  | JBool bool
  | JNum 'n
  | JStr string
  | JArr "'n json list"
  | JObj "(string \<times> 'n json) list"

definition json_get :: "'n json \<Rightarrow> string \<Rightarrow> 'n json option" where
  "json_get v key = (case v of JObj m \<Rightarrow> map_of m key | _ \<Rightarrow> None)"

definition json_str :: "'n json \<Rightarrow> string option" where
  "json_str v = (case v of JStr s \<Rightarrow> Some s | _ \<Rightarrow> None)"

definition json_arr :: "'n json \<Rightarrow> 'n json list option" where
  "json_arr v = (case v of JArr xs \<Rightarrow> Some xs | _ \<Rightarrow> None)"

definition json_f64 :: "('n \<Rightarrow> f64 option) \<Rightarrow> 'n json \<Rightarrow> f64 option" where
  "json_f64 num v = (case v of JNum n \<Rightarrow> num n | _ \<Rightarrow> None)"

lemmas json_defs = json_get_def json_str_def json_arr_def json_f64_def

lemma json_arr_Some [simp]: "json_arr v = Some xs \<longleftrightarrow> v = JArr xs"
  by (cases v) (simp_all add: json_arr_def)

lemma json_get_Some: "json_get v key = Some x \<Longrightarrow> \<exists>m. v = JObj m \<and> (key, x) \<in> set m"
  by (cases v) (auto simp: json_get_def dest: map_of_SomeD)

lemma size_member: "f \<in> set fs \<Longrightarrow> size f < size (JArr fs)"
  by (induction fs) auto

lemma size_entry: "(key, x) \<in> set m \<Longrightarrow> size x < size (JObj m)"
  by (induction m) auto

section \<open>The store\<close>

type_synonym 'n meta = "vecid \<Rightarrow> 'n json option"

definition meta_new :: "'n meta" where
  "meta_new = Map.empty"

definition meta_set :: "'n meta \<Rightarrow> vecid \<Rightarrow> 'n json \<Rightarrow> 'n meta" where
  "meta_set m y p = m(y \<mapsto> p)"

definition meta_get :: "'n meta \<Rightarrow> vecid \<Rightarrow> 'n json option" where
  "meta_get m y = m y"

definition meta_remove :: "'n meta \<Rightarrow> vecid \<Rightarrow> bool \<times> 'n meta" where
  "meta_remove m y = (m y \<noteq> None, m(y := None))"

lemmas meta_defs = meta_new_def meta_set_def meta_get_def meta_remove_def

section \<open>Evaluating a filter document\<close>

definition eval_leaf ::
  "('n \<Rightarrow> f64 option) \<Rightarrow> string \<Rightarrow> 'n json option \<Rightarrow> 'n json option \<Rightarrow> bool"
where
  "eval_leaf num op field_val value =
     (if op = ''eq'' then (case value of Some v \<Rightarrow> field_val = Some v | None \<Rightarrow> False)
      else if op = ''ne'' then (case value of Some v \<Rightarrow> field_val \<noteq> Some v | None \<Rightarrow> False)
      else if op = ''exists'' then field_val \<noteq> None
      else if op \<in> {''gt'', ''lt'', ''gte'', ''lte''} then
        (case (Option.bind field_val (json_f64 num), Option.bind value (json_f64 num)) of
           (Some a, Some b) \<Rightarrow>
             if op = ''gt'' then f64_lt b a
             else if op = ''lt'' then f64_lt a b
             else if op = ''gte'' then f64_le b a
             else f64_le a b
         | _ \<Rightarrow> False)
      else if op = ''in'' then (case Option.bind value json_arr of
          None \<Rightarrow> False
        | Some arr \<Rightarrow> (case field_val of Some fv \<Rightarrow> fv \<in> set arr | None \<Rightarrow> False))
      else False)"

function eval_predicate :: "('n \<Rightarrow> f64 option) \<Rightarrow> 'n json \<Rightarrow> 'n json \<Rightarrow> bool" where
  "eval_predicate num payload pred = (case Option.bind (json_get pred ''op'') json_str of
       None \<Rightarrow> False
     | Some op \<Rightarrow>
         if op = ''and'' then (case Option.bind (json_get pred ''filters'') json_arr of
             Some filters \<Rightarrow> list_all (\<lambda>f. eval_predicate num payload f) filters
           | None \<Rightarrow> False)
         else if op = ''or'' then (case Option.bind (json_get pred ''filters'') json_arr of
             Some filters \<Rightarrow> list_ex (\<lambda>f. eval_predicate num payload f) filters
           | None \<Rightarrow> False)
         else (case Option.bind (json_get pred ''field'') json_str of
             None \<Rightarrow> False
           | Some field \<Rightarrow> eval_leaf num op (json_get payload field) (json_get pred ''value'')))"
  by pat_completeness auto
termination
proof (relation "measure (\<lambda>(num, payload, pred). size pred)", goal_cases)
  case (2 num payload pred op filters f)
  then show ?case
    by (auto simp: Option.bind_eq_Some_conv dest!: json_get_Some size_entry size_member)
next
  case (3 num payload pred op filters f)
  then show ?case
    by (auto simp: Option.bind_eq_Some_conv dest!: json_get_Some size_entry size_member)
qed simp

declare eval_predicate.simps [simp del]

text \<open>\<open>make_filter\<close>: no predicate, no filter; an id without payload never passes.\<close>

definition make_filter ::
  "('n \<Rightarrow> f64 option) \<Rightarrow> 'n meta \<Rightarrow> 'n json option \<Rightarrow> (vecid \<Rightarrow> bool) option"
where
  "make_filter num m predicate = (case predicate of
       None \<Rightarrow> None
     | Some pred \<Rightarrow> Some (\<lambda>y. case m y of Some payload \<Rightarrow> eval_predicate num payload pred | None \<Rightarrow> False))"

lemma keep_make_filter:
  "keep (make_filter num m predicate) y \<longleftrightarrow> (case predicate of
      None \<Rightarrow> True
    | Some pred \<Rightarrow> (\<exists>payload. m y = Some payload \<and> eval_predicate num payload pred))"
  by (auto simp: make_filter_def keep_def split: option.split)

section \<open>The meaning of a filter\<close>

datatype cmp = Gt | Lt | Gte | Lte

datatype 'n predicate =
    PEq string "'n json"
  | PNe string "'n json"
  | PExists string
  | PCmp cmp string "'n json"
  | PIn string "'n json list"
  | PAnd "'n predicate list"
  | POr "'n predicate list"

fun cmp_holds :: "cmp \<Rightarrow> f64 \<Rightarrow> f64 \<Rightarrow> bool" where
  "cmp_holds Gt a b = f64_lt b a"
| "cmp_holds Lt a b = f64_lt a b"
| "cmp_holds Gte a b = f64_le b a"
| "cmp_holds Lte a b = f64_le a b"

fun cmp_name :: "cmp \<Rightarrow> string" where
  "cmp_name Gt = ''gt''"
| "cmp_name Lt = ''lt''"
| "cmp_name Gte = ''gte''"
| "cmp_name Lte = ''lte''"

primrec sat :: "('n \<Rightarrow> f64 option) \<Rightarrow> 'n json \<Rightarrow> 'n predicate \<Rightarrow> bool" where
  "sat num p (PEq f v) \<longleftrightarrow> json_get p f = Some v"
| "sat num p (PNe f v) \<longleftrightarrow> json_get p f \<noteq> Some v"
| "sat num p (PExists f) \<longleftrightarrow> json_get p f \<noteq> None"
| "sat num p (PCmp c f v) \<longleftrightarrow> (\<exists>x a b. json_get p f = Some x \<and> json_f64 num x = Some a \<and>
     json_f64 num v = Some b \<and> cmp_holds c a b)"
| "sat num p (PIn f vs) \<longleftrightarrow> (\<exists>x \<in> set vs. json_get p f = Some x)"
| "sat num p (PAnd qs) \<longleftrightarrow> list_all id (map (sat num p) qs)"
| "sat num p (POr qs) \<longleftrightarrow> list_ex id (map (sat num p) qs)"

primrec pred_json :: "'n predicate \<Rightarrow> 'n json" where
  "pred_json (PEq f v) = JObj [(''field'', JStr f), (''op'', JStr ''eq''), (''value'', v)]"
| "pred_json (PNe f v) = JObj [(''field'', JStr f), (''op'', JStr ''ne''), (''value'', v)]"
| "pred_json (PExists f) = JObj [(''field'', JStr f), (''op'', JStr ''exists'')]"
| "pred_json (PCmp c f v) = JObj [(''field'', JStr f), (''op'', JStr (cmp_name c)), (''value'', v)]"
| "pred_json (PIn f vs) = JObj [(''field'', JStr f), (''op'', JStr ''in''), (''value'', JArr vs)]"
| "pred_json (PAnd qs) = JObj [(''filters'', JArr (map pred_json qs)), (''op'', JStr ''and'')]"
| "pred_json (POr qs) = JObj [(''filters'', JArr (map pred_json qs)), (''op'', JStr ''or'')]"

lemma list_all_map_id: "list_all id (map P xs) \<longleftrightarrow> (\<forall>x \<in> set xs. P x)"
  by (simp add: list_all_iff)

lemma list_ex_map_id: "list_ex id (map P xs) \<longleftrightarrow> (\<exists>x \<in> set xs. P x)"
  by (simp add: list_ex_iff)

lemma eval_leaf_cmp:
  "eval_leaf num (cmp_name c) field_val (Some v) \<longleftrightarrow> (\<exists>x a b. field_val = Some x \<and> json_f64 num x = Some a \<and>
     json_f64 num v = Some b \<and> cmp_holds c a b)"
  by (cases c; cases field_val; cases "Option.bind field_val (json_f64 num)"; cases "json_f64 num v")
    (simp_all add: eval_leaf_def)

text \<open>C30. The filter interpreter gives every filter document its documented meaning: equality, inequality
  (which a missing field satisfies), presence, the four numeric comparisons (false unless both sides are
  numbers), membership, and conjunctions and disjunctions nested to any depth.\<close>

theorem eval_predicate_meaning: "eval_predicate num payload (pred_json q) = sat num payload q"
proof (induction q)
  case (PAnd qs)
  then show ?case
    by (subst eval_predicate.simps)
      (simp add: json_defs list_all_iff list_all_map_id)
next
  case (POr qs)
  then show ?case
    by (subst eval_predicate.simps)
      (simp add: json_defs list_ex_iff list_ex_map_id)
next
  case (PCmp c f v)
  have "cmp_name c \<noteq> ''and''" "cmp_name c \<noteq> ''or''" by (cases c; simp)+
  then show ?case
    by (subst eval_predicate.simps) (simp add: json_get_def json_str_def eval_leaf_cmp)
qed (subst eval_predicate.simps; auto simp: json_get_def json_str_def json_arr_def eval_leaf_def split: option.split)+

end
