(* ===== verification/Fts.thy ===== *)
theory Fts
  imports Core
begin

text \<open>
  Full-text search: \<open>likhadb-fts/src/lib.rs\<close> and \<open>tantivy_index.rs\<close>. The search engine is a library
  outside the repository and its operations are the fields of the parameter record \<open>tantivy\<close>; the
  file operations behind the watermark file are fields too. What is modelled is the code around it:
  which calls are made in which order, what stops at the first error, and the log watermark that
  keeps a replay from indexing a document twice.
\<close>

section \<open>Text\<close>

text \<open>
  Strings are their UTF-8 bytes. \<open>ws_len\<close> is the length in bytes of the Unicode white space
  character at the head of a string, 0 when there is none.
\<close>

definition ws_len :: "string \<Rightarrow> nat" where
  "ws_len s = (case map (of_char :: char \<Rightarrow> nat) (take 3 s) of
       a # bs \<Rightarrow>
         if 9 \<le> a \<and> a \<le> 13 \<or> a = 32 then 1
         else (case bs of
             b # cs \<Rightarrow>
               if a = 0xC2 \<and> (b = 0x85 \<or> b = 0xA0) then 2
               else (case cs of
                   c # _ \<Rightarrow>
                     if a = 0xE1 \<and> b = 0x9A \<and> c = 0x80 \<or>
                        a = 0xE2 \<and> b = 0x80 \<and> (0x80 \<le> c \<and> c \<le> 0x8A \<or> c = 0xA8 \<or> c = 0xA9 \<or> c = 0xAF) \<or>
                        a = 0xE2 \<and> b = 0x81 \<and> c = 0x9F \<or>
                        a = 0xE3 \<and> b = 0x80 \<and> c = 0x80
                     then 3 else 0
                 | [] \<Rightarrow> 0)
           | [] \<Rightarrow> 0)
     | [] \<Rightarrow> 0)"

function trim_start :: "string \<Rightarrow> string" where
  "trim_start s = (if ws_len s = 0 then s else trim_start (drop (ws_len s) s))"
  by pat_completeness auto
termination
proof (relation "measure length", goal_cases)
  case (2 s)
  then have "s \<noteq> []" by (auto simp: ws_len_def)
  then show ?case using 2 by simp
qed simp

declare trim_start.simps [simp del]

definition blank :: "string \<Rightarrow> bool" where
  "blank s \<longleftrightarrow> trim_start s = []"

fun trim_end :: "string \<Rightarrow> string" where
  "trim_end [] = []"
| "trim_end (c # cs) = (if blank (c # cs) then [] else c # trim_end cs)"

definition trim :: "string \<Rightarrow> string" where
  "trim s = trim_end (trim_start s)"

definition digit :: "nat \<Rightarrow> char" where
  "digit n = char_of (48 + n)"

definition digit_val :: "char \<Rightarrow> nat option" where
  "digit_val c = (let n = of_char c in if 48 \<le> n \<and> n \<le> 57 then Some (n - 48) else None)"

text \<open>\<open>u64::to_string\<close> and \<open>str::parse::<u64>\<close> (an optional plus sign, at least one digit, no overflow)\<close>

fun show_nat :: "nat \<Rightarrow> string" where
  "show_nat n = (if n < 10 then [digit n] else show_nat (n div 10) @ [digit (n mod 10)])"

declare show_nat.simps [simp del]

fun parse_digits :: "nat \<Rightarrow> string \<Rightarrow> nat option" where
  "parse_digits acc [] = Some acc"
| "parse_digits acc (c # cs) = (case digit_val c of
      None \<Rightarrow> None
    | Some d \<Rightarrow> if 10 * acc + d < 2 ^ 64 then parse_digits (10 * acc + d) cs else None)"

definition parse_u64 :: "string \<Rightarrow> u64 option" where
  "parse_u64 s = (let t = (case s of c # cs \<Rightarrow> if c = CHR ''+'' then cs else s | [] \<Rightarrow> [])
     in if t = [] then None else map_option of_nat (parse_digits 0 t))"

lemma of_char_digit: "n < 10 \<Longrightarrow> of_char (digit n) = 48 + n"
  by (simp add: digit_def)

lemma digit_val_digit: "n < 10 \<Longrightarrow> digit_val (digit n) = Some n"
  by (simp add: digit_val_def of_char_digit)

lemma parse_digits_append:
  "parse_digits acc (xs @ ys) = Option.bind (parse_digits acc xs) (\<lambda>a. parse_digits a ys)"
  by (induction acc xs rule: parse_digits.induct) (auto split: option.split)

lemma parse_show_nat: "n < 2 ^ 64 \<Longrightarrow> parse_digits 0 (show_nat n) = Some n"
proof (induction n rule: show_nat.induct)
  case (1 n)
  show ?case
  proof (cases "n < 10")
    case True
    then show ?thesis by (subst show_nat.simps) (simp add: digit_val_digit)
  next
    case False
    then have "parse_digits 0 (show_nat (n div 10)) = Some (n div 10)" using 1 by simp
    moreover have "10 * (n div 10) + n mod 10 = n" by simp
    ultimately show ?thesis using False 1(2)
      by (subst show_nat.simps) (simp add: parse_digits_append digit_val_digit)
  qed
qed

lemma show_nat_head: "\<exists>d cs. show_nat n = digit d # cs \<and> d < 10"
proof (induction n rule: show_nat.induct)
  case (1 n)
  show ?case by (subst show_nat.simps) (use 1 in fastforce)
qed

lemma parse_u64_show: "parse_u64 (show_nat (unat (l :: u64))) = Some l"
proof -
  obtain d cs where s: "show_nat (unat l) = digit d # cs" "d < 10" using show_nat_head by blast
  have "digit d \<noteq> CHR ''+''" using of_char_digit [OF s(2)] by auto
  moreover have "unat l < 2 ^ 64" using unsigned_less [of l] by simp
  ultimately show ?thesis
    using parse_show_nat [of "unat l"] by (simp add: parse_u64_def s(1))
qed

section \<open>The engine\<close>

record 't tantivy =
  tv_create :: "'t option"
  tv_open :: "string \<Rightarrow> 't option"
  tv_delete :: "'t \<Rightarrow> vecid \<Rightarrow> 't"
  tv_add :: "'t \<Rightarrow> vecid \<Rightarrow> string \<Rightarrow> bool \<times> 't"
  tv_commit :: "'t \<Rightarrow> bool \<times> 't"
  tv_reload :: "'t \<Rightarrow> bool \<times> 't"
  tv_query :: "'t \<Rightarrow> string \<Rightarrow> nat \<Rightarrow> (f32 \<times> vecid option) list option"
  tv_read_lsn :: "string \<Rightarrow> string option"
  tv_write_lsn :: "string \<Rightarrow> string \<Rightarrow> 't \<Rightarrow> bool \<times> 't"

record 't fts =
  fts_engine :: 't
  fts_lsn_path :: "string option"
  fts_watermark :: u64

record fts_result =
  f_id :: vecid
  f_score :: f32

text \<open>\<open>Path::join\<close> of Unix: an absolute second path replaces the first.\<close>

definition path_join :: "string \<Rightarrow> string \<Rightarrow> string" where
  "path_join a b = (case b of
       c # _ \<Rightarrow> if c = CHR ''/'' then b
         else if a = [] \<or> last a = CHR ''/'' then a @ b else a @ CHR ''/'' # b
     | [] \<Rightarrow> if a = [] \<or> last a = CHR ''/'' then a else a @ ''/'')"

definition fts_new :: "'t tantivy \<Rightarrow> db_error + 't fts" where
  "fts_new tv = (case tv_create tv of
       None \<Rightarrow> Inl FtsError
     | Some t \<Rightarrow> Inr \<lparr>fts_engine = t, fts_lsn_path = None, fts_watermark = 0\<rparr>)"

definition fts_open_or_create :: "'t tantivy \<Rightarrow> string \<Rightarrow> db_error + 't fts" where
  "fts_open_or_create tv dir = (case tv_open tv dir of
       None \<Rightarrow> Inl FtsError
     | Some t \<Rightarrow>
         let lsn_path = path_join dir ''fts_lsn'';
             watermark = (case Option.bind (tv_read_lsn tv lsn_path) (\<lambda>s. parse_u64 (trim s)) of
                 Some w \<Rightarrow> w | None \<Rightarrow> 0)
         in Inr \<lparr>fts_engine = t, fts_lsn_path = Some lsn_path, fts_watermark = watermark\<rparr>)"

definition fts_last_lsn :: "'t fts \<Rightarrow> u64" where
  "fts_last_lsn s = fts_watermark s"

definition fts_set_lsn :: "'t tantivy \<Rightarrow> 't fts \<Rightarrow> u64 \<Rightarrow> (db_error + unit) \<times> 't fts" where
  "fts_set_lsn tv s lsn = (case fts_lsn_path s of
       None \<Rightarrow> (Inr (), s)
     | Some path \<Rightarrow> (case tv_write_lsn tv path (show_nat (unat lsn)) (fts_engine s) of
           (False, t) \<Rightarrow> (Inl FtsError, s\<lparr>fts_engine := t\<rparr>)
         | (True, t) \<Rightarrow> (Inr (), s\<lparr>fts_engine := t, fts_watermark := lsn\<rparr>)))"

text \<open>One engine call: \<open>map_err\<close> and \<open>?\<close>.\<close>

definition tv_step :: "'t fts \<Rightarrow> bool \<times> 't \<Rightarrow> (db_error + unit) \<times> 't fts" where
  "tv_step s r = (if fst r then Inr () else Inl FtsError, s\<lparr>fts_engine := snd r\<rparr>)"

definition fts_index_document :: "'t tantivy \<Rightarrow> 't fts \<Rightarrow> vecid \<Rightarrow> string \<Rightarrow> (db_error + unit) \<times> 't fts" where
  "fts_index_document tv s y text =
     and_then (tv_step s (tv_add tv (tv_delete tv (fts_engine s) y) y text)) (\<lambda>_ s1.
     and_then (tv_step s1 (tv_commit tv (fts_engine s1))) (\<lambda>_ s2.
       tv_step s2 (tv_reload tv (fts_engine s2))))"

definition fts_delete_document :: "'t tantivy \<Rightarrow> 't fts \<Rightarrow> vecid \<Rightarrow> (db_error + unit) \<times> 't fts" where
  "fts_delete_document tv s y =
     and_then (tv_step s (tv_commit tv (tv_delete tv (fts_engine s) y))) (\<lambda>_ s1.
       tv_step s1 (tv_reload tv (fts_engine s1)))"

definition fts_search_docs :: "'t tantivy \<Rightarrow> 't fts \<Rightarrow> string \<Rightarrow> nat \<Rightarrow> db_error + fts_result list" where
  "fts_search_docs tv s query k =
     (if k = 0 \<or> trim query = [] then Inr []
      else case tv_query tv (fts_engine s) query k of
          None \<Rightarrow> Inl FtsError
        | Some hits \<Rightarrow> Inr (concat (map (\<lambda>(score, field). case field of
              Some y \<Rightarrow> [\<lparr>f_id = y, f_score = score\<rparr>] | None \<Rightarrow> []) hits)))"

section \<open>A working engine\<close>

text \<open>
  What the engine documents: a committed and reloaded delete and add replace the document of the
  id, a committed delete removes it, and a query that parses returns at most \<open>k\<close> hits. Under it
  no write fails. \<open>docs\<close> is the committed text of every id.
\<close>

definition fts_works :: "'t tantivy \<Rightarrow> ('t \<Rightarrow> vecid \<Rightarrow> string option) \<Rightarrow> bool" where
  "fts_works tv docs \<longleftrightarrow>
     (\<forall>t y s. \<exists>t1 t2 t3. tv_add tv (tv_delete tv t y) y s = (True, t1) \<and> tv_commit tv t1 = (True, t2) \<and>
        tv_reload tv t2 = (True, t3) \<and> docs t3 = (docs t)(y \<mapsto> s)) \<and>
     (\<forall>t y. \<exists>t1 t2. tv_commit tv (tv_delete tv t y) = (True, t1) \<and> tv_reload tv t1 = (True, t2) \<and>
        docs t2 = (docs t)(y := None)) \<and>
     (\<forall>p s t. \<exists>t'. tv_write_lsn tv p s t = (True, t') \<and> docs t' = docs t) \<and>
     (\<forall>t q k hits. tv_query tv t q k = Some hits \<longrightarrow> length hits \<le> k)"

lemma fts_index_document_ok:
  assumes "fts_works tv docs"
  shows "\<exists>s'. fts_index_document tv s y text = (Inr (), s') \<and> docs (fts_engine s') = (docs (fts_engine s))(y \<mapsto> text) \<and>
    fts_lsn_path s' = fts_lsn_path s \<and> fts_watermark s' = fts_watermark s"
proof -
  obtain t1 t2 t3 where "tv_add tv (tv_delete tv (fts_engine s) y) y text = (True, t1)" "tv_commit tv t1 = (True, t2)"
      "tv_reload tv t2 = (True, t3)" "docs t3 = (docs (fts_engine s))(y \<mapsto> text)"
    using assms unfolding fts_works_def by blast
  then show ?thesis by (simp add: fts_index_document_def tv_step_def)
qed

lemma fts_delete_document_ok:
  assumes "fts_works tv docs"
  shows "\<exists>s'. fts_delete_document tv s y = (Inr (), s') \<and> docs (fts_engine s') = (docs (fts_engine s))(y := None) \<and>
    fts_lsn_path s' = fts_lsn_path s \<and> fts_watermark s' = fts_watermark s"
proof -
  obtain t1 t2 where "tv_commit tv (tv_delete tv (fts_engine s) y) = (True, t1)" "tv_reload tv t1 = (True, t2)"
      "docs t2 = (docs (fts_engine s))(y := None)"
    using assms unfolding fts_works_def by blast
  then show ?thesis by (simp add: fts_delete_document_def tv_step_def)
qed

lemma fts_set_lsn_ok:
  assumes "fts_works tv docs"
  shows "\<exists>s'. fts_set_lsn tv s lsn = (Inr (), s') \<and> docs (fts_engine s') = docs (fts_engine s) \<and>
    fts_lsn_path s' = fts_lsn_path s \<and>
    fts_watermark s' = (if fts_lsn_path s = None then fts_watermark s else lsn)"
proof (cases "fts_lsn_path s")
  case (Some p)
  obtain t' where "tv_write_lsn tv p (show_nat (unat lsn)) (fts_engine s) = (True, t')" "docs t' = docs (fts_engine s)"
    using assms unfolding fts_works_def by blast
  then show ?thesis by (simp add: fts_set_lsn_def Some)
qed (simp add: fts_set_lsn_def)

lemma length_concat_le: "(\<And>x. x \<in> set xs \<Longrightarrow> length (f x) \<le> Suc 0) \<Longrightarrow> length (concat (map f xs)) \<le> length xs"
proof (induction xs)
  case (Cons x xs)
  then show ?case using Cons.prems [of x] by fastforce
qed simp

lemma fts_search_docs_ok:
  assumes "fts_works tv docs" "fts_search_docs tv s query k = Inr rs"
  shows "length rs \<le> k"
proof (cases "k = 0 \<or> trim query = []")
  case False
  let ?row = "\<lambda>(score, field). case field of Some y \<Rightarrow> [\<lparr>f_id = y, f_score = score\<rparr>] | None \<Rightarrow> []"
  obtain hits where hits: "tv_query tv (fts_engine s) query k = Some hits" "rs = concat (map ?row hits)"
    using assms(2) False by (auto simp: fts_search_docs_def split: option.splits)
  have "length (concat (map ?row hits)) \<le> length hits"
    by (rule length_concat_le) (auto split: option.split)
  moreover have "length hits \<le> k" using assms(1) hits(1) unfolding fts_works_def by blast
  ultimately show ?thesis using hits(2) by simp
qed (use assms(2) in \<open>auto simp: fts_search_docs_def\<close>)

text \<open>An engine over a list of documents, whose queries find the documents equal to the query.\<close>

definition list_engine :: "(vecid \<times> string) list tantivy" where
  "list_engine = \<lparr>tv_create = Some [], tv_open = \<lambda>_. Some [], tv_delete = \<lambda>t y. hm_remove y t,
     tv_add = \<lambda>t y s. (True, hm_insert y s t), tv_commit = \<lambda>t. (True, t), tv_reload = \<lambda>t. (True, t),
     tv_query = \<lambda>t q k. Some (take k (map (\<lambda>x. (f32_one, Some (fst x))) (filter (\<lambda>x. snd x = q) t))),
     tv_read_lsn = \<lambda>_. None, tv_write_lsn = \<lambda>_ _ t. (True, t)\<rparr>"

lemma list_engine_works: "fts_works list_engine map_of"
  by (auto simp: fts_works_def list_engine_def hm_get_insert hm_get_remove)

end
