(* ===== verification/Collection.thy ===== *)
theory Collection
  imports AnyIndex Meta Fts
begin

text \<open>
  A collection, \<open>likhadb-store/src/collection.rs\<close> and \<open>delta.rs\<close>: the index behind its trait, the payload
  store, the optional full-text index and the journal of index mutations that is kept while a
  compaction plan is rebuilt elsewhere. The collection is a client of the contract \<open>vector_index\<close> of
  the boxed index (theory \<open>AnyIndex\<close>).
\<close>

section \<open>State\<close>

datatype index_mutation = MUpsert vecid vec | MDelete vecid

datatype 'n delta_row = DUpsert vecid vec "'n json option" | DDelete vecid

record ('n, 't) collection =
  c_name :: string
  c_dim :: nat
  c_metric :: metric
  c_index :: any_index
  c_meta :: "'n meta"
  c_fts :: "'t fts option"
  c_source_binding :: "source_binding option"
  c_source_snapshot_id :: "64 word option"
  c_journal :: "index_mutation list option"

definition collection_with_index :: "string \<Rightarrow> nat \<Rightarrow> metric \<Rightarrow> any_index \<Rightarrow> ('n, 't) collection" where
  "collection_with_index name d m ix = \<lparr>c_name = name, c_dim = d, c_metric = m, c_index = ix,
     c_meta = meta_new, c_fts = None, c_source_binding = None, c_source_snapshot_id = None,
     c_journal = None\<rparr>"

definition collection_new :: "string \<Rightarrow> nat \<Rightarrow> metric \<Rightarrow> ('n, 't) collection" where
  "collection_new name d m = collection_with_index name d m (FlatIndex (flat_new d m))"

definition with_meta :: "('n, 't) collection \<Rightarrow> 'n meta \<Rightarrow> ('n, 't) collection" where
  "with_meta c m = c\<lparr>c_meta := m\<rparr>"

definition col_enable_fts ::
  "'t tantivy \<Rightarrow> ('n, 't) collection \<Rightarrow> string option \<Rightarrow> (db_error + unit) \<times> ('n, 't) collection"
where
  "col_enable_fts tv c fts_dir =
     (case (case fts_dir of Some dir \<Rightarrow> fts_open_or_create tv dir | None \<Rightarrow> fts_new tv) of
        Inl e \<Rightarrow> (Inl e, c)
      | Inr ix \<Rightarrow> (Inr (), c\<lparr>c_fts := Some ix\<rparr>))"

section \<open>Text of a payload\<close>

text \<open>The strings of a document in the order of its keys, separated by blanks.\<close>

fun collect_strings :: "'n json \<Rightarrow> string \<Rightarrow> string" where
  "collect_strings (JStr s) out = (if out \<noteq> [] then out @ '' '' @ s else s)"
| "collect_strings (JObj m) out = fold (\<lambda>x. collect_strings (snd x)) m out"
| "collect_strings (JArr xs) out = fold collect_strings xs out"
| "collect_strings JNull out = out"
| "collect_strings (JBool b) out = out"
| "collect_strings (JNum n) out = out"

definition extract_text_fields :: "'n json \<Rightarrow> string" where
  "extract_text_fields v = collect_strings v []"

section \<open>Mutations\<close>

definition out_of_band_lsn :: u64 where
  "out_of_band_lsn = - 1"

text \<open>The part of \<open>apply_insert_payload\<close> that concerns the full-text index.\<close>

definition fts_upsert :: "'t tantivy \<Rightarrow> 't fts \<Rightarrow> vecid \<Rightarrow> 'n json \<Rightarrow> u64 \<Rightarrow> (db_error + unit) \<times> 't fts" where
  "fts_upsert tv s y p lsn =
     (if lsn = out_of_band_lsn \<or> fts_last_lsn s < lsn then
        let text = extract_text_fields p
        in if text \<noteq> [] then
             and_then (fts_index_document tv s y text) (\<lambda>_ s1.
               if lsn = out_of_band_lsn then (Inr (), s1) else fts_set_lsn tv s1 lsn)
           else (Inr (), s)
      else (Inr (), s))"

definition fts_remove :: "'t tantivy \<Rightarrow> 't fts \<Rightarrow> vecid \<Rightarrow> u64 \<Rightarrow> (db_error + unit) \<times> 't fts" where
  "fts_remove tv s y lsn =
     (if lsn = out_of_band_lsn \<or> fts_last_lsn s < lsn then
        and_then (fts_delete_document tv s y) (\<lambda>_ s1.
          if lsn = out_of_band_lsn then (Inr (), s1) else fts_set_lsn tv s1 lsn)
      else (Inr (), s))"

text \<open>A step on the full-text index of the collection, when it has one.\<close>

definition on_fts ::
  "('t fts \<Rightarrow> (db_error + unit) \<times> 't fts) \<Rightarrow> ('n, 't) collection \<Rightarrow> (db_error + unit) \<times> ('n, 't) collection"
where
  "on_fts step c = (case c_fts c of
       None \<Rightarrow> (Inr (), c)
     | Some s \<Rightarrow> map_prod id (\<lambda>s'. c\<lparr>c_fts := Some s'\<rparr>) (step s))"

definition apply_insert_payload ::
  "'t tantivy \<Rightarrow> ('n, 't) collection \<Rightarrow> vecid \<Rightarrow> 'n json option \<Rightarrow> u64 \<Rightarrow> (db_error + unit) \<times> ('n, 't) collection"
where
  "apply_insert_payload tv c y payload lsn = (case payload of
       None \<Rightarrow> (Inr (), c)
     | Some p \<Rightarrow> and_then (on_fts (\<lambda>s. fts_upsert tv s y p lsn) c) (\<lambda>_ c1.
         (Inr (), c1\<lparr>c_meta := meta_set (c_meta c1) y p\<rparr>)))"

definition journal_push :: "index_mutation list \<Rightarrow> ('n, 't) collection \<Rightarrow> ('n, 't) collection" where
  "journal_push ms c = c\<lparr>c_journal := map_option (\<lambda>j. j @ ms) (c_journal c)\<rparr>"

definition col_insert ::
  "rt \<Rightarrow> 't tantivy \<Rightarrow> nat \<Rightarrow> ('n, 't) collection \<Rightarrow> vecid \<Rightarrow> vec \<Rightarrow> 'n json option \<Rightarrow> u64 \<Rightarrow>
     (db_error + unit) \<times> ('n, 't) collection"
where
  "col_insert rt tv l c y v payload lsn = (case ix_insert rt l (c_index c) y v of
       Inl e \<Rightarrow> (Inl e, c)
     | Inr ix \<Rightarrow> apply_insert_payload tv (journal_push [MUpsert y v] (c\<lparr>c_index := ix\<rparr>)) y payload lsn)"

type_synonym 'n batch_row = "vecid \<times> vec \<times> 'n json option \<times> u64"

fun apply_payloads ::
  "'t tantivy \<Rightarrow> ('n, 't) collection \<Rightarrow> 'n batch_row list \<Rightarrow> (db_error + unit) \<times> ('n, 't) collection"
where
  "apply_payloads tv c [] = (Inr (), c)"
| "apply_payloads tv c ((y, v, payload, lsn) # rs) =
     and_then (apply_insert_payload tv c y payload lsn) (\<lambda>_ c1. apply_payloads tv c1 rs)"

definition col_insert_batch_with_lsns ::
  "rt \<Rightarrow> 't tantivy \<Rightarrow> (nat \<Rightarrow> nat) \<Rightarrow> ('n, 't) collection \<Rightarrow> 'n batch_row list \<Rightarrow>
     (db_error + unit) \<times> ('n, 't) collection"
where
  "col_insert_batch_with_lsns rt tv ls c rs =
     (let index_rows = map (\<lambda>(y, v, _, _). (y, v)) rs
      in case ix_insert_batch rt ls (c_index c) index_rows of
           (Inl e, ix) \<Rightarrow> (Inl e, c\<lparr>c_index := ix\<rparr>)
         | (Inr _, ix) \<Rightarrow>
             apply_payloads tv (journal_push (map (\<lambda>(y, v). MUpsert y v) index_rows) (c\<lparr>c_index := ix\<rparr>)) rs)"

definition col_insert_batch ::
  "rt \<Rightarrow> 't tantivy \<Rightarrow> (nat \<Rightarrow> nat) \<Rightarrow> ('n, 't) collection \<Rightarrow> (vecid \<times> vec \<times> 'n json option) list \<Rightarrow> u64 \<Rightarrow>
     (db_error + unit) \<times> ('n, 't) collection"
where
  "col_insert_batch rt tv ls c rs lsn =
     col_insert_batch_with_lsns rt tv ls c (map (\<lambda>(y, v, p). (y, v, p, lsn)) rs)"

definition col_delete ::
  "'t tantivy \<Rightarrow> ('n, 't) collection \<Rightarrow> vecid \<Rightarrow> u64 \<Rightarrow> (db_error + bool) \<times> ('n, 't) collection"
where
  "col_delete tv c y lsn =
     (let (existed, ix) = ix_delete (c_index c) y;
          c1 = (if existed then journal_push [MDelete y] (c\<lparr>c_index := ix\<rparr>) else c\<lparr>c_index := ix\<rparr>);
          c2 = c1\<lparr>c_meta := snd (meta_remove (c_meta c1) y)\<rparr>
      in and_then (on_fts (\<lambda>s. fts_remove tv s y lsn) c2) (\<lambda>_ c3. (Inr existed, c3)))"

definition apply_delta_row ::
  "rt \<Rightarrow> 't tantivy \<Rightarrow> nat \<Rightarrow> ('n, 't) collection \<Rightarrow> 'n delta_row \<Rightarrow> u64 \<Rightarrow> (db_error + unit) \<times> ('n, 't) collection"
where
  "apply_delta_row rt tv l c r lsn = (case r of
       DUpsert y v payload \<Rightarrow> col_insert rt tv l c y v payload lsn
     | DDelete y \<Rightarrow> and_then (col_delete tv c y lsn) (\<lambda>_ c1. (Inr (), c1)))"

section \<open>Queries\<close>

definition with_payload :: "'n meta \<Rightarrow> 'n json scored_result \<Rightarrow> 'n json scored_result" where
  "with_payload m r = r\<lparr>r_payload := meta_get m (r_id r)\<rparr>"

definition col_search ::
  "rt \<Rightarrow> ('n \<Rightarrow> f64 option) \<Rightarrow> ('n, 't) collection \<Rightarrow> vec \<Rightarrow> nat \<Rightarrow> 'n json option \<Rightarrow> bool \<Rightarrow>
     db_error + 'n json scored_result list"
where
  "col_search rt num c q k predicate include_payload =
     map_sum id (\<lambda>rs. if include_payload then map (with_payload (c_meta c)) rs else rs)
       (ix_search rt (c_index c) q k (make_filter num (c_meta c) predicate))"

definition col_fts_search :: "'t tantivy \<Rightarrow> ('n, 't) collection \<Rightarrow> string \<Rightarrow> nat \<Rightarrow> db_error + fts_result list" where
  "col_fts_search tv c query k = (case c_fts c of
       Some s \<Rightarrow> fts_search_docs tv s query k
     | None \<Rightarrow> Inr [])"

definition usize_max :: nat where
  "usize_max = 2 ^ 64 - 1"

definition rrf_term :: "u32 \<Rightarrow> nat \<Rightarrow> f32" where
  "rrf_term rrf_k rank0 = f32_div f32_one (f32_add (f32_add (f32_of_nat (unat rrf_k)) (f32_of_nat rank0)) f32_one)"

text \<open>\<open>for (rank0, r) in results.iter().enumerate()\<close> adding to the scores; a new entry starts at 0.0.\<close>

definition rrf_add :: "u32 \<Rightarrow> (vecid \<times> f32) list \<Rightarrow> vecid list \<Rightarrow> (vecid \<times> f32) list" where
  "rrf_add rrf_k scores ids = foldl (\<lambda>sc (rank0, y).
     hm_insert y (f32_add (case hm_get sc y of Some s \<Rightarrow> s | None \<Rightarrow> 0) (rrf_term rrf_k rank0)) sc)
     scores (enumerate 0 ids)"

definition rrf_rank :: "rt \<Rightarrow> (vecid \<times> f32) list \<Rightarrow> nat \<Rightarrow> (vecid \<times> f32) list" where
  "rrf_rank rt scores k = take k (sort_key (\<lambda>x. - okey (snd x))
     (map (\<lambda>y. (y, the (hm_get scores y))) (hash_iter rt (map fst scores))))"

definition hybrid_search ::
  "rt \<Rightarrow> 't tantivy \<Rightarrow> ('n \<Rightarrow> f64 option) \<Rightarrow> ('n, 't) collection \<Rightarrow> vec \<Rightarrow> string \<Rightarrow> nat \<Rightarrow> u32 \<Rightarrow>
     'n json option \<Rightarrow> bool \<Rightarrow> db_error + 'n json scored_result list"
where
  "hybrid_search rt tv num c q text k rrf_k predicate include_payload =
     (let candidate_k = max (min (k * 2) usize_max) k
      in case col_search rt num c q candidate_k predicate False of
           Inl e \<Rightarrow> Inl e
         | Inr vec_results \<Rightarrow> (case col_fts_search tv c text candidate_k of
             Inl e \<Rightarrow> Inl e
           | Inr fts_results \<Rightarrow>
               let scores = rrf_add rrf_k (rrf_add rrf_k [] (map r_id vec_results)) (map f_id fts_results);
                   results = map (\<lambda>(y, s). \<lparr>r_id = y, r_score = s, r_payload = None\<rparr>) (rrf_rank rt scores k)
               in Inr (if include_payload then map (with_payload (c_meta c)) results else results)))"

definition col_get :: "('n, 't) collection \<Rightarrow> vecid \<Rightarrow> (vec \<times> 'n json option) option" where
  "col_get c y = (case ix_get (c_index c) y of
       None \<Rightarrow> None
     | Some v \<Rightarrow> Some (v, meta_get (c_meta c) y))"

definition col_get_batch :: "('n, 't) collection \<Rightarrow> vecid list \<Rightarrow> (vec \<times> 'n json option) option list" where
  "col_get_batch c ids = map (col_get c) ids"

definition col_list_ids :: "rt \<Rightarrow> ('n, 't) collection \<Rightarrow> vecid list" where
  "col_list_ids rt c = ix_list_ids rt (c_index c)"

definition col_len :: "('n, 't) collection \<Rightarrow> nat" where
  "col_len c = ix_len (c_index c)"

definition col_is_empty :: "('n, 't) collection \<Rightarrow> bool" where
  "col_is_empty c = ix_is_empty (c_index c)"

definition col_index_type :: "('n, 't) collection \<Rightarrow> string" where
  "col_index_type c = ix_type (c_index c)"

definition col_tombstone_ratio :: "('n, 't) collection \<Rightarrow> f32" where
  "col_tombstone_ratio c = ix_tombstone_ratio (c_index c)"

section \<open>Compaction\<close>

definition prepare_index_compaction ::
  "('n, 't) collection \<Rightarrow> f32 \<Rightarrow> (db_error + prepared_compaction) option \<times> ('n, 't) collection"
where
  "prepare_index_compaction c threshold =
     (if c_journal c \<noteq> None \<or> f32_le (ix_tombstone_ratio (c_index c)) threshold then (None, c)
      else case ix_prepare_compaction (c_index c) of
          None \<Rightarrow> (None, c)
        | Some (Inl e) \<Rightarrow> (Some (Inl e), c)
        | Some (Inr p) \<Rightarrow> (Some (Inr p), c\<lparr>c_journal := Some []\<rparr>))"

text \<open>The journal is replayed with one level draw per entry.\<close>

fun replay_journal ::
  "rt \<Rightarrow> (nat \<Rightarrow> nat) \<Rightarrow> any_index \<Rightarrow> index_mutation list \<Rightarrow> db_error + any_index"
where
  "replay_journal rt ls ix [] = Inr ix"
| "replay_journal rt ls ix (MUpsert y v # ms) = (case ix_insert rt (ls (length ms)) ix y v of
      Inl e \<Rightarrow> Inl e
    | Inr ix' \<Rightarrow> replay_journal rt ls ix' ms)"
| "replay_journal rt ls ix (MDelete y # ms) = replay_journal rt ls (snd (ix_delete ix y)) ms"

definition finish_index_compaction ::
  "rt \<Rightarrow> (nat \<Rightarrow> nat) \<Rightarrow> ('n, 't) collection \<Rightarrow> any_index \<Rightarrow> (db_error + bool) \<times> ('n, 't) collection"
where
  "finish_index_compaction rt ls c built = (case c_journal c of
       None \<Rightarrow> (Inr False, c)
     | Some journal \<Rightarrow> (case replay_journal rt ls built journal of
           Inl e \<Rightarrow> (Inl e, c\<lparr>c_journal := None\<rparr>)
         | Inr ix \<Rightarrow> (Inr True, c\<lparr>c_journal := None, c_index := ix\<rparr>)))"

definition cancel_index_compaction :: "('n, 't) collection \<Rightarrow> ('n, 't) collection" where
  "cancel_index_compaction c = c\<lparr>c_journal := None\<rparr>"

definition compact_ivf_index ::
  "rt \<Rightarrow> (nat \<Rightarrow> nat) \<Rightarrow> ('n, 't) collection \<Rightarrow> (db_error + bool) \<times> ('n, 't) collection"
where
  "compact_ivf_index rt ls c =
     (if ix_type (c_index c) \<noteq> ''IvfIndex'' then (Inr False, c)
      else case ix_compact rt ls (c_index c) of
          None \<Rightarrow> (Inr False, c)
        | Some (Inl e) \<Rightarrow> (Inl e, c)
        | Some (Inr ix) \<Rightarrow> (Inr True, c\<lparr>c_index := ix\<rparr>))"

section \<open>What the mutations leave alone\<close>

text \<open>\<open>same_place\<close>: name, parameters and source binding of a collection never change.\<close>

definition same_place :: "('n, 't) collection \<Rightarrow> ('n, 't) collection \<Rightarrow> bool" where
  "same_place c c' \<longleftrightarrow> c_name c' = c_name c \<and> c_dim c' = c_dim c \<and> c_metric c' = c_metric c \<and>
     c_source_binding c' = c_source_binding c \<and> c_source_snapshot_id c' = c_source_snapshot_id c"

lemma same_place_refl [simp]: "same_place c c"
  by (simp add: same_place_def)

lemma same_place_trans: "same_place a b \<Longrightarrow> same_place b c \<Longrightarrow> same_place a c"
  by (simp add: same_place_def)

lemma on_fts_frame:
  assumes "on_fts step c = (r, c')"
  shows "c_index c' = c_index c \<and> c_journal c' = c_journal c \<and> same_place c c' \<and> c_meta c' = c_meta c"
proof (cases "c_fts c")
  case (Some s)
  then show ?thesis using assms by (cases "step s") (auto simp: on_fts_def same_place_def)
qed (use assms in \<open>simp add: on_fts_def\<close>)

definition payload_upd :: "vecid \<Rightarrow> 'n json option \<Rightarrow> 'n meta \<Rightarrow> 'n meta" where
  "payload_upd y payload m = (case payload of Some p \<Rightarrow> m(y \<mapsto> p) | None \<Rightarrow> m)"

lemma dom_payload_upd: "dom (payload_upd y payload m) \<subseteq> {y} \<union> dom m"
  by (auto simp: payload_upd_def split: option.split)

text \<open>A payload touches the payload store and the full-text index only.\<close>

lemma apply_insert_payload_frame:
  assumes "apply_insert_payload tv c y payload lsn = (r, c')"
  shows "c_index c' = c_index c \<and> c_journal c' = c_journal c \<and> same_place c c' \<and>
    c_meta c' = (if r = Inr () then payload_upd y payload (c_meta c) else c_meta c)"
proof (cases payload)
  case None
  then show ?thesis using assms by (auto simp: apply_insert_payload_def payload_upd_def)
next
  case (Some p)
  obtain r1 c1 where f: "on_fts (\<lambda>s. fts_upsert tv s y p lsn) c = (r1, c1)"
    by (cases "on_fts (\<lambda>s. fts_upsert tv s y p lsn) c")
  note c1 = on_fts_frame [OF f]
  show ?thesis
  proof (cases r1)
    case (Inl e)
    then show ?thesis using assms f c1 Some by (auto simp: apply_insert_payload_def)
  next
    case (Inr u)
    then have "c' = c1\<lparr>c_meta := (c_meta c1)(y \<mapsto> p)\<rparr>" "r = Inr ()"
      using assms f Some by (simp_all add: apply_insert_payload_def meta_defs)
    then show ?thesis using c1 Some by (simp add: same_place_def payload_upd_def)
  qed
qed

lemma apply_payloads_frame:
  assumes "apply_payloads tv c rs = (r, c')"
  shows "c_index c' = c_index c \<and> c_journal c' = c_journal c \<and> same_place c c' \<and>
    dom (c_meta c') \<subseteq> dom (c_meta c) \<union> fst ` set rs"
  using assms
proof (induction rs arbitrary: c)
  case (Cons x rs)
  obtain y v payload lsn where x: "x = (y, v, payload, lsn)" by (cases x)
  obtain r1 c1 where f: "apply_insert_payload tv c y payload lsn = (r1, c1)"
    by (cases "apply_insert_payload tv c y payload lsn")
  note c1 = apply_insert_payload_frame [OF f]
  have dom1: "dom (c_meta c1) \<subseteq> {y} \<union> dom (c_meta c)"
    using c1 dom_payload_upd [of y payload "c_meta c"] by auto
  show ?case
  proof (cases r1)
    case (Inl e)
    then show ?thesis using Cons.prems f c1 dom1 x by auto
  next
    case (Inr u)
    then have "apply_payloads tv c1 rs = (r, c')" using Cons.prems f x by simp
    note c2 = Cons.IH [OF this]
    then have "dom (c_meta c') \<subseteq> dom (c_meta c) \<union> fst ` set ((y, v, payload, lsn) # rs)"
      using dom1 by simp blast
    moreover have "same_place c c'" using c1 c2 same_place_trans by blast
    ultimately show ?thesis using c1 c2 by (simp add: x)
  qed
qed simp

lemma journal_push_sel [simp]:
  "c_index (journal_push ms c) = c_index c" "c_meta (journal_push ms c) = c_meta c"
  "c_fts (journal_push ms c) = c_fts c" "c_journal (journal_push ms c) = map_option (\<lambda>j. j @ ms) (c_journal c)"
  "same_place c (journal_push ms c)"
  by (simp_all add: journal_push_def same_place_def)

section \<open>The invariant\<close>

definition col_inv :: "(nat \<Rightarrow> nat \<Rightarrow> bool \<Rightarrow> bool) \<Rightarrow> rt \<Rightarrow> ('n, 't) collection \<Rightarrow> bool" where
  "col_inv P rt c \<longleftrightarrow> any_inv P rt (c_index c) \<and> ix_dim (c_index c) = c_dim c \<and>
     dom (c_meta c) \<subseteq> dom (ix_get (c_index c))"

lemma col_inv_insert:
  assumes "col_inv P rt c" "col_insert rt tv l c y v payload lsn = (r, c')"
  shows "col_inv P rt c' \<and> same_place c c' \<and>
    (length v = c_dim c \<longrightarrow> ix_insert rt l (c_index c) y v = Inr (c_index c') \<and>
       c_journal c' = map_option (\<lambda>j. j @ [MUpsert y v]) (c_journal c) \<and>
       c_meta c' = (if r = Inr () then payload_upd y payload (c_meta c) else c_meta c)) \<and>
    (length v \<noteq> c_dim c \<longrightarrow> r = Inl (DimMismatch (c_dim c) (length v)) \<and> c' = c)"
proof -
  have ok: "any_inv P rt (c_index c)" and d: "ix_dim (c_index c) = c_dim c"
    and m: "dom (c_meta c) \<subseteq> dom (ix_get (c_index c))" using assms(1) by (simp_all add: col_inv_def)
  from ok show ?thesis
  proof (cases rule: any.insert_cases [where v = v and l = l and y = y])
    case err
    then have "col_insert rt tv l c y v payload lsn = (Inl (DimMismatch (c_dim c) (length v)), c)"
      using d by (simp add: col_insert_def)
    then have "r = Inl (DimMismatch (c_dim c) (length v))" "c' = c" using assms(2) by auto
    then show ?thesis using assms(1) err(1) d by (metis same_place_refl)
  next
    case (success ix)
    let ?c1 = "journal_push [MUpsert y v] (c\<lparr>c_index := ix\<rparr>)"
    have "apply_insert_payload tv ?c1 y payload lsn = (r, c')" using assms(2) success by (simp add: col_insert_def)
    note f = apply_insert_payload_frame [OF this]
    have sp: "same_place c ?c1" by (simp add: journal_push_def same_place_def)
    have "dom (c_meta c') \<subseteq> {y} \<union> dom (c_meta c)" using f dom_payload_upd [of y payload "c_meta c"] by auto
    also have "\<dots> \<subseteq> dom (ix_get ix)" using success(5) m by blast
    finally have "dom (c_meta c') \<subseteq> dom (ix_get ix)" .
    moreover have "c_index c' = ix" using f by simp
    moreover have "same_place c c'" using sp f same_place_trans by blast
    ultimately have "col_inv P rt c'" using success d by (simp add: col_inv_def same_place_def)
    then show ?thesis using f success \<open>same_place c c'\<close> d by simp
  qed
qed

lemma col_inv_delete:
  assumes "col_inv P rt c" "col_delete tv c y lsn = (r, c')"
  shows "col_inv P rt c' \<and> same_place c c' \<and> ix_delete (c_index c) y = (ix_get (c_index c) y \<noteq> None, c_index c') \<and>
    ix_get (c_index c') = (ix_get (c_index c))(y := None) \<and>
    c_journal c' = (if ix_get (c_index c) y \<noteq> None then map_option (\<lambda>j. j @ [MDelete y]) (c_journal c) else c_journal c) \<and>
    c_meta c' = (c_meta c)(y := None) \<and> (\<forall>b. r = Inr b \<longrightarrow> b = (ix_get (c_index c) y \<noteq> None))"
proof -
  have ok: "any_inv P rt (c_index c)" and d: "ix_dim (c_index c) = c_dim c"
    and m: "dom (c_meta c) \<subseteq> dom (ix_get (c_index c))" using assms(1) by (simp_all add: col_inv_def)
  obtain b ix where del: "ix_delete (c_index c) y = (b, ix)" by (cases "ix_delete (c_index c) y")
  note ix = any.delete_ok [OF ok del]
  let ?c1 = "if b then journal_push [MDelete y] (c\<lparr>c_index := ix\<rparr>) else c\<lparr>c_index := ix\<rparr>"
  let ?c2 = "?c1\<lparr>c_meta := snd (meta_remove (c_meta ?c1) y)\<rparr>"
  obtain r1 c3 where f: "on_fts (\<lambda>s. fts_remove tv s y lsn) ?c2 = (r1, c3)"
    by (cases "on_fts (\<lambda>s. fts_remove tv s y lsn) ?c2")
  have c3: "c' = c3" "\<forall>b'. r = Inr b' \<longrightarrow> b' = b"
    using assms(2) f by (cases r1; auto simp: col_delete_def del)+
  note fr = on_fts_frame [OF f]
  have c2: "c_index ?c2 = ix" "c_meta ?c2 = (c_meta c)(y := None)" "same_place c ?c2"
      "c_journal ?c2 = (if b then map_option (\<lambda>j. j @ [MDelete y]) (c_journal c) else c_journal c)"
    by (auto simp: meta_defs journal_push_def same_place_def)
  have c': "c_index c' = ix" "c_meta c' = (c_meta c)(y := None)" "same_place c c'"
      "c_journal c' = (if b then map_option (\<lambda>j. j @ [MDelete y]) (c_journal c) else c_journal c)"
    using fr c2 c3(1) same_place_trans by (simp_all, blast?)
  have "dom (c_meta c') \<subseteq> dom (ix_get ix)" using m ix c'(2) by auto
  then have "col_inv P rt c'" using ix c' d by (simp add: col_inv_def same_place_def)
  then show ?thesis using c' ix del c3(2) by simp
qed

lemma upsert_rows [simp]: "(\<lambda>(y, v). MUpsert y v) \<circ> (\<lambda>(y, v, p, n). (y, v)) = (\<lambda>(y, v, p, n). MUpsert y v)"
  by auto

lemma col_inv_batch:
  assumes "col_inv P rt c" "col_insert_batch_with_lsns rt tv ls c rs = (r, c')"
  shows "col_inv P rt c' \<and> same_place c c' \<and>
    (if \<forall>(y, v, p, n) \<in> set rs. length v = c_dim c
     then ix_insert_batch rt ls (c_index c) (map (\<lambda>(y, v, _, _). (y, v)) rs) = (Inr (), c_index c') \<and>
       c_journal c' = map_option (\<lambda>j. j @ map (\<lambda>(y, v, _, _). MUpsert y v) rs) (c_journal c)
     else c_index c' = snd (ix_insert_batch rt ls (c_index c) (map (\<lambda>(y, v, _, _). (y, v)) rs)) \<and>
       (\<exists>n. r = Inl (DimMismatch (c_dim c) n)) \<and> c_journal c' = c_journal c \<and> c_meta c' = c_meta c)"
proof -
  have ok: "any_inv P rt (c_index c)" and d: "ix_dim (c_index c) = c_dim c"
    and m: "dom (c_meta c) \<subseteq> dom (ix_get (c_index c))" using assms(1) by (simp_all add: col_inv_def)
  let ?vs = "map (\<lambda>(y, v, _, _). (y, v)) rs"
  have all: "(\<forall>(y, v) \<in> set ?vs. length v = ix_dim (c_index c)) \<longleftrightarrow> (\<forall>(y, v, p, n) \<in> set rs. length v = c_dim c)"
    by (auto simp: d)
  have keys: "fst ` set ?vs = fst ` set rs" by force
  show ?thesis
  proof (cases "\<forall>(y, v) \<in> set ?vs. length v = ix_dim (c_index c)")
    case True
    then obtain ix where ix: "ix_insert_batch rt ls (c_index c) ?vs = (Inr (), ix)" "any_inv P rt ix"
        "ix_dim ix = ix_dim (c_index c)" "dom (ix_get ix) = dom (ix_get (c_index c)) \<union> fst ` set rs"
      using any.batch_ok [OF ok True, of ls] keys by auto
    let ?c1 = "journal_push (map (\<lambda>(y, v). MUpsert y v) ?vs) (c\<lparr>c_index := ix\<rparr>)"
    have "apply_payloads tv ?c1 rs = (r, c')" using assms(2) ix(1) by (simp add: col_insert_batch_with_lsns_def)
    note f = apply_payloads_frame [OF this]
    have sp: "same_place c ?c1" by (simp add: journal_push_def same_place_def)
    have c': "c_index c' = ix" "same_place c c'"
        "c_journal c' = map_option (\<lambda>j. j @ map (\<lambda>(y, v, _, _). MUpsert y v) rs) (c_journal c)"
      using f sp same_place_trans [OF sp] by simp_all
    have "dom (c_meta c') \<subseteq> dom (c_meta c) \<union> fst ` set rs" using f by simp
    also have "\<dots> \<subseteq> dom (ix_get ix)" using m ix(4) by blast
    finally have "col_inv P rt c'" using ix c' d by (simp add: col_inv_def same_place_def)
    then show ?thesis using c' ix(1) True all by simp
  next
    case False
    obtain n ix where ix: "ix_insert_batch rt ls (c_index c) ?vs = (Inl (DimMismatch (c_dim c) n), ix)" "any_inv P rt ix"
        "ix_dim ix = ix_dim (c_index c)" "dom (ix_get (c_index c)) \<subseteq> dom (ix_get ix)"
      using any.batch_err [OF ok False, of ls] d by auto
    have "r = Inl (DimMismatch (c_dim c) n)" "c' = c\<lparr>c_index := ix\<rparr>"
      using assms(2) ix(1) by (simp_all add: col_insert_batch_with_lsns_def)
    moreover from this have "col_inv P rt c'" using ix m d by (auto simp: col_inv_def)
    moreover have nall: "\<not> (\<forall>(y, v, p, n) \<in> set rs. length v = c_dim c)" using False all by blast
    ultimately show ?thesis unfolding if_not_P [OF nall] using ix(1) by (simp add: same_place_def)
  qed
qed

section \<open>Rows of a delta\<close>

text \<open>A row applied to the pair of vectors and payloads.\<close>

type_synonym 'n contents = "(vecid \<Rightarrow> vec option) \<times> 'n meta"

definition contents :: "('n, 't) collection \<Rightarrow> 'n contents" where
  "contents c = (ix_get (c_index c), c_meta c)"

fun delta_spec :: "'n contents \<Rightarrow> 'n delta_row \<Rightarrow> 'n contents" where
  "delta_spec (vs, m) (DUpsert y v p) = (vs(y \<mapsto> v), payload_upd y p m)"
| "delta_spec (vs, m) (DDelete y) = (vs(y := None), m(y := None))"

fun row_id :: "'n delta_row \<Rightarrow> vecid" where
  "row_id (DUpsert y v p) = y"
| "row_id (DDelete y) = y"

fun keeps_payload :: "'n delta_row \<Rightarrow> bool" where
  "keeps_payload (DUpsert y v p) \<longleftrightarrow> p = None"
| "keeps_payload (DDelete y) \<longleftrightarrow> False"

text \<open>Two contents that differ at most where the rows write.\<close>

definition agree :: "'n delta_row list \<Rightarrow> 'n contents \<Rightarrow> 'n contents \<Rightarrow> bool" where
  "agree rs x x' \<longleftrightarrow> (\<forall>y. (\<forall>r \<in> set rs. row_id r \<noteq> y) \<longrightarrow> fst x y = fst x' y) \<and>
     (\<forall>y. (\<forall>r \<in> set rs. row_id r = y \<longrightarrow> keeps_payload r) \<longrightarrow> snd x y = snd x' y)"

lemma agree_refl [simp]: "agree rs x x"
  by (simp add: agree_def)

lemma agree_trans: "agree rs x x' \<Longrightarrow> agree rs x' x'' \<Longrightarrow> agree rs x x''"
  by (simp add: agree_def)

lemma agree_mono: "agree rs x x' \<Longrightarrow> set rs \<subseteq> set rs' \<Longrightarrow> agree rs' x x'"
  unfolding agree_def by blast

lemma agree_row: "agree [r] x (delta_spec x r)"
  by (cases x; cases r) (auto simp: agree_def payload_upd_def split: option.split)

lemma agree_row_vector: "agree [r] x (fst (delta_spec x r), snd x)"
  by (cases x; cases r) (auto simp: agree_def)

lemma agree_delta_spec: "agree (r # rs) x x' \<Longrightarrow> agree rs (delta_spec x r) (delta_spec x' r)"
  by (cases x; cases x'; cases r)
    (auto simp: agree_def payload_upd_def split: option.split)

text \<open>Every row writes a value of its own, so the whole list fixes everything the rows touch.\<close>

lemma agree_fold: "agree rs x x' \<Longrightarrow> foldl delta_spec x rs = foldl delta_spec x' rs"
proof (induction rs arbitrary: x x')
  case Nil
  then have "fst x = fst x'" "snd x = snd x'" by (auto simp: agree_def)
  then show ?case by (simp add: prod_eq_iff)
next
  case (Cons r rs)
  then show ?case using agree_delta_spec [OF Cons.prems] by simp
qed

text \<open>One row: the specification on success, and nothing but the row's own id on failure.\<close>

lemma apply_delta_row_spec:
  assumes inv: "col_inv raw_params rt c" and r: "apply_delta_row rt tv l c dr lsn = (res, c')"
  shows "col_inv raw_params rt c' \<and> same_place c c' \<and> agree [dr] (contents c) (contents c') \<and>
    (res = Inr () \<longrightarrow> contents c' = delta_spec (contents c) dr)"
proof (cases dr)
  case (DUpsert y v p)
  then have i: "col_insert rt tv l c y v p lsn = (res, c')" using r by (simp add: apply_delta_row_def)
  note c' = col_inv_insert [OF inv i]
  show ?thesis
  proof (cases "length v = c_dim c")
    case True
    then have ix: "ix_insert rt l (c_index c) y v = Inr (c_index c')" using c' by simp
    have "ix_get (c_index c') = (ix_get (c_index c))(y \<mapsto> v)"
      using any_raw.insert_get [OF _ ix] inv by (simp add: col_inv_def)
    then have "contents c' = (if res = Inr () then delta_spec (contents c) dr
        else (fst (delta_spec (contents c) dr), snd (contents c)))"
      using c' True by (simp add: contents_def DUpsert)
    then show ?thesis using c' agree_row [of dr "contents c"] agree_row_vector [of dr "contents c"]
      by (auto split: if_splits)
  next
    case False
    then show ?thesis using c' inv by simp
  qed
next
  case (DDelete y)
  obtain b where d: "col_delete tv c y lsn = (b, c')" and b: "res = Inr () \<longrightarrow> (\<exists>x. b = Inr x)"
    using r by (cases "col_delete tv c y lsn"; cases "fst (col_delete tv c y lsn)") (auto simp: DDelete apply_delta_row_def)
  note c' = col_inv_delete [OF inv d]
  then have "contents c' = delta_spec (contents c) dr" by (simp add: contents_def DDelete)
  then show ?thesis using c' agree_row [of dr "contents c"] by simp
qed

text \<open>The loop over the rows of a delta; the first error ends it.\<close>

fun apply_delta_rows ::
  "rt \<Rightarrow> 't tantivy \<Rightarrow> (nat \<Rightarrow> nat) \<Rightarrow> ('n, 't) collection \<Rightarrow> 'n delta_row list \<Rightarrow> u64 \<Rightarrow>
     (db_error + unit) \<times> ('n, 't) collection"
where
  "apply_delta_rows rt tv ls c [] lsn = (Inr (), c)"
| "apply_delta_rows rt tv ls c (r # rs) lsn =
     and_then (apply_delta_row rt tv (ls (length rs)) c r lsn) (\<lambda>_ c1. apply_delta_rows rt tv ls c1 rs lsn)"

lemma apply_delta_rows_spec:
  assumes "col_inv raw_params rt c" "apply_delta_rows rt tv ls c rs lsn = (res, c')"
  shows "col_inv raw_params rt c' \<and> same_place c c' \<and> agree rs (contents c) (contents c') \<and>
    (res = Inr () \<longrightarrow> contents c' = foldl delta_spec (contents c) rs)"
  using assms
proof (induction rs arbitrary: c)
  case (Cons r rs)
  obtain q c1 where 1: "apply_delta_row rt tv (ls (length rs)) c r lsn = (q, c1)"
    by (cases "apply_delta_row rt tv (ls (length rs)) c r lsn")
  note s1 = apply_delta_row_spec [OF Cons.prems(1) 1]
  then have a1: "agree (r # rs) (contents c) (contents c1)" using agree_mono [of "[r]" _ _ "r # rs"] by auto
  show ?case
  proof (cases q)
    case (Inl e)
    then show ?thesis using Cons.prems(2) 1 s1 a1 by auto
  next
    case (Inr u)
    then have "apply_delta_rows rt tv ls c1 rs lsn = (res, c')" using Cons.prems(2) 1 by simp
    note s2 = Cons.IH [OF conjunct1 [OF s1] this]
    have "agree (r # rs) (contents c) (contents c')"
      using a1 agree_mono [of rs "contents c1" "contents c'" "r # rs"] s2 agree_trans by fastforce
    then show ?thesis using s1 s2 Inr same_place_trans by fastforce
  qed
qed simp

section \<open>With a working text index\<close>

lemma fts_upsert_works: "fts_works tv docs \<Longrightarrow> \<exists>s'. fts_upsert tv s y p lsn = (Inr (), s')"
  using fts_index_document_ok [of tv docs s y "extract_text_fields p"] fts_set_lsn_ok [of tv docs]
  by (fastforce simp: fts_upsert_def Let_def)

lemma fts_remove_works: "fts_works tv docs \<Longrightarrow> \<exists>s'. fts_remove tv s y lsn = (Inr (), s')"
  using fts_delete_document_ok [of tv docs s y] fts_set_lsn_ok [of tv docs]
  by (fastforce simp: fts_remove_def)

lemma on_fts_works: "(\<And>s. \<exists>s'. step s = (Inr (), s')) \<Longrightarrow> \<exists>c'. on_fts step c = (Inr (), c')"
proof (cases "c_fts c")
  case (Some s)
  moreover assume "\<And>s. \<exists>s'. step s = (Inr (), s')"
  then obtain s' where "step s = (Inr (), s')" by blast
  ultimately show ?thesis by (simp add: on_fts_def)
qed (simp add: on_fts_def)

lemma apply_insert_payload_works:
  assumes "fts_works tv docs"
  shows "\<exists>c'. apply_insert_payload tv c y p lsn = (Inr (), c')"
proof (cases p)
  case (Some x)
  obtain c1 where "on_fts (\<lambda>s. fts_upsert tv s y x lsn) c = (Inr (), c1)"
    using on_fts_works [of "\<lambda>s. fts_upsert tv s y x lsn" c] fts_upsert_works [OF assms] by blast
  then show ?thesis by (simp add: Some apply_insert_payload_def)
qed (simp add: apply_insert_payload_def)

lemma col_insert_works:
  assumes "fts_works tv docs" "col_inv P rt c" "length v = c_dim c"
  shows "\<exists>c'. col_insert rt tv l c y v p lsn = (Inr (), c')"
proof -
  obtain ix where "ix_insert rt l (c_index c) y v = Inr ix"
    using any.insert_total [of v "c_index c" rt l y] assms(2,3) by (auto simp: col_inv_def)
  then show ?thesis using apply_insert_payload_works [OF assms(1)] by (simp add: col_insert_def)
qed

lemma col_delete_works:
  assumes "fts_works tv docs"
  shows "\<exists>b c'. col_delete tv c y lsn = (Inr b, c')"
proof -
  obtain b ix where d: "ix_delete (c_index c) y = (b, ix)" by (cases "ix_delete (c_index c) y")
  let ?c1 = "if b then journal_push [MDelete y] (c\<lparr>c_index := ix\<rparr>) else c\<lparr>c_index := ix\<rparr>"
  let ?c2 = "?c1\<lparr>c_meta := snd (meta_remove (c_meta ?c1) y)\<rparr>"
  obtain c3 where "on_fts (\<lambda>s. fts_remove tv s y lsn) ?c2 = (Inr (), c3)"
    using on_fts_works [of "\<lambda>s. fts_remove tv s y lsn" ?c2] fts_remove_works [OF assms] by blast
  then have "col_delete tv c y lsn = (Inr b, c3)" by (simp add: col_delete_def d)
  then show ?thesis by blast
qed

text \<open>The payloads of a batch, in order.\<close>

definition batch_meta :: "'n batch_row list \<Rightarrow> 'n meta \<Rightarrow> 'n meta" where
  "batch_meta rs m = foldl (\<lambda>m (y, v, p, n). payload_upd y p m) m rs"

lemma apply_payloads_works:
  assumes "fts_works tv docs"
  shows "\<exists>c'. apply_payloads tv c rs = (Inr (), c') \<and> c_meta c' = batch_meta rs (c_meta c)"
proof (induction rs arbitrary: c)
  case (Cons x rs)
  obtain y v p n where x: "x = (y, v, p, n)" by (cases x)
  obtain c1 where 1: "apply_insert_payload tv c y p n = (Inr (), c1)" using apply_insert_payload_works [OF assms] by blast
  then have "c_meta c1 = payload_upd y p (c_meta c)" using apply_insert_payload_frame [OF 1] by simp
  then show ?case using Cons.IH [of c1] 1 by (simp add: x batch_meta_def)
qed (simp add: batch_meta_def)

lemma col_insert_batch_works:
  assumes "fts_works tv docs" "col_inv P rt c" "\<forall>(y, v, p, n) \<in> set rs. length v = c_dim c"
  shows "\<exists>c'. col_insert_batch_with_lsns rt tv ls c rs = (Inr (), c') \<and> c_meta c' = batch_meta rs (c_meta c)"
proof -
  let ?vs = "map (\<lambda>(y, v, _, _). (y, v)) rs"
  have "\<forall>(y, v) \<in> set ?vs. length v = ix_dim (c_index c)" using assms(2,3) by (auto simp: col_inv_def)
  then obtain ix where "ix_insert_batch rt ls (c_index c) ?vs = (Inr (), ix)"
    using any.batch_ok [of P rt "c_index c" ?vs ls] assms(2) by (auto simp: col_inv_def)
  moreover obtain c' where "apply_payloads tv (journal_push (map (\<lambda>(y, v). MUpsert y v) ?vs) (c\<lparr>c_index := ix\<rparr>)) rs = (Inr (), c')"
      "c_meta c' = batch_meta rs (c_meta c)"
    using apply_payloads_works [OF assms(1), of "journal_push (map (\<lambda>(y, v). MUpsert y v) ?vs) (c\<lparr>c_index := ix\<rparr>)" rs]
    by auto
  ultimately show ?thesis by (simp add: col_insert_batch_with_lsns_def)
qed

end
