(* ===== verification/Compaction.thy ===== *)
theory Compaction
  imports Collection
begin

text \<open>
  Compaction of a live collection (\<open>prepare_index_compaction\<close> to \<open>finish_index_compaction\<close> of
  \<open>collection.rs\<close>): while a plan is rebuilt elsewhere the collection journals its index mutations. The
  invariant \<open>journal_tracks\<close> says that the journal, replayed on the captured contents, gives the live
  contents; it holds through every operation, and the swap depends on nothing else.
\<close>

lemma hnsw_type_iff: "ix_type ix = ''HnswIndex'' \<longleftrightarrow> (\<exists>s. ix = HnswIndex s)"
  by (cases ix) (simp_all add: ix_type_def)

lemma hnsw_raw: "ix_type ix = ''HnswIndex'' \<Longrightarrow> any_inv P rt ix \<Longrightarrow> any_inv Q rt ix"
  by (auto simp: hnsw_type_iff any_inv_def)

section \<open>The journal\<close>

text \<open>What a journal does to the contents of an index.\<close>

fun journal_map :: "index_mutation list \<Rightarrow> (vecid \<Rightarrow> vec option) \<Rightarrow> vecid \<Rightarrow> vec option" where
  "journal_map [] m = m"
| "journal_map (MUpsert y v # ms) m = journal_map ms (m(y \<mapsto> v))"
| "journal_map (MDelete y # ms) m = journal_map ms (m(y := None))"

lemma journal_map_append: "journal_map (xs @ ys) m = journal_map ys (journal_map xs m)"
  by (induction xs m rule: journal_map.induct) (simp_all del: fun_upd_apply)

lemma journal_map_upserts:
  "journal_map (map (\<lambda>(y, v, p, n). MUpsert y v) rs) m = m ++ map_of (rev (map (\<lambda>(y, v, p, n). (y, v)) rs))"
proof (induction rs arbitrary: m)
  case (Cons x rs)
  obtain y v p n where "x = (y, v, p, n)" by (cases x)
  then show ?case using Cons [of "m(y \<mapsto> v)"] by (simp del: fun_upd_apply)
qed simp

definition journal_dims :: "nat \<Rightarrow> index_mutation list \<Rightarrow> bool" where
  "journal_dims d ms \<longleftrightarrow> (\<forall>y v. MUpsert y v \<in> set ms \<longrightarrow> length v = d)"

lemma journal_dims_simps [simp]:
  "journal_dims d []" "journal_dims d (MUpsert y v # ms) \<longleftrightarrow> length v = d \<and> journal_dims d ms"
  "journal_dims d (MDelete y # ms) \<longleftrightarrow> journal_dims d ms"
  "journal_dims d (xs @ ys) \<longleftrightarrow> journal_dims d xs \<and> journal_dims d ys"
  by (auto simp: journal_dims_def)

lemma journal_dims_upserts:
  "journal_dims d (map (\<lambda>(y, v, p, n). MUpsert y v) rs) \<longleftrightarrow> (\<forall>(y, v, p, n) \<in> set rs. length v = d)"
  by (induction rs) auto

text \<open>Replaying a journal cannot fail, and gives the contents the journal says.\<close>

lemma replay_journal_ok:
  assumes "any_inv raw_params rt ix" "journal_dims (ix_dim ix) ms"
  shows "\<exists>ix'. replay_journal rt ls ix ms = Inr ix' \<and> any_inv raw_params rt ix' \<and> ix_dim ix' = ix_dim ix \<and>
    ix_get ix' = journal_map ms (ix_get ix)"
  using assms
proof (induction rt ls ix ms rule: replay_journal.induct)
  case (2 rt ls ix y v ms)
  obtain ix1 where i1: "ix_insert rt (ls (length ms)) ix y v = Inr ix1"
    using any.insert_total [of v ix rt "ls (length ms)" y] 2(3) by auto
  have "any_inv raw_params rt ix1 \<and> ix_dim ix1 = ix_dim ix" using any.insert_ok [OF 2(2) i1] by simp
  moreover have "ix_get ix1 = (ix_get ix)(y \<mapsto> v)" by (rule any_raw.insert_get [OF 2(2) i1])
  ultimately show ?case using 2(1) [OF i1] 2(3) i1 by (simp del: fun_upd_apply)
next
  case (3 rt ls ix y ms)
  have "any_inv raw_params rt (snd (ix_delete ix y)) \<and> ix_dim (snd (ix_delete ix y)) = ix_dim ix \<and>
      ix_get (snd (ix_delete ix y)) = (ix_get ix)(y := None)"
    using any.delete_ok [OF 3(2), of y] by (cases "ix_delete ix y") simp
  then show ?case using 3(1,3) by (simp del: fun_upd_apply)
qed simp

text \<open>The journal of a collection, replayed on the contents at the time of the capture, gives the live contents.\<close>

definition journal_tracks :: "(vecid \<Rightarrow> vec option) \<Rightarrow> ('n, 't) collection \<Rightarrow> bool" where
  "journal_tracks base c \<longleftrightarrow> (\<exists>j. c_journal c = Some j \<and> ix_type (c_index c) = ''HnswIndex'' \<and>
     journal_dims (c_dim c) j \<and> journal_map j base = ix_get (c_index c))"

datatype 'n col_op =
    OInsert nat vecid vec "'n json option" u64
  | OBatch "nat \<Rightarrow> nat" "'n batch_row list"
  | ODelete vecid u64
  | OPrepare f32
  | OCompactIvf "nat \<Rightarrow> nat"

fun run_op :: "rt \<Rightarrow> 't tantivy \<Rightarrow> ('n, 't) collection \<Rightarrow> 'n col_op \<Rightarrow> ('n, 't) collection" where
  "run_op rt tv c (OInsert l y v p lsn) = snd (col_insert rt tv l c y v p lsn)"
| "run_op rt tv c (OBatch ls rs) = snd (col_insert_batch_with_lsns rt tv ls c rs)"
| "run_op rt tv c (ODelete y lsn) = snd (col_delete tv c y lsn)"
| "run_op rt tv c (OPrepare t) = snd (prepare_index_compaction c t)"
| "run_op rt tv c (OCompactIvf ls) = snd (compact_ivf_index rt ls c)"

lemma journal_tracks_insert:
  assumes inv: "col_inv raw_params rt c" and tr: "journal_tracks base c"
    and r: "col_insert rt tv l c y v p lsn = (r, c')"
  shows "journal_tracks base c'"
proof (cases "length v = c_dim c")
  case True
  obtain j where j: "c_journal c = Some j" "ix_type (c_index c) = ''HnswIndex''" "journal_dims (c_dim c) j"
      "journal_map j base = ix_get (c_index c)" using tr by (auto simp: journal_tracks_def)
  note c' = col_inv_insert [OF inv r]
  then have i: "ix_insert rt l (c_index c) y v = Inr (c_index c')" using True by simp
  have "ix_get (c_index c') = (ix_get (c_index c))(y \<mapsto> v)"
    using any_raw.insert_get [OF _ i] inv by (simp add: col_inv_def)
  then have "journal_map (j @ [MUpsert y v]) base = ix_get (c_index c')" by (simp add: journal_map_append j)
  then show ?thesis using c' True j ix_type_ops(1) [OF i]
    by (simp add: journal_tracks_def same_place_def)
next
  case False
  then show ?thesis using col_inv_insert [OF inv r] tr by simp
qed

lemma journal_tracks_batch:
  assumes inv: "col_inv raw_params rt c" and tr: "journal_tracks base c"
    and r: "col_insert_batch_with_lsns rt tv ls c rs = (r, c')"
  shows "journal_tracks base c'"
proof -
  obtain j where j: "c_journal c = Some j" "ix_type (c_index c) = ''HnswIndex''" "journal_dims (c_dim c) j"
      "journal_map j base = ix_get (c_index c)" using tr by (auto simp: journal_tracks_def)
  have ok: "any_inv raw_params rt (c_index c)" and d: "ix_dim (c_index c) = c_dim c"
    using inv by (simp_all add: col_inv_def)
  note c' = col_inv_batch [OF inv r]
  let ?vs = "map (\<lambda>(y, v, _, _). (y, v)) rs"
  show ?thesis
  proof (cases "\<forall>(y, v, p, n) \<in> set rs. length v = c_dim c")
    case True
    then have i: "ix_insert_batch rt ls (c_index c) ?vs = (Inr (), c_index c')"
      and j': "c_journal c' = Some (j @ map (\<lambda>(y, v, _, _). MUpsert y v) rs)"
      using c' j(1) by simp_all
    have "\<forall>(y, v) \<in> set ?vs. length v = ix_dim (c_index c)" using True d by auto
    note any_raw.batch_get [OF ok this i]
    then have "journal_map (j @ map (\<lambda>(y, v, _, _). MUpsert y v) rs) base = ix_get (c_index c')"
      by (simp add: journal_map_append j journal_map_upserts)
    then show ?thesis using c' True j j' ix_type_ops(2) [OF i]
      by (simp add: journal_tracks_def same_place_def journal_dims_upserts)
  next
    case False
    obtain s where s: "c_index c = HnswIndex s" using j(2) by (auto simp: hnsw_type_iff)
    have "\<not> (\<forall>(y, v) \<in> set ?vs. length v = h_dim s)"
      using False d by (auto simp: s ix_dim_def case_prod_beta)
    then have "snd (ix_insert_batch rt ls (c_index c) ?vs) = c_index c"
      using build_from_vecs_err [of ?vs s rt ls] by (auto simp: s ix_insert_batch_def)
    then have "c_index c' = c_index c" "c_journal c' = Some j" "same_place c c'"
      using c' j(1) unfolding if_not_P [OF False] by simp_all
    then show ?thesis using j by (simp add: journal_tracks_def same_place_def)
  qed
qed

lemma journal_tracks_delete:
  assumes inv: "col_inv raw_params rt c" and tr: "journal_tracks base c" and r: "col_delete tv c y lsn = (r, c')"
  shows "journal_tracks base c'"
proof -
  obtain j where j: "c_journal c = Some j" "ix_type (c_index c) = ''HnswIndex''" "journal_dims (c_dim c) j"
      "journal_map j base = ix_get (c_index c)" using tr by (auto simp: journal_tracks_def)
  note c' = col_inv_delete [OF inv r]
  then have i: "ix_delete (c_index c) y = (ix_get (c_index c) y \<noteq> None, c_index c')"
    and g: "ix_get (c_index c') = (ix_get (c_index c))(y := None)" by simp_all
  show ?thesis
  proof (cases "ix_get (c_index c) y = None")
    case True
    then have "ix_get (c_index c') = ix_get (c_index c)" using g by (simp add: fun_upd_idem)
    then show ?thesis using c' True j ix_type_ops(3) [OF i] by (simp add: journal_tracks_def same_place_def)
  next
    case False
    then show ?thesis using c' j ix_type_ops(3) [OF i] g
      by (simp add: journal_tracks_def same_place_def journal_map_append)
  qed
qed

lemma journal_tracks_step:
  assumes inv: "col_inv raw_params rt c" and tr: "journal_tracks base c"
  shows "col_inv raw_params rt (run_op rt tv c opn) \<and> same_place c (run_op rt tv c opn) \<and>
    journal_tracks base (run_op rt tv c opn)"
proof (cases opn)
  case (OInsert l y v p lsn)
  obtain r c' where r: "col_insert rt tv l c y v p lsn = (r, c')" by (cases "col_insert rt tv l c y v p lsn")
  then show ?thesis using col_inv_insert [OF inv r] journal_tracks_insert [OF inv tr r] OInsert by simp
next
  case (OBatch ls rs)
  obtain r c' where r: "col_insert_batch_with_lsns rt tv ls c rs = (r, c')"
    by (cases "col_insert_batch_with_lsns rt tv ls c rs")
  then show ?thesis using col_inv_batch [OF inv r] journal_tracks_batch [OF inv tr r] OBatch by simp
next
  case (ODelete y lsn)
  obtain r c' where r: "col_delete tv c y lsn = (r, c')" by (cases "col_delete tv c y lsn")
  then show ?thesis using col_inv_delete [OF inv r] journal_tracks_delete [OF inv tr r] ODelete by simp
next
  case (OPrepare t)
  then show ?thesis using inv tr by (auto simp: prepare_index_compaction_def journal_tracks_def)
next
  case (OCompactIvf ls)
  then show ?thesis using inv tr by (auto simp: compact_ivf_index_def journal_tracks_def)
qed

lemma journal_tracks_run:
  assumes "col_inv raw_params rt c" "journal_tracks base c"
  shows "col_inv raw_params rt (foldl (run_op rt tv) c ops) \<and> same_place c (foldl (run_op rt tv) c ops) \<and>
    journal_tracks base (foldl (run_op rt tv) c ops)"
  using assms
proof (induction ops arbitrary: c)
  case (Cons x ops)
  note s = journal_tracks_step [OF Cons.prems, of tv x]
  then show ?case using Cons.IH [of "run_op rt tv c x"] same_place_trans by auto
qed simp

text \<open>A plan comes from an HNSW index and is rebuilt as one.\<close>

lemma prepared_build_type:
  assumes "ix_prepare_compaction ix = Some (Inr p)" "prepared_build rt ls p = Inr built"
  shows "ix_type ix = ''HnswIndex'' \<and> ix_type built = ''HnswIndex''"
proof -
  obtain r where r: "replacement p = HnswIndex r" "ix_type ix = ''HnswIndex''"
    using assms(1) by (cases ix) (auto simp: ix_prepare_compaction_def ix_type_def split: prod.splits sum.splits)
  obtain q s where q: "ix_insert_batch rt ls (replacement p) (prepared_live p) = (q, s)"
    by (cases "ix_insert_batch rt ls (replacement p) (prepared_live p)")
  then have "built = s" using assms(2) by (cases q) (simp_all add: prepared_build_def)
  then show ?thesis using ix_type_ops(2) [OF q] r by (simp add: ix_type_def)
qed

lemma replay_journal_type: "replay_journal rt ls s ms = Inr t \<Longrightarrow> ix_type t = ix_type s"
proof (induction rt ls s ms rule: replay_journal.induct)
  case (2 rt ls ix y v ms)
  then show ?case by (auto split: sum.splits dest: ix_type_ops(1))
next
  case (3 rt ls ix y ms)
  then show ?case by (metis ix_type_ops(3) replay_journal.simps(3) surjective_pairing)
qed simp

text \<open>The capture of a plan: the plan is the live contents, and the journal starts empty.\<close>

lemma prepare_captures:
  assumes inv: "col_inv P rt c" and prep: "prepare_index_compaction c threshold = (Some plan, c1)"
  shows "\<exists>p built. plan = Inr p \<and> prepared_build rt ls p = Inr built \<and> any_inv P rt built \<and>
    any_inv raw_params rt built \<and> ix_dim built = c_dim c \<and> ix_get built = ix_get (c_index c) \<and>
    ix_type built = ''HnswIndex'' \<and> same_place c c1 \<and> c_fts c1 = c_fts c \<and> c_meta c1 = c_meta c \<and>
    col_inv raw_params rt c1 \<and> journal_tracks (ix_get (c_index c)) c1"
proof -
  have ok: "any_inv P rt (c_index c)" using inv by (simp add: col_inv_def)
  obtain pr where pr: "ix_prepare_compaction (c_index c) = Some pr" and j0: "c_journal c = None"
    using prep by (auto simp: prepare_index_compaction_def split: if_splits option.splits)
  then obtain p where p: "pr = Inr p" using prepare_compaction_ok [OF ok] by blast
  have pl: "plan = Inr p" "c1 = c\<lparr>c_journal := Some []\<rparr>"
    using prep pr p by (auto simp: prepare_index_compaction_def split: if_splits)
  obtain built where b: "prepared_build rt ls p = Inr built" "any_inv P rt built" "ix_dim built = ix_dim (c_index c)"
      "ix_get built = ix_get (c_index c)" using prepared_build_ok [OF ok, of p ls] pr p by auto
  have ty: "ix_type (c_index c) = ''HnswIndex''" "ix_type built = ''HnswIndex''"
    using prepared_build_type pr p b(1) by blast+
  have raw: "any_inv raw_params rt (c_index c)" "any_inv raw_params rt built"
    using ok b(2) ty by (auto intro: hnsw_raw)
  show ?thesis using inv b ty raw pl
    by (auto simp: col_inv_def journal_tracks_def same_place_def)
qed

section \<open>Properties\<close>

text \<open>C3. Off-thread compaction loses no write. Whatever inserts, batches and deletes (failing ones too)
  reach the collection between the capture of a compaction plan and the swap, building the plan and
  replaying the journal both succeed, the new index holds exactly the contents of the live one, and
  payloads, name and bindings are untouched.\<close>

theorem compaction_keeps_writes:
  assumes inv: "col_inv P rt c" and prep: "prepare_index_compaction c threshold = (Some plan, c1)"
    and c2: "c2 = foldl (run_op rt tv) c1 ops"
  shows "\<exists>p built c3. plan = Inr p \<and> prepared_build rt ls p = Inr built \<and>
    finish_index_compaction rt ls' c2 built = (Inr True, c3) \<and>
    ix_get (c_index c3) = ix_get (c_index c2) \<and> c_meta c3 = c_meta c2 \<and> c_fts c3 = c_fts c2 \<and>
    c_journal c3 = None \<and> same_place c c3 \<and> col_inv P rt c3 \<and> col_len c3 = col_len c2"
proof -
  obtain p built where b: "plan = Inr p" "prepared_build rt ls p = Inr built" "any_inv raw_params rt built"
      "ix_dim built = c_dim c" "ix_get built = ix_get (c_index c)" "ix_type built = ''HnswIndex''" "same_place c c1"
      "col_inv raw_params rt c1" "journal_tracks (ix_get (c_index c)) c1"
    using prepare_captures [OF inv prep, of ls] by blast
  have c2': "col_inv raw_params rt c2" "same_place c c2" "journal_tracks (ix_get (c_index c)) c2"
    unfolding c2 using journal_tracks_run [OF b(8,9)] same_place_trans [OF b(7)] by blast+
  then obtain j where j: "c_journal c2 = Some j" "journal_dims (c_dim c2) j"
      "journal_map j (ix_get (c_index c)) = ix_get (c_index c2)" by (auto simp: journal_tracks_def)
  then have "journal_dims (ix_dim built) j" using b(4) c2'(2) by (simp add: same_place_def)
  then obtain ix where ix: "replay_journal rt ls' built j = Inr ix" "any_inv raw_params rt ix" "ix_dim ix = ix_dim built"
      "ix_get ix = ix_get (c_index c2)" using replay_journal_ok [OF b(3), of j ls'] j(3) b(5) by auto
  have ixP: "any_inv P rt ix" using hnsw_raw [OF _ ix(2)] replay_journal_type [OF ix(1)] b(6) by simp
  let ?c3 = "c2\<lparr>c_journal := None, c_index := ix\<rparr>"
  have fin: "finish_index_compaction rt ls' c2 built = (Inr True, ?c3)"
    by (simp add: finish_index_compaction_def j(1) ix(1))
  have "dom (c_meta c2) \<subseteq> dom (ix_get ix)" "ix_dim ix = c_dim c2"
    using c2' ix b(4) by (simp_all add: col_inv_def same_place_def)
  then have "col_inv P rt ?c3" using ixP by (simp add: col_inv_def)
  moreover have "ix_len ix = ix_len (c_index c2)"
    using any.len_ok [OF ix(2)] any.len_ok [of raw_params rt "c_index c2"] c2'(1) ix(4) by (simp add: col_inv_def)
  ultimately show ?thesis
    using b(1,2) fin ix(4) c2'(2)
    by (intro exI [of _ p] exI [of _ built] exI [of _ ?c3]) (simp add: same_place_def col_len_def)
qed

text \<open>An empty HNSW collection.\<close>

definition collection_example :: "(f64, (vecid \<times> string) list) collection" where
  "collection_example = collection_with_index ''docs'' 1 L2 (HnswIndex hnsw_example)"

lemma collection_example_inv: "col_inv P plain_rt collection_example"
  using hnsw_example_ok plain_rt_ok
  by (simp add: collection_example_def collection_with_index_def col_inv_def any_inv_def hnsw_inv_def
      ix_dim_def meta_defs hnsw_example_def)

lemma collection_example_prepare:
  "\<exists>plan c1. prepare_index_compaction collection_example 0xBF800000 = (Some plan, c1) \<and> c_index c1 = HnswIndex hnsw_example"
proof -
  have "\<not> f32_le (ix_tombstone_ratio (HnswIndex hnsw_example)) 0xBF800000"
    by (simp add: ix_tombstone_ratio_def hnsw_tombstone_ratio_def hnsw_example_def f32_le_def f32_is_nan_def f32_key_def)
  moreover obtain p where "ix_prepare_compaction (HnswIndex hnsw_example) = Some p"
    by (cases "ix_prepare_compaction (HnswIndex hnsw_example)")
      (auto simp: ix_prepare_compaction_def split: sum.splits prod.splits)
  ultimately show ?thesis
    by (auto simp: prepare_index_compaction_def collection_example_def collection_with_index_def split: sum.split)
qed

theorem compaction_keeps_writes_witness:
  "\<exists>plan c1 p built c3. prepare_index_compaction collection_example 0xBF800000 = (Some plan, c1) \<and>
    plan = Inr p \<and> prepared_build plain_rt (\<lambda>_. 0) p = Inr built \<and>
    finish_index_compaction plain_rt (\<lambda>_. 0)
      (foldl (run_op plain_rt list_engine) c1 [OInsert 0 7 [0] None 1, OInsert 0 8 [0] None 2, ODelete 7 3]) built = (Inr True, c3) \<and>
    c_journal c3 = None"
proof -
  obtain plan c1 where prep: "prepare_index_compaction collection_example 0xBF800000 = (Some plan, c1)"
    using collection_example_prepare by blast
  show ?thesis
    using compaction_keeps_writes [OF collection_example_inv [of raw_params] prep refl, of "\<lambda>_. 0" "\<lambda>_. 0"
        list_engine "[OInsert 0 7 [0] None 1, OInsert 0 8 [0] None 2, ODelete 7 3]"]
    apply (elim exE conjE)
    apply (intro exI conjI)
    apply (rule prep)
    apply assumption+
    done
qed

end
