(* ===== verification/Search.thy ===== *)
theory Search
  imports Collection
begin

text \<open>
  Queries of a collection: filtered vector search and the reciprocal rank fusion of
  \<open>Collection::hybrid_search\<close>.
\<close>

section \<open>Rank fusion\<close>

text \<open>Every id of the list is added once per occurrence; ids stay keyed once.\<close>

lemma rrf_add_keys:
  "hm_ok sc \<Longrightarrow> hm_ok (rrf_add rrf_k sc ids) \<and> fst ` set (rrf_add rrf_k sc ids) = fst ` set sc \<union> set ids"
proof -
  have "hm_ok sc \<Longrightarrow> hm_ok (foldl (\<lambda>sc (rank0, y).
      hm_insert y (f32_add (case hm_get sc y of Some s \<Rightarrow> s | None \<Rightarrow> 0) (rrf_term rrf_k rank0)) sc) sc (enumerate n ids)) \<and>
    fst ` set (foldl (\<lambda>sc (rank0, y).
      hm_insert y (f32_add (case hm_get sc y of Some s \<Rightarrow> s | None \<Rightarrow> 0) (rrf_term rrf_k rank0)) sc) sc (enumerate n ids))
    = fst ` set sc \<union> set ids" for n
    by (induction ids arbitrary: sc n) (auto simp: hash_simps)
  then show "hm_ok sc \<Longrightarrow> ?thesis" unfolding rrf_add_def by blast
qed

text \<open>The ranks at which an id occurs in a list, and its fused score: the terms of its ranks added in order.\<close>

definition hit_ranks :: "vecid \<Rightarrow> vecid list \<Rightarrow> nat list" where
  "hit_ranks y ids = filter (\<lambda>i. ids ! i = y) [0..<length ids]"

definition fused_score :: "u32 \<Rightarrow> vecid list \<Rightarrow> vecid list \<Rightarrow> vecid \<Rightarrow> f32" where
  "fused_score rrf_k vec_ids text_ids y =
     foldl f32_add 0 (map (rrf_term rrf_k) (hit_ranks y vec_ids @ hit_ranks y text_ids))"

lemma hit_ranks_snoc: "hit_ranks y (ids @ [x]) = hit_ranks y ids @ (if x = y then [length ids] else [])"
proof -
  have "filter (\<lambda>i. (ids @ [x]) ! i = y) [0..<length ids] = filter (\<lambda>i. ids ! i = y) [0..<length ids]"
    by (rule filter_cong) (simp_all add: nth_append)
  then show ?thesis by (simp add: hit_ranks_def)
qed

lemma hit_ranks_Nil: "hit_ranks y ids = [] \<longleftrightarrow> y \<notin> set ids"
  by (auto simp: hit_ranks_def filter_empty_conv in_set_conv_nth)

lemma rrf_add_snoc:
  "rrf_add rrf_k sc (ids @ [x]) =
     (let sc' = rrf_add rrf_k sc ids
      in hm_insert x (f32_add (case hm_get sc' x of Some s \<Rightarrow> s | None \<Rightarrow> 0) (rrf_term rrf_k (length ids))) sc')"
  by (simp add: rrf_add_def enumerate_append_eq Let_def)

lemma rrf_add_score:
  "hm_get (rrf_add rrf_k sc ids) y =
     (if y \<in> set ids then Some (foldl f32_add (case hm_get sc y of Some s \<Rightarrow> s | None \<Rightarrow> 0) (map (rrf_term rrf_k) (hit_ranks y ids)))
      else hm_get sc y)"
proof (induction ids rule: rev_induct)
  case Nil
  then show ?case by (simp add: rrf_add_def)
next
  case (snoc x ids)
  have "foldl f32_add (case hm_get sc y of Some s \<Rightarrow> s | None \<Rightarrow> 0) (map (rrf_term rrf_k) (hit_ranks y ids)) =
      (case hm_get sc y of Some s \<Rightarrow> s | None \<Rightarrow> 0)" if "y \<notin> set ids"
    using that hit_ranks_Nil [of y ids] by simp
  then show ?case using snoc by (auto simp: rrf_add_snoc Let_def hit_ranks_snoc hash_simps)
qed

lemma rrf_fused:
  "y \<in> set xs \<union> set zs \<Longrightarrow> hm_get (rrf_add rrf_k (rrf_add rrf_k [] xs) zs) y = Some (fused_score rrf_k xs zs y)"
  using hit_ranks_Nil [of y xs] hit_ranks_Nil [of y zs] by (auto simp: rrf_add_score fused_score_def)

text \<open>Of a list sorted by a key, the elements kept by a truncation are no larger than those cut off.\<close>

lemma sorted_take_drop:
  "sorted (map f xs) \<Longrightarrow> x \<in> set (take n xs) \<Longrightarrow> z \<in> set (drop n xs) \<Longrightarrow> f x \<le> f z"
proof -
  assume "sorted (map f xs)" and x: "x \<in> set (take n xs)" and z: "z \<in> set (drop n xs)"
  then have "sorted (map f (take n xs) @ map f (drop n xs))" by (simp flip: map_append)
  then show "f x \<le> f z" using x z by (auto simp: sorted_append)
qed

lemma rrf_rank_rows:
  assumes rt: "rt_ok rt" and sc: "hm_ok sc"
  shows "length (rrf_rank rt sc k) = min k (length sc) \<and> distinct (map fst (rrf_rank rt sc k)) \<and>
    sorted (map (\<lambda>x. - okey (snd x)) (rrf_rank rt sc k)) \<and>
    (\<forall>(y, s) \<in> set (rrf_rank rt sc k). hm_get sc y = Some s) \<and>
    (\<forall>(y, s) \<in> set (rrf_rank rt sc k). \<forall>z t. hm_get sc z = Some t \<and> z \<notin> fst ` set (rrf_rank rt sc k) \<longrightarrow> okey t \<le> okey s)"
proof -
  let ?ids = "hash_iter rt (map fst sc)"
  let ?rows = "map (\<lambda>y. (y, the (hm_get sc y))) ?ids"
  let ?s = "sort_key (\<lambda>x. - okey (snd x)) ?rows"
  have ids: "distinct ?ids" "set ?ids = fst ` set sc" "length ?ids = length sc"
    using rt sc distinct_hash_iter [of rt "map fst sc"] set_hash_iter [of rt "map fst sc"]
      mset_eq_length [OF hash_iter_mset [OF rt, of "map fst sc"]] by (simp_all add: hm_ok_def)
  have d: "distinct (map fst ?s)"
  proof -
    have "mset (map fst ?s) = mset ?ids" by (simp add: multiset.map_comp comp_def)
    from mset_eq_imp_distinct_iff [OF this] show ?thesis using ids(1) by blast
  qed
  have sound: "\<forall>(y, s) \<in> set ?s. hm_get sc y = Some s"
  proof (clarsimp simp: ids(2))
    fix y s assume "(y, s) \<in> set sc"
    then show "hm_get sc y = Some (the (hm_get sc y))" using sc by (simp add: hm_ok_def)
  qed
  have "set (take k ?s) \<subseteq> set ?s" by (rule set_take_subset)
  then have "\<forall>(y, s) \<in> set (take k ?s). hm_get sc y = Some s" using sound by blast
  moreover have "sorted (map (\<lambda>x. - okey (snd x)) (take k ?s))" by (simp add: sorted_wrt_take flip: take_map)
  moreover have "distinct (map fst (take k ?s))" using d by (simp add: distinct_take flip: take_map)
  moreover have "okey t \<le> okey s" if k: "(y, s) \<in> set (take k ?s)" and z: "hm_get sc z = Some t" "z \<notin> fst ` set (take k ?s)" for y s z t
  proof -
    have "z \<in> fst ` set sc" using map_of_SomeD [OF z(1)] by force
    then have "(z, t) \<in> set ?s" using z(1) by (force simp: ids(2) image_iff)
    moreover have "set ?s = set (take k ?s) \<union> set (drop k ?s)" unfolding set_append [symmetric] append_take_drop_id ..
    ultimately have "(z, t) \<in> set (drop k ?s)" using z(2) by force
    from sorted_take_drop [OF _ k this, of "\<lambda>x. - okey (snd x)"] show ?thesis by simp
  qed
  moreover have "length (take k ?s) = min k (length sc)" using ids(3) by (simp add: min.commute)
  ultimately show ?thesis unfolding rrf_rank_def by (intro conjI) (assumption | blast)+
qed

lemma hybrid_search_rows:
  assumes rt: "rt_ok rt"
    and vec: "col_search rt num c q (max (min (k * 2) usize_max) k) predicate False = Inr vs"
    and fts: "col_fts_search tv c text (max (min (k * 2) usize_max) k) = Inr ts"
  shows "\<exists>rs. hybrid_search rt tv num c q text k rrf_k predicate incl = Inr rs \<and>
    length rs = min k (card (r_id ` set vs \<union> f_id ` set ts)) \<and> distinct (map r_id rs) \<and>
    r_id ` set rs \<subseteq> r_id ` set vs \<union> f_id ` set ts \<and> sorted (map (\<lambda>r. - okey (r_score r)) rs) \<and>
    (\<forall>r \<in> set rs. r_payload r = (if incl then c_meta c (r_id r) else None)) \<and>
    (\<forall>r \<in> set rs. r_score r = fused_score rrf_k (map r_id vs) (map f_id ts) (r_id r)) \<and>
    (\<forall>r \<in> set rs. \<forall>y \<in> (r_id ` set vs \<union> f_id ` set ts) - r_id ` set rs.
       okey (fused_score rrf_k (map r_id vs) (map f_id ts) y) \<le> okey (r_score r))"
proof -
  let ?sv = "rrf_add rrf_k [] (map r_id vs)"
  let ?sc = "rrf_add rrf_k ?sv (map f_id ts)"
  let ?rows = "map (\<lambda>(y, s). \<lparr>r_id = y, r_score = s, r_payload = None\<rparr>) (rrf_rank rt ?sc k) :: 'a json scored_result list"
  let ?rs = "if incl then map (with_payload (c_meta c)) ?rows else ?rows"
  have v: "hm_ok ?sv" "fst ` set ?sv = r_id ` set vs"
    using rrf_add_keys [of "[]" rrf_k "map r_id vs"] by (simp_all add: hash_simps)
  have s: "hm_ok ?sc" "fst ` set ?sc = r_id ` set vs \<union> f_id ` set ts"
    using rrf_add_keys [OF v(1), of rrf_k "map f_id ts"] v(2) by simp_all
  note rank = rrf_rank_rows [OF rt s(1), of k]
  have hyb: "hybrid_search rt tv num c q text k rrf_k predicate incl = Inr ?rs"
    using vec fts by (simp add: hybrid_search_def)
  have ids: "map r_id ?rs = map fst (rrf_rank rt ?sc k)" "map r_score ?rs = map snd (rrf_rank rt ?sc k)"
    by (simp_all add: comp_def with_payload_def case_prod_beta)
  have sound: "hm_get ?sc (r_id r) = Some (r_score r)" if "r \<in> set ?rs" for r
    using that rank by (auto simp: with_payload_def split: if_splits)
  have len: "length ?rs = min k (card (r_id ` set vs \<union> f_id ` set ts))"
  proof -
    have "length ?sc = card (fst ` set ?sc)" using hm_length [OF s(1)] by (simp add: dom_map_of_conv_image_fst)
    then show ?thesis using rank s(2) by simp
  qed
  have sub: "r_id ` set ?rs \<subseteq> r_id ` set vs \<union> f_id ` set ts"
  proof
    fix y assume "y \<in> r_id ` set ?rs"
    then obtain r where "r \<in> set ?rs" "y = r_id r" by blast
    then have "(y, r_score r) \<in> set ?sc" using sound map_of_SomeD by fast
    then show "y \<in> r_id ` set vs \<union> f_id ` set ts" unfolding s(2) [symmetric] by force
  qed
  have sorted: "sorted (map (\<lambda>r. - okey (r_score r)) ?rs)"
  proof -
    have "map (\<lambda>r. - okey (r_score r)) ?rs = map (\<lambda>z. - okey z) (map r_score ?rs)" by simp
    also have "\<dots> = map (\<lambda>x. - okey (snd x)) (rrf_rank rt ?sc k)" unfolding ids(2) by simp
    finally show ?thesis using rank by simp
  qed
  have pay: "\<forall>r \<in> set ?rs. r_payload r = (if incl then c_meta c (r_id r) else None)"
    by (auto simp: with_payload_def meta_defs)
  have fused: "hm_get ?sc y = Some (fused_score rrf_k (map r_id vs) (map f_id ts) y)"
    if "y \<in> r_id ` set vs \<union> f_id ` set ts" for y
    using that by (intro rrf_fused) simp
  have scores: "r_score r = fused_score rrf_k (map r_id vs) (map f_id ts) (r_id r)" if "r \<in> set ?rs" for r
    using sound [OF that] fused [of "r_id r"] sub that by (simp add: subset_iff image_iff) blast
  have best: "okey (fused_score rrf_k (map r_id vs) (map f_id ts) y) \<le> okey (r_score r)"
    if r: "r \<in> set ?rs" and y: "y \<in> (r_id ` set vs \<union> f_id ` set ts) - r_id ` set ?rs" for r y
  proof -
    have "r_id ` set ?rs = fst ` set (rrf_rank rt ?sc k)" using ids(1) by (simp only: flip: set_map)
    moreover have "(r_id r, r_score r) \<in> set (rrf_rank rt ?sc k)"
      using r by (auto simp: with_payload_def split: if_splits)
    ultimately show ?thesis using rank fused [of y] y by blast
  qed
  have "distinct (map r_id ?rs)" unfolding ids(1) using rank by simp
  then show ?thesis by (intro exI [of _ ?rs] conjI ballI hyb len sub sorted pay scores best)
qed

section \<open>Properties\<close>

text \<open>C28. A filtered search returns at most \<open>k\<close> rows in ascending order of score. Every row is a live id
  whose stored payload satisfies the filter, and carries exactly the stored payload when payloads are
  asked for. A query of the wrong length is refused.\<close>

theorem col_search_filtered:
  assumes "col_inv P rt c"
  shows "if length q = c_dim c
    then \<exists>rs. col_search rt num c q k predicate incl = Inr rs \<and> length rs \<le> k \<and> sorted (score_keys rs) \<and>
      (\<forall>r \<in> set rs. col_get c (r_id r) \<noteq> None \<and>
         (case predicate of None \<Rightarrow> True | Some p \<Rightarrow>
            \<exists>payload. c_meta c (r_id r) = Some payload \<and> eval_predicate num payload p) \<and>
         r_payload r = (if incl then c_meta c (r_id r) else None))
    else col_search rt num c q k predicate incl = Inl (DimMismatch (c_dim c) (length q))"
proof (cases "length q = c_dim c")
  case True
  let ?f = "make_filter num (c_meta c) predicate"
  have ok: "any_inv P rt (c_index c)" "length q = ix_dim (c_index c)" using assms True by (simp_all add: col_inv_def)
  obtain rs :: "'a json scored_result list" where rs: "ix_search rt (c_index c) q k ?f = Inr rs" "length rs \<le> k"
      "sorted (score_keys rs)"
      "\<forall>r \<in> set rs. ix_get (c_index c) (r_id r) \<noteq> None \<and> keep ?f (r_id r) \<and> r_payload r = None"
    using any.search_ok [OF ok, of k ?f] by blast
  let ?out = "if incl then map (with_payload (c_meta c)) rs else rs"
  have "score_keys ?out = score_keys rs" by (simp add: comp_def with_payload_def)
  moreover have "col_get c (r_id r) \<noteq> None \<and>
         (case predicate of None \<Rightarrow> True | Some p \<Rightarrow>
            \<exists>payload. c_meta c (r_id r) = Some payload \<and> eval_predicate num payload p) \<and>
         r_payload r = (if incl then c_meta c (r_id r) else None)" if "r \<in> set ?out" for r
    using that rs(4) by (auto simp: keep_make_filter with_payload_def meta_defs col_get_def split: if_splits option.split)
  moreover have "col_search rt num c q k predicate incl = Inr ?out" "length ?out \<le> k"
    using rs(1,2) by (simp_all add: col_search_def)
  ultimately show ?thesis using True rs(3) by auto
next
  case False
  then have "length q \<noteq> ix_dim (c_index c)" using assms by (simp add: col_inv_def)
  then have "ix_search rt (c_index c) q k (make_filter num (c_meta c) predicate) =
      (Inl (DimMismatch (ix_dim (c_index c)) (length q)) :: db_error + 'a json scored_result list)"
    by (rule any.search_mismatch)
  then show ?thesis using assms False by (simp add: col_search_def col_inv_def)
qed

text \<open>C29. Hybrid search returns the \<open>k\<close> ids with the largest fused scores among the vector hits and the text hits
  (all of them when there are fewer), each once and in descending order of score: no id it leaves out scores more
  than one it returns. The fused score of an id is the sum, over the ranks \<open>i\<close> at which it occurs among the vector hits
  and then among the text hits, of the reciprocal of \<open>rrf_k + i + 1\<close>, in \<open>f32\<close>. A row carries the stored
  payload when payloads are asked for.\<close>

theorem hybrid_search_fusion:
  assumes "rt_ok rt"
    and "col_search rt num c q (max (min (k * 2) usize_max) k) predicate False = Inr vs"
    and "col_fts_search tv c text (max (min (k * 2) usize_max) k) = Inr ts"
  shows "\<exists>rs. hybrid_search rt tv num c q text k rrf_k predicate incl = Inr rs \<and>
    length rs = min k (card (r_id ` set vs \<union> f_id ` set ts)) \<and> distinct (map r_id rs) \<and>
    r_id ` set rs \<subseteq> r_id ` set vs \<union> f_id ` set ts \<and> sorted (map (\<lambda>r. - okey (r_score r)) rs) \<and>
    (\<forall>r \<in> set rs. r_payload r = (if incl then c_meta c (r_id r) else None)) \<and>
    (\<forall>r \<in> set rs. r_score r = fused_score rrf_k (map r_id vs) (map f_id ts) (r_id r)) \<and>
    (\<forall>r \<in> set rs. \<forall>y \<in> (r_id ` set vs \<union> f_id ` set ts) - r_id ` set rs.
       okey (fused_score rrf_k (map r_id vs) (map f_id ts) y) \<le> okey (r_score r))"
  by (rule hybrid_search_rows [OF assms])

text \<open>The filter of a hybrid search restricts the vector hits only: an id found by the text query is
  returned (when the candidates fit into \<open>k\<close>) although its payload does not satisfy the filter, or it
  has no payload at all.\<close>

theorem hybrid_ignores_filter:
  assumes "rt_ok rt"
    and "col_search rt num c q (max (min (k * 2) usize_max) k) (Some p) False = Inr vs"
    and "col_fts_search tv c text (max (min (k * 2) usize_max) k) = Inr ts"
    and "y \<in> f_id ` set ts" "\<not> keep (make_filter num (c_meta c) (Some p)) y"
    and "card (r_id ` set vs \<union> f_id ` set ts) \<le> k"
  shows "\<exists>rs. hybrid_search rt tv num c q text k rrf_k (Some p) incl = Inr rs \<and> y \<in> r_id ` set rs"
proof -
  let ?ids = "r_id ` set vs \<union> f_id ` set ts"
  obtain rs where rs: "hybrid_search rt tv num c q text k rrf_k (Some p) incl = Inr rs"
      "length rs = min k (card ?ids)" "distinct (map r_id rs)" "r_id ` set rs \<subseteq> ?ids"
    using hybrid_search_rows [OF assms(1-3), of rrf_k incl] by blast
  have "card (r_id ` set rs) = card ?ids" using distinct_card [OF rs(3)] rs(2) assms(6) by simp
  then have "r_id ` set rs = ?ids" using card_subset_eq [OF _ rs(4)] by simp
  then show ?thesis using rs(1) assms(4) by blast
qed

text \<open>A collection without vectors whose text index has one document.\<close>

definition search_example :: "(f64, (vecid \<times> string) list) collection" where
  "search_example = (collection_new ''docs'' 1 L2)
     \<lparr>c_fts := Some \<lparr>fts_engine = [(7, ''a'')], fts_lsn_path = None, fts_watermark = 0\<rparr>\<rparr>"

lemma search_example_inv: "col_inv P plain_rt search_example"
  using plain_rt_ok
  by (simp add: search_example_def collection_new_def collection_with_index_def col_inv_def any_inv_def
      flat_inv_def flat_new_def flat_ok_def slab_ok_def ix_dim_def meta_defs)

lemma search_example_get: "col_get search_example y = None"
  by (simp add: search_example_def collection_new_def collection_with_index_def col_get_def ix_get_def
      flat_get_def flat_new_def)

lemma search_example_vectors: "col_search plain_rt Some search_example [0] k predicate incl = Inr []"
proof -
  obtain rs where "ix_search plain_rt (c_index search_example) [0] k (make_filter Some (c_meta search_example) predicate)
      = Inr (rs :: f64 json scored_result list)" "\<forall>r \<in> set rs. ix_get (c_index search_example) (r_id r) \<noteq> None"
    using any.search_ok [of raw_params plain_rt "c_index search_example" "[0]" k] search_example_inv [of raw_params]
    by (fastforce simp: col_inv_def search_example_def collection_new_def collection_with_index_def)
  moreover have "ix_get (c_index search_example) y = None" for y
    using search_example_get [of y] by (simp add: col_get_def split: option.splits)
  ultimately have "rs = []" "ix_search plain_rt (c_index search_example) [0] k
      (make_filter Some (c_meta search_example) predicate) = Inr (rs :: f64 json scored_result list)"
    by (cases rs; auto)+
  then show ?thesis by (simp add: col_search_def)
qed

lemma search_example_text: "0 < k \<Longrightarrow> col_fts_search list_engine search_example ''a'' k = Inr [\<lparr>f_id = 7, f_score = f32_one\<rparr>]"
proof -
  have "trim ''a'' = ''a''"
    by (simp add: trim_def trim_start.simps ws_len_def blank_def)
  moreover assume "0 < k"
  ultimately show ?thesis
    by (simp add: col_fts_search_def search_example_def fts_search_docs_def list_engine_def take_Cons')
qed

theorem col_search_filtered_witness:
  "col_search plain_rt Some search_example [0] 5 None True = Inr [] \<and>
   col_search plain_rt Some search_example [0, 0] 5 None True = Inl (DimMismatch 1 2)"
  using col_search_filtered [OF search_example_inv [of raw_params], of "[0, 0]" Some 5 None True]
    search_example_vectors
  by (simp add: search_example_def collection_new_def collection_with_index_def)

theorem hybrid_search_fusion_witness:
  "\<exists>rs. hybrid_search plain_rt list_engine Some search_example [0] ''a'' 3 60 None False = Inr rs \<and> map r_id rs = [7]"
proof -
  obtain rs where "hybrid_search plain_rt list_engine Some search_example [0] ''a'' 3 60 None False = Inr rs \<and>
      length rs = min 3 (card (r_id ` set [] \<union> f_id ` set [\<lparr>f_id = 7, f_score = f32_one\<rparr>])) \<and>
      r_id ` set rs \<subseteq> r_id ` set [] \<union> f_id ` set [\<lparr>f_id = 7, f_score = f32_one\<rparr>]"
    using hybrid_search_fusion [OF plain_rt_ok search_example_vectors search_example_text, of 3 60 None False]
    by (auto simp: usize_max_def)
  then show ?thesis by (cases rs) auto
qed

theorem hybrid_ignores_filter_witness:
  "\<exists>rs. hybrid_search plain_rt list_engine Some search_example [0] ''a'' 3 60 (Some (JObj [])) False = Inr rs \<and>
     7 \<in> r_id ` set rs"
  by (rule hybrid_ignores_filter [OF plain_rt_ok search_example_vectors search_example_text])
    (simp_all add: usize_max_def keep_make_filter search_example_def collection_new_def collection_with_index_def meta_defs)

end
