(* ===== verification/Staging.thy ===== *)
theory Staging
  imports Collection
begin

text \<open>
  The staging tables of \<open>likhadb-lakehouse/src/staging_io.rs\<close>: rows written there wait for the next index
  snapshot, and recovery reads them back. The catalog is a map from table names to tables; reading a table
  gives its rows in an order that is an argument. JSON text is written and read by \<open>serde_json\<close>.
\<close>

section \<open>Errors\<close>

text \<open>\<open>LakehouseError\<close> of \<open>error.rs\<close>; messages are left out.\<close>

datatype lakehouse_error =
    LkIo
  | LkArrow
  | LkParquet
  | LkCollectionNotFound string
  | LkColumnNotFound string
  | LkSchema
  | NonAncestorSnapshot "64 word" "64 word"
  | LkDimMismatch nat nat
  | LkTypeMismatch string
  | LkStore db_error
  | LkIceberg
  | SourceTableLoad string
  | IndexBlob
  | LkObjectStore

section \<open>Rows\<close>

record 'n staging_row =
  sr_id :: u64
  sr_vector :: vec
  sr_payload :: "'n json option"
  sr_lsn :: u64
  sr_is_tombstone :: bool

record 'n staging_batch =
  sb_collection_name :: string
  sb_rows :: "'n staging_row list"

record 'n pending_vector =
  pv_id :: u64
  pv_vector :: vec
  pv_payload :: "'n json option"
  pv_lsn :: u64
  pv_is_delete :: bool

text \<open>A row of the table, with the columns of \<open>staging_arrow_schema\<close>.\<close>

record stored_row =
  t_id :: "64 word"
  t_vector_json :: string
  t_payload :: "string option"
  t_lsn :: "64 word"
  t_merge_status :: string
  t_ingested_at_ms :: "64 word"

record staging_table =
  st_rows :: "stored_row list"
  st_properties :: "string \<Rightarrow> string option"

type_synonym catalog = "string \<Rightarrow> staging_table option"

record 'n serde =
  vec_to_string :: "vec \<Rightarrow> string option"
  vec_from_str :: "string \<Rightarrow> vec option"
  json_to_string :: "'n json \<Rightarrow> string"
  json_from_str :: "string \<Rightarrow> 'n json option"

section \<open>Operations\<close>

definition STAGING_WATERMARK_PROP :: string where "STAGING_WATERMARK_PROP = ''last_wal_lsn''"

definition staging_table_ident :: "string \<Rightarrow> string" where
  "staging_table_ident collection_name = ''likhadb_staging_'' @ collection_name"

text \<open>\<open>ok\<close>: the catalog answers.\<close>

definition get_or_create_staging_table :: "bool \<Rightarrow> catalog \<Rightarrow> string \<Rightarrow> (lakehouse_error + staging_table) \<times> catalog" where
  "get_or_create_staging_table ok cat name =
     (let ident = staging_table_ident name
      in if \<not> ok then (Inl LkIceberg, cat)
         else case cat ident of
             Some t \<Rightarrow> (Inr t, cat)
           | None \<Rightarrow>
               let t = \<lparr>st_rows = [], st_properties = [STAGING_WATERMARK_PROP \<mapsto> ''0'']\<rparr>
               in (Inr t, cat(ident \<mapsto> t)))"

definition stored_row_of :: "'n serde \<Rightarrow> 64 word \<Rightarrow> 'n staging_row \<Rightarrow> stored_row" where
  "stored_row_of lib now r = \<lparr>t_id = sr_id r,
     t_vector_json = (if sr_is_tombstone r then ''[]'' else case vec_to_string lib (sr_vector r) of Some s \<Rightarrow> s | None \<Rightarrow> []),
     t_payload = map_option (json_to_string lib) (sr_payload r), t_lsn = sr_lsn r,
     t_merge_status = (if sr_is_tombstone r then ''deleted'' else ''pending''), t_ingested_at_ms = now\<rparr>"

text \<open>Rows and watermark are committed together, or nothing is; without rows only the watermark moves.\<close>

definition append_to_staging ::
  "'n serde \<Rightarrow> bool \<Rightarrow> 64 word \<Rightarrow> staging_table \<Rightarrow> 'n staging_batch \<Rightarrow> u64 \<Rightarrow> lakehouse_error + staging_table"
where
  "append_to_staging lib ok now table batch new_watermark =
     (if \<not> ok then Inl LkIceberg
      else if sb_rows batch = [] then
        Inr (table\<lparr>st_properties := (st_properties table)(STAGING_WATERMARK_PROP \<mapsto> show_nat (unat new_watermark))\<rparr>)
      else
        Inr (table\<lparr>st_properties := (st_properties table)(STAGING_WATERMARK_PROP \<mapsto> show_nat (unat new_watermark)),
          st_rows := st_rows table @ map (stored_row_of lib now) (sb_rows batch)\<rparr>))"

definition read_watermark :: "staging_table \<Rightarrow> u64" where
  "read_watermark table = (case Option.bind (st_properties table STAGING_WATERMARK_PROP) parse_u64 of
       Some w \<Rightarrow> w | None \<Rightarrow> 0)"

text \<open>Rows with another status have been merged already.\<close>

definition pending_of :: "'n serde \<Rightarrow> stored_row \<Rightarrow> 'n pending_vector option" where
  "pending_of lib r =
     (let status = t_merge_status r
      in if status \<noteq> ''pending'' \<and> status \<noteq> ''deleted'' then None
         else
           let is_delete = status = ''deleted''
           in Some \<lparr>pv_id = t_id r,
             pv_vector = (if is_delete then [] else case vec_from_str lib (t_vector_json r) of Some v \<Rightarrow> v | None \<Rightarrow> []),
             pv_payload = (if is_delete then None else Option.bind (t_payload r) (json_from_str lib)),
             pv_lsn = t_lsn r, pv_is_delete = is_delete\<rparr>)"

text \<open>
  \<open>ord\<close> permutes the rows: a table is read in any order, and \<open>sort_unstable_by_key\<close> leaves the order of rows
  with equal keys open.
\<close>

definition scan_pending ::
  "'n serde \<Rightarrow> (stored_row list \<Rightarrow> stored_row list) \<Rightarrow> bool \<Rightarrow> staging_table \<Rightarrow>
     lakehouse_error + 'n pending_vector list \<times> u64"
where
  "scan_pending lib ord ok table =
     (if \<not> ok then Inl LkIceberg
      else let entries = List.map_filter (pending_of lib) (ord (st_rows table))
           in Inr (sort_key pv_lsn entries, foldl (\<lambda>m e. max m (pv_lsn e)) 0 entries))"

section \<open>Reading back\<close>

definition pending_row :: "'n staging_row \<Rightarrow> 'n pending_vector" where
  "pending_row r = \<lparr>pv_id = sr_id r, pv_vector = sr_vector r, pv_payload = sr_payload r, pv_lsn = sr_lsn r,
     pv_is_delete = sr_is_tombstone r\<rparr>"

text \<open>What the text of a row keeps, and the shape of a tombstone.\<close>

definition row_textual :: "'n serde \<Rightarrow> 'n staging_row \<Rightarrow> bool" where
  "row_textual lib r \<longleftrightarrow> (if sr_is_tombstone r then sr_vector r = [] \<and> sr_payload r = None
     else Option.bind (vec_to_string lib (sr_vector r)) (vec_from_str lib) = Some (sr_vector r) \<and>
       (\<forall>p. sr_payload r = Some p \<longrightarrow> json_from_str lib (json_to_string lib p) = Some p))"

lemma pending_of_stored: "row_textual lib r \<Longrightarrow> pending_of lib (stored_row_of lib now r) = Some (pending_row r)"
  by (cases "vec_to_string lib (sr_vector r)"; cases "sr_payload r")
    (auto simp: row_textual_def pending_of_def stored_row_of_def pending_row_def)

lemma map_filter_stored:
  "\<forall>r \<in> set rs. row_textual lib r \<Longrightarrow>
    List.map_filter (pending_of lib) (map (stored_row_of lib now) rs) = map pending_row rs"
  by (induction rs) (simp_all add: pending_of_stored)

lemma mset_map_filter_perm: "mset xs = mset ys \<Longrightarrow> mset (List.map_filter f xs) = mset (List.map_filter f ys)"
  by (simp add: map_filter_def mset_filter)

lemma foldl_max_lsn: "foldl (\<lambda>m e. max m (pv_lsn e)) a es = Max (insert a (pv_lsn ` set es))"
proof (induction es arbitrary: a)
  case (Cons e es)
  have "Max (insert (max a (pv_lsn e)) (pv_lsn ` set es)) = Max (insert a (insert (pv_lsn e) (pv_lsn ` set es)))"
    by (cases "set es = {}") (simp_all add: max.assoc)
  then show ?case using Cons by simp
qed simp


text \<open>Text for the vector of one zero and for null.\<close>

definition tiny_serde :: "f64 serde" where
  "tiny_serde = \<lparr>vec_to_string = \<lambda>v. if v = [0] then Some ''[0.0]'' else None,
     vec_from_str = \<lambda>s. if s = ''[0.0]'' then Some [0] else None,
     json_to_string = \<lambda>_. ''null'', json_from_str = \<lambda>s. if s = ''null'' then Some JNull else None\<rparr>"

definition staging_example :: staging_table where
  "staging_example = \<lparr>st_rows = [], st_properties = [STAGING_WATERMARK_PROP \<mapsto> ''0'']\<rparr>"

definition batch_example :: "f64 staging_batch" where
  "batch_example = \<lparr>sb_collection_name = ''c'', sb_rows =
     [\<lparr>sr_id = 7, sr_vector = [0], sr_payload = Some JNull, sr_lsn = 3, sr_is_tombstone = False\<rparr>,
      \<lparr>sr_id = 8, sr_vector = [], sr_payload = None, sr_lsn = 2, sr_is_tombstone = True\<rparr>]\<rparr>"


end
