(* ===== verification/Results.thy ===== *)
theory Results
  imports Main "HOL-Library.Multiset"
begin

text \<open>
  Code that stops at the first error, on values of a sum type: \<open>collect::<Result<Vec<_>, _>>()\<close> and loops with \<open>?\<close>,
  and \<open>slice::chunks\<close>.
\<close>

fun and_next :: "'e + 'a \<Rightarrow> ('a \<Rightarrow> 'e + 'b) \<Rightarrow> 'e + 'b" where
  "and_next (Inl e) f = Inl e"
| "and_next (Inr x) f = f x"

lemma and_next_Inr: "and_next m f = Inr y \<longleftrightarrow> (\<exists>x. m = Inr x \<and> f x = Inr y)"
  by (cases m) simp_all

definition ok_or :: "'e \<Rightarrow> 'a option \<Rightarrow> 'e + 'a" where
  "ok_or e m = (case m of Some x \<Rightarrow> Inr x | None \<Rightarrow> Inl e)"

lemma ok_or_simps [simp]: "ok_or e (Some x) = Inr x" "ok_or e None = Inl e"
  by (simp_all add: ok_or_def)

lemma ok_or_Inr: "ok_or e m = Inr x \<longleftrightarrow> m = Some x"
  by (cases m) simp_all

fun traverse :: "('a \<Rightarrow> 'e + 'b) \<Rightarrow> 'a list \<Rightarrow> 'e + 'b list" where
  "traverse f [] = Inr []"
| "traverse f (x # xs) = and_next (f x) (\<lambda>y. and_next (traverse f xs) (\<lambda>ys. Inr (y # ys)))"

lemma traverse_Inr: "traverse f xs = Inr ys \<longleftrightarrow> map f xs = map Inr ys"
proof (induction xs arbitrary: ys)
  case Nil
  then show ?case by auto
next
  case (Cons x xs)
  then show ?case by (cases ys) (auto simp: and_next_Inr)
qed

lemma traverse_Inl: "traverse f xs = Inl e \<Longrightarrow> \<exists>x \<in> set xs. f x = Inl e"
proof (induction xs)
  case (Cons x xs)
  then show ?case by (cases "f x"; cases "traverse f xs") auto
qed simp

lemma traverse_map_Inr: "(\<And>x. x \<in> set xs \<Longrightarrow> f x = Inr (g x)) \<Longrightarrow> traverse f xs = Inr (map g xs)"
  by (simp add: traverse_Inr)

fun value_or :: "'a \<Rightarrow> 'e + 'a \<Rightarrow> 'a" where
  "value_or d (Inl e) = d"
| "value_or d (Inr x) = x"

lemma traverse_values:
  "traverse f xs = Inr ys \<Longrightarrow> ys = map (\<lambda>x. value_or d (f x)) xs \<and> (\<forall>x \<in> set xs. f x = Inr (value_or d (f x)))"
proof (induction xs arbitrary: ys)
  case (Cons x xs)
  then show ?case by (cases "f x"; cases "traverse f xs") auto
qed simp

lemma traverse_map_sum: "traverse (\<lambda>x. map_sum id h (f x)) xs = map_sum id (map h) (traverse f xs)"
proof (induction xs)
  case (Cons x xs)
  then show ?case by (cases "f x"; cases "traverse f xs") simp_all
qed simp

lemma and_next_map_sum: "and_next m (\<lambda>x. map_sum id h (f x)) = map_sum id h (and_next m f)"
  by (cases m) simp_all

text \<open>A loop that updates a state and ends at the first error.\<close>

fun fold_result :: "('s \<Rightarrow> 'a \<Rightarrow> 'e + 's) \<Rightarrow> 's \<Rightarrow> 'a list \<Rightarrow> 'e + 's" where
  "fold_result f s [] = Inr s"
| "fold_result f s (x # xs) = and_next (f s x) (\<lambda>s1. fold_result f s1 xs)"

lemma fold_result_append:
  "fold_result f s (xs @ ys) = and_next (fold_result f s xs) (\<lambda>s1. fold_result f s1 ys)"
proof (induction xs arbitrary: s)
  case (Cons x xs)
  then show ?case by (cases "f s x") simp_all
qed simp

lemma fold_result_invariant:
  assumes "fold_result f s xs = Inr s'" "I s" "\<And>x s s'. x \<in> set xs \<Longrightarrow> I s \<Longrightarrow> f s x = Inr s' \<Longrightarrow> I s'"
  shows "I s'"
  using assms
proof (induction xs arbitrary: s)
  case (Cons x xs)
  then obtain s1 where "f s x = Inr s1" "fold_result f s1 xs = Inr s'" by (auto simp: and_next_Inr)
  with Cons.IH [of s1] Cons.prems(2,3) show ?case by (meson list.set_intros)
qed simp

section \<open>Sorting\<close>

text \<open>A stable sort lists the elements key by key.\<close>

lemma sort_key_concat:
  assumes keys: "\<forall>x \<in> set xs. f x \<in> set ks" and ks: "sorted ks" "distinct ks"
  shows "sort_key f xs = concat (map (\<lambda>k. filter (\<lambda>x. f x = k) xs) ks)"
proof -
  let ?ys = "concat (map (\<lambda>k. filter (\<lambda>x. f x = k) xs) ks)"
  have one: "filter (\<lambda>x. f x = k) ?ys = (if k \<in> set ks then filter (\<lambda>x. f x = k) xs else [])" for k
    using ks(2) by (induction ks) (auto simp: filter_empty_conv conj_commute cong: conj_cong)
  show ?thesis
  proof (rule properties_for_sort_key)
    show "mset ?ys = mset xs"
    proof (rule multiset_eqI)
      fix x
      have "count (mset zs) x = count (mset (filter (\<lambda>z. f z = f x) zs)) x" for zs by (induction zs) auto
      then show "count (mset ?ys) x = count (mset xs) x" using one [of "f x"] keys
        by (metis (no_types, lifting) count_mset_0_iff empty_iff list.set(1))
    qed
    show "filter (\<lambda>x. f k = f x) ?ys = filter (\<lambda>x. f k = f x) xs" if "k \<in> set ?ys" for k
      using one [of "f k"] that by (auto simp: eq_commute [of "f k"])
    show "sorted (map f ?ys)"
    proof -
      have "sorted (map f (filter (\<lambda>x. f x = a) zs))" for a zs by (induction zs) auto
      then show ?thesis using ks(1) by (induction ks) (auto simp: sorted_append)
    qed
  qed
qed

section \<open>Chunks\<close>

text \<open>\<open>xs.chunks(n)\<close> for a non-zero \<open>n\<close>\<close>

function chunks :: "nat \<Rightarrow> 'a list \<Rightarrow> 'a list list" where
  "chunks n xs = (if xs = [] \<or> n = 0 then [] else take n xs # chunks n (drop n xs))"
  by pat_completeness auto
termination by (relation "measure (length \<circ> snd)") auto

declare chunks.simps [simp del]

lemma concat_chunks: "0 < n \<Longrightarrow> concat (chunks n xs) = xs"
  by (induction n xs rule: chunks.induct) (subst chunks.simps, simp)

lemma chunks_bounded: "ys \<in> set (chunks n xs) \<Longrightarrow> ys \<noteq> [] \<and> length ys \<le> n"
  by (induction n xs rule: chunks.induct) (subst (asm) (2) chunks.simps, auto split: if_splits)

lemma chunks_Nil [simp]: "chunks n [] = []"
  by (simp add: chunks.simps)

end
