(* ===== verification/Arrow.thy ===== *)
theory Arrow
  imports Staging Results "HOL-Library.List_Lexorder" "HOL-Library.Char_ord"
begin

text \<open>
  Record batches and how rows are taken out of them: \<open>batch_to_vectors\<close>, \<open>batch_to_ids\<close>, \<open>build_payload\<close> and their
  helpers in \<open>likhadb-lakehouse/src/parquet_io.rs\<close>. A column keeps, for every row, whether it is null and the value
  in its buffer: \<open>value(i)\<close> reads the buffer whether the row is null or not. What the Arrow library computes
  (casting a column, numbers of \<open>serde_json\<close>) is a record of functions.
\<close>

section \<open>Columns\<close>

type_synonym 'a slots = "(bool \<times> 'a) list"

datatype list_layout = FixedSizeList nat | ListArray | LargeListArray

datatype column =
    StringArray "string slots"
  | Int64Array "64 word slots"
  | Int32Array "32 word slots"
  | UInt64Array "64 word slots"
  | UInt32Array "32 word slots"
  | Float32Array "f32 slots"
  | Float64Array "f64 slots"
  | BooleanArray "bool slots"
  | FloatLists list_layout "vec slots"
  | OtherLists list_layout "bool list"
  | OtherArray "bool list"

fun is_null :: "column \<Rightarrow> nat \<Rightarrow> bool" where
  "is_null (StringArray xs) i = (\<not> fst (xs ! i))"
| "is_null (Int64Array xs) i = (\<not> fst (xs ! i))"
| "is_null (Int32Array xs) i = (\<not> fst (xs ! i))"
| "is_null (UInt64Array xs) i = (\<not> fst (xs ! i))"
| "is_null (UInt32Array xs) i = (\<not> fst (xs ! i))"
| "is_null (Float32Array xs) i = (\<not> fst (xs ! i))"
| "is_null (Float64Array xs) i = (\<not> fst (xs ! i))"
| "is_null (BooleanArray xs) i = (\<not> fst (xs ! i))"
| "is_null (FloatLists l xs) i = (\<not> fst (xs ! i))"
| "is_null (OtherLists l bs) i = (\<not> bs ! i)"
| "is_null (OtherArray bs) i = (\<not> bs ! i)"

record record_batch =
  b_columns :: "(string \<times> column) list"
  b_num_rows :: nat

text \<open>Functions of the libraries.\<close>

record 'n arrow_lib =
  cast_uint64 :: "column \<Rightarrow> column option"
  number_i64 :: "64 word \<Rightarrow> 'n"
  number_u64 :: "64 word \<Rightarrow> 'n"
  number_f64 :: "f64 \<Rightarrow> 'n option"

text \<open>\<open>schema.index_of(name)\<close> and \<open>batch.column(idx)\<close>\<close>

definition index_of :: "record_batch \<Rightarrow> string \<Rightarrow> lakehouse_error + nat" where
  "index_of b name = ok_or (LkColumnNotFound name) (position name (map fst (b_columns b)))"

definition column_at :: "record_batch \<Rightarrow> nat \<Rightarrow> column" where
  "column_at b idx = snd (b_columns b ! idx)"

section \<open>Payloads\<close>

text \<open>\<open>Map::insert\<close> on the sorted entries of an object.\<close>

definition obj_insert :: "string \<Rightarrow> 'n json \<Rightarrow> (string \<times> 'n json) list \<Rightarrow> (string \<times> 'n json) list" where
  "obj_insert k v m = filter (\<lambda>(a, _). a < k) m @ (k, v) # filter (\<lambda>(a, _). k < a) m"

fun col_value_at :: "'n arrow_lib \<Rightarrow> column \<Rightarrow> nat \<Rightarrow> 'n json option" where
  "col_value_at ar (StringArray xs) i = Some (JStr (snd (xs ! i)))"
| "col_value_at ar (Int64Array xs) i = Some (JNum (number_i64 ar (snd (xs ! i))))"
| "col_value_at ar (Int32Array xs) i = Some (JNum (number_i64 ar (scast (snd (xs ! i)))))"
| "col_value_at ar (UInt64Array xs) i = Some (JNum (number_u64 ar (snd (xs ! i))))"
| "col_value_at ar (UInt32Array xs) i = Some (JNum (number_u64 ar (ucast (snd (xs ! i)))))"
| "col_value_at ar (Float32Array xs) i = map_option JNum (number_f64 ar (f64_of_f32 (snd (xs ! i))))"
| "col_value_at ar (Float64Array xs) i = map_option JNum (number_f64 ar (snd (xs ! i)))"
| "col_value_at ar (BooleanArray xs) i = Some (JBool (snd (xs ! i)))"
| "col_value_at ar _ i = None"

text \<open>The text of a single column called \<open>payload\<close>, when it is JSON.\<close>

definition payload_text :: "'n serde \<Rightarrow> record_batch \<Rightarrow> (nat \<times> string) list \<Rightarrow> nat \<Rightarrow> 'n json option" where
  "payload_text sd b cols i = (case cols of
       [(idx, name)] \<Rightarrow>
         if name = ''payload'' then
           (case column_at b idx of
              StringArray xs \<Rightarrow> if is_null (StringArray xs) i then None else json_from_str sd (snd (xs ! i))
            | _ \<Rightarrow> None)
         else None
     | _ \<Rightarrow> None)"

definition payload_object :: "'n arrow_lib \<Rightarrow> record_batch \<Rightarrow> (nat \<times> string) list \<Rightarrow> nat \<Rightarrow> (string \<times> 'n json) list" where
  "payload_object ar b cols i = foldl (\<lambda>m (idx, name).
       if is_null (column_at b idx) i then m
       else case col_value_at ar (column_at b idx) i of Some v \<Rightarrow> obj_insert name v m | None \<Rightarrow> m) [] cols"

definition build_payload ::
  "'n serde \<Rightarrow> 'n arrow_lib \<Rightarrow> record_batch \<Rightarrow> (nat \<times> string) list \<Rightarrow> nat \<Rightarrow> 'n json option"
where
  "build_payload sd ar b cols i =
     (if cols = [] then None
      else case payload_text sd b cols i of
          Some v \<Rightarrow> Some v
        | None \<Rightarrow> let m = payload_object ar b cols i in if m = [] then None else Some (JObj m))"

section \<open>Rows\<close>

definition id_column_of :: "'n arrow_lib \<Rightarrow> record_batch \<Rightarrow> string \<Rightarrow> lakehouse_error + 64 word slots" where
  "id_column_of ar b id_col = and_next (index_of b id_col) (\<lambda>idx.
     let raw = column_at b idx
     in and_next (case raw of UInt64Array xs \<Rightarrow> Inr raw | _ \<Rightarrow> ok_or LkArrow (cast_uint64 ar raw)) (\<lambda>col.
          case col of UInt64Array xs \<Rightarrow> Inr xs | _ \<Rightarrow> Inl LkSchema))"

definition payload_indices :: "record_batch \<Rightarrow> string list \<Rightarrow> lakehouse_error + (nat \<times> string) list" where
  "payload_indices b names = traverse (\<lambda>name. and_next (index_of b name) (\<lambda>idx. Inr (idx, name))) names"

fun vector_at :: "column \<Rightarrow> nat \<Rightarrow> lakehouse_error + vec" where
  "vector_at (FloatLists l xs) i = (if is_null (FloatLists l xs) i then Inl LkSchema else Inr (snd (xs ! i)))"
| "vector_at _ i = Inl LkSchema"

type_synonym 'n decoded_row = "vecid \<times> vec \<times> 'n json option"

definition batch_to_vectors ::
  "'n serde \<Rightarrow> 'n arrow_lib \<Rightarrow> record_batch \<Rightarrow> string \<Rightarrow> string \<Rightarrow> string list \<Rightarrow> lakehouse_error + 'n decoded_row list"
where
  "batch_to_vectors sd ar b id_col vector_col payload_cols =
     and_next (id_column_of ar b id_col) (\<lambda>ids.
     and_next (index_of b vector_col) (\<lambda>vec_idx.
     and_next (payload_indices b payload_cols) (\<lambda>cols.
       traverse (\<lambda>i. and_next (vector_at (column_at b vec_idx) i) (\<lambda>v.
         Inr (snd (ids ! i), v, build_payload sd ar b cols i))) [0..<b_num_rows b])))"

definition batch_to_ids :: "'n arrow_lib \<Rightarrow> record_batch \<Rightarrow> string \<Rightarrow> lakehouse_error + vecid list" where
  "batch_to_ids ar b id_col = map_sum id (map snd) (id_column_of ar b id_col)"

section \<open>Rows put into a collection\<close>

definition upsert_of :: "'n decoded_row \<Rightarrow> 'n delta_row" where
  "upsert_of r = (case r of (y, v, p) \<Rightarrow> DUpsert y v p)"

lemma foldl_upserts:
  "foldl delta_spec (vs, m) (map upsert_of items) =
    (vs ++ map_of (rev (map (\<lambda>(y, v, p). (y, v)) items)), foldl (\<lambda>m (y, v, p). payload_upd y p m) m items)"
proof (induction items arbitrary: vs m)
  case (Cons r items)
  obtain y v p where r: "r = (y, v, p)" by (cases r)
  then have "upsert_of r = DUpsert y v p" by (simp add: upsert_of_def)
  then show ?case using r by (simp add: Cons.IH del: fun_upd_apply)
qed simp

lemma foldl_deletes: "foldl delta_spec (vs, m) (map DDelete ys) = (vs |` (- set ys), m |` (- set ys))"
proof (induction ys arbitrary: vs m)
  case (Cons y ys)
  show ?case by (simp add: Cons.IH) (auto simp: restrict_map_def fun_eq_iff)
qed (simp add: restrict_map_def)

text \<open>For the examples.\<close>

definition tiny_arrow :: "f64 arrow_lib" where
  "tiny_arrow = \<lparr>cast_uint64 = \<lambda>_. None, number_i64 = id, number_u64 = id, number_f64 = Some\<rparr>"

end
