(* ===== verification/QueryConfig.thy ===== *)
theory QueryConfig
  imports Fts
begin

text \<open>
  The configuration of the query pipeline (\<open>likhadb-query/src/config.rs\<close>) with its validating constructors, and how
  the server builds it from the environment (\<open>likhadb-server/src/pipeline_setup.rs\<close>). The texts of the errors are left out.
\<close>

datatype query_error = QConfig | QDataFusion | QIceberg | QArrow | QSchema | QRerank | QHttp

section \<open>Parts\<close>

datatype session_strategy = Child | Pool nat

record runtime_config =
  rc_batch_size :: nat
  rc_target_partitions :: nat
  rc_session_strategy :: session_strategy

text \<open>\<open>available_parallelism()\<close> is an argument.\<close>

definition runtime_default :: "nat option \<Rightarrow> runtime_config" where
  "runtime_default cpus = \<lparr>rc_batch_size = 512, rc_target_partitions = (case cpus of Some n \<Rightarrow> n | None \<Rightarrow> 4),
     rc_session_strategy = Child\<rparr>"

definition WEIGHT_SUM_TOLERANCE :: f32 where "WEIGHT_SUM_TOLERANCE = 0x3727C5AC"

record scoring_weights =
  vector_score :: f32
  recency_score :: f32

definition scoring_weights_new :: "f32 \<Rightarrow> f32 \<Rightarrow> query_error + scoring_weights" where
  "scoring_weights_new v r =
     (if f32_lt v 0 then Inl QConfig
      else if f32_lt r 0 then Inl QConfig
      else let s = f32_add v r
           in if f32_lt WEIGHT_SUM_TOLERANCE (f32_abs (f32_sub s f32_one)) then Inl QConfig
              else Inr \<lparr>vector_score = v, recency_score = r\<rparr>)"

record recency_config =
  grace_period_days :: "64 word"
  decay_lambda :: f64

definition recency_config_new :: "64 word \<Rightarrow> f64 \<Rightarrow> query_error + recency_config" where
  "recency_config_new grace lambda =
     (if sint grace < 0 then Inl QConfig
      else if f64_le lambda 0 then Inl QConfig
      else Inr \<lparr>grace_period_days = grace, decay_lambda = lambda\<rparr>)"

record bi_encoder_config =
  bi_endpoint :: string
  bi_alpha :: f32
  bi_top_p :: nat

definition bi_encoder_new :: "string \<Rightarrow> f32 \<Rightarrow> nat \<Rightarrow> query_error + bi_encoder_config" where
  "bi_encoder_new endpoint alpha top_p =
     (if f32_le alpha 0 \<or> f32_le f32_one alpha then Inl QConfig
      else if top_p = 0 then Inl QConfig
      else Inr \<lparr>bi_endpoint = endpoint, bi_alpha = alpha, bi_top_p = top_p\<rparr>)"

record cross_encoder_config =
  ce_endpoint :: string
  ce_top_k :: nat

definition cross_encoder_new :: "string \<Rightarrow> nat \<Rightarrow> query_error + cross_encoder_config" where
  "cross_encoder_new endpoint top_k =
     (if top_k = 0 then Inl QConfig else Inr \<lparr>ce_endpoint = endpoint, ce_top_k = top_k\<rparr>)"

record query_config =
  qc_parquet_dir :: string
  qc_runtime :: runtime_config
  qc_ann_top_n :: nat
  qc_weights :: scoring_weights
  qc_recency :: recency_config
  qc_top_m :: nat
  qc_bi_encoder :: "bi_encoder_config option"
  qc_cross_encoder :: "cross_encoder_config option"

section \<open>From the environment\<close>

text \<open>Reading a float from text is the standard library's; integers are read here.\<close>

record float_parser =
  parse_f32 :: "string \<Rightarrow> f32 option"
  parse_f64 :: "string \<Rightarrow> f64 option"

definition parse_i64 :: "string \<Rightarrow> 64 word option" where
  "parse_i64 s =
     (let (negative, t) = (case s of c # cs \<Rightarrow> if c = CHR ''-'' then (True, cs) else if c = CHR ''+'' then (False, cs) else (False, s)
          | [] \<Rightarrow> (False, []))
      in if t = [] then None
         else case parse_digits 0 t of
             None \<Rightarrow> None
           | Some n \<Rightarrow> if negative then (if n \<le> 2 ^ 63 then Some (- of_nat n) else None)
               else (if n < 2 ^ 63 then Some (of_nat n) else None))"

definition parse_usize :: "string \<Rightarrow> nat option" where
  "parse_usize s = map_option unat (parse_u64 s)"

text \<open>\<open>parse_env_f32\<close>, \<open>parse_env_f64\<close>, \<open>parse_env_i64\<close> and \<open>parse_env_usize\<close>: an unset variable means the default.\<close>

definition parse_env :: "(string \<Rightarrow> 'a option) \<Rightarrow> (string \<Rightarrow> string option) \<Rightarrow> string \<Rightarrow> 'a \<Rightarrow> 'a option" where
  "parse_env p env key d = (case env key of None \<Rightarrow> Some d | Some s \<Rightarrow> p s)"

definition DEFAULT_VECTOR_WEIGHT :: f32 where "DEFAULT_VECTOR_WEIGHT = 0x3F333333"
definition DEFAULT_RECENCY_WEIGHT :: f32 where "DEFAULT_RECENCY_WEIGHT = 0x3E99999A"
definition DEFAULT_GRACE_DAYS :: "64 word" where "DEFAULT_GRACE_DAYS = 30"
definition DEFAULT_DECAY_LAMBDA :: f64 where "DEFAULT_DECAY_LAMBDA = 0x3F847AE147AE147B"
definition DEFAULT_ANN_TOP_N :: nat where "DEFAULT_ANN_TOP_N = 500"
definition DEFAULT_TOP_M :: nat where "DEFAULT_TOP_M = 50"

text \<open>\<open>None\<close>: the configuration is refused.\<close>

definition weights_from_env :: "float_parser \<Rightarrow> (string \<Rightarrow> string option) \<Rightarrow> scoring_weights option" where
  "weights_from_env fp env =
     Option.bind (parse_env (parse_f32 fp) env ''LIKHADB_SCORING_VECTOR_WEIGHT'' DEFAULT_VECTOR_WEIGHT) (\<lambda>v.
     Option.bind (parse_env (parse_f32 fp) env ''LIKHADB_SCORING_RECENCY_WEIGHT'' DEFAULT_RECENCY_WEIGHT) (\<lambda>r.
       case scoring_weights_new v r of Inl e \<Rightarrow> None | Inr w \<Rightarrow> Some w))"

definition recency_from_env :: "float_parser \<Rightarrow> (string \<Rightarrow> string option) \<Rightarrow> recency_config option" where
  "recency_from_env fp env =
     Option.bind (parse_env parse_i64 env ''LIKHADB_RECENCY_GRACE_DAYS'' DEFAULT_GRACE_DAYS) (\<lambda>grace.
     Option.bind (parse_env (parse_f64 fp) env ''LIKHADB_RECENCY_DECAY_LAMBDA'' DEFAULT_DECAY_LAMBDA) (\<lambda>lambda.
       case recency_config_new grace lambda of Inl e \<Rightarrow> None | Inr r \<Rightarrow> Some r))"

definition build_query_config_from_env :: "float_parser \<Rightarrow> nat option \<Rightarrow> (string \<Rightarrow> string option) \<Rightarrow> query_config option" where
  "build_query_config_from_env fp cpus env =
     Option.bind (weights_from_env fp env) (\<lambda>weights.
     Option.bind (recency_from_env fp env) (\<lambda>recency.
     Option.bind (parse_env parse_usize env ''LIKHADB_ANN_TOP_N'' DEFAULT_ANN_TOP_N) (\<lambda>top_n.
     Option.bind (parse_env parse_usize env ''LIKHADB_TOP_M'' DEFAULT_TOP_M) (\<lambda>top_m.
       if top_n = 0 then None
       else if top_m = 0 \<or> top_n < top_m then None
       else Some \<lparr>qc_parquet_dir = [], qc_runtime = runtime_default cpus, qc_ann_top_n = top_n, qc_weights = weights,
              qc_recency = recency, qc_top_m = top_m, qc_bi_encoder = None, qc_cross_encoder = None\<rparr>))))"

section \<open>What a configuration promises\<close>

definition weights_ok :: "scoring_weights \<Rightarrow> bool" where
  "weights_ok w \<longleftrightarrow> \<not> f32_lt (vector_score w) 0 \<and> \<not> f32_lt (recency_score w) 0 \<and>
     \<not> f32_lt WEIGHT_SUM_TOLERANCE (f32_abs (f32_sub (f32_add (vector_score w) (recency_score w)) f32_one))"

definition config_ok :: "query_config \<Rightarrow> bool" where
  "config_ok c \<longleftrightarrow> weights_ok (qc_weights c) \<and> 0 \<le> sint (grace_period_days (qc_recency c)) \<and>
     \<not> f64_le (decay_lambda (qc_recency c)) 0 \<and> 0 < qc_top_m c \<and> qc_top_m c \<le> qc_ann_top_n c"

lemma scoring_weights_ok: "scoring_weights_new v r = Inr w \<Longrightarrow> weights_ok w"
  by (auto simp: scoring_weights_new_def weights_ok_def Let_def split: if_splits)

lemma build_query_config_ok: "build_query_config_from_env fp cpus env = Some c \<Longrightarrow> config_ok c"
  by (auto simp: build_query_config_from_env_def weights_from_env_def recency_from_env_def config_ok_def recency_config_new_def
    bind_eq_Some_conv dest: scoring_weights_ok split: if_splits sum.splits)

text \<open>The defaults pass: 0.7 and 0.3 sum to one exactly in single precision.\<close>

lemmas float_eval = f32_dec_def f64_dec_def fl_decode_def Let_def fl_emin_def sgnd_def f32_enc_def fl_round_def bitlen.simps
  f32_is_nan_def f64_is_nan_def f32_key_def f64_key_def fl_nan_def

lemma default_weights_sum: "f32_add DEFAULT_VECTOR_WEIGHT DEFAULT_RECENCY_WEIGHT = f32_one"
proof -
  have "f32_dec DEFAULT_VECTOR_WEIGHT = Num False 11744051 (-24)" "f32_dec DEFAULT_RECENCY_WEIGHT = Num False 10066330 (-25)"
    by (simp_all add: float_eval DEFAULT_VECTOR_WEIGHT_def DEFAULT_RECENCY_WEIGHT_def)
  then show ?thesis by (simp add: f32_add_def float_eval)
qed

lemma default_config_builds: "build_query_config_from_env fp cpus (\<lambda>_. None) \<noteq> None"
proof -
  have "f32_dec f32_one = Num False 8388608 (-23)" by (simp add: float_eval)
  then have "f32_sub f32_one f32_one = 0" by (simp add: f32_sub_def float_eval)
  then have "\<not> f32_lt WEIGHT_SUM_TOLERANCE (f32_abs (f32_sub f32_one f32_one))"
    by (simp add: WEIGHT_SUM_TOLERANCE_def f32_abs_def f32_lt_def float_eval)
  then have "scoring_weights_new DEFAULT_VECTOR_WEIGHT DEFAULT_RECENCY_WEIGHT = Inr \<lparr>vector_score = DEFAULT_VECTOR_WEIGHT, recency_score = DEFAULT_RECENCY_WEIGHT\<rparr>"
    unfolding scoring_weights_new_def default_weights_sum
    by (simp add: f32_lt_def float_eval DEFAULT_VECTOR_WEIGHT_def DEFAULT_RECENCY_WEIGHT_def)
  moreover have "recency_config_new DEFAULT_GRACE_DAYS DEFAULT_DECAY_LAMBDA =
      Inr \<lparr>grace_period_days = DEFAULT_GRACE_DAYS, decay_lambda = DEFAULT_DECAY_LAMBDA\<rparr>"
    by (simp add: recency_config_new_def DEFAULT_GRACE_DAYS_def DEFAULT_DECAY_LAMBDA_def f64_le_def float_eval)
  ultimately show ?thesis
    by (simp add: build_query_config_from_env_def weights_from_env_def recency_from_env_def parse_env_def DEFAULT_ANN_TOP_N_def DEFAULT_TOP_M_def)
qed

text \<open>A weight that is not a number gets past every check.\<close>

lemma nan_weight_accepted:
  "\<not> f32_lt r 0 \<Longrightarrow> scoring_weights_new 0x7FC00000 r = Inr \<lparr>vector_score = 0x7FC00000, recency_score = r\<rparr>"
proof -
  have nan: "f32_is_nan 0x7FC00000" "f32_dec 0x7FC00000 = NaN" "f32_enc NaN = 0x7FC00000" by (simp_all add: float_eval)
  have "f32_abs (f32_sub (f32_add 0x7FC00000 r) f32_one) = 0x7FC00000" by (simp add: f32_add_def f32_sub_def nan f32_abs_def)
  then show "\<not> f32_lt r 0 \<Longrightarrow> ?thesis" using nan(1) by (simp add: scoring_weights_new_def f32_lt_def Let_def)
qed

end
