(* ===== verification/Query.thy ===== *)
theory Query
  imports Arrow QueryConfig
begin

text \<open>
  The query pipeline (\<open>likhadb-query\<close>): the SQL of the enrichment (\<open>enrich.rs\<close>) and of the score fusion
  (\<open>fusion.rs\<close>), the tables of a request (\<open>session.rs\<close>), the two rerankers (\<open>rerank.rs\<close>) and their composition
  (\<open>pipeline.rs\<close>). The SQL engine and the model services are arguments. A result is an option of a sum: \<open>None\<close> is a panic.
\<close>

section \<open>Texts\<close>

fun join_with :: "string \<Rightarrow> string list \<Rightarrow> string" where
  "join_with sep [] = []"
| "join_with sep [t] = t"
| "join_with sep (t # u # ts) = t @ sep @ join_with sep (u # ts)"

definition unlines :: "string list \<Rightarrow> string" where
  "unlines = join_with [CHR 0x0A]"

abbreviation quot :: char where "quot \<equiv> CHR 0x27"

definition show_i64 :: "64 word \<Rightarrow> string" where
  "show_i64 x = (if sint x < 0 then CHR ''-'' # show_nat (nat (- sint x)) else show_nat (nat (sint x)))"

section \<open>The SQL engine\<close>

text \<open>
  \<open>'s\<close> a session context, \<open>'d\<close> a data frame or table. The last two are the text of a float.
\<close>

record ('s, 'd) sql_engine =
  en_clone :: "'s \<Rightarrow> 's"
  en_batch :: "(string \<times> column) list \<Rightarrow> record_batch option"
  en_mem_table :: "record_batch \<Rightarrow> 'd option"
  en_into_view :: "'d \<Rightarrow> 'd"
  en_register :: "'s \<Rightarrow> string \<Rightarrow> 'd \<Rightarrow> 's option"
  en_sql :: "'s \<Rightarrow> string \<Rightarrow> 'd option"
  en_collect :: "'d \<Rightarrow> record_batch list option"
  en_f32_text :: "f32 \<Rightarrow> string"
  en_f64_text :: "f64 \<Rightarrow> string"

definition child_context :: "('s, 'd) sql_engine \<Rightarrow> 's \<Rightarrow> 's" where
  "child_context en ctx = en_clone en ctx"

definition register_candidates_in :: "('s, 'd) sql_engine \<Rightarrow> 's \<Rightarrow> record_batch \<Rightarrow> query_error + 's" where
  "register_candidates_in en ctx b =
     and_next (ok_or QDataFusion (en_mem_table en b)) (\<lambda>t. ok_or QDataFusion (en_register en ctx ''candidates'' t))"

section \<open>Enrichment\<close>

text \<open>\<open>alnum\<close> is \<open>char::is_alphanumeric\<close>.\<close>

definition team_char :: "(char \<Rightarrow> bool) \<Rightarrow> char \<Rightarrow> bool" where
  "team_char alnum c \<longleftrightarrow> alnum c \<or> c = CHR ''-'' \<or> c = CHR ''_'' \<or> c = CHR ''.''"

definition validate_team_name :: "(char \<Rightarrow> bool) \<Rightarrow> string \<Rightarrow> query_error + unit" where
  "validate_team_name alnum team =
     (if team = [] then Inl QConfig else if \<not> list_all (team_char alnum) team then Inl QConfig else Inr ())"

definition team_clause :: "string \<Rightarrow> string" where
  "team_clause t = ''array_has(acl.allowed_teams, '' @ [quot] @ t @ [quot] @ '')''"

definition acl_predicate :: "(char \<Rightarrow> bool) \<Rightarrow> string list \<Rightarrow> query_error + string option" where
  "acl_predicate alnum teams =
     (if teams = [] then Inr None
      else and_next (traverse (validate_team_name alnum) teams) (\<lambda>_.
        Inr (Some (''('' @ join_with '' OR '' (map team_clause teams) @ '')''))))"

definition enrich_sql :: "(char \<Rightarrow> bool) \<Rightarrow> string list \<Rightarrow> bool \<Rightarrow> query_error + string" where
  "enrich_sql alnum teams include_embedding = and_next (acl_predicate alnum teams) (\<lambda>acl.
     let embedding_col = (if include_embedding then unlines ['','', ''    e.embedding''] else []);
         clauses = (''cl.sensitivity_label != '' @ [quot] @ ''restricted'' @ [quot]) # (case acl of Some s \<Rightarrow> [s] | None \<Rightarrow> []);
         where_clause = join_with (unlines [[], ''  AND '']) clauses
     in Inr (unlines
         [''SELECT'',
          ''    c.id,'',
          ''    c.ann_distance,'',
          ''    c.ann_rank,'',
          ''    e.chunk_text,'',
          ''    d.created_at,'',
          ''    a.reputation_score,'',
          ''    a.is_verified'' @ embedding_col,
          ''FROM candidates c'',
          ''JOIN embeddings e       ON c.id = e.chunk_id'',
          ''JOIN documents d        ON e.doc_id = d.id'',
          ''JOIN authors a          ON d.author_id = a.id'',
          ''JOIN classifications cl ON e.doc_id = cl.doc_id'',
          ''JOIN access_control acl ON e.doc_id = acl.doc_id'',
          ''WHERE '' @ where_clause]))"

definition enrich :: "('s, 'd) sql_engine \<Rightarrow> (char \<Rightarrow> bool) \<Rightarrow> 's \<Rightarrow> string list \<Rightarrow> bool \<Rightarrow> query_error + 'd" where
  "enrich en alnum ctx teams include_embedding =
     and_next (enrich_sql alnum teams include_embedding) (\<lambda>sql. ok_or QDataFusion (en_sql en ctx sql))"

section \<open>Score fusion\<close>

definition fusion_sql :: "('s, 'd) sql_engine \<Rightarrow> scoring_weights \<Rightarrow> recency_config \<Rightarrow> nat \<Rightarrow> string" where
  "fusion_sql en w r top_m =
     (let lambda = en_f64_text en (decay_lambda r); grace = show_i64 (grace_period_days r);
          w_vector = en_f32_text en (vector_score w); w_recency = en_f32_text en (recency_score w)
      in unlines
         [''WITH normalized AS ('',
          ''    SELECT'',
          ''        id,'',
          ''        ann_distance,'',
          ''        ann_rank,'',
          ''        chunk_text,'',
          ''        created_at,'',
          ''        1.0 / (1.0 + ann_distance) AS raw_vector_score,'',
          ''        exp(-'' @ lambda @ '' * CASE'',
          ''            WHEN (extract(epoch from now()) - CAST(created_at AS DOUBLE)) / 86400.0 - '' @ grace @ ''.0 > 0.0'',
          ''            THEN (extract(epoch from now()) - CAST(created_at AS DOUBLE)) / 86400.0 - '' @ grace @ ''.0'',
          ''            ELSE 0.0'',
          ''        END) AS raw_recency_score'',
          ''    FROM enriched_candidates'',
          ''),'',
          ''minmax AS ('',
          ''    SELECT'',
          ''        id,'',
          ''        ann_distance,'',
          ''        ann_rank,'',
          ''        chunk_text,'',
          ''        created_at,'',
          ''        raw_vector_score,'',
          ''        raw_recency_score,'',
          ''        (raw_vector_score  - MIN(raw_vector_score)  OVER ())'',
          ''            / NULLIF(MAX(raw_vector_score)  OVER () - MIN(raw_vector_score)  OVER (), 0)'',
          ''            AS norm_vector_score,'',
          ''        (raw_recency_score - MIN(raw_recency_score) OVER ())'',
          ''            / NULLIF(MAX(raw_recency_score) OVER () - MIN(raw_recency_score) OVER (), 0)'',
          ''            AS norm_recency_score'',
          ''    FROM normalized'',
          '')'',
          ''SELECT'',
          ''    id,'',
          ''    ann_distance,'',
          ''    ann_rank,'',
          ''    chunk_text,'',
          ''    created_at,'',
          ''    ('' @ w_vector @ '' * COALESCE(norm_vector_score, 0.0)'',
          ''     + '' @ w_recency @ '' * COALESCE(norm_recency_score, 0.0)) AS fusion_score'',
          ''FROM minmax'',
          ''ORDER BY fusion_score DESC'',
          ''LIMIT '' @ show_nat top_m])"

definition fuse_scores ::
  "('s, 'd) sql_engine \<Rightarrow> 's \<Rightarrow> 'd \<Rightarrow> scoring_weights \<Rightarrow> recency_config \<Rightarrow> nat \<Rightarrow> query_error + 'd"
where
  "fuse_scores en ctx enriched w r top_m =
     and_next (ok_or QDataFusion (en_register en ctx ''enriched_candidates'' (en_into_view en enriched))) (\<lambda>ctx1.
       ok_or QDataFusion (en_sql en ctx1 (fusion_sql en w r top_m)))"

section \<open>Reranking\<close>

text \<open>\<open>v.sort_by(|a, b| b.partial_cmp(a).unwrap())\<close>: largest first, stable; two or more elements are all compared, and
  the comparison with one that is not a number panics.\<close>

definition sort_desc :: "('a \<Rightarrow> int) \<Rightarrow> ('a \<Rightarrow> bool) \<Rightarrow> 'a list \<Rightarrow> 'a list option" where
  "sort_desc key nan xs =
     (if 2 \<le> length xs \<and> list_ex nan xs then None else Some (sort_key (\<lambda>x. - key x) xs))"

record bi_ranked =
  br_id :: string
  br_fusion_score :: f64
  br_bi_score :: f32
  br_combined_score :: f64
  br_chunk_text :: string

record cross_ranked =
  cr_id :: string
  cr_fusion_score :: f64
  cr_bi_score :: "f32 option"
  cr_cross_score :: f32
  cr_chunk_text :: string

type_synonym model_client = "string \<Rightarrow> string list \<Rightarrow> query_error + f32 list"

definition named_column :: "record_batch \<Rightarrow> string \<Rightarrow> query_error + column" where
  "named_column b name = (case position name (map fst (b_columns b)) of None \<Rightarrow> Inl QSchema | Some i \<Rightarrow> Inr (column_at b i))"

fun as_texts :: "column \<Rightarrow> query_error + string slots" where
  "as_texts (StringArray xs) = Inr xs"
| "as_texts _ = Inl QSchema"

fun as_f64s :: "column \<Rightarrow> query_error + f64 slots" where
  "as_f64s (Float64Array xs) = Inr xs"
| "as_f64s _ = Inl QSchema"

type_synonym fused_row = "string \<times> f64 \<times> string"

definition fused_rows :: "record_batch \<Rightarrow> query_error + fused_row list" where
  "fused_rows b =
     and_next (named_column b ''id'') (\<lambda>id_raw.
     and_next (named_column b ''fusion_score'') (\<lambda>score_raw.
     and_next (named_column b ''chunk_text'') (\<lambda>text_raw.
     and_next (as_texts id_raw) (\<lambda>ids.
     and_next (as_f64s score_raw) (\<lambda>scores.
     and_next (as_texts text_raw) (\<lambda>texts.
       Inr (map (\<lambda>i. (snd (ids ! i), snd (scores ! i), snd (texts ! i))) [0..<b_num_rows b])))))))"

definition f64_one :: f64 where "f64_one = 0x3FF0000000000000"

definition combined :: "f32 \<Rightarrow> f32 \<Rightarrow> f64 \<Rightarrow> f64" where
  "combined alpha bs fs =
     (let a = f64_of_f32 alpha in f64_add (f64_mul a (f64_of_f32 bs)) (f64_mul (f64_sub f64_one a) fs))"

definition bi_candidate :: "f32 \<Rightarrow> fused_row \<times> f32 \<Rightarrow> bi_ranked" where
  "bi_candidate alpha r = (case r of ((y, fs, t), bs) \<Rightarrow>
     \<lparr>br_id = y, br_fusion_score = fs, br_bi_score = bs, br_combined_score = combined alpha bs fs, br_chunk_text = t\<rparr>)"

definition rerank_biencoder ::
  "('s, 'd) sql_engine \<Rightarrow> 'd \<Rightarrow> string \<Rightarrow> model_client \<Rightarrow> f32 \<Rightarrow> nat \<Rightarrow> (query_error + bi_ranked list) option"
where
  "rerank_biencoder en fused query client alpha top_p =
     (case and_next (ok_or QDataFusion (en_collect en fused)) (\<lambda>bs. map_sum id concat (traverse fused_rows bs)) of
        Inl e \<Rightarrow> Some (Inl e)
      | Inr items \<Rightarrow>
          if items = [] then Some (Inr [])
          else case client query (map (\<lambda>(y, fs, t). t) items) of
              Inl e \<Rightarrow> Some (Inl e)
            | Inr scores \<Rightarrow>
                if length scores \<noteq> length items then Some (Inl QRerank)
                else map_option (\<lambda>xs. Inr (take top_p xs))
                  (sort_desc (f64_key \<circ> br_combined_score) (f64_is_nan \<circ> br_combined_score)
                    (map (bi_candidate alpha) (zip items scores))))"

definition cross_result :: "bi_ranked \<times> f32 \<Rightarrow> cross_ranked" where
  "cross_result r = (case r of (c, cs) \<Rightarrow>
     \<lparr>cr_id = br_id c, cr_fusion_score = br_fusion_score c, cr_bi_score = Some (br_bi_score c), cr_cross_score = cs,
      cr_chunk_text = br_chunk_text c\<rparr>)"

definition rerank_crossencoder ::
  "bi_ranked list \<Rightarrow> string \<Rightarrow> model_client \<Rightarrow> nat \<Rightarrow> (query_error + cross_ranked list) option"
where
  "rerank_crossencoder candidates query client top_k =
     (if candidates = [] then Some (Inr [])
      else case client query (map br_chunk_text candidates) of
          Inl e \<Rightarrow> Some (Inl e)
        | Inr scores \<Rightarrow>
            if length scores \<noteq> length candidates then Some (Inl QRerank)
            else map_option (\<lambda>xs. Inr (take top_k xs))
              (sort_desc (f32_key \<circ> cr_cross_score) (f32_is_nan \<circ> cr_cross_score) (map cross_result (zip candidates scores))))"

section \<open>The pipeline\<close>

record candidate =
  cd_id :: vecid
  cd_ann_distance :: f32
  cd_ann_rank :: u64

record pipeline_request =
  pq_candidates :: "candidate list"
  pq_query_text :: string
  pq_allowed_teams :: "string list"
  pq_top_k :: nat

record pipeline_result =
  pr_id :: string
  pr_fusion_score :: f64
  pr_bi_score :: "f32 option"
  pr_cross_score :: "f32 option"
  pr_chunk_text :: "string option"

record 's pipeline =
  pl_session :: 's
  pl_weights :: scoring_weights
  pl_recency :: recency_config
  pl_top_m :: nat
  pl_bi_encoder :: "(model_client \<times> bi_encoder_config) option"
  pl_cross_encoder :: "(model_client \<times> cross_encoder_config) option"

definition zip_option :: "'a option \<Rightarrow> 'b option \<Rightarrow> ('a \<times> 'b) option" where
  "zip_option a b = Option.bind a (\<lambda>x. map_option (Pair x) b)"

definition pipeline_new :: "query_config \<Rightarrow> 's \<Rightarrow> model_client option \<Rightarrow> model_client option \<Rightarrow> 's pipeline" where
  "pipeline_new config session bi cross = \<lparr>pl_session = session, pl_weights = qc_weights config, pl_recency = qc_recency config,
     pl_top_m = qc_top_m config,
     pl_bi_encoder = map_option (\<lambda>(cfg, client). (client, cfg)) (zip_option (qc_bi_encoder config) bi),
     pl_cross_encoder = map_option (\<lambda>(cfg, client). (client, cfg)) (zip_option (qc_cross_encoder config) cross)\<rparr>"

definition candidates_to_batch :: "('s, 'd) sql_engine \<Rightarrow> candidate list \<Rightarrow> query_error + record_batch" where
  "candidates_to_batch en cs = ok_or QArrow (en_batch en
     [(''id'', StringArray (map (\<lambda>c. (True, show_nat (unat (cd_id c)))) cs)),
      (''ann_distance'', Float32Array (map (\<lambda>c. (True, cd_ann_distance c)) cs)),
      (''ann_rank'', UInt64Array (map (\<lambda>c. (True, cd_ann_rank c)) cs))])"

definition text_of :: "record_batch \<Rightarrow> nat \<Rightarrow> string option" where
  "text_of b i = (case named_column b ''chunk_text'' of
       Inr (StringArray xs) \<Rightarrow> Some (snd (xs ! i))
     | _ \<Rightarrow> None)"

definition materialize_fused :: "record_batch list \<Rightarrow> nat \<Rightarrow> query_error + pipeline_result list" where
  "materialize_fused bs top_k = map_sum id (take top_k \<circ> concat) (traverse (\<lambda>b.
     and_next (named_column b ''id'') (\<lambda>id_raw.
     and_next (named_column b ''fusion_score'') (\<lambda>score_raw.
     and_next (as_texts id_raw) (\<lambda>ids.
     and_next (as_f64s score_raw) (\<lambda>scores.
       Inr (map (\<lambda>i. \<lparr>pr_id = snd (ids ! i), pr_fusion_score = snd (scores ! i), pr_bi_score = None, pr_cross_score = None,
         pr_chunk_text = text_of b i\<rparr>) [0..<b_num_rows b])))))) bs)"

text \<open>Stages 2 to 4a: the candidates joined with the enrichment tables and scored.\<close>

definition fused_frame ::
  "('s, 'd) sql_engine \<Rightarrow> (char \<Rightarrow> bool) \<Rightarrow> 's pipeline \<Rightarrow> pipeline_request \<Rightarrow> query_error + 'd"
where
  "fused_frame en alnum p req =
     and_next (candidates_to_batch en (pq_candidates req)) (\<lambda>batch.
     and_next (register_candidates_in en (child_context en (pl_session p)) batch) (\<lambda>ctx.
     and_next (enrich en alnum ctx (pq_allowed_teams req) False) (\<lambda>enriched.
       fuse_scores en ctx enriched (pl_weights p) (pl_recency p) (pl_top_m p))))"

definition of_cross :: "cross_ranked \<Rightarrow> pipeline_result" where
  "of_cross r = \<lparr>pr_id = cr_id r, pr_fusion_score = cr_fusion_score r, pr_bi_score = cr_bi_score r,
     pr_cross_score = Some (cr_cross_score r), pr_chunk_text = Some (cr_chunk_text r)\<rparr>"

definition of_bi :: "bi_ranked \<Rightarrow> pipeline_result" where
  "of_bi c = \<lparr>pr_id = br_id c, pr_fusion_score = br_fusion_score c, pr_bi_score = Some (br_bi_score c), pr_cross_score = None,
     pr_chunk_text = Some (br_chunk_text c)\<rparr>"

definition execute ::
  "('s, 'd) sql_engine \<Rightarrow> (char \<Rightarrow> bool) \<Rightarrow> 's pipeline \<Rightarrow> pipeline_request \<Rightarrow> (query_error + pipeline_result list) option"
where
  "execute en alnum p req =
     (if pq_candidates req = [] then Some (Inr [])
      else case fused_frame en alnum p req of
          Inl e \<Rightarrow> Some (Inl e)
        | Inr fused \<Rightarrow>
            (case pl_bi_encoder p of
               None \<Rightarrow> Some (and_next (ok_or QDataFusion (en_collect en fused)) (\<lambda>bs. materialize_fused bs (pq_top_k req)))
             | Some (bi, bcfg) \<Rightarrow>
                 (case rerank_biencoder en fused (pq_query_text req) bi (bi_alpha bcfg) (bi_top_p bcfg) of
                    None \<Rightarrow> None
                  | Some (Inl e) \<Rightarrow> Some (Inl e)
                  | Some (Inr ranked) \<Rightarrow>
                      (case pl_cross_encoder p of
                         None \<Rightarrow> Some (Inr (map of_bi (take (pq_top_k req) ranked)))
                       | Some (cross, ccfg) \<Rightarrow>
                           map_option (map_sum id (map of_cross))
                             (rerank_crossencoder ranked (pq_query_text req) cross (ce_top_k ccfg))))))"

end
