(* ===== verification/Frame.thy ===== *)
theory Frame
  imports Prelude
begin

text \<open>
  The frames of the write-ahead log, \<open>likhadb-persist/src/wal/frame.rs\<close>: a little-endian length, a
  64-bit hash and a payload whose first byte holds the flags. The hash function and the compressor
  are libraries and parameters here. Bytes are words; a file is the list of its bytes, and reading an
  open file does not fail.
\<close>

type_synonym bytes = "u8 list"

datatype compression = NoCompression | Zstd int

text \<open>The libraries: \<open>xxh64\<close> with seed 0, and \<open>zstd\<close>.\<close>

record codec_lib =
  xxh64 :: "bytes \<Rightarrow> u64"
  zstd_encode :: "int \<Rightarrow> bytes \<Rightarrow> bytes option"
  zstd_decode :: "bytes \<Rightarrow> bytes option"

section \<open>Little-endian integers\<close>

fun le_bytes :: "nat \<Rightarrow> nat \<Rightarrow> bytes" where
  "le_bytes 0 n = []"
| "le_bytes (Suc k) n = of_nat (n mod 256) # le_bytes k (n div 256)"

fun le_val :: "bytes \<Rightarrow> nat" where
  "le_val [] = 0"
| "le_val (b # bs) = unat b + 256 * le_val bs"

lemma length_le_bytes [simp]: "length (le_bytes k n) = k"
  by (induction k arbitrary: n) auto

lemma le_val_bytes: "le_val (le_bytes k n) = n mod 256 ^ k"
proof (induction k arbitrary: n)
  case (Suc k)
  have "unat (of_nat (n mod 256) :: u8) = n mod 256" by (simp add: unat_of_nat)
  then have "le_val (le_bytes (Suc k) n) = n mod 256 + 256 * (n div 256 mod 256 ^ k)" using Suc by simp
  then show ?case by (simp add: mod_mult2_eq)
qed simp

lemma le_val_len: "n < 2 ^ 32 \<Longrightarrow> le_val (le_bytes 4 n) = n"
  by (simp add: le_val_bytes)

lemma le_val_hash: "of_nat (le_val (le_bytes 8 (unat (h :: u64)))) = h"
proof -
  have "unat h < 256 ^ 8" using unsigned_less [of h] by simp
  then show ?thesis by (simp add: le_val_bytes)
qed

section \<open>Payloads\<close>

definition FLAG_ZSTD :: u8 where "FLAG_ZSTD = 1"
definition KNOWN_FLAGS :: u8 where "KNOWN_FLAGS = FLAG_ZSTD"
definition HEADER_BYTES :: nat where "HEADER_BYTES = 12"

text \<open>\<open>None\<close> is an I/O error.\<close>

definition encode_payload :: "codec_lib \<Rightarrow> bytes \<Rightarrow> compression \<Rightarrow> bytes option" where
  "encode_payload lib payload c = (case c of
       NoCompression \<Rightarrow> Some (0 # payload)
     | Zstd level \<Rightarrow> (case zstd_encode lib level payload of
           None \<Rightarrow> None
         | Some compressed \<Rightarrow>
             if length compressed < length payload then Some (FLAG_ZSTD # compressed)
             else Some (0 # payload)))"

definition decode_payload :: "codec_lib \<Rightarrow> bytes \<Rightarrow> bytes option" where
  "decode_payload lib payload = (case payload of
       [] \<Rightarrow> None
     | flags # encoded \<Rightarrow>
         if and flags (not KNOWN_FLAGS) \<noteq> 0 then None
         else if and flags FLAG_ZSTD \<noteq> 0 then zstd_decode lib encoded
         else Some encoded)"

text \<open>The compressor inverts.\<close>

definition zstd_inverts :: "codec_lib \<Rightarrow> bool" where
  "zstd_inverts lib \<longleftrightarrow> (\<forall>level p z. zstd_encode lib level p = Some z \<longrightarrow> zstd_decode lib z = Some p)"

lemma decode_encode_payload:
  "zstd_inverts lib \<Longrightarrow> encode_payload lib p c = Some z \<Longrightarrow> decode_payload lib z = Some p"
  by (auto simp: encode_payload_def decode_payload_def zstd_inverts_def FLAG_ZSTD_def KNOWN_FLAGS_def
      split: compression.splits option.splits if_splits)

text \<open>The flags byte of a frame is 0 or 1.\<close>

lemma encode_payload_head:
  "encode_payload lib p c = Some z \<Longrightarrow> \<exists>flags zs. z = flags # zs \<and> (flags = 0 \<or> flags = 1) \<and> length zs \<le> length p"
  by (auto simp: encode_payload_def FLAG_ZSTD_def split: compression.splits option.splits if_splits)

section \<open>Frames\<close>

definition checksum :: "codec_lib \<Rightarrow> bytes \<Rightarrow> u64" where
  "checksum lib payload = xxh64 lib payload"

definition write_frame :: "codec_lib \<Rightarrow> bytes \<Rightarrow> bytes \<Rightarrow> bytes" where
  "write_frame lib w payload =
     w @ le_bytes 4 (length payload) @ le_bytes 8 (unat (checksum lib payload)) @ payload"

definition read_exact :: "nat \<Rightarrow> bytes \<Rightarrow> (bytes \<times> bytes) option" where
  "read_exact n r = (if length r < n then None else Some (take n r, drop n r))"

definition read_frame :: "bytes \<Rightarrow> ((bytes \<times> u64) \<times> bytes) option" where
  "read_frame r = (case read_exact 4 r of
       None \<Rightarrow> None
     | Some (len_buf, r1) \<Rightarrow> (case read_exact 8 r1 of
           None \<Rightarrow> None
         | Some (hash_buf, r2) \<Rightarrow> (case read_exact (le_val len_buf) r2 of
               None \<Rightarrow> None
             | Some (payload, r3) \<Rightarrow> Some ((payload, of_nat (le_val hash_buf)), r3))))"

abbreviation frame :: "codec_lib \<Rightarrow> bytes \<Rightarrow> bytes" where
  "frame lib p \<equiv> write_frame lib [] p"

lemma write_frame_append: "write_frame lib w p = w @ frame lib p"
  by (simp add: write_frame_def)

lemma length_frame [simp]: "length (frame lib p) = HEADER_BYTES + length p"
  by (simp add: write_frame_def HEADER_BYTES_def)

lemma read_exact_append: "length xs = n \<Longrightarrow> read_exact n (xs @ ys) = Some (xs, ys)"
  by (simp add: read_exact_def)

lemma read_frame_write:
  "length p < 2 ^ 32 \<Longrightarrow> read_frame (frame lib p @ rest) = Some ((p, checksum lib p), rest)"
  by (simp add: read_frame_def write_frame_def read_exact_append le_val_len le_val_hash)

lemma read_frame_rest: "read_frame r = Some ((p, h), r') \<Longrightarrow> length r = HEADER_BYTES + length p + length r'"
  by (auto simp: read_frame_def read_exact_def HEADER_BYTES_def split: option.splits if_splits)

lemma read_frame_shorter: "read_frame r = Some (x, r') \<Longrightarrow> length r' < length r"
  by (cases x) (auto dest: read_frame_rest simp: HEADER_BYTES_def)

text \<open>A frame cut short anywhere is not a frame.\<close>

lemma read_frame_torn:
  assumes "length p < 2 ^ 32" "k < length (frame lib p)"
  shows "read_frame (take k (frame lib p)) = None"
proof (cases "k < 12")
  case True
  then show ?thesis
    by (auto simp: read_frame_def read_exact_def write_frame_def split: option.split)
next
  case False
  then have "take k (frame lib p) = le_bytes 4 (length p) @ le_bytes 8 (unat (checksum lib p)) @ take (k - 12) p"
    by (simp add: write_frame_def)
  moreover have "k - 12 < length p" using assms(2) False by (simp add: HEADER_BYTES_def)
  ultimately show ?thesis
    using assms(1) by (simp add: read_frame_def read_exact_append le_val_len) (simp add: read_exact_def)
qed

text \<open>\<open>FrameIter\<close>: all frames up to the first that is cut short.\<close>

function frames :: "bytes \<Rightarrow> (bytes \<times> u64) list" where
  "frames r = (case read_frame r of None \<Rightarrow> [] | Some (x, r') \<Rightarrow> x # frames r')"
  by pat_completeness auto
termination
  by (relation "measure length") (auto dest: read_frame_shorter)

declare frames.simps [simp del]

end
