(* ===== verification/WalLog.thy ===== *)
theory WalLog
  imports Frame Meta
begin

text \<open>
  Log entries and the log reader: \<open>wal/entry.rs\<close>, \<open>wal/reader.rs\<close> and \<open>decode_entry\<close>,
  \<open>reject_legacy_frame_format\<close> of \<open>wal/mod.rs\<close>. The serializer (bincode over the derived formats) is a
  parameter. The lemmas say what the reader returns for a log, for a log with a torn or corrupt tail,
  and for a log with a damaged frame in the middle.
\<close>

section \<open>Entries\<close>

definition CURRENT_WAL_VERSION :: u8 where "CURRENT_WAL_VERSION = 2"

datatype index_kind =
    KFlat
  | KIvf nat nat
  | KIvfSq8 nat nat
  | KHnsw nat nat nat

datatype 'n wal_op =
    CreateCollection string nat metric index_kind
  | DropCollection string
  | WInsert string vecid vec "'n json option"
  | WDelete string vecid
  | EnableFts string
  | SetSourceBinding string source_binding

record 'n wal_entry =
  e_version :: u8
  e_lsn :: u64
  e_op :: "'n wal_op"

definition wal_entry_new :: "u64 \<Rightarrow> 'n wal_op \<Rightarrow> 'n wal_entry" where
  "wal_entry_new lsn opn = \<lparr>e_version = CURRENT_WAL_VERSION, e_lsn = lsn, e_op = opn\<rparr>"

text \<open>\<open>PersistError\<close>; the text of an I/O, encode or decode error is not modelled.\<close>

datatype persist_error =
    Io
  | Encode
  | Decode
  | UnsupportedVersion u8 u8
  | Crc u64 u64
  | Apply db_error

text \<open>\<open>bincode_opts().serialize\<close> and \<open>deserialize\<close>\<close>

record 'n bincode =
  bin_write :: "'n wal_entry \<Rightarrow> bytes option"
  bin_read :: "bytes \<Rightarrow> 'n wal_entry option"

text \<open>
  Documented behaviour: what is written can be read back, and the version, the first field, is the
  first byte.
\<close>

definition bincode_ok :: "'n bincode \<Rightarrow> bool" where
  "bincode_ok bin \<longleftrightarrow> (\<forall>e p. bin_write bin e = Some p \<longrightarrow> bin_read bin p = Some e \<and> (\<exists>ps. p = e_version e # ps))"

section \<open>Decoding\<close>

definition decode_entry :: "codec_lib \<Rightarrow> 'n bincode \<Rightarrow> bytes \<Rightarrow> persist_error + 'n wal_entry" where
  "decode_entry lib bin payload =
     (case (if take 1 payload = [CURRENT_WAL_VERSION] then Some payload else decode_payload lib payload) of
        None \<Rightarrow> Inl Io
      | Some p \<Rightarrow>
          let decode = (case bin_read bin p of None \<Rightarrow> Inl Decode | Some e \<Rightarrow> Inr e)
          in case p of
               found # _ \<Rightarrow> if found \<noteq> CURRENT_WAL_VERSION then Inl (UnsupportedVersion found CURRENT_WAL_VERSION)
                 else decode
             | [] \<Rightarrow> decode)"

text \<open>\<open>LEGACY_CRC_FRAME_HEADER_BYTES\<close> is 8: the old frames had a 4-byte checksum.\<close>

definition LEGACY_CRC_FRAME_HEADER_BYTES :: nat where "LEGACY_CRC_FRAME_HEADER_BYTES = 8"

definition reject_legacy_frame_format :: "codec_lib \<Rightarrow> 'n bincode \<Rightarrow> bytes \<Rightarrow> persist_error + unit" where
  "reject_legacy_frame_format lib bin file =
     (if length file < 4 then Inr ()
      else
        let payload_len = le_val (take 4 file)
        in if HEADER_BYTES + payload_len \<le> length file \<and>
              checksum lib (take payload_len (drop HEADER_BYTES file)) = of_nat (le_val (take 8 (drop 4 file)))
           then Inr ()
           else if LEGACY_CRC_FRAME_HEADER_BYTES + payload_len \<le> length file
           then (case bin_read bin (take payload_len (drop LEGACY_CRC_FRAME_HEADER_BYTES file)) of
                Some e \<Rightarrow> if e_version e < CURRENT_WAL_VERSION
                  then Inl (UnsupportedVersion (e_version e) CURRENT_WAL_VERSION) else Inr ()
              | None \<Rightarrow> Inr ())
           else Inr ())"

section \<open>The reader\<close>

text \<open>The items a reader yields: entries, and the error that ends the iteration, if any.\<close>

function read_items ::
  "codec_lib \<Rightarrow> 'n bincode \<Rightarrow> u64 option \<Rightarrow> bytes \<Rightarrow> 'n wal_entry list \<times> persist_error option"
where
  "read_items lib bin after_lsn r = (case read_frame r of
       None \<Rightarrow> ([], None)
     | Some ((payload, stored_hash), r') \<Rightarrow>
         if checksum lib payload \<noteq> stored_hash then
           (if r' = [] then ([], None) else ([], Some (Crc stored_hash (checksum lib payload))))
         else (case decode_entry lib bin payload of
             Inl e \<Rightarrow> ([], Some e)
           | Inr entry \<Rightarrow>
               let (es, err) = read_items lib bin after_lsn r'
               in (if (case after_lsn of Some a \<Rightarrow> e_lsn entry \<le> a | None \<Rightarrow> False) then es else entry # es, err)))"
  by pat_completeness auto
termination
  by (relation "measure (\<lambda>(lib, bin, a, r). length r)") (auto dest: read_frame_shorter)

declare read_items.simps [simp del]

definition open_reader ::
  "codec_lib \<Rightarrow> 'n bincode \<Rightarrow> u64 option \<Rightarrow> bytes \<Rightarrow> persist_error + 'n wal_entry list \<times> persist_error option"
where
  "open_reader lib bin after_lsn file = (case reject_legacy_frame_format lib bin file of
       Inl e \<Rightarrow> Inl e
     | Inr _ \<Rightarrow> Inr (read_items lib bin after_lsn file))"

section \<open>Logs\<close>

text \<open>A frame that holds an entry, and a file that holds a list of entries.\<close>

definition holds :: "codec_lib \<Rightarrow> 'n bincode \<Rightarrow> 'n wal_entry \<Rightarrow> bytes \<Rightarrow> bool" where
  "holds lib bin e f \<longleftrightarrow> (\<exists>p c z. bin_write bin e = Some p \<and> encode_payload lib p c = Some z \<and>
     length z < 2 ^ 32 \<and> f = frame lib z \<and> e_version e = CURRENT_WAL_VERSION)"

fun is_log :: "codec_lib \<Rightarrow> 'n bincode \<Rightarrow> 'n wal_entry list \<Rightarrow> bytes \<Rightarrow> bool" where
  "is_log lib bin [] bs \<longleftrightarrow> bs = []"
| "is_log lib bin (e # es) bs \<longleftrightarrow> (\<exists>f bs'. holds lib bin e f \<and> bs = f @ bs' \<and> is_log lib bin es bs')"

lemma is_log_append:
  "is_log lib bin (es @ es') bs \<longleftrightarrow> (\<exists>xs ys. bs = xs @ ys \<and> is_log lib bin es xs \<and> is_log lib bin es' ys)"
proof (induction es arbitrary: bs)
  case (Cons e es)
  show ?case
  proof
    assume "is_log lib bin ((e # es) @ es') bs"
    then obtain f xs ys where "holds lib bin e f" "bs = f @ xs @ ys" "is_log lib bin es xs" "is_log lib bin es' ys"
      using Cons by auto
    then show "\<exists>xs ys. bs = xs @ ys \<and> is_log lib bin (e # es) xs \<and> is_log lib bin es' ys"
      by (intro exI [of _ "f @ xs"] exI [of _ ys]) auto
  next
    assume "\<exists>xs ys. bs = xs @ ys \<and> is_log lib bin (e # es) xs \<and> is_log lib bin es' ys"
    then obtain f xs ys where "holds lib bin e f" "bs = f @ (xs @ ys)" "is_log lib bin es xs" "is_log lib bin es' ys"
      by auto
    then show "is_log lib bin ((e # es) @ es') bs" using Cons [of "xs @ ys"] by auto
  qed
qed simp

definition libs_ok :: "codec_lib \<Rightarrow> 'n bincode \<Rightarrow> bool" where
  "libs_ok lib bin \<longleftrightarrow> zstd_inverts lib \<and> bincode_ok bin"

lemma decode_encoded:
  assumes "libs_ok lib bin" "bin_write bin e = Some p" "encode_payload lib p c = Some z"
  shows "decode_entry lib bin z = (if e_version e = CURRENT_WAL_VERSION then Inr e
      else Inl (UnsupportedVersion (e_version e) CURRENT_WAL_VERSION)) \<and>
    (e_version e = CURRENT_WAL_VERSION \<longrightarrow> decode_entry lib bin p = Inr e)"
proof -
  obtain ps where p: "bin_read bin p = Some e" "p = e_version e # ps"
    using assms(1,2) by (auto simp: libs_ok_def bincode_ok_def)
  obtain flags zs where z: "z = flags # zs" "flags = 0 \<or> flags = 1" using encode_payload_head [OF assms(3)] by blast
  then have "flags \<noteq> CURRENT_WAL_VERSION" by (auto simp: CURRENT_WAL_VERSION_def)
  moreover have "decode_payload lib z = Some p"
    using decode_encode_payload [OF _ assms(3)] assms(1) by (simp add: libs_ok_def)
  ultimately show ?thesis using p z(1)
    by (cases "e_version e = CURRENT_WAL_VERSION") (simp_all add: decode_entry_def)
qed

lemma read_items_held:
  assumes "libs_ok lib bin" "holds lib bin e f"
  shows "read_items lib bin a (f @ r) = (let (es, err) = read_items lib bin a r
    in (if (case a of Some x \<Rightarrow> e_lsn e \<le> x | None \<Rightarrow> False) then es else e # es, err))"
proof -
  obtain p c z where z: "bin_write bin e = Some p" "encode_payload lib p c = Some z" "length z < 2 ^ 32"
      "f = frame lib z" "e_version e = CURRENT_WAL_VERSION" using assms(2) by (auto simp: holds_def)
  show ?thesis
    using read_frame_write [OF z(3), of lib r] decode_encoded [OF assms(1) z(1,2)] z(5)
    by (subst read_items.simps) (simp add: z(4))
qed

definition newer :: "u64 option \<Rightarrow> 'n wal_entry \<Rightarrow> bool" where
  "newer a e \<longleftrightarrow> (case a of Some x \<Rightarrow> x < e_lsn e | None \<Rightarrow> True)"

lemma newer_None [simp]: "newer None = (\<lambda>e. True)"
  by (simp add: newer_def fun_eq_iff)

text \<open>Reading a log and then whatever follows it.\<close>

lemma read_items_log:
  assumes "libs_ok lib bin" "is_log lib bin es bs"
  shows "read_items lib bin a (bs @ r) =
    (filter (newer a) es @ fst (read_items lib bin a r), snd (read_items lib bin a r))"
  using assms(2)
proof (induction es arbitrary: bs)
  case (Cons e es)
  then obtain f bs' where f: "holds lib bin e f" "bs = f @ bs'" "is_log lib bin es bs'" by auto
  show ?case using read_items_held [OF assms(1) f(1), of a "bs' @ r"] Cons.IH [OF f(3)]
    by (auto simp: f(2) newer_def case_prod_beta Let_def split: option.splits)
qed simp

lemma read_items_end [simp]: "read_items lib bin a [] = ([], None)"
  by (subst read_items.simps) (simp add: read_frame_def read_exact_def)

lemma read_items_torn:
  assumes "length z < 2 ^ 32" "k < length (frame lib z)"
  shows "read_items lib bin a (take k (frame lib z)) = ([], None)"
  by (subst read_items.simps) (simp add: read_frame_torn [OF assms])

text \<open>
  A frame cut short and then written over the end by later frames: the length of the lost frame is
  still there, so the reader takes the bytes of the later frames for the rest of it.
\<close>

lemma read_items_overrun:
  assumes z: "length z < 2 ^ 32" and k: "12 \<le> k" "k < length (frame lib z)"
    and m: "length (frame lib z) - k < length r"
    and h: "checksum lib (take (k - 12) z @ take (length (frame lib z) - k) r) \<noteq> checksum lib z"
  shows "\<exists>g. read_items lib bin a (take k (frame lib z) @ r) = ([], Some (Crc (checksum lib z) g))"
proof -
  let ?n = "length (frame lib z) - k"
  have t: "take k (frame lib z) = le_bytes 4 (length z) @ le_bytes 8 (unat (checksum lib z)) @ take (k - 12) z"
    using k(1) by (simp add: write_frame_def)
  have n: "?n = length z - (k - 12)" "k - 12 < length z" using k by (simp_all add: HEADER_BYTES_def)
  have len: "length (take (k - 12) z @ take ?n r) = length z" using n m by simp
  have rd: "read_exact (length z) (take (k - 12) z @ r) = Some (take (k - 12) z @ take ?n r, drop ?n r)"
    using read_exact_append [OF len, of "drop ?n r"] by simp
  have "read_frame (take k (frame lib z) @ r) =
      Some ((take (k - 12) z @ take ?n r, checksum lib z), drop ?n r)"
    by (simp only: t append_assoc read_frame_def read_exact_append length_le_bytes option.case prod.case
        le_val_len [OF z] le_val_hash rd)
  moreover have "drop ?n r \<noteq> []" using m by simp
  ultimately show ?thesis using h by (subst read_items.simps) simp
qed

text \<open>Written over at most to its end, it is dropped like any torn or damaged last frame.\<close>

lemma read_items_underrun:
  assumes z: "length z < 2 ^ 32" and k: "12 \<le> k" "k < length (frame lib z)"
    and m: "length r \<le> length (frame lib z) - k"
    and h: "length r = length (frame lib z) - k \<Longrightarrow> checksum lib (take (k - 12) z @ r) \<noteq> checksum lib z"
  shows "read_items lib bin a (take k (frame lib z) @ r) = ([], None)"
proof -
  have t: "take k (frame lib z) = le_bytes 4 (length z) @ le_bytes 8 (unat (checksum lib z)) @ take (k - 12) z"
    using k(1) by (simp add: write_frame_def)
  have n: "length (frame lib z) - k = length z - (k - 12)" "k - 12 < length z" using k by (simp_all add: HEADER_BYTES_def)
  have "read_frame (take k (frame lib z) @ r) = (case read_exact (length z) (take (k - 12) z @ r) of
      None \<Rightarrow> None | Some (payload, r3) \<Rightarrow> Some ((payload, checksum lib z), r3))"
    by (simp only: t append_assoc read_frame_def read_exact_append length_le_bytes option.case prod.case
        le_val_len [OF z] le_val_hash)
  moreover have "length (take (k - 12) z @ r) = k - 12 + length r" using n by simp
  ultimately show ?thesis using h m n
    by (subst read_items.simps) (auto simp: read_exact_def split: option.splits prod.splits if_splits)
qed

text \<open>The format check accepts every file that starts with a frame of its own.\<close>

lemma reject_legacy_log:
  assumes "is_log lib bin es bs" "es \<noteq> []"
  shows "reject_legacy_frame_format lib bin (bs @ r) = Inr ()"
proof -
  obtain e es' where "es = e # es'" using assms(2) by (cases es) auto
  then obtain z bs' where z: "bs = frame lib z @ bs'" "length z < 2 ^ 32"
    using assms(1) by (auto simp: holds_def)
  then have "le_val (take 4 (bs @ r)) = length z" by (simp add: write_frame_def le_val_len)
  moreover have "take (length z) (drop HEADER_BYTES (bs @ r)) = z"
    by (simp add: z write_frame_def HEADER_BYTES_def)
  moreover have "of_nat (le_val (take 8 (drop 4 (bs @ r)))) = checksum lib z"
    by (simp add: z write_frame_def le_val_hash)
  moreover have "HEADER_BYTES + length z \<le> length (bs @ r)" by (simp add: z)
  ultimately show ?thesis by (simp add: reject_legacy_frame_format_def Let_def)
qed

lemma reject_legacy_empty [simp]: "reject_legacy_frame_format lib bin [] = Inr ()"
  by (simp add: reject_legacy_frame_format_def)

lemma open_reader_log:
  assumes "libs_ok lib bin" "is_log lib bin es bs"
  shows "open_reader lib bin a bs = Inr (filter (newer a) es, None)"
proof (cases "es = []")
  case True
  then show ?thesis using assms(2) by (simp add: open_reader_def)
next
  case False
  then show ?thesis
    using reject_legacy_log [OF assms(2), of "[]"] read_items_log [OF assms, of a "[]"] by (simp add: open_reader_def)
qed

text \<open>A frame whose payload does not match its hash, and whatever follows it.\<close>

definition damaged :: "bytes \<Rightarrow> u64 \<Rightarrow> bytes" where
  "damaged z h = le_bytes 4 (length z) @ le_bytes 8 (unat h) @ z"

lemma read_items_damaged:
  assumes "length z < 2 ^ 32" "h \<noteq> checksum lib z"
  shows "read_items lib bin a (damaged z h @ r) = ([], if r = [] then None else Some (Crc h (checksum lib z)))"
  using assms
  by (subst read_items.simps) (simp add: read_frame_def damaged_def read_exact_append le_val_len le_val_hash)

lemma open_reader_tail:
  assumes "libs_ok lib bin" "is_log lib bin es bs" "es \<noteq> []"
  shows "open_reader lib bin a (bs @ r) =
    Inr (filter (newer a) es @ fst (read_items lib bin a r), snd (read_items lib bin a r))"
  using reject_legacy_log [OF assms(2,3), of r] read_items_log [OF assms(1,2), of a r] by (simp add: open_reader_def)

section \<open>A concrete serializer\<close>

text \<open>Entries of a short list, written as their version and their place in the list.\<close>

definition table_bin :: "'n wal_entry list \<Rightarrow> 'n bincode" where
  "table_bin es = \<lparr>bin_write = \<lambda>e. map_option (\<lambda>i. [e_version e, of_nat i]) (position e es),
     bin_read = \<lambda>b. (case b of
        [v, i] \<Rightarrow> if unat i < length es \<and> e_version (es ! unat i) = v then Some (es ! unat i) else None
      | _ \<Rightarrow> None)\<rparr>"

definition sum_lib :: codec_lib where
  "sum_lib = \<lparr>xxh64 = \<lambda>bs. of_nat (sum_list (map unat bs)), zstd_encode = \<lambda>_. Some, zstd_decode = Some\<rparr>"

lemma table_libs_ok: "length es \<le> 256 \<Longrightarrow> libs_ok sum_lib (table_bin es)"
proof -
  assume len: "length es \<le> 256"
  have "bincode_ok (table_bin es)"
    unfolding bincode_ok_def
  proof (intro allI impI)
    fix e p assume "bin_write (table_bin es) e = Some p"
    then obtain i where i: "position e es = Some i" "p = [e_version e, of_nat i]" by (auto simp: table_bin_def)
    then have "i < length es" "es ! i = e" using position_SomeD [of e es i] by simp_all
    moreover from this have "unat (of_nat i :: u8) = i" using len by (simp add: unat_of_nat)
    ultimately show "bin_read (table_bin es) p = Some e \<and> (\<exists>ps. p = e_version e # ps)"
      by (simp add: i table_bin_def)
  qed
  then show ?thesis by (simp add: libs_ok_def zstd_inverts_def sum_lib_def)
qed

definition log_example :: "f64 wal_entry list" where
  "log_example = [wal_entry_new 1 (CreateCollection ''c'' 2 L2 KFlat), wal_entry_new 2 (WDelete ''c'' 5)]"

definition frame_example :: "nat \<Rightarrow> bytes" where
  "frame_example i = frame sum_lib [0, 2, of_nat i]"

lemma log_example_ok: "libs_ok sum_lib (table_bin log_example)"
  by (rule table_libs_ok) (simp add: log_example_def)

lemma log_example_holds: "i < 2 \<Longrightarrow> holds sum_lib (table_bin log_example) (log_example ! i) (frame_example i)"
proof -
  assume "i < 2"
  then have "bin_write (table_bin log_example) (log_example ! i) = Some [2, of_nat i]"
    by (auto simp: less_Suc_eq numeral_2_eq_2 table_bin_def log_example_def wal_entry_new_def CURRENT_WAL_VERSION_def)
  moreover have "encode_payload sum_lib [2, of_nat i] NoCompression = Some [0, 2, of_nat i]"
    by (simp add: encode_payload_def)
  moreover have "e_version (log_example ! i) = CURRENT_WAL_VERSION"
    using \<open>i < 2\<close> by (auto simp: less_Suc_eq numeral_2_eq_2 log_example_def wal_entry_new_def)
  ultimately show ?thesis unfolding holds_def frame_example_def
    by (intro exI conjI) (assumption | simp)+
qed

lemma log_example_log: "is_log sum_lib (table_bin log_example) log_example (frame_example 0 @ frame_example 1)"
proof -
  have "is_log sum_lib (table_bin log_example) [log_example ! 0, log_example ! 1] (frame_example 0 @ frame_example 1)"
    using log_example_holds [of 0] log_example_holds [of 1] by auto
  then show ?thesis by (simp add: log_example_def)
qed

section \<open>Properties\<close>

text \<open>C25. Reading back a log gives the entries in the order they were appended, with every compression
  setting they were written under; a reader opened after a position gives exactly the entries above it.\<close>

theorem log_round_trip:
  assumes "libs_ok lib bin" "is_log lib bin es bs"
  shows "open_reader lib bin a bs = Inr (filter (newer a) es, None)"
  using assms by (rule open_reader_log)

theorem log_round_trip_witness:
  "open_reader sum_lib (table_bin log_example) (Some 1) (frame_example 0 @ frame_example 1) = Inr ([log_example ! 1], None)"
  using log_round_trip [OF log_example_ok log_example_log, of "Some 1"]
  by (simp add: newer_def log_example_def wal_entry_new_def)

text \<open>C26. A crash in the middle of an append is invisible: a final frame cut short at any byte is dropped and
  every entry before it is read. The same holds for a complete final frame whose hash does not match its
  payload, but the same frame followed by more bytes ends the reading with a checksum error.\<close>

theorem damaged_tail_dropped:
  assumes "libs_ok lib bin" "is_log lib bin es bs" "es \<noteq> []" "holds lib bin e f" "k < length f"
    and "length z < 2 ^ 32" "h \<noteq> checksum lib z"
  shows "open_reader lib bin a (bs @ take k f) = Inr (filter (newer a) es, None) \<and>
    open_reader lib bin a (bs @ damaged z h @ r) =
      Inr (filter (newer a) es, if r = [] then None else Some (Crc h (checksum lib z)))"
proof -
  have "read_items lib bin a (take k f) = ([], None)"
    using assms(4,5) read_items_torn by (auto simp: holds_def simp del: length_frame)
  then show ?thesis
    using open_reader_tail [OF assms(1-3), of a "take k f"] open_reader_tail [OF assms(1-3), of a "damaged z h @ r"]
      read_items_damaged [OF assms(6,7), of bin a r] by simp
qed

theorem damaged_tail_dropped_witness:
  "open_reader sum_lib (table_bin log_example) None (frame_example 0 @ take 9 (frame_example 1)) = Inr ([log_example ! 0], None) \<and>
   open_reader sum_lib (table_bin log_example) None (frame_example 0 @ damaged [7] 8 @ frame_example 1) =
     Inr ([log_example ! 0], Some (Crc 8 7))"
proof -
  have "is_log sum_lib (table_bin log_example) [log_example ! 0] (frame_example 0)"
    using log_example_holds [of 0] by auto
  moreover have "9 < length (frame_example 1)" by (simp add: frame_example_def HEADER_BYTES_def)
  moreover have "checksum sum_lib [7] = 7" by (simp add: checksum_def sum_lib_def)
  ultimately show ?thesis
    using damaged_tail_dropped [OF log_example_ok _ _ log_example_holds, of "[log_example ! 0]" "frame_example 0" 1 9 "[7]" 8 None "frame_example 1"]
    by (simp add: frame_example_def write_frame_def)
qed

text \<open>C27. Decoding accepts the flagged frames of this release, compressed or not, and the unflagged frames of
  the release before it, and tells them apart by the first byte; an entry of any other version is refused
  with the version that was found.\<close>

theorem decode_entry_versions:
  assumes "libs_ok lib bin" "bin_write bin e = Some p" "encode_payload lib p c = Some z"
  shows "decode_entry lib bin z = (if e_version e = CURRENT_WAL_VERSION then Inr e
      else Inl (UnsupportedVersion (e_version e) CURRENT_WAL_VERSION)) \<and>
    (e_version e = CURRENT_WAL_VERSION \<longrightarrow> decode_entry lib bin p = Inr e)"
  by (rule decode_encoded [OF assms])

theorem decode_entry_versions_witness:
  "decode_entry sum_lib (table_bin [(wal_entry_new 4 (DropCollection ''c'') :: f64 wal_entry)\<lparr>e_version := 3\<rparr>]) [0, 3, 0] =
     Inl (UnsupportedVersion 3 CURRENT_WAL_VERSION)"
proof -
  let ?e = "(wal_entry_new 4 (DropCollection ''c'') :: f64 wal_entry)\<lparr>e_version := 3\<rparr>"
  have "libs_ok sum_lib (table_bin [?e])" by (rule table_libs_ok) simp
  moreover have "bin_write (table_bin [?e]) ?e = Some [3, 0]" by (simp add: table_bin_def)
  moreover have "encode_payload sum_lib [3, 0] NoCompression = Some [0, 3, 0]" by (simp add: encode_payload_def)
  ultimately show ?thesis using decode_entry_versions by (fastforce simp: CURRENT_WAL_VERSION_def)
qed

end
