(* ===== verification/WalWriter.thy ===== *)
theory WalWriter
  imports WalLog
begin

text \<open>
  \<open>WalWriter\<close> and \<open>WalConfig\<close> of \<open>wal/mod.rs\<close>. The writer holds the file behind its handle and the bytes its
  buffer has accepted and not yet written. How the system calls of an operation end is an argument of
  the operation: success, a write error after some of the bytes, or a failing \<open>fsync\<close>.
\<close>

section \<open>Counters\<close>

definition sat_add :: "u64 \<Rightarrow> u64 \<Rightarrow> u64" where
  "sat_add a b = (if unat a + unat b < 2 ^ 64 then a + b else - 1)"

definition sat_pred :: "u64 \<Rightarrow> u64" where
  "sat_pred a = (if a = 0 then 0 else a - 1)"

lemma sat_add_nat: "unat a + n < 2 ^ 64 \<Longrightarrow> unat (sat_add a (of_nat n)) = unat a + n"
proof -
  assume n: "unat a + n < 2 ^ 64"
  then have "unat (of_nat n :: u64) = n" by (simp add: unat_of_nat)
  then show ?thesis using n by (simp add: sat_add_def unat_word_ariths(1))
qed

lemma sat_pred_inc: "unat a + 1 < 2 ^ 64 \<Longrightarrow> sat_pred (a + 1) = a"
proof -
  assume a: "unat a + 1 < 2 ^ 64"
  then have "unat (a + 1) = unat a + 1" by (simp add: unat_word_ariths(1))
  then have "a + 1 \<noteq> 0" by (metis Suc_eq_plus1 nat.distinct(1) unat_0)
  then show ?thesis by (simp add: sat_pred_def)
qed

section \<open>Configuration\<close>

record wal_config =
  cfg_entries :: u64
  cfg_bytes :: u64
  cfg_buffer :: nat
  cfg_compression :: compression

definition wal_config_default :: wal_config where
  "wal_config_default = \<lparr>cfg_entries = 100000, cfg_bytes = 256 * 1024 * 1024, cfg_buffer = 64 * 1024,
     cfg_compression = NoCompression\<rparr>"

section \<open>The writer\<close>

record wal_writer =
  ww_file :: bytes
  ww_buf :: bytes
  ww_bytes_written :: u64
  ww_compression :: compression

text \<open>
  \<open>WriteErr j k\<close>: the buffer accepted the first \<open>j\<close> bytes of the new frames, and the first \<open>k\<close> bytes of what
  it then held reached the file. \<open>SyncErr\<close>: every byte reached the file and \<open>sync_data\<close> failed.
\<close>

datatype io = IoOk | WriteErr nat nat | SyncErr

definition open_append :: "bytes option \<Rightarrow> compression \<Rightarrow> wal_writer" where
  "open_append path c = (let file = (case path of Some bs \<Rightarrow> bs | None \<Rightarrow> [])
     in \<lparr>ww_file = file, ww_buf = [], ww_bytes_written = of_nat (length file), ww_compression = c\<rparr>)"

lemma open_append_sel [simp]:
  "ww_file (open_append path c) = (case path of Some bs \<Rightarrow> bs | None \<Rightarrow> [])" "ww_buf (open_append path c) = []"
  "ww_compression (open_append path c) = c"
  by (simp_all add: open_append_def Let_def)

text \<open>The frames of a batch, up to the first payload the compressor rejects.\<close>

fun batch_frames :: "codec_lib \<Rightarrow> compression \<Rightarrow> bytes list \<Rightarrow> bytes \<times> bool" where
  "batch_frames lib c [] = ([], True)"
| "batch_frames lib c (p # ps) = (case encode_payload lib p c of
      None \<Rightarrow> ([], False)
    | Some z \<Rightarrow> (let (bs, ok) = batch_frames lib c ps in (write_frame lib [] z @ bs, ok)))"

text \<open>The buffer takes bytes and hands its first \<open>k\<close> bytes to the file.\<close>

definition spill :: "nat \<Rightarrow> bytes \<Rightarrow> wal_writer \<Rightarrow> wal_writer" where
  "spill k bs w = w\<lparr>ww_file := ww_file w @ take k (ww_buf w @ bs), ww_buf := drop k (ww_buf w @ bs)\<rparr>"

definition append_batch ::
  "codec_lib \<Rightarrow> 'n bincode \<Rightarrow> io \<Rightarrow> wal_writer \<Rightarrow> 'n wal_entry list \<Rightarrow> (persist_error + bytes list) \<times> wal_writer"
where
  "append_batch lib bin io w entries = (case those (map (bin_write bin) entries) of
       None \<Rightarrow> (Inl Encode, w)
     | Some payloads \<Rightarrow>
         let (bs, ok) = batch_frames lib (ww_compression w) payloads;
             all = length (ww_buf w @ bs)
         in if \<not> ok then (Inl Io, spill (case io of WriteErr j k \<Rightarrow> k | _ \<Rightarrow> 0) bs w)
            else (case io of
                WriteErr j k \<Rightarrow> (Inl Io, spill k (take j bs) w)
              | SyncErr \<Rightarrow> (Inl Io, spill all bs w)
              | IoOk \<Rightarrow> (Inr payloads,
                  (spill all bs w)\<lparr>ww_bytes_written := sat_add (ww_bytes_written w) (of_nat (length bs))\<rparr>)))"

definition append_entry ::
  "codec_lib \<Rightarrow> 'n bincode \<Rightarrow> io \<Rightarrow> wal_writer \<Rightarrow> 'n wal_entry \<Rightarrow> (persist_error + unit) \<times> wal_writer"
where
  "append_entry lib bin io w e = and_then (append_batch lib bin io w [e]) (\<lambda>_ w1. (Inr (), w1))"

definition bytes_on_disk :: "bool \<Rightarrow> wal_writer \<Rightarrow> u64" where
  "bytes_on_disk metadata_ok w = (if metadata_ok then of_nat (length (ww_file w)) else ww_bytes_written w)"

text \<open>Where a checkpoint fails: serializing, syncing or renaming the snapshot, or flushing or clearing the log.\<close>

datatype ck_io = CkOk | CkSerialize | CkSync | CkRename | CkFlush nat | CkSetLen

definition wal_truncate :: "ck_io \<Rightarrow> wal_writer \<Rightarrow> bool \<times> wal_writer" where
  "wal_truncate ck w = (let w1 = spill (length (ww_buf w)) [] w
     in case ck of
          CkFlush k \<Rightarrow> (False, spill k [] w)
        | CkSetLen \<Rightarrow> (False, w1)
        | _ \<Rightarrow> (True, w1\<lparr>ww_file := [], ww_bytes_written := 0\<rparr>))"

section \<open>What an append leaves in the file\<close>

lemma spill_all: "spill (length (ww_buf w @ bs)) bs w = w\<lparr>ww_file := ww_file w @ ww_buf w @ bs, ww_buf := []\<rparr>"
  by (simp add: spill_def)

text \<open>The frames of entries that fit: the serializer accepts each, and no frame reaches 4 GiB.\<close>

definition fits :: "codec_lib \<Rightarrow> 'n bincode \<Rightarrow> compression \<Rightarrow> 'n wal_entry \<Rightarrow> bool" where
  "fits lib bin c e \<longleftrightarrow> (\<exists>p z. bin_write bin e = Some p \<and> encode_payload lib p c = Some z \<and> length z < 2 ^ 32)"

lemma batch_frames_log:
  assumes "\<forall>e \<in> set es. fits lib bin c e \<and> e_version e = CURRENT_WAL_VERSION"
  shows "\<exists>ps bs. those (map (bin_write bin) es) = Some ps \<and> batch_frames lib c ps = (bs, True) \<and> is_log lib bin es bs \<and>
    map Some ps = map (bin_write bin) es"
  using assms
proof (induction es)
  case (Cons e es)
  then obtain ps bs where IH: "those (map (bin_write bin) es) = Some ps" "batch_frames lib c ps = (bs, True)"
      "is_log lib bin es bs" "map Some ps = map (bin_write bin) es" by auto
  obtain p z where z: "bin_write bin e = Some p" "encode_payload lib p c = Some z" "length z < 2 ^ 32"
    using Cons.prems by (auto simp: fits_def)
  then have "holds lib bin e (write_frame lib [] z)" using Cons.prems unfolding holds_def by force
  then have "is_log lib bin (e # es) (write_frame lib [] z @ bs)" using IH(3) by fastforce
  then show ?case using IH z by simp
qed simp

lemma append_batch_ok:
  assumes "\<forall>e \<in> set es. fits lib bin (ww_compression w) e \<and> e_version e = CURRENT_WAL_VERSION" "ww_buf w = []"
  shows "\<exists>ps bs. append_batch lib bin IoOk w es = (Inr ps, w\<lparr>ww_file := ww_file w @ bs, ww_buf := [],
      ww_bytes_written := sat_add (ww_bytes_written w) (of_nat (length bs))\<rparr>) \<and> is_log lib bin es bs \<and>
    map Some ps = map (bin_write bin) es"
proof -
  obtain ps bs where "those (map (bin_write bin) es) = Some ps" "batch_frames lib (ww_compression w) ps = (bs, True)"
      "is_log lib bin es bs" "map Some ps = map (bin_write bin) es"
    using batch_frames_log [OF assms(1)] by blast
  then show ?thesis using assms(2) by (intro exI [of _ ps] exI [of _ bs]) (simp add: append_batch_def spill_def)
qed

text \<open>A failing append leaves a prefix of the frames in the file.\<close>

lemma append_batch_prefix:
  assumes "\<forall>e \<in> set es. fits lib bin (ww_compression w) e \<and> e_version e = CURRENT_WAL_VERSION" "ww_buf w = []"
    and "append_batch lib bin io w es = (r, w')"
  shows "\<exists>bs k. is_log lib bin es bs \<and> ww_file w' = ww_file w @ take k bs \<and> ww_compression w' = ww_compression w \<and>
    (io = IoOk \<or> io = SyncErr \<longrightarrow> take k bs = bs) \<and> (io \<noteq> IoOk \<longrightarrow> r = Inl Io)"
proof -
  obtain ps bs where b: "those (map (bin_write bin) es) = Some ps" "batch_frames lib (ww_compression w) ps = (bs, True)"
      "is_log lib bin es bs" using batch_frames_log [OF assms(1)] by blast
  have "\<exists>k. ww_file w' = ww_file w @ take k bs \<and> ww_compression w' = ww_compression w \<and>
      (io = IoOk \<or> io = SyncErr \<longrightarrow> take k bs = bs) \<and> (io \<noteq> IoOk \<longrightarrow> r = Inl Io)"
  proof (cases io)
    case (WriteErr j k)
    then show ?thesis using assms(2,3) b by (intro exI [of _ "min k j"]) (auto simp: append_batch_def spill_def)
  qed (use assms(2,3) b in \<open>auto simp: append_batch_def spill_def intro: exI [of _ "length bs"]\<close>)
  then show ?thesis using b(3) by blast
qed

end
