(* ===== verification/Manager.thy ===== *)
theory Manager
  imports Collection "HOL-Library.List_Lexorder" "HOL-Library.Char_ord"
begin

text \<open>
  The collection manager, \<open>likhadb-store/src/manager.rs\<close>, and the snapshots of collections and of the
  whole manager, \<open>snapshot.rs\<close>. The map from names to collections is an association list; the order in
  which a snapshot lists it is an argument.
\<close>

section \<open>State and operations\<close>

type_synonym ('n, 't) manager = "(string \<times> ('n, 't) collection) list"

definition manager_new :: "('n, 't) manager" where
  "manager_new = []"

definition create_with :: "('n, 't) manager \<Rightarrow> string \<Rightarrow> (db_error + ('n, 't) collection) \<Rightarrow> db_error + ('n, 't) manager" where
  "create_with mgr name col =
     (if hm_get mgr name \<noteq> None then Inl (CollectionAlreadyExists name)
      else case col of Inl e \<Rightarrow> Inl e | Inr c \<Rightarrow> Inr (hm_insert name c mgr))"

definition create_collection :: "('n, 't) manager \<Rightarrow> string \<Rightarrow> nat \<Rightarrow> metric \<Rightarrow> db_error + ('n, 't) manager" where
  "create_collection mgr name d m = create_with mgr name (Inr (collection_new name d m))"

definition create_ivf_collection ::
  "('n, 't) manager \<Rightarrow> string \<Rightarrow> nat \<Rightarrow> metric \<Rightarrow> nat \<Rightarrow> nat \<Rightarrow> db_error + ('n, 't) manager"
where
  "create_ivf_collection mgr name d m nlist nprobe = create_with mgr name
     (map_sum id (\<lambda>ix. collection_with_index name d m (IvfIndex ix)) (ivf_new d m nlist nprobe))"

definition create_ivf_sq8_collection ::
  "('n, 't) manager \<Rightarrow> string \<Rightarrow> nat \<Rightarrow> metric \<Rightarrow> nat \<Rightarrow> nat \<Rightarrow> db_error + ('n, 't) manager"
where
  "create_ivf_sq8_collection mgr name d m nlist nprobe = create_with mgr name
     (map_sum id (\<lambda>ix. collection_with_index name d m (IvfIndex ix)) (ivf_new_sq8 d m nlist nprobe))"

definition create_hnsw_collection ::
  "('n, 't) manager \<Rightarrow> string \<Rightarrow> nat \<Rightarrow> metric \<Rightarrow> nat \<Rightarrow> nat \<Rightarrow> nat \<Rightarrow> db_error + ('n, 't) manager"
where
  "create_hnsw_collection mgr name d m edges efc efs = create_with mgr name
     (map_sum id (\<lambda>ix. collection_with_index name d m (HnswIndex ix)) (hnsw_new d m edges efc efs))"

definition drop_collection :: "('n, 't) manager \<Rightarrow> string \<Rightarrow> db_error + ('n, 't) manager" where
  "drop_collection mgr name = (case hm_get mgr name of
       None \<Rightarrow> Inl (CollectionNotFound name)
     | Some c \<Rightarrow> Inr (hm_remove name mgr))"

definition mgr_get :: "('n, 't) manager \<Rightarrow> string \<Rightarrow> db_error + ('n, 't) collection" where
  "mgr_get mgr name = (case hm_get mgr name of
       None \<Rightarrow> Inl (CollectionNotFound name) | Some c \<Rightarrow> Inr c)"

text \<open>\<open>get_mut(name)?\<close> followed by a method of the collection\<close>

definition on_collection ::
  "('n, 't) manager \<Rightarrow> string \<Rightarrow> (('n, 't) collection \<Rightarrow> (db_error + 'a) \<times> ('n, 't) collection) \<Rightarrow>
     (db_error + 'a) \<times> ('n, 't) manager"
where
  "on_collection mgr name f = (case hm_get mgr name of
       None \<Rightarrow> (Inl (CollectionNotFound name), mgr)
     | Some c \<Rightarrow> map_prod id (\<lambda>c'. hm_insert name c' mgr) (f c))"

definition mgr_list :: "('n, 't) manager \<Rightarrow> string list" where
  "mgr_list mgr = sort (map fst mgr)"

definition mgr_enable_fts ::
  "'t tantivy \<Rightarrow> ('n, 't) manager \<Rightarrow> string \<Rightarrow> string option \<Rightarrow> (db_error + unit) \<times> ('n, 't) manager"
where
  "mgr_enable_fts tv mgr name dir = on_collection mgr name (\<lambda>c. col_enable_fts tv c dir)"

definition mgr_set_source_binding ::
  "('n, 't) manager \<Rightarrow> string \<Rightarrow> source_binding \<Rightarrow> (db_error + unit) \<times> ('n, 't) manager"
where
  "mgr_set_source_binding mgr name b = on_collection mgr name (\<lambda>c. (Inr (), c\<lparr>c_source_binding := Some b\<rparr>))"

definition insert_collection :: "('n, 't) manager \<Rightarrow> ('n, 't) collection \<Rightarrow> ('n, 't) manager" where
  "insert_collection mgr c = hm_insert (c_name c) c mgr"

section \<open>Snapshots\<close>

record 'n collection_snapshot =
  s_name :: string
  s_dim :: nat
  s_metric :: metric
  s_index :: any_index
  s_meta :: "'n meta"
  s_fts_enabled :: bool
  s_source_binding :: "source_binding option"
  s_source_snapshot_id :: "64 word option"

record 'n manager_snapshot =
  ms_collections :: "'n collection_snapshot list"
  ms_last_lsn :: u64

definition is_fts_enabled :: "('n, 't) collection \<Rightarrow> bool" where
  "is_fts_enabled c \<longleftrightarrow> c_fts c \<noteq> None"

definition col_to_snapshot :: "('n, 't) collection \<Rightarrow> 'n collection_snapshot" where
  "col_to_snapshot c = \<lparr>s_name = c_name c, s_dim = c_dim c, s_metric = c_metric c,
     s_index = to_snapshot (c_index c), s_meta = c_meta c, s_fts_enabled = is_fts_enabled c,
     s_source_binding = c_source_binding c, s_source_snapshot_id = c_source_snapshot_id c\<rparr>"

definition col_fts_dir :: "string \<Rightarrow> string \<Rightarrow> string" where
  "col_fts_dir dir name = path_join (path_join dir ''fts'') name"

definition col_from_snapshot ::
  "'t tantivy \<Rightarrow> 'n collection_snapshot \<Rightarrow> string option \<Rightarrow> ('n, 't) collection"
where
  "col_from_snapshot tv snap data_dir =
     (let col = (with_meta (collection_with_index (s_name snap) (s_dim snap) (s_metric snap)
            (into_box (s_index snap))) (s_meta snap))
          \<lparr>c_source_binding := s_source_binding snap, c_source_snapshot_id := s_source_snapshot_id snap\<rparr>
      in if s_fts_enabled snap
         then snd (col_enable_fts tv col (map_option (\<lambda>d. col_fts_dir d (c_name col)) data_dir))
         else col)"

definition mgr_to_snapshot_with_lsn ::
  "(string list \<Rightarrow> string list) \<Rightarrow> ('n, 't) manager \<Rightarrow> u64 \<Rightarrow> 'n manager_snapshot"
where
  "mgr_to_snapshot_with_lsn ord mgr lsn =
     \<lparr>ms_collections = map (\<lambda>name. col_to_snapshot (the (hm_get mgr name))) (ord (map fst mgr)),
      ms_last_lsn = lsn\<rparr>"

definition mgr_to_snapshot :: "(string list \<Rightarrow> string list) \<Rightarrow> ('n, 't) manager \<Rightarrow> 'n manager_snapshot" where
  "mgr_to_snapshot ord mgr = mgr_to_snapshot_with_lsn ord mgr 0"

definition mgr_from_snapshot ::
  "'t tantivy \<Rightarrow> 'n manager_snapshot \<Rightarrow> string option \<Rightarrow> ('n, 't) manager"
where
  "mgr_from_snapshot tv snap data_dir =
     foldl (\<lambda>mgr s. insert_collection mgr (col_from_snapshot tv s data_dir)) manager_new (ms_collections snap)"

section \<open>The invariant\<close>

definition mgr_ok :: "('n, 't) manager \<Rightarrow> bool" where
  "mgr_ok mgr \<longleftrightarrow> hm_ok mgr \<and> (\<forall>name c. hm_get mgr name = Some c \<longrightarrow> c_name c = name)"

definition mgr_inv :: "(nat \<Rightarrow> nat \<Rightarrow> bool \<Rightarrow> bool) \<Rightarrow> rt \<Rightarrow> ('n, 't) manager \<Rightarrow> bool" where
  "mgr_inv P rt mgr \<longleftrightarrow> mgr_ok mgr \<and> (\<forall>name c. hm_get mgr name = Some c \<longrightarrow> col_inv P rt c)"

lemma mgr_inv_new: "mgr_inv P rt manager_new"
  by (simp add: mgr_inv_def mgr_ok_def manager_new_def hash_simps)

lemma mgr_inv_insert:
  "mgr_inv P rt mgr \<Longrightarrow> col_inv P rt c \<Longrightarrow> c_name c = name \<Longrightarrow> mgr_inv P rt (hm_insert name c mgr)"
  by (simp add: mgr_inv_def mgr_ok_def hash_simps)

lemma mgr_inv_remove: "mgr_inv P rt mgr \<Longrightarrow> mgr_inv P rt (hm_remove name mgr)"
  by (simp add: mgr_inv_def mgr_ok_def hash_simps)

lemma mgr_ok_insert: "mgr_ok mgr \<Longrightarrow> c_name c = name \<Longrightarrow> mgr_ok (hm_insert name c mgr)"
  by (simp add: mgr_ok_def hash_simps)

lemma on_collection_cases:
  assumes "on_collection mgr name f = (r, mgr')"
  obtains (missing) "hm_get mgr name = None" "r = Inl (CollectionNotFound name)" "mgr' = mgr"
  | (found) c c' where "hm_get mgr name = Some c" "f c = (r, c')" "mgr' = hm_insert name c' mgr"
proof (cases "hm_get mgr name")
  case None
  then have "r = Inl (CollectionNotFound name)" "mgr' = mgr" using assms by (simp_all add: on_collection_def)
  with None show thesis by (rule missing)
next
  case (Some c)
  obtain r0 c' where f: "f c = (r0, c')" by (cases "f c")
  then have "r0 = r" "mgr' = hm_insert name c' mgr" using assms Some by (simp_all add: on_collection_def)
  with Some f show thesis by (intro found) simp_all
qed

lemma mgr_inv_on_collection:
  assumes "mgr_inv P rt mgr" "on_collection mgr name f = (r, mgr')"
    and "\<And>c c'. hm_get mgr name = Some c \<Longrightarrow> col_inv P rt c \<Longrightarrow> f c = (r, c') \<Longrightarrow> col_inv P rt c' \<and> c_name c' = c_name c"
  shows "mgr_inv P rt mgr'"
  using assms(2)
proof (cases rule: on_collection_cases)
  case (found c c')
  have "col_inv P rt c" "c_name c = name" using assms(1) found(1) by (auto simp: mgr_inv_def mgr_ok_def)
  then show ?thesis using assms(3) [OF found(1) _ found(2)] mgr_inv_insert [OF assms(1)] found(3) by simp
qed (use assms(1) in simp)

section \<open>Restoring a snapshot\<close>

text \<open>What a collection is after a round trip: the full-text index is opened again, the journal is gone.\<close>

definition reopened :: "'t tantivy \<Rightarrow> string option \<Rightarrow> ('n, 't) collection \<Rightarrow> ('n, 't) collection" where
  "reopened tv data_dir c = c\<lparr>c_journal := None,
     c_fts := (case c_fts c of None \<Rightarrow> None
       | Some _ \<Rightarrow> (case (case data_dir of Some d \<Rightarrow> fts_open_or_create tv (col_fts_dir d (c_name c)) | None \<Rightarrow> fts_new tv)
           of Inl e \<Rightarrow> None | Inr s \<Rightarrow> Some s))\<rparr>"

lemma reopened_sel [simp]:
  "c_name (reopened tv dir c) = c_name c" "c_index (reopened tv dir c) = c_index c"
  "c_meta (reopened tv dir c) = c_meta c" "c_dim (reopened tv dir c) = c_dim c"
  by (simp_all add: reopened_def)

lemma col_from_to_snapshot: "col_from_snapshot tv (col_to_snapshot c) data_dir = reopened tv data_dir c"
  by (cases "c_fts c"; cases data_dir)
    (auto simp: col_from_snapshot_def col_to_snapshot_def is_fts_enabled_def reopened_def col_enable_fts_def
      with_meta_def collection_with_index_def Let_def split: sum.split)

lemma foldl_insert_collection:
  assumes "distinct (map c_name cs)"
  shows "hm_get (foldl insert_collection mgr cs) name =
    (case find (\<lambda>c. c_name c = name) cs of Some c \<Rightarrow> Some c | None \<Rightarrow> hm_get mgr name)"
  using assms
proof (induction cs arbitrary: mgr)
  case (Cons c cs)
  then have "c_name c \<notin> c_name ` set cs" by simp
  then have "c_name c = name \<Longrightarrow> find (\<lambda>c. c_name c = name) cs = None" unfolding find_None_iff by blast
  then show ?case using Cons by (auto simp: insert_collection_def hash_simps split: option.split)
qed simp

lemma find_names:
  assumes "distinct (map c_name (map f ns))" "\<And>n. n \<in> set ns \<Longrightarrow> c_name (f n) = n"
  shows "find (\<lambda>c. c_name c = name) (map f ns) = (if name \<in> set ns then Some (f name) else None)"
  using assms by (induction ns) auto

lemma snapshot_get:
  assumes ok: "mgr_ok mgr" and ord: "mset (ord (map fst mgr)) = mset (map fst mgr)"
  shows "hm_get (mgr_from_snapshot tv (mgr_to_snapshot_with_lsn ord mgr lsn) data_dir) name =
    map_option (reopened tv data_dir) (hm_get mgr name)"
proof -
  let ?f = "\<lambda>n. reopened tv data_dir (the (hm_get mgr n))"
  let ?ns = "ord (map fst mgr)"
  have ns: "set ?ns = dom (hm_get mgr)" using ord by (metis dom_map_of_conv_image_fst list.set_map set_mset_mset)
  have dist: "distinct ?ns" using ok ord by (metis hm_ok_def mgr_ok_def mset_eq_imp_distinct_iff)
  have names: "c_name (?f n) = n" if "n \<in> set ?ns" for n
    using that ns ok by (auto simp: mgr_ok_def)
  then have "map c_name (map ?f ?ns) = ?ns" by (simp add: map_idI)
  then have d: "distinct (map c_name (map ?f ?ns))" using dist by simp
  have "mgr_from_snapshot tv (mgr_to_snapshot_with_lsn ord mgr lsn) data_dir = foldl insert_collection [] (map ?f ?ns)"
    by (simp add: mgr_from_snapshot_def mgr_to_snapshot_with_lsn_def manager_new_def foldl_map col_from_to_snapshot)
  then have "hm_get (mgr_from_snapshot tv (mgr_to_snapshot_with_lsn ord mgr lsn) data_dir) name =
      (if name \<in> set ?ns then Some (?f name) else None)"
    using foldl_insert_collection [OF d, of "[]" name] find_names [OF d names] by simp
  then show ?thesis using ns by (auto simp: domIff)
qed

lemma reopened_id: "c_fts c = None \<Longrightarrow> c_journal c = None \<Longrightarrow> reopened tv data_dir c = c"
  by (simp add: reopened_def)

section \<open>Properties\<close>

text \<open>C24. A manager restored from its snapshot has the same collections under the same names, whatever order
  the map is listed in: each with its parameters, index, payloads, source binding and source watermark
  unchanged. Only a pending compaction journal is dropped, and a full-text index is opened again (and
  silently left out when that fails). The log position comes back as it was stored.\<close>

theorem snapshot_round_trip:
  assumes "mgr_ok mgr" "mset (ord (map fst mgr)) = mset (map fst mgr)"
  shows "ms_last_lsn (mgr_to_snapshot_with_lsn ord mgr lsn) = lsn \<and>
    (case (hm_get mgr name, hm_get (mgr_from_snapshot tv (mgr_to_snapshot_with_lsn ord mgr lsn) data_dir) name) of
       (None, None) \<Rightarrow> True
     | (Some c, Some c') \<Rightarrow> c_index c' = c_index c \<and> c_meta c' = c_meta c \<and> same_place c c' \<and> c_journal c' = None \<and>
         (c_fts c = None \<longrightarrow> c_fts c' = None) \<and> (c_fts c = None \<and> c_journal c = None \<longrightarrow> c' = c)
     | _ \<Rightarrow> False)"
  using snapshot_get [where ord = ord, OF assms]
  by (auto simp: mgr_to_snapshot_with_lsn_def reopened_def same_place_def split: option.split)

theorem snapshot_round_trip_witness:
  "hm_get (mgr_from_snapshot list_engine (mgr_to_snapshot_with_lsn rev
      [(''a'', collection_new ''a'' 2 L2), (''b'', (collection_new ''b'' 3 Dot)\<lparr>c_journal := Some []\<rparr>)
        :: string \<times> (f64, (vecid \<times> string) list) collection] 9) None) ''a'' =
    Some (collection_new ''a'' 2 L2 :: (f64, (vecid \<times> string) list) collection)"
proof -
  let ?mgr = "[(''a'', collection_new ''a'' 2 L2), (''b'', (collection_new ''b'' 3 Dot)\<lparr>c_journal := Some []\<rparr>)]
    :: (f64, (vecid \<times> string) list) manager"
  have ok: "mgr_ok ?mgr" "mset (rev (map fst ?mgr)) = mset (map fst ?mgr)"
    by (simp_all add: mgr_ok_def hm_ok_def collection_new_def collection_with_index_def)
  have "hm_get ?mgr ''a'' = Some (collection_new ''a'' 2 L2)"
    "c_fts (collection_new ''a'' 2 L2 :: (f64, (vecid \<times> string) list) collection) = None"
    "c_journal (collection_new ''a'' 2 L2 :: (f64, (vecid \<times> string) list) collection) = None"
    by (simp_all add: collection_new_def collection_with_index_def)
  then show ?thesis
    using snapshot_round_trip [where ord = rev, OF ok, of 9 "''a''" list_engine None] by (simp split: option.splits)
qed

end
