(* ===== verification/Recovery.thy ===== *)
theory Recovery
  imports Manager WalLog
begin

text \<open>
  Replaying one log entry, \<open>apply_op\<close> of \<open>wal/recovery.rs\<close>, and what it means: \<open>spec_op\<close> on an abstract
  state, a map from names to parameters, vectors, payloads and source binding. Two vectors that differ
  only in the sign of a zero are equal for the code (\<open>==\<close> on floats), so the abstract state keeps
  vectors up to that sign. Of a quantized collection (\<open>a_exact\<close> is false) it keeps the ids, each with the empty vector:
  what the code of a vector is decoded to depends on the vectors that trained the quantizer.
\<close>

section \<open>The code\<close>

definition create_kind :: "('n, 't) manager \<Rightarrow> string \<Rightarrow> nat \<Rightarrow> metric \<Rightarrow> index_kind \<Rightarrow> db_error + ('n, 't) manager" where
  "create_kind mgr name d m kind = (case kind of
       KFlat \<Rightarrow> create_collection mgr name d m
     | KIvf nlist nprobe \<Rightarrow> create_ivf_collection mgr name d m nlist nprobe
     | KIvfSq8 nlist nprobe \<Rightarrow> create_ivf_sq8_collection mgr name d m nlist nprobe
     | KHnsw edges efc efs \<Rightarrow> create_hnsw_collection mgr name d m edges efc efs)"

text \<open>\<open>Vec<f32>\<close> equality\<close>

definition vec_eq :: "vec \<Rightarrow> vec \<Rightarrow> bool" where
  "vec_eq v w \<longleftrightarrow> list_all2 f32_eq v w"

definition replay_insert ::
  "rt \<Rightarrow> 't tantivy \<Rightarrow> nat \<Rightarrow> vecid \<Rightarrow> vec \<Rightarrow> 'n json option \<Rightarrow> u64 \<Rightarrow> ('n, 't) collection \<Rightarrow>
     (db_error + unit) \<times> ('n, 't) collection"
where
  "replay_insert rt tv l y v p lsn c =
     (if (case col_get c y of Some (w, q) \<Rightarrow> vec_eq w v \<and> q = p | None \<Rightarrow> False) then (Inr (), c)
      else apply_delta_row rt tv l c (DUpsert y v p) lsn)"

definition apply_op ::
  "rt \<Rightarrow> 't tantivy \<Rightarrow> nat \<Rightarrow> ('n, 't) manager \<Rightarrow> 'n wal_op \<Rightarrow> u64 \<Rightarrow> string option \<Rightarrow>
     (persist_error + unit) \<times> ('n, 't) manager"
where
  "apply_op rt tv l mgr opn lsn data_dir = (case opn of
       CreateCollection name d m kind \<Rightarrow> (case create_kind mgr name d m kind of
           Inr mgr' \<Rightarrow> (Inr (), mgr')
         | Inl (CollectionAlreadyExists _) \<Rightarrow> (Inr (), mgr)
         | Inl e \<Rightarrow> (Inl (Apply e), mgr))
     | DropCollection name \<Rightarrow> (case drop_collection mgr name of
           Inr mgr' \<Rightarrow> (Inr (), mgr')
         | Inl (CollectionNotFound _) \<Rightarrow> (Inr (), mgr)
         | Inl e \<Rightarrow> (Inl (Apply e), mgr))
     | WInsert col y v p \<Rightarrow> map_prod (map_sum Apply id) id (on_collection mgr col (replay_insert rt tv l y v p lsn))
     | WDelete col y \<Rightarrow> map_prod (map_sum Apply id) id
         (on_collection mgr col (\<lambda>c. apply_delta_row rt tv l c (DDelete y) lsn))
     | EnableFts col \<Rightarrow> (case mgr_enable_fts tv mgr col (map_option (\<lambda>d. col_fts_dir d col) data_dir) of
           (Inr _, mgr') \<Rightarrow> (Inr (), mgr')
         | (Inl (CollectionNotFound _), mgr') \<Rightarrow> (Inr (), mgr')
         | (Inl e, mgr') \<Rightarrow> (Inl (Apply e), mgr'))
     | SetSourceBinding col b \<Rightarrow> (case mgr_set_source_binding mgr col b of
           (Inr _, mgr') \<Rightarrow> (Inr (), mgr')
         | (Inl (CollectionNotFound _), mgr') \<Rightarrow> (Inr (), mgr')
         | (Inl e, mgr') \<Rightarrow> (Inl (Apply e), mgr')))"

section \<open>The abstract state\<close>

definition unsigned_zero :: "f32 \<Rightarrow> f32" where
  "unsigned_zero x = (if x = f32_neg_zero then 0 else x)"

abbreviation nz :: "vec \<Rightarrow> vec" where
  "nz v \<equiv> map unsigned_zero v"

record 'n acol =
  a_dim :: nat
  a_metric :: metric
  a_type :: string
  a_exact :: bool
  a_vecs :: "vecid \<Rightarrow> vec option"
  a_meta :: "'n meta"
  a_binding :: "source_binding option"
  a_source :: "64 word option"

type_synonym 'n astate = "string \<Rightarrow> 'n acol option"

definition abs_col :: "('n, 't) collection \<Rightarrow> 'n acol" where
  "abs_col c = \<lparr>a_dim = c_dim c, a_metric = c_metric c, a_type = ix_type (c_index c),
     a_exact = stores_exactly (c_index c), a_vecs = map_option nz \<circ> ix_view (c_index c), a_meta = c_meta c,
     a_binding = c_source_binding c, a_source = c_source_snapshot_id c\<rparr>"

definition abs_mgr :: "('n, 't) manager \<Rightarrow> 'n astate" where
  "abs_mgr mgr = (\<lambda>name. map_option abs_col (hm_get mgr name))"

definition valid_kind :: "nat \<Rightarrow> index_kind \<Rightarrow> bool" where
  "valid_kind d kind \<longleftrightarrow> (case kind of
       KFlat \<Rightarrow> True
     | KIvf nlist nprobe \<Rightarrow> 0 < d \<and> 0 < nlist \<and> 0 < nprobe \<and> nprobe \<le> nlist
     | KIvfSq8 nlist nprobe \<Rightarrow> 0 < d \<and> 0 < nlist \<and> 0 < nprobe \<and> nprobe \<le> nlist
     | KHnsw edges efc efs \<Rightarrow> 0 < d \<and> 2 \<le> edges \<and> edges \<le> efc \<and> 1 \<le> efs)"

definition kind_type :: "index_kind \<Rightarrow> string" where
  "kind_type kind = (case kind of
       KFlat \<Rightarrow> ''FlatIndex'' | KIvf _ _ \<Rightarrow> ''IvfIndex'' | KIvfSq8 _ _ \<Rightarrow> ''IvfIndex'' | KHnsw _ _ _ \<Rightarrow> ''HnswIndex'')"

definition new_acol :: "nat \<Rightarrow> metric \<Rightarrow> index_kind \<Rightarrow> 'n acol" where
  "new_acol d m kind = \<lparr>a_dim = d, a_metric = m, a_type = kind_type kind,
     a_exact = (case kind of KIvfSq8 _ _ \<Rightarrow> False | _ \<Rightarrow> True), a_vecs = Map.empty,
     a_meta = Map.empty, a_binding = None, a_source = None\<rparr>"

definition upd_acol :: "'n astate \<Rightarrow> string \<Rightarrow> ('n acol \<Rightarrow> 'n acol) \<Rightarrow> 'n astate" where
  "upd_acol a name f = a(name := map_option f (a name))"

definition acol_insert :: "vecid \<Rightarrow> vec \<Rightarrow> 'n json option \<Rightarrow> 'n acol \<Rightarrow> 'n acol" where
  "acol_insert y v p x = (if length v = a_dim x
     then x\<lparr>a_vecs := (a_vecs x)(y \<mapsto> (if a_exact x then nz v else [])), a_meta := payload_upd y p (a_meta x)\<rparr> else x)"

definition acol_delete :: "vecid \<Rightarrow> 'n acol \<Rightarrow> 'n acol" where
  "acol_delete y x = x\<lparr>a_vecs := (a_vecs x)(y := None), a_meta := (a_meta x)(y := None)\<rparr>"

definition spec_op :: "'n wal_op \<Rightarrow> 'n astate \<Rightarrow> 'n astate" where
  "spec_op opn a = (case opn of
       CreateCollection name d m kind \<Rightarrow>
         if a name = None \<and> valid_kind d kind then a(name \<mapsto> new_acol d m kind) else a
     | DropCollection name \<Rightarrow> a(name := None)
     | WInsert col y v p \<Rightarrow> upd_acol a col (acol_insert y v p)
     | WDelete col y \<Rightarrow> upd_acol a col (acol_delete y)
     | EnableFts col \<Rightarrow> a
     | SetSourceBinding col b \<Rightarrow> upd_acol a col (\<lambda>x. x\<lparr>a_binding := Some b\<rparr>))"

text \<open>
  The operations the refinement covers: all but the creation of a collection of dimension zero (a flat index accepts
  it and panics later) and of an HNSW index whose \<open>2 * m\<close> does not fit into \<open>usize\<close>.
\<close>

definition op_exact :: "'n wal_op \<Rightarrow> bool" where
  "op_exact opn \<longleftrightarrow> (case opn of CreateCollection name d m kind \<Rightarrow>
       0 < d \<and> (case kind of KHnsw edges efc efs \<Rightarrow> 2 * edges < 2 ^ 64 | _ \<Rightarrow> True) | _ \<Rightarrow> True)"

section \<open>Equal vectors\<close>

lemma unsigned_zero_eq: "f32_eq x y \<Longrightarrow> unsigned_zero x = unsigned_zero y"
proof -
  assume "f32_eq x y"
  then have key: "f32_key x = f32_key y" by (simp add: f32_eq_def)
  define a b where "a = unat x" and "b = unat y"
  have "(if 2 ^ 31 \<le> a then - int (a - 2 ^ 31) else int a) = (if 2 ^ 31 \<le> b then - int (b - 2 ^ 31) else int b)"
    using key by (simp only: f32_key_def a_def b_def)
  then have "a = b \<or> a = 2 ^ 31 \<and> b = 0 \<or> a = 0 \<and> b = 2 ^ 31" by (auto split: if_splits)
  moreover have "unat f32_neg_zero = 2 ^ 31" by simp
  ultimately have "x = y \<or> x = f32_neg_zero \<and> y = 0 \<or> x = 0 \<and> y = f32_neg_zero"
    unfolding a_def b_def by (metis unat_eq_zero unsigned_word_eqI)
  then show ?thesis by (auto simp: unsigned_zero_def)
qed

lemma vec_eq_nz: "vec_eq v w \<Longrightarrow> nz v = nz w"
  unfolding vec_eq_def by (induction rule: list_all2_induct) (simp_all add: unsigned_zero_eq)

section \<open>Collections and managers\<close>

lemma abs_col_insert:
  assumes inv: "col_inv any_params rt c" and works: "fts_works tv docs"
    and ins: "col_insert rt tv l c y v p lsn = (r, c')"
  shows "col_inv any_params rt c' \<and> c_name c' = c_name c \<and> abs_col c' = acol_insert y v p (abs_col c) \<and>
    r = (if length v = c_dim c then Inr () else Inl (DimMismatch (c_dim c) (length v)))"
proof (cases "length v = c_dim c")
  case True
  note c' = col_inv_insert [OF inv ins]
  have r: "r = Inr ()" using col_insert_works [OF works inv True, of l y p lsn] ins by auto
  have ix: "ix_insert rt l (c_index c) y v = Inr (c_index c')" using c' True by simp
  note view = ix_view_insert [OF _ ix]
  show ?thesis using c' r True ix_type_ops(1) [OF ix] view inv
    by (simp add: abs_col_def acol_insert_def same_place_def fun_eq_iff col_inv_def)
next
  case False
  then show ?thesis using col_inv_insert [OF inv ins] inv by (simp add: acol_insert_def abs_col_def)
qed

lemma abs_col_delete:
  assumes inv: "col_inv any_params rt c" and works: "fts_works tv docs" and del: "col_delete tv c y lsn = (r, c')"
  shows "col_inv any_params rt c' \<and> c_name c' = c_name c \<and> abs_col c' = acol_delete y (abs_col c) \<and>
    r = Inr (a_vecs (abs_col c) y \<noteq> None)"
proof -
  note c' = col_inv_delete [OF inv del]
  have ix: "ix_delete (c_index c) y = (ix_get (c_index c) y \<noteq> None, c_index c')" using c' by simp
  have "\<exists>b. r = Inr b" using col_delete_works [OF works, of c y lsn] del by auto
  moreover have "a_vecs (abs_col c) y \<noteq> None \<longleftrightarrow> ix_get (c_index c) y \<noteq> None" by (simp add: abs_col_def ix_view_def)
  ultimately show ?thesis using c' ix_type_ops(3) [OF ix] ix_view_delete [OF _ ix] inv
    by (auto simp: abs_col_def acol_delete_def same_place_def fun_eq_iff col_inv_def)
qed

text \<open>A skipped insert would have changed nothing.\<close>

lemma abs_replay_insert:
  assumes inv: "col_inv any_params rt c" and works: "fts_works tv docs"
    and ins: "replay_insert rt tv l y v p lsn c = (r, c')"
  shows "col_inv any_params rt c' \<and> c_name c' = c_name c \<and> abs_col c' = acol_insert y v p (abs_col c) \<and>
    r = (if length v = c_dim c then Inr () else Inl (DimMismatch (c_dim c) (length v)))"
proof (cases "case col_get c y of Some (w, q) \<Rightarrow> vec_eq w v \<and> q = p | None \<Rightarrow> False")
  case True
  then obtain w where w: "ix_get (c_index c) y = Some w" "vec_eq w v" "c_meta c y = p"
    by (auto simp: col_get_def meta_get_def split: option.splits)
  have "length w = c_dim c" using any.get_dim [OF _ w(1)] inv by (auto simp: col_inv_def)
  then have len: "length v = c_dim c" using w(2) by (simp add: vec_eq_def list_all2_lengthD)
  have "acol_insert y v p (abs_col c) = abs_col c"
    using w vec_eq_nz [OF w(2)] len
    by (auto simp: acol_insert_def abs_col_def ix_view_def payload_upd_def fun_eq_iff split: option.split)
  then show ?thesis using True ins inv len by (simp add: replay_insert_def)
next
  case False
  then have "col_insert rt tv l c y v p lsn = (r, c')" using ins by (simp add: replay_insert_def apply_delta_row_def)
  then show ?thesis by (rule abs_col_insert [OF inv works])
qed

lemma abs_mgr_insert [simp]: "abs_mgr (hm_insert name c mgr) = (abs_mgr mgr)(name \<mapsto> abs_col c)"
  by (simp add: abs_mgr_def fun_eq_iff hash_simps)

lemma abs_mgr_remove [simp]: "abs_mgr (hm_remove name mgr) = (abs_mgr mgr)(name := None)"
  by (simp add: abs_mgr_def fun_eq_iff hash_simps)

lemma abs_mgr_new [simp]: "abs_mgr manager_new = Map.empty"
  by (simp add: abs_mgr_def fun_eq_iff manager_new_def)

lemma abs_mgr_None: "abs_mgr mgr name = None \<longleftrightarrow> hm_get mgr name = None"
  by (simp add: abs_mgr_def)

lemma on_collection_abs:
  assumes inv: "mgr_inv P rt mgr" and f: "on_collection mgr name f = (r, mgr')"
    and step: "\<And>c c'. hm_get mgr name = Some c \<Longrightarrow> col_inv P rt c \<Longrightarrow> f c = (r, c') \<Longrightarrow>
      col_inv P rt c' \<and> c_name c' = c_name c \<and> abs_col c' = g (abs_col c) \<and> Q r"
    and missing: "Q (Inl (CollectionNotFound name))"
  shows "mgr_inv P rt mgr' \<and> abs_mgr mgr' = upd_acol (abs_mgr mgr) name g \<and> Q r"
  using f
proof (cases rule: on_collection_cases)
  case missing
  then show ?thesis using inv assms(4) abs_mgr_None [of mgr name] by (auto simp: upd_acol_def)
next
  case (found c c')
  have "col_inv P rt c" "c_name c = name" using inv found(1) by (auto simp: mgr_inv_def mgr_ok_def)
  moreover note c' = step [OF found(1) calculation(1) found(2)]
  ultimately have "mgr_inv P rt mgr'" using mgr_inv_insert [OF inv] found(3) by simp
  moreover have "abs_mgr mgr name = Some (abs_col c)" by (simp add: abs_mgr_def found(1))
  ultimately show ?thesis using c' found(3) by (simp add: upd_acol_def)
qed

section \<open>Creation\<close>

lemma new_col_ok:
  assumes "any_inv P rt ix" "ix_dim ix = d" "ix_get ix = Map.empty" "ix_type ix = kind_type kind"
    and "stores_exactly ix \<longleftrightarrow> (case kind of KIvfSq8 _ _ \<Rightarrow> False | _ \<Rightarrow> True)"
  shows "col_inv P rt (collection_with_index name d m ix) \<and>
    abs_col (collection_with_index name d m ix) = new_acol d m kind \<and> c_name (collection_with_index name d m ix) = name"
  using assms by (simp add: col_inv_def abs_col_def new_acol_def collection_with_index_def meta_defs ix_view_def fun_eq_iff)

text \<open>Each constructor of an index, when its arguments are accepted.\<close>

lemma create_with_ok:
  assumes "mgr_inv P rt mgr" "hm_get mgr name = None" "col_inv P rt c" "c_name c = name"
    and "abs_col c = x"
  shows "\<exists>mgr'. create_with mgr name (Inr c) = Inr mgr' \<and> mgr_inv P rt mgr' \<and> abs_mgr mgr' = (abs_mgr mgr)(name \<mapsto> x)"
  using assms mgr_inv_insert [OF assms(1,3,4)] by (simp add: create_with_def)

lemma create_kind_spec:
  fixes mgr :: "('n, 't) manager"
  assumes inv: "mgr_inv any_params rt mgr" and rt: "rt_ok rt" and ex: "op_exact (CreateCollection name d m kind)"
  shows "if hm_get mgr name \<noteq> None then create_kind mgr name d m kind = Inl (CollectionAlreadyExists name)
    else if valid_kind d kind then \<exists>mgr'. create_kind mgr name d m kind = Inr mgr' \<and> mgr_inv any_params rt mgr' \<and>
      abs_mgr mgr' = (abs_mgr mgr)(name \<mapsto> new_acol d m kind)
    else create_kind mgr name d m kind = Inl InvalidArgument"
proof (cases "hm_get mgr name \<noteq> None")
  case True
  then show ?thesis
    by (cases kind) (simp_all add: create_kind_def create_with_def create_collection_def create_ivf_collection_def
        create_ivf_sq8_collection_def create_hnsw_collection_def)
next
  case False
  then have free: "hm_get mgr name = None" by simp
  have d: "0 < d" using ex by (simp add: op_exact_def)
  show ?thesis
  proof (cases kind)
    case KFlat
    let ?c = "collection_new name d m :: ('n, 't) collection"
    have "any_inv any_params rt (FlatIndex (flat_new d m))"
      using flat_new_ok [of d m] rt d by (simp add: any_inv_def flat_inv_def flat_new_def)
    then have "col_inv any_params rt ?c \<and> abs_col ?c = new_acol d m kind \<and> c_name ?c = name"
      unfolding collection_new_def using flat_new_ok [of d m]
      by (intro new_col_ok) (simp_all add: stores_exactly_def ix_defs ix_type_def kind_type_def KFlat flat_new_def)
    then show ?thesis using create_with_ok [OF inv free, of ?c "new_acol d m kind"] free
      by (simp add: create_kind_def create_collection_def KFlat valid_kind_def)
  next
    case (KIvf nlist nprobe)
    show ?thesis
    proof (cases "valid_kind d kind")
      case True
      then obtain ix where ix: "ivf_new d m nlist nprobe = Inr ix"
        using ivf_new_total by (fastforce simp: KIvf valid_kind_def)
      let ?c = "collection_with_index name d m (IvfIndex ix) :: ('n, 't) collection"
      have "any_inv any_params rt (IvfIndex ix)" using ivf_new_ok [OF ix] rt by (simp add: any_inv_def ivf_inv_def)
      then have "col_inv any_params rt ?c \<and> abs_col ?c = new_acol d m kind \<and> c_name ?c = name"
        using ivf_new_ok [OF ix] by (intro new_col_ok) (simp_all add: stores_exactly_def ix_defs ix_type_def kind_type_def KIvf)
      then show ?thesis using create_with_ok [OF inv free, of ?c "new_acol d m kind"] free True
        by (simp add: create_kind_def create_ivf_collection_def KIvf ix)
    next
      case invalid: False
      then have "ivf_new d m nlist nprobe = Inl InvalidArgument" by (auto simp: ivf_new_def valid_kind_def KIvf)
      then show ?thesis using free invalid by (simp add: create_kind_def create_ivf_collection_def create_with_def KIvf)
    qed
  next
    case (KIvfSq8 nlist nprobe)
    show ?thesis
    proof (cases "valid_kind d kind")
      case True
      then obtain raw where "ivf_new d m nlist nprobe = Inr raw"
        using ivf_new_total by (fastforce simp: KIvfSq8 valid_kind_def)
      then obtain ix where ix: "ivf_new_sq8 d m nlist nprobe = Inr ix" by (simp add: ivf_new_sq8_def)
      let ?c = "collection_with_index name d m (IvfIndex ix) :: ('n, 't) collection"
      have "any_inv any_params rt (IvfIndex ix)" using ivf_new_sq8_ok [OF ix] rt by (simp add: any_inv_def ivf_inv_def)
      then have "col_inv any_params rt ?c \<and> abs_col ?c = new_acol d m kind \<and> c_name ?c = name"
        using ivf_new_sq8_ok [OF ix]
        by (intro new_col_ok) (simp_all add: stores_exactly_def ix_defs ix_type_def kind_type_def KIvfSq8)
      then show ?thesis using create_with_ok [OF inv free, of ?c "new_acol d m kind"] free True
        by (simp add: create_kind_def create_ivf_sq8_collection_def KIvfSq8 ix)
    next
      case invalid: False
      then have "ivf_new_sq8 d m nlist nprobe = Inl InvalidArgument"
        by (auto simp: ivf_new_sq8_def ivf_new_def valid_kind_def KIvfSq8)
      then show ?thesis using free invalid
        by (simp add: create_kind_def create_ivf_sq8_collection_def create_with_def KIvfSq8)
    qed
  next
    case (KHnsw edges efc efs)
    show ?thesis
    proof (cases "valid_kind d kind")
      case True
      then obtain ix where ix: "hnsw_new d m edges efc efs = Inr ix"
        using ex by (auto simp: hnsw_new_def valid_kind_def KHnsw op_exact_def)
      let ?c = "collection_with_index name d m (HnswIndex ix) :: ('n, 't) collection"
      have "any_inv any_params rt (HnswIndex ix)" using hnsw_new_ok [OF ix] rt by (simp add: any_inv_def hnsw_inv_def)
      then have "col_inv any_params rt ?c \<and> abs_col ?c = new_acol d m kind \<and> c_name ?c = name"
        using hnsw_new_ok [OF ix] by (intro new_col_ok) (simp_all add: stores_exactly_def ix_defs ix_type_def kind_type_def KHnsw)
      then show ?thesis using create_with_ok [OF inv free, of ?c "new_acol d m kind"] free True
        by (simp add: create_kind_def create_hnsw_collection_def KHnsw ix)
    next
      case invalid: False
      then have "hnsw_new d m edges efc efs = Inl InvalidArgument" using ex
        by (auto simp: hnsw_new_def valid_kind_def KHnsw op_exact_def)
      then show ?thesis using free invalid by (simp add: create_kind_def create_hnsw_collection_def create_with_def KHnsw)
    qed
  qed
qed

section \<open>Replay refines the specification\<close>

lemma map_prod_fstE:
  assumes "map_prod f id x = (r, y)"
  obtains r0 where "x = (r0, y)" "r = f r0"
  using assms by (cases x) auto

lemma apply_op_refines:
  assumes inv: "mgr_inv any_params rt mgr" and rt: "rt_ok rt" and works: "fts_works tv docs" and ex: "op_exact opn"
    and app: "apply_op rt tv l mgr opn lsn dir = (r, mgr')"
  shows "mgr_inv any_params rt mgr' \<and> abs_mgr mgr' = spec_op opn (abs_mgr mgr) \<and> (r = Inr () \<or> (\<exists>e. r = Inl (Apply e)))"
proof (cases opn)
  case (CreateCollection name d m kind)
  note kind = create_kind_spec [OF inv rt, of name d m kind, OF ex [unfolded CreateCollection]]
  consider (taken) "hm_get mgr name \<noteq> None" | (ok) "hm_get mgr name = None" "valid_kind d kind"
    | (invalid) "hm_get mgr name = None" "\<not> valid_kind d kind" by blast
  then show ?thesis
  proof cases
    case taken
    then have "r = Inr ()" "mgr' = mgr" using kind app by (simp_all add: apply_op_def CreateCollection)
    then show ?thesis using taken inv abs_mgr_None [of mgr name] by (auto simp: CreateCollection spec_op_def)
  next
    case ok
    then obtain m' where m': "create_kind mgr name d m kind = Inr m'" "mgr_inv any_params rt m'"
        "abs_mgr m' = (abs_mgr mgr)(name \<mapsto> new_acol d m kind)" using kind by auto
    then have "r = Inr ()" "mgr' = m'" using app by (simp_all add: apply_op_def CreateCollection)
    then show ?thesis using ok m' by (simp add: CreateCollection spec_op_def abs_mgr_None)
  next
    case invalid
    then have "r = Inl (Apply InvalidArgument)" "mgr' = mgr" using kind app by (simp_all add: apply_op_def CreateCollection)
    then show ?thesis using invalid inv by (simp add: CreateCollection spec_op_def abs_mgr_None)
  qed
next
  case (DropCollection name)
  then have "r = Inr ()" "mgr' = (if hm_get mgr name = None then mgr else hm_remove name mgr)"
    using app by (auto simp: apply_op_def drop_collection_def split: option.splits)
  then show ?thesis using inv mgr_inv_remove [OF inv] abs_mgr_None [of mgr name]
    by (auto simp: DropCollection spec_op_def)
next
  case (WInsert col y v p)
  then have "map_prod (map_sum Apply id) id (on_collection mgr col (replay_insert rt tv l y v p lsn)) = (r, mgr')"
    using app by (simp add: apply_op_def)
  then obtain r0 where o: "on_collection mgr col (replay_insert rt tv l y v p lsn) = (r0, mgr')" "r = map_sum Apply id r0"
    by (rule map_prod_fstE)
  have "mgr_inv any_params rt mgr' \<and> abs_mgr mgr' = upd_acol (abs_mgr mgr) col (acol_insert y v p) \<and> True"
    by (rule on_collection_abs [OF inv o(1)]) (use abs_replay_insert [OF _ works] in blast)+
  then show ?thesis using o(2) by (cases r0) (simp_all add: WInsert spec_op_def)
next
  case (WDelete col y)
  then have "map_prod (map_sum Apply id) id (on_collection mgr col (\<lambda>c. apply_delta_row rt tv l c (DDelete y) lsn)) = (r, mgr')"
    using app by (simp add: apply_op_def)
  then obtain r0 where o: "on_collection mgr col (\<lambda>c. apply_delta_row rt tv l c (DDelete y) lsn) = (r0, mgr')"
      "r = map_sum Apply id r0"
    by (rule map_prod_fstE)
  have "mgr_inv any_params rt mgr' \<and> abs_mgr mgr' = upd_acol (abs_mgr mgr) col (acol_delete y) \<and> True"
  proof (rule on_collection_abs [OF inv o(1)])
    fix c c' assume c: "col_inv any_params rt c" "apply_delta_row rt tv l c (DDelete y) lsn = (r0, c')"
    obtain r1 c1 where d: "col_delete tv c y lsn = (r1, c1)" by (cases "col_delete tv c y lsn")
    then have "c' = c1" using c(2) by (cases r1) (auto simp: apply_delta_row_def)
    then show "col_inv any_params rt c' \<and> c_name c' = c_name c \<and> abs_col c' = acol_delete y (abs_col c) \<and> True"
      using abs_col_delete [OF c(1) works d] by simp
  qed simp
  then show ?thesis using o(2) by (cases r0) (simp_all add: WDelete spec_op_def)
next
  case (EnableFts col)
  obtain r0 mgr1 where o: "mgr_enable_fts tv mgr col (map_option (\<lambda>d. col_fts_dir d col) dir) = (r0, mgr1)"
    by (cases "mgr_enable_fts tv mgr col (map_option (\<lambda>d. col_fts_dir d col) dir)")
  have "mgr_inv any_params rt mgr1 \<and> abs_mgr mgr1 = upd_acol (abs_mgr mgr) col id \<and> True"
    by (rule on_collection_abs [OF inv o [unfolded mgr_enable_fts_def]])
      (auto simp: col_enable_fts_def col_inv_def abs_col_def split: sum.splits)
  moreover have "upd_acol (abs_mgr mgr) col id = abs_mgr mgr" by (simp add: upd_acol_def option.map_id)
  ultimately show ?thesis using app o
    by (auto simp: EnableFts apply_op_def spec_op_def split: sum.splits db_error.splits)
next
  case (SetSourceBinding col b)
  obtain r0 mgr1 where o: "mgr_set_source_binding mgr col b = (r0, mgr1)" by (cases "mgr_set_source_binding mgr col b")
  have "mgr_inv any_params rt mgr1 \<and> abs_mgr mgr1 = upd_acol (abs_mgr mgr) col (\<lambda>x. x\<lparr>a_binding := Some b\<rparr>) \<and> True"
    by (rule on_collection_abs [OF inv o [unfolded mgr_set_source_binding_def]])
      (auto simp: col_inv_def abs_col_def)
  then show ?thesis using app o
    by (auto simp: SetSourceBinding apply_op_def spec_op_def split: sum.splits db_error.splits)
qed

lemma spec_op_again: "spec_op opn (spec_op opn a) = spec_op opn a"
  by (cases opn) (auto simp: spec_op_def upd_acol_def acol_insert_def acol_delete_def payload_upd_def fun_eq_iff
      option.map_comp comp_def new_acol_def split: option.split intro!: map_option_cong)

text \<open>C5. Replaying one entry does to the collections what the entry means, for each of the four index kinds and whatever
  level is drawn, and replaying an entry that was already applied changes nothing: a crash between logging and
  applying, or between a snapshot and the clearing of the log, is not visible. The entry may be any operation but the
  creation of a collection of dimension zero or of an HNSW index whose \<open>2 * m\<close> does not fit into \<open>usize\<close>;
  calls of the text library are assumed to succeed. The collections are compared by name, dimension,
  metric, payloads, source binding and vectors: exactly up to the sign of a zero component where the index stores raw
  vectors, by their ids where it quantizes them (IVF-SQ8).\<close>

theorem replay_op_refines:
  assumes inv: "mgr_inv any_params rt mgr" and rt: "rt_ok rt" and works: "fts_works tv docs" and ex: "op_exact opn"
    and app: "apply_op rt tv l mgr opn lsn dir = (r, mgr1)" and again: "apply_op rt tv l' mgr1 opn lsn dir = (r', mgr2)"
  shows "abs_mgr mgr1 = spec_op opn (abs_mgr mgr) \<and> abs_mgr mgr2 = abs_mgr mgr1 \<and>
    (r = Inr () \<or> (\<exists>e. r = Inl (Apply e)))"
proof -
  note one = apply_op_refines [OF inv rt works ex app]
  show ?thesis using one apply_op_refines [OF conjunct1 [OF one] rt works ex again] by (simp add: spec_op_again)
qed

theorem replay_op_refines_witness:
  "\<exists>r mgr1 r' mgr2. apply_op plain_rt list_engine 0 (manager_new :: (f64, (vecid \<times> string) list) manager)
      (CreateCollection ''c'' 1 L2 (KIvfSq8 2 1)) 1 None = (r, mgr1) \<and>
    apply_op plain_rt list_engine 0 mgr1 (CreateCollection ''c'' 1 L2 (KIvfSq8 2 1)) 1 None = (r', mgr2) \<and>
    abs_mgr mgr2 = [''c'' \<mapsto> new_acol 1 L2 (KIvfSq8 2 1)]"
proof -
  let ?op = "CreateCollection ''c'' 1 L2 (KIvfSq8 2 1) :: f64 wal_op"
  obtain r mgr1 where 1: "apply_op plain_rt list_engine 0 manager_new ?op 1 None = (r, mgr1)"
    by (cases "apply_op plain_rt list_engine 0 manager_new ?op 1 None")
  obtain r' mgr2 where 2: "apply_op plain_rt list_engine 0 mgr1 ?op 1 None = (r', mgr2)"
    by (cases "apply_op plain_rt list_engine 0 mgr1 ?op 1 None")
  have "op_exact ?op" by (simp add: op_exact_def)
  from replay_op_refines [OF mgr_inv_new plain_rt_ok list_engine_works this 1 2]
  show ?thesis using 1 2 by (simp add: spec_op_def valid_kind_def)
qed

end
