(* ===== verification/Wal.thy ===== *)
theory Wal
  imports WalWriter Recovery
begin

text \<open>
  \<open>WalManager\<close> of \<open>wal/mod.rs\<close>: every mutation is logged and then applied, a checkpoint writes a snapshot
  and clears the log, and opening a directory loads the snapshot and replays the log. The files of the
  directory are part of the state; \<open>disk_of\<close> is what a crash leaves of them. The snapshot is written to a
  temporary file that is never read, so only its renaming appears here.
\<close>

section \<open>The libraries\<close>

text \<open>Everything the manager is given: the runtime, the text engine, the codecs and the order of hash maps.\<close>

record ('n, 't) wal_env =
  x_rt :: rt
  x_tv :: "'t tantivy"
  x_lib :: codec_lib
  x_bin :: "'n bincode"
  x_snap_write :: "'n manager_snapshot \<Rightarrow> bytes option"
  x_snap_read :: "bytes \<Rightarrow> 'n manager_snapshot option"
  x_order :: "string list \<Rightarrow> string list"

section \<open>State\<close>

record skipped_entry =
  sk_lsn :: u64
  sk_error :: persist_error

record recovery_report =
  rr_replayed :: u64
  rr_skipped :: "skipped_entry list"

definition report_empty :: recovery_report where
  "report_empty = \<lparr>rr_replayed = 0, rr_skipped = []\<rparr>"

definition is_clean :: "recovery_report \<Rightarrow> bool" where
  "is_clean r \<longleftrightarrow> rr_skipped r = []"

record wal_stats =
  st_entries_written :: u64
  st_entries_since_checkpoint :: u64
  st_wal_bytes :: u64
  st_last_lsn :: u64
  st_snapshot_lsn :: u64

text \<open>
  \<open>w_snapshot\<close> is \<open>snapshot.bin\<close>. The file behind the writer's handle is \<open>wal.log\<close> unless \<open>w_detached\<close> holds the
  content of a newer \<open>wal.log\<close>, which a rewrite of the log put in its place without reopening it.
\<close>

record ('n, 't) wal_manager =
  w_inner :: "('n, 't) manager"
  w_wal :: wal_writer
  w_config :: wal_config
  w_wal_entries :: u64
  w_next_lsn :: u64
  w_entries_written :: u64
  w_since_checkpoint :: u64
  w_snapshot_lsn :: u64
  w_dir :: string
  w_report :: recovery_report
  w_durable_lsn :: u64
  w_iceberg_watermark :: u64
  w_unflushed :: "(u64 \<times> bytes) list"
  w_snapshot :: "bytes option"
  w_detached :: "bytes option"

record disk =
  d_snapshot :: "bytes option"
  d_wal :: "bytes option"

definition wal_path :: "('n, 't) wal_manager \<Rightarrow> bytes" where
  "wal_path wm = (case w_detached wm of Some bs \<Rightarrow> bs | None \<Rightarrow> ww_file (w_wal wm))"

definition disk_of :: "('n, 't) wal_manager \<Rightarrow> disk" where
  "disk_of wm = \<lparr>d_snapshot = w_snapshot wm, d_wal = Some (wal_path wm)\<rparr>"

section \<open>Replay and opening\<close>

record ('n, 't) replay =
  rp_mgr :: "('n, 't) manager"
  rp_last_lsn :: u64
  rp_entries :: u64
  rp_since :: u64
  rp_report :: recovery_report

text \<open>The loop over the entries; the first \<open>l\<close> entries still to come choose the level draw of an insert.\<close>

fun replay_entries ::
  "('n, 't) wal_env \<Rightarrow> (nat \<Rightarrow> nat) \<Rightarrow> u64 \<Rightarrow> string \<Rightarrow> ('n, 't) replay \<Rightarrow> 'n wal_entry list \<Rightarrow>
     persist_error + ('n, 't) replay"
where
  "replay_entries env ls snapshot_lsn dir rp [] = Inr rp"
| "replay_entries env ls snapshot_lsn dir rp (e # es) =
     (let rp1 = rp\<lparr>rp_entries := sat_add (rp_entries rp) 1\<rparr>
      in if e_lsn e \<le> snapshot_lsn then replay_entries env ls snapshot_lsn dir rp1 es
         else case apply_op (x_rt env) (x_tv env) (ls (length es)) (rp_mgr rp1) (e_op e) (e_lsn e) (Some dir) of
             (Inr _, mgr) \<Rightarrow>
               replay_entries env ls snapshot_lsn dir (rp1\<lparr>rp_mgr := mgr, rp_last_lsn := e_lsn e,
                 rp_since := sat_add (rp_since rp1) 1,
                 rp_report := (rp_report rp1)\<lparr>rr_replayed := sat_add (rr_replayed (rp_report rp1)) 1\<rparr>\<rparr>) es
           | (Inl (Apply err), mgr) \<Rightarrow>
               replay_entries env ls snapshot_lsn dir (rp1\<lparr>rp_mgr := mgr, rp_last_lsn := e_lsn e,
                 rp_since := sat_add (rp_since rp1) 1,
                 rp_report := (rp_report rp1)\<lparr>rr_skipped := rr_skipped (rp_report rp1) @
                   [\<lparr>sk_lsn = e_lsn e, sk_error = Apply err\<rparr>]\<rparr>\<rparr>) es
           | (Inl err, mgr) \<Rightarrow> Inl err)"

text \<open>The entries before an unreadable one are applied and then dropped with the whole manager.\<close>

definition replay_wal ::
  "('n, 't) wal_env \<Rightarrow> (nat \<Rightarrow> nat) \<Rightarrow> bytes \<Rightarrow> ('n, 't) manager \<Rightarrow> u64 \<Rightarrow> string \<Rightarrow> persist_error + ('n, 't) replay"
where
  "replay_wal env ls file mgr snapshot_lsn dir = (case open_reader (x_lib env) (x_bin env) None file of
       Inl e \<Rightarrow> Inl e
     | Inr (es, err) \<Rightarrow>
         (case replay_entries env ls snapshot_lsn dir \<lparr>rp_mgr = mgr, rp_last_lsn = snapshot_lsn, rp_entries = 0,
             rp_since = 0, rp_report = report_empty\<rparr> es of
            Inl e \<Rightarrow> Inl e
          | Inr rp \<Rightarrow> (case err of Some e \<Rightarrow> Inl e | None \<Rightarrow> Inr rp)))"

text \<open>The manager both ways of opening end with.\<close>

definition opened ::
  "wal_config \<Rightarrow> string \<Rightarrow> disk \<Rightarrow> ('n, 't) replay \<Rightarrow> u64 \<Rightarrow> u64 \<Rightarrow> u64 \<Rightarrow> ('n, 't) wal_manager"
where
  "opened cfg dir d rp snapshot_lsn durable watermark =
     \<lparr>w_inner = rp_mgr rp, w_wal = open_append (d_wal d) (cfg_compression cfg), w_config = cfg,
      w_wal_entries = rp_entries rp, w_next_lsn = rp_last_lsn rp + 1, w_entries_written = 0,
      w_since_checkpoint = rp_since rp, w_snapshot_lsn = snapshot_lsn, w_dir = dir, w_report = rp_report rp,
      w_durable_lsn = durable, w_iceberg_watermark = watermark, w_unflushed = [], w_snapshot = d_snapshot d,
      w_detached = None\<rparr>"

text \<open>A directory without a log replays nothing.\<close>

definition replay_path ::
  "('n, 't) wal_env \<Rightarrow> (nat \<Rightarrow> nat) \<Rightarrow> bytes option \<Rightarrow> ('n, 't) manager \<Rightarrow> u64 \<Rightarrow> string \<Rightarrow> persist_error + ('n, 't) replay"
where
  "replay_path env ls path mgr snapshot_lsn dir = (case path of
       None \<Rightarrow> Inr \<lparr>rp_mgr = mgr, rp_last_lsn = snapshot_lsn, rp_entries = 0, rp_since = 0, rp_report = report_empty\<rparr>
     | Some file \<Rightarrow> replay_wal env ls file mgr snapshot_lsn dir)"

definition load_snapshot :: "('n, 't) wal_env \<Rightarrow> string \<Rightarrow> bytes option \<Rightarrow> persist_error + ('n, 't) manager \<times> u64" where
  "load_snapshot env dir path = (case path of
       None \<Rightarrow> Inr (manager_new, 0)
     | Some bs \<Rightarrow> (case x_snap_read env bs of
           None \<Rightarrow> Inl Decode
         | Some snap \<Rightarrow> Inr (mgr_from_snapshot (x_tv env) snap (Some dir), ms_last_lsn snap)))"

definition open_with_config ::
  "('n, 't) wal_env \<Rightarrow> (nat \<Rightarrow> nat) \<Rightarrow> bool \<Rightarrow> wal_config \<Rightarrow> string \<Rightarrow> disk \<Rightarrow> persist_error + ('n, 't) wal_manager"
where
  "open_with_config env ls io_ok cfg dir d =
     (if \<not> io_ok then Inl Io
      else case load_snapshot env dir (d_snapshot d) of
          Inl e \<Rightarrow> Inl e
        | Inr (inner, lsn) \<Rightarrow> (case replay_path env ls (d_wal d) inner lsn dir of
            Inl e \<Rightarrow> Inl e
          | Inr rp \<Rightarrow> Inr (opened cfg dir d rp lsn lsn 0)))"

definition wal_open ::
  "('n, 't) wal_env \<Rightarrow> (nat \<Rightarrow> nat) \<Rightarrow> bool \<Rightarrow> string \<Rightarrow> disk \<Rightarrow> persist_error + ('n, 't) wal_manager"
where
  "wal_open env ls io_ok dir d = open_with_config env ls io_ok wal_config_default dir d"

definition open_from_iceberg_state_with_config ::
  "('n, 't) wal_env \<Rightarrow> (nat \<Rightarrow> nat) \<Rightarrow> bool \<Rightarrow> string \<Rightarrow> disk \<Rightarrow> ('n, 't) manager \<Rightarrow> u64 \<Rightarrow> wal_config \<Rightarrow>
     persist_error + ('n, 't) wal_manager"
where
  "open_from_iceberg_state_with_config env ls io_ok dir d inner watermark cfg =
     (if \<not> io_ok then Inl Io
      else case replay_path env ls (d_wal d) inner watermark dir of
          Inl e \<Rightarrow> Inl e
        | Inr rp \<Rightarrow> Inr (opened cfg dir d rp 0 watermark watermark))"

definition open_from_iceberg_state ::
  "('n, 't) wal_env \<Rightarrow> (nat \<Rightarrow> nat) \<Rightarrow> bool \<Rightarrow> string \<Rightarrow> disk \<Rightarrow> ('n, 't) manager \<Rightarrow> u64 \<Rightarrow>
     persist_error + ('n, 't) wal_manager"
where
  "open_from_iceberg_state env ls io_ok dir d inner watermark =
     open_from_iceberg_state_with_config env ls io_ok dir d inner watermark wal_config_default"

section \<open>Checkpoint\<close>

definition checkpoint ::
  "('n, 't) wal_env \<Rightarrow> ck_io \<Rightarrow> ('n, 't) wal_manager \<Rightarrow> (persist_error + unit) \<times> ('n, 't) wal_manager"
where
  "checkpoint env ck wm =
     (let last_lsn = sat_pred (w_next_lsn wm)
      in case (if ck = CkSerialize then None
               else x_snap_write env (mgr_to_snapshot_with_lsn (x_order env) (w_inner wm) last_lsn)) of
           None \<Rightarrow> (Inl Encode, wm)
         | Some snap \<Rightarrow>
             if ck = CkSync \<or> ck = CkRename then (Inl Io, wm)
             else
               let wm1 = wm\<lparr>w_snapshot := Some snap, w_durable_lsn := last_lsn, w_snapshot_lsn := last_lsn,
                       w_since_checkpoint := 0\<rparr>;
                   (ok, w) = wal_truncate ck (w_wal wm1)
               in if ok then (Inr (), wm1\<lparr>w_wal := w, w_wal_entries := 0\<rparr>)
                  else (Inl Io, wm1\<lparr>w_wal := w\<rparr>))"

definition maybe_checkpoint ::
  "('n, 't) wal_env \<Rightarrow> ck_io \<Rightarrow> ('n, 't) wal_manager \<Rightarrow> (persist_error + unit) \<times> ('n, 't) wal_manager"
where
  "maybe_checkpoint env ck wm =
     (let cfg = w_config wm;
          entries_due = 0 < cfg_entries cfg \<and> cfg_entries cfg \<le> w_wal_entries wm;
          bytes_due = 0 < cfg_bytes cfg \<and> cfg_bytes cfg \<le> ww_bytes_written (w_wal wm)
      in if entries_due \<or> bytes_due then checkpoint env ck wm else (Inr (), wm))"

section \<open>Logged operations\<close>

definition record_append :: "('n, 't) wal_env \<Rightarrow> ('n, 't) wal_manager \<Rightarrow> 'n wal_entry \<Rightarrow> ('n, 't) wal_manager" where
  "record_append env wm e = wm\<lparr>w_wal_entries := sat_add (w_wal_entries wm) 1,
     w_entries_written := sat_add (w_entries_written wm) 1,
     w_since_checkpoint := sat_add (w_since_checkpoint wm) 1,
     w_unflushed := (case bin_write (x_bin env) e of
         Some payload \<Rightarrow> w_unflushed wm @ [(e_lsn e, payload)] | None \<Rightarrow> w_unflushed wm),
     w_next_lsn := w_next_lsn wm + 1\<rparr>"

definition log_and_apply ::
  "('n, 't) wal_env \<Rightarrow> io \<Rightarrow> ck_io \<Rightarrow> ('n, 't) wal_manager \<Rightarrow> 'n wal_op \<Rightarrow>
     (('n, 't) manager \<Rightarrow> (db_error + 'a) \<times> ('n, 't) manager) \<Rightarrow> (persist_error + 'a) \<times> ('n, 't) wal_manager"
where
  "log_and_apply env io ck wm opn f =
     (let entry = wal_entry_new (w_next_lsn wm) opn;
          (appended, w) = append_entry (x_lib env) (x_bin env) io (w_wal wm) entry
      in and_then (appended, wm\<lparr>w_wal := w\<rparr>) (\<lambda>_ wm1.
        let wm2 = record_append env wm1 entry;
            (applied, mgr) = f (w_inner wm2)
        in and_then (map_sum Apply id applied, wm2\<lparr>w_inner := mgr\<rparr>) (\<lambda>x wm3.
          and_then (maybe_checkpoint env ck wm3) (\<lambda>_ wm4. (Inr x, wm4)))))"

text \<open>A manager method that returns the changed map.\<close>

definition mgr_step :: "(('n, 't) manager \<Rightarrow> db_error + ('n, 't) manager) \<Rightarrow> ('n, 't) manager \<Rightarrow>
    (db_error + unit) \<times> ('n, 't) manager" where
  "mgr_step f mgr = (case f mgr of Inl e \<Rightarrow> (Inl e, mgr) | Inr mgr' \<Rightarrow> (Inr (), mgr'))"

definition wal_create_collection ::
  "('n, 't) wal_env \<Rightarrow> io \<Rightarrow> ck_io \<Rightarrow> ('n, 't) wal_manager \<Rightarrow> string \<Rightarrow> nat \<Rightarrow> metric \<Rightarrow>
     (persist_error + unit) \<times> ('n, 't) wal_manager"
where
  "wal_create_collection env io ck wm name d m =
     log_and_apply env io ck wm (CreateCollection name d m KFlat) (mgr_step (\<lambda>mgr. create_collection mgr name d m))"

definition wal_create_ivf_collection ::
  "('n, 't) wal_env \<Rightarrow> io \<Rightarrow> ck_io \<Rightarrow> ('n, 't) wal_manager \<Rightarrow> string \<Rightarrow> nat \<Rightarrow> metric \<Rightarrow> nat \<Rightarrow> nat \<Rightarrow>
     (persist_error + unit) \<times> ('n, 't) wal_manager"
where
  "wal_create_ivf_collection env io ck wm name d m nlist nprobe =
     log_and_apply env io ck wm (CreateCollection name d m (KIvf nlist nprobe))
       (mgr_step (\<lambda>mgr. create_ivf_collection mgr name d m nlist nprobe))"

definition wal_create_ivf_sq8_collection ::
  "('n, 't) wal_env \<Rightarrow> io \<Rightarrow> ck_io \<Rightarrow> ('n, 't) wal_manager \<Rightarrow> string \<Rightarrow> nat \<Rightarrow> metric \<Rightarrow> nat \<Rightarrow> nat \<Rightarrow>
     (persist_error + unit) \<times> ('n, 't) wal_manager"
where
  "wal_create_ivf_sq8_collection env io ck wm name d m nlist nprobe =
     log_and_apply env io ck wm (CreateCollection name d m (KIvfSq8 nlist nprobe))
       (mgr_step (\<lambda>mgr. create_ivf_sq8_collection mgr name d m nlist nprobe))"

definition wal_create_hnsw_collection ::
  "('n, 't) wal_env \<Rightarrow> io \<Rightarrow> ck_io \<Rightarrow> ('n, 't) wal_manager \<Rightarrow> string \<Rightarrow> nat \<Rightarrow> metric \<Rightarrow> nat \<Rightarrow> nat \<Rightarrow> nat \<Rightarrow>
     (persist_error + unit) \<times> ('n, 't) wal_manager"
where
  "wal_create_hnsw_collection env io ck wm name d m edges efc efs =
     log_and_apply env io ck wm (CreateCollection name d m (KHnsw edges efc efs))
       (mgr_step (\<lambda>mgr. create_hnsw_collection mgr name d m edges efc efs))"

definition wal_drop_collection ::
  "('n, 't) wal_env \<Rightarrow> io \<Rightarrow> ck_io \<Rightarrow> ('n, 't) wal_manager \<Rightarrow> string \<Rightarrow> (persist_error + unit) \<times> ('n, 't) wal_manager"
where
  "wal_drop_collection env io ck wm name =
     log_and_apply env io ck wm (DropCollection name) (mgr_step (\<lambda>mgr. drop_collection mgr name))"

definition wal_insert ::
  "('n, 't) wal_env \<Rightarrow> io \<Rightarrow> ck_io \<Rightarrow> nat \<Rightarrow> ('n, 't) wal_manager \<Rightarrow> string \<Rightarrow> vecid \<Rightarrow> vec \<Rightarrow> 'n json option \<Rightarrow>
     (persist_error + unit) \<times> ('n, 't) wal_manager"
where
  "wal_insert env io ck l wm col y v p =
     (let lsn = w_next_lsn wm
      in log_and_apply env io ck wm (WInsert col y v p)
           (\<lambda>mgr. on_collection mgr col (\<lambda>c. col_insert (x_rt env) (x_tv env) l c y v p lsn)))"

definition wal_delete ::
  "('n, 't) wal_env \<Rightarrow> io \<Rightarrow> ck_io \<Rightarrow> ('n, 't) wal_manager \<Rightarrow> string \<Rightarrow> vecid \<Rightarrow>
     (persist_error + bool) \<times> ('n, 't) wal_manager"
where
  "wal_delete env io ck wm col y =
     (let lsn = w_next_lsn wm
      in log_and_apply env io ck wm (WDelete col y)
           (\<lambda>mgr. on_collection mgr col (\<lambda>c. col_delete (x_tv env) c y lsn)))"

definition wal_enable_fts ::
  "('n, 't) wal_env \<Rightarrow> io \<Rightarrow> ck_io \<Rightarrow> ('n, 't) wal_manager \<Rightarrow> string \<Rightarrow> (persist_error + unit) \<times> ('n, 't) wal_manager"
where
  "wal_enable_fts env io ck wm col =
     (let fts_dir = col_fts_dir (w_dir wm) col
      in log_and_apply env io ck wm (EnableFts col) (\<lambda>mgr. mgr_enable_fts (x_tv env) mgr col (Some fts_dir)))"

definition wal_set_source_binding ::
  "('n, 't) wal_env \<Rightarrow> io \<Rightarrow> ck_io \<Rightarrow> ('n, 't) wal_manager \<Rightarrow> string \<Rightarrow> source_binding \<Rightarrow>
     (persist_error + unit) \<times> ('n, 't) wal_manager"
where
  "wal_set_source_binding env io ck wm col b =
     log_and_apply env io ck wm (SetSourceBinding col b) (\<lambda>mgr. mgr_set_source_binding mgr col b)"

section \<open>Batches\<close>

definition batch_entries :: "u64 \<Rightarrow> string \<Rightarrow> (vecid \<times> vec \<times> 'n json option) list \<Rightarrow> 'n wal_entry list" where
  "batch_entries lsn col items = map (\<lambda>(offset, y, v, p). wal_entry_new (lsn + of_nat offset) (WInsert col y v p))
     (enumerate 0 items)"

definition wal_insert_batch ::
  "('n, 't) wal_env \<Rightarrow> io \<Rightarrow> (nat \<Rightarrow> nat) \<Rightarrow> ('n, 't) wal_manager \<Rightarrow> string \<Rightarrow> (vecid \<times> vec \<times> 'n json option) list \<Rightarrow>
     (persist_error + nat) \<times> ('n, 't) wal_manager"
where
  "wal_insert_batch env io ls wm col items = (case mgr_get (w_inner wm) col of
       Inl e \<Rightarrow> (Inl (Apply e), wm)
     | Inr c \<Rightarrow>
         if items = [] then (Inr 0, wm)
         else case find (\<lambda>(y, v, p). length v \<noteq> c_dim c) items of
             Some (y, v, p) \<Rightarrow> (Inl (Apply (DimMismatch (c_dim c) (length v))), wm)
           | None \<Rightarrow>
               let count = length items
               in if 2 ^ 64 \<le> count \<or> 2 ^ 64 \<le> unat (w_next_lsn wm) + count then (Inl (Apply InvalidArgument), wm)
                  else
                    let entries = batch_entries (w_next_lsn wm) col items;
                        (appended, w) = append_batch (x_lib env) (x_bin env) io (w_wal wm) entries
                    in and_then (appended, wm\<lparr>w_wal := w\<rparr>) (\<lambda>serialized wm1.
                      let wm2 = wm1\<lparr>w_unflushed := w_unflushed wm1 @ zip (map e_lsn entries) serialized,
                              w_next_lsn := w_next_lsn wm1 + of_nat count\<rparr>;
                          rows_with_lsns = map (\<lambda>(e, y, v, p). (y, v, p, e_lsn e)) (zip entries items);
                          (applied, mgr) = on_collection (w_inner wm2) col
                            (\<lambda>c. col_insert_batch_with_lsns (x_rt env) (x_tv env) ls c rows_with_lsns)
                      in and_then (map_sum Apply id applied, wm2\<lparr>w_inner := mgr\<rparr>) (\<lambda>_ wm3. (Inr count, wm3))))"

section \<open>Operations that are not logged\<close>

definition apply_source_delta ::
  "('n, 't) wal_env \<Rightarrow> (nat \<Rightarrow> nat) \<Rightarrow> ('n, 't) wal_manager \<Rightarrow> string \<Rightarrow> source_binding \<Rightarrow> 64 word option \<Rightarrow> 64 word \<Rightarrow>
     'n delta_row list \<Rightarrow> (db_error + bool) \<times> ('n, 't) wal_manager"
where
  "apply_source_delta env ls wm col expected from_id to_id items =
     map_prod id (\<lambda>mgr. wm\<lparr>w_inner := mgr\<rparr>) (on_collection (w_inner wm) col (\<lambda>c.
       if c_source_binding c \<noteq> Some expected \<or> c_source_snapshot_id c \<noteq> from_id then (Inr False, c)
       else and_then (apply_delta_rows (x_rt env) (x_tv env) ls c items out_of_band_lsn) (\<lambda>_ c1.
         (Inr True, c1\<lparr>c_source_snapshot_id := Some to_id\<rparr>))))"

definition wal_compact_ivf_collection ::
  "('n, 't) wal_env \<Rightarrow> (nat \<Rightarrow> nat) \<Rightarrow> ('n, 't) wal_manager \<Rightarrow> string \<Rightarrow> (db_error + bool) \<times> ('n, 't) wal_manager"
where
  "wal_compact_ivf_collection env ls wm col =
     map_prod id (\<lambda>mgr. wm\<lparr>w_inner := mgr\<rparr>) (on_collection (w_inner wm) col (compact_ivf_index (x_rt env) ls))"

definition wal_prepare_index_compaction ::
  "('n, 't) wal_manager \<Rightarrow> string \<Rightarrow> f32 \<Rightarrow>
     (db_error + (db_error + prepared_compaction) option) \<times> ('n, 't) wal_manager"
where
  "wal_prepare_index_compaction wm col threshold =
     map_prod id (\<lambda>mgr. wm\<lparr>w_inner := mgr\<rparr>) (on_collection (w_inner wm) col (\<lambda>c.
       map_prod Inr id (prepare_index_compaction c threshold)))"

definition wal_finish_index_compaction ::
  "('n, 't) wal_env \<Rightarrow> (nat \<Rightarrow> nat) \<Rightarrow> ('n, 't) wal_manager \<Rightarrow> string \<Rightarrow> any_index \<Rightarrow>
     (db_error + bool) \<times> ('n, 't) wal_manager"
where
  "wal_finish_index_compaction env ls wm col built =
     map_prod id (\<lambda>mgr. wm\<lparr>w_inner := mgr\<rparr>) (on_collection (w_inner wm) col (\<lambda>c.
       finish_index_compaction (x_rt env) ls c built))"

definition wal_cancel_index_compaction ::
  "('n, 't) wal_manager \<Rightarrow> string \<Rightarrow> (db_error + unit) \<times> ('n, 't) wal_manager"
where
  "wal_cancel_index_compaction wm col =
     map_prod id (\<lambda>mgr. wm\<lparr>w_inner := mgr\<rparr>) (on_collection (w_inner wm) col (\<lambda>c.
       (Inr (), cancel_index_compaction c)))"

section \<open>Views\<close>

definition wal_get :: "('n, 't) wal_manager \<Rightarrow> string \<Rightarrow> db_error + ('n, 't) collection" where
  "wal_get wm name = mgr_get (w_inner wm) name"

definition wal_list :: "('n, 't) wal_manager \<Rightarrow> string list" where
  "wal_list wm = mgr_list (w_inner wm)"

definition pending_entries :: "('n, 't) wal_env \<Rightarrow> ('n, 't) wal_manager \<Rightarrow>
    persist_error + 'n wal_entry list \<times> persist_error option" where
  "pending_entries env wm = open_reader (x_lib env) (x_bin env) (Some (w_durable_lsn wm)) (wal_path wm)"

definition stats :: "bool \<Rightarrow> ('n, 't) wal_manager \<Rightarrow> wal_stats" where
  "stats metadata_ok wm = \<lparr>st_entries_written = w_entries_written wm,
     st_entries_since_checkpoint = w_since_checkpoint wm, st_wal_bytes = bytes_on_disk metadata_ok (w_wal wm),
     st_last_lsn = sat_pred (w_next_lsn wm), st_snapshot_lsn = w_snapshot_lsn wm\<rparr>"

section \<open>Iceberg\<close>

definition set_iceberg_watermark :: "('n, 't) wal_manager \<Rightarrow> u64 \<Rightarrow> ('n, 't) wal_manager" where
  "set_iceberg_watermark wm lsn = (if w_iceberg_watermark wm < lsn
     then wm\<lparr>w_iceberg_watermark := lsn, w_durable_lsn := max (w_durable_lsn wm) lsn,
            w_unflushed := filter (\<lambda>(n, _). lsn < n) (w_unflushed wm)\<rparr>
     else wm)"

definition collect_unflushed :: "('n, 't) wal_env \<Rightarrow> ('n, 't) wal_manager \<Rightarrow> 'n wal_entry list" where
  "collect_unflushed env wm = List.map_filter (\<lambda>(_, payload). bin_read (x_bin env) payload)
     (filter (\<lambda>(lsn, _). w_iceberg_watermark wm < lsn) (w_unflushed wm))"

text \<open>The frames to keep: reading stops at the first frame whose hash does not match.\<close>

fun kept_entries :: "codec_lib \<Rightarrow> 'n bincode \<Rightarrow> u64 \<Rightarrow> (bytes \<times> u64) list \<Rightarrow> persist_error + 'n wal_entry list" where
  "kept_entries lib bin watermark [] = Inr []"
| "kept_entries lib bin watermark ((payload, stored_hash) # fs) =
     (if checksum lib payload \<noteq> stored_hash then Inr []
      else case decode_entry lib bin payload of
          Inl e \<Rightarrow> Inl e
        | Inr entry \<Rightarrow> map_sum id (\<lambda>es. if watermark < e_lsn entry then entry # es else es)
            (kept_entries lib bin watermark fs))"

text \<open>
  \<open>TrTmp\<close>: writing the temporary file fails. \<open>TrReopen\<close>: the new file is in place and cannot be opened for
  appending, so the writer keeps the old one.
\<close>

datatype tr_io = TrOk | TrTmp | TrReopen

definition truncate_wal_up_to ::
  "('n, 't) wal_env \<Rightarrow> tr_io \<Rightarrow> ('n, 't) wal_manager \<Rightarrow> u64 \<Rightarrow> (persist_error + unit) \<times> ('n, 't) wal_manager"
where
  "truncate_wal_up_to env tr wm watermark =
     (case kept_entries (x_lib env) (x_bin env) watermark (frames (wal_path wm)) of
        Inl e \<Rightarrow> (Inl e, wm)
      | Inr kept \<Rightarrow> (case those (map (bin_write (x_bin env)) kept) of
          None \<Rightarrow> (Inl Encode, wm)
        | Some payloads \<Rightarrow>
            let (bs, ok) = batch_frames (x_lib env) (cfg_compression (w_config wm)) payloads
            in if \<not> ok \<or> tr = TrTmp then (Inl Io, wm)
               else if tr = TrReopen then (Inl Io, wm\<lparr>w_detached := Some bs\<rparr>)
               else (Inr (), wm\<lparr>w_wal := open_append (Some bs) (cfg_compression (w_config wm)), w_detached := None,
                 w_wal_entries := of_nat (length kept),
                 w_since_checkpoint := of_nat (length (filter (\<lambda>e. w_snapshot_lsn wm < e_lsn e) kept))\<rparr>)))"

section \<open>Saving and loading without a log\<close>

text \<open>\<open>PersistExt\<close> of \<open>lib.rs\<close>; the file must be there to be loaded.\<close>

definition persist_save :: "('n, 't) wal_env \<Rightarrow> ck_io \<Rightarrow> ('n, 't) manager \<Rightarrow> persist_error + bytes" where
  "persist_save env ck mgr =
     (case (if ck = CkSerialize then None else x_snap_write env (mgr_to_snapshot (x_order env) mgr)) of
        None \<Rightarrow> Inl Encode
      | Some bs \<Rightarrow> if ck = CkSync then Inl Io else Inr bs)"

definition persist_load :: "('n, 't) wal_env \<Rightarrow> bytes option \<Rightarrow> persist_error + ('n, 't) manager" where
  "persist_load env file = (case file of
       None \<Rightarrow> Inl Io
     | Some bs \<Rightarrow> (case x_snap_read env bs of
           None \<Rightarrow> Inl Decode
         | Some snap \<Rightarrow> Inr (mgr_from_snapshot (x_tv env) snap None)))"

end
