(* ===== verification/Parquet.thy ===== *)
theory Parquet
  imports Arrow Wal
begin

text \<open>
  Export and import of collections: \<open>LakehouseExt\<close> for the collection manager (\<open>parquet_io.rs\<close>) and for the log
  manager (\<open>wal_io.rs\<close>). Writing and reading Parquet files is a record of functions; a file is what the writer
  makes of a dimension, which fixes the schema, and a list of batches.
\<close>

section \<open>The format\<close>

datatype column_type = FixedFloat32 nat | OtherType

record 'f parquet_lib =
  pq_fixed_lists :: "32 word \<Rightarrow> vec \<Rightarrow> column option"
  pq_batch :: "(string \<times> column) list \<Rightarrow> record_batch option"
  pq_create :: bool
  pq_write :: "nat \<Rightarrow> record_batch list \<Rightarrow> 'f option"
  pq_open :: "'f \<Rightarrow> ((string \<times> column_type) list \<times> (lakehouse_error + record_batch) list) option"

definition ROW_GROUP_SIZE :: nat where "ROW_GROUP_SIZE = 65536"

section \<open>Export\<close>

type_synonym export_row = "vecid \<times> vec \<times> string option"

text \<open>The rows of a chunk of ids; an id that is not found is left out.\<close>

definition export_rows :: "'n serde \<Rightarrow> ('n, 't) collection \<Rightarrow> vecid list \<Rightarrow> export_row list" where
  "export_rows sd c ids = List.map_filter (\<lambda>y. case col_get c y of
       Some (v, p) \<Rightarrow> Some (y, v, map_option (json_to_string sd) p)
     | None \<Rightarrow> None) ids"

definition id_slots :: "export_row list \<Rightarrow> 64 word slots" where
  "id_slots rs = map (\<lambda>(y, v, t). (True, y)) rs"

definition text_slots :: "export_row list \<Rightarrow> string slots" where
  "text_slots rs = map (\<lambda>(y, v, t). case t of Some s \<Rightarrow> (True, s) | None \<Rightarrow> (False, [])) rs"

definition export_batch :: "'f parquet_lib \<Rightarrow> nat \<Rightarrow> export_row list \<Rightarrow> lakehouse_error + record_batch" where
  "export_batch pq dim rs =
     and_next (ok_or LkArrow (pq_fixed_lists pq (of_nat dim) (concat (map (\<lambda>(y, v, t). v) rs)))) (\<lambda>vectors.
       ok_or LkArrow (pq_batch pq [(''id'', UInt64Array (id_slots rs)), (''vector'', vectors),
         (''payload'', StringArray (text_slots rs))]))"

definition export_collection :: "rt \<Rightarrow> 'n serde \<Rightarrow> 'f parquet_lib \<Rightarrow> ('n, 't) collection \<Rightarrow> lakehouse_error + 'f" where
  "export_collection rt sd pq c =
     (if \<not> pq_create pq then Inl LkIo
      else and_next (traverse (\<lambda>ids. export_batch pq (c_dim c) (export_rows sd c ids)) (chunks ROW_GROUP_SIZE (col_list_ids rt c)))
        (\<lambda>bs. ok_or LkParquet (pq_write pq (c_dim c) bs)))"

definition export_parquet ::
  "rt \<Rightarrow> 'n serde \<Rightarrow> 'f parquet_lib \<Rightarrow> ('n, 't) manager \<Rightarrow> string \<Rightarrow> lakehouse_error + 'f"
where
  "export_parquet rt sd pq mgr name = (case mgr_get mgr name of
       Inl _ \<Rightarrow> Inl (LkCollectionNotFound name)
     | Inr c \<Rightarrow> export_collection rt sd pq c)"

section \<open>Import\<close>

text \<open>The checks on the schema of the file.\<close>

definition check_schema :: "(string \<times> column_type) list \<Rightarrow> nat \<Rightarrow> string \<Rightarrow> string \<Rightarrow> lakehouse_error + unit" where
  "check_schema schema dim id_col vector_col =
     (if map_of schema id_col = None then Inl (LkColumnNotFound id_col)
      else case map_of schema vector_col of
          None \<Rightarrow> Inl (LkColumnNotFound vector_col)
        | Some OtherType \<Rightarrow> Inl (LkTypeMismatch vector_col)
        | Some (FixedFloat32 d) \<Rightarrow> if d \<noteq> dim then Inl (LkDimMismatch dim d) else Inr ())"

text \<open>The rows of a batch: the vectors are cut out of the one buffer of the column.\<close>

definition import_rows ::
  "'n serde \<Rightarrow> 'n arrow_lib \<Rightarrow> nat \<Rightarrow> record_batch \<Rightarrow> string \<Rightarrow> string \<Rightarrow> string list \<Rightarrow> lakehouse_error + 'n decoded_row list"
where
  "import_rows sd ar dim b id_col vector_col payload_cols =
     and_next (id_column_of ar b id_col) (\<lambda>ids.
     and_next (index_of b vector_col) (\<lambda>vec_idx.
     and_next (case column_at b vec_idx of
         FloatLists (FixedSizeList d) xs \<Rightarrow> Inr (concat (map snd xs))
       | _ \<Rightarrow> Inl LkSchema) (\<lambda>floats.
     and_next (payload_indices b payload_cols) (\<lambda>cols.
       Inr (map (\<lambda>i. (snd (ids ! i), row dim floats i, build_payload sd ar b cols i)) [0..<b_num_rows b])))))"

fun import_batches ::
  "rt \<Rightarrow> 't tantivy \<Rightarrow> (nat \<Rightarrow> nat \<Rightarrow> nat) \<Rightarrow> string \<Rightarrow> (record_batch \<Rightarrow> lakehouse_error + 'n decoded_row list) \<Rightarrow> nat \<Rightarrow>
     (lakehouse_error + record_batch) list \<Rightarrow> ('n, 't) manager \<Rightarrow> (lakehouse_error + nat) \<times> ('n, 't) manager"
where
  "import_batches rt tv ls name dec n [] mgr = (Inr n, mgr)"
| "import_batches rt tv ls name dec n (Inl e # bs) mgr = (Inl e, mgr)"
| "import_batches rt tv ls name dec n (Inr b # bs) mgr =
     (case dec b of
        Inl e \<Rightarrow> (Inl e, mgr)
      | Inr items \<Rightarrow>
          (if hm_get mgr name = None then (Inl (LkCollectionNotFound name), mgr)
           else case on_collection mgr name (\<lambda>c. col_insert_batch rt tv (ls (length bs)) c items out_of_band_lsn) of
               (Inl e, mgr1) \<Rightarrow> (Inl (LkStore e), mgr1)
             | (Inr _, mgr1) \<Rightarrow> import_batches rt tv ls name dec (n + b_num_rows b) bs mgr1))"

text \<open>\<open>file\<close>: \<open>None\<close> when it cannot be opened.\<close>

definition import_parquet ::
  "rt \<Rightarrow> 't tantivy \<Rightarrow> (nat \<Rightarrow> nat \<Rightarrow> nat) \<Rightarrow> 'n serde \<Rightarrow> 'n arrow_lib \<Rightarrow> 'f parquet_lib \<Rightarrow> ('n, 't) manager \<Rightarrow> string \<Rightarrow>
     'f option \<Rightarrow> string \<Rightarrow> string \<Rightarrow> string list \<Rightarrow> (lakehouse_error + nat) \<times> ('n, 't) manager"
where
  "import_parquet rt tv ls sd ar pq mgr name file id_col vector_col payload_cols =
     (case mgr_get mgr name of
        Inl _ \<Rightarrow> (Inl (LkCollectionNotFound name), mgr)
      | Inr c \<Rightarrow> (case file of
          None \<Rightarrow> (Inl LkIo, mgr)
        | Some f \<Rightarrow> (case pq_open pq f of
            None \<Rightarrow> (Inl LkParquet, mgr)
          | Some (schema, bs) \<Rightarrow> (case check_schema schema (c_dim c) id_col vector_col of
              Inl e \<Rightarrow> (Inl e, mgr)
            | Inr _ \<Rightarrow> import_batches rt tv ls name
                (\<lambda>b. import_rows sd ar (c_dim c) b id_col vector_col payload_cols) 0 bs mgr))))"

section \<open>Through the log\<close>

definition wal_export_parquet ::
  "('n, 't) wal_env \<Rightarrow> 'n serde \<Rightarrow> 'f parquet_lib \<Rightarrow> ('n, 't) wal_manager \<Rightarrow> string \<Rightarrow> lakehouse_error + 'f"
where
  "wal_export_parquet env sd pq wm name = (case wal_get wm name of
       Inl _ \<Rightarrow> Inl (LkCollectionNotFound name)
     | Inr c \<Rightarrow> export_collection (x_rt env) sd pq c)"

text \<open>Every row is an insert of its own; \<open>ios\<close> and \<open>ls\<close> give the outcome of its system calls and its level.\<close>

fun wal_import_rows ::
  "('n, 't) wal_env \<Rightarrow> (nat \<Rightarrow> io \<times> ck_io) \<Rightarrow> (nat \<Rightarrow> nat) \<Rightarrow> string \<Rightarrow> 'n decoded_row list \<Rightarrow> ('n, 't) wal_manager \<Rightarrow>
     (lakehouse_error + unit) \<times> ('n, 't) wal_manager"
where
  "wal_import_rows env ios ls name [] wm = (Inr (), wm)"
| "wal_import_rows env ios ls name ((y, v, p) # items) wm =
     (case wal_insert env (fst (ios (length items))) (snd (ios (length items))) (ls (length items)) wm name y v p of
        (Inl e, wm1) \<Rightarrow> (Inl LkSchema, wm1)
      | (Inr _, wm1) \<Rightarrow> wal_import_rows env ios ls name items wm1)"

fun wal_import_batches ::
  "('n, 't) wal_env \<Rightarrow> (nat \<Rightarrow> nat \<Rightarrow> io \<times> ck_io) \<Rightarrow> (nat \<Rightarrow> nat \<Rightarrow> nat) \<Rightarrow> string \<Rightarrow>
     (record_batch \<Rightarrow> lakehouse_error + 'n decoded_row list) \<Rightarrow> nat \<Rightarrow> (lakehouse_error + record_batch) list \<Rightarrow> ('n, 't) wal_manager \<Rightarrow>
     (lakehouse_error + nat) \<times> ('n, 't) wal_manager"
where
  "wal_import_batches env ios ls name dec n [] wm = (Inr n, wm)"
| "wal_import_batches env ios ls name dec n (Inl e # bs) wm = (Inl e, wm)"
| "wal_import_batches env ios ls name dec n (Inr b # bs) wm =
     (case dec b of
        Inl e \<Rightarrow> (Inl e, wm)
      | Inr items \<Rightarrow> (case wal_import_rows env (ios (length bs)) (ls (length bs)) name items wm of
          (Inl e, wm1) \<Rightarrow> (Inl e, wm1)
        | (Inr _, wm1) \<Rightarrow> wal_import_batches env ios ls name dec (n + b_num_rows b) bs wm1))"

definition wal_import_parquet ::
  "('n, 't) wal_env \<Rightarrow> (nat \<Rightarrow> nat \<Rightarrow> io \<times> ck_io) \<Rightarrow> (nat \<Rightarrow> nat \<Rightarrow> nat) \<Rightarrow> 'n serde \<Rightarrow> 'n arrow_lib \<Rightarrow> 'f parquet_lib \<Rightarrow>
     ('n, 't) wal_manager \<Rightarrow> string \<Rightarrow> 'f option \<Rightarrow> string \<Rightarrow> string \<Rightarrow> string list \<Rightarrow>
     (lakehouse_error + nat) \<times> ('n, 't) wal_manager"
where
  "wal_import_parquet env ios ls sd ar pq wm name file id_col vector_col payload_cols =
     (case wal_get wm name of
        Inl _ \<Rightarrow> (Inl (LkCollectionNotFound name), wm)
      | Inr c \<Rightarrow> (case file of
          None \<Rightarrow> (Inl LkIo, wm)
        | Some f \<Rightarrow> (case pq_open pq f of
            None \<Rightarrow> (Inl LkParquet, wm)
          | Some (schema, bs) \<Rightarrow> (case check_schema schema (c_dim c) id_col vector_col of
              Inl e \<Rightarrow> (Inl e, wm)
            | Inr _ \<Rightarrow> wal_import_batches env ios ls name
                (\<lambda>b. import_rows sd ar (c_dim c) b id_col vector_col payload_cols) 0 bs wm))))"

section \<open>What a file holds\<close>

definition exported :: "nat \<Rightarrow> export_row list \<Rightarrow> record_batch" where
  "exported d rs = \<lparr>b_columns = [(''id'', UInt64Array (id_slots rs)),
     (''vector'', FloatLists (FixedSizeList d) (map (\<lambda>(y, v, t). (True, v)) rs)), (''payload'', StringArray (text_slots rs))],
     b_num_rows = length rs\<rparr>"

definition export_schema :: "nat \<Rightarrow> (string \<times> column_type) list" where
  "export_schema d = [(''id'', OtherType), (''vector'', FixedFloat32 d), (''payload'', OtherType)]"

text \<open>Reading a file gives the rows that were written, in their order, whatever batches they come in.\<close>

definition parquet_ok :: "'f parquet_lib \<Rightarrow> nat \<Rightarrow> bool" where
  "parquet_ok pq d \<longleftrightarrow> pq_create pq \<and>
     (\<forall>vs. (\<forall>v \<in> set vs. length v = d) \<longrightarrow>
       pq_fixed_lists pq (of_nat d) (concat vs) = Some (FloatLists (FixedSizeList d) (map (Pair True) vs))) \<and>
     (\<forall>rs. pq_batch pq (b_columns (exported d rs)) = Some (exported d rs)) \<and>
     (\<forall>rss. \<exists>f rss'. pq_write pq d (map (exported d) rss) = Some f \<and> concat rss' = concat rss \<and>
       pq_open pq f = Some (export_schema d, map (\<lambda>rs. Inr (exported d rs)) rss'))"

definition read_back :: "'n serde \<Rightarrow> export_row \<Rightarrow> 'n decoded_row" where
  "read_back sd r = (case r of (y, v, t) \<Rightarrow> (y, v, Option.bind t (json_from_str sd)))"

lemma row_concat:
  "\<forall>v \<in> set vs. length v = d \<Longrightarrow> i < length vs \<Longrightarrow> row d (concat vs) i = vs ! i"
proof (induction vs arbitrary: i)
  case (Cons v vs)
  then show ?case by (cases i) (simp_all add: row_def)
qed simp

definition good_row :: "'n serde \<Rightarrow> nat \<Rightarrow> export_row \<Rightarrow> bool" where
  "good_row sd d r \<longleftrightarrow> (case r of (y, v, t) \<Rightarrow> length v = d \<and> (\<forall>s. t = Some s \<longrightarrow> json_from_str sd s \<noteq> None))"

lemma import_exported:
  assumes good: "\<forall>r \<in> set rs. good_row sd d r"
  shows "import_rows sd ar d (exported d rs) ''id'' ''vector'' [''payload''] = Inr (map (read_back sd) rs)"
proof -
  let ?b = "exported d rs"
  have d: "\<forall>(y, v, t) \<in> set rs. length v = d" and t: "\<forall>(y, v, t) \<in> set rs. \<forall>s. t = Some s \<longrightarrow> json_from_str sd s \<noteq> None"
    using good by (auto simp: good_row_def)
  have cols: "payload_indices ?b [''payload''] = Inr [(2, ''payload'')]" "index_of ?b ''vector'' = Inr (Suc 0)"
      "id_column_of ar ?b ''id'' = Inr (id_slots rs)"
      "column_at ?b (Suc 0) = FloatLists (FixedSizeList d) (map (\<lambda>(y, v, t). (True, v)) rs)" "column_at ?b 2 = StringArray (text_slots rs)"
    by (simp_all add: payload_indices_def index_of_def id_column_of_def column_at_def exported_def numeral_2_eq_2)
  have len: "\<forall>v \<in> set (map (\<lambda>(y, v, t). v) rs). length v = d" using d by auto
  have snds: "snd \<circ> (\<lambda>(y, v, t). (True, v)) = (\<lambda>(y, v, t). v)" by auto
  have "(snd (id_slots rs ! i), row d (concat (map (\<lambda>(y, v, t). v) rs)) i, build_payload sd ar ?b [(2, ''payload'')] i) =
      read_back sd (rs ! i)" if i: "i < length rs" for i
  proof -
    obtain y v t where r: "rs ! i = (y, v, t)" by (cases "rs ! i")
    then have mem: "(y, v, t) \<in> set rs" using i nth_mem by metis
    have "build_payload sd ar ?b [(2, ''payload'')] i = Option.bind t (json_from_str sd)"
    proof (cases t)
      case None
      then have "is_null (column_at ?b 2) i" using i r by (simp add: cols text_slots_def)
      then show ?thesis using i r None by (simp add: build_payload_def payload_text_def payload_object_def cols)
    next
      case (Some s)
      then obtain x where "json_from_str sd s = Some x" using t mem by fastforce
      then show ?thesis using i r Some by (simp add: build_payload_def payload_text_def cols text_slots_def)
    qed
    moreover have "row d (concat (map (\<lambda>(y, v, t). v) rs)) i = v" using row_concat [OF len, of i] i r by simp
    ultimately show ?thesis using i r by (simp add: id_slots_def read_back_def)
  qed
  then have "map (\<lambda>i. (snd (id_slots rs ! i), row d (concat (map (\<lambda>(y, v, t). v) rs)) i, build_payload sd ar ?b [(2, ''payload'')] i))
      [0..<length rs] = map (read_back sd) rs"
    by (intro nth_equalityI) simp_all
  moreover have "b_num_rows ?b = length rs" by (simp add: exported_def)
  ultimately show ?thesis by (simp add: import_rows_def cols snds)
qed

section \<open>Rows put into a collection\<close>

lemma insert_batch_contents:
  assumes inv: "col_inv raw_params rt c" and works: "fts_works tv docs" and dims: "\<forall>(y, v, p) \<in> set items. length v = c_dim c"
  shows "\<exists>c'. col_insert_batch rt tv ls c items lsn = (Inr (), c') \<and> col_inv raw_params rt c' \<and> same_place c c' \<and>
    contents c' = foldl delta_spec (contents c) (map upsert_of items)"
proof -
  let ?rs = "map (\<lambda>(y, v, p). (y, v, p, lsn)) items"
  have rs: "\<forall>(y, v, p, n) \<in> set ?rs. length v = c_dim c" using dims by auto
  obtain c' where c': "col_insert_batch_with_lsns rt tv ls c ?rs = (Inr (), c')" "c_meta c' = batch_meta ?rs (c_meta c)"
    using col_insert_batch_works [OF works inv rs] by blast
  have vs: "map (\<lambda>(y, v, _, _). (y, v)) ?rs = map (\<lambda>(y, v, p). (y, v)) items" by (induction items) auto
  have ok: "col_inv raw_params rt c'" "same_place c c'"
      "ix_insert_batch rt ls (c_index c) (map (\<lambda>(y, v, p). (y, v)) items) = (Inr (), c_index c')"
    using col_inv_batch [OF inv c'(1)] rs unfolding vs by auto
  have "any_inv raw_params rt (c_index c)" "\<forall>(y, v) \<in> set (map (\<lambda>(y, v, p). (y, v)) items). length v = ix_dim (c_index c)"
    using inv dims by (auto simp: col_inv_def)
  then have "ix_get (c_index c') = ix_get (c_index c) ++ map_of (rev (map (\<lambda>(y, v, p). (y, v)) items))"
    using any_raw.batch_get ok(3) by blast
  moreover have "batch_meta ?rs m = foldl (\<lambda>m (y, v, p). payload_upd y p m) m items" for m
    by (induction items arbitrary: m) (auto simp: batch_meta_def)
  ultimately show ?thesis using c' ok(1,2) by (simp add: col_insert_batch_def contents_def foldl_upserts)
qed

lemma import_batches_contents:
  assumes "hm_get mgr name = Some c" "col_inv raw_params rt c" and works: "fts_works tv docs"
    and good: "\<forall>r \<in> set (concat rss). good_row sd (c_dim c) r"
  shows "\<exists>mgr' c'. import_batches rt tv ls name (\<lambda>b. import_rows sd ar (c_dim c) b ''id'' ''vector'' [''payload'']) n
      (map (\<lambda>rs. Inr (exported (c_dim c) rs)) rss) mgr = (Inr (n + length (concat rss)), mgr') \<and>
    hm_get mgr' = (hm_get mgr)(name \<mapsto> c') \<and> col_inv raw_params rt c' \<and> same_place c c' \<and>
    contents c' = foldl delta_spec (contents c) (map (\<lambda>r. upsert_of (read_back sd r)) (concat rss))"
  using assms(1,2) good
proof (induction rss arbitrary: mgr c n)
  case Nil
  then show ?case by (intro exI [of _ mgr] exI [of _ c]) (simp add: fun_upd_idem)
next
  case (Cons rs rss)
  have g: "\<forall>r \<in> set rs. good_row sd (c_dim c) r" using Cons.prems(3) by simp
  note dec = import_exported [OF g, of ar]
  have "\<forall>(y, v, p) \<in> set (map (read_back sd) rs). length v = c_dim c" using g by (auto simp: read_back_def good_row_def)
  then obtain c1 where c1: "col_insert_batch rt tv (ls (length rss)) c (map (read_back sd) rs) out_of_band_lsn = (Inr (), c1)"
      "col_inv raw_params rt c1" "same_place c c1" "contents c1 = foldl delta_spec (contents c) (map upsert_of (map (read_back sd) rs))"
    using insert_batch_contents [OF Cons.prems(2) works] by blast
  let ?mgr = "hm_insert name c1 mgr"
  have get: "hm_get ?mgr name = Some c1" by (simp add: hm_get_insert)
  have dim: "c_dim c1 = c_dim c" using c1(3) by (simp add: same_place_def)
  obtain mgr' c' where rec: "import_batches rt tv ls name (\<lambda>b. import_rows sd ar (c_dim c1) b ''id'' ''vector'' [''payload'']) (n + length rs)
        (map (\<lambda>rs. Inr (exported (c_dim c1) rs)) rss) ?mgr = (Inr (n + length rs + length (concat rss)), mgr')"
      "hm_get mgr' = (hm_get ?mgr)(name \<mapsto> c')" "col_inv raw_params rt c'" "same_place c1 c'"
      "contents c' = foldl delta_spec (contents c1) (map (\<lambda>r. upsert_of (read_back sd r)) (concat rss))"
    using Cons.IH [OF get c1(2), of "n + length rs"] Cons.prems(3) dim by (auto simp del: fun_upd_apply)
  have step: "on_collection mgr name (\<lambda>c. col_insert_batch rt tv (ls (length rss)) c (map (read_back sd) rs) out_of_band_lsn) = (Inr (), ?mgr)"
    using Cons.prems(1) c1(1) by (simp add: on_collection_def)
  have "b_num_rows (exported (c_dim c) rs) = length rs" by (simp add: exported_def)
  then have "import_batches rt tv ls name (\<lambda>b. import_rows sd ar (c_dim c) b ''id'' ''vector'' [''payload'']) n
      (map (\<lambda>rs. Inr (exported (c_dim c) rs)) (rs # rss)) mgr = (Inr (n + length (concat (rs # rss))), mgr')"
    using Cons.prems(1) dec step rec(1) dim by simp
  moreover have "hm_get mgr' = (hm_get mgr)(name \<mapsto> c')" by (simp add: rec(2) hm_get_insert del: fun_upd_apply)
  ultimately show ?case using rec(3-5) c1(3,4) same_place_trans by (fastforce simp: comp_def)
qed

section \<open>Out and in again\<close>

lemma foldl_payloads:
  "foldl (\<lambda>m (y, v, p). payload_upd y p m) m (map (\<lambda>y. (y, f y, g y)) ys) = m ++ (g |` set ys)"
proof (induction ys arbitrary: m)
  case (Cons y ys)
  have "payload_upd y (g y) m ++ (g |` set ys) = m ++ (g |` set (y # ys))"
    by (auto simp: payload_upd_def map_add_def restrict_map_def fun_eq_iff split: option.split)
  then show ?case by (simp add: Cons.IH)
qed simp

lemma exported_rows:
  assumes "set ys \<subseteq> dom (ix_get (c_index c))"
  shows "export_rows sd c ys = map (\<lambda>y. (y, the (ix_get (c_index c) y), map_option (json_to_string sd) (c_meta c y))) ys"
  using assms by (induction ys) (auto simp: export_rows_def map_filter_simps col_get_def meta_get_def)

lemma export_batch_ok:
  assumes "parquet_ok pq d" "\<forall>r \<in> set rs. good_row sd d r"
  shows "export_batch pq d rs = Inr (exported d rs)"
proof -
  have "\<forall>v \<in> set (map (\<lambda>(y, v, t). v) rs). length v = d" using assms(2) by (auto simp: good_row_def)
  moreover have "map (Pair True) (map (\<lambda>(y, v, t). v) rs) = map (\<lambda>(y, v, t). (True, v)) rs" by auto
  ultimately have "pq_fixed_lists pq (of_nat d) (concat (map (\<lambda>(y, v, t). v) rs)) =
      Some (FloatLists (FixedSizeList d) (map (\<lambda>(y, v, t). (True, v)) rs))"
    using assms(1) unfolding parquet_ok_def by metis
  then show ?thesis using assms(1) by (simp add: export_batch_def parquet_ok_def exported_def)
qed

text \<open>The rows of a whole collection, and what they are when they come back.\<close>

definition export_list :: "rt \<Rightarrow> 'n serde \<Rightarrow> ('n, 't) collection \<Rightarrow> export_row list" where
  "export_list rt sd c = map (\<lambda>y. (y, the (ix_get (c_index c) y), map_option (json_to_string sd) (c_meta c y))) (col_list_ids rt c)"

lemma export_list_good:
  assumes "col_inv P rt c" "\<forall>p \<in> ran (c_meta c). json_from_str sd (json_to_string sd p) = Some p"
  shows "length (export_list rt sd c) = col_len c \<and> (\<forall>r \<in> set (export_list rt sd c). good_row sd (c_dim c) r)"
  using assms any.list_ids_ok [of P rt "c_index c"] any.len_list_ids [of P rt "c_index c"] any.get_dim [of P rt "c_index c"]
  by (auto simp: export_list_def good_row_def ran_def col_list_ids_def col_len_def col_inv_def)

lemma export_collection_ok:
  assumes inv: "col_inv P rt c" and pq: "parquet_ok pq (c_dim c)"
    and texts: "\<forall>p \<in> ran (c_meta c). json_from_str sd (json_to_string sd p) = Some p"
  shows "\<exists>f rss. export_collection rt sd pq c = Inr f \<and> concat rss = export_list rt sd c \<and>
    pq_open pq f = Some (export_schema (c_dim c), map (\<lambda>rs. Inr (exported (c_dim c) rs)) rss)"
proof -
  let ?ids = "col_list_ids rt c" and ?row = "\<lambda>y. (y, the (ix_get (c_index c) y), map_option (json_to_string sd) (c_meta c y))"
  let ?chunks = "chunks ROW_GROUP_SIZE ?ids"
  have size: "0 < ROW_GROUP_SIZE" by (simp add: ROW_GROUP_SIZE_def)
  have ids: "set ?ids = dom (ix_get (c_index c))"
    using any.list_ids_ok [of P rt "c_index c"] inv by (simp add: col_list_ids_def col_inv_def)
  have parts: "export_rows sd c ys = map ?row ys \<and> set ys \<subseteq> set ?ids" if "ys \<in> set ?chunks" for ys
    using that arg_cong [OF concat_chunks [OF size, of ?ids], of set] exported_rows [of ys c sd] ids by auto
  then have rows_of: "map (export_rows sd c) ?chunks = map (map ?row) ?chunks" by simp
  have all: "concat (map (map ?row) ?chunks) = export_list rt sd c"
    by (simp only: export_list_def concat_chunks [OF size] flip: map_concat)
  have "good_row sd (c_dim c) r" if "ys \<in> set ?chunks" "r \<in> set (map ?row ys)" for ys r
  proof -
    have "r \<in> set (export_list rt sd c)" using that parts by (auto simp: export_list_def)
    then show ?thesis using export_list_good [OF inv texts] by blast
  qed
  then have "export_batch pq (c_dim c) (map ?row ys) = Inr (exported (c_dim c) (map ?row ys))" if "ys \<in> set ?chunks" for ys
    using that by (intro export_batch_ok [OF pq, of _ sd]) blast
  then have "traverse (\<lambda>ys. export_batch pq (c_dim c) (export_rows sd c ys)) ?chunks =
      Inr (map (\<lambda>ys. exported (c_dim c) (map ?row ys)) ?chunks)"
    using parts by (intro traverse_map_Inr) simp
  moreover obtain f rss where "pq_write pq (c_dim c) (map (exported (c_dim c)) (map (map ?row) ?chunks)) = Some f"
      "concat rss = concat (map (map ?row) ?chunks)"
      "pq_open pq f = Some (export_schema (c_dim c), map (\<lambda>rs. Inr (exported (c_dim c) rs)) rss)"
    using pq unfolding parquet_ok_def by meson
  ultimately show ?thesis using pq all by (auto simp: export_collection_def parquet_ok_def comp_def)
qed

lemma upsert_export_list:
  assumes inv: "col_inv P rt c" and texts: "\<forall>p \<in> ran (c_meta c). json_from_str sd (json_to_string sd p) = Some p"
  shows "foldl delta_spec (contents c2) (map (\<lambda>r. upsert_of (read_back sd r)) (export_list rt sd c)) =
    (ix_get (c_index c2) ++ ix_get (c_index c), c_meta c2 ++ c_meta c)"
proof -
  let ?ids = "col_list_ids rt c" and ?get = "ix_get (c_index c)"
  have ids: "set ?ids = dom ?get" "dom (c_meta c) \<subseteq> dom ?get"
    using any.list_ids_ok [of P rt "c_index c"] inv by (simp_all add: col_list_ids_def col_inv_def)
  have "map (read_back sd) (export_list rt sd c) = map (\<lambda>y. (y, the (?get y), c_meta c y)) ?ids"
  proof -
    have "Option.bind (map_option (json_to_string sd) (c_meta c y)) (json_from_str sd) = c_meta c y" for y
      using texts by (cases "c_meta c y") (auto simp: ran_def)
    then show ?thesis by (simp add: export_list_def read_back_def)
  qed
  then have "map (\<lambda>r. upsert_of (read_back sd r)) (export_list rt sd c) = map upsert_of (map (\<lambda>y. (y, the (?get y), c_meta c y)) ?ids)"
    by (simp only: flip: map_map comp_def [of upsert_of "read_back sd"])
  moreover have "map_of (rev (map (\<lambda>y. (y, the (?get y))) ?ids)) = ?get"
    using ids(1) by (auto simp: rev_map map_of_map_restrict restrict_map_def fun_eq_iff domIff)
  moreover have "c_meta c |` set ?ids = c_meta c"
  proof
    fix y
    show "(c_meta c |` set ?ids) y = c_meta c y" using ids by (cases "c_meta c y") (auto simp: restrict_map_def)
  qed
  moreover have "foldl delta_spec (contents c2) (map upsert_of (map (\<lambda>y. (y, the (?get y), c_meta c y)) ?ids)) =
      (ix_get (c_index c2) ++ map_of (rev (map (\<lambda>y. (y, the (?get y))) ?ids)), c_meta c2 ++ (c_meta c |` set ?ids))"
    unfolding contents_def foldl_upserts foldl_payloads by (simp add: comp_def)
  ultimately show ?thesis by (simp only:)
qed


text \<open>A format that keeps the batches as they are, and a collection of one vector with a payload.\<close>

definition tiny_parquet :: "(nat \<times> record_batch list) parquet_lib" where
  "tiny_parquet = \<lparr>pq_fixed_lists = \<lambda>d floats. Some (FloatLists (FixedSizeList (unat d)) (map (Pair True) (rows (unat d) floats))),
     pq_batch = \<lambda>cols. Some \<lparr>b_columns = cols, b_num_rows = (case cols of (_, UInt64Array xs) # _ \<Rightarrow> length xs | _ \<Rightarrow> 0)\<rparr>,
     pq_create = True, pq_write = \<lambda>d bs. Some (d, bs), pq_open = \<lambda>(d, bs). Some (export_schema d, map Inr bs)\<rparr>"

lemma rows_concat: "\<forall>v \<in> set vs. length v = d \<Longrightarrow> 0 < d \<Longrightarrow> rows d (concat vs) = vs"
proof -
  assume a: "\<forall>v \<in> set vs. length v = d" "0 < d"
  have "length (concat vs) = length vs * d" using a(1) by (induction vs) auto
  then have "rows d (concat vs) = map (row d (concat vs)) [0..<length vs]" by (rule rows_eq [OF a(2)])
  also have "\<dots> = vs" using row_concat [OF a(1)] by (intro nth_equalityI) simp_all
  finally show ?thesis .
qed

lemma tiny_parquet_ok: "0 < d \<Longrightarrow> d < 2 ^ 32 \<Longrightarrow> parquet_ok tiny_parquet d"
  by (auto simp: parquet_ok_def tiny_parquet_def rows_concat exported_def id_slots_def unat_of_nat take_bit_nat_eq_self)

definition parquet_example :: "(f64, (vecid \<times> string) list) collection" where
  "parquet_example = snd (col_insert plain_rt list_engine 0 (collection_new ''docs'' 1 L2) 7 [0] (Some JNull) 0)"

lemma parquet_example_ok:
  "col_inv raw_params plain_rt parquet_example \<and> c_dim parquet_example = 1 \<and>
    contents parquet_example = ([7 \<mapsto> [0]], [7 \<mapsto> JNull])"
proof -
  let ?c = "collection_new ''docs'' 1 L2 :: (f64, (vecid \<times> string) list) collection"
  have inv: "col_inv raw_params plain_rt ?c" "contents ?c = (Map.empty, Map.empty)"
    using plain_rt_ok flat_new_ok [of 1 L2]
    by (simp_all add: collection_new_def collection_with_index_def col_inv_def any_inv_def flat_inv_def ix_dim_def meta_defs
      contents_def ix_get_def flat_new_def)
  obtain r c' where r: "apply_delta_row plain_rt list_engine 0 ?c (DUpsert 7 [0] (Some JNull)) 0 = (r, c')"
    by (cases "apply_delta_row plain_rt list_engine 0 ?c (DUpsert 7 [0] (Some JNull)) 0")
  then have c': "c' = parquet_example" by (simp add: parquet_example_def apply_delta_row_def)
  obtain c1 where "col_insert plain_rt list_engine 0 ?c 7 [0] (Some JNull) 0 = (Inr (), c1)"
    using col_insert_works [OF list_engine_works inv(1), of "[0]" 0 7 "Some JNull" 0]
    by (auto simp: collection_new_def collection_with_index_def)
  then have "r = Inr ()" using r by (simp add: apply_delta_row_def)
  then show ?thesis using apply_delta_row_spec [OF inv(1) r] c' inv(2)
    by (simp add: same_place_def collection_new_def collection_with_index_def payload_upd_def)
qed


end
