(* ===== verification/Server.thy ===== *)
theory Server
  imports Query Parquet
begin

text \<open>
  The HTTP server (\<open>likhadb-server\<close>): bearer tokens (\<open>auth.rs\<close>), statuses (\<open>error.rs\<close>), request types (\<open>types.rs\<close>),
  paths of Parquet files and the handlers (\<open>routes.rs\<close>). A handler takes the state behind the lock and gives the answer and
  the state after it. Decoding of bodies, routing by path, metrics and log lines are left out.
\<close>

section \<open>Tokens\<close>

type_synonym api_token = "string option"

definition api_token_new :: "string option \<Rightarrow> api_token" where
  "api_token_new token = (case token of Some s \<Rightarrow> if s \<noteq> [] then Some s else None | None \<Rightarrow> None)"

definition is_enabled :: "api_token \<Rightarrow> bool" where
  "is_enabled token \<longleftrightarrow> token \<noteq> None"

definition as_bytes :: "string \<Rightarrow> u8 list" where
  "as_bytes s = map (\<lambda>c. of_nat (of_char c)) s"

definition constant_time_eq :: "u8 list \<Rightarrow> u8 list \<Rightarrow> bool" where
  "constant_time_eq a b =
     (if length a \<noteq> length b then False
      else foldl (\<lambda>acc (x, y). or acc (xor x y)) 0 (zip a b) = 0)"

definition verify :: "api_token \<Rightarrow> string \<Rightarrow> bool" where
  "verify token presented = (case token of
       None \<Rightarrow> True
     | Some expected \<Rightarrow> constant_time_eq (as_bytes expected) (as_bytes presented))"

definition strip_prefix :: "string \<Rightarrow> string \<Rightarrow> string option" where
  "strip_prefix p s = (if take (length p) s = p then Some (drop (length p) s) else None)"

definition extract_bearer :: "string option \<Rightarrow> string option" where
  "extract_bearer raw = Option.bind raw (strip_prefix ''Bearer '')"

text \<open>The decision of \<open>require_bearer\<close> and of \<open>grpc_interceptor\<close>, which only differ in how they say no.\<close>

definition admitted :: "api_token \<Rightarrow> string option \<Rightarrow> bool" where
  "admitted token header \<longleftrightarrow>
     (if \<not> is_enabled token then True
      else case extract_bearer header of
          Some t \<Rightarrow> verify token t
        | None \<Rightarrow> False)"

section \<open>Errors\<close>

text \<open>\<open>HandlerPanic\<close> is no value of the source: the task of the request dies.\<close>

datatype api_error = NotFound | Conflict | BadRequest | Forbidden | Internal | HandlerPanic

fun status_of :: "api_error \<Rightarrow> nat option" where
  "status_of NotFound = Some 404"
| "status_of Conflict = Some 409"
| "status_of BadRequest = Some 400"
| "status_of Forbidden = Some 403"
| "status_of Internal = Some 500"
| "status_of HandlerPanic = None"

fun api_of_db :: "db_error \<Rightarrow> api_error" where
  "api_of_db (CollectionNotFound n) = NotFound"
| "api_of_db (VectorNotFound y) = NotFound"
| "api_of_db (CollectionAlreadyExists n) = Conflict"
| "api_of_db (DimMismatch a b) = BadRequest"
| "api_of_db InvalidArgument = BadRequest"
| "api_of_db FtsError = Internal"
| "api_of_db Panicked = HandlerPanic"

fun api_of_persist :: "persist_error \<Rightarrow> api_error" where
  "api_of_persist (Apply e) = api_of_db e"
| "api_of_persist _ = Internal"

fun api_of_lakehouse :: "lakehouse_error \<Rightarrow> api_error" where
  "api_of_lakehouse (LkCollectionNotFound n) = NotFound"
| "api_of_lakehouse (LkDimMismatch a b) = BadRequest"
| "api_of_lakehouse (LkTypeMismatch c) = BadRequest"
| "api_of_lakehouse LkSchema = BadRequest"
| "api_of_lakehouse (LkColumnNotFound c) = BadRequest"
| "api_of_lakehouse _ = Internal"

section \<open>Requests\<close>

definition MAX_K :: nat where "MAX_K = 1024"

definition validate_k :: "nat \<Rightarrow> api_error + nat" where
  "validate_k k = (if k = 0 then Inl BadRequest else if MAX_K < k then Inl BadRequest else Inr k)"

definition ascii_lower :: "char \<Rightarrow> char" where
  "ascii_lower c = (let n = of_char c :: nat in if 65 \<le> n \<and> n \<le> 90 then char_of (n + 32) else c)"

definition parse_metric :: "string \<Rightarrow> api_error + metric" where
  "parse_metric s = (let t = map ascii_lower s
     in if t = ''l2'' then Inr L2 else if t = ''cosine'' then Inr Cosine else if t = ''dot'' then Inr Dot else Inl BadRequest)"

fun metric_str :: "metric \<Rightarrow> string" where
  "metric_str L2 = ''l2''"
| "metric_str Cosine = ''cosine''"
| "metric_str Dot = ''dot''"

datatype index_config = CfgFlat | CfgIvf nat nat | CfgIvfSq8 nat nat | CfgHnsw nat nat nat

record create_request =
  cq_name :: string
  cq_dim :: nat
  cq_metric :: string
  cq_index :: index_config
  cq_enable_fts :: bool
  cq_source_binding :: "source_binding option"

record 'n insert_request =
  iq_id :: vecid
  iq_vector :: vec
  iq_payload :: "'n json option"

record 'n query_request =
  qq_vector :: vec
  qq_k :: nat
  qq_filter :: "'n json option"
  qq_include_payload :: bool
  qq_allowed_teams :: "string list"
  qq_query_text :: "string option"

record 'n hybrid_request =
  hq_vector :: vec
  hq_text :: string
  hq_k :: nat
  hq_rrf_k :: u32
  hq_filter :: "'n json option"
  hq_include_payload :: bool
  hq_allowed_teams :: "string list"

record import_request =
  mq_path :: string
  mq_id_col :: string
  mq_vector_col :: string
  mq_payload_cols :: "string list"

record collection_info =
  ci_name :: string
  ci_dim :: nat
  ci_metric :: string
  ci_count :: nat
  ci_index_type :: string

section \<open>Paths\<close>

text \<open>\<open>std::path::Path\<close> as the list of its components. A dot counts only at the start of a relative path.\<close>

datatype component = RootDir | CurDir | ParentDir | Normal string

fun split_slash :: "string \<Rightarrow> string list" where
  "split_slash [] = [[]]"
| "split_slash (c # cs) = (if c = CHR ''/'' then [] # split_slash cs else (c # hd (split_slash cs)) # tl (split_slash cs))"

definition component_of :: "nat \<times> string \<Rightarrow> component list" where
  "component_of p = (case p of (i, t) \<Rightarrow>
     if t = [] then [] else if t = ''.'' then (if i = 0 then [CurDir] else []) else if t = ''..'' then [ParentDir] else [Normal t])"

definition components :: "string \<Rightarrow> component list" where
  "components s = (if s \<noteq> [] \<and> hd s = CHR ''/'' then [RootDir] else []) @ concat (map component_of (enumerate 0 (split_slash s)))"

definition join_path :: "component list \<Rightarrow> string \<Rightarrow> component list" where
  "join_path base s = (case components s of
       RootDir # cs \<Rightarrow> RootDir # cs
     | CurDir # cs \<Rightarrow> base @ cs
     | cs \<Rightarrow> base @ cs)"

definition parent :: "component list \<Rightarrow> component list option" where
  "parent p = (if p = [] \<or> last p = RootDir then None else Some (butlast p))"

definition file_name :: "component list \<Rightarrow> string option" where
  "file_name p = (if p = [] then None else case last p of Normal t \<Rightarrow> Some t | _ \<Rightarrow> None)"

definition starts_with :: "component list \<Rightarrow> component list \<Rightarrow> bool" where
  "starts_with p base \<longleftrightarrow> take (length base) p = base"

text \<open>\<open>root\<close> is the environment variable and \<open>canonicalize\<close> the operating system's resolution of a path.\<close>

definition resolve_under_root ::
  "string option \<Rightarrow> (component list \<Rightarrow> component list option) \<Rightarrow> string \<Rightarrow> bool \<Rightarrow> api_error + component list"
where
  "resolve_under_root root canonicalize requested must_exist = (case root of
       None \<Rightarrow> Inl Forbidden
     | Some r \<Rightarrow> (case canonicalize (components r) of
         None \<Rightarrow> Inl Internal
       | Some base \<Rightarrow>
           let joined = join_path base requested
           in and_next
                (if must_exist then ok_or Forbidden (canonicalize joined)
                 else and_next (ok_or BadRequest (parent joined)) (\<lambda>dir.
                      and_next (ok_or BadRequest (file_name joined)) (\<lambda>name.
                        ok_or Forbidden (map_option (\<lambda>p. p @ [Normal name]) (canonicalize dir)))))
                (\<lambda>resolved. if \<not> starts_with resolved base then Inl Forbidden else Inr resolved)))"

section \<open>Handlers\<close>

text \<open>
  What a request reaches outside: the outcome of its system calls, the files, and the attached query pipeline, if any.
\<close>

record ('n, 't, 'f) server_env =
  sv_wal :: "('n, 't) wal_env"
  sv_io :: "nat \<Rightarrow> io \<times> ck_io"
  sv_level :: nat
  sv_num :: "'n \<Rightarrow> f64 option"
  sv_serde :: "'n serde"
  sv_arrow :: "'n arrow_lib"
  sv_parquet :: "'f parquet_lib"
  sv_parquet_root :: "string option"
  sv_canonicalize :: "component list \<Rightarrow> component list option"
  sv_read_file :: "component list \<Rightarrow> 'f option"
  sv_import_io :: "nat \<Rightarrow> nat \<Rightarrow> io \<times> ck_io"
  sv_import_levels :: "nat \<Rightarrow> nat \<Rightarrow> nat"
  sv_pipeline :: "(pipeline_request \<Rightarrow> (query_error + pipeline_result list) option) option"

text \<open>\<open>Exported\<close> is the empty answer, with the file that was written.\<close>

datatype ('n, 'f) response =
    Healthy
  | MetricsPage
  | Collections "string list"
  | Created
  | Info collection_info
  | NoContent
  | Stored vecid vec "'n json option"
  | Hits "'n json scored_result list"
  | Ranked "pipeline_result list"
  | Imported nat
  | Exported "component list" 'f

definition list_collections :: "('n, 't) wal_manager \<Rightarrow> ('n, 'f) response" where
  "list_collections wm = Collections (wal_list wm)"

definition create_index ::
  "('n, 't) wal_env \<Rightarrow> io \<Rightarrow> ck_io \<Rightarrow> ('n, 't) wal_manager \<Rightarrow> string \<Rightarrow> nat \<Rightarrow> metric \<Rightarrow> index_config \<Rightarrow>
     (persist_error + unit) \<times> ('n, 't) wal_manager"
where
  "create_index env io ck wm name dim m ix = (case ix of
       CfgFlat \<Rightarrow> wal_create_collection env io ck wm name dim m
     | CfgIvf nlist nprobe \<Rightarrow> wal_create_ivf_collection env io ck wm name dim m nlist nprobe
     | CfgIvfSq8 nlist nprobe \<Rightarrow> wal_create_ivf_sq8_collection env io ck wm name dim m nlist nprobe
     | CfgHnsw edges ef_construction ef_search \<Rightarrow> wal_create_hnsw_collection env io ck wm name dim m edges ef_construction ef_search)"

definition create_collection_handler ::
  "('n, 't, 'f) server_env \<Rightarrow> create_request \<Rightarrow> ('n, 't) wal_manager \<Rightarrow> (api_error + ('n, 'f) response) \<times> ('n, 't) wal_manager"
where
  "create_collection_handler sv req wm = (case parse_metric (cq_metric req) of
       Inl e \<Rightarrow> (Inl e, wm)
     | Inr m \<Rightarrow> (case create_index (sv_wal sv) (fst (sv_io sv 0)) (snd (sv_io sv 0)) wm (cq_name req) (cq_dim req) m (cq_index req) of
         (Inl e, wm1) \<Rightarrow> (Inl (api_of_persist e), wm1)
       | (Inr _, wm1) \<Rightarrow>
           (case (if cq_enable_fts req then wal_enable_fts (sv_wal sv) (fst (sv_io sv 1)) (snd (sv_io sv 1)) wm1 (cq_name req)
                  else (Inr (), wm1)) of
              (Inl e, wm2) \<Rightarrow> (Inl (api_of_persist e), wm2)
            | (Inr _, wm2) \<Rightarrow>
                (case cq_source_binding req of
                   None \<Rightarrow> (Inr Created, wm2)
                 | Some b \<Rightarrow>
                     (case wal_set_source_binding (sv_wal sv) (fst (sv_io sv 2)) (snd (sv_io sv 2)) wm2 (cq_name req) b of
                        (Inl e, wm3) \<Rightarrow> (Inl (api_of_persist e), wm3)
                      | (Inr _, wm3) \<Rightarrow> (Inr Created, wm3))))))"

definition get_collection_handler :: "string \<Rightarrow> ('n, 't) wal_manager \<Rightarrow> api_error + ('n, 'f) response" where
  "get_collection_handler name wm = map_sum api_of_db (\<lambda>c. Info \<lparr>ci_name = c_name c, ci_dim = c_dim c, ci_metric = metric_str (c_metric c),
     ci_count = col_len c, ci_index_type = col_index_type c\<rparr>) (wal_get wm name)"

definition drop_collection_handler ::
  "('n, 't, 'f) server_env \<Rightarrow> string \<Rightarrow> ('n, 't) wal_manager \<Rightarrow> (api_error + ('n, 'f) response) \<times> ('n, 't) wal_manager"
where
  "drop_collection_handler sv name wm =
     map_prod (map_sum api_of_persist (\<lambda>_. NoContent)) id (wal_drop_collection (sv_wal sv) (fst (sv_io sv 0)) (snd (sv_io sv 0)) wm name)"

text \<open>After the write the handlers read the collection back for the metrics.\<close>

definition read_back_collection ::
  "string \<Rightarrow> (persist_error + 'a) \<times> ('n, 't) wal_manager \<Rightarrow> (api_error + ('n, 'f) response) \<times> ('n, 't) wal_manager"
where
  "read_back_collection name r = (case r of
       (Inl e, wm) \<Rightarrow> (Inl (api_of_persist e), wm)
     | (Inr _, wm) \<Rightarrow> (map_sum api_of_db (\<lambda>_. NoContent) (wal_get wm name), wm))"

definition insert_vector_handler ::
  "('n, 't, 'f) server_env \<Rightarrow> string \<Rightarrow> 'n insert_request \<Rightarrow> ('n, 't) wal_manager \<Rightarrow>
     (api_error + ('n, 'f) response) \<times> ('n, 't) wal_manager"
where
  "insert_vector_handler sv name req wm = read_back_collection name
     (wal_insert (sv_wal sv) (fst (sv_io sv 0)) (snd (sv_io sv 0)) (sv_level sv) wm name (iq_id req) (iq_vector req) (iq_payload req))"

definition get_vector_handler :: "string \<Rightarrow> vecid \<Rightarrow> ('n, 't) wal_manager \<Rightarrow> api_error + ('n, 'f) response" where
  "get_vector_handler name y wm = (case wal_get wm name of
       Inl e \<Rightarrow> Inl (api_of_db e)
     | Inr c \<Rightarrow> (case col_get c y of
         None \<Rightarrow> Inl NotFound
       | Some (v, p) \<Rightarrow> Inr (Stored y v p)))"

definition delete_vector_handler ::
  "('n, 't, 'f) server_env \<Rightarrow> string \<Rightarrow> vecid \<Rightarrow> ('n, 't) wal_manager \<Rightarrow> (api_error + ('n, 'f) response) \<times> ('n, 't) wal_manager"
where
  "delete_vector_handler sv name y wm = read_back_collection name
     (wal_delete (sv_wal sv) (fst (sv_io sv 0)) (snd (sv_io sv 0)) wm name y)"

text \<open>The hits as candidates of the pipeline.\<close>

definition candidates_of :: "'p scored_result list \<Rightarrow> candidate list" where
  "candidates_of rs = map (\<lambda>(i, r). \<lparr>cd_id = r_id r, cd_ann_distance = r_score r, cd_ann_rank = of_nat i + 1\<rparr>) (enumerate 0 rs)"

definition answer ::
  "('n, 't, 'f) server_env \<Rightarrow> 'n json scored_result list \<Rightarrow> string \<Rightarrow> string list \<Rightarrow> nat \<Rightarrow> api_error + ('n, 'f) response"
where
  "answer sv rs query teams k = (case sv_pipeline sv of
       None \<Rightarrow> Inr (Hits rs)
     | Some run \<Rightarrow>
         (case run \<lparr>pq_candidates = candidates_of rs, pq_query_text = query, pq_allowed_teams = teams, pq_top_k = k\<rparr> of
            None \<Rightarrow> Inl HandlerPanic
          | Some (Inl e) \<Rightarrow> Inl Internal
          | Some (Inr ranked) \<Rightarrow> Inr (Ranked ranked)))"

definition query_vectors ::
  "('n, 't, 'f) server_env \<Rightarrow> string \<Rightarrow> 'n query_request \<Rightarrow> ('n, 't) wal_manager \<Rightarrow> api_error + ('n, 'f) response"
where
  "query_vectors sv name req wm =
     and_next (validate_k (qq_k req)) (\<lambda>k.
     and_next (map_sum api_of_db id (wal_get wm name)) (\<lambda>c.
     and_next (map_sum api_of_db id (col_search (x_rt (sv_wal sv)) (sv_num sv) c (qq_vector req) k (qq_filter req) (qq_include_payload req))) (\<lambda>rs.
       answer sv rs (case qq_query_text req of Some t \<Rightarrow> t | None \<Rightarrow> []) (qq_allowed_teams req) k)))"

definition hybrid_query_vectors ::
  "('n, 't, 'f) server_env \<Rightarrow> string \<Rightarrow> 'n hybrid_request \<Rightarrow> ('n, 't) wal_manager \<Rightarrow> api_error + ('n, 'f) response"
where
  "hybrid_query_vectors sv name req wm =
     and_next (validate_k (hq_k req)) (\<lambda>k.
     and_next (map_sum api_of_db id (wal_get wm name)) (\<lambda>c.
     and_next (map_sum api_of_db id (hybrid_search (x_rt (sv_wal sv)) (x_tv (sv_wal sv)) (sv_num sv) c (hq_vector req) (hq_text req) k
         (hq_rrf_k req) (hq_filter req) (hq_include_payload req))) (\<lambda>rs.
       answer sv rs (hq_text req) (hq_allowed_teams req) k)))"

definition import_parquet_handler ::
  "('n, 't, 'f) server_env \<Rightarrow> string \<Rightarrow> import_request \<Rightarrow> ('n, 't) wal_manager \<Rightarrow>
     (api_error + ('n, 'f) response) \<times> ('n, 't) wal_manager"
where
  "import_parquet_handler sv name req wm = (case resolve_under_root (sv_parquet_root sv) (sv_canonicalize sv) (mq_path req) True of
       Inl e \<Rightarrow> (Inl e, wm)
     | Inr path \<Rightarrow> map_prod (map_sum api_of_lakehouse Imported) id
         (wal_import_parquet (sv_wal sv) (sv_import_io sv) (sv_import_levels sv) (sv_serde sv) (sv_arrow sv) (sv_parquet sv) wm name
           (sv_read_file sv path) (mq_id_col req) (mq_vector_col req) (mq_payload_cols req)))"

definition export_parquet_handler ::
  "('n, 't, 'f) server_env \<Rightarrow> string \<Rightarrow> string \<Rightarrow> ('n, 't) wal_manager \<Rightarrow> api_error + ('n, 'f) response"
where
  "export_parquet_handler sv name requested wm =
     and_next (resolve_under_root (sv_parquet_root sv) (sv_canonicalize sv) requested False) (\<lambda>path.
       map_sum api_of_lakehouse (Exported path) (wal_export_parquet (sv_wal sv) (sv_serde sv) (sv_parquet sv) wm name))"

section \<open>The router\<close>

datatype 'n route =
    Health
  | Metrics
  | ListCollections
  | CreateRoute create_request
  | InfoRoute string
  | DropRoute string
  | InsertRoute string "'n insert_request"
  | GetRoute string vecid
  | DeleteRoute string vecid
  | QueryRoute string "'n query_request"
  | HybridRoute string "'n hybrid_request"
  | ImportRoute string import_request
  | ExportRoute string string

fun handle ::
  "('n, 't, 'f) server_env \<Rightarrow> 'n route \<Rightarrow> ('n, 't) wal_manager \<Rightarrow> (api_error + ('n, 'f) response) \<times> ('n, 't) wal_manager"
where
  "handle sv Health wm = (Inr Healthy, wm)"
| "handle sv Metrics wm = (Inr MetricsPage, wm)"
| "handle sv ListCollections wm = (Inr (list_collections wm), wm)"
| "handle sv (CreateRoute req) wm = create_collection_handler sv req wm"
| "handle sv (InfoRoute name) wm = (get_collection_handler name wm, wm)"
| "handle sv (DropRoute name) wm = drop_collection_handler sv name wm"
| "handle sv (InsertRoute name req) wm = insert_vector_handler sv name req wm"
| "handle sv (GetRoute name y) wm = (get_vector_handler name y wm, wm)"
| "handle sv (DeleteRoute name y) wm = delete_vector_handler sv name y wm"
| "handle sv (QueryRoute name req) wm = (query_vectors sv name req wm, wm)"
| "handle sv (HybridRoute name req) wm = (hybrid_query_vectors sv name req wm, wm)"
| "handle sv (ImportRoute name req) wm = import_parquet_handler sv name req wm"
| "handle sv (ExportRoute name path) wm = (export_parquet_handler sv name path wm, wm)"

text \<open>\<open>None\<close>: status 401. Only \<open>Health\<close> is outside the layer of \<open>require_bearer\<close>.\<close>

definition require_bearer ::
  "api_token \<Rightarrow> string option \<Rightarrow> ('n, 't, 'f) server_env \<Rightarrow> 'n route \<Rightarrow> ('n, 't) wal_manager \<Rightarrow>
     (api_error + ('n, 'f) response) option \<times> ('n, 't) wal_manager"
where
  "require_bearer token header sv req wm = (if admitted token header then map_prod Some id (handle sv req wm) else (None, wm))"

definition router ::
  "api_token \<Rightarrow> string option \<Rightarrow> ('n, 't, 'f) server_env \<Rightarrow> 'n route \<Rightarrow> ('n, 't) wal_manager \<Rightarrow>
     (api_error + ('n, 'f) response) option \<times> ('n, 't) wal_manager"
where
  "router token header sv req wm =
     (if req = Health then map_prod Some id (handle sv req wm) else require_bearer token header sv req wm)"

end
