(* ===== verification/Durability.thy ===== *)
theory Durability
  imports Wal
begin

text \<open>
  What the log guarantees. \<open>wal_inv\<close> ties the manager to its files: loading the snapshot and replaying the
  entries above it gives the abstract state of the collections in memory. Every logged operation and every
  checkpoint keeps it, whatever step of the checkpoint fails, and opening the directory restores it.
\<close>

section \<open>The libraries\<close>

definition env_ok :: "('n, 't) wal_env \<Rightarrow> ('t \<Rightarrow> vecid \<Rightarrow> string option) \<Rightarrow> bool" where
  "env_ok env docs \<longleftrightarrow> rt_ok (x_rt env) \<and> fts_works (x_tv env) docs \<and> libs_ok (x_lib env) (x_bin env) \<and>
     (\<forall>s b. x_snap_write env s = Some b \<longrightarrow> x_snap_read env b = Some s) \<and>
     (\<forall>ns. mset (x_order env ns) = mset ns)"

abbreviation mgr_good :: "('n, 't) wal_env \<Rightarrow> ('n, 't) manager \<Rightarrow> bool" where
  "mgr_good env mgr \<equiv> mgr_inv any_params (x_rt env) mgr"

abbreviation spec_ops :: "'n wal_op list \<Rightarrow> 'n astate \<Rightarrow> 'n astate" where
  "spec_ops os a \<equiv> foldl (\<lambda>a opn. spec_op opn a) a os"

section \<open>Replay\<close>

lemma replay_entries_spec:
  assumes env: "env_ok env docs" and inv: "mgr_good env (rp_mgr rp)"
    and ex: "\<forall>e \<in> set es. snap < e_lsn e \<longrightarrow> op_exact (e_op e)"
    and small: "unat (rp_entries rp) + length es < 2 ^ 64" "unat (rp_since rp) + length es < 2 ^ 64"
      "unat (rr_replayed (rp_report rp)) + length es < 2 ^ 64"
  shows "\<exists>rp'. replay_entries env ls snap dir rp es = Inr rp' \<and> mgr_good env (rp_mgr rp') \<and>
    abs_mgr (rp_mgr rp') = spec_ops (map e_op (filter (\<lambda>e. snap < e_lsn e) es)) (abs_mgr (rp_mgr rp)) \<and>
    rp_last_lsn rp' = last (rp_last_lsn rp # map e_lsn (filter (\<lambda>e. snap < e_lsn e) es)) \<and>
    unat (rp_entries rp') = unat (rp_entries rp) + length es \<and>
    unat (rp_since rp') = unat (rp_since rp) + length (filter (\<lambda>e. snap < e_lsn e) es) \<and>
    unat (rr_replayed (rp_report rp')) + length (rr_skipped (rp_report rp')) =
      unat (rr_replayed (rp_report rp)) + length (rr_skipped (rp_report rp)) +
      length (filter (\<lambda>e. snap < e_lsn e) es)"
  using inv ex small
proof (induction es arbitrary: rp)
  case (Cons e es)
  let ?rp1 = "rp\<lparr>rp_entries := sat_add (rp_entries rp) 1\<rparr>"
  have en: "unat (sat_add (rp_entries rp) 1) = unat (rp_entries rp) + 1"
    using sat_add_nat [of "rp_entries rp" 1] Cons.prems(3) by simp
  show ?case
  proof (cases "e_lsn e \<le> snap")
    case True
    then show ?thesis using Cons.IH [of ?rp1] Cons.prems en by (simp add: not_less [symmetric])
  next
    case False
    then have newer: "snap < e_lsn e" by simp
    obtain r mgr where app: "apply_op (x_rt env) (x_tv env) (ls (length es)) (rp_mgr rp) (e_op e) (e_lsn e) (Some dir) = (r, mgr)"
      by (cases "apply_op (x_rt env) (x_tv env) (ls (length es)) (rp_mgr rp) (e_op e) (e_lsn e) (Some dir)")
    have step: "mgr_good env mgr" "abs_mgr mgr = spec_op (e_op e) (abs_mgr (rp_mgr rp))" "r = Inr () \<or> (\<exists>x. r = Inl (Apply x))"
      using apply_op_refines [OF Cons.prems(1) _ _ _ app] env Cons.prems(2) newer by (auto simp: env_ok_def)
    have si: "unat (sat_add (rp_since rp) 1) = unat (rp_since rp) + 1"
      "unat (sat_add (rr_replayed (rp_report rp)) 1) = unat (rr_replayed (rp_report rp)) + 1"
      using sat_add_nat [of "rp_since rp" 1] sat_add_nat [of "rr_replayed (rp_report rp)" 1] Cons.prems(4,5) by simp_all
    define rep where "rep = (case r of Inr _ \<Rightarrow> (rp_report rp)\<lparr>rr_replayed := sat_add (rr_replayed (rp_report rp)) 1\<rparr>
      | Inl x \<Rightarrow> (rp_report rp)\<lparr>rr_skipped := rr_skipped (rp_report rp) @ [\<lparr>sk_lsn = e_lsn e, sk_error = x\<rparr>]\<rparr>)"
    define rp2 where "rp2 = ?rp1\<lparr>rp_mgr := mgr, rp_last_lsn := e_lsn e, rp_since := sat_add (rp_since rp) 1, rp_report := rep\<rparr>"
    have run: "replay_entries env ls snap dir rp (e # es) = replay_entries env ls snap dir rp2 es"
      using step(3) False app by (auto simp: rp2_def rep_def)
    have rep: "unat (rr_replayed rep) + length (rr_skipped rep) =
        unat (rr_replayed (rp_report rp)) + length (rr_skipped (rp_report rp)) + 1"
      "unat (rr_replayed rep) \<le> unat (rr_replayed (rp_report rp)) + 1"
      using step(3) si(2) by (auto simp: rep_def)
    have fields: "rp_mgr rp2 = mgr" "rp_last_lsn rp2 = e_lsn e" "rp_entries rp2 = sat_add (rp_entries rp) 1"
      "rp_since rp2 = sat_add (rp_since rp) 1" "rp_report rp2 = rep" by (simp_all add: rp2_def)
    have "unat (rr_replayed rep) + length es < 2 ^ 64" using rep(2) Cons.prems(5) by simp
    then show ?thesis
      using Cons.IH [of rp2] Cons.prems(2-4) step(1,2) en si newer rep(1)
      by (auto simp: run fields simp del: replay_entries.simps)
  qed
qed simp

section \<open>What the files hold\<close>

text \<open>
  The entries of the log that the snapshot covers (\<open>old\<close>, left over when a checkpoint stopped before clearing
  the log) come first, then those above it, numbered without a gap.
\<close>

definition snapshot_of :: "('n, 't) wal_env \<Rightarrow> string \<Rightarrow> bytes option \<Rightarrow> u64 \<Rightarrow> 'n astate \<Rightarrow> bool" where
  "snapshot_of env dir path snap base \<longleftrightarrow>
     (\<exists>m. load_snapshot env dir path = Inr (m, snap) \<and> mgr_good env m \<and> abs_mgr m = base)"

definition disk_holds :: "('n, 't) wal_env \<Rightarrow> disk \<Rightarrow> 'n wal_entry list \<Rightarrow> bool" where
  "disk_holds env d es \<longleftrightarrow> (case d_wal d of None \<Rightarrow> es = []
     | Some bs \<Rightarrow> open_reader (x_lib env) (x_bin env) None bs = Inr (es, None))"

definition numbered :: "u64 \<Rightarrow> 'n wal_entry list \<Rightarrow> bool" where
  "numbered snap es \<longleftrightarrow> (\<forall>i < length es. unat (e_lsn (es ! i)) = unat snap + 1 + i) \<and>
     unat snap + length es + 1 < 2 ^ 64"

definition disk_inv ::
  "('n, 't) wal_env \<Rightarrow> string \<Rightarrow> disk \<Rightarrow> u64 \<Rightarrow> 'n astate \<Rightarrow> 'n wal_entry list \<Rightarrow> 'n wal_entry list \<Rightarrow> bool"
where
  "disk_inv env dir d snap base old es \<longleftrightarrow> snapshot_of env dir (d_snapshot d) snap base \<and>
     disk_holds env d (old @ es) \<and> (\<forall>e \<in> set old. e_lsn e \<le> snap) \<and> length old \<le> unat snap \<and> numbered snap es \<and>
     (\<forall>e \<in> set es. op_exact (e_op e))"

lemma numbered_above: "numbered snap es \<Longrightarrow> e \<in> set es \<Longrightarrow> snap < e_lsn e"
proof -
  assume n: "numbered snap es" "e \<in> set es"
  then obtain i where "i < length es" "e = es ! i" by (auto simp: in_set_conv_nth)
  then have "unat snap < unat (e_lsn e)" using n(1) by (simp add: numbered_def)
  then show ?thesis by (simp add: word_less_nat_alt)
qed

lemma numbered_last: "numbered snap es \<Longrightarrow> unat (last (snap # map e_lsn es)) = unat snap + length es"
proof (cases "es = []")
  case False
  assume "numbered snap es"
  then have "unat (e_lsn (es ! (length es - 1))) = unat snap + 1 + (length es - 1)"
    using False by (simp add: numbered_def)
  then show ?thesis using False by (simp add: last_map last_conv_nth)
qed simp

lemma numbered_append:
  assumes "numbered snap es" "unat snap + length es + length fs + 1 < 2 ^ 64"
    "\<And>i. i < length fs \<Longrightarrow> unat (e_lsn (fs ! i)) = unat snap + length es + 1 + i"
  shows "numbered snap (es @ fs)"
  using assms by (auto simp: numbered_def nth_append)

lemma numbered_prefix: "numbered snap (es @ fs) \<Longrightarrow> numbered snap es"
  by (auto simp: numbered_def nth_append split: if_splits)

text \<open>The manager in memory and its files.\<close>

definition wal_inv ::
  "('n, 't) wal_env \<Rightarrow> ('n, 't) wal_manager \<Rightarrow> 'n astate \<Rightarrow> 'n wal_entry list \<Rightarrow> 'n wal_entry list \<Rightarrow> bool"
where
  "wal_inv env wm base old es \<longleftrightarrow> mgr_good env (w_inner wm) \<and> w_detached wm = None \<and> ww_buf (w_wal wm) = [] \<and>
     is_log (x_lib env) (x_bin env) (old @ es) (ww_file (w_wal wm)) \<and>
     disk_inv env (w_dir wm) (disk_of wm) (w_snapshot_lsn wm) base old es \<and>
     unat (w_next_lsn wm) = unat (w_snapshot_lsn wm) + length es + 1 \<and>
     (w_iceberg_watermark wm = 0 \<longrightarrow> w_durable_lsn wm = w_snapshot_lsn wm) \<and>
     abs_mgr (w_inner wm) = spec_ops (map e_op es) base"

section \<open>Opening\<close>

lemma reopen:
  assumes env: "env_ok env docs" and d: "disk_inv env dir d snap base old es"
  shows "\<exists>wm. open_with_config env ls True cfg dir d = Inr wm \<and> mgr_good env (w_inner wm) \<and>
    abs_mgr (w_inner wm) = spec_ops (map e_op es) base \<and> unat (w_next_lsn wm) = unat snap + length es + 1 \<and>
    w_snapshot_lsn wm = snap \<and> w_durable_lsn wm = snap \<and> w_snapshot wm = d_snapshot d \<and> w_dir wm = dir \<and>
    w_config wm = cfg \<and> w_detached wm = None \<and> w_wal wm = open_append (d_wal d) (cfg_compression cfg) \<and>
    unat (w_wal_entries wm) = length (old @ es) \<and> unat (w_since_checkpoint wm) = length es \<and>
    unat (rr_replayed (w_report wm)) + length (rr_skipped (w_report wm)) = length es"
proof -
  obtain m where m: "load_snapshot env dir (d_snapshot d) = Inr (m, snap)" "mgr_good env m" "abs_mgr m = base"
    using d by (auto simp: disk_inv_def snapshot_of_def)
  let ?rp = "\<lparr>rp_mgr = m, rp_last_lsn = snap, rp_entries = 0, rp_since = 0, rp_report = report_empty\<rparr>"
  have num: "numbered snap es" "\<forall>e \<in> set old. e_lsn e \<le> snap" "length old \<le> unat snap" "\<forall>e \<in> set es. op_exact (e_op e)"
    using d by (auto simp: disk_inv_def)
  have above: "filter (\<lambda>e. snap < e_lsn e) (old @ es) = es"
    using num(2) numbered_above [OF num(1)] by (auto simp: filter_empty_conv not_less [symmetric] intro: filter_True)
  have len: "length (old @ es) < 2 ^ 64" using num(1,3) by (simp add: numbered_def)
  have ex: "\<forall>e \<in> set (old @ es). snap < e_lsn e \<longrightarrow> op_exact (e_op e)" using num(2,4) by auto
  obtain rp where rp: "replay_entries env ls snap dir ?rp (old @ es) = Inr rp" "mgr_good env (rp_mgr rp)"
      "abs_mgr (rp_mgr rp) = spec_ops (map e_op es) base" "rp_last_lsn rp = last (snap # map e_lsn es)"
      "unat (rp_entries rp) = length (old @ es)" "unat (rp_since rp) = length es"
      "unat (rr_replayed (rp_report rp)) + length (rr_skipped (rp_report rp)) = length es"
    using replay_entries_spec [OF env, of ?rp "old @ es" snap ls dir] m(2,3) ex len
    unfolding above by (auto simp: report_empty_def)
  have path: "replay_path env ls (d_wal d) m snap dir = Inr rp"
  proof (cases "d_wal d")
    case None
    then have "old @ es = []" using d by (simp add: disk_inv_def disk_holds_def)
    then show ?thesis using rp(1) None by (simp add: replay_path_def)
  next
    case (Some bs)
    then have "open_reader (x_lib env) (x_bin env) None bs = Inr (old @ es, None)"
      using d by (simp add: disk_inv_def disk_holds_def)
    then show ?thesis using rp(1) Some by (simp add: replay_path_def replay_wal_def)
  qed
  have last: "unat (rp_last_lsn rp) = unat snap + length es" using numbered_last [OF num(1)] rp(4) by simp
  have "unat (rp_last_lsn rp + 1) = unat snap + length es + 1"
    using num(1) last by (simp add: unat_word_ariths(1) numbered_def)
  then show ?thesis using m path rp
    by (simp add: open_with_config_def opened_def)
qed

text \<open>Nothing waits for the staging tables after opening.\<close>

lemma open_queue:
  "open_with_config env ls ok cfg dir d = Inr wm \<Longrightarrow> w_unflushed wm = [] \<and> w_iceberg_watermark wm = 0"
  by (auto simp: open_with_config_def opened_def split: if_splits sum.splits)

text \<open>After a clean stop the manager is back where it was.\<close>

lemma open_log:
  assumes env: "env_ok env docs" and d: "disk_inv env dir d snap base old es"
    and log: "d_wal d = Some bs" "is_log (x_lib env) (x_bin env) (old @ es) bs"
  shows "\<exists>wm. open_with_config env ls True cfg dir d = Inr wm \<and> wal_inv env wm base old es \<and> w_dir wm = dir \<and>
    unat (w_next_lsn wm) = unat snap + length es + 1 \<and> w_config wm = cfg \<and> ww_compression (w_wal wm) = cfg_compression cfg"
proof -
  obtain wm where wm: "open_with_config env ls True cfg dir d = Inr wm" "mgr_good env (w_inner wm)"
      "abs_mgr (w_inner wm) = spec_ops (map e_op es) base" "unat (w_next_lsn wm) = unat snap + length es + 1"
      "w_snapshot_lsn wm = snap" "w_snapshot wm = d_snapshot d" "w_dir wm = dir" "w_config wm = cfg" "w_durable_lsn wm = snap"
      "w_detached wm = None" "w_wal wm = open_append (d_wal d) (cfg_compression cfg)"
    using reopen [OF env d, of ls cfg] by blast
  then have "disk_of wm = d" using log(1) by (simp add: disk_of_def wal_path_def)
  then have "wal_inv env wm base old es" using wm d log by (simp add: wal_inv_def)
  then show ?thesis using wm(1,4,7,8,11) by auto
qed

lemma reopen_inv:
  assumes env: "env_ok env docs" and inv: "wal_inv env wm base old es"
  shows "\<exists>wm'. open_with_config env ls True cfg (w_dir wm) (disk_of wm) = Inr wm' \<and> wal_inv env wm' base old es \<and>
    w_next_lsn wm' = w_next_lsn wm \<and> w_config wm' = cfg \<and> ww_compression (w_wal wm') = cfg_compression cfg"
proof -
  have "disk_inv env (w_dir wm) (disk_of wm) (w_snapshot_lsn wm) base old es" "is_log (x_lib env) (x_bin env) (old @ es) (wal_path wm)"
    using inv by (simp_all add: wal_inv_def wal_path_def)
  then obtain wm' where wm': "open_with_config env ls True cfg (w_dir wm) (disk_of wm) = Inr wm'" "wal_inv env wm' base old es"
      "unat (w_next_lsn wm') = unat (w_snapshot_lsn wm) + length es + 1" "w_config wm' = cfg"
      "ww_compression (w_wal wm') = cfg_compression cfg"
    using open_log [OF env, of "w_dir wm" "disk_of wm" _ base old es "wal_path wm" ls cfg] by (auto simp: disk_of_def)
  moreover have "w_next_lsn wm' = w_next_lsn wm" using wm'(3) inv by (metis wal_inv_def unsigned_word_eqI)
  ultimately show ?thesis by blast
qed

lemma open_fresh:
  assumes env: "env_ok env docs"
  shows "\<exists>wm. open_with_config env ls True cfg dir \<lparr>d_snapshot = None, d_wal = None\<rparr> = Inr wm \<and>
    wal_inv env wm Map.empty [] [] \<and> w_config wm = cfg \<and> ww_compression (w_wal wm) = cfg_compression cfg \<and>
    unat (w_next_lsn wm) = 1 \<and> w_dir wm = dir"
proof -
  have s: "snapshot_of env dir None 0 Map.empty"
    by (simp add: snapshot_of_def load_snapshot_def mgr_inv_new)
  then have d: "disk_inv env dir \<lparr>d_snapshot = None, d_wal = None\<rparr> 0 Map.empty [] []"
    by (simp add: disk_inv_def disk_holds_def numbered_def)
  obtain wm where wm: "open_with_config env ls True cfg dir \<lparr>d_snapshot = None, d_wal = None\<rparr> = Inr wm" "mgr_good env (w_inner wm)"
      "abs_mgr (w_inner wm) = Map.empty" "unat (w_next_lsn wm) = 1" "w_snapshot_lsn wm = 0" "w_durable_lsn wm = 0" "w_snapshot wm = None" "w_dir wm = dir"
      "w_config wm = cfg" "w_detached wm = None" "w_wal wm = open_append None (cfg_compression cfg)"
    using reopen [OF env d, of ls cfg] by auto
  have "open_reader (x_lib env) (x_bin env) None [] = Inr ([], None)" by (simp add: open_reader_def)
  then have "disk_inv env dir (disk_of wm) 0 Map.empty [] []"
    using s wm by (simp add: disk_inv_def disk_holds_def numbered_def disk_of_def wal_path_def)
  then show ?thesis using wm by (simp add: wal_inv_def)
qed

section \<open>Appending\<close>

text \<open>The file after new entries, complete or cut short.\<close>

lemma disk_inv_extend:
  assumes env: "env_ok env docs" and inv: "wal_inv env wm base old es" and fs: "is_log (x_lib env) (x_bin env) fs bs"
    and num: "numbered (w_snapshot_lsn wm) (es @ fs)" and ex: "\<forall>e \<in> set fs. op_exact (e_op e)"
  shows "disk_inv env (w_dir wm) \<lparr>d_snapshot = w_snapshot wm, d_wal = Some (ww_file (w_wal wm) @ bs)\<rparr>
    (w_snapshot_lsn wm) base old (es @ fs)"
proof -
  have "is_log (x_lib env) (x_bin env) (old @ es) (ww_file (w_wal wm))" using inv by (simp add: wal_inv_def)
  then have "is_log (x_lib env) (x_bin env) ((old @ es) @ fs) (ww_file (w_wal wm) @ bs)"
    using fs is_log_append by blast
  then have "open_reader (x_lib env) (x_bin env) None (ww_file (w_wal wm) @ bs) = Inr ((old @ es) @ fs, None)"
    using open_reader_log [where a = None] env by (fastforce simp: env_ok_def)
  then show ?thesis using inv num ex by (auto simp: disk_inv_def disk_holds_def wal_inv_def disk_of_def)
qed

text \<open>
  The format check looks at the first frame only. When the log is empty and the first frame is torn, its hash
  and payload could pass for an entry of the format before; \<open>no_legacy\<close> rules that out.
\<close>

definition no_legacy :: "('n, 't) wal_env \<Rightarrow> 'n wal_entry \<Rightarrow> bool" where
  "no_legacy env e \<longleftrightarrow> (\<forall>f m. holds (x_lib env) (x_bin env) e f \<longrightarrow> m < length f \<longrightarrow>
     reject_legacy_frame_format (x_lib env) (x_bin env) (take m f) = Inr ())"

lemma log_prefix:
  assumes "is_log lib bin fs bs"
  shows "\<exists>i xs. i \<le> length fs \<and> is_log lib bin (take i fs) xs \<and> (take k bs = xs \<or>
    (\<exists>f m. i < length fs \<and> holds lib bin (fs ! i) f \<and> m < length f \<and> take k bs = xs @ take m f))"
  using assms
proof (induction fs arbitrary: bs k)
  case Nil
  then show ?case by (intro exI [of _ 0] exI [of _ "[]"]) simp
next
  case (Cons e fs)
  then obtain f bs' where f: "holds lib bin e f" "bs = f @ bs'" "is_log lib bin fs bs'" by auto
  show ?case
  proof (cases "k < length f")
    case True
    then show ?thesis using f by (intro exI [of _ 0] exI [of _ "[]"]) auto
  next
    case False
    obtain i xs where i: "i \<le> length fs" "is_log lib bin (take i fs) xs" "take (k - length f) bs' = xs \<or>
        (\<exists>g m. i < length fs \<and> holds lib bin (fs ! i) g \<and> m < length g \<and> take (k - length f) bs' = xs @ take m g)"
      using Cons.IH [OF f(3)] by blast
    have "is_log lib bin (take (Suc i) (e # fs)) (f @ xs)" using f(1) i(2) by auto
    moreover have "take k bs = f @ take (k - length f) bs'" using False f(2) by simp
    ultimately show ?thesis using i(1,3) by (intro exI [of _ "Suc i"] exI [of _ "f @ xs"]) auto
  qed
qed

lemma disk_inv_torn:
  assumes env: "env_ok env docs" and inv: "wal_inv env wm base old es" and fs: "is_log (x_lib env) (x_bin env) fs bs"
    and num: "numbered (w_snapshot_lsn wm) (es @ fs)" and ex: "\<forall>e \<in> set fs. op_exact (e_op e) \<and> no_legacy env e"
  shows "\<exists>i \<le> length fs. disk_inv env (w_dir wm) \<lparr>d_snapshot = w_snapshot wm, d_wal = Some (ww_file (w_wal wm) @ take k bs)\<rparr>
    (w_snapshot_lsn wm) base old (es @ take i fs)"
proof -
  obtain i xs where i: "i \<le> length fs" "is_log (x_lib env) (x_bin env) (take i fs) xs" "take k bs = xs \<or>
      (\<exists>f m. i < length fs \<and> holds (x_lib env) (x_bin env) (fs ! i) f \<and> m < length f \<and> take k bs = xs @ take m f)"
    using log_prefix [OF fs] by blast
  have "numbered (w_snapshot_lsn wm) ((es @ take i fs) @ drop i fs)" using num by simp
  then have num': "numbered (w_snapshot_lsn wm) (es @ take i fs)" by (rule numbered_prefix)
  have ex': "\<forall>e \<in> set (take i fs). op_exact (e_op e)" using ex by (auto dest: in_set_takeD)
  note whole = disk_inv_extend [OF env inv i(2) num' ex']
  show ?thesis
  proof (cases "take k bs = xs")
    case True
    then show ?thesis using whole i(1) by auto
  next
    case False
    then obtain f m where f: "i < length fs" "holds (x_lib env) (x_bin env) (fs ! i) f" "m < length f" "take k bs = xs @ take m f"
      using i(3) by blast
    let ?all = "old @ es @ take i fs" and ?file = "ww_file (w_wal wm) @ xs"
    have log: "is_log (x_lib env) (x_bin env) ?all ?file"
      using inv i(2) is_log_append [of "x_lib env" "x_bin env" "old @ es" "take i fs"] by (auto simp: wal_inv_def)
    have torn: "read_items (x_lib env) (x_bin env) None (take m f) = ([], None)"
      using f(2,3) read_items_torn by (auto simp: holds_def simp del: length_frame)
    have libs: "libs_ok (x_lib env) (x_bin env)" using env by (simp add: env_ok_def)
    have "open_reader (x_lib env) (x_bin env) None (?file @ take m f) = Inr (?all, None)"
    proof (cases "?all = []")
      case True
      then have "is_log (x_lib env) (x_bin env) [] ?file" using log by (simp only:)
      then have "?file = []" by simp
      moreover have "reject_legacy_frame_format (x_lib env) (x_bin env) (take m f) = Inr ()"
        using ex nth_mem [OF f(1)] f(2,3) unfolding no_legacy_def by blast
      ultimately show ?thesis using True torn by (simp add: open_reader_def)
    next
      case False
      then show ?thesis using open_reader_tail [OF libs log False, of None "take m f"] torn by simp
    qed
    then have "disk_inv env (w_dir wm) \<lparr>d_snapshot = w_snapshot wm, d_wal = Some (ww_file (w_wal wm) @ take k bs)\<rparr>
        (w_snapshot_lsn wm) base old (es @ take i fs)"
      using whole f(4) by (simp add: disk_inv_def disk_holds_def)
    then show ?thesis using i(1) by blast
  qed
qed

section \<open>Checkpoints\<close>

lemma abs_reopened [simp]: "abs_col (reopened tv dir c) = abs_col c"
  by (simp add: abs_col_def reopened_def)

lemma reopened_inv: "col_inv P rt (reopened tv dir c) = col_inv P rt c"
  by (simp add: col_inv_def)

lemma foldl_insert_ok: "mgr_ok mgr \<Longrightarrow> mgr_ok (foldl insert_collection mgr cs)"
  by (induction cs arbitrary: mgr) (simp_all add: insert_collection_def mgr_ok_insert)

lemma snapshot_abs:
  fixes mgr :: "('n, 't) manager" and tv :: "'t tantivy"
  assumes inv: "mgr_inv P rt mgr" and ord: "mset (ord (map fst mgr)) = mset (map fst mgr)"
  shows "mgr_inv P rt (mgr_from_snapshot tv (mgr_to_snapshot_with_lsn ord mgr lsn) dir) \<and>
    abs_mgr (mgr_from_snapshot tv (mgr_to_snapshot_with_lsn ord mgr lsn) dir) = abs_mgr mgr"
proof -
  let ?m = "mgr_from_snapshot tv (mgr_to_snapshot_with_lsn ord mgr lsn) dir"
  have ok: "mgr_ok mgr" using inv by (simp add: mgr_inv_def)
  note get = snapshot_get [where ord = ord, OF ok ord, of tv lsn dir]
  have "mgr_ok ?m"
    using foldl_insert_ok [of "manager_new :: ('n, 't) manager" "map (\<lambda>s. col_from_snapshot tv s dir) (ms_collections (mgr_to_snapshot_with_lsn ord mgr lsn))"]
      mgr_inv_new [of any_params rt, where ?'a = 'n and ?'b = 't] by (simp add: mgr_from_snapshot_def foldl_map mgr_inv_def)
  then have "mgr_inv P rt ?m" using inv by (auto simp: mgr_inv_def get reopened_inv)
  moreover have "abs_mgr ?m = abs_mgr mgr" by (simp add: abs_mgr_def get fun_eq_iff option.map_comp comp_def)
  ultimately show ?thesis by blast
qed

text \<open>What an operation does not touch.\<close>

definition same_setup :: "('n, 't) wal_manager \<Rightarrow> ('n, 't) wal_manager \<Rightarrow> bool" where
  "same_setup wm wm' \<longleftrightarrow> w_dir wm' = w_dir wm \<and> w_config wm' = w_config wm \<and>
     ww_compression (w_wal wm') = ww_compression (w_wal wm) \<and> w_iceberg_watermark wm' = w_iceberg_watermark wm"

lemma checkpoint_inv:
  assumes env: "env_ok env docs" and inv: "wal_inv env wm base old es" and ck: "checkpoint env ck wm = (r, wm')"
  shows "\<exists>base' old' es'. wal_inv env wm' base' old' es' \<and> w_inner wm' = w_inner wm \<and>
    w_next_lsn wm' = w_next_lsn wm \<and> same_setup wm wm' \<and>
    (r = Inr () \<longrightarrow> old' = [] \<and> es' = [] \<and> ww_file (w_wal wm') = [])"
proof -
  let ?last = "sat_pred (w_next_lsn wm)"
  let ?ms = "mgr_to_snapshot_with_lsn (x_order env) (w_inner wm) ?last"
  have next_lsn: "unat (w_next_lsn wm) = unat (w_snapshot_lsn wm) + length es + 1" and num: "numbered (w_snapshot_lsn wm) es"
    and old: "\<forall>e \<in> set old. e_lsn e \<le> w_snapshot_lsn wm" "length old \<le> unat (w_snapshot_lsn wm)"
    and good: "mgr_good env (w_inner wm)" and log: "is_log (x_lib env) (x_bin env) (old @ es) (ww_file (w_wal wm))"
    and buf: "ww_buf (w_wal wm) = []" and det: "w_detached wm = None"
    using inv by (auto simp: wal_inv_def disk_inv_def)
  have last: "unat ?last = unat (w_snapshot_lsn wm) + length es"
  proof -
    have "w_next_lsn wm \<noteq> 0" using next_lsn by auto
    then show ?thesis using next_lsn by (simp add: sat_pred_def unat_minus_one)
  qed
  consider (before) "wm' = wm" "r \<noteq> Inr ()"
    | (after) b where "x_snap_write env ?ms = Some b" "w_snapshot wm' = Some b" "w_snapshot_lsn wm' = ?last"
        "ww_file (w_wal wm') = ww_file (w_wal wm)" "r = Inl Io"
        "wm' = wm\<lparr>w_snapshot := Some b, w_durable_lsn := ?last, w_snapshot_lsn := ?last, w_since_checkpoint := 0\<rparr>"
    | (clear) b where "x_snap_write env ?ms = Some b" "w_snapshot wm' = Some b" "w_snapshot_lsn wm' = ?last"
        "ww_file (w_wal wm') = []" "wm' = wm\<lparr>w_snapshot := Some b, w_durable_lsn := ?last, w_snapshot_lsn := ?last,
          w_since_checkpoint := 0, w_wal := (w_wal wm)\<lparr>ww_file := [], ww_bytes_written := 0\<rparr>, w_wal_entries := 0\<rparr>"
  proof (cases "x_snap_write env ?ms")
    case None
    then have "(if ck = CkSerialize then None else x_snap_write env ?ms) = None" by simp
    then have "(r, wm') = (Inl Encode, wm)" using ck unfolding checkpoint_def Let_def by simp
    then show ?thesis using before by simp
  next
    case (Some b)
    let ?wm1 = "wm\<lparr>w_snapshot := Some b, w_durable_lsn := ?last, w_snapshot_lsn := ?last, w_since_checkpoint := 0\<rparr>"
    have same: "?wm1\<lparr>w_wal := w_wal wm\<rparr> = ?wm1" "spill k [] (w_wal wm) = w_wal wm" for k using buf by (simp_all add: spill_def)
    have run: "checkpoint env ck wm = (if ck = CkSerialize then (Inl Encode, wm)
        else if ck = CkSync \<or> ck = CkRename then (Inl Io, wm)
        else let (ok, w) = wal_truncate ck (w_wal wm) in if ok then (Inr (), ?wm1\<lparr>w_wal := w, w_wal_entries := 0\<rparr>)
          else (Inl Io, ?wm1\<lparr>w_wal := w\<rparr>))"
      by (simp add: checkpoint_def Some Let_def)
    consider "ck \<in> {CkSerialize, CkSync, CkRename}" | "ck = CkOk" | "ck = CkSetLen \<or> (\<exists>k. ck = CkFlush k)"
      by (cases ck) auto
    then show ?thesis
    proof cases
      case 1
      then show ?thesis using ck before run by auto
    next
      case 2
      then have "(r, wm') = (Inr (), wm\<lparr>w_snapshot := Some b, w_durable_lsn := ?last, w_snapshot_lsn := ?last,
          w_since_checkpoint := 0, w_wal := (w_wal wm)\<lparr>ww_file := [], ww_bytes_written := 0\<rparr>, w_wal_entries := 0\<rparr>)"
        using ck run by (simp add: wal_truncate_def same)
      then show ?thesis using clear [OF Some] by simp
    next
      case 3
      then have "(r, wm') = (Inl Io, ?wm1)" using ck run same by (auto simp: wal_truncate_def)
      then show ?thesis using after [OF Some] by simp
    qed
  qed
  then show ?thesis
  proof cases
    case before
    then show ?thesis using inv by (auto simp: same_setup_def)
  next
    case (after b)
    have snap: "snapshot_of env (w_dir wm) (Some b) ?last (abs_mgr (w_inner wm))"
      using snapshot_abs [where ord = "x_order env" and lsn = ?last and dir = "Some (w_dir wm)" and tv = "x_tv env", OF good] env after(1)
      by (auto simp: snapshot_of_def load_snapshot_def env_ok_def mgr_to_snapshot_with_lsn_def)
    have "\<forall>e \<in> set (old @ es). e_lsn e \<le> ?last"
    proof
      fix e assume "e \<in> set (old @ es)"
      then consider "e \<in> set old" | i where "i < length es" "e = es ! i" by (auto simp: in_set_conv_nth)
      then have "unat (e_lsn e) \<le> unat ?last"
        using num last old(1) by cases (force simp: word_le_nat_alt numbered_def)+
      then show "e_lsn e \<le> ?last" by (simp add: word_le_nat_alt)
    qed
    moreover have "numbered ?last []" using num last by (simp add: numbered_def)
    moreover have "length (old @ es) \<le> unat ?last" using old(2) last by simp
    ultimately have "disk_inv env (w_dir wm) (disk_of wm') ?last (abs_mgr (w_inner wm)) (old @ es) []"
      using snap inv after det by (simp add: disk_inv_def disk_of_def wal_path_def disk_holds_def wal_inv_def)
    then have "wal_inv env wm' (abs_mgr (w_inner wm)) (old @ es) []"
      using after good det buf log next_lsn last by (simp add: wal_inv_def)
    then show ?thesis using after by (auto simp: same_setup_def)
  next
    case (clear b)
    have snap: "snapshot_of env (w_dir wm) (Some b) ?last (abs_mgr (w_inner wm))"
      using snapshot_abs [where ord = "x_order env" and lsn = ?last and dir = "Some (w_dir wm)" and tv = "x_tv env", OF good] env clear(1)
      by (auto simp: snapshot_of_def load_snapshot_def env_ok_def mgr_to_snapshot_with_lsn_def)
    have "numbered ?last []" using num last by (simp add: numbered_def)
    moreover have "open_reader (x_lib env) (x_bin env) None [] = Inr ([], None)" by (simp add: open_reader_def)
    ultimately have "disk_inv env (w_dir wm) (disk_of wm') ?last (abs_mgr (w_inner wm)) [] []"
      using snap clear det by (simp add: disk_inv_def disk_of_def wal_path_def disk_holds_def)
    then have "wal_inv env wm' (abs_mgr (w_inner wm)) [] []"
      using clear good det buf next_lsn last by (simp add: wal_inv_def)
    then show ?thesis using clear by (auto simp: same_setup_def)
  qed
qed

section \<open>Logged operations\<close>

text \<open>An entry the writer can frame under the compression of this manager.\<close>

abbreviation writable :: "('n, 't) wal_env \<Rightarrow> ('n, 't) wal_manager \<Rightarrow> 'n wal_entry \<Rightarrow> bool" where
  "writable env wm e \<equiv> fits (x_lib env) (x_bin env) (ww_compression (w_wal wm)) e"

lemma maybe_checkpoint_inv:
  assumes env: "env_ok env docs" and inv: "wal_inv env wm base old es" and ck: "maybe_checkpoint env ck wm = (r, wm')"
  shows "\<exists>base' old' es'. wal_inv env wm' base' old' es' \<and> w_inner wm' = w_inner wm \<and>
    w_next_lsn wm' = w_next_lsn wm \<and> same_setup wm wm'"
proof -
  have "checkpoint env ck wm = (r, wm') \<or> wm' = wm"
    using ck by (auto simp: maybe_checkpoint_def Let_def split: if_splits)
  then show ?thesis
  proof
    assume "checkpoint env ck wm = (r, wm')"
    then show ?thesis using checkpoint_inv [OF env inv] by blast
  next
    assume "wm' = wm"
    then show ?thesis using inv by (auto simp: same_setup_def)
  qed
qed

text \<open>Appending entries and then changing the collections accordingly.\<close>

lemma logged_inv:
  assumes env: "env_ok env docs" and inv: "wal_inv env wm base old es" and fs: "is_log (x_lib env) (x_bin env) fs bs"
    and num: "numbered (w_snapshot_lsn wm) (es @ fs)" and ex: "\<forall>e \<in> set fs. op_exact (e_op e)"
    and mgr: "mgr_good env mgr" "abs_mgr mgr = spec_ops (map e_op fs) (abs_mgr (w_inner wm))"
    and wm': "w_inner wm' = mgr" "ww_file (w_wal wm') = ww_file (w_wal wm) @ bs" "ww_buf (w_wal wm') = []"
      "w_detached wm' = None" "w_snapshot wm' = w_snapshot wm" "w_durable_lsn wm' = w_durable_lsn wm" "w_snapshot_lsn wm' = w_snapshot_lsn wm"
      "w_iceberg_watermark wm' = w_iceberg_watermark wm" "w_dir wm' = w_dir wm" "unat (w_next_lsn wm') = unat (w_next_lsn wm) + length fs"
  shows "wal_inv env wm' base old (es @ fs)"
proof -
  have "is_log (x_lib env) (x_bin env) ((old @ es) @ fs) (ww_file (w_wal wm) @ bs)"
    using inv fs is_log_append unfolding wal_inv_def by blast
  moreover have "disk_of wm' = \<lparr>d_snapshot = w_snapshot wm, d_wal = Some (ww_file (w_wal wm) @ bs)\<rparr>"
    using wm' by (simp add: disk_of_def wal_path_def)
  ultimately show ?thesis using disk_inv_extend [OF env inv fs num ex] inv mgr wm' by (simp add: wal_inv_def)
qed

lemma next_numbered:
  assumes "wal_inv env wm base old es" "unat (w_next_lsn wm) + length fs < 2 ^ 64"
    and "\<And>i. i < length fs \<Longrightarrow> e_lsn (fs ! i) = w_next_lsn wm + of_nat i"
  shows "numbered (w_snapshot_lsn wm) (es @ fs)"
proof (rule numbered_append)
  have n: "unat (w_next_lsn wm) = unat (w_snapshot_lsn wm) + length es + 1" using assms(1) by (simp add: wal_inv_def)
  show "numbered (w_snapshot_lsn wm) es" using assms(1) by (simp add: wal_inv_def disk_inv_def)
  show "unat (w_snapshot_lsn wm) + length es + length fs + 1 < 2 ^ 64" using assms(2) n by simp
  fix i assume i: "i < length fs"
  then have "unat (of_nat i :: u64) = i" using assms(2) by (simp add: unat_of_nat)
  then have "unat (w_next_lsn wm + of_nat i) = unat (w_next_lsn wm) + i"
    using i assms(2) by (simp add: unat_word_ariths(1))
  then show "unat (e_lsn (fs ! i)) = unat (w_snapshot_lsn wm) + length es + 1 + i" using assms(3) [OF i] n by simp
qed

lemma log_and_apply_logged:
  fixes env :: "('n, 't) wal_env"
  assumes env: "env_ok env docs" and inv: "wal_inv env wm base old es" and ex: "op_exact opn"
    and fit: "writable env wm (wal_entry_new (w_next_lsn wm) opn)" and room: "unat (w_next_lsn wm) + 1 < 2 ^ 64"
    and f: "\<And>q mgr. f (w_inner wm) = (q, mgr) \<Longrightarrow> mgr_good env mgr \<and> abs_mgr mgr = spec_op opn (abs_mgr (w_inner wm))"
    and run: "log_and_apply env IoOk ck wm opn f = (r, wm')"
  shows "\<exists>q p wm3. f (w_inner wm) = (q, w_inner wm3) \<and> wal_inv env wm3 base old (es @ [wal_entry_new (w_next_lsn wm) opn]) \<and>
    abs_mgr (w_inner wm3) = spec_op opn (abs_mgr (w_inner wm)) \<and> unat (w_next_lsn wm3) = unat (w_next_lsn wm) + 1 \<and>
    same_setup wm wm3 \<and> bin_write (x_bin env) (wal_entry_new (w_next_lsn wm) opn) = Some p \<and>
    w_unflushed wm3 = w_unflushed wm @ [(w_next_lsn wm, p)] \<and>
    (r, wm') = and_then (map_sum Apply id q, wm3) (\<lambda>x wm3. and_then (maybe_checkpoint env ck wm3) (\<lambda>_ wm4. (Inr x, wm4)))"
proof -
  let ?e = "wal_entry_new (w_next_lsn wm) opn"
  obtain ps bs where app: "append_batch (x_lib env) (x_bin env) IoOk (w_wal wm) [?e] = (Inr ps, (w_wal wm)\<lparr>ww_file := ww_file (w_wal wm) @ bs,
        ww_buf := [], ww_bytes_written := sat_add (ww_bytes_written (w_wal wm)) (of_nat (length bs))\<rparr>)"
      "is_log (x_lib env) (x_bin env) [?e] bs"
    using append_batch_ok [of "[?e]" "x_lib env" "x_bin env" "w_wal wm"] fit inv
    by (auto simp: wal_entry_new_def wal_inv_def)
  obtain p where p: "bin_write (x_bin env) ?e = Some p" using fit by (auto simp: fits_def)
  let ?w = "(w_wal wm)\<lparr>ww_file := ww_file (w_wal wm) @ bs, ww_buf := [],
      ww_bytes_written := sat_add (ww_bytes_written (w_wal wm)) (of_nat (length bs))\<rparr>"
  let ?wm2 = "record_append env (wm\<lparr>w_wal := ?w\<rparr>) ?e"
  have inner: "w_inner ?wm2 = w_inner wm" by (simp add: record_append_def)
  obtain q mgr where q: "f (w_inner wm) = (q, mgr)" by (cases "f (w_inner wm)")
  define wm3 where "wm3 = ?wm2\<lparr>w_inner := mgr\<rparr>"
  have "unat (w_next_lsn wm + 1) = unat (w_next_lsn wm) + 1" using room by (simp add: unat_word_ariths(1))
  then have next3: "unat (w_next_lsn wm3) = unat (w_next_lsn wm) + 1" by (simp add: record_append_def wm3_def)
  have num: "numbered (w_snapshot_lsn wm) (es @ [?e])"
    using next_numbered [OF inv, of "[?e]"] room by (simp add: wal_entry_new_def)
  have inv3: "wal_inv env wm3 base old (es @ [?e])"
    using f [OF q] ex inv next3
    by (intro logged_inv [OF env inv app(2) num]) (auto simp: record_append_def wal_entry_new_def wal_inv_def wm3_def)
  have place: "same_setup wm wm3" by (simp add: same_setup_def record_append_def wm3_def)
  have queue: "w_unflushed wm3 = w_unflushed wm @ [(w_next_lsn wm, p)]" using p by (simp add: record_append_def wal_entry_new_def wm3_def)
  have "(r, wm') = and_then (map_sum Apply id q, wm3) (\<lambda>x wm3. and_then (maybe_checkpoint env ck wm3) (\<lambda>_ wm4. (Inr x, wm4)))"
    using run app(1) q inner unfolding wm3_def by (simp add: log_and_apply_def append_entry_def Let_def)
  moreover have "w_inner wm3 = mgr" by (simp add: wm3_def)
  ultimately show ?thesis using q inv3 f [OF q] next3 place p queue
    by (intro exI [of _ q] exI [of _ p] exI [of _ wm3]) simp
qed

lemma log_and_apply_inv:
  fixes env :: "('n, 't) wal_env"
  assumes env: "env_ok env docs" and inv: "wal_inv env wm base old es" and ex: "op_exact opn"
    and fit: "writable env wm (wal_entry_new (w_next_lsn wm) opn)" and room: "unat (w_next_lsn wm) + 1 < 2 ^ 64"
    and f: "\<And>q mgr. f (w_inner wm) = (q, mgr) \<Longrightarrow> mgr_good env mgr \<and> abs_mgr mgr = spec_op opn (abs_mgr (w_inner wm))"
    and run: "log_and_apply env IoOk ck wm opn f = (r, wm')"
  shows "\<exists>base' old' es'. wal_inv env wm' base' old' es' \<and> abs_mgr (w_inner wm') = spec_op opn (abs_mgr (w_inner wm)) \<and>
    unat (w_next_lsn wm') = unat (w_next_lsn wm) + 1 \<and> same_setup wm wm'"
proof -
  obtain q wm3 where l: "wal_inv env wm3 base old (es @ [wal_entry_new (w_next_lsn wm) opn])"
      "abs_mgr (w_inner wm3) = spec_op opn (abs_mgr (w_inner wm))" "unat (w_next_lsn wm3) = unat (w_next_lsn wm) + 1" "same_setup wm wm3"
      "(r, wm') = and_then (map_sum Apply id q, wm3) (\<lambda>x wm3. and_then (maybe_checkpoint env ck wm3) (\<lambda>_ wm4. (Inr x, wm4)))"
    using log_and_apply_logged [where f = f, OF env inv ex fit room _ run] f by blast
  show ?thesis
  proof (cases q)
    case (Inl x)
    then have "wm' = wm3" using l(5) by simp
    then show ?thesis using l(1-4) by auto
  next
    case (Inr x)
    obtain r4 wm4 where m: "maybe_checkpoint env ck wm3 = (r4, wm4)" by (cases "maybe_checkpoint env ck wm3")
    then have "wm' = wm4" using l(5) Inr by (cases r4) auto
    then show ?thesis using maybe_checkpoint_inv [OF env l(1) m] l(2-4) by (auto simp: same_setup_def)
  qed
qed

lemma log_and_apply_fault:
  assumes env: "env_ok env docs" and inv: "wal_inv env wm base old es" and ex: "op_exact opn"
    and fit: "writable env wm (wal_entry_new (w_next_lsn wm) opn)" and room: "unat (w_next_lsn wm) + 1 < 2 ^ 64"
    and leg: "no_legacy env (wal_entry_new (w_next_lsn wm) opn)" and io: "io \<noteq> IoOk"
    and run: "log_and_apply env io ck wm opn f = (r, wm')"
  shows "r = Inl Io \<and> w_inner wm' = w_inner wm \<and> w_dir wm' = w_dir wm \<and> (\<exists>i \<le> 1.
    disk_inv env (w_dir wm) (disk_of wm') (w_snapshot_lsn wm) base old (es @ take i [wal_entry_new (w_next_lsn wm) opn]) \<and>
    (io = SyncErr \<longrightarrow> i = 1))"
proof -
  let ?e = "wal_entry_new (w_next_lsn wm) opn"
  obtain q w where app: "append_batch (x_lib env) (x_bin env) io (w_wal wm) [?e] = (q, w)"
    by (cases "append_batch (x_lib env) (x_bin env) io (w_wal wm) [?e]")
  obtain bs k where b: "is_log (x_lib env) (x_bin env) [?e] bs" "ww_file w = ww_file (w_wal wm) @ take k bs"
      "io = SyncErr \<longrightarrow> take k bs = bs" "q = Inl Io"
    using append_batch_prefix [OF _ _ app] fit inv io by (auto simp: wal_entry_new_def wal_inv_def)
  have res: "r = Inl Io" "wm' = wm\<lparr>w_wal := w\<rparr>" using run app b(4) by (simp_all add: log_and_apply_def append_entry_def Let_def)
  have num: "numbered (w_snapshot_lsn wm) (es @ [?e])"
    using next_numbered [OF inv, of "[?e]"] room by (simp add: wal_entry_new_def)
  have ex': "\<forall>e \<in> set [?e]. op_exact (e_op e) \<and> no_legacy env e" using ex leg by (simp add: wal_entry_new_def)
  have disk: "disk_of wm' = \<lparr>d_snapshot = w_snapshot wm, d_wal = Some (ww_file (w_wal wm) @ take k bs)\<rparr>"
    using res(2) b(2) inv by (simp add: disk_of_def wal_path_def wal_inv_def)
  have "\<exists>i \<le> 1. disk_inv env (w_dir wm) (disk_of wm') (w_snapshot_lsn wm) base old (es @ take i [?e]) \<and>
      (io = SyncErr \<longrightarrow> i = 1)"
  proof (cases "io = SyncErr")
    case True
    then show ?thesis using disk_inv_extend [OF env inv b(1) num] ex' b(3) disk by (intro exI [of _ 1]) simp
  next
    case False
    then show ?thesis using disk_inv_torn [OF env inv b(1) num ex', of k] disk by auto
  qed
  then show ?thesis using res by simp
qed

end
