(* ===== verification/Crash.thy ===== *)
theory Crash
  imports Durability
begin

text \<open>
  Whole runs of the log manager: the operations a client calls, what each means, a run of them with its
  checkpoints, and the theorems about stopping, crashing and reopening.
\<close>

section \<open>Operations of a client\<close>

datatype 'n live =
    LCreate string nat metric index_kind
  | LDrop string
  | LInsert string vecid vec "'n json option"
  | LBatch string "(vecid \<times> vec \<times> 'n json option) list"
  | LDelete string vecid
  | LEnableFts string
  | LBind string source_binding
  | LCheckpoint

abbreviation no_value :: "('e + 'a) \<times> 's \<Rightarrow> ('e + unit) \<times> 's" where
  "no_value m \<equiv> and_then m (\<lambda>_ s. (Inr (), s))"

definition run_live ::
  "('n, 't) wal_env \<Rightarrow> io \<Rightarrow> ck_io \<Rightarrow> (nat \<Rightarrow> nat) \<Rightarrow> 'n live \<Rightarrow> ('n, 't) wal_manager \<Rightarrow>
     (persist_error + unit) \<times> ('n, 't) wal_manager"
where
  "run_live env io ck ls x wm = (case x of
       LCreate name d m kind \<Rightarrow> (case kind of
           KFlat \<Rightarrow> wal_create_collection env io ck wm name d m
         | KIvf nlist nprobe \<Rightarrow> wal_create_ivf_collection env io ck wm name d m nlist nprobe
         | KIvfSq8 nlist nprobe \<Rightarrow> wal_create_ivf_sq8_collection env io ck wm name d m nlist nprobe
         | KHnsw edges efc efs \<Rightarrow> wal_create_hnsw_collection env io ck wm name d m edges efc efs)
     | LDrop name \<Rightarrow> wal_drop_collection env io ck wm name
     | LInsert col y v p \<Rightarrow> wal_insert env io ck (ls 0) wm col y v p
     | LBatch col items \<Rightarrow> no_value (wal_insert_batch env io ls wm col items)
     | LDelete col y \<Rightarrow> no_value (wal_delete env io ck wm col y)
     | LEnableFts col \<Rightarrow> wal_enable_fts env io ck wm col
     | LBind col b \<Rightarrow> wal_set_source_binding env io ck wm col b
     | LCheckpoint \<Rightarrow> checkpoint env ck wm)"

text \<open>The entries an operation logs, and what it does to the abstract state.\<close>

fun live_log :: "'n live \<Rightarrow> 'n wal_op list" where
  "live_log (LCreate name d m kind) = [CreateCollection name d m kind]"
| "live_log (LDrop name) = [DropCollection name]"
| "live_log (LInsert col y v p) = [WInsert col y v p]"
| "live_log (LBatch col items) = map (\<lambda>(y, v, p). WInsert col y v p) items"
| "live_log (LDelete col y) = [WDelete col y]"
| "live_log (LEnableFts col) = [EnableFts col]"
| "live_log (LBind col b) = [SetSourceBinding col b]"
| "live_log LCheckpoint = []"

definition spec_live :: "'n live \<Rightarrow> 'n astate \<Rightarrow> 'n astate" where
  "spec_live x a = (case x of
       LBatch col items \<Rightarrow> (case a col of
           None \<Rightarrow> a
         | Some c \<Rightarrow> if \<forall>(y, v, p) \<in> set items. length v = a_dim c then spec_ops (live_log x) a else a)
     | _ \<Rightarrow> spec_ops (live_log x) a)"

lemma spec_live_cases: "spec_live x a = spec_ops (live_log x) a \<or> spec_live x a = a"
  by (cases x) (auto simp: spec_live_def split: option.split)

text \<open>Operations the theorems cover: those of \<open>op_exact\<close> whose entry fits a frame and is not taken for the old format.\<close>

definition op_fine :: "('n, 't) wal_env \<Rightarrow> compression \<Rightarrow> 'n wal_op \<Rightarrow> bool" where
  "op_fine env c opn \<longleftrightarrow> op_exact opn \<and> (\<forall>lsn. fits (x_lib env) (x_bin env) c (wal_entry_new lsn opn) \<and>
     no_legacy env (wal_entry_new lsn opn))"

abbreviation live_fine :: "('n, 't) wal_env \<Rightarrow> ('n, 't) wal_manager \<Rightarrow> 'n live \<Rightarrow> bool" where
  "live_fine env wm x \<equiv> \<forall>opn \<in> set (live_log x). op_fine env (ww_compression (w_wal wm)) opn"

section \<open>The step of each operation on the collections\<close>

lemma mgr_step_create:
  assumes "mgr_good env mgr" "env_ok env docs" "op_exact (CreateCollection name d m kind)"
    and "mgr_step (\<lambda>mgr. create_kind mgr name d m kind) mgr = (q, mgr')"
  shows "mgr_good env mgr' \<and> abs_mgr mgr' = spec_op (CreateCollection name d m kind) (abs_mgr mgr)"
proof -
  have rt: "rt_ok (x_rt env)" using assms(2) by (simp add: env_ok_def)
  note kind = create_kind_spec [OF assms(1) rt assms(3)]
  consider (taken) "hm_get mgr name \<noteq> None" | (ok) "hm_get mgr name = None" "valid_kind d kind"
    | (invalid) "hm_get mgr name = None" "\<not> valid_kind d kind" by blast
  then show ?thesis
  proof cases
    case taken
    then have "mgr' = mgr" using kind assms(4) by (simp add: mgr_step_def)
    then show ?thesis using taken assms(1) abs_mgr_None [of mgr name] by (auto simp: spec_op_def)
  next
    case ok
    then obtain m' where "create_kind mgr name d m kind = Inr m'" "mgr_good env m'"
        "abs_mgr m' = (abs_mgr mgr)(name \<mapsto> new_acol d m kind)" using kind by auto
    then show ?thesis using ok assms(4) by (simp add: mgr_step_def spec_op_def abs_mgr_None)
  next
    case invalid
    then have "mgr' = mgr" using kind assms(4) by (simp add: mgr_step_def)
    then show ?thesis using invalid assms(1) by (simp add: spec_op_def abs_mgr_None)
  qed
qed

lemma mgr_step_drop:
  assumes "mgr_good env mgr" "mgr_step (\<lambda>mgr. drop_collection mgr name) mgr = (q, mgr')"
  shows "mgr_good env mgr' \<and> abs_mgr mgr' = spec_op (DropCollection name) (abs_mgr mgr)"
proof -
  have "mgr' = (if hm_get mgr name = None then mgr else hm_remove name mgr)"
    using assms(2) by (auto simp: mgr_step_def drop_collection_def split: option.splits)
  then show ?thesis using assms(1) mgr_inv_remove [OF assms(1)] abs_mgr_None [of mgr name]
    by (auto simp: spec_op_def)
qed

lemma step_insert:
  assumes inv: "mgr_good env mgr" and env: "env_ok env docs"
    and f: "on_collection mgr col (\<lambda>c. col_insert (x_rt env) (x_tv env) l c y v p lsn) = (q, mgr')"
  shows "mgr_good env mgr' \<and> abs_mgr mgr' = spec_op (WInsert col y v p) (abs_mgr mgr)"
proof -
  have works: "fts_works (x_tv env) docs" using env by (simp add: env_ok_def)
  have "mgr_good env mgr' \<and> abs_mgr mgr' = upd_acol (abs_mgr mgr) col (acol_insert y v p) \<and> True"
    by (rule on_collection_abs [OF inv f]) (use abs_col_insert [OF _ works] in blast)+
  then show ?thesis by (simp add: spec_op_def)
qed

lemma step_delete:
  assumes inv: "mgr_good env mgr" and env: "env_ok env docs"
    and f: "on_collection mgr col (\<lambda>c. col_delete (x_tv env) c y lsn) = (q, mgr')"
  shows "mgr_good env mgr' \<and> abs_mgr mgr' = spec_op (WDelete col y) (abs_mgr mgr)"
proof -
  have works: "fts_works (x_tv env) docs" using env by (simp add: env_ok_def)
  have "mgr_good env mgr' \<and> abs_mgr mgr' = upd_acol (abs_mgr mgr) col (acol_delete y) \<and> True"
    by (rule on_collection_abs [OF inv f]) (use abs_col_delete [OF _ works] in blast)+
  then show ?thesis by (simp add: spec_op_def)
qed

lemma step_fts:
  assumes inv: "mgr_good env mgr" and f: "mgr_enable_fts (x_tv env) mgr col dir = (q, mgr')"
  shows "mgr_good env mgr' \<and> abs_mgr mgr' = spec_op (EnableFts col) (abs_mgr mgr)"
proof -
  have "mgr_good env mgr' \<and> abs_mgr mgr' = upd_acol (abs_mgr mgr) col id \<and> True"
    by (rule on_collection_abs [OF inv f [unfolded mgr_enable_fts_def]])
      (auto simp: col_enable_fts_def col_inv_def abs_col_def split: sum.splits)
  then show ?thesis by (simp add: spec_op_def upd_acol_def option.map_id)
qed

lemma step_bind:
  assumes inv: "mgr_good env mgr" and f: "mgr_set_source_binding mgr col b = (q, mgr')"
  shows "mgr_good env mgr' \<and> abs_mgr mgr' = spec_op (SetSourceBinding col b) (abs_mgr mgr)"
proof -
  have "mgr_good env mgr' \<and> abs_mgr mgr' = upd_acol (abs_mgr mgr) col (\<lambda>x. x\<lparr>a_binding := Some b\<rparr>) \<and> True"
    by (rule on_collection_abs [OF inv f [unfolded mgr_set_source_binding_def]])
      (auto simp: col_inv_def abs_col_def)
  then show ?thesis by (simp add: spec_op_def)
qed

section \<open>A batch\<close>

lemma foldl_acol_insert:
  assumes "\<forall>(y, v, p, n) \<in> set rs. length v = a_dim x"
  shows "foldl (\<lambda>x (y, v, p, n). acol_insert y v p x) x rs =
    x\<lparr>a_vecs := a_vecs x ++ map_of (rev (map (\<lambda>(y, v, p, n). (y, if a_exact x then nz v else [])) rs)),
      a_meta := batch_meta rs (a_meta x)\<rparr>"
  using assms
proof (induction rs arbitrary: x)
  case (Cons r rs)
  obtain y v p n where r: "r = (y, v, p, n)" by (cases r)
  have x1: "acol_insert y v p x = x\<lparr>a_vecs := (a_vecs x)(y \<mapsto> (if a_exact x then nz v else [])), a_meta := payload_upd y p (a_meta x)\<rparr>"
    using Cons.prems r by (simp add: acol_insert_def)
  show ?case using Cons.IH [of "acol_insert y v p x"] Cons.prems
    by (simp add: r x1 batch_meta_def map_add_upd_left map_add_assoc del: fun_upd_apply)
qed (simp add: batch_meta_def)

lemma map_of_nz:
  fixes rs :: "'n batch_row list"
  shows "map_of (rev (map (\<lambda>(y, v, p, n). (y, nz (f v))) rs)) = map_option nz \<circ> map_of (rev (map (\<lambda>(y, v, p, n). (y, f v)) rs))"
proof -
  have "map_of (map (\<lambda>(y, v, p, n). (y, nz (f v))) l) = map_option nz \<circ> map_of (map (\<lambda>(y, v, p, n). (y, f v)) l)" for l :: "'n batch_row list"
    by (induction l) (auto simp: fun_eq_iff)
  then show ?thesis by (simp add: rev_map)
qed

lemma map_option_map_add: "map_option f \<circ> (a ++ b) = (map_option f \<circ> a) ++ (map_option f \<circ> b)"
  by (auto simp: map_add_def fun_eq_iff split: option.split)

lemma abs_col_batch:
  assumes inv: "col_inv any_params rt c" and works: "fts_works tv docs"
    and dims: "\<forall>(y, v, p, n) \<in> set rs. length v = c_dim c"
    and run: "col_insert_batch_with_lsns rt tv ls c rs = (r, c')"
  shows "col_inv any_params rt c' \<and> c_name c' = c_name c \<and> r = Inr () \<and>
    abs_col c' = foldl (\<lambda>x (y, v, p, n). acol_insert y v p x) (abs_col c) rs"
proof -
  let ?vs = "map (\<lambda>(y, v, _, _). (y, v)) rs"
  have meta: "r = Inr ()" "c_meta c' = batch_meta rs (c_meta c)"
    using col_insert_batch_works [OF works inv dims, of ls] run by auto
  have ix: "ix_insert_batch rt ls (c_index c) ?vs = (Inr (), c_index c')" and c': "col_inv any_params rt c'" "same_place c c'"
    using col_inv_batch [OF inv run] dims by auto
  have "any_inv any_params rt (c_index c)" "\<forall>(y, v) \<in> set ?vs. length v = ix_dim (c_index c)"
    using inv dims by (auto simp: col_inv_def)
  note view = ix_view_batch [OF this ix]
  let ?e = "stores_exactly (c_index c)"
  have "map (\<lambda>(y, v). (y, if ?e then v else [])) ?vs = map (\<lambda>(y, v, p, n). (y, if ?e then v else [])) rs" by auto
  then have "ix_view (c_index c') = ix_view (c_index c) ++ map_of (rev (map (\<lambda>(y, v, p, n). (y, if ?e then v else [])) rs))"
    using view by (simp only:)
  moreover have "map (\<lambda>(y, v, p, n). (y, if ?e then nz v else [])) rs = map (\<lambda>(y, v, p, n). (y, nz (if ?e then v else []))) rs"
    by auto
  then have "map_of (rev (map (\<lambda>(y, v, p, n). (y, if ?e then nz v else [])) rs)) =
      map_option nz \<circ> map_of (rev (map (\<lambda>(y, v, p, n). (y, if ?e then v else [])) rs))"
    by (simp only: map_of_nz [of "\<lambda>v. if ?e then v else []"])
  ultimately have "map_option nz \<circ> ix_view (c_index c') =
      (map_option nz \<circ> ix_view (c_index c)) ++ map_of (rev (map (\<lambda>(y, v, p, n). (y, if ?e then nz v else [])) rs))"
    by (simp only: map_option_map_add)
  then have "abs_col c' = foldl (\<lambda>x (y, v, p, n). acol_insert y v p x) (abs_col c) rs"
    using c'(2) meta(2) ix_type_ops(2) [OF ix] dims view
    by (subst foldl_acol_insert) (simp_all add: abs_col_def same_place_def)
  then show ?thesis using c' meta(1) by (simp add: same_place_def)
qed

lemma spec_ops_inserts:
  "a col = Some x \<Longrightarrow> spec_ops (map (\<lambda>(y, v, p). WInsert col y v p) items) a =
    a(col \<mapsto> foldl (\<lambda>x (y, v, p). acol_insert y v p x) x items)"
proof (induction items arbitrary: a x)
  case (Cons i items)
  obtain y v p where i: "i = (y, v, p)" by (cases i)
  have "spec_op (WInsert col y v p) a = a(col \<mapsto> acol_insert y v p x)"
    using Cons.prems by (simp add: spec_op_def upd_acol_def)
  then show ?case using Cons.IH [of "a(col \<mapsto> acol_insert y v p x)"] by (simp add: i del: fun_upd_apply)
      (simp only: fun_upd_same)
qed (simp add: fun_upd_idem)

lemma length_batch_entries [simp]: "length (batch_entries lsn col items) = length items"
  by (simp add: batch_entries_def)

lemma nth_batch_entries:
  "i < length items \<Longrightarrow> batch_entries lsn col items ! i =
    wal_entry_new (lsn + of_nat i) (case items ! i of (y, v, p) \<Rightarrow> WInsert col y v p)"
  by (simp add: batch_entries_def nth_enumerate_eq split: prod.split)

lemma batch_entries_ops: "map e_op (batch_entries lsn col items) = live_log (LBatch col items)"
  by (rule nth_equalityI) (auto simp: nth_batch_entries wal_entry_new_def split: prod.split)

lemma batch_entries_new:
  assumes "e \<in> set (batch_entries lsn col items)"
  shows "\<exists>lsn' opn. e = wal_entry_new lsn' opn \<and> opn \<in> set (live_log (LBatch col items))"
proof -
  obtain i where i: "i < length items" "e = batch_entries lsn col items ! i" using assms by (auto simp: in_set_conv_nth)
  have "(case items ! i of (y, v, p) \<Rightarrow> WInsert col y v p) \<in> set (live_log (LBatch col items))"
    using nth_mem [OF i(1)] by simp
  then show ?thesis using i nth_batch_entries [OF i(1)] by blast
qed

lemma find_mem: "find P xs = Some x \<Longrightarrow> x \<in> set xs \<and> P x"
  by (induction xs) (auto split: if_splits)

lemma batch_entries_fine:
  assumes "\<forall>opn \<in> set (live_log (LBatch col items)). op_fine env c opn" "e \<in> set (batch_entries lsn col items)"
  shows "fits (x_lib env) (x_bin env) c e \<and> e_version e = CURRENT_WAL_VERSION \<and> op_exact (e_op e) \<and> no_legacy env e"
  using batch_entries_new [OF assms(2)] assms(1) by (auto simp: op_fine_def wal_entry_new_def)

text \<open>A batch is refused as a whole, or appended and applied.\<close>

lemma wal_insert_batch_cases:
  assumes run: "wal_insert_batch env io ls wm col items = (r, wm')" and room: "unat (w_next_lsn wm) + length items < 2 ^ 64"
    and good: "mgr_good env (w_inner wm)"
  shows "wm' = wm \<and> (spec_live (LBatch col items) (abs_mgr (w_inner wm)) = abs_mgr (w_inner wm)) \<or>
    (\<exists>c q w. hm_get (w_inner wm) col = Some c \<and> (\<forall>(y, v, p) \<in> set items. length v = c_dim c) \<and>
      append_batch (x_lib env) (x_bin env) io (w_wal wm) (batch_entries (w_next_lsn wm) col items) = (q, w) \<and>
      (case q of Inl e \<Rightarrow> r = Inl e \<and> wm' = wm\<lparr>w_wal := w\<rparr>
       | Inr ps \<Rightarrow> \<exists>a mgr. on_collection (w_inner wm) col (\<lambda>c. col_insert_batch_with_lsns (x_rt env) (x_tv env) ls c
            (map (\<lambda>(e, y, v, p). (y, v, p, e_lsn e)) (zip (batch_entries (w_next_lsn wm) col items) items))) = (a, mgr) \<and>
          wm' = wm\<lparr>w_wal := w, w_unflushed := w_unflushed wm @ zip (map e_lsn (batch_entries (w_next_lsn wm) col items)) ps,
            w_next_lsn := w_next_lsn wm + of_nat (length items), w_inner := mgr\<rparr> \<and>
          r = map_sum Apply (\<lambda>_. length items) a))"
proof (cases "hm_get (w_inner wm) col")
  case None
  then have "wm' = wm" using run by (simp add: wal_insert_batch_def mgr_get_def)
  then show ?thesis using None abs_mgr_None [of "w_inner wm" col] by (simp add: spec_live_def)
next
  case (Some c)
  have abs: "abs_mgr (w_inner wm) col = Some (abs_col c)" by (simp add: abs_mgr_def Some)
  show ?thesis
  proof (cases "items = []")
    case True
    then have "wm' = wm" using run Some by (simp add: wal_insert_batch_def mgr_get_def)
    then show ?thesis using True by (simp add: spec_live_def split: option.split)
  next
    case ne: False
    show ?thesis
    proof (cases "find (\<lambda>(y, v, p). length v \<noteq> c_dim c) items")
      case bad: (Some i)
      then have "wm' = wm" using run Some ne by (auto simp: wal_insert_batch_def mgr_get_def split: prod.splits)
      moreover have "\<not> (\<forall>(y, v, p) \<in> set items. length v = a_dim (abs_col c))"
      proof
        assume "\<forall>(y, v, p) \<in> set items. length v = a_dim (abs_col c)"
        then have "(\<lambda>(y, v, p). length v = c_dim c) i" using find_mem [OF bad] by (auto simp: abs_col_def)
        then show False using find_mem [OF bad] by (simp split: prod.splits)
      qed
      ultimately show ?thesis using abs by (auto simp: spec_live_def)
    next
      case None
      then have dims: "\<forall>(y, v, p) \<in> set items. length v = c_dim c" by (auto simp: find_None_iff)
      have small: "\<not> 2 ^ 64 \<le> length items" "\<not> 2 ^ 64 \<le> unat (w_next_lsn wm) + length items" using room by simp_all
      obtain q w where app: "append_batch (x_lib env) (x_bin env) io (w_wal wm) (batch_entries (w_next_lsn wm) col items) = (q, w)"
        by (cases "append_batch (x_lib env) (x_bin env) io (w_wal wm) (batch_entries (w_next_lsn wm) col items)")
      obtain a mgr where upd: "on_collection (w_inner wm) col (\<lambda>c. col_insert_batch_with_lsns (x_rt env) (x_tv env) ls c
            (map (\<lambda>(e, y, v, p). (y, v, p, e_lsn e)) (zip (batch_entries (w_next_lsn wm) col items) items))) = (a, mgr)"
        by (cases "on_collection (w_inner wm) col (\<lambda>c. col_insert_batch_with_lsns (x_rt env) (x_tv env) ls c
            (map (\<lambda>(e, y, v, p). (y, v, p, e_lsn e)) (zip (batch_entries (w_next_lsn wm) col items) items)))")
      show ?thesis
      proof (rule disjI2, intro exI conjI)
        show "hm_get (w_inner wm) col = Some c" by (rule Some)
        show "\<forall>(y, v, p) \<in> set items. length v = c_dim c" by (rule dims)
        show "append_batch (x_lib env) (x_bin env) io (w_wal wm) (batch_entries (w_next_lsn wm) col items) = (q, w)" by (rule app)
        show "case q of Inl e \<Rightarrow> r = Inl e \<and> wm' = wm\<lparr>w_wal := w\<rparr>
           | Inr ps \<Rightarrow> \<exists>a mgr. on_collection (w_inner wm) col (\<lambda>c. col_insert_batch_with_lsns (x_rt env) (x_tv env) ls c
                (map (\<lambda>(e, y, v, p). (y, v, p, e_lsn e)) (zip (batch_entries (w_next_lsn wm) col items) items))) = (a, mgr) \<and>
              wm' = wm\<lparr>w_wal := w, w_unflushed := w_unflushed wm @ zip (map e_lsn (batch_entries (w_next_lsn wm) col items)) ps,
                w_next_lsn := w_next_lsn wm + of_nat (length items), w_inner := mgr\<rparr> \<and>
              r = map_sum Apply (\<lambda>_. length items) a"
          using run Some ne None small app upd
          by (cases q; cases a) (simp_all add: wal_insert_batch_def mgr_get_def Let_def)
      qed
    qed
  qed
qed

text \<open>The collections after an appended batch.\<close>

lemma step_batch:
  assumes inv: "mgr_good env mgr" and env: "env_ok env docs" and c: "hm_get mgr col = Some c"
    and dims: "\<forall>(y, v, p) \<in> set items. length v = c_dim c"
    and f: "on_collection mgr col (\<lambda>c. col_insert_batch_with_lsns (x_rt env) (x_tv env) ls c
      (map (\<lambda>(e, y, v, p). (y, v, p, e_lsn e)) (zip es items))) = (a, mgr')"
    and len: "length es = length items"
  shows "mgr_good env mgr' \<and> a = Inr () \<and> abs_mgr mgr' = spec_ops (live_log (LBatch col items)) (abs_mgr mgr)"
proof -
  let ?rs = "map (\<lambda>(e, y, v, p). (y, v, p, e_lsn e)) (zip es items)"
  have works: "fts_works (x_tv env) docs" using env by (simp add: env_ok_def)
  have inv_c: "col_inv any_params (x_rt env) c" "c_name c = col" using inv c by (auto simp: mgr_inv_def mgr_ok_def)
  have dims': "\<forall>(y, v, p, n) \<in> set ?rs. length v = c_dim c" using dims by (fastforce dest: set_zip_rightD)
  obtain c' where c': "col_insert_batch_with_lsns (x_rt env) (x_tv env) ls c ?rs = (a, c')" "mgr' = hm_insert col c' mgr"
    using on_collection_cases [OF f] c by auto
  note b = abs_col_batch [OF inv_c(1) works dims' c'(1)]
  have "foldl (\<lambda>x (y, v, p, n). acol_insert y v p x) x ?rs = foldl (\<lambda>x (y, v, p). acol_insert y v p x) x items" for x
    using len by (induction es items arbitrary: x rule: list_induct2) auto
  moreover have "abs_mgr mgr col = Some (abs_col c)" by (simp add: abs_mgr_def c)
  ultimately have "abs_mgr mgr' = spec_ops (live_log (LBatch col items)) (abs_mgr mgr)"
    using b c'(2) by (simp add: spec_ops_inserts)
  moreover have "mgr_good env mgr'" using b c'(2) inv_c(2) by (simp add: mgr_inv_insert [OF inv])
  ultimately show ?thesis using b by blast
qed

lemma batch_numbered:
  assumes "wal_inv env wm base old es" "unat (w_next_lsn wm) + length items < 2 ^ 64"
  shows "numbered (w_snapshot_lsn wm) (es @ batch_entries (w_next_lsn wm) col items)"
  using next_numbered [OF assms(1), of "batch_entries (w_next_lsn wm) col items"] assms(2)
  by (simp add: nth_batch_entries wal_entry_new_def)

lemma batch_inv:
  assumes env: "env_ok env docs" and inv: "wal_inv env wm base old es" and fine: "live_fine env wm (LBatch col items)"
    and room: "unat (w_next_lsn wm) + length items < 2 ^ 64" and run: "wal_insert_batch env IoOk ls wm col items = (r, wm')"
  shows "\<exists>es'. wal_inv env wm' base old es' \<and> abs_mgr (w_inner wm') = spec_live (LBatch col items) (abs_mgr (w_inner wm)) \<and>
    unat (w_next_lsn wm') \<le> unat (w_next_lsn wm) + length items \<and> same_setup wm wm'"
proof -
  let ?fs = "batch_entries (w_next_lsn wm) col items"
  have good: "mgr_good env (w_inner wm)" using inv by (simp add: wal_inv_def)
  have fine': "\<forall>e \<in> set ?fs. fits (x_lib env) (x_bin env) (ww_compression (w_wal wm)) e \<and> e_version e = CURRENT_WAL_VERSION \<and>
      op_exact (e_op e) \<and> no_legacy env e" using batch_entries_fine [OF fine] by blast
  consider (refused) "wm' = wm" "spec_live (LBatch col items) (abs_mgr (w_inner wm)) = abs_mgr (w_inner wm)"
    | (logged) c q w where "hm_get (w_inner wm) col = Some c" "\<forall>(y, v, p) \<in> set items. length v = c_dim c"
        "append_batch (x_lib env) (x_bin env) IoOk (w_wal wm) ?fs = (q, w)"
        "case q of Inl e \<Rightarrow> r = Inl e \<and> wm' = wm\<lparr>w_wal := w\<rparr>
         | Inr ps \<Rightarrow> \<exists>a mgr. on_collection (w_inner wm) col (\<lambda>c. col_insert_batch_with_lsns (x_rt env) (x_tv env) ls c
              (map (\<lambda>(e, y, v, p). (y, v, p, e_lsn e)) (zip ?fs items))) = (a, mgr) \<and>
            wm' = wm\<lparr>w_wal := w, w_unflushed := w_unflushed wm @ zip (map e_lsn ?fs) ps,
              w_next_lsn := w_next_lsn wm + of_nat (length items), w_inner := mgr\<rparr> \<and>
            r = map_sum Apply (\<lambda>_. length items) a"
    using wal_insert_batch_cases [OF run room good] by blast
  then show ?thesis
  proof cases
    case refused
    then show ?thesis using inv by (auto simp: same_setup_def)
  next
    case (logged c q w)
    obtain ps bs where app: "q = Inr ps" "w = (w_wal wm)\<lparr>ww_file := ww_file (w_wal wm) @ bs, ww_buf := [],
        ww_bytes_written := sat_add (ww_bytes_written (w_wal wm)) (of_nat (length bs))\<rparr>" "is_log (x_lib env) (x_bin env) ?fs bs"
      using append_batch_ok [of ?fs "x_lib env" "x_bin env" "w_wal wm"] fine' logged(3) inv by (auto simp: wal_inv_def)
    obtain a mgr where upd: "on_collection (w_inner wm) col (\<lambda>c. col_insert_batch_with_lsns (x_rt env) (x_tv env) ls c
          (map (\<lambda>(e, y, v, p). (y, v, p, e_lsn e)) (zip ?fs items))) = (a, mgr)"
        "wm' = wm\<lparr>w_wal := w, w_unflushed := w_unflushed wm @ zip (map e_lsn ?fs) ps,
          w_next_lsn := w_next_lsn wm + of_nat (length items), w_inner := mgr\<rparr>"
      using logged(4) app(1) by auto
    have mgr: "mgr_good env mgr" "abs_mgr mgr = spec_ops (map e_op ?fs) (abs_mgr (w_inner wm))"
      using step_batch [OF good env logged(1,2) upd(1)] by (simp_all only: batch_entries_ops length_batch_entries)
    have "unat (of_nat (length items) :: u64) = length items" using room by (simp add: unat_of_nat)
    then have sum: "unat (w_next_lsn wm + of_nat (length items)) = unat (w_next_lsn wm) + length items"
      using room by (simp add: unat_word_ariths(1))
    then have next_lsn: "unat (w_next_lsn wm') = unat (w_next_lsn wm) + length ?fs" by (simp add: upd(2))
    have ex: "\<forall>e \<in> set ?fs. op_exact (e_op e)" using fine' by blast
    have "wal_inv env wm' base old (es @ ?fs)"
      using inv by (intro logged_inv [OF env inv app(3) batch_numbered [OF inv room] ex mgr])
        (auto simp: upd(2) app(2) sum wal_inv_def)
    moreover have "spec_live (LBatch col items) (abs_mgr (w_inner wm)) = spec_ops (live_log (LBatch col items)) (abs_mgr (w_inner wm))"
      using logged(1,2) by (simp add: spec_live_def abs_mgr_def abs_col_def)
    ultimately show ?thesis using mgr(2) next_lsn upd(2) app(2)
      by (auto simp: same_setup_def batch_entries_ops simp del: live_log.simps)
  qed
qed

text \<open>A batch cut short keeps a prefix of its rows.\<close>

lemma batch_fault:
  assumes env: "env_ok env docs" and inv: "wal_inv env wm base old es" and fine: "live_fine env wm (LBatch col items)"
    and room: "unat (w_next_lsn wm) + length items < 2 ^ 64" and io: "io \<noteq> IoOk"
    and run: "wal_insert_batch env io ls wm col items = (r, wm')"
  shows "w_dir wm' = w_dir wm \<and> (\<exists>i \<le> length items. disk_inv env (w_dir wm) (disk_of wm') (w_snapshot_lsn wm) base old
      (es @ take i (batch_entries (w_next_lsn wm) col items)))"
proof -
  let ?fs = "batch_entries (w_next_lsn wm) col items"
  have good: "mgr_good env (w_inner wm)" using inv by (simp add: wal_inv_def)
  have disk: "disk_inv env (w_dir wm) (disk_of wm) (w_snapshot_lsn wm) base old es" using inv by (simp add: wal_inv_def)
  have fine': "\<forall>e \<in> set ?fs. fits (x_lib env) (x_bin env) (ww_compression (w_wal wm)) e \<and> e_version e = CURRENT_WAL_VERSION \<and>
      op_exact (e_op e) \<and> no_legacy env e" using batch_entries_fine [OF fine] by blast
  consider (refused) "wm' = wm"
    | (logged) q w where "append_batch (x_lib env) (x_bin env) io (w_wal wm) ?fs = (q, w)"
        "q = Inl Io \<Longrightarrow> wm' = wm\<lparr>w_wal := w\<rparr>"
    using wal_insert_batch_cases [OF run room good]
  proof (elim disjE exE conjE, goal_cases)
    case 1
    then show ?case by blast
  next
    case (2 c q w)
    show ?case by (rule 2(2) [OF 2(5)]) (use 2(6) in simp)
  qed
  then show ?thesis
  proof cases
    case refused
    then show ?thesis using disk by (auto intro: exI [of _ 0])
  next
    case (logged q w)
    obtain bs k where b: "is_log (x_lib env) (x_bin env) ?fs bs" "ww_file w = ww_file (w_wal wm) @ take k bs" "q = Inl Io"
      using append_batch_prefix [OF _ _ logged(1)] fine' io inv by (auto simp: wal_inv_def)
    have "disk_of wm' = \<lparr>d_snapshot = w_snapshot wm, d_wal = Some (ww_file (w_wal wm) @ take k bs)\<rparr>" "w_dir wm' = w_dir wm"
      using logged(2) b inv by (simp_all add: disk_of_def wal_path_def wal_inv_def)
    moreover have "\<forall>e \<in> set ?fs. op_exact (e_op e) \<and> no_legacy env e" using fine' by blast
    ultimately show ?thesis using disk_inv_torn [OF env inv b(1) batch_numbered [OF inv room], of k] by simp
  qed
qed

section \<open>Every operation\<close>

lemma run_create: "run_live env io ck ls (LCreate name d m kind) wm =
    log_and_apply env io ck wm (CreateCollection name d m kind) (mgr_step (\<lambda>mgr. create_kind mgr name d m kind))"
  by (cases kind) (simp_all add: run_live_def create_kind_def wal_create_collection_def wal_create_ivf_collection_def
      wal_create_ivf_sq8_collection_def wal_create_hnsw_collection_def)

lemma no_value_snd: "no_value m = (r, s) \<Longrightarrow> snd m = s"
  by (cases m; cases "fst m") auto

text \<open>The operations that log one entry.\<close>

lemma single_step:
  fixes env :: "('n, 't) wal_env"
  assumes env: "env_ok env docs" and inv: "wal_inv env wm base old es" and fine: "live_fine env wm x"
    and room: "unat (w_next_lsn wm) + length (live_log x) < 2 ^ 64"
    and log: "live_log x = [opn]" "spec_live x (abs_mgr (w_inner wm)) = spec_op opn (abs_mgr (w_inner wm))"
    and run: "log_and_apply env IoOk ck wm opn f = (q, w)"
    and f: "\<And>q mgr. f (w_inner wm) = (q, mgr) \<Longrightarrow> mgr_good env mgr \<and> abs_mgr mgr = spec_op opn (abs_mgr (w_inner wm))"
  shows "\<exists>base' old' es'. wal_inv env w base' old' es' \<and> abs_mgr (w_inner w) = spec_live x (abs_mgr (w_inner wm)) \<and>
    unat (w_next_lsn w) \<le> unat (w_next_lsn wm) + length (live_log x) \<and> same_setup wm w"
proof -
  have fine': "op_exact opn" "writable env wm (wal_entry_new (w_next_lsn wm) opn)" "unat (w_next_lsn wm) + 1 < 2 ^ 64"
    using fine room log(1) by (auto simp: op_fine_def)
  show ?thesis using log_and_apply_inv [OF env inv fine' f run] log by auto
qed

lemma live_step:
  fixes env :: "('n, 't) wal_env"
  assumes env: "env_ok env docs" and inv: "wal_inv env wm base old es" and fine: "live_fine env wm x"
    and room: "unat (w_next_lsn wm) + length (live_log x) < 2 ^ 64" and run: "run_live env IoOk ck ls x wm = (r, wm')"
  shows "\<exists>base' old' es'. wal_inv env wm' base' old' es' \<and> abs_mgr (w_inner wm') = spec_live x (abs_mgr (w_inner wm)) \<and>
    unat (w_next_lsn wm') \<le> unat (w_next_lsn wm) + length (live_log x) \<and> same_setup wm wm'"
proof -
  have good: "mgr_good env (w_inner wm)" using inv by (simp add: wal_inv_def)
  note single = single_step [OF env inv fine room]
  show ?thesis
  proof (cases x)
    case (LCreate name d m kind)
    have ex: "op_exact (CreateCollection name d m kind :: 'n wal_op)" using fine LCreate by (simp add: op_fine_def)
    show ?thesis using run unfolding LCreate run_create
      by (rule single [unfolded LCreate, rotated 2]) (use mgr_step_create [OF good env ex] in \<open>auto simp: spec_live_def\<close>)
  next
    case (LDrop name)
    show ?thesis using run unfolding LDrop run_live_def live.case wal_drop_collection_def
      by (rule single [unfolded LDrop, rotated 2]) (use mgr_step_drop [OF good] in \<open>auto simp: spec_live_def\<close>)
  next
    case (LInsert col y v p)
    show ?thesis using run unfolding LInsert run_live_def live.case wal_insert_def Let_def
      by (rule single [unfolded LInsert, rotated 2]) (use step_insert [OF good env] in \<open>auto simp: spec_live_def\<close>)
  next
    case (LBatch col items)
    obtain q where "wal_insert_batch env IoOk ls wm col items = (q, wm')"
      using no_value_snd [of "wal_insert_batch env IoOk ls wm col items" r wm'] run
      by (cases "wal_insert_batch env IoOk ls wm col items") (simp add: run_live_def LBatch)
    then show ?thesis using batch_inv [OF env inv, of col items ls q wm'] fine room unfolding LBatch by auto
  next
    case (LDelete col y)
    obtain q where "wal_delete env IoOk ck wm col y = (q, wm')"
      using no_value_snd [of "wal_delete env IoOk ck wm col y" r wm'] run
      by (cases "wal_delete env IoOk ck wm col y") (simp add: run_live_def LDelete)
    then show ?thesis unfolding LDelete wal_delete_def Let_def
      by (rule single [unfolded LDelete, rotated 2]) (use step_delete [OF good env] in \<open>auto simp: spec_live_def\<close>)
  next
    case (LEnableFts col)
    show ?thesis using run unfolding LEnableFts run_live_def live.case wal_enable_fts_def Let_def
      by (rule single [unfolded LEnableFts, rotated 2]) (use step_fts [OF good] in \<open>auto simp: spec_live_def\<close>)
  next
    case (LBind col b)
    show ?thesis using run unfolding LBind run_live_def live.case wal_set_source_binding_def
      by (rule single [unfolded LBind, rotated 2]) (use step_bind [OF good] in \<open>auto simp: spec_live_def\<close>)
  next
    case LCheckpoint
    then have "checkpoint env ck wm = (r, wm')" using run by (simp add: run_live_def)
    then show ?thesis using checkpoint_inv [OF env inv] by (fastforce simp: LCheckpoint spec_live_def)
  qed
qed

section \<open>Interrupted operations\<close>

text \<open>What opening the directory gives after an operation stopped anywhere.\<close>

definition recovers :: "('n, 't) wal_env \<Rightarrow> wal_config \<Rightarrow> string \<Rightarrow> disk \<Rightarrow> 'n astate \<Rightarrow> bool" where
  "recovers env cfg dir d a \<longleftrightarrow> (\<forall>ls. \<exists>wm. open_with_config env ls True cfg dir d = Inr wm \<and>
     mgr_good env (w_inner wm) \<and> abs_mgr (w_inner wm) = a)"

lemma recovers_disk:
  assumes "env_ok env docs" "wal_inv env wm base old es" "disk_inv env dir d snap base old (es @ fs)"
  shows "recovers env cfg dir d (spec_ops (map e_op fs) (abs_mgr (w_inner wm)))"
  unfolding recovers_def
proof
  fix ls
  show "\<exists>wm'. open_with_config env ls True cfg dir d = Inr wm' \<and> mgr_good env (w_inner wm') \<and>
      abs_mgr (w_inner wm') = spec_ops (map e_op fs) (abs_mgr (w_inner wm))"
    using reopen [OF assms(1,3), of ls cfg] assms(2) by (auto simp: wal_inv_def)
qed

lemma recovers_inv:
  assumes "env_ok env docs" "wal_inv env wm base old es"
  shows "recovers env cfg (w_dir wm) (disk_of wm) (abs_mgr (w_inner wm))"
  using recovers_disk [OF assms, of "w_dir wm" "disk_of wm" "w_snapshot_lsn wm" "[]" cfg] assms(2)
  by (simp add: wal_inv_def)

lemma single_fault:
  fixes env :: "('n, 't) wal_env"
  assumes env: "env_ok env docs" and inv: "wal_inv env wm base old es" and fine: "live_fine env wm x"
    and room: "unat (w_next_lsn wm) + length (live_log x) < 2 ^ 64" and io: "io \<noteq> IoOk"
    and log: "live_log x = [opn]" and run: "log_and_apply env io ck wm opn f = (q, w)"
  shows "w_dir w = w_dir wm \<and> (\<exists>i \<le> length (live_log x).
    recovers env cfg (w_dir wm) (disk_of w) (spec_ops (take i (live_log x)) (abs_mgr (w_inner wm))))"
proof -
  let ?e = "wal_entry_new (w_next_lsn wm) opn"
  have fine': "op_exact opn" "writable env wm ?e" "no_legacy env ?e" using fine log by (auto simp: op_fine_def)
  obtain i where i: "w_dir w = w_dir wm" "i \<le> 1" "disk_inv env (w_dir wm) (disk_of w) (w_snapshot_lsn wm) base old (es @ take i [?e])"
    using log_and_apply_fault [OF env inv fine'(1,2) _ fine'(3) io run] room log by auto
  have "map e_op (take i [?e]) = take i (live_log x)" by (simp add: log take_map [symmetric] wal_entry_new_def)
  then show ?thesis using recovers_disk [OF env inv i(3), of cfg] i(1,2) log by auto
qed

lemma live_fault:
  fixes env :: "('n, 't) wal_env"
  assumes env: "env_ok env docs" and inv: "wal_inv env wm base old es" and fine: "live_fine env wm x"
    and room: "unat (w_next_lsn wm) + length (live_log x) < 2 ^ 64" and run: "run_live env io ck ls x wm = (r, wm')"
  shows "w_dir wm' = w_dir wm \<and> (\<exists>i \<le> length (live_log x).
    recovers env cfg (w_dir wm) (disk_of wm') (spec_ops (take i (live_log x)) (abs_mgr (w_inner wm))))"
proof (cases "io = IoOk \<or> x = LCheckpoint")
  case True
  then have run': "run_live env IoOk ck ls x wm = (r, wm')" using run by (auto simp: run_live_def)
  obtain base' old' es' where w: "wal_inv env wm' base' old' es'" "abs_mgr (w_inner wm') = spec_live x (abs_mgr (w_inner wm))"
      "w_dir wm' = w_dir wm" using live_step [OF env inv fine room run'] by (auto simp: same_setup_def)
  have "recovers env cfg (w_dir wm) (disk_of wm') (spec_live x (abs_mgr (w_inner wm)))"
    using recovers_inv [OF env w(1)] w(2,3) by simp
  then show ?thesis using w(3) spec_live_cases [of x "abs_mgr (w_inner wm)"]
    by (metis le_refl take_all_iff zero_le take0 foldl_Nil)
next
  case False
  then have io: "io \<noteq> IoOk" by simp
  note single = single_fault [OF env inv fine room io]
  show ?thesis
  proof (cases x)
    case (LCreate name d m kind)
    show ?thesis using run unfolding LCreate run_create by (rule single [unfolded LCreate, rotated]) simp
  next
    case (LDrop name)
    show ?thesis using run unfolding LDrop run_live_def live.case wal_drop_collection_def
      by (rule single [unfolded LDrop, rotated]) simp
  next
    case (LInsert col y v p)
    show ?thesis using run unfolding LInsert run_live_def live.case wal_insert_def Let_def
      by (rule single [unfolded LInsert, rotated]) simp
  next
    case (LBatch col items)
    obtain q where q: "wal_insert_batch env io ls wm col items = (q, wm')"
      using no_value_snd [of "wal_insert_batch env io ls wm col items" r wm'] run
      by (cases "wal_insert_batch env io ls wm col items") (simp add: run_live_def LBatch)
    have "live_fine env wm (LBatch col items)" "unat (w_next_lsn wm) + length items < 2 ^ 64"
      using fine room by (simp_all add: LBatch)
    then obtain i where i: "w_dir wm' = w_dir wm" "i \<le> length items" "disk_inv env (w_dir wm) (disk_of wm') (w_snapshot_lsn wm) base old
        (es @ take i (batch_entries (w_next_lsn wm) col items))"
      using batch_fault [OF env inv _ _ io q] by blast
    have "map e_op (take i (batch_entries (w_next_lsn wm) col items)) = take i (live_log x)"
      by (simp only: take_map [symmetric] batch_entries_ops LBatch)
    then show ?thesis using recovers_disk [OF env inv i(3), of cfg] i(1,2) by (auto simp: LBatch)
  next
    case (LDelete col y)
    obtain q where "wal_delete env io ck wm col y = (q, wm')"
      using no_value_snd [of "wal_delete env io ck wm col y" r wm'] run
      by (cases "wal_delete env io ck wm col y") (simp add: run_live_def LDelete)
    then show ?thesis unfolding LDelete wal_delete_def Let_def by (rule single [unfolded LDelete, rotated]) simp
  next
    case (LEnableFts col)
    show ?thesis using run unfolding LEnableFts run_live_def live.case wal_enable_fts_def Let_def
      by (rule single [unfolded LEnableFts, rotated]) simp
  next
    case (LBind col b)
    show ?thesis using run unfolding LBind run_live_def live.case wal_set_source_binding_def
      by (rule single [unfolded LBind, rotated]) simp
  qed (use False in simp)
qed

end
