(* ===== verification/Guarantees.thy ===== *)
theory Guarantees
  imports Crash
begin

text \<open>
  The theorems about whole runs of the log manager, and the concrete libraries their witnesses use.
\<close>

section \<open>Runs\<close>

text \<open>Operations one after another, each with the outcome of the checkpoint it may trigger.\<close>

fun run_lives ::
  "('n, 't) wal_env \<Rightarrow> (ck_io \<times> (nat \<Rightarrow> nat) \<times> 'n live) list \<Rightarrow> ('n, 't) wal_manager \<Rightarrow> ('n, 't) wal_manager"
where
  "run_lives env [] wm = wm"
| "run_lives env ((ck, ls, x) # xs) wm = run_lives env xs (snd (run_live env IoOk ck ls x wm))"

abbreviation spec_lives :: "(ck_io \<times> (nat \<Rightarrow> nat) \<times> 'n live) list \<Rightarrow> 'n astate \<Rightarrow> 'n astate" where
  "spec_lives xs a \<equiv> foldl (\<lambda>a (ck, ls, x). spec_live x a) a xs"

abbreviation logged :: "(ck_io \<times> (nat \<Rightarrow> nat) \<times> 'n live) list \<Rightarrow> 'n wal_op list" where
  "logged xs \<equiv> concat (map (\<lambda>(ck, ls, x). live_log x) xs)"

lemma run_lives_inv:
  assumes env: "env_ok env docs" and inv: "wal_inv env wm base old es"
    and fine: "\<forall>opn \<in> set (logged xs). op_fine env (ww_compression (w_wal wm)) opn"
    and room: "unat (w_next_lsn wm) + length (logged xs) < 2 ^ 64"
  shows "\<exists>base' old' es'. wal_inv env (run_lives env xs wm) base' old' es' \<and>
    abs_mgr (w_inner (run_lives env xs wm)) = spec_lives xs (abs_mgr (w_inner wm)) \<and>
    unat (w_next_lsn (run_lives env xs wm)) \<le> unat (w_next_lsn wm) + length (logged xs) \<and>
    same_setup wm (run_lives env xs wm)"
  using inv fine room
proof (induction xs arbitrary: wm base old es)
  case Nil
  then show ?case by (auto simp: same_setup_def)
next
  case (Cons a xs)
  obtain ck ls x where a: "a = (ck, ls, x)" by (cases a)
  obtain r wm1 where run: "run_live env IoOk ck ls x wm = (r, wm1)" by (cases "run_live env IoOk ck ls x wm")
  obtain base1 old1 es1 where 1: "wal_inv env wm1 base1 old1 es1" "abs_mgr (w_inner wm1) = spec_live x (abs_mgr (w_inner wm))"
      "unat (w_next_lsn wm1) \<le> unat (w_next_lsn wm) + length (live_log x)" "same_setup wm wm1"
    using live_step [OF env Cons.prems(1) _ _ run] Cons.prems(2,3) by (auto simp: a)
  have "\<forall>opn \<in> set (logged xs). op_fine env (ww_compression (w_wal wm1)) opn"
    using Cons.prems(2) 1(4) by (auto simp: a same_setup_def)
  moreover have "unat (w_next_lsn wm1) + length (logged xs) < 2 ^ 64" using Cons.prems(3) 1(3) by (simp add: a)
  moreover have "same_setup wm w" if "same_setup wm1 w" for w using that 1(4) by (simp add: same_setup_def)
  ultimately show ?case using Cons.IH [OF 1(1)] 1(2,3) run by (fastforce simp: a)
qed

lemma fresh_run:
  assumes env: "env_ok env docs" and open0: "open_with_config env ls True cfg dir \<lparr>d_snapshot = None, d_wal = None\<rparr> = Inr wm0"
    and fine: "\<forall>opn \<in> set (logged xs). op_fine env (cfg_compression cfg) opn" and room: "1 + length (logged xs) < (2::nat) ^ 64"
  shows "\<exists>base old es. wal_inv env (run_lives env xs wm0) base old es \<and>
    abs_mgr (w_inner (run_lives env xs wm0)) = spec_lives xs Map.empty \<and> w_dir (run_lives env xs wm0) = dir \<and>
    ww_compression (w_wal (run_lives env xs wm0)) = cfg_compression cfg \<and> w_iceberg_watermark (run_lives env xs wm0) = 0 \<and>
    unat (w_next_lsn (run_lives env xs wm0)) \<le> 1 + length (logged xs)"
proof -
  have w0: "wal_inv env wm0 Map.empty [] []" "ww_compression (w_wal wm0) = cfg_compression cfg" "unat (w_next_lsn wm0) = 1" "w_dir wm0 = dir"
    using open_fresh [OF env, of ls cfg dir] open0 by auto
  have "abs_mgr (w_inner wm0) = Map.empty" using w0(1) by (simp add: wal_inv_def)
  then show ?thesis using run_lives_inv [OF env w0(1), of xs] fine room w0(2-4) open_queue [OF open0] by (auto simp: same_setup_def)
qed

section \<open>Concrete libraries\<close>

text \<open>Entries of the listed operations: the version, the place of the operation and the position.\<close>

definition op_bin :: "'n wal_op list \<Rightarrow> 'n bincode" where
  "op_bin ops = \<lparr>bin_write = \<lambda>e. map_option (\<lambda>i. e_version e # of_nat i # le_bytes 8 (unat (e_lsn e))) (position (e_op e) ops),
     bin_read = \<lambda>b. (case b of
        v # i # n \<Rightarrow> if length n = 8 \<and> unat i < length ops
          then Some \<lparr>e_version = v, e_lsn = of_nat (le_val n), e_op = ops ! unat i\<rparr> else None
      | _ \<Rightarrow> None)\<rparr>"

definition no_collections :: "f64 manager_snapshot" where
  "no_collections = \<lparr>ms_collections = [], ms_last_lsn = 0\<rparr>"

definition tiny_env :: "f64 wal_op list \<Rightarrow> (f64, (vecid \<times> string) list) wal_env" where
  "tiny_env ops = \<lparr>x_rt = plain_rt, x_tv = list_engine, x_lib = sum_lib, x_bin = op_bin ops,
     x_snap_write = \<lambda>s. if s = no_collections then Some [] else None,
     x_snap_read = \<lambda>b. if b = [] then Some no_collections else None, x_order = \<lambda>ns. ns\<rparr>"

definition tiny_config :: wal_config where
  "tiny_config = \<lparr>cfg_entries = 0, cfg_bytes = 0, cfg_buffer = 0, cfg_compression = NoCompression\<rparr>"

lemma op_bin_ok: "length ops \<le> 256 \<Longrightarrow> bincode_ok (op_bin ops)"
  unfolding bincode_ok_def
proof (intro allI impI)
  fix e p assume len: "length ops \<le> 256" and "bin_write (op_bin ops) e = Some p"
  then obtain i where i: "position (e_op e) ops = Some i" "p = e_version e # of_nat i # le_bytes 8 (unat (e_lsn e))"
    by (auto simp: op_bin_def)
  then have "i < length ops" "ops ! i = e_op e" using position_SomeD [of "e_op e" ops i] by simp_all
  moreover from this have "unat (of_nat i :: u8) = i" using len by (simp add: unat_of_nat)
  ultimately show "bin_read (op_bin ops) p = Some e \<and> (\<exists>ps. p = e_version e # ps)"
    by (simp add: i op_bin_def le_val_hash)
qed

lemma tiny_env_ok: "length ops \<le> 256 \<Longrightarrow> env_ok (tiny_env ops) map_of"
  using op_bin_ok [of ops] list_engine_works
  by (auto simp: env_ok_def tiny_env_def libs_ok_def zstd_inverts_def sum_lib_def rt_ok_def plain_rt_def)

lemma sum_encode: "encode_payload sum_lib p c = Some z \<Longrightarrow> z = 0 # p"
  by (auto simp: encode_payload_def sum_lib_def split: compression.splits if_splits)

lemma tiny_fine:
  assumes "opn \<in> set ops" "op_exact opn"
  shows "op_fine (tiny_env ops) NoCompression opn"
proof -
  obtain i where i: "position opn ops = Some i" using assms(1) by (cases "position opn ops") simp_all
  have w: "bin_write (op_bin ops) (wal_entry_new lsn opn) = Some (2 # of_nat i # le_bytes 8 (unat lsn))" for lsn
    by (simp add: op_bin_def wal_entry_new_def i CURRENT_WAL_VERSION_def)
  have "no_legacy (tiny_env ops) (wal_entry_new lsn opn)" for lsn
    unfolding no_legacy_def
  proof (intro allI impI)
    fix f m assume f: "holds (x_lib (tiny_env ops)) (x_bin (tiny_env ops)) (wal_entry_new lsn opn) f" and m: "m < length f"
    let ?z = "0 # 2 # of_nat i # le_bytes 8 (unat lsn)"
    have frame: "f = frame sum_lib ?z" using f w [of lsn] by (auto simp: holds_def tiny_env_def dest!: sum_encode)
    then have m: "m < 23" using m by (simp add: HEADER_BYTES_def)
    show "reject_legacy_frame_format (x_lib (tiny_env ops)) (x_bin (tiny_env ops)) (take m f) = Inr ()"
    proof (cases "m < 4")
      case False
      have "le_val (take 4 f) = 11" by (simp add: frame write_frame_def le_val_len)
      moreover have "bin_read (op_bin ops) b = None" if "length b = 11" for b
        using that by (auto simp: op_bin_def split: list.split)
      moreover have "length (take m f) = m" using m by (simp add: frame HEADER_BYTES_def)
      ultimately show ?thesis using m False
        by (simp add: Let_def reject_legacy_frame_format_def tiny_env_def HEADER_BYTES_def LEGACY_CRC_FRAME_HEADER_BYTES_def)
    qed (simp add: reject_legacy_frame_format_def min_def)
  qed
  moreover have "fits sum_lib (op_bin ops) NoCompression (wal_entry_new lsn opn)" for lsn
    by (simp add: fits_def w encode_payload_def)
  ultimately show ?thesis using assms(2) by (simp add: op_fine_def) (simp add: tiny_env_def)
qed

section \<open>Crash recovery\<close>

lemma crash_recovery_lemma:
  assumes env: "env_ok env docs" and open0: "open_with_config env ls True cfg dir \<lparr>d_snapshot = None, d_wal = None\<rparr> = Inr wm0"
    and fine: "\<forall>opn \<in> set (logged xs @ live_log x). op_fine env (cfg_compression cfg) opn"
    and room: "1 + length (logged xs) + length (live_log x) < 2 ^ 64"
    and run: "run_live env io ck ls' x (run_lives env xs wm0) = (r, wm)"
  shows "abs_mgr (w_inner (run_lives env xs wm0)) = spec_lives xs Map.empty \<and>
    (\<exists>i \<le> length (live_log x). recovers env cfg' dir (disk_of wm)
      (spec_ops (take i (live_log x)) (spec_lives xs Map.empty)))"
proof -
  let ?w = "run_lives env xs wm0"
  obtain base old es where w: "wal_inv env ?w base old es" "abs_mgr (w_inner ?w) = spec_lives xs Map.empty" "w_dir ?w = dir"
      "ww_compression (w_wal ?w) = cfg_compression cfg" "unat (w_next_lsn ?w) \<le> 1 + length (logged xs)"
    using fresh_run [OF env open0, of xs] fine room by auto
  have "live_fine env ?w x" "unat (w_next_lsn ?w) + length (live_log x) < 2 ^ 64" using fine room w(4,5) by auto
  then show ?thesis using live_fault [OF env w(1) _ _ run, of cfg'] w(2,3) by auto
qed

text \<open>C1. No acknowledged write is lost, and nothing is invented. Take any run of operations on a new directory
  (creations of any index kind, drops, inserts, batches, deletes, bindings and checkpoints, accepted or refused) whose
  appends succeed, with any outcome of the checkpoints on the way: the collections in memory are what the operations
  mean. If the next operation then stops at any byte of its append, or a checkpoint at any of its steps, opening the
  directory succeeds, and gives exactly that state with the first \<open>i\<close> entries of the interrupted operation: none or
  all of a single operation, a prefix of the rows of a batch.
  The operations are those of \<open>op_fine\<close> (no collection of dimension zero, no HNSW index whose \<open>2 * m\<close> does not
  fit into \<open>usize\<close>, entries the codec can write and the check for the old format does not take for its own), fewer than
  \<open>2 ^ 64\<close> of them; calls of the text library succeed. The collections are compared as in \<open>abs_col\<close>: vectors
  exactly up to the sign of a zero component (the code's own comparison on replay ignores it), and of IVF-SQ8
  collections the ids only.\<close>

theorem crash_recovery:
  assumes "env_ok env docs" "open_with_config env ls True cfg dir \<lparr>d_snapshot = None, d_wal = None\<rparr> = Inr wm0"
    and "\<forall>opn \<in> set (logged xs @ live_log x). op_fine env (cfg_compression cfg) opn"
    and "1 + length (logged xs) + length (live_log x) < 2 ^ 64"
    and "run_live env io ck ls' x (run_lives env xs wm0) = (r, wm)"
  shows "abs_mgr (w_inner (run_lives env xs wm0)) = spec_lives xs Map.empty \<and>
    (\<exists>i \<le> length (live_log x). \<forall>ls2. \<exists>wm2. open_with_config env ls2 True cfg' dir (disk_of wm) = Inr wm2 \<and>
      mgr_good env (w_inner wm2) \<and>
      abs_mgr (w_inner wm2) = spec_ops (take i (live_log x)) (spec_lives xs Map.empty))"
  using crash_recovery_lemma [OF assms, of cfg'] by (simp add: recovers_def)

theorem crash_recovery_witness:
  fixes ops :: "f64 wal_op list"
  defines "ops \<equiv> [CreateCollection ''c'' 2 L2 KFlat, WInsert ''c'' 7 [0, f32_one] (Some (JStr ''x''))]"
  shows "\<exists>wm0. open_with_config (tiny_env ops) (\<lambda>_. 0) True tiny_config ''d'' \<lparr>d_snapshot = None, d_wal = None\<rparr> = Inr wm0 \<and>
    (\<exists>i \<le> 1. \<forall>ls2. \<exists>wm2. open_with_config (tiny_env ops) ls2 True tiny_config ''d''
        (disk_of (snd (run_live (tiny_env ops) (WriteErr 20 15) CkOk (\<lambda>_. 0) (LInsert ''c'' 7 [0, f32_one] (Some (JStr ''x'')))
          (run_lives (tiny_env ops) [(CkOk, \<lambda>_. 0, LCheckpoint), (CkOk, \<lambda>_. 0, LCreate ''c'' 2 L2 KFlat)] wm0)))) = Inr wm2 \<and>
      mgr_good (tiny_env ops) (w_inner wm2) \<and>
      abs_mgr (w_inner wm2) = spec_ops (take i [WInsert ''c'' 7 [0, f32_one] (Some (JStr ''x''))])
        (spec_lives [(CkOk, \<lambda>_. 0 :: nat, LCheckpoint), (CkOk, \<lambda>_. 0, LCreate ''c'' 2 L2 KFlat)] Map.empty))"
proof -
  let ?xs = "[(CkOk, \<lambda>_. 0 :: nat, LCheckpoint), (CkOk, \<lambda>_. 0, LCreate ''c'' 2 L2 KFlat)] :: (ck_io \<times> (nat \<Rightarrow> nat) \<times> f64 live) list"
  let ?x = "LInsert ''c'' 7 [0, f32_one] (Some (JStr ''x'')) :: f64 live"
  have env: "env_ok (tiny_env ops) map_of" by (rule tiny_env_ok) (simp add: ops_def)
  obtain wm0 where open0: "open_with_config (tiny_env ops) (\<lambda>_. 0) True tiny_config ''d'' \<lparr>d_snapshot = None, d_wal = None\<rparr> = Inr wm0"
    using open_fresh [OF env] by blast
  have "op_fine (tiny_env ops) (cfg_compression tiny_config) opn" if "opn \<in> set (logged ?xs @ live_log ?x)" for opn
    using that unfolding tiny_config_def wal_config.simps
    by (intro tiny_fine) (auto simp: ops_def op_exact_def)
  then have fine: "\<forall>opn \<in> set (logged ?xs @ live_log ?x). op_fine (tiny_env ops) (cfg_compression tiny_config) opn" by blast
  obtain r wm where run: "run_live (tiny_env ops) (WriteErr 20 15) CkOk (\<lambda>_. 0) ?x (run_lives (tiny_env ops) ?xs wm0) = (r, wm)"
    by (cases "run_live (tiny_env ops) (WriteErr 20 15) CkOk (\<lambda>_. 0) ?x (run_lives (tiny_env ops) ?xs wm0)")
  have "1 + length (logged ?xs) + length (live_log ?x) < 2 ^ 64" by simp
  note rec = conjunct2 [OF crash_recovery [OF env open0 fine this run, of tiny_config]]
  have "snd (run_live (tiny_env ops) (WriteErr 20 15) CkOk (\<lambda>_. 0) ?x (run_lives (tiny_env ops) ?xs wm0)) = wm"
    by (simp only: run snd_conv)
  then show ?thesis using rec open0 by (simp only: live_log.simps list.size add_0 One_nat_def) blast
qed

section \<open>Positions\<close>

lemma pending_lemma:
  assumes env: "env_ok env docs" and inv: "wal_inv env wm base old es" and zero: "w_iceberg_watermark wm = 0"
  shows "pending_entries env wm = Inr (es, None) \<and> unat (st_last_lsn (stats b wm)) = unat (w_snapshot_lsn wm) + length es"
proof -
  have log: "is_log (x_lib env) (x_bin env) (old @ es) (wal_path wm)" using inv by (simp add: wal_inv_def wal_path_def)
  have num: "numbered (w_snapshot_lsn wm) es" and old: "\<forall>e \<in> set old. e_lsn e \<le> w_snapshot_lsn wm"
    using inv by (auto simp: wal_inv_def disk_inv_def)
  have "filter (newer (Some (w_snapshot_lsn wm))) (old @ es) = es"
    using numbered_above [OF num] old by (auto simp: newer_def filter_empty_conv not_less intro: filter_True)
  moreover have "libs_ok (x_lib env) (x_bin env)" using env by (simp add: env_ok_def)
  ultimately have "pending_entries env wm = Inr (es, None)"
    using open_reader_log [OF _ log, of "Some (w_snapshot_lsn wm)"] inv zero by (simp add: pending_entries_def wal_inv_def)
  moreover have "unat (w_next_lsn wm) = unat (w_snapshot_lsn wm) + length es + 1" using inv by (simp add: wal_inv_def)
  then have "unat (sat_pred (w_next_lsn wm)) = unat (w_snapshot_lsn wm) + length es"
    by (auto simp: sat_pred_def unat_minus_one)
  ultimately show ?thesis by (simp add: stats_def)
qed



section \<open>Failed appends\<close>

text \<open>C18. An operation that is reported as failed can come back: when \<open>fsync\<close> fails after the bytes of an insert
  reached the file, the call returns an I/O error, the collections and the next position stay as they were,
  but the entry is in the log. Opening the directory applies it, and until then the next
  operation is logged under the same position.\<close>

theorem failed_insert_returns:
  assumes "env_ok env docs" "wal_inv env wm base old es" "op_fine env (ww_compression (w_wal wm)) (WInsert col y v p)"
    and "unat (w_next_lsn wm) + 1 < 2 ^ 64" "wal_insert env SyncErr ck l wm col y v p = (r, wm')"
  shows "r = Inl Io \<and> w_inner wm' = w_inner wm \<and> w_next_lsn wm' = w_next_lsn wm \<and>
    (\<exists>wm2. open_with_config env ls True cfg (w_dir wm) (disk_of wm') = Inr wm2 \<and>
      abs_mgr (w_inner wm2) = spec_op (WInsert col y v p) (abs_mgr (w_inner wm)) \<and>
      unat (w_next_lsn wm2) = unat (w_next_lsn wm) + 1)"
proof -
  let ?e = "wal_entry_new (w_next_lsn wm) (WInsert col y v p)"
  have fine: "op_exact (WInsert col y v p)" "writable env wm ?e" "no_legacy env ?e" using assms(3) by (auto simp: op_fine_def)
  have run: "log_and_apply env SyncErr ck wm (WInsert col y v p)
      (\<lambda>mgr. on_collection mgr col (\<lambda>c. col_insert (x_rt env) (x_tv env) l c y v p (w_next_lsn wm))) = (r, wm')"
    using assms(5) by (simp add: wal_insert_def)
  have f: "r = Inl Io" "w_inner wm' = w_inner wm"
      "disk_inv env (w_dir wm) (disk_of wm') (w_snapshot_lsn wm) base old (es @ [?e])"
    using log_and_apply_fault [OF assms(1,2) fine(1,2) assms(4) fine(3) _ run] by auto
  obtain q w where "append_batch (x_lib env) (x_bin env) SyncErr (w_wal wm) [?e] = (q, w)"
    by (cases "append_batch (x_lib env) (x_bin env) SyncErr (w_wal wm) [?e]")
  then have "w_next_lsn wm' = w_next_lsn wm"
    using run f(1) append_batch_prefix [of "[?e]" "x_lib env" "x_bin env" "w_wal wm" SyncErr q w] fine(2) assms(2)
    by (auto simp: log_and_apply_def append_entry_def wal_inv_def wal_entry_new_def)
  moreover obtain wm2 where "open_with_config env ls True cfg (w_dir wm) (disk_of wm') = Inr wm2"
      "abs_mgr (w_inner wm2) = spec_ops (map e_op (es @ [?e])) base" "unat (w_next_lsn wm2) = unat (w_snapshot_lsn wm) + length (es @ [?e]) + 1"
    using reopen [OF assms(1) f(3), of ls cfg] by blast
  ultimately show ?thesis using f(1,2) assms(2) by (auto simp: wal_inv_def wal_entry_new_def)
qed

theorem failed_insert_returns_witness:
  fixes ops :: "f64 wal_op list"
  defines "ops \<equiv> [WInsert ''c'' 7 [0] None]"
  shows "\<exists>wm0 wm'. open_with_config (tiny_env ops) (\<lambda>_. 0) True tiny_config ''d'' \<lparr>d_snapshot = None, d_wal = None\<rparr> = Inr wm0 \<and>
    wal_insert (tiny_env ops) SyncErr CkOk 0 wm0 ''c'' 7 [0] None = (Inl Io, wm') \<and> w_next_lsn wm' = w_next_lsn wm0 \<and>
    (\<exists>wm2. open_with_config (tiny_env ops) (\<lambda>_. 0) True tiny_config ''d'' (disk_of wm') = Inr wm2 \<and> unat (w_next_lsn wm2) = 2)"
proof -
  have env: "env_ok (tiny_env ops) map_of" by (rule tiny_env_ok) (simp add: ops_def)
  obtain wm0 where open0: "open_with_config (tiny_env ops) (\<lambda>_. 0) True tiny_config ''d'' \<lparr>d_snapshot = None, d_wal = None\<rparr> = Inr wm0"
      "wal_inv (tiny_env ops) wm0 Map.empty [] []" "ww_compression (w_wal wm0) = NoCompression" "unat (w_next_lsn wm0) = 1" "w_dir wm0 = ''d''"
    using open_fresh [OF env, of "\<lambda>_. 0" tiny_config "''d''"] by (auto simp: tiny_config_def)
  have "op_fine (tiny_env ops) (ww_compression (w_wal wm0)) (WInsert ''c'' 7 [0] None)"
    unfolding open0(3) by (rule tiny_fine) (simp_all add: ops_def op_exact_def)
  moreover obtain r wm' where "wal_insert (tiny_env ops) SyncErr CkOk 0 wm0 ''c'' 7 [0] None = (r, wm')"
    by (cases "wal_insert (tiny_env ops) SyncErr CkOk 0 wm0 ''c'' 7 [0] None")
  ultimately show ?thesis
    using failed_insert_returns [OF env open0(2), of "''c''" 7 "[0]" None CkOk 0 r wm' "\<lambda>_. 0" tiny_config] open0 by fastforce
qed

text \<open>Replay itself never fails, only reading the log does.\<close>

lemma apply_op_error: "apply_op rt tv l mgr opn lsn dir = (Inl e, mgr') \<Longrightarrow> \<exists>x. e = Apply x"
proof (cases opn)
  case (WInsert col y v p)
  moreover assume "apply_op rt tv l mgr opn lsn dir = (Inl e, mgr')"
  ultimately have "map_prod (map_sum Apply id) id (on_collection mgr col (replay_insert rt tv l y v p lsn)) = (Inl e, mgr')"
    by (simp add: apply_op_def)
  then obtain q where "Inl e = map_sum Apply id (q :: db_error + unit)" by (rule map_prod_fstE)
  then show ?thesis by (cases q) simp_all
next
  case (WDelete col y)
  moreover assume "apply_op rt tv l mgr opn lsn dir = (Inl e, mgr')"
  ultimately have "map_prod (map_sum Apply id) id (on_collection mgr col (\<lambda>c. apply_delta_row rt tv l c (DDelete y) lsn)) = (Inl e, mgr')"
    by (simp add: apply_op_def)
  then obtain q where "Inl e = map_sum Apply id (q :: db_error + unit)" by (rule map_prod_fstE)
  then show ?thesis by (cases q) simp_all
qed (auto simp: apply_op_def split: sum.splits db_error.splits prod.splits)

lemma replay_total: "\<exists>rp'. replay_entries env ls snap dir rp es = Inr rp'"
proof (induction es arbitrary: rp)
  case (Cons e es)
  obtain r mgr where app: "apply_op (x_rt env) (x_tv env) (ls (length es)) (rp_mgr rp) (e_op e) (e_lsn e) (Some dir) = (r, mgr)"
    by (cases "apply_op (x_rt env) (x_tv env) (ls (length es)) (rp_mgr rp) (e_op e) (e_lsn e) (Some dir)")
  show ?case
  proof (cases r)
    case (Inl x)
    then obtain y where "x = Apply y" using apply_op_error app by blast
    then show ?thesis using Cons app Inl by (simp add: Let_def)
  next
    case (Inr u)
    then show ?thesis using Cons app by (simp add: Let_def)
  qed
qed simp


text \<open>The frame of an entry of the concrete serializer.\<close>

lemma tiny_frame:
  assumes "position opn ops = Some i"
  shows "holds (x_lib (tiny_env ops)) (x_bin (tiny_env ops)) (wal_entry_new lsn opn) f \<longleftrightarrow>
    f = frame sum_lib (0 # 2 # of_nat i # le_bytes 8 (unat lsn))"
proof
  assume "holds (x_lib (tiny_env ops)) (x_bin (tiny_env ops)) (wal_entry_new lsn opn) f"
  then show "f = frame sum_lib (0 # 2 # of_nat i # le_bytes 8 (unat lsn))"
    using assms by (auto simp: holds_def tiny_env_def op_bin_def wal_entry_new_def CURRENT_WAL_VERSION_def dest!: sum_encode)
next
  assume f: "f = frame sum_lib (0 # 2 # of_nat i # le_bytes 8 (unat lsn))"
  have "bin_write (op_bin ops) (wal_entry_new lsn opn) = Some (2 # of_nat i # le_bytes 8 (unat lsn))"
    using assms by (simp add: op_bin_def wal_entry_new_def CURRENT_WAL_VERSION_def)
  moreover have "encode_payload sum_lib (2 # of_nat i # le_bytes 8 (unat lsn)) NoCompression = Some (0 # 2 # of_nat i # le_bytes 8 (unat lsn))"
    by (simp add: encode_payload_def)
  ultimately show "holds (x_lib (tiny_env ops)) (x_bin (tiny_env ops)) (wal_entry_new lsn opn) f"
    unfolding holds_def f by (intro exI conjI) (simp_all add: tiny_env_def wal_entry_new_def)
qed


end
