(* ===== verification/ServerProps.thy ===== *)
theory ServerProps
  imports Server Guarantees
begin

text \<open>What the server promises: who gets in, how much a query returns, and where Parquet files may be.\<close>

section \<open>Tokens\<close>

lemma or_fold_zero: "foldl (\<lambda>acc (x, y). or acc (xor x y)) a ps = 0 \<longleftrightarrow> a = 0 \<and> (\<forall>(x, y) \<in> set ps. x = y)" for a :: u8
proof (induction ps arbitrary: a)
  case (Cons p ps)
  obtain x y where p: "p = (x, y)" by (cases p)
  have "xor x y = 0 \<longleftrightarrow> x = y" by (metis xor.assoc xor.left_neutral xor_self_eq xor.right_neutral)
  then have "or a (xor x y) = 0 \<longleftrightarrow> a = 0 \<and> x = y" by (simp add: or_eq_0_iff)
  then show ?case using Cons by (auto simp: p)
qed simp

lemma constant_time_eq_iff: "constant_time_eq a b \<longleftrightarrow> a = b"
proof -
  have "constant_time_eq a b \<longleftrightarrow> length a = length b \<and> (\<forall>(x, y) \<in> set (zip a b). x = y)"
    by (auto simp: constant_time_eq_def or_fold_zero)
  then show ?thesis by (auto simp: list_eq_iff_zip_eq zip_same)
qed

lemma as_bytes_inj: "as_bytes s = as_bytes t \<longleftrightarrow> s = t"
proof -
  have "inj (\<lambda>c. of_nat (of_char c) :: u8)"
  proof (rule injI)
    fix c d :: char assume "of_nat (of_char c) = (of_nat (of_char d) :: u8)"
    moreover have "unat (of_nat (of_char x) :: u8) = of_char x" for x using nat_of_char_less_256 [of x] by (simp add: unat_of_nat take_bit_nat_eq_self)
    ultimately have "(of_char c :: nat) = of_char d" by metis
    then show "c = d" by simp
  qed
  then show ?thesis unfolding as_bytes_def by (simp add: inj_map_eq_map)
qed

lemma strip_prefix_Some: "strip_prefix p s = Some t \<longleftrightarrow> s = p @ t"
  by (auto simp: strip_prefix_def) (metis append_take_drop_id)

lemma strip_prefix_append [simp]: "strip_prefix p (p @ t) = Some t"
  by (simp add: strip_prefix_def)

lemma admitted_iff: "admitted token header \<longleftrightarrow> (case token of None \<Rightarrow> True | Some t \<Rightarrow> header = Some (''Bearer '' @ t))"
proof (cases token)
  case (Some t)
  have "extract_bearer header = Some u \<longleftrightarrow> header = Some (''Bearer '' @ u)" for u
    by (cases header) (simp_all add: extract_bearer_def strip_prefix_Some)
  then show ?thesis using Some
    by (cases "extract_bearer header") (auto simp: admitted_def is_enabled_def verify_def constant_time_eq_iff as_bytes_inj simp del: append.simps)
qed (simp add: admitted_def is_enabled_def)

section \<open>Paths\<close>

text \<open>An import reads a canonical path below the root. An export writes below the canonical parent; the last component is
  the name of the request, which the operating system may resolve further.\<close>

lemma resolved_below_root:
  assumes "resolve_under_root root canonicalize requested must_exist = Inr p"
  shows "\<exists>r base. root = Some r \<and> canonicalize (components r) = Some base \<and> starts_with p base \<and>
    (if must_exist then canonicalize (join_path base requested) = Some p
     else \<exists>dir dir' name. parent (join_path base requested) = Some dir \<and> canonicalize dir = Some dir' \<and> p = dir' @ [Normal name])"
  using assms
  by (auto simp: resolve_under_root_def Let_def and_next_Inr ok_or_Inr split: option.splits if_splits)

lemma unset_root_forbidden: "resolve_under_root None canonicalize requested must_exist = Inl Forbidden"
  by (simp add: resolve_under_root_def)

section \<open>Reading requests\<close>

text \<open>Requests that only read leave the store alone.\<close>

definition reads_only :: "'n route \<Rightarrow> bool" where
  "reads_only req \<longleftrightarrow> (case req of
       CreateRoute _ \<Rightarrow> False | DropRoute _ \<Rightarrow> False | InsertRoute _ _ \<Rightarrow> False | DeleteRoute _ _ \<Rightarrow> False | ImportRoute _ _ \<Rightarrow> False
     | _ \<Rightarrow> True)"

lemma reads_keep: "reads_only req \<Longrightarrow> snd (handle sv req wm) = wm"
  by (cases req) (simp_all add: reads_only_def)

section \<open>Properties\<close>

text \<open>C39. With a token configured, a request gets past the door exactly when it is for the health page or carries the header
  \<open>Bearer\<close>, a space and the token, byte for byte. It is then handled as by a server without a token; any other request is
  answered with 401 and changes nothing. An empty token is the same as none, and then everybody gets in.\<close>

theorem router_gate:
  "router (api_token_new token) header sv req wm =
    (if req = Health \<or> token = None \<or> token = Some [] \<or> header = Some (''Bearer '' @ the token)
     then map_prod Some id (handle sv req wm) else (None, wm))"
  by (cases token) (auto simp: router_def require_bearer_def admitted_iff api_token_new_def)

end
