(* ===== verification/Grpc.thy ===== *)
theory Grpc
  imports ServerProps
begin

text \<open>
  The gRPC service (\<open>grpc/service.rs\<close>, \<open>grpc/error.rs\<close>, \<open>grpc_interceptor\<close> of \<open>auth.rs\<close>): the same store behind another
  protocol, with its own copy of every handler. The messages are those of \<open>proto/likhadb.proto\<close>.
\<close>

section \<open>Statuses\<close>

datatype status = SNotFound | SAlreadyExists | SInvalidArgument | SPermissionDenied | SInternal | SUnauthenticated | SPanic

fun core_err :: "db_error \<Rightarrow> status" where
  "core_err (CollectionNotFound n) = SNotFound"
| "core_err (VectorNotFound y) = SNotFound"
| "core_err (CollectionAlreadyExists n) = SAlreadyExists"
| "core_err (DimMismatch a b) = SInvalidArgument"
| "core_err InvalidArgument = SInvalidArgument"
| "core_err FtsError = SInternal"
| "core_err Panicked = SPanic"

fun persist_err :: "persist_error \<Rightarrow> status" where
  "persist_err (Apply e) = core_err e"
| "persist_err _ = SInternal"

fun api_err :: "api_error \<Rightarrow> status" where
  "api_err BadRequest = SInvalidArgument"
| "api_err NotFound = SNotFound"
| "api_err Conflict = SAlreadyExists"
| "api_err Forbidden = SPermissionDenied"
| "api_err Internal = SInternal"
| "api_err HandlerPanic = SPanic"

section \<open>Messages\<close>

datatype grpc_index = GFlat | GIvf u32 u32 | GIvfSq8 u32 u32 | GHnsw u32 u32 u32

record grpc_create =
  gc_name :: string
  gc_dim :: u32
  gc_metric :: string
  gc_index_config :: "grpc_index option"
  gc_enable_fts :: bool

record grpc_insert =
  gi_collection :: string
  gi_id :: u64
  gi_vector :: vec
  gi_payload_json :: bytes

record grpc_query =
  gq_collection :: string
  gq_vector :: vec
  gq_k :: u32
  gq_filter_json :: bytes
  gq_include_payload :: bool

record grpc_hybrid =
  gh_collection :: string
  gh_vector :: vec
  gh_text :: string
  gh_k :: u32
  gh_rrf_k :: u32
  gh_filter_json :: bytes
  gh_include_payload :: bool

datatype call =
    CHealth
  | CListCollections
  | CCreateCollection grpc_create
  | CGetCollection string
  | CDropCollection string
  | CInsertVector grpc_insert
  | CGetVector string u64
  | CDeleteVector string u64
  | CQuery grpc_query
  | CHybridQuery grpc_hybrid
  | CQueryStream grpc_query

type_synonym grpc_hit = "u64 \<times> f32 \<times> bytes"

datatype reply =
    RHealth
  | RCollections "string list"
  | RInfo string u32 string u64 string
  | REmpty
  | RVector u64 vec bytes
  | RHits "grpc_hit list"
  | RStream "(status + grpc_hit) list"

text \<open>\<open>serde_json::from_slice\<close> and \<open>to_vec\<close>\<close>

record 'n json_bytes =
  from_slice :: "bytes \<Rightarrow> 'n json option"
  to_vec :: "'n json \<Rightarrow> bytes option"

section \<open>Helpers\<close>

definition decode_filter :: "'n json_bytes \<Rightarrow> bytes \<Rightarrow> status + 'n json option" where
  "decode_filter js raw = (if raw = [] then Inr None else map_sum id Some (ok_or SInvalidArgument (from_slice js raw)))"

definition payload_to_bytes :: "'n json_bytes \<Rightarrow> 'n json option \<Rightarrow> status + bytes" where
  "payload_to_bytes js p = (case p of Some v \<Rightarrow> ok_or SInternal (to_vec js v) | None \<Rightarrow> Inr [])"

definition encode_scored_result :: "'n json_bytes \<Rightarrow> 'n json scored_result \<Rightarrow> status + grpc_hit" where
  "encode_scored_result js r =
     map_sum id (\<lambda>b. (r_id r, r_score r, b)) (case r_payload r of Some p \<Rightarrow> ok_or SInternal (to_vec js p) | None \<Rightarrow> Inr [])"

definition encode_scored_results :: "'n json_bytes \<Rightarrow> 'n json scored_result list \<Rightarrow> status + grpc_hit list" where
  "encode_scored_results js rs = traverse (encode_scored_result js) rs"

section \<open>Methods\<close>

definition grpc_create_collection ::
  "('n, 't, 'f) server_env \<Rightarrow> grpc_create \<Rightarrow> ('n, 't) wal_manager \<Rightarrow> (status + reply) \<times> ('n, 't) wal_manager"
where
  "grpc_create_collection sv req wm = (case parse_metric (gc_metric req) of
       Inl e \<Rightarrow> (Inl (api_err e), wm)
     | Inr m \<Rightarrow>
         let dim = unat (gc_dim req); env = sv_wal sv; io = fst (sv_io sv 0); ck = snd (sv_io sv 0); name = gc_name req
         in case (case gc_index_config req of
                None \<Rightarrow> wal_create_collection env io ck wm name dim m
              | Some GFlat \<Rightarrow> wal_create_collection env io ck wm name dim m
              | Some (GIvf nlist nprobe) \<Rightarrow> wal_create_ivf_collection env io ck wm name dim m (unat nlist) (unat nprobe)
              | Some (GIvfSq8 nlist nprobe) \<Rightarrow> wal_create_ivf_sq8_collection env io ck wm name dim m (unat nlist) (unat nprobe)
              | Some (GHnsw edges efc efs) \<Rightarrow> wal_create_hnsw_collection env io ck wm name dim m (unat edges) (unat efc) (unat efs)) of
             (Inl e, wm1) \<Rightarrow> (Inl (persist_err e), wm1)
           | (Inr _, wm1) \<Rightarrow>
               if gc_enable_fts req
               then map_prod (map_sum persist_err (\<lambda>_. REmpty)) id (wal_enable_fts env (fst (sv_io sv 1)) (snd (sv_io sv 1)) wm1 name)
               else (Inr REmpty, wm1))"

definition grpc_get_collection :: "string \<Rightarrow> ('n, 't) wal_manager \<Rightarrow> status + reply" where
  "grpc_get_collection name wm = map_sum core_err (\<lambda>c. RInfo (c_name c) (of_nat (c_dim c)) (metric_str (c_metric c))
     (of_nat (col_len c)) (col_index_type c)) (wal_get wm name)"

definition grpc_drop_collection ::
  "('n, 't, 'f) server_env \<Rightarrow> string \<Rightarrow> ('n, 't) wal_manager \<Rightarrow> (status + reply) \<times> ('n, 't) wal_manager"
where
  "grpc_drop_collection sv name wm =
     map_prod (map_sum persist_err (\<lambda>_. REmpty)) id (wal_drop_collection (sv_wal sv) (fst (sv_io sv 0)) (snd (sv_io sv 0)) wm name)"

definition grpc_insert_vector ::
  "'n json_bytes \<Rightarrow> ('n, 't, 'f) server_env \<Rightarrow> grpc_insert \<Rightarrow> ('n, 't) wal_manager \<Rightarrow> (status + reply) \<times> ('n, 't) wal_manager"
where
  "grpc_insert_vector js sv req wm =
     (case (if gi_payload_json req = [] then Inr None
            else map_sum id Some (ok_or SInvalidArgument (from_slice js (gi_payload_json req)))) of
        Inl s \<Rightarrow> (Inl s, wm)
      | Inr payload \<Rightarrow> map_prod (map_sum persist_err (\<lambda>_. REmpty)) id
          (wal_insert (sv_wal sv) (fst (sv_io sv 0)) (snd (sv_io sv 0)) (sv_level sv) wm (gi_collection req) (gi_id req) (gi_vector req) payload))"

definition grpc_get_vector :: "'n json_bytes \<Rightarrow> string \<Rightarrow> u64 \<Rightarrow> ('n, 't) wal_manager \<Rightarrow> status + reply" where
  "grpc_get_vector js name y wm = (case wal_get wm name of
       Inl e \<Rightarrow> Inl (core_err e)
     | Inr c \<Rightarrow> (case col_get c y of
         None \<Rightarrow> Inl SNotFound
       | Some (v, p) \<Rightarrow> map_sum id (RVector y v) (payload_to_bytes js p)))"

definition grpc_delete_vector ::
  "('n, 't, 'f) server_env \<Rightarrow> string \<Rightarrow> u64 \<Rightarrow> ('n, 't) wal_manager \<Rightarrow> (status + reply) \<times> ('n, 't) wal_manager"
where
  "grpc_delete_vector sv name y wm =
     map_prod (map_sum persist_err (\<lambda>_. REmpty)) id (wal_delete (sv_wal sv) (fst (sv_io sv 0)) (snd (sv_io sv 0)) wm name y)"

text \<open>The common part of \<open>query\<close> and \<open>query_stream\<close>\<close>

definition grpc_search ::
  "'n json_bytes \<Rightarrow> ('n, 't, 'f) server_env \<Rightarrow> grpc_query \<Rightarrow> ('n, 't) wal_manager \<Rightarrow> status + 'n json scored_result list"
where
  "grpc_search js sv req wm =
     and_next (map_sum api_err id (validate_k (unat (gq_k req)))) (\<lambda>k.
     and_next (decode_filter js (gq_filter_json req)) (\<lambda>predicate.
     and_next (map_sum core_err id (wal_get wm (gq_collection req))) (\<lambda>c.
       map_sum core_err id (col_search (x_rt (sv_wal sv)) (sv_num sv) c (gq_vector req) k predicate (gq_include_payload req)))))"

definition grpc_query_method ::
  "'n json_bytes \<Rightarrow> ('n, 't, 'f) server_env \<Rightarrow> grpc_query \<Rightarrow> ('n, 't) wal_manager \<Rightarrow> status + reply"
where
  "grpc_query_method js sv req wm = and_next (grpc_search js sv req wm) (\<lambda>rs. map_sum id RHits (encode_scored_results js rs))"

definition grpc_query_stream ::
  "'n json_bytes \<Rightarrow> ('n, 't, 'f) server_env \<Rightarrow> grpc_query \<Rightarrow> ('n, 't) wal_manager \<Rightarrow> status + reply"
where
  "grpc_query_stream js sv req wm = and_next (grpc_search js sv req wm) (\<lambda>rs. Inr (RStream (map (encode_scored_result js) rs)))"

definition grpc_hybrid_query ::
  "'n json_bytes \<Rightarrow> ('n, 't, 'f) server_env \<Rightarrow> grpc_hybrid \<Rightarrow> ('n, 't) wal_manager \<Rightarrow> status + reply"
where
  "grpc_hybrid_query js sv req wm =
     and_next (map_sum api_err id (validate_k (unat (gh_k req)))) (\<lambda>k.
     and_next (decode_filter js (gh_filter_json req)) (\<lambda>predicate.
     and_next (map_sum core_err id (wal_get wm (gh_collection req))) (\<lambda>c.
     and_next (map_sum core_err id (hybrid_search (x_rt (sv_wal sv)) (x_tv (sv_wal sv)) (sv_num sv) c (gh_vector req) (gh_text req) k
         (if gh_rrf_k req = 0 then 60 else gh_rrf_k req) predicate (gh_include_payload req))) (\<lambda>rs.
       map_sum id RHits (encode_scored_results js rs)))))"

fun serve ::
  "'n json_bytes \<Rightarrow> ('n, 't, 'f) server_env \<Rightarrow> call \<Rightarrow> ('n, 't) wal_manager \<Rightarrow> (status + reply) \<times> ('n, 't) wal_manager"
where
  "serve js sv CHealth wm = (Inr RHealth, wm)"
| "serve js sv CListCollections wm = (Inr (RCollections (wal_list wm)), wm)"
| "serve js sv (CCreateCollection req) wm = grpc_create_collection sv req wm"
| "serve js sv (CGetCollection name) wm = (grpc_get_collection name wm, wm)"
| "serve js sv (CDropCollection name) wm = grpc_drop_collection sv name wm"
| "serve js sv (CInsertVector req) wm = grpc_insert_vector js sv req wm"
| "serve js sv (CGetVector name y) wm = (grpc_get_vector js name y wm, wm)"
| "serve js sv (CDeleteVector name y) wm = grpc_delete_vector sv name y wm"
| "serve js sv (CQuery req) wm = (grpc_query_method js sv req wm, wm)"
| "serve js sv (CHybridQuery req) wm = (grpc_hybrid_query js sv req wm, wm)"
| "serve js sv (CQueryStream req) wm = (grpc_query_stream js sv req wm, wm)"

text \<open>The interceptor stands before every method, the health check included.\<close>

definition grpc_interceptor ::
  "api_token \<Rightarrow> string option \<Rightarrow> 'n json_bytes \<Rightarrow> ('n, 't, 'f) server_env \<Rightarrow> call \<Rightarrow> ('n, 't) wal_manager \<Rightarrow>
     (status + reply) \<times> ('n, 't) wal_manager"
where
  "grpc_interceptor token header js sv c wm = (if admitted token header then serve js sv c wm else (Inl SUnauthenticated, wm))"

section \<open>The same service twice\<close>

text \<open>The HTTP request that a call amounts to, and what its answer is as a message.\<close>

definition index_of_message :: "grpc_index option \<Rightarrow> index_config" where
  "index_of_message m = (case m of
       None \<Rightarrow> CfgFlat
     | Some GFlat \<Rightarrow> CfgFlat
     | Some (GIvf a b) \<Rightarrow> CfgIvf (unat a) (unat b)
     | Some (GIvfSq8 a b) \<Rightarrow> CfgIvfSq8 (unat a) (unat b)
     | Some (GHnsw a b c) \<Rightarrow> CfgHnsw (unat a) (unat b) (unat c))"

definition query_route :: "'n json_bytes \<Rightarrow> grpc_query \<Rightarrow> status + 'n route" where
  "query_route js req = map_sum id (\<lambda>f. QueryRoute (gq_collection req)
     \<lparr>qq_vector = gq_vector req, qq_k = unat (gq_k req), qq_filter = f, qq_include_payload = gq_include_payload req,
      qq_allowed_teams = [], qq_query_text = None\<rparr>) (decode_filter js (gq_filter_json req))"

fun rest_route :: "'n json_bytes \<Rightarrow> call \<Rightarrow> status + 'n route" where
  "rest_route js CHealth = Inr Health"
| "rest_route js CListCollections = Inr ListCollections"
| "rest_route js (CCreateCollection req) = Inr (CreateRoute \<lparr>cq_name = gc_name req, cq_dim = unat (gc_dim req),
     cq_metric = gc_metric req, cq_index = index_of_message (gc_index_config req), cq_enable_fts = gc_enable_fts req, cq_source_binding = None\<rparr>)"
| "rest_route js (CGetCollection name) = Inr (InfoRoute name)"
| "rest_route js (CDropCollection name) = Inr (DropRoute name)"
| "rest_route js (CInsertVector req) = map_sum id (\<lambda>p. InsertRoute (gi_collection req)
     \<lparr>iq_id = gi_id req, iq_vector = gi_vector req, iq_payload = p\<rparr>) (decode_filter js (gi_payload_json req))"
| "rest_route js (CGetVector name y) = Inr (GetRoute name y)"
| "rest_route js (CDeleteVector name y) = Inr (DeleteRoute name y)"
| "rest_route js (CQuery req) = query_route js req"
| "rest_route js (CHybridQuery req) = map_sum id (\<lambda>f. HybridRoute (gh_collection req)
     \<lparr>hq_vector = gh_vector req, hq_text = gh_text req, hq_k = unat (gh_k req),
      hq_rrf_k = (if gh_rrf_k req = 0 then 60 else gh_rrf_k req), hq_filter = f, hq_include_payload = gh_include_payload req,
      hq_allowed_teams = []\<rparr>) (decode_filter js (gh_filter_json req))"
| "rest_route js (CQueryStream req) = query_route js req"

definition is_stream :: "call \<Rightarrow> bool" where
  "is_stream c \<longleftrightarrow> (case c of CQueryStream _ \<Rightarrow> True | _ \<Rightarrow> False)"

definition reply_of :: "'n json_bytes \<Rightarrow> call \<Rightarrow> ('n, 'f) response \<Rightarrow> status + reply" where
  "reply_of js c r = (case r of
       Healthy \<Rightarrow> Inr RHealth
     | Collections ns \<Rightarrow> Inr (RCollections ns)
     | Info i \<Rightarrow> Inr (RInfo (ci_name i) (of_nat (ci_dim i)) (ci_metric i) (of_nat (ci_count i)) (ci_index_type i))
     | Stored y v p \<Rightarrow> map_sum id (RVector y v) (payload_to_bytes js p)
     | Hits rs \<Rightarrow> if is_stream c then Inr (RStream (map (encode_scored_result js) rs)) else map_sum id RHits (encode_scored_results js rs)
     | _ \<Rightarrow> Inr REmpty)"

lemma api_err_db [simp]: "api_err (api_of_db e) = core_err e"
  by (cases e) simp_all

lemma api_err_persist [simp]: "api_err (api_of_persist e) = persist_err e"
  by (cases e) simp_all

definition as_call ::
  "'n json_bytes \<Rightarrow> call \<Rightarrow> (api_error + ('n, 'f) response) \<times> ('n, 't) wal_manager \<Rightarrow> (status + reply) \<times> ('n, 't) wal_manager"
where
  "as_call js c r = (and_next (map_sum api_err id (fst r)) (reply_of js c), snd r)"

text \<open>What the HTTP handlers read after a write is there.\<close>

lemma maybe_checkpoint_collections: "maybe_checkpoint env ck wm = (r, wm') \<Longrightarrow> w_inner wm' = w_inner wm"
  by (auto simp: maybe_checkpoint_def checkpoint_def Let_def split: if_splits option.splits prod.splits)

lemma written_collection_found:
  assumes "log_and_apply env io ck wm opn (\<lambda>mgr. on_collection mgr name f) = (Inr x, wm')"
  shows "\<exists>c. wal_get wm' name = Inr c"
proof -
  let ?e = "wal_entry_new (w_next_lsn wm) opn"
  obtain a w where app: "append_entry (x_lib env) (x_bin env) io (w_wal wm) ?e = (a, w)"
    by (cases "append_entry (x_lib env) (x_bin env) io (w_wal wm) ?e")
  define wm2 where "wm2 = record_append env (wm\<lparr>w_wal := w\<rparr>) ?e"
  obtain q mgr where q: "on_collection (w_inner wm2) name f = (q, mgr)" by (cases "on_collection (w_inner wm2) name f")
  obtain r4 wm4 where m: "maybe_checkpoint env ck (wm2\<lparr>w_inner := mgr\<rparr>) = (r4, wm4)" by (cases "maybe_checkpoint env ck (wm2\<lparr>w_inner := mgr\<rparr>)")
  have ok: "(\<exists>y. q = Inr y) \<and> wm' = wm4"
    using assms app q m by (cases a; cases q; cases r4) (auto simp: log_and_apply_def Let_def simp flip: wm2_def)
  from q have "hm_get mgr name \<noteq> None"
    using ok by (cases rule: on_collection_cases) (auto simp: hm_get_insert)
  then show ?thesis using maybe_checkpoint_collections [OF m] ok by (auto simp: wal_get_def mgr_get_def)
qed

lemma read_back_found:
  assumes "\<And>x wm'. r = (Inr x, wm') \<Longrightarrow> \<exists>c. wal_get wm' name = Inr c"
  shows "as_call js c (read_back_collection name r) = map_prod (map_sum persist_err (\<lambda>_. REmpty)) id r"
proof (cases r)
  case (Pair q wm')
  then show ?thesis using assms by (cases q) (fastforce simp: as_call_def read_back_collection_def reply_of_def)+
qed

lemma query_route_keeps [simp]: "query_route js req = Inr rq \<Longrightarrow> snd (handle sv rq wm) = wm"
  by (auto simp: query_route_def map_sum_Inr)

lemma write_read_back [simp]:
  "as_call js c (read_back_collection name (wal_insert env io ck l wm name y v p)) =
    map_prod (map_sum persist_err (\<lambda>_. REmpty)) id (wal_insert env io ck l wm name y v p)"
  "as_call js c (read_back_collection name (wal_delete env io ck wm name y)) =
    map_prod (map_sum persist_err (\<lambda>_. REmpty)) id (wal_delete env io ck wm name y)"
  by (rule read_back_found; auto simp: wal_insert_def wal_delete_def Let_def intro: written_collection_found)+

lemma create_index_message:
  "create_index env io ck wm name dim m (index_of_message cfg) = (case cfg of
       None \<Rightarrow> wal_create_collection env io ck wm name dim m
     | Some GFlat \<Rightarrow> wal_create_collection env io ck wm name dim m
     | Some (GIvf nlist nprobe) \<Rightarrow> wal_create_ivf_collection env io ck wm name dim m (unat nlist) (unat nprobe)
     | Some (GIvfSq8 nlist nprobe) \<Rightarrow> wal_create_ivf_sq8_collection env io ck wm name dim m (unat nlist) (unat nprobe)
     | Some (GHnsw edges efc efs) \<Rightarrow> wal_create_hnsw_collection env io ck wm name dim m (unat edges) (unat efc) (unat efs))"
  by (simp add: create_index_def index_of_message_def split: option.split grpc_index.split)

lemma create_agrees: "serve js sv (CCreateCollection req) wm = (case rest_route js (CCreateCollection req) of
    Inl s \<Rightarrow> (Inl s, wm) | Inr rq \<Rightarrow> as_call js (CCreateCollection req) (handle sv rq wm))"
proof (cases "parse_metric (gc_metric req)")
  case (Inr m)
  let ?io = "fst (sv_io sv 0)" and ?ck = "snd (sv_io sv 0)"
  obtain q wm1 where q: "create_index (sv_wal sv) ?io ?ck wm (gc_name req) (unat (gc_dim req)) m (index_of_message (gc_index_config req)) = (q, wm1)"
    by (cases "create_index (sv_wal sv) ?io ?ck wm (gc_name req) (unat (gc_dim req)) m (index_of_message (gc_index_config req))")
  obtain q2 wm2 where "wal_enable_fts (sv_wal sv) (fst (sv_io sv 1)) (snd (sv_io sv 1)) wm1 (gc_name req) = (q2, wm2)"
    by (cases "wal_enable_fts (sv_wal sv) (fst (sv_io sv 1)) (snd (sv_io sv 1)) wm1 (gc_name req)")
  then show ?thesis using Inr q
    by (cases q; cases q2) (simp_all add: as_call_def grpc_create_collection_def create_collection_handler_def Let_def reply_of_def
      create_index_message [symmetric])
qed (simp add: as_call_def grpc_create_collection_def create_collection_handler_def)

lemma map_error_and_next: "map_sum f id (and_next m g) = and_next (map_sum f id m) (\<lambda>x. map_sum f id (g x))"
  by (cases m) simp_all

lemma map_error_twice: "map_sum f id (map_sum h id m) = map_sum (f \<circ> h) id m"
  by (cases m) simp_all

lemma and_next_assoc: "and_next (and_next m g) h = and_next m (\<lambda>x. and_next (g x) h)"
  by (cases m) simp_all

lemmas sum_steps = map_error_and_next map_error_twice and_next_assoc

text \<open>A call with a \<open>k\<close> out of range and unreadable JSON has the same status either way.\<close>

lemma query_agrees:
  fixes sv :: "('n, 't, 'f) server_env"
  assumes "sv_pipeline sv = None" "c = CQuery req \<or> c = CQueryStream req"
  shows "and_next (grpc_search js sv req wm) (\<lambda>rs. reply_of js c (Hits rs :: ('n, 'f) response)) = (case query_route js req of
      Inl s \<Rightarrow> Inl s | Inr rq \<Rightarrow> and_next (map_sum api_err id (fst (handle sv rq wm))) (reply_of js c))"
proof (cases "validate_k (unat (gq_k req))")
  case (Inl e)
  then have "e = BadRequest" by (auto simp: validate_k_def split: if_splits)
  then show ?thesis using Inl by (cases "decode_filter js (gq_filter_json req)")
    (auto simp: grpc_search_def query_route_def query_vectors_def decode_filter_def ok_or_def split: if_splits option.splits)
next
  case (Inr k)
  have api: "api_err \<circ> api_of_db = core_err" by auto
  show ?thesis using Inr assms(1)
    by (cases "decode_filter js (gq_filter_json req)")
      (simp_all add: grpc_search_def query_route_def query_vectors_def answer_def sum_steps api)
qed

lemma hybrid_agrees:
  fixes sv :: "('n, 't, 'f) server_env"
  assumes "sv_pipeline sv = None"
  shows "serve js sv (CHybridQuery req) wm = (case rest_route js (CHybridQuery req) of
    Inl s \<Rightarrow> (Inl s, wm) | Inr rq \<Rightarrow> as_call js (CHybridQuery req) (handle sv rq wm))"
proof (cases "validate_k (unat (gh_k req))")
  case (Inl e)
  then have "e = BadRequest" by (auto simp: validate_k_def split: if_splits)
  then show ?thesis using Inl by (cases "decode_filter js (gh_filter_json req)")
    (auto simp: grpc_hybrid_query_def hybrid_query_vectors_def as_call_def decode_filter_def ok_or_def split: if_splits option.splits)
next
  case (Inr k)
  have api: "api_err \<circ> api_of_db = core_err" by auto
  show ?thesis using Inr assms
    by (cases "decode_filter js (gh_filter_json req)")
      (simp_all add: grpc_hybrid_query_def hybrid_query_vectors_def as_call_def answer_def sum_steps api reply_of_def is_stream_def)
qed

section \<open>Properties\<close>

text \<open>C40. Each method of the gRPC service does what the HTTP handler of the same name does. Taken as the HTTP request it
  amounts to, a call leaves the store in the same state, and its answer is the HTTP answer as a message or the HTTP
  error as a status. JSON that cannot be read is refused before anything happens. This needs a server without query
  pipeline: with one, HTTP queries go through it and gRPC queries do not.\<close>

theorem grpc_as_rest:
  assumes "sv_pipeline sv = None"
  shows "serve js sv c wm = (case rest_route js c of
      Inl s \<Rightarrow> (Inl s, wm)
    | Inr req \<Rightarrow> (let (r, wm') = handle sv req wm in (and_next (map_sum api_err id r) (reply_of js c), wm')))"
proof -
  have "serve js sv c wm = (case rest_route js c of Inl s \<Rightarrow> (Inl s, wm) | Inr req \<Rightarrow> as_call js c (handle sv req wm))"
  proof (cases c)
    case (CCreateCollection req)
    show ?thesis unfolding CCreateCollection by (rule create_agrees)
  next
    case (CInsertVector req)
    then show ?thesis
      by (simp add: grpc_insert_vector_def decode_filter_def insert_vector_handler_def split: sum.split)
  next
    case (CDeleteVector name y)
    then show ?thesis by (simp add: delete_vector_handler_def grpc_delete_vector_def)
  next
    case (CQuery req)
    show ?thesis using query_agrees [OF assms, of c req js wm] CQuery
      by (auto simp: as_call_def grpc_query_method_def reply_of_def is_stream_def split: sum.splits)
  next
    case (CQueryStream req)
    show ?thesis using query_agrees [OF assms, of c req js wm] CQueryStream
      by (auto simp: as_call_def grpc_query_stream_def reply_of_def is_stream_def split: sum.splits)
  next
    case (CHybridQuery req)
    show ?thesis unfolding CHybridQuery by (rule hybrid_agrees [OF assms])
  next
    case (CDropCollection name)
    obtain q wm1 where "wal_drop_collection (sv_wal sv) (fst (sv_io sv 0)) (snd (sv_io sv 0)) wm name = (q, wm1)"
      by (cases "wal_drop_collection (sv_wal sv) (fst (sv_io sv 0)) (snd (sv_io sv 0)) wm name")
    then show ?thesis using CDropCollection
      by (cases q) (simp_all add: as_call_def grpc_drop_collection_def drop_collection_handler_def reply_of_def)
  next
    case (CGetCollection name)
    then show ?thesis
      by (cases "wal_get wm name") (simp_all add: as_call_def grpc_get_collection_def get_collection_handler_def reply_of_def)
  next
    case (CGetVector name y)
    then show ?thesis
      by (cases "wal_get wm name") (simp_all add: as_call_def grpc_get_vector_def get_vector_handler_def reply_of_def split: option.split)
  qed (simp_all add: as_call_def reply_of_def list_collections_def)
  then show ?thesis by (cases "rest_route js c") (simp_all add: as_call_def split: prod.split)
qed

definition server_example :: "(f64, (vecid \<times> string) list, nat \<times> record_batch list) server_env" where
  "server_example = \<lparr>sv_wal = tiny_env [], sv_io = (\<lambda>_. (IoOk, CkOk)), sv_level = 0, sv_num = Some, sv_serde = tiny_serde, sv_arrow = tiny_arrow,
     sv_parquet = tiny_parquet, sv_parquet_root = None, sv_canonicalize = Some, sv_read_file = (\<lambda>_. None),
     sv_import_io = (\<lambda>_ _. (IoOk, CkOk)), sv_import_levels = (\<lambda>_ _. 0), sv_pipeline = None\<rparr>"

theorem grpc_as_rest_witness:
  "\<forall>wm. serve \<lparr>from_slice = \<lambda>_. Some JNull, to_vec = \<lambda>_. None\<rparr> server_example
     (CQuery \<lparr>gq_collection = ''c'', gq_vector = [0], gq_k = 0, gq_filter_json = [0], gq_include_payload = False\<rparr>) wm = (Inl SInvalidArgument, wm)"
proof -
  have "sv_pipeline server_example = None" by (simp add: server_example_def)
  note same = grpc_as_rest [OF this]
  show ?thesis by (simp add: same query_route_def decode_filter_def query_vectors_def validate_k_def del: serve.simps)
qed

end
