(* ===== verification/DeltaScan.thy ===== *)
theory DeltaScan
  imports Arrow
begin

text \<open>
  The changes of a source table between two of its snapshots: \<open>likhadb-lakehouse/src/incremental_scan.rs\<close>. The
  metadata of an Iceberg table is what the code reads of it, snapshots with their parents and summaries; loading
  manifests, scanning a snapshot and reading a data file are a record of functions.
\<close>

section \<open>Tables\<close>

record ice_snapshot =
  is_id :: "64 word"
  is_parent :: "64 word option"
  is_summary :: "string \<Rightarrow> string option"

record ice_table =
  it_snapshots :: "ice_snapshot list"
  it_current :: "64 word option"

datatype data_content = CData | CPositionDeletes | CEqualityDeletes

datatype manifest_status = EExisting | EAdded | EDeleted

record manifest_entry =
  me_status :: manifest_status
  me_content :: data_content
  me_snapshot_id :: "64 word option"
  me_file_path :: string

record manifest_file =
  mf_path :: string
  mf_deletes :: bool
  mf_added_snapshot_id :: "64 word"

text \<open>A data file: it cannot be read, it is no Parquet file, or its batches, some of which cannot be decoded.\<close>

datatype file_read = ReadFailed | NotParquet | FileBatches "record_batch option list"

record scan_io =
  load_manifest_list :: "64 word \<Rightarrow> manifest_file list option"
  load_manifest :: "manifest_file \<Rightarrow> manifest_entry list option"
  scan_table :: "64 word \<Rightarrow> string list \<Rightarrow> record_batch option list option"
  read_file :: "string \<Rightarrow> file_read"
  set_iter :: "64 word list \<Rightarrow> 64 word list"

definition snapshot_by_id :: "ice_table \<Rightarrow> 64 word \<Rightarrow> ice_snapshot option" where
  "snapshot_by_id t y = find (\<lambda>s. is_id s = y) (it_snapshots t)"

section \<open>Changes\<close>

datatype change_kind = AddedData | DroppedData | ResolvedDelete vecid

record file_change =
  fc_snapshot_id :: "64 word"
  fc_path :: string
  fc_kind :: change_kind

fun kind_order :: "change_kind \<Rightarrow> nat" where
  "kind_order DroppedData = 0"
| "kind_order (ResolvedDelete y) = 0"
| "kind_order AddedData = 1"

definition commit_order :: "64 word list \<Rightarrow> 64 word \<Rightarrow> nat option" where
  "commit_order ids = map_of (rev (zip ids [0..<length ids]))"

definition change_key :: "64 word list \<Rightarrow> file_change \<Rightarrow> nat \<times> nat" where
  "change_key ids ch = ((case commit_order ids (fc_snapshot_id ch) of Some p \<Rightarrow> p | None \<Rightarrow> usize_max), kind_order (fc_kind ch))"

definition sort_changes :: "64 word list \<Rightarrow> file_change list \<Rightarrow> file_change list" where
  "sort_changes ids changes = sort_key (change_key ids) changes"

section \<open>Scans of a snapshot\<close>

text \<open>The batches of a scan, decoded one after the other.\<close>

definition scan_stream ::
  "scan_io \<Rightarrow> 64 word \<Rightarrow> string list \<Rightarrow> (record_batch \<Rightarrow> lakehouse_error + 'a list) \<Rightarrow> lakehouse_error + 'a list"
where
  "scan_stream io snapshot_id columns dec =
     and_next (ok_or LkIceberg (scan_table io snapshot_id columns)) (\<lambda>bs.
       map_sum id concat (traverse (\<lambda>ob. and_next (ok_or LkIceberg ob) dec) bs))"

definition snapshot_ids :: "scan_io \<Rightarrow> 'n arrow_lib \<Rightarrow> 64 word \<Rightarrow> string \<Rightarrow> lakehouse_error + vecid list" where
  "snapshot_ids io ar snapshot_id id_col =
     map_sum id remdups (scan_stream io snapshot_id [id_col] (\<lambda>b. batch_to_ids ar b id_col))"

definition removed_ids :: "scan_io \<Rightarrow> vecid list \<Rightarrow> vecid list \<Rightarrow> vecid list" where
  "removed_ids io before after = filter (\<lambda>y. y \<notin> set after) (set_iter io before)"

definition scan_snapshot ::
  "scan_io \<Rightarrow> 'n serde \<Rightarrow> 'n arrow_lib \<Rightarrow> 64 word \<Rightarrow> source_binding \<Rightarrow> lakehouse_error + 'n delta_row list"
where
  "scan_snapshot io sd ar snapshot_id b =
     map_sum id (map upsert_of) (scan_stream io snapshot_id (id_column b # vector_column b # payload_columns b)
       (\<lambda>batch. batch_to_vectors sd ar batch (id_column b) (vector_column b) (payload_columns b)))"

section \<open>The range\<close>

text \<open>From \<open>to\<close> back to \<open>from\<close>; a chain of parents that goes round never ends.\<close>

partial_function (option) walk_back ::
  "ice_table \<Rightarrow> 64 word \<Rightarrow> 64 word list \<Rightarrow> ice_snapshot option \<Rightarrow> (64 word list \<times> bool) option"
where
  "walk_back t from_id ids cursor = (
     if cursor = None then Some (ids, False)
     else if is_id (the cursor) = from_id then Some (ids, True)
     else walk_back t from_id (ids @ [is_id (the cursor)]) (Option.bind (is_parent (the cursor)) (snapshot_by_id t)))"

section \<open>Manifests\<close>

record scan_acc =
  sa_changes :: "file_change list"
  sa_unresolved :: nat
  sa_delete_snapshots :: "64 word list"

definition delete_entry :: "64 word \<Rightarrow> scan_acc \<Rightarrow> manifest_entry \<Rightarrow> scan_acc" where
  "delete_entry owner acc e =
     (if me_status e \<noteq> EAdded then acc
      else if me_content e = CData then acc\<lparr>sa_unresolved := sa_unresolved acc + 1\<rparr>
      else acc\<lparr>sa_delete_snapshots := List.insert (case me_snapshot_id e of Some s \<Rightarrow> s | None \<Rightarrow> owner) (sa_delete_snapshots acc)\<rparr>)"

definition data_entry :: "64 word \<Rightarrow> scan_acc \<Rightarrow> manifest_entry \<Rightarrow> scan_acc" where
  "data_entry owner acc e =
     (if me_content e \<noteq> CData then acc\<lparr>sa_unresolved := sa_unresolved acc + 1\<rparr>
      else case me_status e of
          EAdded \<Rightarrow> acc\<lparr>sa_changes := sa_changes acc @ [\<lparr>fc_snapshot_id = owner, fc_path = me_file_path e, fc_kind = AddedData\<rparr>]\<rparr>
        | EDeleted \<Rightarrow> acc\<lparr>sa_changes := sa_changes acc @ [\<lparr>fc_snapshot_id = owner, fc_path = me_file_path e, fc_kind = DroppedData\<rparr>]\<rparr>
        | EExisting \<Rightarrow> acc)"

definition scan_manifest :: "scan_io \<Rightarrow> 64 word list \<Rightarrow> scan_acc \<Rightarrow> manifest_file \<Rightarrow> lakehouse_error + scan_acc" where
  "scan_manifest io ids acc mf =
     (if mf_added_snapshot_id mf \<notin> set ids then Inr acc
      else and_next (ok_or LkIceberg (load_manifest io mf)) (\<lambda>es.
        Inr (foldl ((if mf_deletes mf then delete_entry else data_entry) (mf_added_snapshot_id mf)) acc es)))"

definition adds_delete_file :: "ice_snapshot \<Rightarrow> bool" where
  "adds_delete_file s \<longleftrightarrow> (\<exists>key \<in> set [''added-delete-files'', ''added-position-delete-files'', ''added-equality-delete-files''].
     case Option.bind (is_summary s key) parse_u64 of Some c \<Rightarrow> 0 < c | None \<Rightarrow> False)"

definition flag_snapshots :: "ice_table \<Rightarrow> 64 word list \<Rightarrow> 64 word list \<Rightarrow> 64 word list" where
  "flag_snapshots t ids ds = foldl (\<lambda>ds s. if adds_delete_file s \<and> is_id s \<in> set ids then List.insert (is_id s) ds else ds)
     ds (it_snapshots t)"

text \<open>A commit with delete files: the ids that were live before it and are not live after it.\<close>

definition resolve_deletes ::
  "scan_io \<Rightarrow> 'n arrow_lib \<Rightarrow> ice_table \<Rightarrow> source_binding \<Rightarrow> 64 word list \<Rightarrow> file_change list \<times> nat \<Rightarrow> 64 word \<Rightarrow>
     lakehouse_error + file_change list \<times> nat"
where
  "resolve_deletes io ar t b ids acc snapshot_id =
     (if snapshot_id \<notin> set ids then Inr acc
      else case snapshot_by_id t snapshot_id of
          None \<Rightarrow> Inr (fst acc, snd acc + 1)
        | Some s \<Rightarrow>
            and_next (case is_parent s of Some p \<Rightarrow> snapshot_ids io ar p (id_column b) | None \<Rightarrow> Inr []) (\<lambda>before.
            and_next (snapshot_ids io ar snapshot_id (id_column b)) (\<lambda>after.
              Inr (fst acc @ map (\<lambda>y. \<lparr>fc_snapshot_id = snapshot_id, fc_path = [], fc_kind = ResolvedDelete y\<rparr>)
                (removed_ids io before after), snd acc))))"

section \<open>Rows\<close>

definition batch_changes ::
  "'n serde \<Rightarrow> 'n arrow_lib \<Rightarrow> source_binding \<Rightarrow> change_kind \<Rightarrow> record_batch \<Rightarrow> lakehouse_error + 'n delta_row list"
where
  "batch_changes sd ar b kind batch = (case kind of
       AddedData \<Rightarrow> map_sum id (map upsert_of) (batch_to_vectors sd ar batch (id_column b) (vector_column b) (payload_columns b))
     | _ \<Rightarrow> map_sum id (map DDelete) (batch_to_ids ar batch (id_column b)))"

definition file_batches :: "scan_io \<Rightarrow> string \<Rightarrow> lakehouse_error + (lakehouse_error + record_batch) list" where
  "file_batches io path = (case read_file io path of
       ReadFailed \<Rightarrow> Inl LkIceberg
     | NotParquet \<Rightarrow> Inl LkParquet
     | FileBatches bs \<Rightarrow> Inr (map (ok_or LkArrow) bs))"

definition change_rows ::
  "scan_io \<Rightarrow> 'n serde \<Rightarrow> 'n arrow_lib \<Rightarrow> source_binding \<Rightarrow> file_change \<Rightarrow> lakehouse_error + 'n delta_row list"
where
  "change_rows io sd ar b ch = (case fc_kind ch of
       ResolvedDelete y \<Rightarrow> Inr [DDelete y]
     | kind \<Rightarrow> and_next (file_batches io (fc_path ch)) (\<lambda>bs.
         map_sum id concat (traverse (\<lambda>ob. and_next ob (batch_changes sd ar b kind)) bs)))"

section \<open>The scan\<close>

record 'n delta_scan =
  ds_rows :: "'n delta_row list"
  ds_unresolved_delete_files :: nat

definition scan_range ::
  "scan_io \<Rightarrow> 'n serde \<Rightarrow> 'n arrow_lib \<Rightarrow> ice_table \<Rightarrow> 64 word \<Rightarrow> 64 word list \<Rightarrow> source_binding \<Rightarrow> lakehouse_error + 'n delta_scan"
where
  "scan_range io sd ar t to_id ids b =
     and_next (ok_or LkIceberg (load_manifest_list io to_id)) (\<lambda>manifests.
     and_next (fold_result (scan_manifest io ids) \<lparr>sa_changes = [], sa_unresolved = 0, sa_delete_snapshots = []\<rparr> manifests) (\<lambda>acc.
     and_next (fold_result (resolve_deletes io ar t b ids) (sa_changes acc, sa_unresolved acc)
         (set_iter io (flag_snapshots t ids (sa_delete_snapshots acc)))) (\<lambda>(changes, unresolved).
     and_next (traverse (change_rows io sd ar b) (sort_changes ids changes)) (\<lambda>parts.
       Inr \<lparr>ds_rows = concat parts, ds_unresolved_delete_files = unresolved\<rparr>))))"

text \<open>\<open>None\<close> when the walk over the parents does not end.\<close>

definition scan_delta ::
  "scan_io \<Rightarrow> 'n serde \<Rightarrow> 'n arrow_lib \<Rightarrow> ice_table \<Rightarrow> 64 word option \<Rightarrow> 64 word \<Rightarrow> source_binding \<Rightarrow>
     (lakehouse_error + 'n delta_scan) option"
where
  "scan_delta io sd ar t from_id to_id b = (case snapshot_by_id t to_id of
       None \<Rightarrow> Some (Inl LkSchema)
     | Some to_sn \<Rightarrow> (case from_id of
         None \<Rightarrow> Some (map_sum id (\<lambda>rows. \<lparr>ds_rows = rows, ds_unresolved_delete_files = 0\<rparr>) (scan_snapshot io sd ar to_id b))
       | Some f \<Rightarrow> (case walk_back t f [] (Some to_sn) of
           None \<Rightarrow> None
         | Some (ids, reached) \<Rightarrow>
             if \<not> reached then Some (Inl (NonAncestorSnapshot f to_id))
             else Some (scan_range io sd ar t to_id (rev ids) b))))"

section \<open>Ancestors\<close>

definition parent_of :: "ice_table \<Rightarrow> 64 word \<Rightarrow> 64 word option" where
  "parent_of t s = Option.bind (snapshot_by_id t s) is_parent"

text \<open>\<open>ids\<close> are the commits after \<open>p\<close>, oldest first, each the child of the one before.\<close>

fun chain :: "ice_table \<Rightarrow> 64 word \<Rightarrow> 64 word list \<Rightarrow> bool" where
  "chain t p [] \<longleftrightarrow> True"
| "chain t p (s # ss) \<longleftrightarrow> parent_of t s = Some p \<and> chain t s ss"

lemma chain_snoc: "chain t p (ss @ [s]) \<longleftrightarrow> chain t p ss \<and> parent_of t s = Some (last (p # ss))"
  by (induction ss arbitrary: p) auto

lemma snapshot_by_id_id: "snapshot_by_id t y = Some s \<Longrightarrow> is_id s = y"
  by (auto simp: snapshot_by_id_def find_Some_iff)

lemma walk_chain:
  assumes "chain t f ids" "f \<notin> set ids" "snapshot_by_id t f \<noteq> None"
  shows "walk_back t f acc (snapshot_by_id t (last (f # ids))) = Some (acc @ rev ids, True)"
  using assms(1,2)
proof (induction ids arbitrary: acc rule: rev_induct)
  case Nil
  then show ?case using assms(3) snapshot_by_id_id by (subst walk_back.simps) auto
next
  case (snoc s ids)
  then have p: "parent_of t s = Some (last (f # ids))" "chain t f ids" "f \<notin> set ids" "s \<noteq> f" by (auto simp: chain_snoc)
  then obtain sn where sn: "snapshot_by_id t s = Some sn" "is_parent sn = Some (last (f # ids))" by (auto simp: parent_of_def bind_eq_Some_conv)
  then have "walk_back t f acc (Some sn) = walk_back t f (acc @ [s]) (snapshot_by_id t (last (f # ids)))"
    using snapshot_by_id_id p(4) by (subst walk_back.simps) auto
  then show ?case using snoc.IH [OF p(2,3)] sn(1) by simp
qed

section \<open>Commit by commit\<close>

definition from_commit :: "64 word \<Rightarrow> (change_kind \<Rightarrow> bool) \<Rightarrow> file_change list \<Rightarrow> file_change list" where
  "from_commit s P changes = filter (\<lambda>ch. fc_snapshot_id ch = s \<and> P (fc_kind ch)) changes"

definition is_added :: "change_kind \<Rightarrow> bool" where
  "is_added k \<longleftrightarrow> k = AddedData"

lemma commit_order_nth: "distinct ids \<Longrightarrow> i < length ids \<Longrightarrow> commit_order ids (ids ! i) = Some i"
proof -
  assume a: "distinct ids" "i < length ids"
  have "distinct (map fst (rev (zip ids [0..<length ids])))" using a(1) by (simp add: rev_map [symmetric])
  moreover have "(ids ! i, i) \<in> set (rev (zip ids [0..<length ids]))" using a(2) by (auto simp: set_zip)
  ultimately show ?thesis unfolding commit_order_def by (rule map_of_is_SomeI)
qed

text \<open>The sorted changes are those of the first commit, what it removes before what it adds, then those of the next.\<close>

lemma sort_changes_commits:
  assumes ids: "distinct ids" and changes: "\<forall>ch \<in> set changes. fc_snapshot_id ch \<in> set ids"
  shows "sort_changes ids changes =
    concat (map (\<lambda>s. from_commit s (\<lambda>k. \<not> is_added k) changes @ from_commit s is_added changes) ids)"
proof -
  let ?ks = "concat (map (\<lambda>i. [(i, 0), (i, 1)]) [0..<length ids]) :: (nat \<times> nat) list"
  have order: "kind_order k = (if is_added k then 1 else 0)" for k by (cases k) (simp_all add: is_added_def)
  have key: "change_key ids ch = (i, j) \<longleftrightarrow> fc_snapshot_id ch = ids ! i \<and> kind_order (fc_kind ch) = j"
    if "ch \<in> set changes" "i < length ids" for ch i j
  proof -
    obtain i' where i': "fc_snapshot_id ch = ids ! i'" "i' < length ids" using changes \<open>ch \<in> set changes\<close> by (metis in_set_conv_nth)
    then show ?thesis using that(2) ids commit_order_nth [OF ids] by (auto simp: change_key_def nth_eq_iff_index_eq)
  qed
  have "\<forall>ch \<in> set changes. change_key ids ch \<in> set ?ks"
  proof
    fix ch assume ch: "ch \<in> set changes"
    then obtain i where i: "fc_snapshot_id ch = ids ! i" "i < length ids" using changes by (metis in_set_conv_nth)
    then have "change_key ids ch = (i, kind_order (fc_kind ch))" using key [OF ch] by blast
    then show "change_key ids ch \<in> set ?ks" using i(2) by (auto simp: order)
  qed
  moreover have "sorted ?ks \<and> distinct ?ks"
    by (rule nat.induct [of _ "length ids"]) (auto simp: sorted_wrt_append less_eq_prod_def)
  ultimately have "sort_changes ids changes = concat (map (\<lambda>k. filter (\<lambda>ch. change_key ids ch = k) changes) ?ks)"
    unfolding sort_changes_def using sort_key_concat by blast
  also have "\<dots> = concat (map (\<lambda>i. filter (\<lambda>ch. change_key ids ch = (i, 0)) changes @ filter (\<lambda>ch. change_key ids ch = (i, 1)) changes)
      [0..<length ids])" by (simp add: map_concat comp_def) (rule nat.induct [of _ "length ids"], simp_all)
  also have "\<dots> = concat (map (\<lambda>i. from_commit (ids ! i) (\<lambda>k. \<not> is_added k) changes @ from_commit (ids ! i) is_added changes) [0..<length ids])"
    by (intro arg_cong [of _ _ concat] map_cong refl arg_cong2 [of _ _ _ _ append])
      (auto simp: from_commit_def key order intro!: filter_cong split: if_splits)
  also have "\<dots> = concat (map (\<lambda>s. from_commit s (\<lambda>k. \<not> is_added k) changes @ from_commit s is_added changes) ids)"
    by (subst (3) map_nth [of ids, symmetric]) (simp only: map_map comp_def)
  finally show ?thesis .
qed

section \<open>The history of a table\<close>

text \<open>What a data file holds.\<close>

definition data_file_rows ::
  "scan_io \<Rightarrow> 'n serde \<Rightarrow> 'n arrow_lib \<Rightarrow> source_binding \<Rightarrow> string \<Rightarrow> lakehouse_error + 'n decoded_row list"
where
  "data_file_rows io sd ar b path = and_next (file_batches io path) (\<lambda>bs. map_sum id concat (traverse (\<lambda>ob. and_next ob
     (\<lambda>batch. batch_to_vectors sd ar batch (id_column b) (vector_column b) (payload_columns b))) bs))"

definition data_file_ids :: "scan_io \<Rightarrow> 'n arrow_lib \<Rightarrow> source_binding \<Rightarrow> string \<Rightarrow> lakehouse_error + vecid list" where
  "data_file_ids io ar b path = and_next (file_batches io path) (\<lambda>bs. map_sum id concat (traverse (\<lambda>ob. and_next ob
     (\<lambda>batch. batch_to_ids ar batch (id_column b))) bs))"

lemma map_sum_concat: "map_sum id concat (map_sum id (map (map h)) r) = map_sum id (map h) (map_sum id concat r)"
  by (cases r) (simp_all add: map_concat)

lemma batch_changes_eq:
  "batch_changes sd ar b AddedData = (\<lambda>batch. map_sum id (map upsert_of) (batch_to_vectors sd ar batch (id_column b) (vector_column b) (payload_columns b)))"
  "batch_changes sd ar b DroppedData = (\<lambda>batch. map_sum id (map DDelete) (batch_to_ids ar batch (id_column b)))"
  by (simp_all add: batch_changes_def fun_eq_iff)

lemma change_rows_added:
  "fc_kind ch = AddedData \<Longrightarrow> change_rows io sd ar b ch = map_sum id (map upsert_of) (data_file_rows io sd ar b (fc_path ch))"
  by (simp add: change_rows_def data_file_rows_def batch_changes_eq and_next_map_sum traverse_map_sum map_sum_concat)

lemma change_rows_dropped:
  "fc_kind ch = DroppedData \<Longrightarrow> change_rows io sd ar b ch = map_sum id (map DDelete) (data_file_ids io ar b (fc_path ch))"
  by (simp add: change_rows_def data_file_ids_def batch_changes_eq and_next_map_sum traverse_map_sum map_sum_concat)

lemma change_rows_resolved: "fc_kind ch = ResolvedDelete y \<Longrightarrow> change_rows io sd ar b ch = Inr [DDelete y]"
  by (simp add: change_rows_def)

text \<open>What the manifests of a snapshot say about the commits of the range.\<close>

definition range_changes :: "scan_io \<Rightarrow> 64 word \<Rightarrow> 64 word list \<Rightarrow> scan_acc" where
  "range_changes io to_id ids = value_or \<lparr>sa_changes = [], sa_unresolved = 0, sa_delete_snapshots = []\<rparr>
     (and_next (ok_or LkIceberg (load_manifest_list io to_id))
       (fold_result (scan_manifest io ids) \<lparr>sa_changes = [], sa_unresolved = 0, sa_delete_snapshots = []\<rparr>))"

definition commit_added ::
  "scan_io \<Rightarrow> 'n serde \<Rightarrow> 'n arrow_lib \<Rightarrow> source_binding \<Rightarrow> scan_acc \<Rightarrow> 64 word \<Rightarrow> 'n decoded_row list"
where
  "commit_added io sd ar b acc s = concat (map (\<lambda>ch. value_or [] (data_file_rows io sd ar b (fc_path ch)))
     (from_commit s is_added (sa_changes acc)))"

definition commit_dropped ::
  "scan_io \<Rightarrow> 'n arrow_lib \<Rightarrow> source_binding \<Rightarrow> scan_acc \<Rightarrow> 64 word \<Rightarrow> vecid list"
where
  "commit_dropped io ar b acc s = concat (map (\<lambda>ch. value_or [] (data_file_ids io ar b (fc_path ch)))
     (from_commit s (\<lambda>k. k = DroppedData) (sa_changes acc)))"

text \<open>The live rows of every snapshot, by id.\<close>

type_synonym 'n table_state = "vecid \<Rightarrow> (vec \<times> 'n json option) option"

text \<open>
  What a commit does to the table: the rows of the files it adds are live after it; of the rows that were live
  before, those of the files it drops are gone, and if it comes with delete files, others may be gone too.
\<close>

definition commit_effect ::
  "'n decoded_row list \<Rightarrow> vecid list \<Rightarrow> bool \<Rightarrow> 'n table_state \<Rightarrow> 'n table_state \<Rightarrow> bool"
where
  "commit_effect added dropped deleting old new \<longleftrightarrow> (\<forall>y. new y = (case map_of (rev added) y of
       Some r \<Rightarrow> Some r
     | None \<Rightarrow> if y \<in> set dropped \<or> deleting \<and> new y = None then None else old y))"

definition contents_at :: "'n table_state \<Rightarrow> 'n contents" where
  "contents_at l = (\<lambda>y. map_option fst (l y), \<lambda>y. Option.bind (l y) snd)"

lemma map_of_rev_row:
  "map_of (rev (map (\<lambda>(y, v, p). (y, f v p)) items)) y = map_option (\<lambda>(v, p). f v p) (map_of (rev items) y)"
  by (induction items) (auto simp: map_add_def split: option.split)

lemma foldl_present_payloads:
  "\<forall>(y, v, p) \<in> set items. p \<noteq> None \<Longrightarrow>
    foldl (\<lambda>m (y, v, p). payload_upd y p m) m items = m ++ map_of (rev (map (\<lambda>(y, v, p). (y, the p)) items))"
proof (induction items arbitrary: m)
  case (Cons r items)
  obtain y v p where r: "r = (y, v, Some p)" using Cons.prems by (cases r) auto
  then show ?case using Cons.IH Cons.prems by (simp add: payload_upd_def del: fun_upd_apply)
qed simp

lemma commit_applied:
  assumes eff: "commit_effect added dropped deleting old new"
    and ds: "set ds = set dropped \<union> (if deleting then dom old - dom new else {})"
    and x: "fst x = fst (contents_at old)"
  shows "fst (foldl delta_spec x (map DDelete ds @ map upsert_of added)) = fst (contents_at new) \<and>
    (x = contents_at old \<and> (\<forall>(y, v, p) \<in> set added. p \<noteq> None) \<longrightarrow>
      foldl delta_spec x (map DDelete ds @ map upsert_of added) = contents_at new)"
proof -
  have eff: "new y = (case map_of (rev added) y of Some r \<Rightarrow> Some r | None \<Rightarrow> if y \<in> set dropped \<or> deleting \<and> new y = None then None else old y)" for y
    using eff by (simp add: commit_effect_def)
  have keep: "new y = (case map_of (rev added) y of Some r \<Rightarrow> Some r | None \<Rightarrow> if y \<in> set ds then None else old y)" for y
    using eff [of y] ds by (cases "old y") (auto split: option.splits if_splits)
  have vecs: "map_of (rev (map (\<lambda>(y, v, p). (y, v)) added)) y = map_option fst (map_of (rev added) y)" for y
    unfolding map_of_rev_row [of "\<lambda>v p. v"] by (intro arg_cong2 [of _ _ _ _ map_option]) auto
  have step: "foldl delta_spec x (map DDelete ds @ map upsert_of added) =
      (fst x |` (- set ds) ++ map_of (rev (map (\<lambda>(y, v, p). (y, v)) added)),
       foldl (\<lambda>m (y, v, p). payload_upd y p m) (snd x |` (- set ds)) added)"
    by (cases x) (simp add: foldl_deletes foldl_upserts)
  have "(fst x |` (- set ds) ++ map_of (rev (map (\<lambda>(y, v, p). (y, v)) added))) y = map_option fst (new y)" for y
    using keep [of y] x by (auto simp: map_add_def vecs restrict_map_def contents_at_def split: option.splits)
  moreover have "foldl (\<lambda>m (y, v, p). payload_upd y p m) (snd x |` (- set ds)) added = snd (contents_at new)"
    if "x = contents_at old" "\<forall>(y, v, p) \<in> set added. p \<noteq> None"
  proof
    fix y
    have meta: "map_of (rev (map (\<lambda>(y, v, p). (y, the p)) added)) y = map_option (\<lambda>r. the (snd r)) (map_of (rev added) y)"
      unfolding map_of_rev_row [of "\<lambda>v p. the p"] by (intro arg_cong2 [of _ _ _ _ map_option]) auto
    have "snd r \<noteq> None" if "map_of (rev added) y = Some r" for r
      using map_of_SomeD [OF that] \<open>\<forall>(y, v, p) \<in> set added. p \<noteq> None\<close> by auto
    then show "foldl (\<lambda>m (y, v, p). payload_upd y p m) (snd x |` (- set ds)) added y = snd (contents_at new) y"
      unfolding foldl_present_payloads [OF that(2)] using keep [of y] that(1)
      by (auto simp: map_add_def meta restrict_map_def contents_at_def split: option.splits)
  qed
  ultimately show ?thesis unfolding step by (auto simp: contents_at_def)
qed

section \<open>The range\<close>

text \<open>The changes read from the manifests of the range.\<close>

definition file_change_in :: "64 word set \<Rightarrow> file_change \<Rightarrow> bool" where
  "file_change_in S ch \<longleftrightarrow> fc_snapshot_id ch \<in> S \<and> fc_kind ch \<in> {AddedData, DroppedData}"

lemma entry_in_range:
  assumes "\<forall>ch \<in> set (sa_changes acc). file_change_in S ch" "owner \<in> S"
  shows "\<forall>ch \<in> set (sa_changes (delete_entry owner acc e)). file_change_in S ch"
    and "\<forall>ch \<in> set (sa_changes (data_entry owner acc e)). file_change_in S ch"
proof -
  show "\<forall>ch \<in> set (sa_changes (delete_entry owner acc e)). file_change_in S ch"
    using assms(1) by (simp add: delete_entry_def)
  have "file_change_in S \<lparr>fc_snapshot_id = owner, fc_path = path, fc_kind = k\<rparr>" if "k \<in> {AddedData, DroppedData}" for path k
    using assms(2) that by (simp add: file_change_in_def)
  then show "\<forall>ch \<in> set (sa_changes (data_entry owner acc e)). file_change_in S ch"
    using assms(1) by (cases "me_status e") (simp_all add: data_entry_def)
qed

lemma entries_in_range:
  "\<forall>ch \<in> set (sa_changes acc). file_change_in S ch \<Longrightarrow> owner \<in> S \<Longrightarrow>
    \<forall>ch \<in> set (sa_changes (foldl ((if d then delete_entry else data_entry) owner) acc es)). file_change_in S ch"
proof (induction es arbitrary: acc)
  case (Cons e es)
  then have "\<forall>ch \<in> set (sa_changes ((if d then delete_entry else data_entry) owner acc e)). file_change_in S ch"
    using entry_in_range [OF Cons.prems] by (cases d) simp_all
  then show ?case using Cons.IH Cons.prems(2) by simp
qed simp

lemma manifests_in_range:
  assumes "fold_result (scan_manifest io ids) \<lparr>sa_changes = [], sa_unresolved = 0, sa_delete_snapshots = []\<rparr> manifests = Inr acc"
  shows "\<forall>ch \<in> set (sa_changes acc). file_change_in (set ids) ch"
proof (rule fold_result_invariant [OF assms])
  fix mf acc acc' assume ok: "\<forall>ch \<in> set (sa_changes acc). file_change_in (set ids) ch"
    and run: "scan_manifest io ids acc mf = Inr acc'"
  show "\<forall>ch \<in> set (sa_changes acc'). file_change_in (set ids) ch"
  proof (cases "mf_added_snapshot_id mf \<in> set ids")
    case True
    obtain es where "load_manifest io mf = Some es" using run True by (cases "load_manifest io mf") (simp_all add: scan_manifest_def)
    then have "acc' = foldl ((if mf_deletes mf then delete_entry else data_entry) (mf_added_snapshot_id mf)) acc es"
      using run True by (simp add: scan_manifest_def)
    then show ?thesis using entries_in_range [OF ok True] by simp
  next
    case False
    then show ?thesis using ok run by (simp add: scan_manifest_def)
  qed
qed simp

text \<open>The resolved deletes: for every commit of the range with delete files, the ids that are gone after it.\<close>

definition removed_by :: "ice_table \<Rightarrow> (64 word \<Rightarrow> 'n table_state) \<Rightarrow> 64 word \<Rightarrow> vecid set" where
  "removed_by t live s = (case parent_of t s of Some p \<Rightarrow> dom (live p) - dom (live s) | None \<Rightarrow> {})"

definition resolved_at :: "file_change list \<Rightarrow> 64 word \<Rightarrow> vecid set" where
  "resolved_at changes s = {y. \<exists>ch \<in> set changes. fc_snapshot_id ch = s \<and> fc_kind ch = ResolvedDelete y}"

lemma resolved_at_append: "resolved_at (xs @ ys) s = resolved_at xs s \<union> resolved_at ys s"
  by (auto simp: resolved_at_def)

lemma resolved_at_map:
  "resolved_at (map (\<lambda>y. \<lparr>fc_snapshot_id = s, fc_path = [], fc_kind = ResolvedDelete y\<rparr>) ys) s' = (if s' = s then set ys else {})"
  by (simp add: resolved_at_def)

lemma resolve_deletes_ok:
  assumes iter: "\<And>xs. set (set_iter io xs) = set xs"
    and live: "\<And>s ys. snapshot_ids io ar s (id_column b) = Inr ys \<Longrightarrow> set ys = dom (live s)"
    and known: "\<forall>s \<in> set ids. parent_of t s \<noteq> None"
    and run: "fold_result (resolve_deletes io ar t b ids) acc ss = Inr acc'"
  shows "\<exists>rs. fst acc' = fst acc @ rs \<and> (\<forall>ch \<in> set rs. fc_snapshot_id ch \<in> set ids \<and> (\<exists>y. fc_kind ch = ResolvedDelete y)) \<and>
    (\<forall>s \<in> set ids. resolved_at rs s = (if s \<in> set ss then removed_by t live s else {}))"
  using run
proof (induction ss arbitrary: acc)
  case (Cons s ss)
  then obtain acc1 where 1: "resolve_deletes io ar t b ids acc s = Inr acc1" "fold_result (resolve_deletes io ar t b ids) acc1 ss = Inr acc'"
    by (auto simp: and_next_Inr)
  obtain rs where rs: "fst acc' = fst acc1 @ rs" "\<forall>ch \<in> set rs. fc_snapshot_id ch \<in> set ids \<and> (\<exists>y. fc_kind ch = ResolvedDelete y)"
      "\<forall>s \<in> set ids. resolved_at rs s = (if s \<in> set ss then removed_by t live s else {})"
    using Cons.IH [OF 1(2)] by blast
  show ?case
  proof (cases "s \<in> set ids")
    case False
    then have "acc1 = acc" using 1(1) by (simp add: resolve_deletes_def)
    then show ?thesis using rs False by (intro exI [of _ rs]) auto
  next
    case True
    then obtain sn p where sn: "snapshot_by_id t s = Some sn" "is_parent sn = Some p" "parent_of t s = Some p"
      using known by (auto simp: parent_of_def bind_eq_Some_conv)
    then obtain before after where scans: "snapshot_ids io ar p (id_column b) = Inr before" "snapshot_ids io ar s (id_column b) = Inr after"
        "fst acc1 = fst acc @ map (\<lambda>y. \<lparr>fc_snapshot_id = s, fc_path = [], fc_kind = ResolvedDelete y\<rparr>) (removed_ids io before after)"
      using 1(1) True by (auto simp: resolve_deletes_def and_next_Inr)
    have gone: "set (removed_ids io before after) = removed_by t live s"
      using live [OF scans(1)] live [OF scans(2)] by (auto simp: removed_ids_def iter removed_by_def sn(3))
    let ?rs = "map (\<lambda>y. \<lparr>fc_snapshot_id = s, fc_path = [], fc_kind = ResolvedDelete y\<rparr>) (removed_ids io before after) @ rs"
    have "resolved_at ?rs s' = (if s' \<in> set (s # ss) then removed_by t live s' else {})" if "s' \<in> set ids" for s'
      using rs(3) that by (auto simp: resolved_at_append resolved_at_map gone)
    then show ?thesis using scans(3) rs(1,2) True by (intro exI [of _ ?rs]) auto
  qed
qed (simp add: resolved_at_def)

section \<open>The rows of a commit\<close>

lemma rows_removed:
  assumes "\<forall>ch \<in> set chs. fc_kind ch \<noteq> AddedData \<and> change_rows io sd ar b ch = Inr (value_or [] (change_rows io sd ar b ch))"
  shows "\<exists>ds. concat (map (\<lambda>ch. value_or [] (change_rows io sd ar b ch)) chs) = map DDelete ds \<and>
    set ds = (\<Union>ch \<in> {ch \<in> set chs. fc_kind ch = DroppedData}. set (value_or [] (data_file_ids io ar b (fc_path ch)))) \<union>
      {y. \<exists>ch \<in> set chs. fc_kind ch = ResolvedDelete y}"
  using assms
proof (induction chs)
  case (Cons ch chs)
  obtain ds where ds: "concat (map (\<lambda>ch. value_or [] (change_rows io sd ar b ch)) chs) = map DDelete ds"
      "set ds = (\<Union>ch \<in> {ch \<in> set chs. fc_kind ch = DroppedData}. set (value_or [] (data_file_ids io ar b (fc_path ch)))) \<union>
        {y. \<exists>ch \<in> set chs. fc_kind ch = ResolvedDelete y}"
    using Cons by auto
  show ?case
  proof (cases "fc_kind ch")
    case DroppedData
    then obtain ys where "data_file_ids io ar b (fc_path ch) = Inr ys"
      using Cons.prems change_rows_dropped [OF DroppedData, of io sd ar b] by (cases "data_file_ids io ar b (fc_path ch)") auto
    then show ?thesis using ds DroppedData change_rows_dropped [OF DroppedData, of io sd ar b]
      by (intro exI [of _ "ys @ ds"]) auto
  next
    case (ResolvedDelete y)
    then show ?thesis using ds change_rows_resolved [OF ResolvedDelete, of io sd ar b]
      by (intro exI [of _ "y # ds"]) auto
  qed (use Cons.prems in simp)
qed simp

lemma rows_added:
  assumes "\<forall>ch \<in> set chs. fc_kind ch = AddedData"
  shows "concat (map (\<lambda>ch. value_or [] (change_rows io sd ar b ch)) chs) =
    map upsert_of (concat (map (\<lambda>ch. value_or [] (data_file_rows io sd ar b (fc_path ch))) chs))"
  using assms
proof (induction chs)
  case (Cons ch chs)
  then have "value_or [] (change_rows io sd ar b ch) = map upsert_of (value_or [] (data_file_rows io sd ar b (fc_path ch)))"
    by (cases "data_file_rows io sd ar b (fc_path ch)") (simp_all add: change_rows_added)
  then show ?case using Cons by simp
qed simp

lemma commit_rows:
  assumes files: "\<forall>ch \<in> set (sa_changes acc). file_change_in S ch" and rs: "\<forall>ch \<in> set rs. \<exists>y. fc_kind ch = ResolvedDelete y"
    and read: "\<forall>ch \<in> set (sa_changes acc @ rs). change_rows io sd ar b ch = Inr (value_or [] (change_rows io sd ar b ch))"
  shows "\<exists>ds. concat (map (\<lambda>ch. value_or [] (change_rows io sd ar b ch))
      (from_commit s (\<lambda>k. \<not> is_added k) (sa_changes acc @ rs) @ from_commit s is_added (sa_changes acc @ rs))) =
    map DDelete ds @ map upsert_of (commit_added io sd ar b acc s) \<and>
    set ds = set (commit_dropped io ar b acc s) \<union> resolved_at rs s"
proof -
  let ?g = "\<lambda>ch. value_or [] (change_rows io sd ar b ch)" and ?old = "from_commit s (\<lambda>k. \<not> is_added k) (sa_changes acc @ rs)"
  have kinds: "fc_kind ch \<in> {AddedData, DroppedData}" if "ch \<in> set (sa_changes acc)" for ch
    using files that by (auto simp: file_change_in_def)
  have "\<forall>ch \<in> set ?old. fc_kind ch \<noteq> AddedData \<and> change_rows io sd ar b ch = Inr (?g ch)"
  proof -
    have "set ?old \<subseteq> set (sa_changes acc @ rs)" "\<forall>ch \<in> set ?old. fc_kind ch \<noteq> AddedData"
      by (auto simp: from_commit_def is_added_def)
    then show ?thesis using read by blast
  qed
  from rows_removed [OF this] obtain ds where ds: "concat (map ?g ?old) = map DDelete ds"
      "set ds = (\<Union>ch \<in> {ch \<in> set ?old. fc_kind ch = DroppedData}. set (value_or [] (data_file_ids io ar b (fc_path ch)))) \<union>
        {y. \<exists>ch \<in> set ?old. fc_kind ch = ResolvedDelete y}"
    by (elim exE conjE)
  have "{ch \<in> set ?old. fc_kind ch = DroppedData} = set (from_commit s (\<lambda>k. k = DroppedData) (sa_changes acc))"
    using rs by (auto simp: from_commit_def is_added_def)
  moreover have "{y. \<exists>ch \<in> set ?old. fc_kind ch = ResolvedDelete y} = resolved_at rs s"
    using kinds by (fastforce simp: from_commit_def is_added_def resolved_at_def)
  ultimately have "set ds = set (commit_dropped io ar b acc s) \<union> resolved_at rs s" using ds(2) by (simp add: commit_dropped_def)
  moreover have "from_commit s is_added (sa_changes acc @ rs) = from_commit s is_added (sa_changes acc)"
    using rs by (auto simp: from_commit_def is_added_def filter_empty_conv)
  moreover have "concat (map ?g (from_commit s is_added (sa_changes acc))) = map upsert_of (commit_added io sd ar b acc s)"
    unfolding commit_added_def by (rule rows_added) (simp add: from_commit_def is_added_def)
  ultimately show ?thesis using ds(1) by (intro exI [of _ ds]) simp
qed

text \<open>The commits one after the other.\<close>

fun history_ok :: "(64 word \<Rightarrow> 64 word \<Rightarrow> bool) \<Rightarrow> 64 word \<Rightarrow> 64 word list \<Rightarrow> bool" where
  "history_ok eff p [] \<longleftrightarrow> True"
| "history_ok eff p (s # ss) \<longleftrightarrow> eff p s \<and> history_ok eff s ss"

lemma commits_applied:
  assumes "chain t p ids" "history_ok (\<lambda>p s. commit_effect (added s) (dropped s) (del s) (live p) (live s)) p ids"
    and "\<And>s. s \<in> set ids \<Longrightarrow> \<exists>ds. f s = map DDelete ds @ map upsert_of (added s) \<and>
      set ds = set (dropped s) \<union> (if del s then removed_by t live s else {})"
    and "fst x = fst (contents_at (live p))"
  shows "fst (foldl delta_spec x (concat (map f ids))) = fst (contents_at (live (last (p # ids)))) \<and>
    (x = contents_at (live p) \<and> (\<forall>s \<in> set ids. \<forall>(y, v, q) \<in> set (added s). q \<noteq> None) \<longrightarrow>
      foldl delta_spec x (concat (map f ids)) = contents_at (live (last (p # ids))))"
  using assms
proof (induction ids arbitrary: p x)
  case (Cons s ids)
  obtain ds where ds: "f s = map DDelete ds @ map upsert_of (added s)" "set ds = set (dropped s) \<union> (if del s then removed_by t live s else {})"
    using Cons.prems(3) [of s] by auto
  have "parent_of t s = Some p" "chain t s ids" using Cons.prems(1) by simp_all
  then have gone: "set ds = set (dropped s) \<union> (if del s then dom (live p) - dom (live s) else {})" using ds(2) by (simp add: removed_by_def)
  have eff: "commit_effect (added s) (dropped s) (del s) (live p) (live s)" using Cons.prems(2) by simp
  note 1 = commit_applied [OF eff gone Cons.prems(4), folded ds(1)]
  have rest: "history_ok (\<lambda>p s. commit_effect (added s) (dropped s) (del s) (live p) (live s)) s ids" using Cons.prems(2) by simp
  have rows: "\<exists>ds. f s' = map DDelete ds @ map upsert_of (added s') \<and>
      set ds = set (dropped s') \<union> (if del s' then removed_by t live s' else {})" if "s' \<in> set ids" for s'
    using Cons.prems(3) [of s'] that by simp
  note 2 = Cons.IH [OF \<open>chain t s ids\<close> rest rows conjunct1 [OF 1]]
  have split: "foldl delta_spec x (concat (map f (s # ids))) = foldl delta_spec (foldl delta_spec x (f s)) (concat (map f ids))"
      "last (p # s # ids) = last (s # ids)" by simp_all
  show ?case unfolding split using 2 1 by (metis (no_types, lifting) list.set_intros)
qed simp

text \<open>
  The history of the source from \<open>f\<close> to \<open>to_id\<close> in terms of the changes the scan finds: the commits in between, each with
  its effect on the live rows. It is derived below from what the table format says of manifests and files.
\<close>

definition changes_history ::
  "scan_io \<Rightarrow> 'n serde \<Rightarrow> 'n arrow_lib \<Rightarrow> ice_table \<Rightarrow> source_binding \<Rightarrow> (64 word \<Rightarrow> 'n table_state) \<Rightarrow> 64 word \<Rightarrow> 64 word \<Rightarrow>
     64 word list \<Rightarrow> bool"
where
  "changes_history io sd ar t b live f to_id ids \<longleftrightarrow>
     chain t f ids \<and> distinct (f # ids) \<and> last (f # ids) = to_id \<and> snapshot_by_id t f \<noteq> None \<and>
     (\<forall>xs. set (set_iter io xs) = set xs) \<and>
     (\<forall>s ys. snapshot_ids io ar s (id_column b) = Inr ys \<longrightarrow> set ys = dom (live s)) \<and>
     (let acc = range_changes io to_id ids
      in history_ok (\<lambda>p s. commit_effect (commit_added io sd ar b acc s) (commit_dropped io ar b acc s)
           (s \<in> set (flag_snapshots t ids (sa_delete_snapshots acc))) (live p) (live s)) f ids)"

definition changes_payloads ::
  "scan_io \<Rightarrow> 'n serde \<Rightarrow> 'n arrow_lib \<Rightarrow> source_binding \<Rightarrow> 64 word \<Rightarrow> 64 word list \<Rightarrow> bool"
where
  "changes_payloads io sd ar b to_id ids \<longleftrightarrow>
     (\<forall>s \<in> set ids. \<forall>(y, v, p) \<in> set (commit_added io sd ar b (range_changes io to_id ids) s). p \<noteq> None)"

lemma concat_map_concat: "concat (map g (concat (map f xs))) = concat (map (\<lambda>x. concat (map g (f x))) xs)"
  by (induction xs) simp_all

lemma chain_known: "chain t p ids \<Longrightarrow> \<forall>s \<in> set ids. parent_of t s \<noteq> None"
  by (induction ids arbitrary: p) auto

lemma scan_range_history:
  assumes hist: "changes_history io sd ar t b live f to_id ids" and run: "scan_range io sd ar t to_id ids b = Inr res"
    and x: "fst x = fst (contents_at (live f))"
  shows "fst (foldl delta_spec x (ds_rows res)) = fst (contents_at (live to_id)) \<and>
    (x = contents_at (live f) \<and> changes_payloads io sd ar b to_id ids \<longrightarrow> foldl delta_spec x (ds_rows res) = contents_at (live to_id))"
proof -
  define acc where "acc = range_changes io to_id ids"
  let ?flagged = "flag_snapshots t ids (sa_delete_snapshots acc)"
  have h: "chain t f ids" "distinct ids" "last (f # ids) = to_id" "\<And>xs. set (set_iter io xs) = set xs"
      "\<And>s ys. snapshot_ids io ar s (id_column b) = Inr ys \<Longrightarrow> set ys = dom (live s)"
      "history_ok (\<lambda>p s. commit_effect (commit_added io sd ar b acc s) (commit_dropped io ar b acc s) (s \<in> set ?flagged) (live p) (live s)) f ids"
    using hist by (simp_all add: changes_history_def acc_def Let_def)
  obtain manifests acc0 where m: "load_manifest_list io to_id = Some manifests"
      "fold_result (scan_manifest io ids) \<lparr>sa_changes = [], sa_unresolved = 0, sa_delete_snapshots = []\<rparr> manifests = Inr acc0"
    using run by (auto simp: scan_range_def and_next_Inr ok_or_Inr)
  then have acc0: "acc0 = acc" by (simp add: acc_def range_changes_def)
  obtain changes unresolved parts where c: "fold_result (resolve_deletes io ar t b ids) (sa_changes acc, sa_unresolved acc) (set_iter io ?flagged) = Inr (changes, unresolved)"
      "traverse (change_rows io sd ar b) (sort_changes ids changes) = Inr parts" "ds_rows res = concat parts"
    using run m acc0 by (auto simp: scan_range_def and_next_Inr)
  note files = manifests_in_range [OF m(2), unfolded acc0]
  obtain rs where rs: "changes = sa_changes acc @ rs" "\<forall>ch \<in> set rs. fc_snapshot_id ch \<in> set ids \<and> (\<exists>y. fc_kind ch = ResolvedDelete y)"
      "\<forall>s \<in> set ids. resolved_at rs s = (if s \<in> set ?flagged then removed_by t live s else {})"
    using resolve_deletes_ok [where live = live, OF h(4,5) chain_known [OF h(1)] c(1)] by (auto simp: h(4))
  let ?g = "\<lambda>ch. value_or [] (change_rows io sd ar b ch)"
    and ?F = "\<lambda>s. from_commit s (\<lambda>k. \<not> is_added k) changes @ from_commit s is_added changes"
  have "\<forall>ch \<in> set changes. fc_snapshot_id ch \<in> set ids" using files rs(1,2) by (auto simp: file_change_in_def)
  then have sorted: "sort_changes ids changes = concat (map ?F ids)" by (rule sort_changes_commits [OF h(2)])
  have "set (sort_changes ids changes) = set changes" by (simp add: sort_changes_def)
  then have read: "\<forall>ch \<in> set (sa_changes acc @ rs). change_rows io sd ar b ch = Inr (?g ch)"
    using traverse_values [OF c(2), of "[]"] unfolding rs(1) by blast
  have "ds_rows res = concat (map ?g (concat (map ?F ids)))" using traverse_values [OF c(2), of "[]"] c(3) by (simp add: sorted)
  then have rows: "ds_rows res = concat (map (\<lambda>s. concat (map ?g (?F s))) ids)" unfolding concat_map_concat .
  have "\<exists>ds. concat (map ?g (?F s)) = map DDelete ds @ map upsert_of (commit_added io sd ar b acc s) \<and>
      set ds = set (commit_dropped io ar b acc s) \<union> (if s \<in> set ?flagged then removed_by t live s else {})" if "s \<in> set ids" for s
    using commit_rows [OF files _ read, of s] rs(2,3) that unfolding rs(1) by auto
  from commits_applied [OF h(1,6) this x, folded rows] show ?thesis
    using h(3) by (simp add: changes_payloads_def acc_def)
qed

lemma scan_delta_range:
  assumes h: "chain t f ids" "f \<notin> set ids" "last (f # ids) = to_id" "snapshot_by_id t f \<noteq> None"
  shows "scan_delta io sd ar t (Some f) to_id b = Some (scan_range io sd ar t to_id ids b)"
proof -
  have "snapshot_by_id t to_id \<noteq> None"
  proof (cases ids rule: rev_cases)
    case (snoc ss s)
    then have "parent_of t s \<noteq> None" using chain_known [OF h(1)] by simp
    then show ?thesis using h(3) snoc by (auto simp: parent_of_def bind_eq_Some_conv)
  qed (use h(3,4) in simp)
  then obtain sn where "snapshot_by_id t to_id = Some sn" by blast
  then show ?thesis using walk_chain [OF h(1,2,4), of "[]"] h(3) by (simp add: scan_delta_def)
qed

section \<open>The table format\<close>

text \<open>What a data file holds, and the ids of its id column, as sets: the decoded rows of its batches.\<close>

definition file_rows :: "scan_io \<Rightarrow> 'n serde \<Rightarrow> 'n arrow_lib \<Rightarrow> source_binding \<Rightarrow> string \<Rightarrow> 'n decoded_row set" where
  "file_rows io sd ar b path = {r. \<exists>bs batch rs. read_file io path = FileBatches bs \<and> Some batch \<in> set bs \<and>
     batch_to_vectors sd ar batch (id_column b) (vector_column b) (payload_columns b) = Inr rs \<and> r \<in> set rs}"

definition file_ids :: "scan_io \<Rightarrow> 'n arrow_lib \<Rightarrow> source_binding \<Rightarrow> string \<Rightarrow> vecid set" where
  "file_ids io ar b path = {y. \<exists>bs batch ys. read_file io path = FileBatches bs \<and> Some batch \<in> set bs \<and>
     batch_to_ids ar batch (id_column b) = Inr ys \<and> y \<in> set ys}"

text \<open>
  The manifest list of \<open>to_id\<close> has a data manifest added by snapshot \<open>s\<close> in which the data file has the given status;
  the commit \<open>s\<close> is recorded as one with delete files, by its summary or by an added entry of a delete manifest.
\<close>

definition manifest_lists :: "scan_io \<Rightarrow> 64 word \<Rightarrow> 64 word \<Rightarrow> manifest_status \<Rightarrow> string \<Rightarrow> bool" where
  "manifest_lists io to_id s st path \<longleftrightarrow> (\<exists>ms mf es e. load_manifest_list io to_id = Some ms \<and> mf \<in> set ms \<and>
     \<not> mf_deletes mf \<and> mf_added_snapshot_id mf = s \<and> load_manifest io mf = Some es \<and> e \<in> set es \<and>
     me_content e = CData \<and> me_status e = st \<and> me_file_path e = path)"

definition notes_deletes :: "scan_io \<Rightarrow> ice_table \<Rightarrow> 64 word \<Rightarrow> 64 word list \<Rightarrow> 64 word \<Rightarrow> bool" where
  "notes_deletes io t to_id ids s \<longleftrightarrow>
     (\<exists>sn \<in> set (it_snapshots t). is_id sn = s \<and>
        (\<exists>key \<in> {''added-delete-files'', ''added-position-delete-files'', ''added-equality-delete-files''}.
           \<exists>n :: u64. 0 < n \<and> is_summary sn key = Some (show_nat (unat n)))) \<or>
     (\<exists>ms mf es e. load_manifest_list io to_id = Some ms \<and> mf \<in> set ms \<and> mf_deletes mf \<and>
        mf_added_snapshot_id mf \<in> set ids \<and> load_manifest io mf = Some es \<and> e \<in> set es \<and>
        me_status e = EAdded \<and> me_content e \<noteq> CData \<and>
        (case me_snapshot_id e of Some d \<Rightarrow> d | None \<Rightarrow> mf_added_snapshot_id mf) = s)"

text \<open>
  What the format says of a commit \<open>s\<close> on \<open>p\<close>, with the live data files of every snapshot and the rows that delete files
  mask in them: the added and the deleted entries are the files that came and went; a mask stays as long as its file
  does, and new ones come with delete files only; a new file starts without masks.
\<close>

definition commit_recorded ::
  "scan_io \<Rightarrow> ice_table \<Rightarrow> (64 word \<Rightarrow> string set) \<Rightarrow> (64 word \<Rightarrow> (string \<times> vecid) set) \<Rightarrow> 64 word \<Rightarrow> 64 word list \<Rightarrow>
     64 word \<Rightarrow> 64 word \<Rightarrow> bool"
where
  "commit_recorded io t files masked to_id ids p s \<longleftrightarrow>
     (\<forall>path. manifest_lists io to_id s EAdded path \<longleftrightarrow> path \<in> files s - files p) \<and>
     (\<forall>path. manifest_lists io to_id s EDeleted path \<longleftrightarrow> path \<in> files p - files s) \<and>
     (\<forall>path \<in> files s - files p. \<forall>y. (path, y) \<notin> masked s) \<and>
     (\<forall>path \<in> files s \<inter> files p. \<forall>y. (path, y) \<in> masked p \<longrightarrow> (path, y) \<in> masked s) \<and>
     (\<forall>path \<in> files s \<inter> files p. \<forall>y. (path, y) \<in> masked s - masked p \<longrightarrow> notes_deletes io t to_id ids s)"

text \<open>
  A commit that drops a file has no outdated version of a row in it: an id of a dropped file that is live afterwards
  comes from a file of the same commit. (The scan deletes every id of a dropped file, masked or not.)
\<close>

definition drops_current ::
  "scan_io \<Rightarrow> 'n serde \<Rightarrow> 'n arrow_lib \<Rightarrow> source_binding \<Rightarrow> (64 word \<Rightarrow> string set) \<Rightarrow> (64 word \<Rightarrow> 'n table_state) \<Rightarrow>
     64 word \<Rightarrow> 64 word \<Rightarrow> bool"
where
  "drops_current io sd ar b files live p s \<longleftrightarrow> (\<forall>path \<in> files p - files s. \<forall>y \<in> file_ids io ar b path. live s y \<noteq> None \<longrightarrow>
     (\<exists>path' \<in> files s - files p. \<exists>r. (y, r) \<in> file_rows io sd ar b path'))"

text \<open>
  The history of a table: snapshots with their parents; the live rows of a snapshot are the unmasked rows of its live
  files, one for an id; a scan of the id column sees the ids of the live rows; every commit as above. The manifest list of
  \<open>to_id\<close> is the only one the scan reads, so the manifests of all the commits have to be in it.
\<close>

definition iceberg_history ::
  "scan_io \<Rightarrow> 'n serde \<Rightarrow> 'n arrow_lib \<Rightarrow> ice_table \<Rightarrow> source_binding \<Rightarrow> (64 word \<Rightarrow> string set) \<Rightarrow>
     (64 word \<Rightarrow> (string \<times> vecid) set) \<Rightarrow> (64 word \<Rightarrow> 'n table_state) \<Rightarrow> 64 word \<Rightarrow> 64 word \<Rightarrow> 64 word list \<Rightarrow> bool"
where
  "iceberg_history io sd ar t b files masked live f to_id ids \<longleftrightarrow>
     chain t f ids \<and> distinct (f # ids) \<and> last (f # ids) = to_id \<and> snapshot_by_id t f \<noteq> None \<and>
     (\<forall>s \<in> set (f # ids). \<forall>y r. live s y = Some r \<longleftrightarrow>
        (\<exists>path \<in> files s. (y, r) \<in> file_rows io sd ar b path \<and> (path, y) \<notin> masked s)) \<and>
     (\<forall>s bs. scan_table io s [id_column b] = Some bs \<longrightarrow>
        dom (live s) = {y. \<exists>batch ys. Some batch \<in> set bs \<and> batch_to_ids ar batch (id_column b) = Inr ys \<and> y \<in> set ys}) \<and>
     (\<forall>path y r. (y, r) \<in> file_rows io sd ar b path \<longrightarrow> y \<in> file_ids io ar b path) \<and>
     (\<forall>xs. set (set_iter io xs) = set xs) \<and>
     history_ok (\<lambda>p s. commit_recorded io t files masked to_id ids p s \<and> drops_current io sd ar b files live p s) f ids"

definition payloads_given ::
  "scan_io \<Rightarrow> 'n serde \<Rightarrow> 'n arrow_lib \<Rightarrow> source_binding \<Rightarrow> (64 word \<Rightarrow> string set) \<Rightarrow> 64 word \<Rightarrow> 64 word list \<Rightarrow> bool"
where
  "payloads_given io sd ar b files f ids \<longleftrightarrow>
     history_ok (\<lambda>p s. \<forall>path \<in> files s - files p. \<forall>(y, v, q) \<in> file_rows io sd ar b path. q \<noteq> None) f ids"

section \<open>The scan reads the history\<close>

lemma decoded_batches:
  "traverse (\<lambda>ob. and_next (ok_or e ob) dec) bs = Inr parts \<Longrightarrow>
    set (concat parts) = {r. \<exists>batch rs. Some batch \<in> set bs \<and> dec batch = Inr rs \<and> r \<in> set rs}"
proof (induction bs arbitrary: parts)
  case (Cons ob bs)
  then obtain batch rs ps where "ob = Some batch" "dec batch = Inr rs" "traverse (\<lambda>ob. and_next (ok_or e ob) dec) bs = Inr ps"
      "parts = rs # ps" by (auto simp: and_next_Inr ok_or_Inr)
  then show ?case using Cons.IH [of ps] by auto
qed simp

lemma file_decoded:
  assumes "and_next (file_batches io path) (\<lambda>bs. map_sum id concat (traverse (\<lambda>ob. and_next ob dec) bs)) = Inr out"
  shows "set out = {r. \<exists>bs batch rs. read_file io path = FileBatches bs \<and> Some batch \<in> set bs \<and> dec batch = Inr rs \<and> r \<in> set rs}"
proof (cases "read_file io path")
  case (FileBatches bs)
  then have "map_sum id concat (traverse (\<lambda>ob. and_next ob dec) (map (ok_or LkArrow) bs)) = Inr out"
    using assms by (simp add: file_batches_def)
  moreover have "traverse (\<lambda>ob. and_next ob dec) (map (ok_or LkArrow) bs) = traverse (\<lambda>ob. and_next (ok_or LkArrow ob) dec) bs"
    by (induction bs) simp_all
  ultimately obtain parts where "traverse (\<lambda>ob. and_next (ok_or LkArrow ob) dec) bs = Inr parts" "out = concat parts"
    by (cases "traverse (\<lambda>ob. and_next (ok_or LkArrow ob) dec) bs") auto
  then show ?thesis using decoded_batches [of LkArrow dec bs parts] FileBatches by simp
qed (use assms in \<open>simp_all add: file_batches_def\<close>)

lemma data_file_read:
  "data_file_rows io sd ar b path = Inr out \<Longrightarrow> set out = file_rows io sd ar b path"
  "data_file_ids io ar b path = Inr ys \<Longrightarrow> set ys = file_ids io ar b path"
  unfolding data_file_rows_def data_file_ids_def file_rows_def file_ids_def by (rule file_decoded; assumption)+

lemma snapshot_ids_read:
  assumes "snapshot_ids io ar s c = Inr ys"
  shows "\<exists>bs. scan_table io s [c] = Some bs \<and>
    set ys = {y. \<exists>batch zs. Some batch \<in> set bs \<and> batch_to_ids ar batch c = Inr zs \<and> y \<in> set zs}"
proof -
  obtain zs where zs: "scan_stream io s [c] (\<lambda>b. batch_to_ids ar b c) = Inr zs" "ys = remdups zs"
    using assms by (cases "scan_stream io s [c] (\<lambda>b. batch_to_ids ar b c)") (auto simp: snapshot_ids_def)
  then obtain bs parts where "scan_table io s [c] = Some bs" "zs = concat parts"
      "traverse (\<lambda>ob. and_next (ok_or LkIceberg ob) (\<lambda>b. batch_to_ids ar b c)) bs = Inr parts"
    by (cases "scan_table io s [c]"; cases "traverse (\<lambda>ob. and_next (ok_or LkIceberg ob) (\<lambda>b. batch_to_ids ar b c)) (the (scan_table io s [c]))")
      (auto simp: scan_stream_def)
  then show ?thesis using decoded_batches [of LkIceberg "\<lambda>b. batch_to_ids ar b c" bs parts] zs(2) by simp
qed

text \<open>The entries of the manifests.\<close>

lemma data_entries:
  "set (sa_changes (foldl (data_entry owner) acc es)) = set (sa_changes acc) \<union>
     {\<lparr>fc_snapshot_id = owner, fc_path = me_file_path e, fc_kind = k\<rparr> | e k. e \<in> set es \<and> me_content e = CData \<and>
       (me_status e = EAdded \<and> k = AddedData \<or> me_status e = EDeleted \<and> k = DroppedData)} \<and>
   sa_delete_snapshots (foldl (data_entry owner) acc es) = sa_delete_snapshots acc"
proof (induction es arbitrary: acc)
  case (Cons e es)
  have "set (sa_changes (data_entry owner acc e)) = set (sa_changes acc) \<union>
      {\<lparr>fc_snapshot_id = owner, fc_path = me_file_path e, fc_kind = k\<rparr> | k. me_content e = CData \<and>
       (me_status e = EAdded \<and> k = AddedData \<or> me_status e = EDeleted \<and> k = DroppedData)} \<and>
    sa_delete_snapshots (data_entry owner acc e) = sa_delete_snapshots acc"
    by (cases "me_status e") (auto simp: data_entry_def)
  then show ?case using Cons.IH [of "data_entry owner acc e"] by auto
qed simp

lemma delete_entries:
  "sa_changes (foldl (delete_entry owner) acc es) = sa_changes acc \<and>
   set (sa_delete_snapshots (foldl (delete_entry owner) acc es)) = set (sa_delete_snapshots acc) \<union>
     {case me_snapshot_id e of Some d \<Rightarrow> d | None \<Rightarrow> owner | e. e \<in> set es \<and> me_status e = EAdded \<and> me_content e \<noteq> CData}"
proof (induction es arbitrary: acc)
  case (Cons e es)
  show ?case using Cons.IH [of "delete_entry owner acc e"] by (auto simp: delete_entry_def)
qed simp

definition manifest_changes :: "scan_io \<Rightarrow> 64 word list \<Rightarrow> manifest_file \<Rightarrow> file_change set" where
  "manifest_changes io ids mf =
     {\<lparr>fc_snapshot_id = mf_added_snapshot_id mf, fc_path = me_file_path e, fc_kind = k\<rparr> | e k.
       mf_added_snapshot_id mf \<in> set ids \<and> \<not> mf_deletes mf \<and> (\<exists>es. load_manifest io mf = Some es \<and> e \<in> set es) \<and>
       me_content e = CData \<and> (me_status e = EAdded \<and> k = AddedData \<or> me_status e = EDeleted \<and> k = DroppedData)}"

definition manifest_deletes :: "scan_io \<Rightarrow> 64 word list \<Rightarrow> manifest_file \<Rightarrow> 64 word set" where
  "manifest_deletes io ids mf =
     {case me_snapshot_id e of Some d \<Rightarrow> d | None \<Rightarrow> mf_added_snapshot_id mf | e.
       mf_added_snapshot_id mf \<in> set ids \<and> mf_deletes mf \<and> (\<exists>es. load_manifest io mf = Some es \<and> e \<in> set es) \<and>
       me_status e = EAdded \<and> me_content e \<noteq> CData}"

lemma manifest_read:
  assumes "scan_manifest io ids acc mf = Inr acc'"
  shows "set (sa_changes acc') = set (sa_changes acc) \<union> manifest_changes io ids mf \<and>
    set (sa_delete_snapshots acc') = set (sa_delete_snapshots acc) \<union> manifest_deletes io ids mf"
proof (cases "mf_added_snapshot_id mf \<in> set ids")
  case False
  then show ?thesis using assms by (simp add: scan_manifest_def manifest_changes_def manifest_deletes_def)
next
  case True
  then obtain es where es: "load_manifest io mf = Some es"
      "acc' = foldl ((if mf_deletes mf then delete_entry else data_entry) (mf_added_snapshot_id mf)) acc es"
    using assms by (auto simp: scan_manifest_def and_next_Inr ok_or_Inr)
  show ?thesis
  proof (cases "mf_deletes mf")
    case d: True
    then show ?thesis using True es delete_entries [of "mf_added_snapshot_id mf" acc es]
      by (simp add: manifest_changes_def manifest_deletes_def)
  next
    case d: False
    then show ?thesis using True es data_entries [of "mf_added_snapshot_id mf" acc es]
      by (simp add: manifest_changes_def manifest_deletes_def)
  qed
qed

lemma manifests_read:
  "fold_result (scan_manifest io ids) acc0 ms = Inr acc \<Longrightarrow>
    set (sa_changes acc) = set (sa_changes acc0) \<union> (\<Union>mf \<in> set ms. manifest_changes io ids mf) \<and>
    set (sa_delete_snapshots acc) = set (sa_delete_snapshots acc0) \<union> (\<Union>mf \<in> set ms. manifest_deletes io ids mf)"
proof (induction ms arbitrary: acc0)
  case (Cons mf ms)
  then obtain acc1 where 1: "scan_manifest io ids acc0 mf = Inr acc1" "fold_result (scan_manifest io ids) acc1 ms = Inr acc"
    by (auto simp: and_next_Inr)
  show ?case using Cons.IH [OF 1(2)] manifest_read [OF 1(1)] by auto
qed simp

lemma flag_snapshots_set:
  "s \<in> set (flag_snapshots t ids ds) \<longleftrightarrow>
    s \<in> set ds \<or> (s \<in> set ids \<and> (\<exists>sn \<in> set (it_snapshots t). is_id sn = s \<and> adds_delete_file sn))"
proof -
  have "s \<in> set (foldl (\<lambda>ds s. if adds_delete_file s \<and> is_id s \<in> set ids then List.insert (is_id s) ds else ds) ds sns) \<longleftrightarrow>
      s \<in> set ds \<or> (s \<in> set ids \<and> (\<exists>sn \<in> set sns. is_id sn = s \<and> adds_delete_file sn))" for sns
    by (induction sns arbitrary: ds) auto
  then show ?thesis by (simp add: flag_snapshots_def)
qed

lemma history_ok_mono:
  "history_ok P p ids \<Longrightarrow> (\<And>q s. q \<in> set (p # ids) \<Longrightarrow> s \<in> set ids \<Longrightarrow> P q s \<Longrightarrow> Q q s) \<Longrightarrow> history_ok Q p ids"
proof (induction ids arbitrary: p)
  case (Cons s ids)
  then have "history_ok Q s ids" by (intro Cons.IH) auto
  then show ?case using Cons.prems by simp
qed simp

lemma history_ok_last:
  "history_ok P p ids \<Longrightarrow> s \<in> set ids \<Longrightarrow> \<exists>q \<in> set (p # ids). P q s"
proof (induction ids arbitrary: p)
  case (Cons s0 ids)
  show ?case
  proof (cases "s = s0")
    case False
    then have "\<exists>q \<in> set (s0 # ids). P q s" using Cons by simp
    then show ?thesis by auto
  qed (use Cons.prems in auto)
qed simp

text \<open>The effect of one commit, from its record.\<close>

lemma recorded_effect:
  assumes rec: "commit_recorded io t files masked to_id ids p s" and cur: "drops_current io sd ar b files live p s"
    and livep: "\<And>y r. live p y = Some r \<longleftrightarrow> (\<exists>path \<in> files p. (y, r) \<in> file_rows io sd ar b path \<and> (path, y) \<notin> masked p)"
    and lives: "\<And>y r. live s y = Some r \<longleftrightarrow> (\<exists>path \<in> files s. (y, r) \<in> file_rows io sd ar b path \<and> (path, y) \<notin> masked s)"
    and ids: "\<And>path y r. (y, r) \<in> file_rows io sd ar b path \<Longrightarrow> y \<in> file_ids io ar b path"
    and added: "set added = (\<Union>path \<in> {path. manifest_lists io to_id s EAdded path}. file_rows io sd ar b path)"
    and dropped: "set dropped = (\<Union>path \<in> {path. manifest_lists io to_id s EDeleted path}. file_ids io ar b path)"
    and del: "notes_deletes io t to_id ids s \<Longrightarrow> deleting"
  shows "commit_effect added dropped deleting (live p) (live s)"
  unfolding commit_effect_def
proof
  fix y
  have A: "set added = (\<Union>path \<in> files s - files p. file_rows io sd ar b path)"
    and D: "set dropped = (\<Union>path \<in> files p - files s. file_ids io ar b path)"
    using rec by (auto simp: commit_recorded_def added dropped)
  show "live s y = (case map_of (rev added) y of Some r \<Rightarrow> Some r
      | None \<Rightarrow> if y \<in> set dropped \<or> deleting \<and> live s y = None then None else live p y)"
  proof (cases "map_of (rev added) y")
    case (Some r)
    then have "(y, r) \<in> set added" using map_of_SomeD by fastforce
    then obtain path where "path \<in> files s - files p" "(y, r) \<in> file_rows io sd ar b path" unfolding A by blast
    then have "live s y = Some r" using rec lives by (auto simp: commit_recorded_def)
    then show ?thesis using Some by simp
  next
    case None
    then have no: "(y, r) \<notin> set added" for r by (force simp: map_of_eq_None_iff)
    have gone: "live s y = None" if d: "y \<in> set dropped"
    proof (rule ccontr)
      assume "live s y \<noteq> None"
      then obtain path' r where "path' \<in> files s - files p" "(y, r) \<in> file_rows io sd ar b path'"
        using cur d unfolding drops_current_def D by blast
      then show False using no unfolding A by blast
    qed
    have same: "live s y = live p y" if nd: "y \<notin> set dropped" and other: "\<not> (deleting \<and> live s y = None)"
    proof (cases "live s y")
      case (Some r)
      then obtain path where p: "path \<in> files s" "(y, r) \<in> file_rows io sd ar b path" "(path, y) \<notin> masked s" using lives by blast
      then have "path \<in> files p" using no unfolding A by blast
      then have "(path, y) \<notin> masked p" using p rec by (auto simp: commit_recorded_def)
      then show ?thesis using livep [of y r] p(2) \<open>path \<in> files p\<close> Some by auto
    next
      case n: None
      have "live p y = None"
      proof (rule ccontr)
        assume "live p y \<noteq> None"
        then obtain r path where p: "path \<in> files p" "(y, r) \<in> file_rows io sd ar b path" "(path, y) \<notin> masked p" using livep by blast
        show False
        proof (cases "path \<in> files s")
          case True
          have "\<not> notes_deletes io t to_id ids s" using del other n by blast
          then have "(path, y) \<notin> masked s" using rec p True by (auto simp: commit_recorded_def)
          then have "live s y = Some r" using lives p(2) True by blast
          then show False using n by simp
        next
          case False
          then have "y \<in> set dropped" unfolding D using p ids by blast
          then show False using nd by simp
        qed
      qed
      then show ?thesis using n by simp
    qed
    show ?thesis using None gone same by auto
  qed
qed

text \<open>The changes of the manifests are the entries they list.\<close>

lemma listed_changes:
  assumes "load_manifest_list io to_id = Some ms"
  shows "\<lparr>fc_snapshot_id = s, fc_path = path, fc_kind = k\<rparr> \<in> set (sa_changes \<lparr>sa_changes = [], sa_unresolved = n, sa_delete_snapshots = ds\<rparr>) \<union>
      (\<Union>mf \<in> set ms. manifest_changes io ids mf) \<longleftrightarrow>
    s \<in> set ids \<and> (k = AddedData \<and> manifest_lists io to_id s EAdded path \<or> k = DroppedData \<and> manifest_lists io to_id s EDeleted path)"
proof -
  have mem: "\<lparr>fc_snapshot_id = s, fc_path = path, fc_kind = k\<rparr> \<in> manifest_changes io ids mf \<longleftrightarrow>
      s \<in> set ids \<and> mf_added_snapshot_id mf = s \<and> \<not> mf_deletes mf \<and> (\<exists>es e. load_manifest io mf = Some es \<and> e \<in> set es \<and>
        me_content e = CData \<and> me_file_path e = path \<and>
        (me_status e = EAdded \<and> k = AddedData \<or> me_status e = EDeleted \<and> k = DroppedData))" for mf k
    unfolding manifest_changes_def by auto
  have lst: "manifest_lists io to_id s st path \<longleftrightarrow> (\<exists>mf es e. mf \<in> set ms \<and> \<not> mf_deletes mf \<and> mf_added_snapshot_id mf = s \<and>
      load_manifest io mf = Some es \<and> e \<in> set es \<and> me_content e = CData \<and> me_status e = st \<and> me_file_path e = path)" for st
    unfolding manifest_lists_def using assms by simp
  show ?thesis
  proof (cases k)
    case AddedData
    then show ?thesis by (simp add: mem lst) blast
  next
    case DroppedData
    then show ?thesis by (simp add: mem lst) blast
  qed (simp add: mem)
qed

text \<open>When the scan succeeds, the changes it found are those of the history.\<close>

lemma scan_reads_history:
  assumes h: "iceberg_history io sd ar t b files masked live f to_id ids" and run: "scan_range io sd ar t to_id ids b = Inr res"
  shows "changes_history io sd ar t b live f to_id ids \<and>
    (payloads_given io sd ar b files f ids \<longrightarrow> changes_payloads io sd ar b to_id ids)"
proof -
  define acc where "acc = range_changes io to_id ids"
  let ?flagged = "flag_snapshots t ids (sa_delete_snapshots acc)"
  obtain ms acc0 where m: "load_manifest_list io to_id = Some ms"
      "fold_result (scan_manifest io ids) \<lparr>sa_changes = [], sa_unresolved = 0, sa_delete_snapshots = []\<rparr> ms = Inr acc0"
    using run by (auto simp: scan_range_def and_next_Inr ok_or_Inr)
  then have acc0: "acc0 = acc" by (simp add: acc_def range_changes_def)
  note read = manifests_read [OF m(2), unfolded acc0]
  obtain changes unresolved parts where c: "fold_result (resolve_deletes io ar t b ids) (sa_changes acc, sa_unresolved acc) (set_iter io ?flagged) = Inr (changes, unresolved)"
      "traverse (change_rows io sd ar b) (sort_changes ids changes) = Inr parts"
    using run m acc0 by (auto simp: scan_range_def and_next_Inr)
  have hs: "chain t f ids" "\<And>xs. set (set_iter io xs) = set xs"
    "\<And>s y r. s \<in> set (f # ids) \<Longrightarrow> live s y = Some r \<longleftrightarrow>
        (\<exists>path \<in> files s. (y, r) \<in> file_rows io sd ar b path \<and> (path, y) \<notin> masked s)"
    "\<And>path y r. (y, r) \<in> file_rows io sd ar b path \<Longrightarrow> y \<in> file_ids io ar b path"
    "history_ok (\<lambda>p s. commit_recorded io t files masked to_id ids p s \<and> drops_current io sd ar b files live p s) f ids"
    "\<And>s bs. scan_table io s [id_column b] = Some bs \<Longrightarrow>
        dom (live s) = {y. \<exists>batch ys. Some batch \<in> set bs \<and> batch_to_ids ar batch (id_column b) = Inr ys \<and> y \<in> set ys}"
    using h unfolding iceberg_history_def by blast+
  have scans: "set ys = dom (live s)" if r: "snapshot_ids io ar s (id_column b) = Inr ys" for s ys
  proof -
    obtain bs where bs: "scan_table io s [id_column b] = Some bs"
        "set ys = {y. \<exists>batch zs. Some batch \<in> set bs \<and> batch_to_ids ar batch (id_column b) = Inr zs \<and> y \<in> set zs}"
      using snapshot_ids_read [OF r] by blast
    show ?thesis unfolding hs(6) [OF bs(1)] bs(2) ..
  qed
  have sub: "set (sa_changes acc) \<subseteq> set changes"
    using resolve_deletes_ok [where live = live, OF hs(2) scans chain_known [OF hs(1)] c(1)] by auto
  have ok: "change_rows io sd ar b ch = Inr (value_or [] (change_rows io sd ar b ch))" if "ch \<in> set (sa_changes acc)" for ch
    using traverse_values [OF c(2), of "[]"] sub that by (auto simp: sort_changes_def)
  have lists: "\<lparr>fc_snapshot_id = s, fc_path = path, fc_kind = k\<rparr> \<in> set (sa_changes acc) \<longleftrightarrow>
      (k = AddedData \<and> manifest_lists io to_id s EAdded path \<or> k = DroppedData \<and> manifest_lists io to_id s EDeleted path)"
    if "s \<in> set ids" for s path k
    using that unfolding conjunct1 [OF read] listed_changes [OF m(1)] by simp
  have rd: "data_file_rows io sd ar b (fc_path ch) = Inr (value_or [] (data_file_rows io sd ar b (fc_path ch)))"
    if "ch \<in> set (sa_changes acc)" "fc_kind ch = AddedData" for ch
    using ok [OF that(1)] change_rows_added [OF that(2), of io sd ar b]
    by (cases "data_file_rows io sd ar b (fc_path ch)") auto
  have rd': "data_file_ids io ar b (fc_path ch) = Inr (value_or [] (data_file_ids io ar b (fc_path ch)))"
    if "ch \<in> set (sa_changes acc)" "fc_kind ch = DroppedData" for ch
    using ok [OF that(1)] change_rows_dropped [OF that(2), of io sd ar b]
    by (cases "data_file_ids io ar b (fc_path ch)") auto
  have A: "set (commit_added io sd ar b acc s) = (\<Union>path \<in> {path. manifest_lists io to_id s EAdded path}. file_rows io sd ar b path)"
    if s: "s \<in> set ids" for s
  proof -
    have "set (value_or [] (data_file_rows io sd ar b (fc_path ch))) = file_rows io sd ar b (fc_path ch)"
      if "ch \<in> set (sa_changes acc)" "fc_kind ch = AddedData" for ch
      using data_file_read(1) [OF rd [OF that]] .
    then have "set (commit_added io sd ar b acc s) =
        (\<Union>ch \<in> {ch \<in> set (sa_changes acc). fc_snapshot_id ch = s \<and> fc_kind ch = AddedData}. file_rows io sd ar b (fc_path ch))"
      by (auto simp: commit_added_def from_commit_def is_added_def)
    also have "\<dots> = (\<Union>path \<in> {path. manifest_lists io to_id s EAdded path}. file_rows io sd ar b path)"
    proof (intro set_eqI iffI)
      fix r assume "r \<in> (\<Union>ch \<in> {ch \<in> set (sa_changes acc). fc_snapshot_id ch = s \<and> fc_kind ch = AddedData}. file_rows io sd ar b (fc_path ch))"
      then obtain ch where ch: "ch \<in> set (sa_changes acc)" "fc_snapshot_id ch = s" "fc_kind ch = AddedData" "r \<in> file_rows io sd ar b (fc_path ch)" by blast
      have "\<lparr>fc_snapshot_id = s, fc_path = fc_path ch, fc_kind = AddedData\<rparr> = ch" using ch(2,3) by (cases ch) simp
      then have "\<lparr>fc_snapshot_id = s, fc_path = fc_path ch, fc_kind = AddedData\<rparr> \<in> set (sa_changes acc)" using ch(1) by (simp only:)
      then show "r \<in> (\<Union>path \<in> {path. manifest_lists io to_id s EAdded path}. file_rows io sd ar b path)"
        using lists [OF s] ch(4) by blast
    next
      fix r assume "r \<in> (\<Union>path \<in> {path. manifest_lists io to_id s EAdded path}. file_rows io sd ar b path)"
      then obtain path where "manifest_lists io to_id s EAdded path" "r \<in> file_rows io sd ar b path" by blast
      then show "r \<in> (\<Union>ch \<in> {ch \<in> set (sa_changes acc). fc_snapshot_id ch = s \<and> fc_kind ch = AddedData}. file_rows io sd ar b (fc_path ch))"
        using lists [OF s, of path AddedData] by (intro UN_I [of "\<lparr>fc_snapshot_id = s, fc_path = path, fc_kind = AddedData\<rparr>"]) auto
    qed
    finally show ?thesis .
  qed
  have D: "set (commit_dropped io ar b acc s) = (\<Union>path \<in> {path. manifest_lists io to_id s EDeleted path}. file_ids io ar b path)"
    if s: "s \<in> set ids" for s
  proof -
    have "set (value_or [] (data_file_ids io ar b (fc_path ch))) = file_ids io ar b (fc_path ch)"
      if "ch \<in> set (sa_changes acc)" "fc_kind ch = DroppedData" for ch
      using data_file_read(2) [OF rd' [OF that]] .
    then have "set (commit_dropped io ar b acc s) =
        (\<Union>ch \<in> {ch \<in> set (sa_changes acc). fc_snapshot_id ch = s \<and> fc_kind ch = DroppedData}. file_ids io ar b (fc_path ch))"
      by (auto simp: commit_dropped_def from_commit_def)
    also have "\<dots> = (\<Union>path \<in> {path. manifest_lists io to_id s EDeleted path}. file_ids io ar b path)"
    proof (intro set_eqI iffI)
      fix r assume "r \<in> (\<Union>ch \<in> {ch \<in> set (sa_changes acc). fc_snapshot_id ch = s \<and> fc_kind ch = DroppedData}. file_ids io ar b (fc_path ch))"
      then obtain ch where ch: "ch \<in> set (sa_changes acc)" "fc_snapshot_id ch = s" "fc_kind ch = DroppedData" "r \<in> file_ids io ar b (fc_path ch)" by blast
      have "\<lparr>fc_snapshot_id = s, fc_path = fc_path ch, fc_kind = DroppedData\<rparr> = ch" using ch(2,3) by (cases ch) simp
      then have "\<lparr>fc_snapshot_id = s, fc_path = fc_path ch, fc_kind = DroppedData\<rparr> \<in> set (sa_changes acc)" using ch(1) by (simp only:)
      then show "r \<in> (\<Union>path \<in> {path. manifest_lists io to_id s EDeleted path}. file_ids io ar b path)"
        using lists [OF s] ch(4) by blast
    next
      fix r assume "r \<in> (\<Union>path \<in> {path. manifest_lists io to_id s EDeleted path}. file_ids io ar b path)"
      then obtain path where "manifest_lists io to_id s EDeleted path" "r \<in> file_ids io ar b path" by blast
      then show "r \<in> (\<Union>ch \<in> {ch \<in> set (sa_changes acc). fc_snapshot_id ch = s \<and> fc_kind ch = DroppedData}. file_ids io ar b (fc_path ch))"
        using lists [OF s, of path DroppedData] by (intro UN_I [of "\<lparr>fc_snapshot_id = s, fc_path = path, fc_kind = DroppedData\<rparr>"]) auto
    qed
    finally show ?thesis .
  qed
  have N: "s \<in> set ?flagged" if s: "s \<in> set ids" and n: "notes_deletes io t to_id ids s" for s
  proof -
    have "adds_delete_file sn"
      if "key \<in> {''added-delete-files'', ''added-position-delete-files'', ''added-equality-delete-files''}" "0 < (n :: u64)"
        "is_summary sn key = Some (show_nat (unat n))" for sn key n
    proof -
      have "(case Option.bind (is_summary sn key) parse_u64 of Some c \<Rightarrow> 0 < c | None \<Rightarrow> False)"
        by (simp add: that parse_u64_show)
      then show ?thesis using that(1) unfolding adds_delete_file_def by (intro bexI [of _ key]) auto
    qed
    note summary = this
    consider (summary) sn key n where "sn \<in> set (it_snapshots t)" "is_id sn = s" "0 < (n :: u64)"
          "key \<in> {''added-delete-files'', ''added-position-delete-files'', ''added-equality-delete-files''}"
          "is_summary sn key = Some (show_nat (unat n))"
      | (manifest) mf es e where "mf \<in> set ms" "mf_deletes mf" "mf_added_snapshot_id mf \<in> set ids"
          "load_manifest io mf = Some es" "e \<in> set es" "me_status e = EAdded" "me_content e \<noteq> CData"
          "(case me_snapshot_id e of Some d \<Rightarrow> d | None \<Rightarrow> mf_added_snapshot_id mf) = s"
      using n m(1) unfolding notes_deletes_def by auto
    then show ?thesis
    proof cases
      case noted: summary
      have "adds_delete_file sn" by (rule summary [OF noted(4,3,5)])
      then show ?thesis unfolding flag_snapshots_set using s noted(1,2) by blast
    next
      case manifest
      then have "s \<in> manifest_deletes io ids mf" unfolding manifest_deletes_def by blast
      then show ?thesis unfolding flag_snapshots_set conjunct2 [OF read] using manifest(1) by blast
    qed
  qed
  have "history_ok (\<lambda>p s. commit_effect (commit_added io sd ar b acc s) (commit_dropped io ar b acc s)
      (s \<in> set ?flagged) (live p) (live s)) f ids"
  proof (rule history_ok_mono [OF hs(5)])
    fix p s assume ps: "p \<in> set (f # ids)" "s \<in> set ids"
      and step: "commit_recorded io t files masked to_id ids p s \<and> drops_current io sd ar b files live p s"
    have "s \<in> set (f # ids)" using ps(2) by simp
    then show "commit_effect (commit_added io sd ar b acc s) (commit_dropped io ar b acc s) (s \<in> set ?flagged) (live p) (live s)"
      by (rule recorded_effect [OF conjunct1 [OF step] conjunct2 [OF step], where added = "commit_added io sd ar b acc s",
            OF hs(3) [OF ps(1)] hs(3) hs(4) A [OF ps(2)] D [OF ps(2)] N [OF ps(2)]])
  qed
  then have "changes_history io sd ar t b live f to_id ids"
    using h scans unfolding changes_history_def iceberg_history_def acc_def [symmetric] Let_def by blast
  moreover have "changes_payloads io sd ar b to_id ids" if given: "payloads_given io sd ar b files f ids"
    unfolding changes_payloads_def acc_def [symmetric]
  proof
    fix s assume s: "s \<in> set ids"
    have both: "history_ok (\<lambda>p s. commit_recorded io t files masked to_id ids p s \<and>
        (\<forall>path \<in> files s - files p. \<forall>(y, v, q) \<in> file_rows io sd ar b path. q \<noteq> None)) f ids"
    proof -
      have "history_ok P p ss \<Longrightarrow> history_ok Q p ss \<Longrightarrow> history_ok (\<lambda>p s. P p s \<and> Q p s) p ss" for P Q p ss
        by (induction ss arbitrary: p) auto
      moreover have "history_ok (commit_recorded io t files masked to_id ids) f ids"
        using hs(5) by (rule history_ok_mono) blast
      ultimately show ?thesis using given unfolding payloads_given_def by blast
    qed
    then obtain p where p: "commit_recorded io t files masked to_id ids p s"
        "\<forall>path \<in> files s - files p. \<forall>(y, v, q) \<in> file_rows io sd ar b path. q \<noteq> None"
      using history_ok_last [OF both s] by blast
    then show "\<forall>(y, v, q) \<in> set (commit_added io sd ar b acc s). q \<noteq> None"
      unfolding A [OF s] by (fastforce simp: commit_recorded_def)
  qed
  ultimately show ?thesis by blast
qed

text \<open>The scan deletes every id of a dropped file, whether the row was the current one or not.\<close>

lemma dropped_file_deletes_ids:
  assumes run: "scan_range io sd ar t to_id ids b = Inr res" and s: "s \<in> set ids" and drop: "manifest_lists io to_id s EDeleted path"
    and y: "y \<in> file_ids io ar b path" and iter: "\<And>xs. set (set_iter io xs) = set xs"
  shows "DDelete y \<in> set (ds_rows res)"
proof -
  obtain ms acc where m: "load_manifest_list io to_id = Some ms"
      "fold_result (scan_manifest io ids) \<lparr>sa_changes = [], sa_unresolved = 0, sa_delete_snapshots = []\<rparr> ms = Inr acc"
    using run by (auto simp: scan_range_def and_next_Inr ok_or_Inr)
  obtain changes unresolved parts where c: "fold_result (resolve_deletes io ar t b ids) (sa_changes acc, sa_unresolved acc)
        (set_iter io (flag_snapshots t ids (sa_delete_snapshots acc))) = Inr (changes, unresolved)"
      "traverse (change_rows io sd ar b) (sort_changes ids changes) = Inr parts" "ds_rows res = concat parts"
    using run m by (auto simp: scan_range_def and_next_Inr)
  let ?ch = "\<lparr>fc_snapshot_id = s, fc_path = path, fc_kind = DroppedData\<rparr>"
  have "?ch \<in> set (sa_changes acc)"
    using drop s unfolding conjunct1 [OF manifests_read [OF m(2)]] listed_changes [OF m(1)] by simp
  moreover have "set (sa_changes acc) \<subseteq> set changes"
    by (rule fold_result_invariant [OF c(1), of "\<lambda>x. set (sa_changes acc) \<subseteq> set (fst x)", simplified])
      (auto simp: resolve_deletes_def and_next_Inr split: if_splits option.splits)
  ultimately have ch: "?ch \<in> set (sort_changes ids changes)" by (auto simp: sort_changes_def)
  note vals = traverse_values [OF c(2), of "[]"]
  have "change_rows io sd ar b ?ch = Inr (value_or [] (change_rows io sd ar b ?ch))" using vals ch by blast
  moreover have "set (value_or [] (change_rows io sd ar b ?ch)) \<subseteq> set (ds_rows res)"
    unfolding c(3) conjunct1 [OF vals] using ch by auto
  ultimately obtain out where o: "change_rows io sd ar b ?ch = Inr out" "set out \<subseteq> set (ds_rows res)" by blast
  then obtain ys where "data_file_ids io ar b path = Inr ys" "out = map DDelete ys"
    using change_rows_dropped [of ?ch io sd ar b] by (cases "data_file_ids io ar b path") auto
  then show ?thesis using data_file_read(2) y o(2) by force
qed

section \<open>Errors of the scan\<close>

text \<open>Only the walk over the parents reports a snapshot that is not an ancestor.\<close>

definition no_range_error :: "lakehouse_error + 'a \<Rightarrow> bool" where
  "no_range_error r \<longleftrightarrow> (\<forall>f t. r \<noteq> Inl (NonAncestorSnapshot f t))"

named_theorems range_errors \<open>results that are not a missing ancestor\<close>

lemma no_range_error_basic [range_errors]:
  "no_range_error (Inr x)" "no_range_error (ok_or LkIceberg m)" "no_range_error (ok_or LkArrow m)"
  "no_range_error (Inl LkIceberg)" "no_range_error (Inl LkParquet)" "no_range_error (Inl LkSchema)" "no_range_error (index_of b name)"
  by (cases m; simp add: no_range_error_def) (auto simp: no_range_error_def index_of_def ok_or_def split: option.split)

lemma no_range_error_and_next [range_errors]:
  "no_range_error m \<Longrightarrow> (\<And>x. no_range_error (f x)) \<Longrightarrow> no_range_error (and_next m f)"
  by (cases m) (simp_all add: no_range_error_def)

lemma no_range_error_map_sum [range_errors]: "no_range_error r \<Longrightarrow> no_range_error (map_sum id g r)"
  by (cases r) (simp_all add: no_range_error_def)

lemma no_range_error_traverse [range_errors]: "(\<And>x. x \<in> set xs \<Longrightarrow> no_range_error (f x)) \<Longrightarrow> no_range_error (traverse f xs)"
  by (induction xs) (auto intro!: range_errors)

lemma no_range_error_fold [range_errors]: "(\<And>s x. no_range_error (f s x)) \<Longrightarrow> no_range_error (fold_result f s xs)"
  by (induction xs arbitrary: s) (auto intro!: range_errors)

lemma batch_errors [range_errors]:
  "no_range_error (id_column_of ar b c)" "no_range_error (payload_indices b names)" "no_range_error (vector_at col i)"
  by (auto simp: id_column_of_def payload_indices_def Let_def intro!: range_errors split: column.split)
    (cases "(col, i)" rule: vector_at.cases; auto intro: range_errors)

lemma decode_errors [range_errors]:
  "no_range_error (batch_to_vectors sd ar b x y z)" "no_range_error (batch_to_ids ar b x)"
  by (auto simp: batch_to_vectors_def batch_to_ids_def intro!: range_errors)

lemma scan_errors [range_errors]: "no_range_error (snapshot_ids io ar s col)"
  by (auto simp: snapshot_ids_def scan_stream_def intro!: range_errors)

lemma row_errors [range_errors]: "no_range_error (batch_changes sd ar b kind batch)"
  by (cases kind) (auto simp: batch_changes_def intro!: range_errors)

lemma change_errors [range_errors]: "no_range_error (change_rows io sd ar b ch)"
proof (cases "read_file io (fc_path ch)")
  case (FileBatches bs)
  have "no_range_error (traverse (\<lambda>ob. and_next ob (batch_changes sd ar b kind)) (map (ok_or LkArrow) bs))" for kind
    by (auto intro!: range_errors)
  with FileBatches show ?thesis by (auto simp: change_rows_def file_batches_def intro!: range_errors split: change_kind.split)
qed (auto simp: change_rows_def file_batches_def intro!: range_errors split: change_kind.split)

lemma scan_range_errors: "no_range_error (scan_range io sd ar t to_id ids b)"
  by (auto simp: scan_range_def scan_manifest_def resolve_deletes_def intro!: range_errors split: option.split)

end
