(* ===== verification/Upkeep.thy ===== *)
theory Upkeep
  imports Guarantees
begin

text \<open>
  Counters, log rewriting and source deltas of the log manager: what a batch does not count, which entries
  \<open>truncate_wal_up_to\<close> keeps, and why a source delta may be applied again after it failed halfway.
\<close>

section \<open>Rewriting the log\<close>

text \<open>Reading the frames of a log and then whatever follows it.\<close>

lemma kept_entries_log:
  assumes libs: "libs_ok lib bin" and log: "is_log lib bin es bs"
  shows "kept_entries lib bin w (frames (bs @ r)) =
    map_sum id (\<lambda>ks. filter (\<lambda>e. w < e_lsn e) es @ ks) (kept_entries lib bin w (frames r))"
  using log
proof (induction es arbitrary: bs)
  case Nil
  then show ?case by (cases "kept_entries lib bin w (frames r)") simp_all
next
  case (Cons e es)
  then obtain f bs' where f: "holds lib bin e f" "bs = f @ bs'" "is_log lib bin es bs'" by auto
  obtain p c z where z: "bin_write bin e = Some p" "encode_payload lib p c = Some z" "length z < 2 ^ 32"
      "f = frame lib z" "e_version e = CURRENT_WAL_VERSION" using f(1) by (auto simp: holds_def)
  have "frames (bs @ r) = (z, checksum lib z) # frames (bs' @ r)"
    using read_frame_write [OF z(3), of lib "bs' @ r"] by (subst frames.simps) (simp add: f(2) z(4))
  moreover have "decode_entry lib bin z = Inr e" using decode_encoded [OF libs z(1,2)] z(5) by simp
  ultimately show ?case using Cons.IH [OF f(3)]
    by (cases "kept_entries lib bin w (frames r)") simp_all
qed

lemma frames_Nil [simp]: "frames [] = []"
  by (subst frames.simps) (simp add: read_frame_def read_exact_def)

lemma frames_damaged:
  "length z < 2 ^ 32 \<Longrightarrow> frames (damaged z h @ r) = (z, h) # frames r"
  by (subst frames.simps) (simp add: read_frame_def damaged_def read_exact_append le_val_len le_val_hash)

text \<open>The rewritten log.\<close>

lemma truncate_result:
  assumes libs: "libs_ok (x_lib env) (x_bin env)"
    and kept: "kept_entries (x_lib env) (x_bin env) w (frames (wal_path wm)) = Inr ks"
    and fit: "\<forall>e \<in> set ks. fits (x_lib env) (x_bin env) (cfg_compression (w_config wm)) e \<and> e_version e = CURRENT_WAL_VERSION"
  shows "\<exists>bs wm'. truncate_wal_up_to env TrOk wm w = (Inr (), wm') \<and> is_log (x_lib env) (x_bin env) ks bs \<and>
    wal_path wm' = bs \<and> wm' = wm\<lparr>w_wal := open_append (Some bs) (cfg_compression (w_config wm)), w_detached := None,
      w_wal_entries := of_nat (length ks), w_since_checkpoint := of_nat (length (filter (\<lambda>e. w_snapshot_lsn wm < e_lsn e) ks))\<rparr>"
proof -
  obtain ps bs where "those (map (bin_write (x_bin env)) ks) = Some ps"
      "batch_frames (x_lib env) (cfg_compression (w_config wm)) ps = (bs, True)" "is_log (x_lib env) (x_bin env) ks bs"
    using batch_frames_log [OF fit] by blast
  then have "truncate_wal_up_to env TrOk wm w = (Inr (), wm\<lparr>w_wal := open_append (Some bs) (cfg_compression (w_config wm)),
      w_detached := None, w_wal_entries := of_nat (length ks),
      w_since_checkpoint := of_nat (length (filter (\<lambda>e. w_snapshot_lsn wm < e_lsn e) ks))\<rparr>)"
    by (simp add: truncate_wal_up_to_def kept)
  then show ?thesis using \<open>is_log (x_lib env) (x_bin env) ks bs\<close> by (auto simp: wal_path_def)
qed

text \<open>Opening replays whatever entries above the snapshot the log has, consecutive or not.\<close>

lemma reopen_above:
  assumes env: "env_ok env docs" and snap: "snapshot_of env dir (d_snapshot d) snap base" and disk: "disk_holds env d es"
    and ex: "\<forall>e \<in> set es. snap < e_lsn e \<longrightarrow> op_exact (e_op e)" and len: "length es < 2 ^ 64"
  shows "\<exists>wm. open_with_config env ls True cfg dir d = Inr wm \<and>
    abs_mgr (w_inner wm) = spec_ops (map e_op (filter (\<lambda>e. snap < e_lsn e) es)) base"
proof -
  obtain m where m: "load_snapshot env dir (d_snapshot d) = Inr (m, snap)" "mgr_good env m" "abs_mgr m = base"
    using snap by (auto simp: snapshot_of_def)
  let ?rp = "\<lparr>rp_mgr = m, rp_last_lsn = snap, rp_entries = 0, rp_since = 0, rp_report = report_empty\<rparr>"
  obtain rp where rp: "replay_entries env ls snap dir ?rp es = Inr rp"
      "abs_mgr (rp_mgr rp) = spec_ops (map e_op (filter (\<lambda>e. snap < e_lsn e) es)) base"
    using replay_entries_spec [OF env, of ?rp es snap ls dir] m(2,3) ex len by (auto simp: report_empty_def)
  have "replay_path env ls (d_wal d) m snap dir = Inr rp"
    using disk rp(1) by (cases "d_wal d") (simp_all add: disk_holds_def replay_path_def replay_wal_def)
  then show ?thesis using m(1) rp(2) by (simp add: open_with_config_def opened_def)
qed



text \<open>A rewrite takes any frame with a wrong hash for the end of the log. Reading such a log reports the damage, but
  a rewrite keeps the entries before the damaged frame, drops every intact entry after it and succeeds, so that
  afterwards nothing shows that acknowledged entries are gone.\<close>

theorem truncate_hides_damage:
  assumes libs: "libs_ok (x_lib env) (x_bin env)" and log: "is_log (x_lib env) (x_bin env) es bs" "es \<noteq> []"
    and z: "length z < 2 ^ 32" "h \<noteq> checksum (x_lib env) z" and more: "r \<noteq> []"
    and path: "wal_path wm = bs @ damaged z h @ r"
    and fit: "\<forall>e \<in> set es. fits (x_lib env) (x_bin env) (cfg_compression (w_config wm)) e \<and> e_version e = CURRENT_WAL_VERSION"
  shows "open_reader (x_lib env) (x_bin env) None (wal_path wm) = Inr (es, Some (Crc h (checksum (x_lib env) z))) \<and>
    (\<exists>wm'. truncate_wal_up_to env TrOk wm w = (Inr (), wm') \<and>
      open_reader (x_lib env) (x_bin env) None (wal_path wm') = Inr (filter (\<lambda>e. w < e_lsn e) es, None))"
proof -
  have "kept_entries (x_lib env) (x_bin env) w (frames (wal_path wm)) = Inr (filter (\<lambda>e. w < e_lsn e) es)"
    using kept_entries_log [OF libs log(1), of w "damaged z h @ r"] z by (simp add: path frames_damaged)
  then obtain bs' wm' where "truncate_wal_up_to env TrOk wm w = (Inr (), wm')" "wal_path wm' = bs'"
      "is_log (x_lib env) (x_bin env) (filter (\<lambda>e. w < e_lsn e) es) bs'"
    using truncate_result [OF libs, of w wm "filter (\<lambda>e. w < e_lsn e) es"] fit by auto
  moreover have "open_reader (x_lib env) (x_bin env) None (wal_path wm) = Inr (es, Some (Crc h (checksum (x_lib env) z)))"
    using open_reader_tail [OF libs log, of None "damaged z h @ r"] read_items_damaged [OF z, of "x_bin env" None r] more
    by (simp add: path)
  ultimately show ?thesis using open_reader_log [OF libs, of _ bs' None] by auto
qed

theorem truncate_hides_damage_witness:
  fixes ops :: "f64 wal_op list"
  defines "ops \<equiv> [DropCollection ''c'', WDelete ''c'' 7]"
  shows "\<exists>wm wm'. wal_path wm = frame sum_lib (0 # 2 # 0 # le_bytes 8 1) @ damaged [7] 8 @ frame sum_lib (0 # 2 # 1 # le_bytes 8 3) \<and>
    open_reader sum_lib (op_bin ops) None (wal_path wm) = Inr ([wal_entry_new 1 (DropCollection ''c'')], Some (Crc 8 7)) \<and>
    truncate_wal_up_to (tiny_env ops) TrOk (wm :: (f64, (vecid \<times> string) list) wal_manager) 0 = (Inr (), wm') \<and>
    open_reader sum_lib (op_bin ops) None (wal_path wm') = Inr ([wal_entry_new 1 (DropCollection ''c'')], None)"
proof -
  let ?bs = "frame sum_lib (0 # 2 # 0 # le_bytes 8 1)" and ?es = "[wal_entry_new 1 (DropCollection ''c'')]"
    and ?r = "frame sum_lib (0 # 2 # 1 # le_bytes 8 3)"
  define wm :: "(f64, (vecid \<times> string) list) wal_manager" where
    "wm = opened tiny_config ''d'' \<lparr>d_snapshot = None, d_wal = Some (?bs @ damaged [7] 8 @ ?r)\<rparr>
      \<lparr>rp_mgr = manager_new, rp_last_lsn = 0, rp_entries = 0, rp_since = 0, rp_report = report_empty\<rparr> 0 0 0"
  have path: "wal_path wm = ?bs @ damaged [7] 8 @ ?r" and cfg: "cfg_compression (w_config wm) = NoCompression"
    by (simp_all add: wm_def opened_def wal_path_def tiny_config_def)
  have lib: "x_lib (tiny_env ops) = sum_lib" "x_bin (tiny_env ops) = op_bin ops" by (simp_all add: tiny_env_def)
  have libs: "libs_ok (x_lib (tiny_env ops)) (x_bin (tiny_env ops))" using tiny_env_ok [of ops] by (simp add: env_ok_def ops_def)
  have log: "is_log (x_lib (tiny_env ops)) (x_bin (tiny_env ops)) ?es ?bs"
    using tiny_frame [of "DropCollection ''c''" ops 0 1 ?bs] by (simp add: ops_def)
  have sum: "checksum sum_lib [7] = 7" by (simp add: checksum_def sum_lib_def)
  have "\<forall>e \<in> set ?es. fits (x_lib (tiny_env ops)) (x_bin (tiny_env ops)) (cfg_compression (w_config wm)) e \<and> e_version e = CURRENT_WAL_VERSION"
    using tiny_fine [of "DropCollection ''c''" ops] by (simp add: cfg op_fine_def op_exact_def ops_def wal_entry_new_def)
  moreover have "?r \<noteq> []" by (simp add: write_frame_def)
  ultimately show ?thesis
    using truncate_hides_damage [OF libs log, of "[7]" 8 ?r wm 0] path by (fastforce simp: lib sum wal_entry_new_def)
qed

section \<open>Counters\<close>

lemma batch_result:
  assumes "wal_insert_batch env io ls wm col items = (Inr n, wm')"
  shows "n = length items \<and> w_next_lsn wm' = w_next_lsn wm + of_nat n \<and> w_wal_entries wm' = w_wal_entries wm \<and>
    w_since_checkpoint wm' = w_since_checkpoint wm \<and> w_entries_written wm' = w_entries_written wm \<and>
    w_snapshot wm' = w_snapshot wm \<and> w_snapshot_lsn wm' = w_snapshot_lsn wm"
  using assms
  by (auto simp: wal_insert_batch_def Let_def and_then_def split: sum.splits if_splits option.splits prod.splits)

lemma batch_accepted:
  assumes env: "env_ok env docs" and inv: "wal_inv env wm base old es" and fine: "live_fine env wm (LBatch col items)"
    and room: "unat (w_next_lsn wm) + length items < 2 ^ 64" and c: "hm_get (w_inner wm) col = Some c"
    and dims: "\<forall>(y, v, p) \<in> set items. length v = c_dim c" and ne: "items \<noteq> []"
  shows "\<exists>wm'. wal_insert_batch env IoOk ls wm col items = (Inr (length items), wm')"
proof -
  let ?fs = "batch_entries (w_next_lsn wm) col items"
  have good: "mgr_good env (w_inner wm)" using inv by (simp add: wal_inv_def)
  have "\<forall>e \<in> set ?fs. fits (x_lib env) (x_bin env) (ww_compression (w_wal wm)) e \<and> e_version e = CURRENT_WAL_VERSION"
    using batch_entries_fine [OF fine] by blast
  then obtain ps w where app: "append_batch (x_lib env) (x_bin env) IoOk (w_wal wm) ?fs = (Inr ps, w)"
    using append_batch_ok [of ?fs "x_lib env" "x_bin env" "w_wal wm"] inv by (auto simp: wal_inv_def)
  obtain a mgr where upd: "on_collection (w_inner wm) col (\<lambda>c. col_insert_batch_with_lsns (x_rt env) (x_tv env) ls c
      (map (\<lambda>(e, y, v, p). (y, v, p, e_lsn e)) (zip ?fs items))) = (a, mgr)"
    by (cases "on_collection (w_inner wm) col (\<lambda>c. col_insert_batch_with_lsns (x_rt env) (x_tv env) ls c
      (map (\<lambda>(e, y, v, p). (y, v, p, e_lsn e)) (zip ?fs items)))")
  have "a = Inr ()" using step_batch [OF good env c dims upd] by simp
  moreover have "find (\<lambda>(y, v, p). length v \<noteq> c_dim c) items = None" using dims by (auto simp: find_None_iff)
  ultimately show ?thesis using c ne room app upd by (simp add: wal_insert_batch_def mgr_get_def Let_def)
qed

text \<open>A batch is logged but not counted. The entry counters, which the automatic checkpoint and the statistics
  go by, are the same before and after a batch of any size and no checkpoint is taken, although every row is an
  entry of the log: opening the directory again counts them all.\<close>

theorem batch_not_counted:
  assumes env: "env_ok env docs" and inv: "wal_inv env wm base old es" and fine: "live_fine env wm (LBatch col items)"
    and room: "unat (w_next_lsn wm) + length items < 2 ^ 64"
    and run: "wal_insert_batch env IoOk ls wm col items = (Inr n, wm')"
  shows "n = length items \<and> unat (w_next_lsn wm') = unat (w_next_lsn wm) + n \<and> w_wal_entries wm' = w_wal_entries wm \<and>
    w_since_checkpoint wm' = w_since_checkpoint wm \<and> w_entries_written wm' = w_entries_written wm \<and>
    w_snapshot wm' = w_snapshot wm \<and>
    (\<exists>wm2. open_with_config env ls' True cfg (w_dir wm) (disk_of wm') = Inr wm2 \<and>
      abs_mgr (w_inner wm2) = abs_mgr (w_inner wm') \<and>
      unat (w_since_checkpoint wm2) = length es + n \<and> unat (w_wal_entries wm2) = length (old @ es) + n)"
proof -
  note res = batch_result [OF run]
  have "unat (of_nat n :: u64) = n" using room res by (simp add: unat_of_nat)
  then have sum: "unat (w_next_lsn wm') = unat (w_next_lsn wm) + n"
    using room res by (simp add: unat_word_ariths(1))
  obtain es' where es': "wal_inv env wm' base old es'" "same_setup wm wm'"
    using batch_inv [OF env inv fine room run] by blast
  then have len: "length es' = length es + n" using sum res inv by (simp add: wal_inv_def)
  have "disk_inv env (w_dir wm) (disk_of wm') (w_snapshot_lsn wm') base old es'"
    using es' by (simp add: wal_inv_def same_setup_def)
  from reopen [OF env this, of ls' cfg] show ?thesis using res sum len es'(1) by (auto simp: wal_inv_def)
qed

theorem batch_not_counted_witness:
  fixes ops :: "f64 wal_op list"
  defines "ops \<equiv> [CreateCollection ''c'' 1 L2 KFlat, WInsert ''c'' 7 [0] None]"
  shows "\<exists>wm wm' wm2. open_with_config (tiny_env ops) (\<lambda>_. 0) True tiny_config ''d'' \<lparr>d_snapshot = None, d_wal = None\<rparr> = Inr wm \<and>
    wal_insert_batch (tiny_env ops) IoOk (\<lambda>_. 0) (run_lives (tiny_env ops) [(CkOk, \<lambda>_. 0, LCreate ''c'' 1 L2 KFlat)] wm)
      ''c'' [(7, [0], None)] = (Inr 1, wm') \<and>
    open_with_config (tiny_env ops) (\<lambda>_. 0) True tiny_config ''d'' (disk_of wm') = Inr wm2 \<and>
    unat (w_since_checkpoint wm2) = unat (w_next_lsn wm') - unat (w_snapshot_lsn wm') - 1"
proof -
  let ?x = "LCreate ''c'' 1 L2 KFlat" and ?items = "[(7, [0], None)]"
  have env: "env_ok (tiny_env ops) map_of" by (rule tiny_env_ok) (simp add: ops_def)
  obtain wm where open0: "open_with_config (tiny_env ops) (\<lambda>_. 0) True tiny_config ''d'' \<lparr>d_snapshot = None, d_wal = None\<rparr> = Inr wm"
    using open_fresh [OF env, of "\<lambda>_. 0" tiny_config "''d''"] by auto
  let ?wm = "run_lives (tiny_env ops) [(CkOk, \<lambda>_. 0, ?x)] wm"
  have fine: "\<forall>opn \<in> set ops. op_fine (tiny_env ops) NoCompression opn"
    by (simp add: tiny_fine ops_def op_exact_def)
  obtain base old es where inv: "wal_inv (tiny_env ops) ?wm base old es" "abs_mgr (w_inner ?wm) = spec_live ?x Map.empty"
      "w_dir ?wm = ''d''" "ww_compression (w_wal ?wm) = NoCompression" "unat (w_next_lsn ?wm) \<le> 2"
    using fresh_run [OF env open0, of "[(CkOk, \<lambda>_. 0, ?x)]"] fine by (auto simp: tiny_config_def ops_def)
  have "abs_mgr (w_inner ?wm) ''c'' = Some (new_acol 1 L2 KFlat)"
    unfolding inv(2) by (simp add: spec_live_def spec_op_def valid_kind_def)
  then obtain c where c: "hm_get (w_inner ?wm) ''c'' = Some c" "c_dim c = 1" by (auto simp: abs_mgr_def abs_col_def new_acol_def)
  have fine': "live_fine (tiny_env ops) ?wm (LBatch ''c'' ?items)" unfolding inv(4) using fine by (simp add: ops_def)
  obtain wm' where run: "wal_insert_batch (tiny_env ops) IoOk (\<lambda>_. 0) ?wm ''c'' ?items = (Inr 1, wm')"
    using batch_accepted [OF env inv(1) fine' _ c(1)] inv(5) c(2) by fastforce
  obtain wm2 where "open_with_config (tiny_env ops) (\<lambda>_. 0) True tiny_config ''d'' (disk_of wm') = Inr wm2"
      "unat (w_since_checkpoint wm2) = length es + 1" "unat (w_next_lsn wm') = unat (w_next_lsn ?wm) + 1"
    using batch_not_counted [OF env inv(1) fine' _ run, of "\<lambda>_. 0" tiny_config] inv(3,5) by auto
  moreover have "w_snapshot_lsn wm' = w_snapshot_lsn ?wm" using batch_result [OF run] by simp
  ultimately show ?thesis using open0 run inv(1) by (auto simp: wal_inv_def)
qed

section \<open>Source deltas\<close>

text \<open>One application, on the collection it is for.\<close>

lemma source_delta_cases:
  assumes c: "hm_get (w_inner wm) col = Some c" "col_inv raw_params (x_rt env) c"
    and run: "apply_source_delta env ls wm col b from_id to_id items = (r, wm')"
  shows "\<exists>c'. w_inner wm' = hm_insert col c' (w_inner wm) \<and> col_inv raw_params (x_rt env) c' \<and>
    c_source_binding c' = c_source_binding c \<and> agree items (contents c) (contents c') \<and>
    (if c_source_binding c \<noteq> Some b \<or> c_source_snapshot_id c \<noteq> from_id then r = Inr False \<and> c' = c
     else if \<exists>e. r = Inl e then c_source_snapshot_id c' = c_source_snapshot_id c
     else r = Inr True \<and> c_source_snapshot_id c' = Some to_id \<and> contents c' = foldl delta_spec (contents c) items)"
proof -
  obtain q c1 where q: "apply_delta_rows (x_rt env) (x_tv env) ls c items out_of_band_lsn = (q, c1)"
    by (cases "apply_delta_rows (x_rt env) (x_tv env) ls c items out_of_band_lsn")
  note s = apply_delta_rows_spec [OF c(2) q]
  have upd: "col_inv raw_params (x_rt env) (c1\<lparr>c_source_snapshot_id := i\<rparr>)" "contents (c1\<lparr>c_source_snapshot_id := i\<rparr>) = contents c1" for i
    using s by (simp_all add: col_inv_def contents_def)
  show ?thesis
  proof (cases "c_source_binding c \<noteq> Some b \<or> c_source_snapshot_id c \<noteq> from_id")
    case True
    then show ?thesis using run c by (auto simp: apply_source_delta_def on_collection_def)
  next
    case False
    then show ?thesis using run c q s upd
      by (cases q) (auto simp: apply_source_delta_def on_collection_def same_place_def)
  qed
qed

text \<open>C23. A source delta is applied once, however often it is tried. An attempt that fails on some row, whatever it
  changed before, leaves the recorded source position where it was, and a later attempt that succeeds leaves
  exactly the contents one application to the original collection would have; after it the same delta is
  refused and changes nothing.\<close>

theorem source_delta_retry:
  assumes c: "hm_get (w_inner wm) col = Some c" "col_inv raw_params (x_rt env) c" and rt: "x_rt env' = x_rt env"
    and first: "apply_source_delta env ls wm col b (Some m) n items = (Inl e, wm1)"
    and again: "apply_source_delta env' ls' wm1 col b (Some m) n items = (Inr True, wm2)" and new: "m \<noteq> n"
  shows "\<exists>c1 c2. hm_get (w_inner wm1) col = Some c1 \<and> c_source_snapshot_id c1 = Some m \<and>
    hm_get (w_inner wm2) col = Some c2 \<and> c_source_snapshot_id c2 = Some n \<and>
    contents c2 = foldl delta_spec (contents c) items \<and>
    (\<exists>wm3. apply_source_delta env' ls'' wm2 col b (Some m) n items = (Inr False, wm3) \<and> hm_get (w_inner wm3) col = Some c2)"
proof -
  obtain c1 where c1: "w_inner wm1 = hm_insert col c1 (w_inner wm)" "col_inv raw_params (x_rt env) c1"
      "agree items (contents c) (contents c1)" "c_source_snapshot_id c1 = Some m"
    using source_delta_cases [OF c first] by (auto split: if_splits)
  then have get1: "hm_get (w_inner wm1) col = Some c1" by (simp add: hm_get_insert)
  obtain c2 where c2: "w_inner wm2 = hm_insert col c2 (w_inner wm1)" "col_inv raw_params (x_rt env') c2"
      "c_source_snapshot_id c2 = Some n" "contents c2 = foldl delta_spec (contents c1) items"
    using source_delta_cases [OF get1 _ again] c1(2) by (auto simp: rt split: if_splits)
  then have get2: "hm_get (w_inner wm2) col = Some c2" by (simp add: hm_get_insert)
  obtain r wm3 where third: "apply_source_delta env' ls'' wm2 col b (Some m) n items = (r, wm3)"
    by (cases "apply_source_delta env' ls'' wm2 col b (Some m) n items")
  then have "r = Inr False \<and> hm_get (w_inner wm3) col = Some c2"
    using source_delta_cases [OF get2 c2(2) third] c2(3) new by (auto simp: hm_get_insert)
  then show ?thesis using get1 c1(4) get2 c2(3,4) third agree_fold [OF c1(3)] by auto
qed

text \<open>The text engine fails to commit in the first attempt, between the two rows of the delta.\<close>

definition stuck_env :: "(f64, (vecid \<times> string) list) wal_env" where
  "stuck_env = (tiny_env [])\<lparr>x_tv := list_engine\<lparr>tv_commit := \<lambda>t. (False, t)\<rparr>\<rparr>"

definition binding_example :: source_binding where
  "binding_example = \<lparr>source_namespace = [''db''], source_table = ''t'', id_column = ''id'', vector_column = ''v'',
     payload_columns = []\<rparr>"

definition bound_example :: "(f64, (vecid \<times> string) list) wal_manager" where
  "bound_example = opened tiny_config ''d'' \<lparr>d_snapshot = None, d_wal = None\<rparr>
     \<lparr>rp_mgr = [(''c'', (collection_new ''c'' 1 L2)\<lparr>c_fts := Some \<lparr>fts_engine = [], fts_lsn_path = None, fts_watermark = 0\<rparr>,
        c_source_binding := Some binding_example, c_source_snapshot_id := Some 5\<rparr>)], rp_last_lsn = 0, rp_entries = 0,
      rp_since = 0, rp_report = report_empty\<rparr> 0 0 0"

lemmas delta_run = apply_source_delta_def on_collection_def bound_example_def opened_def stuck_env_def tiny_env_def
  collection_new_def collection_with_index_def apply_delta_row_def col_insert_def col_delete_def ix_insert_def ix_delete_def
  flat_new_def flat_insert_def flat_delete_def apply_insert_payload_def journal_push_def on_fts_def fts_remove_def
  fts_delete_document_def tv_step_def list_engine_def out_of_band_lsn_def and_then_def

theorem source_delta_retry_witness:
  "\<exists>wm1 wm2 c2. apply_source_delta stuck_env (\<lambda>_. 0) bound_example ''c'' binding_example (Some 5) 6 [DUpsert 1 [0] None, DDelete 2] =
      (Inl FtsError, wm1) \<and>
    apply_source_delta (tiny_env []) (\<lambda>_. 0) wm1 ''c'' binding_example (Some 5) 6 [DUpsert 1 [0] None, DDelete 2] = (Inr True, wm2) \<and>
    hm_get (w_inner wm2) ''c'' = Some c2 \<and> c_source_snapshot_id c2 = Some 6"
proof -
  let ?rows = "[DUpsert 1 [0] None, DDelete 2] :: f64 delta_row list"
  obtain wm1 where first: "apply_source_delta stuck_env (\<lambda>_. 0) bound_example ''c'' binding_example (Some 5) 6 ?rows = (Inl FtsError, wm1)"
    by (simp add: delta_run)
  obtain wm2 where again: "apply_source_delta (tiny_env []) (\<lambda>_. 0) wm1 ''c'' binding_example (Some 5) 6 ?rows = (Inr True, wm2)"
    using first by (auto simp: delta_run hm_get_insert hm_insert_def hm_remove_def)
  obtain c where c: "hm_get (w_inner bound_example) ''c'' = Some c" "col_inv raw_params (x_rt stuck_env) c"
    using flat_new_ok [of 1 L2]
    by (simp add: bound_example_def opened_def col_inv_def any_inv_def flat_inv_def stuck_env_def tiny_env_def plain_rt_ok ix_dim_def meta_defs
      collection_new_def collection_with_index_def flat_new_def)
  have rt: "x_rt (tiny_env [] :: (f64, (vecid \<times> string) list) wal_env) = x_rt stuck_env" by (simp add: stuck_env_def)
  show ?thesis using source_delta_retry [OF c rt first again, of "\<lambda>_. 0"] first again by fastforce
qed

end
