(* ===== verification/Maintenance.thy ===== *)
theory Maintenance
  imports DeltaScan Upkeep Compaction
begin

text \<open>
  Keeping collections in step with their source tables: the configuration and the row budget of \<open>maintenance.rs\<close>,
  \<open>source_table.rs\<close> and the task of \<open>index_maintenance_task.rs\<close>. The task takes the lock on the log manager several
  times in one tick; what other tasks do to it in between is an argument. Metrics and log lines are left out.
\<close>

section \<open>Configuration\<close>

record maintenance_config =
  mc_enabled :: bool
  mc_interval_s :: u64
  mc_hnsw_compaction_tombstone_ratio :: f32
  mc_ivf_compaction_every_n_rows :: u64
  mc_max_rows_per_tick :: nat

definition maintenance_default :: maintenance_config where
  "maintenance_default = \<lparr>mc_enabled = False, mc_interval_s = 60, mc_hnsw_compaction_tombstone_ratio = 0x3E4CCCCD,
     mc_ivf_compaction_every_n_rows = 1000000, mc_max_rows_per_tick = 0\<rparr>"

definition should_run :: "maintenance_config \<Rightarrow> bool" where
  "should_run config = mc_enabled config"

definition row_budget :: "maintenance_config \<Rightarrow> nat \<Rightarrow> nat" where
  "row_budget config pending =
     (if \<not> should_run config then 0
      else if mc_max_rows_per_tick config = 0 then pending
      else min pending (mc_max_rows_per_tick config))"

section \<open>Rows that wait\<close>

text \<open>The loop of \<open>apply_tick\<close>: a row that fails goes back to the front of the queue.\<close>

fun tick_loop ::
  "rt \<Rightarrow> 't tantivy \<Rightarrow> (nat \<Rightarrow> nat) \<Rightarrow> u64 \<Rightarrow> nat \<Rightarrow> nat \<Rightarrow> 'n delta_row list \<Rightarrow> ('n, 't) collection \<Rightarrow>
     (db_error + nat) \<times> 'n delta_row list \<times> ('n, 't) collection"
where
  "tick_loop rt tv ls lsn applied 0 pending c = (Inr applied, pending, c)"
| "tick_loop rt tv ls lsn applied (Suc n) [] c = (Inr applied, [], c)"
| "tick_loop rt tv ls lsn applied (Suc n) (r # pending) c =
     (case apply_delta_row rt tv (ls (length pending)) c r lsn of
        (Inl e, c1) \<Rightarrow> (Inl e, r # pending, c1)
      | (Inr _, c1) \<Rightarrow> tick_loop rt tv ls lsn (applied + 1) n pending c1)"

definition apply_tick ::
  "rt \<Rightarrow> 't tantivy \<Rightarrow> (nat \<Rightarrow> nat) \<Rightarrow> 'n delta_row list \<Rightarrow> ('n, 't) collection \<Rightarrow> maintenance_config \<Rightarrow> u64 \<Rightarrow>
     (db_error + nat) \<times> 'n delta_row list \<times> ('n, 't) collection"
where
  "apply_tick rt tv ls pending c config lsn = tick_loop rt tv ls lsn 0 (row_budget config (length pending)) pending c"

lemma tick_loop_prefix:
  assumes "col_inv raw_params rt c" "tick_loop rt tv ls lsn a n pending c = (Inr a', pending', c')"
  shows "a' = a + min n (length pending) \<and> pending' = drop n pending \<and> col_inv raw_params rt c' \<and> same_place c c' \<and>
    contents c' = foldl delta_spec (contents c) (take n pending)"
  using assms
proof (induction rt tv ls lsn a n pending c rule: tick_loop.induct)
  case (3 rt tv ls lsn applied n r pending c)
  obtain q c1 where q: "apply_delta_row rt tv (ls (length pending)) c r lsn = (q, c1)"
    by (cases "apply_delta_row rt tv (ls (length pending)) c r lsn")
  then obtain u where u: "q = Inr u" using 3(3) by (cases q) auto
  note s = apply_delta_row_spec [OF 3(2) q]
  show ?case using 3(1) [OF q [symmetric] u] 3(3) q u s same_place_trans by fastforce
qed auto

text \<open>Ticks of any size that get through the queue apply exactly the rows of the delta, in order.\<close>

lemma apply_tick_prefix:
  assumes "col_inv raw_params rt c" "apply_tick rt tv ls pending c config lsn = (Inr a, pending', c')"
  shows "a = row_budget config (length pending) \<and> pending' = drop a pending \<and> col_inv raw_params rt c' \<and>
    contents c' = foldl delta_spec (contents c) (take a pending)"
  using tick_loop_prefix [OF assms(1) assms(2) [unfolded apply_tick_def]] by (auto simp: row_budget_def min_def)

section \<open>Source tables\<close>

record source_io =
  so_namespace_ok :: "string list \<Rightarrow> bool"
  so_load_table :: "string list \<Rightarrow> string \<Rightarrow> ice_table option"
  so_table_name :: "string list \<Rightarrow> string \<Rightarrow> string"

definition source_table_ident :: "source_io \<Rightarrow> source_binding \<Rightarrow> lakehouse_error + string list \<times> string" where
  "source_table_ident so b =
     (if so_namespace_ok so (source_namespace b) then Inr (source_namespace b, source_table b) else Inl LkIceberg)"

definition load_source_table :: "source_io \<Rightarrow> source_binding \<Rightarrow> lakehouse_error + ice_table" where
  "load_source_table so b = and_next (source_table_ident so b) (\<lambda>(ns, name).
     ok_or (SourceTableLoad (so_table_name so ns name)) (so_load_table so ns name))"

section \<open>The task\<close>

record bound_collection =
  bc_name :: string
  bc_binding :: source_binding
  bc_source_snapshot_id :: "64 word option"
  bc_tombstone_ratio :: f32

record ivf_compaction_state =
  ics_rows_since_compaction :: u64
  ics_completed_compactions :: u64

record maintenance_task =
  mt_hnsw_compaction_tombstone_ratio :: f32
  mt_ivf_compaction_every_n_rows :: u64

type_synonym ivf_states = "(string \<times> ivf_compaction_state) list"

text \<open>What the code reaches outside, and what other tasks do to the manager before its lock is taken the n-th time.\<close>

record ('n, 't) tick_env =
  tk_wal :: "('n, 't) wal_env"
  tk_source :: source_io
  tk_scan :: scan_io
  tk_serde :: "'n serde"
  tk_arrow :: "'n arrow_lib"
  tk_between :: "nat \<Rightarrow> ('n, 't) wal_manager \<Rightarrow> ('n, 't) wal_manager"
  tk_levels :: "nat \<Rightarrow> nat \<Rightarrow> nat"

definition bound_collections :: "('n, 't) wal_manager \<Rightarrow> bound_collection list" where
  "bound_collections wm = List.map_filter (\<lambda>name. case wal_get wm name of
       Inl _ \<Rightarrow> None
     | Inr c \<Rightarrow> (case c_source_binding c of
         None \<Rightarrow> None
       | Some b \<Rightarrow> Some \<lparr>bc_name = name, bc_binding = b, bc_source_snapshot_id = c_source_snapshot_id c,
           bc_tombstone_ratio = col_tombstone_ratio c\<rparr>)) (wal_list wm)"

definition sat_sub :: "u64 \<Rightarrow> u64 \<Rightarrow> u64" where
  "sat_sub a b = (if b \<le> a then a - b else 0)"

text \<open>\<open>u64::try_from(applied_rows).unwrap_or(u64::MAX)\<close>\<close>

definition u64_of_usize :: "nat \<Rightarrow> u64" where
  "u64_of_usize n = (if n < 2 ^ 64 then of_nat n else - 1)"

definition maybe_compact_ivf ::
  "('n, 't) tick_env \<Rightarrow> maintenance_task \<Rightarrow> string \<Rightarrow> nat \<Rightarrow> ('n, 't) wal_manager \<Rightarrow> ivf_states \<Rightarrow>
     (lakehouse_error + bool) \<times> ('n, 't) wal_manager \<times> ivf_states"
where
  "maybe_compact_ivf tk task name applied_rows wm states =
     (if mt_ivf_compaction_every_n_rows task = 0 \<or> applied_rows = 0 then (Inr False, wm, states)
      else
        let wm1 = tk_between tk 1 wm
        in case wal_get wm1 name of
            Inl e \<Rightarrow> (Inl (LkStore e), wm1, states)
          | Inr c \<Rightarrow>
              if col_index_type c \<noteq> ''IvfIndex'' then (Inr False, wm1, hm_remove name states)
              else
                let state = (case hm_get states name of Some s \<Rightarrow> s
                      | None \<Rightarrow> \<lparr>ics_rows_since_compaction = 0, ics_completed_compactions = 0\<rparr>);
                    n = sat_add (ics_rows_since_compaction state) (u64_of_usize applied_rows);
                    states1 = hm_insert name (state\<lparr>ics_rows_since_compaction := n\<rparr>) states
                in if n < mt_ivf_compaction_every_n_rows task then (Inr False, wm1, states1)
                   else case wal_compact_ivf_collection (tk_wal tk) (tk_levels tk 1) (tk_between tk 2 wm1) name of
                       (Inl e, wm2) \<Rightarrow> (Inl (LkStore e), wm2, states1)
                     | (Inr False, wm2) \<Rightarrow> (Inr False, wm2, states1)
                     | (Inr True, wm2) \<Rightarrow> (Inr True, wm2, hm_insert name
                         \<lparr>ics_rows_since_compaction = sat_sub n (mt_ivf_compaction_every_n_rows task),
                          ics_completed_compactions = sat_add (ics_completed_compactions state) 1\<rparr> states))"

text \<open>The plan that \<open>enqueue_hnsw_compaction\<close> hands to a worker, and what the worker's task does when the build is over;
  no result of the build: the worker died.\<close>

definition enqueue_hnsw_compaction ::
  "('n, 't) tick_env \<Rightarrow> maintenance_task \<Rightarrow> string \<Rightarrow> ('n, 't) wal_manager \<Rightarrow>
     (lakehouse_error + (db_error + prepared_compaction) option) \<times> ('n, 't) wal_manager"
where
  "enqueue_hnsw_compaction tk task name wm =
     map_prod (map_sum LkStore id) id
       (wal_prepare_index_compaction (tk_between tk 3 wm) name (mt_hnsw_compaction_tombstone_ratio task))"

datatype compaction_result = CSuccess | CStale | CFailure

definition finish_compaction_task ::
  "('n, 't) wal_env \<Rightarrow> (nat \<Rightarrow> nat) \<Rightarrow> ('n, 't) wal_manager \<Rightarrow> string \<Rightarrow> (db_error + any_index) option \<Rightarrow>
     compaction_result \<times> ('n, 't) wal_manager"
where
  "finish_compaction_task env ls wm name build = (case build of
       Some (Inr built) \<Rightarrow> map_prod (\<lambda>r. case r of Inr True \<Rightarrow> CSuccess | Inr False \<Rightarrow> CStale | Inl e \<Rightarrow> CFailure) id
         (wal_finish_index_compaction env ls wm name built)
     | Some (Inl e) \<Rightarrow> (CFailure, snd (wal_cancel_index_compaction wm name))
     | None \<Rightarrow> (CFailure, snd (wal_cancel_index_compaction wm name)))"

text \<open>The rows to apply: the delta, or the whole table when the recorded snapshot is not an ancestor any more.\<close>

definition scan_source ::
  "('n, 't) tick_env \<Rightarrow> ice_table \<Rightarrow> source_binding \<Rightarrow> 64 word option \<Rightarrow> 64 word \<Rightarrow> (lakehouse_error + 'n delta_scan) option"
where
  "scan_source tk table b from_id to_id =
     (case scan_delta (tk_scan tk) (tk_serde tk) (tk_arrow tk) table from_id to_id b of
        Some (Inl (NonAncestorSnapshot f t)) \<Rightarrow> scan_delta (tk_scan tk) (tk_serde tk) (tk_arrow tk) table None to_id b
      | r \<Rightarrow> r)"

definition maintain_collection ::
  "('n, 't) tick_env \<Rightarrow> maintenance_task \<Rightarrow> bound_collection \<Rightarrow> ('n, 't) wal_manager \<Rightarrow> ivf_states \<Rightarrow>
     ((lakehouse_error + (db_error + prepared_compaction) option) \<times> ('n, 't) wal_manager \<times> ivf_states) option"
where
  "maintain_collection tk task bc wm states = (case load_source_table (tk_source tk) (bc_binding bc) of
       Inl e \<Rightarrow> Some (Inl e, wm, states)
     | Inr table \<Rightarrow> (case it_current table of
         None \<Rightarrow> Some (Inr None, wm, states)
       | Some to_id \<Rightarrow>
           if bc_source_snapshot_id bc = Some to_id then Some (Inr None, wm, states)
           else case scan_source tk table (bc_binding bc) (bc_source_snapshot_id bc) to_id of
               None \<Rightarrow> None
             | Some (Inl e) \<Rightarrow> Some (Inl e, wm, states)
             | Some (Inr scan) \<Rightarrow>
                 (case apply_source_delta (tk_wal tk) (tk_levels tk 0) (tk_between tk 0 wm) (bc_name bc) (bc_binding bc)
                     (bc_source_snapshot_id bc) to_id (ds_rows scan) of
                    (Inl e, wm1) \<Rightarrow> Some (Inl (LkStore e), wm1, states)
                  | (Inr False, wm1) \<Rightarrow> Some (Inr None, wm1, states)
                  | (Inr True, wm1) \<Rightarrow>
                      (case maybe_compact_ivf tk task (bc_name bc) (length (ds_rows scan)) wm1 states of
                         (Inl e, wm2, states1) \<Rightarrow> Some (Inl e, wm2, states1)
                       | (Inr _, wm2, states1) \<Rightarrow>
                           (case enqueue_hnsw_compaction tk task (bc_name bc) wm2 of
                              (r, wm3) \<Rightarrow> Some (r, wm3, states1))))))"

text \<open>One tick: the bound collections one after the other; an error ends the work on its collection only. The plans are
  handed to workers.\<close>

fun run_collections ::
  "(nat \<Rightarrow> ('n, 't) tick_env) \<Rightarrow> maintenance_task \<Rightarrow> bound_collection list \<Rightarrow> ('n, 't) wal_manager \<Rightarrow> ivf_states \<Rightarrow>
     ((string \<times> (db_error + prepared_compaction)) list \<times> ('n, 't) wal_manager \<times> ivf_states) option"
where
  "run_collections tks task [] wm states = Some ([], wm, states)"
| "run_collections tks task (bc # bcs) wm states = (case maintain_collection (tks (length bcs)) task bc wm states of
       None \<Rightarrow> None
     | Some (r, wm1, states1) \<Rightarrow> (case run_collections tks task bcs wm1 states1 of
         None \<Rightarrow> None
       | Some (plans, wm2, states2) \<Rightarrow>
           Some ((case r of Inr (Some plan) \<Rightarrow> [(bc_name bc, plan)] | _ \<Rightarrow> []) @ plans, wm2, states2)))"

definition run_once ::
  "(nat \<Rightarrow> ('n, 't) tick_env) \<Rightarrow> maintenance_task \<Rightarrow> ('n, 't) wal_manager \<Rightarrow> ivf_states \<Rightarrow>
     ((string \<times> (db_error + prepared_compaction)) list \<times> ('n, 't) wal_manager \<times> ivf_states) option"
where
  "run_once tks task wm states = run_collections tks task (bound_collections wm) wm states"

section \<open>Compaction keeps the contents\<close>

lemma compact_ivf_index_ok:
  assumes inv: "col_inv raw_params rt c" and run: "compact_ivf_index rt ls c = (r, c')"
  shows "col_inv raw_params rt c' \<and> contents c' = contents c \<and> same_place c c'"
proof (cases "c' = c")
  case False
  then obtain s ix where ix: "c_index c = IvfIndex s" "ivf_compact rt s = Some (Inr ix)" "c' = c\<lparr>c_index := IvfIndex ix\<rparr>"
    using run by (cases "c_index c")
      (auto simp: compact_ivf_index_def ix_compact_def ix_type_def map_sum_Inr split: if_splits option.splits sum.splits)
  have ok: "rt_ok rt" "ivf_ok s" "raw_params (ivf_dim s) (ivf_nlist s) (ivf_quantize s)"
    using inv by (simp_all add: col_inv_def ix(1) any_inv_def ivf_inv_def)
  have trained: "ivf_trained s" using ix(2) by (auto simp: ivf_compact_def split: if_splits)
  then have "ivf_ok ix" "same_params ix s" "dom (ivf_get ix) = dom (ivf_get s)" "ivf_get ix = ivf_get s"
    using ivf_compact_ok [OF ok(1,2) trained] ix(2) ok(3) by auto
  then show ?thesis using inv ok by (simp add: col_inv_def contents_def ix any_inv_def ivf_inv_def same_place_def same_params_def ix_dim_def ix_get_def)
qed (use inv in simp)

lemma prepare_index_compaction_ok:
  assumes inv: "col_inv raw_params rt c" and run: "prepare_index_compaction c threshold = (r, c')"
  shows "col_inv raw_params rt c' \<and> contents c' = contents c \<and> same_place c c'"
proof -
  have "c' = c \<or> c' = c\<lparr>c_journal := Some []\<rparr>"
    using run by (auto simp: prepare_index_compaction_def split: if_splits option.splits sum.splits)
  then show ?thesis using inv by (elim disjE) (simp_all add: col_inv_def contents_def same_place_def)
qed

lemma on_collection_get:
  assumes "hm_get mgr name = Some c" "on_collection mgr name f = (r, mgr')"
  shows "\<exists>c'. f c = (r, c') \<and> hm_get mgr' = (hm_get mgr)(name \<mapsto> c')"
  using assms(2)
proof (cases rule: on_collection_cases)
  case (found c0 c')
  then show ?thesis using assms(1) by (simp add: hm_get_insert del: fun_upd_apply)
qed (use assms(1) in simp)

text \<open>The collection of a name, with its contents and its place.\<close>

definition holds_contents ::
  "('n, 't) wal_env \<Rightarrow> ('n, 't) wal_manager \<Rightarrow> string \<Rightarrow> 'n contents \<Rightarrow> source_binding option \<times> 64 word option \<Rightarrow> bool"
where
  "holds_contents env wm name x source \<longleftrightarrow> (\<exists>c. hm_get (w_inner wm) name = Some c \<and> col_inv raw_params (x_rt env) c \<and>
     contents c = x \<and> (c_source_binding c, c_source_snapshot_id c) = source)"

lemma maybe_compact_ivf_keeps:
  assumes quiet: "\<And>i. 0 < i \<Longrightarrow> tk_between tk i = id" and holds: "holds_contents (tk_wal tk) wm name x source"
    and run: "maybe_compact_ivf tk task name n wm states = (r, wm', states')"
  shows "holds_contents (tk_wal tk) wm' name x source \<and> (\<forall>m. m \<noteq> name \<longrightarrow> hm_get (w_inner wm') m = hm_get (w_inner wm) m)"
proof -
  obtain q wm2 where q: "wal_compact_ivf_collection (tk_wal tk) (tk_levels tk 1) wm name = (q, wm2)"
    by (cases "wal_compact_ivf_collection (tk_wal tk) (tk_levels tk 1) wm name")
  have wm': "wm' = wm \<or> wm' = wm2"
    using run q quiet [of 1] quiet [of 2]
    by (auto simp: maybe_compact_ivf_def Let_def split: if_splits sum.splits prod.splits bool.splits)
  obtain c where c: "hm_get (w_inner wm) name = Some c" "col_inv raw_params (x_rt (tk_wal tk)) c" "contents c = x" "(c_source_binding c, c_source_snapshot_id c) = source"
    using holds by (auto simp: holds_contents_def)
  obtain mgr where mgr: "on_collection (w_inner wm) name (compact_ivf_index (x_rt (tk_wal tk)) (tk_levels tk 1)) = (q, mgr)" "wm2 = wm\<lparr>w_inner := mgr\<rparr>"
    using q by (auto simp: wal_compact_ivf_collection_def map_prod_eq)
  obtain c' where c': "compact_ivf_index (x_rt (tk_wal tk)) (tk_levels tk 1) c = (q, c')" "hm_get mgr = (hm_get (w_inner wm))(name \<mapsto> c')"
    using on_collection_get [OF c(1) mgr(1)] by blast
  then have "holds_contents (tk_wal tk) wm2 name x source"
    using compact_ivf_index_ok [OF c(2) c'(1)] c(3,4) mgr(2) by (simp add: holds_contents_def same_place_def)
  then show ?thesis using wm' holds c'(2) mgr(2) by auto
qed

lemma enqueue_keeps:
  assumes quiet: "\<And>i. 0 < i \<Longrightarrow> tk_between tk i = id" and holds: "holds_contents (tk_wal tk) wm name x source"
    and run: "enqueue_hnsw_compaction tk task name wm = (r, wm')"
  shows "holds_contents (tk_wal tk) wm' name x source \<and> (\<forall>m. m \<noteq> name \<longrightarrow> hm_get (w_inner wm') m = hm_get (w_inner wm) m)"
proof -
  obtain q wm2 where q: "wal_prepare_index_compaction wm name (mt_hnsw_compaction_tombstone_ratio task) = (q, wm2)"
    by (cases "wal_prepare_index_compaction wm name (mt_hnsw_compaction_tombstone_ratio task)")
  then have wm': "wm' = wm2" using run quiet [of 3] by (simp add: enqueue_hnsw_compaction_def)
  obtain c where c: "hm_get (w_inner wm) name = Some c" "col_inv raw_params (x_rt (tk_wal tk)) c" "contents c = x" "(c_source_binding c, c_source_snapshot_id c) = source"
    using holds by (auto simp: holds_contents_def)
  obtain mgr where mgr: "on_collection (w_inner wm) name (\<lambda>c. map_prod Inr id (prepare_index_compaction c (mt_hnsw_compaction_tombstone_ratio task))) = (q, mgr)"
      "wm2 = wm\<lparr>w_inner := mgr\<rparr>"
    using q by (auto simp: wal_prepare_index_compaction_def map_prod_eq)
  obtain p c' where c': "prepare_index_compaction c (mt_hnsw_compaction_tombstone_ratio task) = (p, c')" "hm_get mgr = (hm_get (w_inner wm))(name \<mapsto> c')"
    using on_collection_get [OF c(1) mgr(1)] by (cases "prepare_index_compaction c (mt_hnsw_compaction_tombstone_ratio task)") auto
  then have "holds_contents (tk_wal tk) wm2 name x source"
    using prepare_index_compaction_ok [OF c(2) c'(1)] c(3,4) mgr(2) by (simp add: holds_contents_def same_place_def)
  then show ?thesis using wm' c'(2) mgr(2) by auto
qed

section \<open>Properties\<close>


text \<open>Snapshot 6 adds one file, with one row, to the empty table of snapshot 5.\<close>

definition source_example :: ice_table where
  "source_example = \<lparr>it_snapshots = [\<lparr>is_id = 5, is_parent = None, is_summary = (\<lambda>_. None)\<rparr>,
     \<lparr>is_id = 6, is_parent = Some 5, is_summary = (\<lambda>_. None)\<rparr>], it_current = Some 6\<rparr>"

definition batch_example :: record_batch where
  "batch_example = \<lparr>b_columns = [(''id'', UInt64Array [(True, 1)]), (''v'', FloatLists (FixedSizeList 1) [(True, [0])])], b_num_rows = 1\<rparr>"

definition scan_example :: scan_io where
  "scan_example = \<lparr>load_manifest_list = (\<lambda>_. Some [\<lparr>mf_path = ''m'', mf_deletes = False, mf_added_snapshot_id = 6\<rparr>]),
     load_manifest = (\<lambda>_. Some [\<lparr>me_status = EAdded, me_content = CData, me_snapshot_id = None, me_file_path = ''f''\<rparr>]),
     scan_table = (\<lambda>_ _. None), read_file = (\<lambda>_. FileBatches [Some batch_example]), set_iter = id\<rparr>"

definition tick_example :: "(f64, (vecid \<times> string) list) tick_env" where
  "tick_example = \<lparr>tk_wal = tiny_env [],
     tk_source = \<lparr>so_namespace_ok = \<lambda>_. True, so_load_table = \<lambda>_ _. Some source_example, so_table_name = \<lambda>_ n. n\<rparr>,
     tk_scan = scan_example, tk_serde = tiny_serde, tk_arrow = tiny_arrow, tk_between = \<lambda>_. id, tk_levels = \<lambda>_ _. 0\<rparr>"

definition live_example :: "64 word \<Rightarrow> f64 table_state" where
  "live_example s = (if s = 6 then [1 \<mapsto> ([0], None)] else Map.empty)"

lemmas scan_run = scan_example_def source_example_def scan_manifest_def data_entry_def flag_snapshots_def adds_delete_file_def

lemma data_rows_example: "batch_to_vectors tiny_serde tiny_arrow batch_example ''id'' ''v'' [] = Inr [(1, [0], None)]"
  by (simp add: batch_to_vectors_def id_column_of_def index_of_def column_at_def batch_example_def payload_indices_def build_payload_def)

definition files_example :: "64 word \<Rightarrow> string set" where
  "files_example s = (if s = 6 then {''f''} else {})"

lemma iceberg_history_example:
  "iceberg_history scan_example tiny_serde tiny_arrow source_example binding_example files_example (\<lambda>_. {}) live_example 5 6 [6]"
proof -
  have rows1: "file_rows scan_example tiny_serde tiny_arrow binding_example path = {(1, [0], None)}" for path
    by (auto simp: file_rows_def scan_example_def binding_example_def data_rows_example)
  have ids1: "file_ids scan_example tiny_arrow binding_example path = {1}" for path
    by (auto simp: file_ids_def scan_example_def binding_example_def batch_to_ids_def id_column_of_def index_of_def column_at_def batch_example_def)
  have lists: "manifest_lists scan_example 6 6 st path \<longleftrightarrow> st = EAdded \<and> path = ''f''" for st path
    by (auto simp: manifest_lists_def scan_example_def)
  have "commit_recorded scan_example source_example files_example (\<lambda>_. {}) 6 [6] 5 6"
    unfolding commit_recorded_def lists by (simp add: files_example_def)
  moreover have "drops_current scan_example tiny_serde tiny_arrow binding_example files_example live_example 5 6"
    by (simp add: drops_current_def files_example_def)
  moreover have "chain source_example 5 [6]" "snapshot_by_id source_example 5 \<noteq> None"
    by (simp_all add: parent_of_def snapshot_by_id_def source_example_def)
  ultimately show ?thesis unfolding iceberg_history_def rows1 ids1
    by (auto simp: live_example_def files_example_def scan_example_def)
qed

lemma scan_range_example:
  "scan_range scan_example tiny_serde tiny_arrow source_example 6 [6] binding_example =
    Inr \<lparr>ds_rows = [DUpsert 1 [0] None], ds_unresolved_delete_files = 0\<rparr>"
  by (simp add: scan_range_def scan_run sort_changes_def change_rows_def file_batches_def batch_changes_def binding_example_def data_rows_example
    upsert_of_def)


end
