(* ===== verification/QueryProps.thy ===== *)
theory QueryProps
  imports Query
begin

text \<open>
  What the query pipeline promises: the text it hands to the SQL engine cannot be changed by a team name, and its
  answer is made of the best candidates in order.
\<close>

section \<open>The best of a list\<close>

text \<open>\<open>js\<close> are the indices of the \<open>m\<close> largest of \<open>n\<close> keys, largest first, of equal ones the earliest first.\<close>

definition before :: "(nat \<Rightarrow> int) \<Rightarrow> nat \<Rightarrow> nat \<Rightarrow> bool" where
  "before key i j \<longleftrightarrow> key j < key i \<or> key i = key j \<and> i < j"

definition best_of :: "nat \<Rightarrow> (nat \<Rightarrow> int) \<Rightarrow> nat \<Rightarrow> nat list \<Rightarrow> bool" where
  "best_of n key m js \<longleftrightarrow> set js \<subseteq> {..<n} \<and> length js = min m n \<and> sorted_wrt (before key) js \<and>
     (\<forall>i \<in> set js. \<forall>j < n. j \<notin> set js \<longrightarrow> before key i j)"

lemma insort_key_map:
  "f (g x) = k x \<Longrightarrow> \<forall>y \<in> set ys. f (g y) = k y \<Longrightarrow> insort_key f (g x) (map g ys) = map g (insort_key k x ys)"
  by (induction ys) simp_all

lemma sort_key_map: "\<forall>x \<in> set xs. f (g x) = k x \<Longrightarrow> sort_key f (map g xs) = map g (sort_key k xs)"
  by (induction xs) (simp_all add: insort_key_map)

lemma insort_before:
  assumes "sorted_wrt (before key) ys" "\<forall>y \<in> set ys. x < y"
  shows "sorted_wrt (before key) (insort_key (\<lambda>i. - key i) x ys)"
  using assms by (induction ys) (auto simp: before_def set_insort_key)

lemma sort_before: "sorted_wrt (<) xs \<Longrightarrow> sorted_wrt (before key) (sort_key (\<lambda>i. - key i) xs)"
  by (induction xs) (simp_all add: insort_before)

lemma best_of_take: "best_of n key m (take m (sort_key (\<lambda>i. - key i) [0..<n]))"
proof -
  let ?is = "sort_key (\<lambda>i. - key i) [0..<n]"
  have s: "sorted_wrt (before key) ?is" by (rule sort_before) simp
  have "\<forall>i \<in> set (take m ?is). \<forall>j \<in> set (drop m ?is). before key i j"
    using s sorted_wrt_append [of "before key" "take m ?is" "drop m ?is"] by simp
  moreover have "set (take m ?is) \<union> set (drop m ?is) = {..<n}"
    by (simp add: set_append [symmetric] del: set_append) auto
  ultimately show ?thesis using s by (auto simp: best_of_def sorted_wrt_take)
qed

lemma best_of_distinct: "best_of n key m js \<Longrightarrow> distinct js"
proof -
  assume "best_of n key m js"
  then have "sorted_wrt (before key) js" by (simp add: best_of_def)
  then show "distinct js" by (induction js) (auto simp: before_def)
qed

text \<open>What \<open>sort_by\<close> and \<open>truncate\<close> leave, by index.\<close>

lemma sort_desc_best:
  assumes "\<forall>x \<in> set xs. \<not> nan x" "n = length xs" "\<forall>i < n. key i = f (xs ! i)"
  shows "\<exists>js. best_of n key m js \<and> map_option (\<lambda>ys. Inr (take m ys)) (sort_desc f nan xs) = Some (Inr (map ((!) xs) js) :: query_error + _ list)"
proof -
  have "sort_key (\<lambda>x. - f x) (map ((!) xs) [0..<n]) = map ((!) xs) (sort_key (\<lambda>i. - key i) [0..<n])"
    using assms(3) by (intro sort_key_map) simp
  then have "take m (sort_key (\<lambda>x. - f x) xs) = map ((!) xs) (take m (sort_key (\<lambda>i. - key i) [0..<n]))"
    using assms(2) by (simp add: map_nth take_map)
  then show ?thesis using best_of_take [of n key m] assms(1) by (auto simp: sort_desc_def list_ex_iff)
qed

section \<open>Literals of a query\<close>

text \<open>A query cut at its quotes: code and literals take turns.\<close>

fun split_at :: "char \<Rightarrow> string \<Rightarrow> string list" where
  "split_at q [] = [[]]"
| "split_at q (c # cs) = (if c = q then [] # split_at q cs else (c # hd (split_at q cs)) # tl (split_at q cs))"

fun literals :: "string list \<Rightarrow> string list" where
  "literals (a # b # ps) = b # literals ps"
| "literals _ = []"

fun code_parts :: "string list \<Rightarrow> string list" where
  "code_parts (a # b # ps) = a # code_parts ps"
| "code_parts ps = ps"

lemma split_at_plain [simp]: "q \<notin> set s \<Longrightarrow> split_at q s = [s]"
  by (induction s) auto

lemma split_at_quote [simp]: "q \<notin> set s \<Longrightarrow> split_at q (s @ q # t) = s # split_at q t"
  by (induction s) auto

lemma split_team_clause:
  assumes "quot \<notin> set b" "quot \<notin> set t"
  shows "split_at quot (b @ team_clause t @ z) = (b @ ''array_has(acl.allowed_teams, '') # t # split_at quot ('')'' @ z)"
  using split_at_quote [of quot "b @ ''array_has(acl.allowed_teams, ''" "t @ quot # '')'' @ z"]
    split_at_quote [of quot t "'')'' @ z"] assms
  by (simp add: team_clause_def del: split_at.simps split_at_quote)

definition clause_code :: "string \<Rightarrow> nat \<Rightarrow> string \<Rightarrow> string list" where
  "clause_code b n z = (b @ ''array_has(acl.allowed_teams, '') #
     replicate n ('') OR array_has(acl.allowed_teams, '') @ ['')'' @ z]"

lemma split_clauses:
  assumes "ts \<noteq> []" "\<forall>t \<in> set ts. quot \<notin> set t" "quot \<notin> set b" "quot \<notin> set z"
  shows "literals (split_at quot (b @ join_with '' OR '' (map team_clause ts) @ z)) = ts \<and>
    code_parts (split_at quot (b @ join_with '' OR '' (map team_clause ts) @ z)) = clause_code b (length ts - 1) z"
  using assms
proof (induction "'' OR ''" "map team_clause ts" arbitrary: ts b rule: join_with.induct)
  case (2 c)
  then obtain t where "ts = [t]" by auto
  then show ?case using 2 split_team_clause [of b t z] by (simp add: clause_code_def)
next
  case (3 c d cs)
  then obtain t u us where ts: "ts = t # u # us" by (cases ts; cases "tl ts") auto
  have rest: "literals (split_at quot ('') OR '' @ join_with '' OR '' (map team_clause (u # us)) @ z)) = u # us \<and>
      code_parts (split_at quot ('') OR '' @ join_with '' OR '' (map team_clause (u # us)) @ z)) = clause_code '') OR '' (length us) z"
    using 3(1) [of "u # us" "'') OR ''"] 3(2-) ts by simp
  show ?case using split_team_clause [of b t "'' OR '' @ join_with '' OR '' (map team_clause (u # us)) @ z"] rest 3(4,5)
    by (simp add: ts clause_code_def del: split_at.simps)
qed simp

text \<open>The text up to the condition.\<close>

definition enrich_head :: "bool \<Rightarrow> string" where
  "enrich_head include_embedding = unlines
     [''SELECT'', ''    c.id,'', ''    c.ann_distance,'', ''    c.ann_rank,'', ''    e.chunk_text,'', ''    d.created_at,'',
      ''    a.reputation_score,'', ''    a.is_verified'' @ (if include_embedding then unlines ['','', ''    e.embedding''] else []),
      ''FROM candidates c'', ''JOIN embeddings e       ON c.id = e.chunk_id'', ''JOIN documents d        ON e.doc_id = d.id'',
      ''JOIN authors a          ON d.author_id = a.id'', ''JOIN classifications cl ON e.doc_id = cl.doc_id'',
      ''JOIN access_control acl ON e.doc_id = acl.doc_id'', ''WHERE cl.sensitivity_label != '']"

definition acl_tail :: "string list \<Rightarrow> string" where
  "acl_tail teams = (if teams = [] then []
     else CHR 0x0A # ''  AND ('' @ join_with '' OR '' (map team_clause teams) @ '')'')"

lemma enrich_head_plain [simp]: "quot \<notin> set (enrich_head e)"
  by (simp add: enrich_head_def unlines_def)

lemma enrich_sql_text:
  "enrich_sql alnum teams e = Inr sql \<Longrightarrow>
    sql = enrich_head e @ quot # ''restricted'' @ quot # acl_tail teams \<and> (\<forall>t \<in> set teams. validate_team_name alnum t = Inr ())"
  by (auto simp: enrich_sql_def acl_predicate_def and_next_Inr enrich_head_def unlines_def acl_tail_def dest: traverse_values [where d = "()"]
    split: if_splits)

lemma valid_team_plain: "\<not> alnum quot \<Longrightarrow> validate_team_name alnum t = Inr () \<Longrightarrow> quot \<notin> set t"
  by (auto simp: validate_team_name_def team_char_def list_all_iff split: if_splits)

lemma enrich_split:
  assumes "\<not> alnum quot" "enrich_sql alnum teams e = Inr sql"
  shows "literals (split_at quot sql) = ''restricted'' # teams \<and>
    code_parts (split_at quot sql) = enrich_head e # (if teams = [] then [[]] else clause_code (CHR 0x0A # ''  AND ('') (length teams - 1) '')'')"
proof -
  note sql = enrich_sql_text [OF assms(2)]
  have "split_at quot sql = enrich_head e # ''restricted'' # split_at quot (acl_tail teams)"
    using conjunct1 [OF sql] split_at_quote [of quot "''restricted''" "acl_tail teams"] by simp
  moreover have "literals (split_at quot (acl_tail teams)) = teams \<and>
      code_parts (split_at quot (acl_tail teams)) = (if teams = [] then [[]] else clause_code (CHR 0x0A # ''  AND ('') (length teams - 1) '')'')"
  proof (cases "teams = []")
    case False
    then show ?thesis
      using split_clauses [of teams "CHR 0x0A # ''  AND (''" "'')''"] valid_team_plain [where alnum = alnum, OF assms(1)] sql by (simp add: acl_tail_def)
  qed (simp add: acl_tail_def)
  ultimately show ?thesis by simp
qed

section \<open>Properties\<close>

text \<open>C37. No team name can change the query that enforces access control. A request is refused as a whole when a name is empty
  or has a character other than letters, digits, \<open>-\<close>, \<open>_\<close> and \<open>.\<close>. Otherwise the literals of the SQL text are exactly
  the word restricted and the names of the request, in their order, and everything outside the literals is the same for
  all requests with as many teams.\<close>

theorem enrich_literals:
  assumes alnum: "\<not> alnum quot"
  shows "((\<exists>sql. enrich_sql alnum teams e = Inr sql) \<longleftrightarrow> (\<forall>t \<in> set teams. t \<noteq> [] \<and> (\<forall>c \<in> set t. team_char alnum c))) \<and>
    (\<forall>sql. enrich_sql alnum teams e = Inr sql \<longrightarrow> literals (split_at quot sql) = ''restricted'' # teams \<and>
      (\<forall>teams' sql'. length teams' = length teams \<and> enrich_sql alnum teams' e = Inr sql' \<longrightarrow>
        code_parts (split_at quot sql') = code_parts (split_at quot sql)))"
proof -
  have valid: "validate_team_name alnum t = Inr () \<longleftrightarrow> t \<noteq> [] \<and> (\<forall>c \<in> set t. team_char alnum c)" for t
    by (simp add: validate_team_name_def list_all_iff)
  have "\<exists>sql. enrich_sql alnum teams e = Inr sql" if "\<forall>t \<in> set teams. validate_team_name alnum t = Inr ()"
    using traverse_map_Inr [of teams "validate_team_name alnum" "\<lambda>_. ()"] that by (simp add: enrich_sql_def acl_predicate_def Let_def)
  moreover have "\<forall>t \<in> set teams. validate_team_name alnum t = Inr ()" if "enrich_sql alnum teams e = Inr sql" for sql
    using enrich_sql_text [OF that] by blast
  ultimately have "(\<exists>sql. enrich_sql alnum teams e = Inr sql) \<longleftrightarrow> (\<forall>t \<in> set teams. t \<noteq> [] \<and> (\<forall>c \<in> set t. team_char alnum c))"
    unfolding valid by blast
  moreover have "literals (split_at quot sql) = ''restricted'' # teams \<and>
      (\<forall>teams' sql'. length teams' = length teams \<and> enrich_sql alnum teams' e = Inr sql' \<longrightarrow>
        code_parts (split_at quot sql') = code_parts (split_at quot sql))" if run: "enrich_sql alnum teams e = Inr sql" for sql
  proof (intro conjI allI impI)
    note this_split = enrich_split [where alnum = alnum, OF alnum run]
    show "literals (split_at quot sql) = ''restricted'' # teams" using this_split by (rule conjunct1)
    fix teams' sql' assume other: "length teams' = length teams \<and> enrich_sql alnum teams' e = Inr sql'"
    then have "teams' = [] \<longleftrightarrow> teams = []" by (metis length_0_conv)
    then show "code_parts (split_at quot sql') = code_parts (split_at quot sql)"
      unfolding conjunct2 [OF enrich_split [where alnum = alnum, OF alnum conjunct2 [OF other]]] conjunct2 [OF this_split] conjunct1 [OF other]
      by (simp only:)
  qed
  ultimately show ?thesis by blast
qed

definition ascii_alnum :: "char \<Rightarrow> bool" where
  "ascii_alnum c \<longleftrightarrow> c \<in> set ''abcdefghijklmnopqrstuvwxyz0123456789''"

theorem enrich_literals_witness:
  "(\<exists>sql. enrich_sql ascii_alnum [''eng'', ''ml-ops''] False = Inr sql \<and> literals (split_at quot sql) = [''restricted'', ''eng'', ''ml-ops'']) \<and>
    (\<nexists>sql. enrich_sql ascii_alnum [''x'' @ [quot]] False = Inr sql)"
proof -
  have q: "\<not> ascii_alnum quot" by (simp add: ascii_alnum_def)
  note fine = enrich_literals [where alnum = ascii_alnum and teams = "[''eng'', ''ml-ops'']" and e = False, OF q]
    and bad = enrich_literals [where alnum = ascii_alnum and teams = "[''x'' @ [quot]]" and e = False, OF q]
  have "\<exists>sql. enrich_sql ascii_alnum [''eng'', ''ml-ops''] False = Inr sql" using fine by (simp add: team_char_def ascii_alnum_def)
  then show ?thesis using fine bad by (auto simp: team_char_def ascii_alnum_def)
qed

text \<open>The weighted score of row \<open>i\<close>.\<close>

definition combined_at :: "f32 \<Rightarrow> fused_row list \<Rightarrow> f32 list \<Rightarrow> nat \<Rightarrow> f64" where
  "combined_at alpha rs ss i = combined alpha (ss ! i) (fst (snd (rs ! i)))"

lemma rerank_biencoder_best:
  assumes rs: "en_collect en fused = Some bs" "traverse fused_rows bs = Inr parts" "rs = concat parts"
    and ss: "client q (map (snd \<circ> snd) rs) = Inr ss" "length ss = length rs" "\<forall>i < length rs. \<not> f64_is_nan (combined_at alpha rs ss i)"
  shows "\<exists>js. best_of (length rs) (\<lambda>i. f64_key (combined_at alpha rs ss i)) top_p js \<and>
    rerank_biencoder en fused q client alpha top_p = Some (Inr (map (\<lambda>i. bi_candidate alpha (rs ! i, ss ! i)) js))"
proof -
  let ?xs = "map (bi_candidate alpha) (zip rs ss)"
  have texts: "(\<lambda>(y, fs, t). t) = snd \<circ> snd" by auto
  have elem: "?xs ! i = bi_candidate alpha (rs ! i, ss ! i)" "br_combined_score (?xs ! i) = combined_at alpha rs ss i" if "i < length rs" for i
    using that ss(2) by (auto simp: bi_candidate_def combined_at_def split: prod.split)
  have len: "length rs = length ?xs" using ss(2) by simp
  have keys: "\<forall>i < length rs. f64_key (combined_at alpha rs ss i) = (f64_key \<circ> br_combined_score) (?xs ! i)"
    using elem(2) by simp
  have numbers: "\<forall>x \<in> set ?xs. \<not> (f64_is_nan \<circ> br_combined_score) x"
    using elem(2) ss(2,3) by (metis (no_types, lifting) comp_apply in_set_conv_nth length_map length_zip min.idem)
  then obtain js where js: "best_of (length rs) (\<lambda>i. f64_key (combined_at alpha rs ss i)) top_p js"
      "map_option (\<lambda>ys. Inr (take top_p ys)) (sort_desc (f64_key \<circ> br_combined_score) (f64_is_nan \<circ> br_combined_score) ?xs) =
        Some (Inr (map ((!) ?xs) js) :: query_error + bi_ranked list)"
    using sort_desc_best [where xs = ?xs and n = "length rs" and key = "\<lambda>i. f64_key (combined_at alpha rs ss i)" and m = top_p
        and f = "f64_key \<circ> br_combined_score", OF numbers len keys] by blast
  have "map ((!) ?xs) js = map (\<lambda>i. bi_candidate alpha (rs ! i, ss ! i)) js"
    using elem(1) js(1) by (intro map_cong refl) (auto simp: best_of_def)
  moreover have "rs = [] \<Longrightarrow> js = []" using js(1) by (auto simp: best_of_def)
  ultimately show ?thesis using js rs ss(1,2) by (auto simp: rerank_biencoder_def texts)
qed

lemma rerank_crossencoder_best:
  assumes "client q (map br_chunk_text cands) = Inr cs" "length cs = length cands" "\<forall>c \<in> set cs. \<not> f32_is_nan c"
  shows "\<exists>ks. best_of (length cands) (\<lambda>k. f32_key (cs ! k)) top_k ks \<and>
    rerank_crossencoder cands q client top_k = Some (Inr (map (\<lambda>k. cross_result (cands ! k, cs ! k)) ks))"
proof -
  let ?xs = "map cross_result (zip cands cs)"
  have elem: "?xs ! k = cross_result (cands ! k, cs ! k)" "cr_cross_score (?xs ! k) = cs ! k" if "k < length cands" for k
    using that assms(2) by (auto simp: cross_result_def)
  have len: "length cands = length ?xs" using assms(2) by simp
  have keys: "\<forall>k < length cands. f32_key (cs ! k) = (f32_key \<circ> cr_cross_score) (?xs ! k)"
    using elem(2) by simp
  have numbers: "\<forall>x \<in> set ?xs. \<not> (f32_is_nan \<circ> cr_cross_score) x" using assms(3) by (auto simp: cross_result_def dest: set_zip_rightD)
  then obtain ks where ks: "best_of (length cands) (\<lambda>k. f32_key (cs ! k)) top_k ks"
      "map_option (\<lambda>ys. Inr (take top_k ys)) (sort_desc (f32_key \<circ> cr_cross_score) (f32_is_nan \<circ> cr_cross_score) ?xs) =
        Some (Inr (map ((!) ?xs) ks) :: query_error + cross_ranked list)"
    using sort_desc_best [where xs = ?xs and n = "length cands" and key = "\<lambda>k. f32_key (cs ! k)" and m = top_k
        and f = "f32_key \<circ> cr_cross_score", OF numbers len keys] by blast
  have "map ((!) ?xs) ks = map (\<lambda>k. cross_result (cands ! k, cs ! k)) ks"
    using elem(1) ks(1) by (intro map_cong refl) (auto simp: best_of_def)
  moreover have "cands = [] \<Longrightarrow> ks = []" using ks(1) by (auto simp: best_of_def)
  ultimately show ?thesis using ks assms(1,2) by (auto simp: rerank_crossencoder_def)
qed

text \<open>C38. With both models in place the pipeline answers, and with the best candidates in order: of the rows that the score fusion
  returns it keeps the \<open>top_p\<close> with the largest weighted score, shows them to the second model, and returns the
  \<open>top_k\<close> with the largest score of that model, each with the scores and the text that belong to its id. The \<open>top_k\<close> is
  that of the configuration, whatever the request asks for. The models answer with one number for each text.\<close>

theorem execute_best:
  assumes stages: "pq_candidates req \<noteq> []" "fused_frame en alnum p req = Inr fused" "en_collect en fused = Some bs"
      "traverse fused_rows bs = Inr parts" "rs = concat parts"
    and models: "pl_bi_encoder p = Some (bi, bcfg)" "pl_cross_encoder p = Some (cross, ccfg)"
    and ss: "bi (pq_query_text req) (map (snd \<circ> snd) rs) = Inr ss" "length ss = length rs" "\<forall>i < length rs. \<not> f64_is_nan (combined_at (bi_alpha bcfg) rs ss i)"
    and cs: "\<And>ts. \<exists>cs. cross (pq_query_text req) ts = Inr cs \<and> length cs = length ts \<and> (\<forall>c \<in> set cs. \<not> f32_is_nan c)"
  shows "\<exists>js cs ks. best_of (length rs) (\<lambda>i. f64_key (combined_at (bi_alpha bcfg) rs ss i)) (bi_top_p bcfg) js \<and>
    cross (pq_query_text req) (map (\<lambda>j. snd (snd (rs ! j))) js) = Inr cs \<and>
    best_of (length js) (\<lambda>k. f32_key (cs ! k)) (ce_top_k ccfg) ks \<and>
    execute en alnum p req = Some (Inr (map (\<lambda>k. \<lparr>pr_id = fst (rs ! (js ! k)), pr_fusion_score = fst (snd (rs ! (js ! k))),
      pr_bi_score = Some (ss ! (js ! k)), pr_cross_score = Some (cs ! k), pr_chunk_text = Some (snd (snd (rs ! (js ! k))))\<rparr>) ks))"
proof -
  obtain js where js: "best_of (length rs) (\<lambda>i. f64_key (combined_at (bi_alpha bcfg) rs ss i)) (bi_top_p bcfg) js"
      "rerank_biencoder en fused (pq_query_text req) bi (bi_alpha bcfg) (bi_top_p bcfg) =
        Some (Inr (map (\<lambda>i. bi_candidate (bi_alpha bcfg) (rs ! i, ss ! i)) js))"
    using rerank_biencoder_best [where alpha = "bi_alpha bcfg" and top_p = "bi_top_p bcfg" and rs = rs and client = bi and q = "pq_query_text req", OF stages(3-5) ss] by blast
  let ?cands = "map (\<lambda>i. bi_candidate (bi_alpha bcfg) (rs ! i, ss ! i)) js"
  have fields: "br_chunk_text (bi_candidate a (r, s)) = snd (snd r)" "br_id (bi_candidate a (r, s)) = fst r"
      "br_fusion_score (bi_candidate a (r, s)) = fst (snd r)" "br_bi_score (bi_candidate a (r, s)) = s" for a r s
    by (simp_all add: bi_candidate_def split: prod.split)
  obtain cs where scores: "cross (pq_query_text req) (map br_chunk_text ?cands) = Inr cs" "length cs = length ?cands" "\<forall>c \<in> set cs. \<not> f32_is_nan c"
    using cs [of "map br_chunk_text ?cands"] by auto
  obtain ks where ks: "best_of (length ?cands) (\<lambda>k. f32_key (cs ! k)) (ce_top_k ccfg) ks"
      "rerank_crossencoder ?cands (pq_query_text req) cross (ce_top_k ccfg) = Some (Inr (map (\<lambda>k. cross_result (?cands ! k, cs ! k)) ks))"
    using rerank_crossencoder_best [where cands = ?cands and client = cross and q = "pq_query_text req", OF scores] by blast
  have "map of_cross (map (\<lambda>k. cross_result (?cands ! k, cs ! k)) ks) =
      map (\<lambda>k. \<lparr>pr_id = fst (rs ! (js ! k)), pr_fusion_score = fst (snd (rs ! (js ! k))), pr_bi_score = Some (ss ! (js ! k)),
        pr_cross_score = Some (cs ! k), pr_chunk_text = Some (snd (snd (rs ! (js ! k))))\<rparr>) ks"
    using ks(1) by (auto simp: best_of_def of_cross_def cross_result_def fields)
  then have "execute en alnum p req = Some (Inr (map (\<lambda>k. \<lparr>pr_id = fst (rs ! (js ! k)), pr_fusion_score = fst (snd (rs ! (js ! k))),
      pr_bi_score = Some (ss ! (js ! k)), pr_cross_score = Some (cs ! k), pr_chunk_text = Some (snd (snd (rs ! (js ! k))))\<rparr>) ks))"
    using stages(1,2) models js(2) ks(2) by (simp add: execute_def)
  moreover have "cross (pq_query_text req) (map (\<lambda>j. snd (snd (rs ! j))) js) = Inr cs" using scores(1) by (simp add: fields comp_def)
  ultimately show ?thesis using js(1) ks(1) by (intro exI [of _ js] exI [of _ cs] exI [of _ ks]) simp
qed

text \<open>Two rows come back from the engine; the request asks for both, the configuration allows one.\<close>

definition engine_example :: "(unit, record_batch) sql_engine" where
  "engine_example = \<lparr>en_clone = id, en_batch = (\<lambda>cols. Some \<lparr>b_columns = cols, b_num_rows = 0\<rparr>), en_mem_table = Some, en_into_view = id,
     en_register = (\<lambda>s name t. Some s),
     en_sql = (\<lambda>s sql. Some \<lparr>b_columns = [(''id'', StringArray [(True, ''1''), (True, ''2'')]), (''fusion_score'', Float64Array [(True, 0), (True, 0)]),
       (''chunk_text'', StringArray [(True, ''a''), (True, ''b'')])], b_num_rows = 2\<rparr>),
     en_collect = (\<lambda>d. Some [d]), en_f32_text = (\<lambda>_. []), en_f64_text = (\<lambda>_. [])\<rparr>"

definition zero_model :: model_client where
  "zero_model q ts = Inr (map (\<lambda>_. 0) ts)"

definition pipeline_example :: "unit pipeline" where
  "pipeline_example = \<lparr>pl_session = (), pl_weights = \<lparr>vector_score = f32_one, recency_score = 0\<rparr>,
     pl_recency = \<lparr>grace_period_days = 0, decay_lambda = f64_one\<rparr>, pl_top_m = 5,
     pl_bi_encoder = Some (zero_model, \<lparr>bi_endpoint = [], bi_alpha = 0x3F000000, bi_top_p = 2\<rparr>),
     pl_cross_encoder = Some (zero_model, \<lparr>ce_endpoint = [], ce_top_k = 1\<rparr>)\<rparr>"

definition request_example :: pipeline_request where
  "request_example = \<lparr>pq_candidates = [\<lparr>cd_id = 1, cd_ann_distance = 0, cd_ann_rank = 1\<rparr>, \<lparr>cd_id = 2, cd_ann_distance = 0, cd_ann_rank = 2\<rparr>],
     pq_query_text = [], pq_allowed_teams = [], pq_top_k = 2\<rparr>"

lemma combined_zero: "combined 0x3F000000 0 0 = 0"
proof -
  have dec: "f32_dec 0x3F000000 = Num False 8388608 (-24)" "f32_dec 0 = Num False 0 (-149)" "f64_dec 0 = Num False 0 (-1074)"
      "f64_dec 0x3FE0000000000000 = Num False 4503599627370496 (-53)" "f64_dec f64_one = Num False 4503599627370496 (-52)"
    by (simp_all add: float_eval f64_one_def)
  have half: "f64_of_f32 0x3F000000 = 0x3FE0000000000000"
    by (simp add: f64_of_f32_def f64_enc_def dec float_eval)
  have zero: "f64_of_f32 0 = 0" "f64_mul 0x3FE0000000000000 0 = 0" "f64_add 0 0 = 0"
    by (simp_all add: f64_of_f32_def f64_mul_def f64_add_def f64_enc_def dec fl_round_def sgnd_def)
  have "fl_add (Num False 4503599627370496 (-52)) (fl_neg (Num False 4503599627370496 (-53))) = Num False 4503599627370496 (-53)"
    by (simp add: sgnd_def)
  moreover have "bitlen 4503599627370496 = 53" by (simp add: bitlen.simps)
  then have "f64_enc (Num False 4503599627370496 (-53)) = 0x3FE0000000000000" by (simp add: f64_enc_def fl_round_def fl_emin_def Let_def)
  ultimately have "f64_sub f64_one 0x3FE0000000000000 = 0x3FE0000000000000" by (simp only: f64_sub_def dec)
  then show ?thesis by (simp add: combined_def half zero)
qed

definition fused_example :: record_batch where
  "fused_example = \<lparr>b_columns = [(''id'', StringArray [(True, ''1''), (True, ''2'')]), (''fusion_score'', Float64Array [(True, 0), (True, 0)]),
     (''chunk_text'', StringArray [(True, ''a''), (True, ''b'')])], b_num_rows = 2\<rparr>"

lemma example_parts:
  "pq_candidates request_example \<noteq> []" "pq_query_text request_example = []"
  "fused_frame engine_example alnum pipeline_example request_example = Inr fused_example"
  "en_collect engine_example fused_example = Some [fused_example]"
  "traverse fused_rows [fused_example] = Inr [[(''1'', 0, ''a''), (''2'', 0, ''b'')]]"
  "pl_bi_encoder pipeline_example = Some (zero_model, \<lparr>bi_endpoint = [], bi_alpha = 0x3F000000, bi_top_p = 2\<rparr>)"
  "pl_cross_encoder pipeline_example = Some (zero_model, \<lparr>ce_endpoint = [], ce_top_k = 1\<rparr>)"
  by (simp_all add: request_example_def pipeline_example_def fused_frame_def candidates_to_batch_def register_candidates_in_def child_context_def
    enrich_def fuse_scores_def engine_example_def enrich_sql_def acl_predicate_def Let_def fused_rows_def named_column_def column_at_def
    fused_example_def numeral_2_eq_2)

lemma example_scores: "\<forall>i < length rs. \<not> f64_is_nan (combined_at 0x3F000000 rs [0, 0] i)"
  if "rs = [(''1'', 0, ''a''), (''2'', 0, ''b'')]" for rs
  using that by (auto simp: combined_at_def less_Suc_eq combined_zero f64_is_nan_def)

theorem execute_best_witness:
  "\<exists>r. execute engine_example (\<lambda>_. False) pipeline_example request_example = Some (Inr [r]) \<and> pr_cross_score r = Some 0"
proof -
  define rs :: "fused_row list" where "rs = [(''1'', 0, ''a''), (''2'', 0, ''b'')]"
  have rs: "rs = concat [[(''1'', 0, ''a''), (''2'', 0, ''b'')]]" by (simp add: rs_def)
  have bi: "zero_model (pq_query_text request_example) (map (snd \<circ> snd) rs) = Inr [0, 0]" "length [0, 0 :: f32] = length rs"
      "\<forall>i < length rs. \<not> f64_is_nan (combined_at (bi_alpha \<lparr>bi_endpoint = [], bi_alpha = 0x3F000000, bi_top_p = 2\<rparr>) rs [0, 0] i)"
    using example_scores [OF rs_def] by (simp_all add: zero_model_def rs_def)
  have cross: "\<exists>cs. zero_model (pq_query_text request_example) ts = Inr cs \<and> length cs = length ts \<and> (\<forall>c \<in> set cs. \<not> f32_is_nan c)" for ts
    by (simp add: zero_model_def f32_is_nan_def)
  obtain js cs ks where run: "best_of (length rs) (\<lambda>i. f64_key (combined_at 0x3F000000 rs [0, 0] i)) 2 js"
      "zero_model [] (map (\<lambda>j. snd (snd (rs ! j))) js) = Inr cs" "best_of (length js) (\<lambda>k. f32_key (cs ! k)) 1 ks"
      "execute engine_example (\<lambda>_. False) pipeline_example request_example = Some (Inr (map (\<lambda>k.
        \<lparr>pr_id = fst (rs ! (js ! k)), pr_fusion_score = fst (snd (rs ! (js ! k))), pr_bi_score = Some ([0, 0] ! (js ! k)),
         pr_cross_score = Some (cs ! k), pr_chunk_text = Some (snd (snd (rs ! (js ! k))))\<rparr>) ks))"
    using execute_best [where alnum = "\<lambda>_. False" and bi = zero_model and cross = zero_model, OF example_parts(1,3,4,5) rs example_parts(6,7) bi cross]
    unfolding example_parts(2) bi_encoder_config.simps cross_encoder_config.simps by blast
  then have "length js = 2" "length ks = 1" by (auto simp: best_of_def rs_def)
  then obtain k where "ks = [k]" "k < 2" using run(3) by (auto simp: length_Suc_conv best_of_def)
  moreover have "cs = map (\<lambda>_. 0) js" using run(2) by (auto simp: zero_model_def)
  ultimately show ?thesis using run(4) \<open>length js = 2\<close> by simp
qed

end
