(* ===== verification/ObjectStore.thy ===== *)
theory ObjectStore
  imports Parquet
begin

text \<open>
  The other two ways of collections to and from the lakehouse: Parquet files in an object store (\<open>minio.rs\<close>) and the scan
  of an Iceberg table (\<open>iceberg_io.rs\<close>). Both have their own copy of the code of \<open>parquet_io.rs\<close>; the lemmas say that
  the copies do the same. The settings of the clients, which the libraries interpret, are association lists.
\<close>

section \<open>Connections\<close>

record minio_config =
  mn_endpoint :: string
  mn_bucket :: string
  mn_access_key :: string
  mn_secret_key :: string
  mn_region :: string

text \<open>The calls of the builder, in their order; \<open>build\<close> is the library's check of the settings.\<close>

definition minio_settings :: "minio_config \<Rightarrow> (string \<times> string) list" where
  "minio_settings cfg = [(''endpoint'', mn_endpoint cfg), (''bucket_name'', mn_bucket cfg), (''access_key_id'', mn_access_key cfg),
     (''secret_access_key'', mn_secret_key cfg), (''region'', mn_region cfg), (''allow_http'', ''true''),
     (''virtual_hosted_style_request'', ''false'')]"

definition build_minio_store :: "((string \<times> string) list \<Rightarrow> 's option) \<Rightarrow> minio_config \<Rightarrow> lakehouse_error + 's" where
  "build_minio_store build cfg = ok_or LkObjectStore (build (minio_settings cfg))"

record iceberg_config =
  ic_catalog_uri :: string
  ic_s3_endpoint :: string
  ic_access_key :: string
  ic_secret_key :: string
  ic_region :: string
  ic_warehouse :: string
  ic_extra_properties :: "(string \<times> string) list"

text \<open>The names of the URI and the warehouse property are constants of the catalog library. Later properties win.\<close>

definition catalog_properties :: "string \<Rightarrow> string \<Rightarrow> iceberg_config \<Rightarrow> (string \<rightharpoonup> string)" where
  "catalog_properties uri_prop warehouse_prop cfg =
     map_of (rev [(''s3.endpoint'', ic_s3_endpoint cfg), (''s3.access-key-id'', ic_access_key cfg),
       (''s3.secret-access-key'', ic_secret_key cfg), (''s3.region'', ic_region cfg), (''s3.path-style-access'', ''true''),
       (uri_prop, ic_catalog_uri cfg), (warehouse_prop, ic_warehouse cfg)]) ++ map_of (ic_extra_properties cfg)"

definition build_rest_catalog ::
  "string \<Rightarrow> string \<Rightarrow> (string \<Rightarrow> (string \<rightharpoonup> string) \<Rightarrow> 'c option) \<Rightarrow> iceberg_config \<Rightarrow> lakehouse_error + 'c"
where
  "build_rest_catalog uri_prop warehouse_prop load cfg =
     ok_or LkIceberg (load ''likhadb'' (catalog_properties uri_prop warehouse_prop cfg))"

section \<open>The object store\<close>

text \<open>The objects under their paths; \<open>put_ok\<close> and \<open>get_ok\<close> are the outcomes of the requests.\<close>

type_synonym 'f object_store = "string \<rightharpoonup> 'f"

definition collection_to_parquet_bytes ::
  "rt \<Rightarrow> 'n serde \<Rightarrow> 'f parquet_lib \<Rightarrow> ('n, 't) manager \<Rightarrow> string \<Rightarrow> lakehouse_error + 'f"
where
  "collection_to_parquet_bytes rt sd pq mgr name = (case mgr_get mgr name of
       Inl _ \<Rightarrow> Inl (LkCollectionNotFound name)
     | Inr c \<Rightarrow> and_next (traverse (\<lambda>ids. export_batch pq (c_dim c) (export_rows sd c ids)) (chunks ROW_GROUP_SIZE (col_list_ids rt c)))
         (\<lambda>bs. ok_or LkParquet (pq_write pq (c_dim c) bs)))"

definition export_parquet_to_store ::
  "rt \<Rightarrow> 'n serde \<Rightarrow> 'f parquet_lib \<Rightarrow> bool \<Rightarrow> ('n, 't) manager \<Rightarrow> string \<Rightarrow> 'f object_store \<Rightarrow> string \<Rightarrow>
     (lakehouse_error + unit) \<times> 'f object_store"
where
  "export_parquet_to_store rt sd pq put_ok mgr name store path = (case collection_to_parquet_bytes rt sd pq mgr name of
       Inl e \<Rightarrow> (Inl e, store)
     | Inr bs \<Rightarrow> if put_ok then (Inr (), store(path \<mapsto> bs)) else (Inl LkObjectStore, store))"

definition parquet_bytes_into_collection ::
  "rt \<Rightarrow> 't tantivy \<Rightarrow> (nat \<Rightarrow> nat \<Rightarrow> nat) \<Rightarrow> 'n serde \<Rightarrow> 'n arrow_lib \<Rightarrow> 'f parquet_lib \<Rightarrow> ('n, 't) manager \<Rightarrow> string \<Rightarrow>
     'f \<Rightarrow> string \<Rightarrow> string \<Rightarrow> string list \<Rightarrow> (lakehouse_error + nat) \<times> ('n, 't) manager"
where
  "parquet_bytes_into_collection rt tv ls sd ar pq mgr name bytes id_col vector_col payload_cols =
     (case mgr_get mgr name of
        Inl _ \<Rightarrow> (Inl (LkCollectionNotFound name), mgr)
      | Inr c \<Rightarrow> (case pq_open pq bytes of
          None \<Rightarrow> (Inl LkParquet, mgr)
        | Some (schema, bs) \<Rightarrow> (case check_schema schema (c_dim c) id_col vector_col of
            Inl e \<Rightarrow> (Inl e, mgr)
          | Inr _ \<Rightarrow> import_batches rt tv ls name
              (\<lambda>b. import_rows sd ar (c_dim c) b id_col vector_col payload_cols) 0 bs mgr)))"

text \<open>The object is fetched before the collection is looked up.\<close>

definition import_parquet_from_store ::
  "rt \<Rightarrow> 't tantivy \<Rightarrow> (nat \<Rightarrow> nat \<Rightarrow> nat) \<Rightarrow> 'n serde \<Rightarrow> 'n arrow_lib \<Rightarrow> 'f parquet_lib \<Rightarrow> bool \<Rightarrow> ('n, 't) manager \<Rightarrow> string \<Rightarrow>
     'f object_store \<Rightarrow> string \<Rightarrow> string \<Rightarrow> string \<Rightarrow> string list \<Rightarrow> (lakehouse_error + nat) \<times> ('n, 't) manager"
where
  "import_parquet_from_store rt tv ls sd ar pq get_ok mgr name store path id_col vector_col payload_cols =
     (case (if get_ok then store path else None) of
        None \<Rightarrow> (Inl LkObjectStore, mgr)
      | Some bytes \<Rightarrow> parquet_bytes_into_collection rt tv ls sd ar pq mgr name bytes id_col vector_col payload_cols)"

section \<open>Iceberg tables\<close>

text \<open>The types of the columns of a batch, as far as the checks look at them.\<close>

definition column_type_of :: "column \<Rightarrow> column_type" where
  "column_type_of c = (case c of FloatLists (FixedSizeList d) xs \<Rightarrow> FixedFloat32 d | _ \<Rightarrow> OtherType)"

definition schema_of :: "record_batch \<Rightarrow> (string \<times> column_type) list" where
  "schema_of b = map (map_prod id column_type_of) (b_columns b)"

text \<open>\<open>table\<close>: \<open>None\<close> when the table cannot be loaded or scanned, otherwise what its stream yields. Only the first batch is checked.\<close>

definition import_iceberg ::
  "rt \<Rightarrow> 't tantivy \<Rightarrow> (nat \<Rightarrow> nat \<Rightarrow> nat) \<Rightarrow> 'n serde \<Rightarrow> 'n arrow_lib \<Rightarrow> ('n, 't) manager \<Rightarrow> string \<Rightarrow>
     (lakehouse_error + record_batch) list option \<Rightarrow> string \<Rightarrow> string \<Rightarrow> string list \<Rightarrow> (lakehouse_error + nat) \<times> ('n, 't) manager"
where
  "import_iceberg rt tv ls sd ar mgr name table id_col vector_col payload_cols =
     (case mgr_get mgr name of
        Inl _ \<Rightarrow> (Inl (LkCollectionNotFound name), mgr)
      | Inr c \<Rightarrow> (case table of
          None \<Rightarrow> (Inl LkIceberg, mgr)
        | Some bs \<Rightarrow>
            (case (case bs of Inr b # _ \<Rightarrow> check_schema (schema_of b) (c_dim c) id_col vector_col | _ \<Rightarrow> Inr ()) of
               Inl e \<Rightarrow> (Inl e, mgr)
             | Inr _ \<Rightarrow> import_batches rt tv ls name
                 (\<lambda>b. import_rows sd ar (c_dim c) b id_col vector_col payload_cols) 0 bs mgr)))"

section \<open>The copies agree\<close>

lemma store_export_as_file:
  "pq_create pq \<Longrightarrow> export_parquet_to_store rt sd pq True mgr name store path =
     (case export_parquet rt sd pq mgr name of Inl e \<Rightarrow> (Inl e, store) | Inr f \<Rightarrow> (Inr (), store(path \<mapsto> f)))"
  by (simp add: export_parquet_to_store_def collection_to_parquet_bytes_def export_parquet_def export_collection_def split: sum.split)

lemma store_import_as_file:
  "store path = Some f \<Longrightarrow> import_parquet_from_store rt tv ls sd ar pq True mgr name store path id_col vector_col payload_cols =
     import_parquet rt tv ls sd ar pq mgr name (Some f) id_col vector_col payload_cols"
  by (simp add: import_parquet_from_store_def parquet_bytes_into_collection_def import_parquet_def split: sum.split)

text \<open>A table whose scan yields the batches of a file is imported like the file, when the file's schema is that of its batches.\<close>

lemma iceberg_import_as_file:
  assumes "pq_open pq f = Some (schema, Inr b # bs)" "schema = schema_of b"
  shows "import_iceberg rt tv ls sd ar mgr name (Some (Inr b # bs)) id_col vector_col payload_cols =
     import_parquet rt tv ls sd ar pq mgr name (Some f) id_col vector_col payload_cols"
  using assms by (simp add: import_iceberg_def import_parquet_def split: sum.split)

text \<open>A table that is empty is imported whatever its columns are.\<close>

lemma import_empty_table:
  "hm_get mgr name \<noteq> None \<Longrightarrow> import_iceberg rt tv ls sd ar mgr name (Some []) id_col vector_col payload_cols = (Inr 0, mgr)"
  by (auto simp: import_iceberg_def mgr_get_def)

end
