(* ===== verification/Session.thy ===== *)
theory Session
  imports QueryProps ObjectStore
begin

text \<open>
  The query pipeline set up: the session with its enrichment tables (\<open>session.rs\<close>), the HTTP clients of the models
  (\<open>rerank.rs\<close>), and the pipeline that the server builds from its environment (\<open>pipeline_setup.rs\<close>). Contexts, tables and
  schemas are those of the SQL engine and the catalog; their operations are records of functions.
\<close>

section \<open>The session\<close>

text \<open>
  \<open>'s\<close> a context, \<open>'d\<close> a table, \<open>'h\<close> an Arrow schema. \<open>sn_join\<close> and \<open>sn_exists\<close> are those of paths.
\<close>

record ('s, 'd, 'h) session_lib =
  sn_new_with_config :: "nat \<Rightarrow> nat \<Rightarrow> 's"
  sn_join :: "string \<Rightarrow> string \<Rightarrow> string"
  sn_exists :: "string \<Rightarrow> bool"
  sn_register_parquet :: "'s \<Rightarrow> string \<Rightarrow> string \<Rightarrow> 's option"
  sn_register_table :: "'s \<Rightarrow> string \<Rightarrow> 'd \<Rightarrow> 's option"
  sn_mem_table :: "'h \<Rightarrow> record_batch list list \<Rightarrow> 'd option"
  sn_batch_schema :: "record_batch \<Rightarrow> 'h"
  sn_sql :: "'s \<Rightarrow> string \<Rightarrow> 'd option"

text \<open>An Iceberg catalog: tables of a namespace, the rows of a table's scan, its schema as an Arrow schema.\<close>

record ('i, 'h) table_catalog =
  tc_list_tables :: "string \<Rightarrow> 'i list option"
  tc_scan :: "'i \<Rightarrow> record_batch list option"
  tc_arrow_schema :: "'i \<Rightarrow> 'h option"
  tc_name :: "'i \<Rightarrow> string"

definition base_context :: "('s, 'd, 'h) session_lib \<Rightarrow> query_config \<Rightarrow> 's" where
  "base_context sn config = sn_new_with_config sn (rc_batch_size (qc_runtime config)) (rc_target_partitions (qc_runtime config))"

text \<open>A file that is missing is passed over.\<close>

definition register_parquet_dir :: "('s, 'd, 'h) session_lib \<Rightarrow> string \<Rightarrow> 's \<Rightarrow> query_error + 's" where
  "register_parquet_dir sn dir ctx = fold_result (\<lambda>ctx name.
     let path = sn_join sn dir (name @ ''.parquet'')
     in if sn_exists sn path then ok_or QDataFusion (sn_register_parquet sn ctx name path) else Inr ctx)
     ctx [''embeddings'', ''documents'', ''authors'']"

definition session_try_new :: "('s, 'd, 'h) session_lib \<Rightarrow> query_config \<Rightarrow> query_error + 's" where
  "session_try_new sn config = register_parquet_dir sn (qc_parquet_dir config) (base_context sn config)"

definition register_iceberg_table ::
  "('s, 'd, 'h) session_lib \<Rightarrow> ('i, 'h) table_catalog \<Rightarrow> 's \<Rightarrow> 'i \<Rightarrow> query_error + 's"
where
  "register_iceberg_table sn tc ctx ident =
     and_next (ok_or QIceberg (tc_scan tc ident)) (\<lambda>batches.
     and_next (if batches = [] then map_sum id (\<lambda>schema. (schema, [])) (ok_or QIceberg (tc_arrow_schema tc ident))
               else Inr (sn_batch_schema sn (hd batches), [batches])) (\<lambda>(schema, partitions).
     and_next (ok_or QDataFusion (sn_mem_table sn schema partitions)) (\<lambda>table.
       ok_or QDataFusion (sn_register_table sn ctx (tc_name tc ident) table))))"

definition session_try_new_with_iceberg ::
  "('s, 'd, 'h) session_lib \<Rightarrow> query_config \<Rightarrow> ('i, 'h) table_catalog \<Rightarrow> string list \<Rightarrow> query_error + 's"
where
  "session_try_new_with_iceberg sn config tc namespaces = fold_result (\<lambda>ctx ns.
     and_next (ok_or QIceberg (tc_list_tables tc ns)) (fold_result (register_iceberg_table sn tc) ctx))
     (base_context sn config) namespaces"

definition session_sql :: "('s, 'd, 'h) session_lib \<Rightarrow> 's \<Rightarrow> string \<Rightarrow> query_error + 'd" where
  "session_sql sn ctx query = ok_or QDataFusion (sn_sql sn ctx query)"

section \<open>The model services\<close>

record score_request =
  sq_query :: string
  sq_texts :: "string list"

text \<open>\<open>post\<close> sends the body as JSON to the endpoint; \<open>decode\<close> reads the answer as a list of numbers.\<close>

definition http_bi_encoder_score ::
  "(string \<Rightarrow> score_request \<Rightarrow> 'r option) \<Rightarrow> ('r \<Rightarrow> f32 list option) \<Rightarrow> string \<Rightarrow> model_client"
where
  "http_bi_encoder_score post decode endpoint query texts =
     and_next (ok_or QHttp (post endpoint \<lparr>sq_query = query, sq_texts = texts\<rparr>)) (\<lambda>resp. ok_or QHttp (decode resp))"

definition http_cross_encoder_score ::
  "(string \<Rightarrow> score_request \<Rightarrow> 'r option) \<Rightarrow> ('r \<Rightarrow> f32 list option) \<Rightarrow> string \<Rightarrow> model_client"
where
  "http_cross_encoder_score post decode endpoint query passages =
     and_next (ok_or QHttp (post endpoint \<lparr>sq_query = query, sq_texts = passages\<rparr>)) (\<lambda>resp. ok_or QHttp (decode resp))"

section \<open>The pipeline of the server\<close>

text \<open>\<open>connect\<close> is \<open>build_rest_catalog\<close> on the settings of the server. Every failure only switches the enrichment off.\<close>

definition try_build_pipeline_from_env ::
  "('s, 'd, 'h) session_lib \<Rightarrow> float_parser \<Rightarrow> nat option \<Rightarrow> (string \<Rightarrow> string option) \<Rightarrow>
     (iceberg_config \<Rightarrow> lakehouse_error + ('i, 'h) table_catalog) \<Rightarrow> iceberg_config \<Rightarrow> 's pipeline option"
where
  "try_build_pipeline_from_env sn fp cpus vars connect config = (case vars ''LIKHADB_ENRICH_NAMESPACE'' of
       None \<Rightarrow> None
     | Some enrich_ns \<Rightarrow>
         if enrich_ns = [] then None
         else case build_query_config_from_env fp cpus vars of
             None \<Rightarrow> None
           | Some query_config \<Rightarrow> (case connect config of
               Inl _ \<Rightarrow> None
             | Inr catalog \<Rightarrow> (case session_try_new_with_iceberg sn query_config catalog [enrich_ns] of
                 Inl _ \<Rightarrow> None
               | Inr session \<Rightarrow> Some (pipeline_new query_config session None None))))"

section \<open>What the server's pipeline is\<close>

text \<open>It has no rerankers, whatever the environment says, so no request makes it panic.\<close>

lemma zip_option_None [simp]: "zip_option x None = None"
  by (cases x) (simp_all add: zip_option_def)

lemma server_pipeline:
  assumes "try_build_pipeline_from_env sn fp cpus vars connect config = Some p"
  shows "pl_bi_encoder p = None \<and> pl_cross_encoder p = None \<and> weights_ok (pl_weights p) \<and> 0 < pl_top_m p"
proof -
  obtain qc where "build_query_config_from_env fp cpus vars = Some qc" "pl_weights p = qc_weights qc" "pl_top_m p = qc_top_m qc"
      "pl_bi_encoder p = None" "pl_cross_encoder p = None"
    using assms by (auto simp: try_build_pipeline_from_env_def pipeline_new_def split: option.splits if_splits sum.splits)
  then show ?thesis using build_query_config_ok [of fp cpus vars qc] by (simp add: config_ok_def)
qed

lemma execute_without_models: "pl_bi_encoder p = None \<Longrightarrow> execute en alnum p req \<noteq> None"
  by (simp add: execute_def split: sum.split)

end
