(* ===== verification/Flusher.thy ===== *)
theory Flusher
  imports Staging Upkeep
begin

text \<open>
  \<open>IcebergFlusher\<close> of \<open>iceberg_flusher.rs\<close>: one tick takes the entries that wait in memory, groups the rows by
  collection, appends them to the staging tables and moves the watermark of the log manager. The tables are
  written without the lock on the manager; what other tasks do to it meanwhile is an argument.
\<close>

section \<open>Grouping\<close>

record 'n flush_acc =
  fa_batches :: "(string \<times> 'n staging_row list \<times> u64) list"
  fa_max_lsn :: u64
  fa_has_ddl :: bool

definition push_row :: "string \<Rightarrow> 'n staging_row \<Rightarrow> u64 \<Rightarrow> 'n flush_acc \<Rightarrow> 'n flush_acc" where
  "push_row collection r lsn acc =
     (let (rs, batch_max) = (case hm_get (fa_batches acc) collection of Some b \<Rightarrow> b | None \<Rightarrow> ([], 0))
      in acc\<lparr>fa_batches := hm_insert collection (rs @ [r], max batch_max lsn) (fa_batches acc)\<rparr>)"

definition flush_entry :: "'n flush_acc \<Rightarrow> 'n wal_entry \<Rightarrow> 'n flush_acc" where
  "flush_entry acc e =
     (let acc1 = acc\<lparr>fa_max_lsn := max (fa_max_lsn acc) (e_lsn e)\<rparr>
      in case e_op e of
           WInsert collection y v p \<Rightarrow> push_row collection \<lparr>sr_id = y, sr_vector = v, sr_payload = p, sr_lsn = e_lsn e,
             sr_is_tombstone = False\<rparr> (e_lsn e) acc1
         | WDelete collection y \<Rightarrow> push_row collection \<lparr>sr_id = y, sr_vector = [], sr_payload = None, sr_lsn = e_lsn e,
             sr_is_tombstone = True\<rparr> (e_lsn e) acc1
         | _ \<Rightarrow> acc1\<lparr>fa_has_ddl := True\<rparr>)"

definition group_entries :: "u64 \<Rightarrow> 'n wal_entry list \<Rightarrow> 'n flush_acc" where
  "group_entries watermark es = foldl flush_entry \<lparr>fa_batches = [], fa_max_lsn = watermark, fa_has_ddl = False\<rparr> es"

section \<open>A tick\<close>

text \<open>What happens to the staging table of a collection: the append works, the table cannot be opened, or the append fails.\<close>

datatype stage_io = StOk | StOpen | StAppend

record 'n flush_env =
  fe_serde :: "'n serde"
  fe_order :: "(string \<times> 'n staging_row list \<times> u64) list \<Rightarrow> (string \<times> 'n staging_row list \<times> u64) list"
  fe_stage :: "string \<Rightarrow> stage_io"
  fe_now :: "64 word"
  fe_catalog_ok :: bool
  fe_truncate :: tr_io
  fe_max_batch_entries :: nat

definition stage_batch ::
  "'n flush_env \<Rightarrow> catalog \<times> nat \<Rightarrow> string \<times> 'n staging_row list \<times> u64 \<Rightarrow> catalog \<times> nat"
where
  "stage_batch fe s b =
     (let (cat, flush_errors) = s; (collection_name, rs, batch_max_lsn) = b
      in case get_or_create_staging_table (fe_stage fe collection_name \<noteq> StOpen) cat collection_name of
           (Inl e, cat1) \<Rightarrow> (cat1, flush_errors + 1)
         | (Inr table, cat1) \<Rightarrow>
             (case append_to_staging (fe_serde fe) (fe_stage fe collection_name = StOk) (fe_now fe) table
                 \<lparr>sb_collection_name = collection_name, sb_rows = rs\<rparr> batch_max_lsn of
                Inl e \<Rightarrow> (cat1, flush_errors + 1)
              | Inr table1 \<Rightarrow> (cat1(staging_table_ident collection_name \<mapsto> table1), flush_errors)))"

text \<open>The read and the write lock are taken one after the other; \<open>between\<close> is what happens in the meantime.\<close>

definition flush_once ::
  "('n, 't) wal_env \<Rightarrow> 'n flush_env \<Rightarrow> (('n, 't) wal_manager \<Rightarrow> ('n, 't) wal_manager) \<Rightarrow> ('n, 't) wal_manager \<Rightarrow> catalog \<Rightarrow>
     (lakehouse_error + unit) \<times> ('n, 't) wal_manager \<times> catalog"
where
  "flush_once env fe between wm cat =
     (let entries = take (fe_max_batch_entries fe) (collect_unflushed env wm);
          current_watermark = w_iceberg_watermark wm;
          acc = group_entries current_watermark entries;
          max_lsn = fa_max_lsn acc
      in if entries = [] then (Inr (), wm, cat)
         else if fa_batches acc = [] then
           (Inr (), if current_watermark < max_lsn then set_iceberg_watermark (between wm) max_lsn else between wm, cat)
         else if \<not> fe_catalog_ok fe then (Inl LkSchema, between wm, cat)
         else
           let (cat1, flush_errors) = foldl (stage_batch fe) (cat, 0) (fe_order fe (fa_batches acc));
               wm1 = between wm
           in if flush_errors \<noteq> 0 then (Inr (), wm1, cat1)
              else
                let wm2 = set_iceberg_watermark wm1 max_lsn
                in (Inr (), if fa_has_ddl acc then wm2 else snd (truncate_wal_up_to env (fe_truncate fe) wm2 max_lsn), cat1))"

section \<open>What a batch of entries becomes\<close>

definition row_of_entry :: "'n wal_entry \<Rightarrow> (string \<times> 'n staging_row) option" where
  "row_of_entry e = (case e_op e of
       WInsert collection y v p \<Rightarrow>
         Some (collection, \<lparr>sr_id = y, sr_vector = v, sr_payload = p, sr_lsn = e_lsn e, sr_is_tombstone = False\<rparr>)
     | WDelete collection y \<Rightarrow>
         Some (collection, \<lparr>sr_id = y, sr_vector = [], sr_payload = None, sr_lsn = e_lsn e, sr_is_tombstone = True\<rparr>)
     | _ \<Rightarrow> None)"

definition rows_of :: "string \<Rightarrow> 'n wal_entry list \<Rightarrow> 'n staging_row list" where
  "rows_of col es = map snd (filter (\<lambda>(c, r). c = col) (List.map_filter row_of_entry es))"

lemma rows_of_simps [simp]:
  "rows_of col [] = []"
  "rows_of col (es @ fs) = rows_of col es @ rows_of col fs"
  by (simp_all add: rows_of_def map_filter_def)

lemma rows_of_single: "rows_of col [e] = (case row_of_entry e of Some (c, r) \<Rightarrow> if c = col then [r] else [] | None \<Rightarrow> [])"
  by (simp add: rows_of_def map_filter_simps split: option.split)

lemma group_entries_batches:
  "hm_ok (fa_batches (group_entries w es)) \<and>
   hm_get (fa_batches (group_entries w es)) col =
     (if rows_of col es = [] then None else Some (rows_of col es, foldl (\<lambda>m r. max m (sr_lsn r)) 0 (rows_of col es))) \<and>
   fa_max_lsn (group_entries w es) = foldl (\<lambda>m e. max m (e_lsn e)) w es \<and>
   fa_has_ddl (group_entries w es) = (\<exists>e \<in> set es. row_of_entry e = None)"
proof (induction es arbitrary: col rule: rev_induct)
  case Nil
  then show ?case by (simp add: group_entries_def hash_simps)
next
  case (snoc e es)
  have step: "group_entries w (es @ [e]) = flush_entry (group_entries w es) e" by (simp add: group_entries_def)
  show ?case
    unfolding step
    using snoc.IH [of col] snoc.IH
    by (cases "e_op e") (auto simp: flush_entry_def push_row_def rows_of_single row_of_entry_def hash_simps Let_def split: option.splits)
qed

section \<open>The staging loop\<close>

definition staged_rows :: "catalog \<Rightarrow> string \<Rightarrow> stored_row list" where
  "staged_rows cat col = (case cat (staging_table_ident col) of Some t \<Rightarrow> st_rows t | None \<Rightarrow> [])"

lemma staging_ident_inj [simp]: "staging_table_ident a = staging_table_ident b \<longleftrightarrow> a = b"
  by (simp add: staging_table_ident_def)

lemma stage_batch_ok:
  assumes "fe_stage fe c = StOk" "stage_batch fe (cat, n) (c, rs, m) = (cat', n')"
  shows "n' = n \<and> staged_rows cat' col = staged_rows cat col @ (if col = c then map (stored_row_of (fe_serde fe) (fe_now fe)) rs else [])"
  using assms
  by (cases "cat (staging_table_ident c)")
    (auto simp: stage_batch_def get_or_create_staging_table_def append_to_staging_def staged_rows_def Let_def split: if_splits)

lemma stage_batch_failed:
  assumes "fe_stage fe c \<noteq> StOk" "stage_batch fe (cat, n) (c, rs, m) = (cat', n')"
  shows "n' = Suc n"
  using assms
  by (cases "cat (staging_table_ident c)"; cases "fe_stage fe c")
    (auto simp: stage_batch_def get_or_create_staging_table_def append_to_staging_def Let_def)

lemma stage_batches:
  assumes "foldl (stage_batch fe) (cat, n) bs = (cat', n')" "distinct (map fst bs)"
  shows "n \<le> n' \<and> (n' = n \<longleftrightarrow> (\<forall>b \<in> set bs. fe_stage fe (fst b) = StOk)) \<and>
    (n' = n \<longrightarrow> staged_rows cat' col = staged_rows cat col @
       (case map_of bs col of Some (rs, m) \<Rightarrow> map (stored_row_of (fe_serde fe) (fe_now fe)) rs | None \<Rightarrow> []))"
  using assms
proof (induction bs arbitrary: cat n)
  case (Cons b bs)
  obtain c rs m where b: "b = (c, rs, m)" by (cases b)
  obtain cat1 n1 where 1: "stage_batch fe (cat, n) (c, rs, m) = (cat1, n1)" by (cases "stage_batch fe (cat, n) (c, rs, m)")
  have rest: "foldl (stage_batch fe) (cat1, n1) bs = (cat', n')" "distinct (map fst bs)" "c \<notin> fst ` set bs"
    using Cons.prems by (simp_all add: b 1)
  note ih = Cons.IH [OF rest(1,2)]
  show ?case
  proof (cases "fe_stage fe c = StOk")
    case True
    have "map_of bs c = None" using rest(3) by (simp add: map_of_eq_None_iff)
    then show ?thesis using ih stage_batch_ok [OF True 1, of col] True by (auto simp: b)
  next
    case False
    then show ?thesis using ih stage_batch_failed [OF False 1] by (auto simp: b)
  qed
qed simp

section \<open>What waits in memory\<close>

text \<open>The queue of the manager holds the entries \<open>q\<close>, in order, all above the watermark.\<close>

definition waiting :: "('n, 't) wal_env \<Rightarrow> ('n, 't) wal_manager \<Rightarrow> 'n wal_entry list \<Rightarrow> bool" where
  "waiting env wm q \<longleftrightarrow> list_all2 (\<lambda>(n, p) e. n = e_lsn e \<and> bin_read (x_bin env) p = Some e) (w_unflushed wm) q \<and>
     sorted_wrt (<) (map e_lsn q) \<and> (\<forall>e \<in> set q. w_iceberg_watermark wm < e_lsn e)"

lemma queue_entries:
  "list_all2 (\<lambda>(n, p) e. n = e_lsn e \<and> bin_read (x_bin env) p = Some e) us q \<Longrightarrow>
    List.map_filter (\<lambda>(_, p). bin_read (x_bin env) p) (filter (\<lambda>(n, _). w < n) us) = filter (\<lambda>e. w < e_lsn e) q"
  by (induction us q rule: list_all2_induct) (auto simp: map_filter_simps)

lemma collect_waiting: "waiting env wm q \<Longrightarrow> collect_unflushed env wm = q"
  using queue_entries [of env "w_unflushed wm" q "w_iceberg_watermark wm"]
  by (auto simp: waiting_def collect_unflushed_def)

lemma truncate_frame:
  "w_unflushed (snd (truncate_wal_up_to env tr wm w)) = w_unflushed wm \<and>
   w_iceberg_watermark (snd (truncate_wal_up_to env tr wm w)) = w_iceberg_watermark wm \<and>
   w_inner (snd (truncate_wal_up_to env tr wm w)) = w_inner wm"
  by (simp add: truncate_wal_up_to_def split: sum.split option.split prod.split)

lemma max_lsn_last:
  fixes q :: "'n wal_entry list"
  assumes "sorted_wrt (<) (map e_lsn q)" "q \<noteq> []" "\<forall>e \<in> set q. w < e_lsn e"
  shows "foldl (\<lambda>m e. max m (e_lsn e)) w q = e_lsn (last q)"
  using assms
proof (induction q rule: rev_induct)
  case (snoc e q)
  then show ?case by (cases "q = []") (auto simp: sorted_wrt_append max_def not_less less_imp_le)
qed simp

lemma le_last:
  fixes q :: "'n wal_entry list"
  assumes "sorted_wrt (<) (map e_lsn q)" "e \<in> set q"
  shows "e_lsn e \<le> e_lsn (last q)"
  using assms by (induction q rule: rev_induct) (auto simp: sorted_wrt_append)

lemma filter_after_last:
  fixes q :: "'n wal_entry list"
  assumes "sorted_wrt (<) (map e_lsn (b @ q))" "b \<noteq> []"
  shows "filter (\<lambda>e. e_lsn (last b) < e_lsn e) (b @ q) = q"
proof -
  have "\<not> e_lsn (last b) < e_lsn e" if "e \<in> set b" for e
    using le_last [of b e] assms that by (simp add: sorted_wrt_append not_less)
  moreover have "e_lsn (last b) < e_lsn e" if "e \<in> set q" for e
    using assms that by (auto simp: sorted_wrt_append)
  ultimately show ?thesis by (simp add: filter_empty_conv)
qed

text \<open>A batch has rows for a collection exactly when it is not made of other entries only.\<close>

lemma rows_of_mem: "r \<in> set (rows_of c es) \<longleftrightarrow> (\<exists>e \<in> set es. row_of_entry e = Some (c, r))"
  by (force simp: rows_of_def map_filter_def)

lemma no_batches: "fa_batches (group_entries w es) = [] \<longleftrightarrow> (\<forall>e \<in> set es. row_of_entry e = None)"
proof
  assume empty: "fa_batches (group_entries w es) = []"
  show "\<forall>e \<in> set es. row_of_entry e = None"
  proof
    fix e assume "e \<in> set es"
    moreover have "rows_of c es = []" for c using group_entries_batches [of w es c] empty by (auto split: if_splits)
    ultimately show "row_of_entry e = None" using rows_of_mem [of _ _ es] by (cases "row_of_entry e") fastforce+
  qed
next
  assume none: "\<forall>e \<in> set es. row_of_entry e = None"
  show "fa_batches (group_entries w es) = []"
  proof (rule ccontr)
    assume "fa_batches (group_entries w es) \<noteq> []"
    then obtain c b where "hm_get (fa_batches (group_entries w es)) c = Some b"
      by (cases "fa_batches (group_entries w es)") fastforce+
    then have "rows_of c es \<noteq> []" using group_entries_batches [of w es c] by auto
    then obtain r where "r \<in> set (rows_of c es)" by (cases "rows_of c es") auto
    then show False using none by (simp add: rows_of_mem)
  qed
qed

lemma staged_groups:
  assumes order: "\<And>bs. mset (fe_order fe bs) = mset bs"
    and run: "foldl (stage_batch fe) (cat, 0) (fe_order fe (fa_batches (group_entries w es))) = (cat', n)"
  shows "(n = 0 \<longleftrightarrow> (\<forall>c. rows_of c es \<noteq> [] \<longrightarrow> fe_stage fe c = StOk)) \<and>
    (n = 0 \<longrightarrow> staged_rows cat' c = staged_rows cat c @ map (stored_row_of (fe_serde fe) (fe_now fe)) (rows_of c es))"
proof -
  let ?bs = "fa_batches (group_entries w es)"
  have ok: "hm_ok ?bs" using group_entries_batches by blast
  have perm: "mset (fe_order fe ?bs) = mset ?bs" by (rule order)
  have "mset (map fst (fe_order fe ?bs)) = mset (map fst ?bs)" using perm by simp
  then have dist: "distinct (map fst (fe_order fe ?bs))" using ok mset_eq_imp_distinct_iff unfolding hm_ok_def by blast
  have get: "map_of (fe_order fe ?bs) = map_of ?bs"
    using dist ok mset_eq_setD [OF perm] unfolding hm_ok_def by (metis map_of_inject_set)
  have keys: "(\<forall>b \<in> set (fe_order fe ?bs). fe_stage fe (fst b) = StOk) \<longleftrightarrow> (\<forall>c. rows_of c es \<noteq> [] \<longrightarrow> fe_stage fe c = StOk)"
  proof -
    have keys: "c \<in> fst ` set (fe_order fe ?bs) \<longleftrightarrow> rows_of c es \<noteq> []" for c
    proof -
      have "map_of ?bs c = None \<longleftrightarrow> rows_of c es = []" using group_entries_batches [of w es c] by simp
      then show ?thesis unfolding map_of_eq_None_iff mset_eq_setD [OF perm] by blast
    qed
    show ?thesis
    proof
      assume ok: "\<forall>b \<in> set (fe_order fe ?bs). fe_stage fe (fst b) = StOk"
      show "\<forall>c. rows_of c es \<noteq> [] \<longrightarrow> fe_stage fe c = StOk" using ok unfolding keys [symmetric] by auto
    next
      assume "\<forall>c. rows_of c es \<noteq> [] \<longrightarrow> fe_stage fe c = StOk"
      then show "\<forall>b \<in> set (fe_order fe ?bs). fe_stage fe (fst b) = StOk" unfolding keys [symmetric] by blast
    qed
  qed
  have "map_of ?bs c = (if rows_of c es = [] then None else Some (rows_of c es, foldl (\<lambda>m r. max m (sr_lsn r)) 0 (rows_of c es)))"
    using group_entries_batches [of w es c] by simp
  then show ?thesis using stage_batches [OF run dist, of c] keys by (simp add: get)
qed

section \<open>Properties\<close>

lemma group_max:
  assumes "waiting env wm q" "take k q \<noteq> []"
  shows "fa_max_lsn (group_entries (w_iceberg_watermark wm) (take k q)) = e_lsn (last (take k q))"
proof -
  have "sorted_wrt (<) (map e_lsn (take k q))" using assms(1) by (simp add: waiting_def sorted_wrt_take flip: take_map)
  moreover have "\<forall>e \<in> set (take k q). w_iceberg_watermark wm < e_lsn e" using assms(1) set_take_subset [of k q] by (auto simp: waiting_def)
  ultimately show ?thesis using max_lsn_last assms(2) group_entries_batches by metis
qed

lemma set_watermark:
  assumes "waiting env wm (b @ q)" "b \<noteq> []"
  shows "waiting env (set_iceberg_watermark wm (e_lsn (last b))) q \<and>
    w_iceberg_watermark (set_iceberg_watermark wm (e_lsn (last b))) = e_lsn (last b) \<and>
    w_inner (set_iceberg_watermark wm (e_lsn (last b))) = w_inner wm"
proof -
  let ?P = "\<lambda>(n, p) e. n = e_lsn e \<and> bin_read (x_bin env) p = Some e"
  have new: "w_iceberg_watermark wm < e_lsn (last b)" using assms by (simp add: waiting_def)
  have filt: "list_all2 ?P (filter (\<lambda>(n, _). w < n) us) (filter (\<lambda>e. w < e_lsn e) es)" if "list_all2 ?P us es" for us es w
    using that by (induction us es rule: list_all2_induct) auto
  have q: "filter (\<lambda>e. e_lsn (last b) < e_lsn e) (b @ q) = q" using assms filter_after_last by (auto simp: waiting_def)
  have "list_all2 ?P (filter (\<lambda>(n, _). e_lsn (last b) < n) (w_unflushed wm)) q"
    using filt [of "w_unflushed wm" "b @ q" "e_lsn (last b)"] assms(1) unfolding q by (simp add: waiting_def)
  moreover have "\<forall>e \<in> set q. e_lsn (last b) < e_lsn e" using assms by (auto simp: waiting_def sorted_wrt_append)
  ultimately show ?thesis using new assms(1) by (simp add: set_iceberg_watermark_def waiting_def sorted_wrt_append)
qed

text \<open>A tick whose batch has rows: what it stages, and which manager it leaves.\<close>

lemma flush_run:
  assumes order: "\<And>bs. mset (fe_order fe bs) = mset bs" and q: "waiting env wm q"
    and batch: "b = take (fe_max_batch_entries fe) q" "\<exists>e \<in> set b. row_of_entry e \<noteq> None" and cat: "fe_catalog_ok fe"
    and run: "flush_once env fe between wm cat = (r, wm', cat')"
  shows "r = Inr () \<and> (if \<forall>c. rows_of c b \<noteq> [] \<longrightarrow> fe_stage fe c = StOk
    then (\<forall>c. staged_rows cat' c = staged_rows cat c @ map (stored_row_of (fe_serde fe) (fe_now fe)) (rows_of c b)) \<and>
      wm' = (if \<exists>e \<in> set b. row_of_entry e = None then set_iceberg_watermark (between wm) (e_lsn (last b))
        else snd (truncate_wal_up_to env (fe_truncate fe) (set_iceberg_watermark (between wm) (e_lsn (last b))) (e_lsn (last b))))
    else wm' = between wm)"
proof -
  let ?g = "group_entries (w_iceberg_watermark wm) b"
  have ne: "b \<noteq> []" using batch(2) by auto
  have some: "fa_batches ?g \<noteq> []" unfolding no_batches using batch(2) by simp
  have max: "fa_max_lsn ?g = e_lsn (last b)" using group_max [OF q] batch(1) ne by simp
  have ddl: "fa_has_ddl ?g = (\<exists>e \<in> set b. row_of_entry e = None)" using group_entries_batches by blast
  obtain cat1 n where stage: "foldl (stage_batch fe) (cat, 0) (fe_order fe (fa_batches ?g)) = (cat1, n)"
    by (cases "foldl (stage_batch fe) (cat, 0) (fe_order fe (fa_batches ?g))")
  let ?wm = "set_iceberg_watermark (between wm) (e_lsn (last b))"
  have "r = Inr () \<and> cat' = cat1 \<and> wm' = (if n \<noteq> 0 then between wm else if fa_has_ddl ?g then ?wm
      else snd (truncate_wal_up_to env (fe_truncate fe) ?wm (e_lsn (last b))))"
    using run ne some cat stage by (auto simp: flush_once_def collect_waiting [OF q] Let_def max simp flip: batch(1))
  then show ?thesis using staged_groups [OF order stage] unfolding ddl by auto
qed

text \<open>A tick whose batch has only operations on collections.\<close>

lemma flush_ddl_only:
  assumes "waiting env wm q" "take (fe_max_batch_entries fe) q \<noteq> []" "\<forall>e \<in> set (take (fe_max_batch_entries fe) q). row_of_entry e = None"
  shows "flush_once env fe between wm cat =
    (Inr (), set_iceberg_watermark (between wm) (e_lsn (last (take (fe_max_batch_entries fe) q))), cat)"
proof -
  have "fa_batches (group_entries (w_iceberg_watermark wm) (take (fe_max_batch_entries fe) q)) = []"
    unfolding no_batches by (rule assms(3))
  moreover have "w_iceberg_watermark wm < e_lsn (last (take (fe_max_batch_entries fe) q))"
    using assms(1) in_set_takeD [OF last_in_set [OF assms(2)]] by (simp add: waiting_def del: take_eq_Nil)
  ultimately show ?thesis using assms(2) by (simp add: flush_once_def collect_waiting [OF assms(1)] Let_def group_max [OF assms(1,2)])
qed


section \<open>What is not delivered\<close>

lemma wal_inv_watermark: "wal_inv env wm base old es \<Longrightarrow> wal_inv env (set_iceberg_watermark wm w) base old es"
  by (auto simp: wal_inv_def set_iceberg_watermark_def disk_of_def wal_path_def word_gt_0)

lemma watermark_frame:
  "w_inner (set_iceberg_watermark wm w) = w_inner wm \<and> w_dir (set_iceberg_watermark wm w) = w_dir wm \<and>
   w_snapshot_lsn (set_iceberg_watermark wm w) = w_snapshot_lsn wm \<and> w_next_lsn (set_iceberg_watermark wm w) = w_next_lsn wm \<and>
   w_wal (set_iceberg_watermark wm w) = w_wal wm \<and> w_config (set_iceberg_watermark wm w) = w_config wm"
  by (simp add: set_iceberg_watermark_def)

text \<open>A rewrite that keeps nothing leaves the snapshot alone.\<close>

lemma truncate_all:
  assumes env: "env_ok env docs" and inv: "wal_inv env wm base old es" and newest: "\<forall>e \<in> set (old @ es). e_lsn e \<le> w"
  shows "\<exists>wm'. truncate_wal_up_to env TrOk wm w = (Inr (), wm') \<and> w_inner wm' = w_inner wm \<and>
    disk_inv env (w_dir wm) (disk_of wm') (w_snapshot_lsn wm) base [] []"
proof -
  have libs: "libs_ok (x_lib env) (x_bin env)" using env by (simp add: env_ok_def)
  have log: "is_log (x_lib env) (x_bin env) (old @ es) (wal_path wm)" using inv by (simp add: wal_inv_def wal_path_def)
  have "filter (\<lambda>e. w < e_lsn e) (old @ es) = []" using newest by (auto simp: filter_empty_conv not_less)
  then have "kept_entries (x_lib env) (x_bin env) w (frames (wal_path wm)) = Inr []"
    using kept_entries_log [OF libs log, of w "[]"] by simp
  then obtain bs wm' where t: "truncate_wal_up_to env TrOk wm w = (Inr (), wm')" "is_log (x_lib env) (x_bin env) [] bs"
      "wal_path wm' = bs" "wm' = wm\<lparr>w_wal := open_append (Some bs) (cfg_compression (w_config wm)), w_detached := None,
        w_wal_entries := of_nat (length ([] :: 'a wal_entry list)),
        w_since_checkpoint := of_nat (length (filter (\<lambda>e. w_snapshot_lsn wm < e_lsn e) ([] :: 'a wal_entry list)))\<rparr>"
    using truncate_result [OF libs, of w wm "[]"] by auto
  have "open_reader (x_lib env) (x_bin env) None bs = Inr ([], None)" using open_reader_log [OF libs t(2), of None] by simp
  then have "disk_inv env (w_dir wm) (disk_of wm') (w_snapshot_lsn wm) base [] []"
    using inv t(3,4) by (auto simp: wal_inv_def disk_inv_def disk_holds_def disk_of_def numbered_def)
  moreover have "w_inner wm' = w_inner wm" by (simp add: t(4))
  ultimately show ?thesis using t(1) by blast
qed

text \<open>A tick erases entries that were never staged. When the rows of its batch reach the staging tables, the log is
  rewritten without any entry up to the last of the batch, whether the entry was in a batch or not. Operations on
  collections, which are not staged and only hold back the rewrite of their own batch, and entries replayed when
  the directory was opened, which do not wait in memory, are then neither in the log nor in a staging table:
  opening the directory gives the collections of the last snapshot only.\<close>

theorem flush_erases_unstaged:
  assumes env: "env_ok env docs" and inv: "wal_inv env wm base old es" and q: "waiting env wm q"
    and batch: "b = take (fe_max_batch_entries fe) q" "b \<noteq> []" "\<forall>e \<in> set b. row_of_entry e \<noteq> None"
    and newest: "\<forall>e \<in> set (old @ es). e_lsn e \<le> e_lsn (last b)"
    and fe: "\<And>bs. mset (fe_order fe bs) = mset bs" "fe_catalog_ok fe" "fe_truncate fe = TrOk" "\<And>c. fe_stage fe c = StOk"
    and run: "flush_once env fe id wm cat = (r, wm', cat')"
  shows "r = Inr () \<and> w_inner wm' = w_inner wm \<and>
    (\<forall>c. staged_rows cat' c = staged_rows cat c @ map (stored_row_of (fe_serde fe) (fe_now fe)) (rows_of c b)) \<and>
    (\<exists>wm2. open_with_config env ls True cfg (w_dir wm) (disk_of wm') = Inr wm2 \<and> abs_mgr (w_inner wm2) = base \<and>
      w_next_lsn wm2 = w_snapshot_lsn wm + 1)"
proof -
  let ?wm = "set_iceberg_watermark wm (e_lsn (last b))"
  have some: "\<exists>e \<in> set b. row_of_entry e \<noteq> None" using batch(2,3) by (cases b) auto
  obtain wm1 where t: "truncate_wal_up_to env TrOk ?wm (e_lsn (last b)) = (Inr (), wm1)" "w_inner wm1 = w_inner ?wm"
      "disk_inv env (w_dir ?wm) (disk_of wm1) (w_snapshot_lsn ?wm) base [] []"
    using truncate_all [OF env wal_inv_watermark [OF inv] newest] by blast
  have res: "r = Inr ()" "wm' = wm1"
      "\<forall>c. staged_rows cat' c = staged_rows cat c @ map (stored_row_of (fe_serde fe) (fe_now fe)) (rows_of c b)"
    using flush_run [OF fe(1) q batch(1) some fe(2) run] batch(3) fe(3,4) t(1) by auto
  obtain wm2 where wm2: "open_with_config env ls True cfg (w_dir wm) (disk_of wm') = Inr wm2" "abs_mgr (w_inner wm2) = base"
      "unat (w_next_lsn wm2) = unat (w_snapshot_lsn wm) + 1"
    using reopen [OF env t(3), of ls cfg] res(2) watermark_frame [of wm] by auto
  have "unat (w_snapshot_lsn wm + 1) = unat (w_snapshot_lsn wm) + 1"
    using inv by (simp add: wal_inv_def disk_inv_def numbered_def unat_word_ariths(1))
  then have "w_next_lsn wm2 = w_snapshot_lsn wm + 1" using wm2(3) by (metis unsigned_word_eqI)
  then show ?thesis using res t(2) wm2 watermark_frame [of wm] by auto
qed

section \<open>A run\<close>

text \<open>A logged operation waits in memory; without an automatic checkpoint it is also the last entry of the log.\<close>

lemma log_and_apply_quiet:
  fixes env :: "('n, 't) wal_env"
  assumes env: "env_ok env docs" and inv: "wal_inv env wm base old es" and fine: "op_fine env (ww_compression (w_wal wm)) opn"
    and room: "unat (w_next_lsn wm) + 1 < 2 ^ 64"
    and f: "\<And>q mgr. f (w_inner wm) = (q, mgr) \<Longrightarrow> mgr_good env mgr \<and> abs_mgr mgr = spec_op opn (abs_mgr (w_inner wm))"
    and quiet: "cfg_entries (w_config wm) = 0" "cfg_bytes (w_config wm) = 0"
    and q: "waiting env wm q" and below: "\<forall>e \<in> set q. e_lsn e < w_next_lsn wm" "w_iceberg_watermark wm < w_next_lsn wm"
  shows "\<exists>r wm'. log_and_apply env IoOk ck wm opn f = (r, wm') \<and> wal_inv env wm' base old (es @ [wal_entry_new (w_next_lsn wm) opn]) \<and>
    abs_mgr (w_inner wm') = spec_op opn (abs_mgr (w_inner wm)) \<and> w_next_lsn wm' = w_next_lsn wm + 1 \<and> same_setup wm wm' \<and>
    waiting env wm' (q @ [wal_entry_new (w_next_lsn wm) opn])"
proof -
  let ?e = "wal_entry_new (w_next_lsn wm) opn"
  obtain r wm' where run: "log_and_apply env IoOk ck wm opn f = (r, wm')" by (cases "log_and_apply env IoOk ck wm opn f")
  have fit: "op_exact opn" "writable env wm ?e" using fine by (auto simp: op_fine_def)
  obtain q1 p wm3 where l: "wal_inv env wm3 base old (es @ [?e])"
      "abs_mgr (w_inner wm3) = spec_op opn (abs_mgr (w_inner wm))" "unat (w_next_lsn wm3) = unat (w_next_lsn wm) + 1" "same_setup wm wm3"
      "bin_write (x_bin env) ?e = Some p" "w_unflushed wm3 = w_unflushed wm @ [(w_next_lsn wm, p)]"
      "(r, wm') = and_then (map_sum Apply id q1, wm3) (\<lambda>x wm3. and_then (maybe_checkpoint env ck wm3) (\<lambda>_ wm4. (Inr x, wm4)))"
    using log_and_apply_logged [where f = f, OF env inv fit room _ run] f by blast
  have "maybe_checkpoint env ck wm3 = (Inr (), wm3)" using quiet l(4) by (simp add: maybe_checkpoint_def same_setup_def)
  then have wm': "wm' = wm3" using l(7) by (cases q1) auto
  have "bin_read (x_bin env) p = Some ?e" using l(5) env by (auto simp: env_ok_def libs_ok_def bincode_ok_def)
  then have "waiting env wm3 (q @ [?e])"
    using q below l(4,6) by (auto simp: waiting_def same_setup_def sorted_wrt_append wal_entry_new_def intro!: list_all2_appendI)
  moreover have "unat (w_next_lsn wm + 1) = unat (w_next_lsn wm) + 1" using room by (simp add: unat_word_ariths(1))
  then have "w_next_lsn wm3 = w_next_lsn wm + 1" using l(3) by (metis unsigned_word_eqI)
  ultimately show ?thesis using run l(1,2,4) wm' by blast
qed

definition flush_example :: "nat \<Rightarrow> f64 flush_env" where
  "flush_example n = \<lparr>fe_serde = tiny_serde, fe_order = (\<lambda>bs. bs), fe_stage = (\<lambda>_. StOk), fe_now = 0, fe_catalog_ok = True,
     fe_truncate = TrOk, fe_max_batch_entries = n\<rparr>"

text \<open>A collection is created and flushed, then a vector is inserted.\<close>

definition run_ops :: "f64 wal_op list" where
  "run_ops = [CreateCollection ''c'' 1 L2 KFlat, WInsert ''c'' 7 [0] None]"

lemma example_run:
  "\<exists>wm0. open_with_config (tiny_env run_ops) (\<lambda>_. 0) True tiny_config ''d'' \<lparr>d_snapshot = None, d_wal = None\<rparr> = Inr wm0 \<and>
    (\<exists>r1 wm1. wal_create_collection (tiny_env run_ops) IoOk CkOk wm0 ''c'' 1 L2 = (r1, wm1) \<and>
    waiting (tiny_env run_ops) wm1 [wal_entry_new 1 (CreateCollection ''c'' 1 L2 KFlat)] \<and>
    (\<exists>r2 wm2 es. wal_insert (tiny_env run_ops) IoOk CkOk 0 (set_iceberg_watermark wm1 1) ''c'' 7 [0] None = (r2, wm2) \<and>
    waiting (tiny_env run_ops) wm2 [wal_entry_new 2 (WInsert ''c'' 7 [0] None)] \<and> w_dir wm2 = ''d'' \<and>
    wal_inv (tiny_env run_ops) wm2 Map.empty [] es \<and> (\<forall>e \<in> set es. e_lsn e \<le> 2) \<and> abs_mgr (w_inner wm2) ''c'' \<noteq> None))"
proof -
  let ?env = "tiny_env run_ops" and ?create = "CreateCollection ''c'' 1 L2 KFlat" and ?ins = "WInsert ''c'' 7 [0] None"
  have env: "env_ok ?env map_of" by (rule tiny_env_ok) (simp add: run_ops_def)
  have fine: "op_fine ?env NoCompression ?create" "op_fine ?env NoCompression ?ins"
    by (simp_all add: tiny_fine run_ops_def op_exact_def)
  obtain wm0 where open0: "open_with_config ?env (\<lambda>_. 0) True tiny_config ''d'' \<lparr>d_snapshot = None, d_wal = None\<rparr> = Inr wm0"
      "wal_inv ?env wm0 Map.empty [] []" "w_config wm0 = tiny_config" "ww_compression (w_wal wm0) = NoCompression"
      "unat (w_next_lsn wm0) = 1" "w_dir wm0 = ''d''"
    using open_fresh [OF env, of "\<lambda>_. 0" tiny_config "''d''"] by (auto simp: tiny_config_def)
  have next0: "w_next_lsn wm0 = 1" using open0(5) by (intro unsigned_word_eqI [where ?'a = nat]) simp
  have good0: "mgr_good ?env (w_inner wm0)" using open0(2) by (simp add: wal_inv_def)
  have empty: "waiting ?env wm0 []" "w_iceberg_watermark wm0 = 0" using open_queue [OF open0(1)] by (simp_all add: waiting_def)
  have "\<exists>r1 wm1. wal_create_collection ?env IoOk CkOk wm0 ''c'' 1 L2 = (r1, wm1) \<and> wal_inv ?env wm1 Map.empty [] ([] @ [wal_entry_new (w_next_lsn wm0) ?create]) \<and>
      abs_mgr (w_inner wm1) = spec_op ?create (abs_mgr (w_inner wm0)) \<and> w_next_lsn wm1 = w_next_lsn wm0 + 1 \<and> same_setup wm0 wm1 \<and>
      waiting ?env wm1 ([] @ [wal_entry_new (w_next_lsn wm0) ?create])"
    unfolding wal_create_collection_def
    using mgr_step_create [OF good0 env, of "''c''" 1 L2 KFlat] fine open0 empty next0
    by (intro log_and_apply_quiet [OF env open0(2)]) (auto simp: op_fine_def tiny_config_def create_kind_def)
  then obtain r1 wm1 where 1: "wal_create_collection ?env IoOk CkOk wm0 ''c'' 1 L2 = (r1, wm1)" "wal_inv ?env wm1 Map.empty [] [wal_entry_new 1 ?create]"
      "abs_mgr (w_inner wm1) = spec_op ?create Map.empty" "w_next_lsn wm1 = 2" "same_setup wm0 wm1" "waiting ?env wm1 [wal_entry_new 1 ?create]"
    using open0(2) next0 by (auto simp: wal_inv_def)
  let ?wm1 = "set_iceberg_watermark wm1 1"
  have wm1: "wal_inv ?env ?wm1 Map.empty [] [wal_entry_new 1 ?create]" "waiting ?env ?wm1 []" "w_iceberg_watermark ?wm1 = 1" "same_setup wm0 ?wm1 \<or> True"
    using wal_inv_watermark [OF 1(2)] set_watermark [of ?env wm1 "[wal_entry_new 1 ?create]" "[]"] 1(6) by (auto simp: wal_entry_new_def)
  have good1: "mgr_good ?env (w_inner ?wm1)" using wm1(1) by (simp add: wal_inv_def)
  have "\<exists>r2 wm2. wal_insert ?env IoOk CkOk 0 ?wm1 ''c'' 7 [0] None = (r2, wm2) \<and> wal_inv ?env wm2 Map.empty [] ([wal_entry_new 1 ?create] @ [wal_entry_new (w_next_lsn ?wm1) ?ins]) \<and>
      abs_mgr (w_inner wm2) = spec_op ?ins (abs_mgr (w_inner ?wm1)) \<and> w_next_lsn wm2 = w_next_lsn ?wm1 + 1 \<and> same_setup ?wm1 wm2 \<and>
      waiting ?env wm2 ([] @ [wal_entry_new (w_next_lsn ?wm1) ?ins])"
    unfolding wal_insert_def Let_def
    using step_insert [OF good1 env, of "''c''" 0 7 "[0]" None "w_next_lsn ?wm1"] fine 1(4,5) open0(3,4) wm1(2,3) watermark_frame [of wm1 1]
    by (intro log_and_apply_quiet [OF env wm1(1)]) (auto simp: tiny_config_def same_setup_def)
  then obtain r2 wm2 where 2: "wal_insert ?env IoOk CkOk 0 ?wm1 ''c'' 7 [0] None = (r2, wm2)"
      "wal_inv ?env wm2 Map.empty [] ([wal_entry_new 1 ?create] @ [wal_entry_new 2 ?ins])"
      "abs_mgr (w_inner wm2) = spec_op ?ins (spec_op ?create Map.empty)" "waiting ?env wm2 [wal_entry_new 2 ?ins]" "w_dir wm2 = ''d''"
    using 1(3,4,5) open0(6) watermark_frame [of wm1 1] by (auto simp: same_setup_def)
  have "abs_mgr (w_inner wm2) ''c'' \<noteq> None" by (simp add: 2(3) spec_op_def upd_acol_def valid_kind_def)
  moreover have "\<forall>e \<in> set ([wal_entry_new 1 ?create] @ [wal_entry_new 2 ?ins]). e_lsn e \<le> 2" by (simp add: wal_entry_new_def)
  ultimately show ?thesis using open0(1) 1(1,6) 2 by blast
qed


text \<open>The whole run: the creation is flushed alone, the insert is flushed with a rewrite of the log, and the collection
  is gone after a restart.\<close>

theorem flush_erases_unstaged_witness:
  "\<exists>wm0 wm1 wm1' cat1 wm2 wm3 cat3 wm4. open_with_config (tiny_env run_ops) (\<lambda>_. 0) True tiny_config ''d'' \<lparr>d_snapshot = None, d_wal = None\<rparr> = Inr wm0 \<and>
    snd (wal_create_collection (tiny_env run_ops) IoOk CkOk wm0 ''c'' 1 L2) = wm1 \<and>
    flush_once (tiny_env run_ops) (flush_example 5) id wm1 Map.empty = (Inr (), wm1', cat1) \<and>
    snd (wal_insert (tiny_env run_ops) IoOk CkOk 0 wm1' ''c'' 7 [0] None) = wm2 \<and> abs_mgr (w_inner wm2) ''c'' \<noteq> None \<and>
    flush_once (tiny_env run_ops) (flush_example 5) id wm2 cat1 = (Inr (), wm3, cat3) \<and>
    open_with_config (tiny_env run_ops) (\<lambda>_. 0) True tiny_config ''d'' (disk_of wm3) = Inr wm4 \<and> abs_mgr (w_inner wm4) = Map.empty"
proof -
  let ?env = "tiny_env run_ops" and ?q = "[wal_entry_new 2 (WInsert ''c'' 7 [0] None)] :: f64 wal_entry list"
    and ?create = "wal_entry_new 1 (CreateCollection ''c'' 1 L2 KFlat) :: f64 wal_entry"
  have env: "env_ok ?env map_of" by (rule tiny_env_ok) (simp add: run_ops_def)
  obtain wm0 r1 wm1 r2 wm2 es where run: "open_with_config ?env (\<lambda>_. 0) True tiny_config ''d'' \<lparr>d_snapshot = None, d_wal = None\<rparr> = Inr wm0"
      "wal_create_collection ?env IoOk CkOk wm0 ''c'' 1 L2 = (r1, wm1)" "waiting ?env wm1 [?create]"
      "wal_insert ?env IoOk CkOk 0 (set_iceberg_watermark wm1 1) ''c'' 7 [0] None = (r2, wm2)" "waiting ?env wm2 ?q" "w_dir wm2 = ''d''"
      "wal_inv ?env wm2 Map.empty [] es" "\<forall>e \<in> set es. e_lsn e \<le> 2" "abs_mgr (w_inner wm2) ''c'' \<noteq> None"
    using example_run by blast
  have one: "flush_once ?env (flush_example 5) id wm1 Map.empty = (Inr (), set_iceberg_watermark wm1 1, Map.empty)"
    using flush_ddl_only [OF run(3), of "flush_example 5"] by (simp add: flush_example_def row_of_entry_def wal_entry_new_def)
  obtain r wm3 cat3 where two: "flush_once ?env (flush_example 5) id wm2 Map.empty = (r, wm3, cat3)"
    by (cases "flush_once ?env (flush_example 5) id wm2 Map.empty")
  have "?q = take (fe_max_batch_entries (flush_example 5)) ?q" "?q \<noteq> []" "\<forall>e \<in> set ?q. row_of_entry e \<noteq> None"
    by (simp_all add: flush_example_def row_of_entry_def wal_entry_new_def)
  moreover have "\<forall>e \<in> set ([] @ es). e_lsn e \<le> e_lsn (last ?q)" using run(8) by (simp add: wal_entry_new_def)
  ultimately obtain wm4 where "r = Inr ()" "open_with_config ?env (\<lambda>_. 0) True tiny_config (w_dir wm2) (disk_of wm3) = Inr wm4"
      "abs_mgr (w_inner wm4) = Map.empty"
    using flush_erases_unstaged [where b = ?q and ls = "\<lambda>_. 0" and cfg = tiny_config, OF env run(7,5) _ _ _ _ _ _ _ _ two] by (auto simp: flush_example_def)
  then show ?thesis using run one two by (intro exI conjI) (assumption | simp)+
qed

end
