(* ===== verification/IcebergRecovery.thy ===== *)
theory IcebergRecovery
  imports Flusher
begin

text \<open>
  Starting from Iceberg: the index snapshots of \<open>index_snapshot_io.rs\<close>, the rows staged since, and the log,
  put together by \<open>open_with_iceberg\<close> of \<open>iceberg_recovery.rs\<close>.
\<close>

section \<open>Index snapshots\<close>

text \<open>A row of \<open>likhadb_index_snapshots\<close>; the blob is written by \<open>bincode\<close>.\<close>

record snapshot_row =
  sn_collection_name :: string
  sn_snapshot_blob :: bytes
  sn_written_at_ms :: "64 word"

definition write_collection_snapshot ::
  "('n collection_snapshot \<Rightarrow> bytes option) \<Rightarrow> bool \<Rightarrow> 64 word \<Rightarrow> snapshot_row list option \<Rightarrow> 'n collection_snapshot \<Rightarrow>
     (lakehouse_error + unit) \<times> snapshot_row list option"
where
  "write_collection_snapshot enc ok now table snap =
     (if \<not> ok then (Inl LkIceberg, table)
      else case enc snap of
          None \<Rightarrow> (Inl IndexBlob, Some (case table of Some rs \<Rightarrow> rs | None \<Rightarrow> []))
        | Some blob \<Rightarrow> (Inr (), Some ((case table of Some rs \<Rightarrow> rs | None \<Rightarrow> []) @
            [\<lparr>sn_collection_name = s_name snap, sn_snapshot_blob = blob, sn_written_at_ms = now\<rparr>])))"

text \<open>The latest row of every collection; a row that is not newer is not decoded.\<close>

fun latest_snapshots ::
  "(bytes \<Rightarrow> 'n collection_snapshot option) \<Rightarrow> (string \<times> 64 word \<times> 'n collection_snapshot) list \<Rightarrow> snapshot_row list \<Rightarrow>
     lakehouse_error + (string \<times> 64 word \<times> 'n collection_snapshot) list"
where
  "latest_snapshots dec latest [] = Inr latest"
| "latest_snapshots dec latest (r # rs) =
     (let name = sn_collection_name r; ts = sn_written_at_ms r
      in if (case hm_get latest name of Some (existing_ts, _) \<Rightarrow> sint ts \<le> sint existing_ts | None \<Rightarrow> False)
         then latest_snapshots dec latest rs
         else case dec (sn_snapshot_blob r) of
             None \<Rightarrow> Inl IndexBlob
           | Some snap \<Rightarrow> latest_snapshots dec (hm_insert name (ts, snap) latest) rs)"

definition load_collection_snapshots ::
  "(bytes \<Rightarrow> 'n collection_snapshot option) \<Rightarrow> bool \<Rightarrow> snapshot_row list option \<Rightarrow> lakehouse_error + 'n collection_snapshot list"
where
  "load_collection_snapshots dec ok table =
     (if \<not> ok then Inl LkIceberg
      else case table of
          None \<Rightarrow> Inr []
        | Some rs \<Rightarrow> map_sum id (map (\<lambda>(_, _, s). s)) (latest_snapshots dec [] rs))"

section \<open>Opening\<close>

datatype recovery_error = RLakehouse lakehouse_error | RPersist persist_error

text \<open>The libraries, and which of their calls fail.\<close>

record 'n iceberg_env =
  ie_catalog_ok :: bool
  ie_decode :: "bytes \<Rightarrow> 'n collection_snapshot option"
  ie_snapshots_ok :: bool
  ie_serde :: "'n serde"
  ie_order :: "stored_row list \<Rightarrow> stored_row list"
  ie_table_ok :: "string \<Rightarrow> bool"
  ie_scan_ok :: "string \<Rightarrow> bool"

definition delta_of_pending :: "'n pending_vector \<Rightarrow> 'n delta_row" where
  "delta_of_pending e = (if pv_is_delete e then DDelete (pv_id e) else DUpsert (pv_id e) (pv_vector e) (pv_payload e))"

text \<open>The rows of one table; a row that cannot be applied is passed over.\<close>

fun apply_pending ::
  "rt \<Rightarrow> 't tantivy \<Rightarrow> (nat \<Rightarrow> nat) \<Rightarrow> ('n, 't) collection \<Rightarrow> 'n pending_vector list \<Rightarrow> ('n, 't) collection"
where
  "apply_pending rt tv ls c [] = c"
| "apply_pending rt tv ls c (e # es) =
     apply_pending rt tv ls (snd (apply_delta_row rt tv (ls (length es)) c (delta_of_pending e) out_of_band_lsn)) es"

fun recover_collections ::
  "('n, 't) wal_env \<Rightarrow> 'n iceberg_env \<Rightarrow> (nat \<Rightarrow> nat) \<Rightarrow> string list \<Rightarrow> ('n, 't) manager \<Rightarrow> u64 \<Rightarrow> catalog \<Rightarrow>
     (lakehouse_error + ('n, 't) manager \<times> u64) \<times> catalog"
where
  "recover_collections env ie ls [] mgr max_watermark cat = (Inr (mgr, max_watermark), cat)"
| "recover_collections env ie ls (name # names) mgr max_watermark cat =
     (case get_or_create_staging_table (ie_table_ok ie name) cat name of
        (Inl e, cat1) \<Rightarrow> (Inl e, cat1)
      | (Inr staging, cat1) \<Rightarrow>
          let max_watermark1 = max max_watermark (read_watermark staging)
          in (case scan_pending (ie_serde ie) (ie_order ie) (ie_scan_ok ie name) staging of
                Inl e \<Rightarrow> (Inl e, cat1)
              | Inr (entries, _) \<Rightarrow>
                  if entries = [] then recover_collections env ie ls names mgr max_watermark1 cat1
                  else case hm_get mgr name of
                      None \<Rightarrow> (Inl LkSchema, cat1)
                    | Some c \<Rightarrow> recover_collections env ie ls names
                        (hm_insert name (apply_pending (x_rt env) (x_tv env) ls c entries) mgr) max_watermark1 cat1))"

definition open_with_iceberg ::
  "('n, 't) wal_env \<Rightarrow> 'n iceberg_env \<Rightarrow> (nat \<Rightarrow> nat) \<Rightarrow> bool \<Rightarrow> string \<Rightarrow> disk \<Rightarrow> snapshot_row list option \<Rightarrow> catalog \<Rightarrow>
     (recovery_error + ('n, 't) wal_manager) \<times> catalog"
where
  "open_with_iceberg env ie ls io_ok dir d table cat =
     (if \<not> ie_catalog_ok ie then (Inl (RLakehouse LkSchema), cat)
      else case load_collection_snapshots (ie_decode ie) (ie_snapshots_ok ie) table of
          Inl e \<Rightarrow> (Inl (RLakehouse e), cat)
        | Inr snapshots \<Rightarrow>
            if snapshots = [] then (map_sum RPersist id (wal_open env ls io_ok dir d), cat)
            else
              let manager = mgr_from_snapshot (x_tv env) \<lparr>ms_collections = snapshots, ms_last_lsn = 0\<rparr> None
              in (case recover_collections env ie ls (mgr_list manager) manager 0 cat of
                    (Inl e, cat1) \<Rightarrow> (Inl (RLakehouse e), cat1)
                  | (Inr (manager1, max_watermark), cat1) \<Rightarrow>
                      (case open_from_iceberg_state env ls io_ok dir d manager1 0 of
                         Inl e \<Rightarrow> (Inl (RPersist e), cat1)
                       | Inr wal \<Rightarrow> (Inr (set_iceberg_watermark wal max_watermark), cat1))))"

section \<open>The state it restores\<close>

definition acol_pending :: "'n pending_vector \<Rightarrow> 'n acol \<Rightarrow> 'n acol" where
  "acol_pending e = (if pv_is_delete e then acol_delete (pv_id e) else acol_insert (pv_id e) (pv_vector e) (pv_payload e))"

lemma apply_pending_abs:
  assumes inv: "col_inv any_params rt c" and works: "fts_works tv docs"
  shows "col_inv any_params rt (apply_pending rt tv ls c es) \<and> c_name (apply_pending rt tv ls c es) = c_name c \<and>
    abs_col (apply_pending rt tv ls c es) = fold acol_pending es (abs_col c)"
  using inv
proof (induction es arbitrary: c)
  case (Cons e es)
  obtain r c1 where r: "apply_delta_row rt tv (ls (length es)) c (delta_of_pending e) out_of_band_lsn = (r, c1)"
    by (cases "apply_delta_row rt tv (ls (length es)) c (delta_of_pending e) out_of_band_lsn")
  have "col_inv any_params rt c1 \<and> c_name c1 = c_name c \<and> abs_col c1 = acol_pending e (abs_col c)"
  proof (cases "pv_is_delete e")
    case True
    obtain r1 c2 where d: "col_delete tv c (pv_id e) out_of_band_lsn = (r1, c2)" by (cases "col_delete tv c (pv_id e) out_of_band_lsn")
    then have "c1 = c2" using r True by (cases r1) (auto simp: apply_delta_row_def delta_of_pending_def)
    then show ?thesis using abs_col_delete [OF Cons.prems works d] True by (simp add: acol_pending_def)
  next
    case False
    then have "col_insert rt tv (ls (length es)) c (pv_id e) (pv_vector e) (pv_payload e) out_of_band_lsn = (r, c1)"
      using r by (simp add: apply_delta_row_def delta_of_pending_def)
    then show ?thesis using abs_col_insert [OF Cons.prems works] False by (fastforce simp: acol_pending_def)
  qed
  then show ?case using Cons.IH [of c1] r by simp
qed simp

text \<open>The staged rows of a collection and the watermark of its table.\<close>

definition staged_pending :: "'n iceberg_env \<Rightarrow> catalog \<Rightarrow> string \<Rightarrow> 'n pending_vector list" where
  "staged_pending ie cat name = (case cat (staging_table_ident name) of
       None \<Rightarrow> [] | Some t \<Rightarrow> sort_key pv_lsn (List.map_filter (pending_of (ie_serde ie)) (ie_order ie (st_rows t))))"

definition staged_watermark :: "catalog \<Rightarrow> string \<Rightarrow> u64" where
  "staged_watermark cat name = (case cat (staging_table_ident name) of None \<Rightarrow> 0 | Some t \<Rightarrow> read_watermark t)"

definition recovered :: "'n iceberg_env \<Rightarrow> catalog \<Rightarrow> string list \<Rightarrow> 'n astate \<Rightarrow> 'n astate" where
  "recovered ie cat names a = (\<lambda>n. if n \<in> set names then map_option (fold acol_pending (staged_pending ie cat n)) (a n) else a n)"

lemma get_or_create_staged:
  assumes "get_or_create_staging_table True cat name = (r, cat1)" and ord: "\<And>rs. mset (ie_order ie rs) = mset rs"
  shows "\<exists>t. r = Inr t \<and> scan_pending (ie_serde ie) (ie_order ie) True t =
      Inr (staged_pending ie cat name, foldl (\<lambda>m e. max m (pv_lsn e)) 0 (List.map_filter (pending_of (ie_serde ie)) (ie_order ie (st_rows t)))) \<and>
    read_watermark t = staged_watermark cat name \<and>
    (\<forall>n. staged_pending ie cat1 n = staged_pending ie cat n \<and> staged_watermark cat1 n = staged_watermark cat n)"
proof (cases "cat (staging_table_ident name)")
  case (Some t)
  then show ?thesis using assms(1)
    by (auto simp: get_or_create_staging_table_def scan_pending_def staged_pending_def staged_watermark_def Let_def)
next
  case None
  have empty: "ie_order ie [] = []" using ord [of "[]"] by simp
  have zero: "parse_u64 ''0'' = Some 0" by (simp add: parse_u64_def digit_val_def)
  show ?thesis using assms(1) None
    by (auto simp: get_or_create_staging_table_def scan_pending_def staged_pending_def staged_watermark_def
        read_watermark_def Let_def empty zero map_filter_simps)
qed

lemma recover_collections_abs:
  fixes env :: "('n, 't) wal_env" and mgr :: "('n, 't) manager"
  assumes good: "mgr_good env mgr" and env: "env_ok env docs" and ord: "\<And>rs. mset (ie_order ie rs) = mset rs"
    and ok: "\<And>n. ie_table_ok ie n" "\<And>n. ie_scan_ok ie n" and names: "distinct names" "\<forall>n \<in> set names. hm_get mgr n \<noteq> None"
  shows "\<exists>mgr' cat'. recover_collections env ie ls names mgr w cat = (Inr (mgr', foldl (\<lambda>m n. max m (staged_watermark cat n)) w names), cat') \<and>
    mgr_good env mgr' \<and> abs_mgr mgr' = recovered ie cat names (abs_mgr mgr)"
  using good names
proof (induction names arbitrary: mgr w cat)
  case Nil
  then show ?case by (simp add: recovered_def)
next
  case (Cons name names)
  obtain r cat1 where g: "get_or_create_staging_table True cat name = (r, cat1)" by (cases "get_or_create_staging_table True cat name")
  obtain t m0 where t: "r = Inr t" "scan_pending (ie_serde ie) (ie_order ie) True t = Inr (staged_pending ie cat name, m0)"
      "read_watermark t = staged_watermark cat name"
      "\<And>n. staged_pending ie cat1 n = staged_pending ie cat n" "\<And>n. staged_watermark cat1 n = staged_watermark cat n"
    using get_or_create_staged [OF g ord] by blast
  obtain c where c: "hm_get mgr name = Some c" using Cons.prems(3) by auto
  let ?c = "apply_pending (x_rt env) (x_tv env) ls c (staged_pending ie cat name)"
  define mgr1 where "mgr1 = (if staged_pending ie cat name = [] then mgr else hm_insert name ?c mgr)"
  have inv_c: "col_inv any_params (x_rt env) c" "c_name c = name" using Cons.prems(1) c by (auto simp: mgr_inv_def mgr_ok_def)
  have works: "fts_works (x_tv env) docs" using env by (simp add: env_ok_def)
  note ap = apply_pending_abs [OF inv_c(1) works, of ls "staged_pending ie cat name"]
  have good1: "mgr_good env mgr1" using Cons.prems(1) mgr_inv_insert ap inv_c(2) by (auto simp: mgr1_def)
  have get1: "\<forall>n \<in> set names. hm_get mgr1 n \<noteq> None" using Cons.prems(3) by (auto simp: mgr1_def hash_simps)
  have abs1: "abs_mgr mgr1 = (abs_mgr mgr)(name \<mapsto> fold acol_pending (staged_pending ie cat name) (abs_col c))"
    using ap c by (auto simp: mgr1_def abs_mgr_def fun_eq_iff hash_simps)
  have abs_c: "abs_mgr mgr name = Some (abs_col c)" by (simp add: abs_mgr_def c)
  have run: "recover_collections env ie ls (name # names) mgr w cat =
      recover_collections env ie ls names mgr1 (max w (staged_watermark cat name)) cat1"
    using g t c ok by (auto simp: mgr1_def)
  have "recovered ie cat1 names (abs_mgr mgr1) = recovered ie cat (name # names) (abs_mgr mgr)"
    using Cons.prems(2) abs_c by (auto simp: recovered_def fun_eq_iff abs1 t(4))
  moreover have "foldl (\<lambda>m n. max m (staged_watermark cat1 n)) v names = foldl (\<lambda>m n. max m (staged_watermark cat n)) v names" for v
    by (simp add: t(5))
  ultimately show ?case using Cons.IH [OF good1 _ get1, of "max w (staged_watermark cat name)" cat1] Cons.prems(2) run by auto
qed

lemma open_from_state:
  assumes env: "env_ok env docs" and good: "mgr_good env m" and d: "disk_holds env d es"
    and ex: "\<forall>e \<in> set es. 0 < e_lsn e \<longrightarrow> op_exact (e_op e)" and small: "length es < 2 ^ 64"
  shows "\<exists>wm. open_from_iceberg_state env ls True dir d m 0 = Inr wm \<and> mgr_good env (w_inner wm) \<and>
    abs_mgr (w_inner wm) = spec_ops (map e_op (filter (\<lambda>e. 0 < e_lsn e) es)) (abs_mgr m) \<and>
    w_next_lsn wm = last (0 # map e_lsn (filter (\<lambda>e. 0 < e_lsn e) es)) + 1 \<and>
    w_iceberg_watermark wm = 0 \<and> w_unflushed wm = []"
proof -
  let ?rp = "\<lparr>rp_mgr = m, rp_last_lsn = 0, rp_entries = 0, rp_since = 0, rp_report = report_empty\<rparr>"
  obtain rp where rp: "replay_entries env ls 0 dir ?rp es = Inr rp" "mgr_good env (rp_mgr rp)"
      "abs_mgr (rp_mgr rp) = spec_ops (map e_op (filter (\<lambda>e. 0 < e_lsn e) es)) (abs_mgr m)"
      "rp_last_lsn rp = last (0 # map e_lsn (filter (\<lambda>e. 0 < e_lsn e) es))"
    using replay_entries_spec [OF env, of ?rp es 0 ls dir] good ex small by (auto simp: report_empty_def)
  have "replay_path env ls (d_wal d) m 0 dir = Inr rp"
    using d rp(1) by (cases "d_wal d") (auto simp: disk_holds_def replay_path_def replay_wal_def)
  then show ?thesis using rp
    by (simp add: open_from_iceberg_state_def open_from_iceberg_state_with_config_def opened_def)
qed

section \<open>Properties\<close>

lemma open_with_iceberg_state:
  fixes env :: "('n, 't) wal_env" and m :: "('n, 't) manager"
  assumes env: "env_ok env docs" and ord: "\<And>rs. mset (ie_order ie rs) = mset rs"
    and ok: "ie_catalog_ok ie" "\<And>n. ie_table_ok ie n" "\<And>n. ie_scan_ok ie n"
    and load: "load_collection_snapshots (ie_decode ie) (ie_snapshots_ok ie) table = Inr snaps" "snaps \<noteq> []"
    and m: "m = mgr_from_snapshot (x_tv env) \<lparr>ms_collections = snaps, ms_last_lsn = 0\<rparr> None" and good: "mgr_good env m"
    and d: "disk_holds env d es" and ex: "\<forall>e \<in> set es. 0 < e_lsn e \<longrightarrow> op_exact (e_op e)" and small: "length es < 2 ^ 64"
  shows "\<exists>wm cat'. open_with_iceberg env ie ls True dir d table cat = (Inr wm, cat') \<and> mgr_good env (w_inner wm) \<and>
    abs_mgr (w_inner wm) = spec_ops (map e_op (filter (\<lambda>e. 0 < e_lsn e) es)) (recovered ie cat (mgr_list m) (abs_mgr m)) \<and>
    w_next_lsn wm = last (0 # map e_lsn (filter (\<lambda>e. 0 < e_lsn e) es)) + 1 \<and> w_unflushed wm = [] \<and>
    w_iceberg_watermark wm = Max (insert 0 (staged_watermark cat ` set (mgr_list m)))"
proof -
  have names: "distinct (mgr_list m)" "set (mgr_list m) = fst ` set m"
    using good by (auto simp: mgr_list_def mgr_inv_def mgr_ok_def hm_ok_def)
  have dom: "\<forall>n \<in> set (mgr_list m). hm_get m n \<noteq> None" by (auto simp: names(2) map_of_eq_None_iff)
  have max: "foldl (\<lambda>m n. max m (f n)) w ns = Max (insert w (f ` set ns))" for f :: "string \<Rightarrow> u64" and w ns
  proof (induction ns arbitrary: w)
    case (Cons n ns)
    then show ?case by (cases "ns = []") (simp_all add: max.assoc)
  qed simp
  obtain mgr' cat' where rec: "recover_collections env ie ls (mgr_list m) m 0 cat = (Inr (mgr', foldl (\<lambda>m n. max m (staged_watermark cat n)) 0 (mgr_list m)), cat')"
      "mgr_good env mgr'" "abs_mgr mgr' = recovered ie cat (mgr_list m) (abs_mgr m)"
    using recover_collections_abs [OF good env ord ok(2,3) names(1) dom, of ls 0 cat] by blast
  obtain wm where wm: "open_from_iceberg_state env ls True dir d mgr' 0 = Inr wm" "mgr_good env (w_inner wm)"
      "abs_mgr (w_inner wm) = spec_ops (map e_op (filter (\<lambda>e. 0 < e_lsn e) es)) (abs_mgr mgr')"
      "w_next_lsn wm = last (0 # map e_lsn (filter (\<lambda>e. 0 < e_lsn e) es)) + 1" "w_iceberg_watermark wm = 0" "w_unflushed wm = []"
    using open_from_state [OF env rec(2) d ex small, of ls dir] by blast
  let ?w = "Max (insert 0 (staged_watermark cat ` set (mgr_list m)))"
  have run: "open_with_iceberg env ie ls True dir d table cat = (Inr (set_iceberg_watermark wm ?w), cat')"
    using ok(1) load rec(1) wm(1) by (simp add: open_with_iceberg_def Let_def max flip: m)
  have "w_iceberg_watermark (set_iceberg_watermark wm ?w) = ?w" "w_unflushed (set_iceberg_watermark wm ?w) = []"
    using wm(5,6) by (auto simp: set_iceberg_watermark_def word_gt_0)
  then show ?thesis using run wm(2-4) rec(3) watermark_frame [of wm ?w] by auto
qed

text \<open>C34. Opening from Iceberg restores the latest index snapshots, applies to every collection the rows staged for it,
  in log order, and then replays the whole log on the result, whatever part of it the tables hold already.\<close>

theorem iceberg_recovery_state:
  fixes env :: "('n, 't) wal_env" and m :: "('n, 't) manager"
  assumes env: "env_ok env docs" and ord: "\<And>rs. mset (ie_order ie rs) = mset rs"
    and ok: "ie_catalog_ok ie" "\<And>n. ie_table_ok ie n" "\<And>n. ie_scan_ok ie n"
    and load: "load_collection_snapshots (ie_decode ie) (ie_snapshots_ok ie) table = Inr snaps" "snaps \<noteq> []"
    and m: "m = mgr_from_snapshot (x_tv env) \<lparr>ms_collections = snaps, ms_last_lsn = 0\<rparr> None" and good: "mgr_good env m"
    and d: "disk_holds env d es" and ex: "\<forall>e \<in> set es. 0 < e_lsn e \<longrightarrow> op_exact (e_op e)" and small: "length es < 2 ^ 64"
  shows "\<exists>wm cat'. open_with_iceberg env ie ls True dir d table cat = (Inr wm, cat') \<and>
    abs_mgr (w_inner wm) = spec_ops (map e_op (filter (\<lambda>e. 0 < e_lsn e) es))
      (\<lambda>n. map_option (fold acol_pending (staged_pending ie cat n)) (abs_mgr m n))"
proof -
  have "set (mgr_list m) = fst ` set m" by (simp add: mgr_list_def)
  moreover have "abs_mgr m n = None" if "n \<notin> fst ` set m" for n using that by (simp add: abs_mgr_None map_of_eq_None_iff)
  ultimately have "recovered ie cat (mgr_list m) (abs_mgr m) = (\<lambda>n. map_option (fold acol_pending (staged_pending ie cat n)) (abs_mgr m n))"
    by (auto simp: recovered_def fun_eq_iff)
  then show ?thesis using open_with_iceberg_state [OF assms, of ls dir cat] by auto
qed

lemma maybe_checkpoint_queue:
  "maybe_checkpoint env ck wm = (r, wm') \<Longrightarrow> w_unflushed wm' = w_unflushed wm \<and> w_iceberg_watermark wm' = w_iceberg_watermark wm"
  by (auto simp: maybe_checkpoint_def checkpoint_def Let_def split: if_splits option.splits prod.splits)

text \<open>What an operation adds to the queue, whatever happens to it.\<close>

lemma log_and_apply_queue:
  assumes "log_and_apply env io ck wm opn f = (r, wm')"
  shows "w_iceberg_watermark wm' = w_iceberg_watermark wm \<and>
    (w_unflushed wm' = w_unflushed wm \<or> (\<exists>p. w_unflushed wm' = w_unflushed wm @ [(w_next_lsn wm, p)]))"
proof -
  let ?e = "wal_entry_new (w_next_lsn wm) opn"
  obtain a w where app: "append_entry (x_lib env) (x_bin env) io (w_wal wm) ?e = (a, w)"
    by (cases "append_entry (x_lib env) (x_bin env) io (w_wal wm) ?e")
  show ?thesis
  proof (cases a)
    case (Inl e)
    then show ?thesis using assms app by (auto simp: log_and_apply_def Let_def)
  next
    case (Inr p)
    define wm2 where "wm2 = record_append env (wm\<lparr>w_wal := w\<rparr>) ?e"
    obtain q mgr where q: "f (w_inner wm2) = (q, mgr)" by (cases "f (w_inner wm2)")
    obtain r4 wm4 where m: "maybe_checkpoint env ck (wm2\<lparr>w_inner := mgr\<rparr>) = (r4, wm4)" by (cases "maybe_checkpoint env ck (wm2\<lparr>w_inner := mgr\<rparr>)")
    have "wm' = wm2\<lparr>w_inner := mgr\<rparr> \<or> wm' = wm4"
      using assms app Inr q m by (cases q; cases r4) (auto simp: log_and_apply_def Let_def simp flip: wm2_def)
    moreover have "w_iceberg_watermark wm2 = w_iceberg_watermark wm \<and>
        (w_unflushed wm2 = w_unflushed wm \<or> (\<exists>p. w_unflushed wm2 = w_unflushed wm @ [(w_next_lsn wm, p)]))"
      by (auto simp: wm2_def record_append_def wal_entry_new_def split: option.split)
    ultimately show ?thesis using maybe_checkpoint_queue [OF m] by auto
  qed
qed

text \<open>After the flusher has rewritten the log to nothing, opening from Iceberg numbers new entries from one again,
  below the watermark of the staging tables. Such an entry never counts as waiting, so the row of an acknowledged
  insert is not staged, and a later rewrite of the log drops it.\<close>

theorem iceberg_positions_restart:
  fixes env :: "('n, 't) wal_env" and m :: "('n, 't) manager"
  assumes env: "env_ok env docs" and ord: "\<And>rs. mset (ie_order ie rs) = mset rs"
    and ok: "ie_catalog_ok ie" "\<And>n. ie_table_ok ie n" "\<And>n. ie_scan_ok ie n"
    and load: "load_collection_snapshots (ie_decode ie) (ie_snapshots_ok ie) table = Inr snaps" "snaps \<noteq> []"
    and m: "m = mgr_from_snapshot (x_tv env) \<lparr>ms_collections = snaps, ms_last_lsn = 0\<rparr> None" and good: "mgr_good env m"
    and d: "disk_holds env d []" and staged: "hm_get m c \<noteq> None" "0 < staged_watermark cat c"
  shows "\<exists>wm cat'. open_with_iceberg env ie ls True dir d table cat = (Inr wm, cat') \<and> w_next_lsn wm = 1 \<and>
    (\<forall>io ck l y v p. collect_unflushed env (snd (wal_insert env io ck l wm c y v p)) = [])"
proof -
  obtain wm cat' where wm: "open_with_iceberg env ie ls True dir d table cat = (Inr wm, cat')" "w_next_lsn wm = 1" "w_unflushed wm = []"
      "w_iceberg_watermark wm = Max (insert 0 (staged_watermark cat ` set (mgr_list m)))"
    using open_with_iceberg_state [OF env ord ok load m good d, of ls dir cat] by auto
  have "c \<in> set (mgr_list m)" using staged(1) map_of_eq_None_iff [of m c] by (simp add: mgr_list_def)
  then have "staged_watermark cat c \<le> w_iceberg_watermark wm" unfolding wm(4) by (intro Max_ge) auto
  then have pos: "1 \<le> w_iceberg_watermark wm" using staged(2) by (simp add: word_le_nat_alt word_less_nat_alt)
  have "collect_unflushed env (snd (wal_insert env io ck l wm c y v p)) = []" for io ck l y v p
  proof -
    obtain r wm' where i: "wal_insert env io ck l wm c y v p = (r, wm')" by (cases "wal_insert env io ck l wm c y v p")
    have "w_iceberg_watermark wm' = w_iceberg_watermark wm \<and> (w_unflushed wm' = [] \<or> (\<exists>p. w_unflushed wm' = [(1, p)]))"
      using log_and_apply_queue [OF i [unfolded wal_insert_def Let_def]] wm(2,3) by simp
    then show ?thesis using pos by (auto simp: i collect_unflushed_def map_filter_simps not_less)
  qed
  then show ?thesis using wm(1,2) by blast
qed

section \<open>A snapshot with a staged row\<close>

definition col_example :: "(f64, (vecid \<times> string) list) collection" where
  "col_example = collection_new ''c'' 1 L2"

definition iceberg_example :: "f64 iceberg_env" where
  "iceberg_example = \<lparr>ie_catalog_ok = True, ie_decode = \<lambda>b. if b = [] then Some (col_to_snapshot col_example) else None,
     ie_snapshots_ok = True, ie_serde = tiny_serde, ie_order = (\<lambda>rs. rs), ie_table_ok = (\<lambda>_. True), ie_scan_ok = (\<lambda>_. True)\<rparr>"

definition snapshots_example :: "snapshot_row list option" where
  "snapshots_example = Some [\<lparr>sn_collection_name = ''c'', sn_snapshot_blob = [], sn_written_at_ms = 0\<rparr>]"

definition catalog_example :: catalog where
  "catalog_example = [staging_table_ident ''c'' \<mapsto>
     \<lparr>st_rows = [stored_row_of tiny_serde 0 \<lparr>sr_id = 7, sr_vector = [0], sr_payload = None, sr_lsn = 3, sr_is_tombstone = False\<rparr>],
      st_properties = [STAGING_WATERMARK_PROP \<mapsto> show_nat 3]\<rparr>]"

definition manager_example :: "(f64, (vecid \<times> string) list) manager" where
  "manager_example = mgr_from_snapshot list_engine \<lparr>ms_collections = [col_to_snapshot col_example], ms_last_lsn = 0\<rparr> None"

lemma manager_example_ok:
  "mgr_inv any_params plain_rt manager_example \<and> abs_mgr manager_example = [''c'' \<mapsto> new_acol 1 L2 KFlat]"
proof -
  have col: "col_inv any_params plain_rt col_example \<and> abs_col col_example = new_acol 1 L2 KFlat \<and> c_name col_example = ''c''"
    unfolding col_example_def collection_new_def using flat_new_ok [of 1 L2]
    by (intro new_col_ok) (simp_all add: any_inv_def flat_inv_def plain_rt_ok ix_dim_def ix_get_def ix_type_def kind_type_def
      stores_exactly_def flat_new_def)
  let ?mgr = "hm_insert ''c'' col_example manager_new"
  have good: "mgr_inv any_params plain_rt ?mgr" using col by (intro mgr_inv_insert mgr_inv_new) simp_all
  have "mgr_to_snapshot_with_lsn (\<lambda>ns. ns) ?mgr 0 = \<lparr>ms_collections = [col_to_snapshot col_example], ms_last_lsn = 0\<rparr>"
    by (simp add: mgr_to_snapshot_with_lsn_def hm_insert_def manager_new_def)
  then show ?thesis
    using snapshot_abs [where ord = "\<lambda>ns. ns" and lsn = 0 and dir = None and tv = list_engine, OF good] col
    by (simp add: manager_example_def)
qed

lemma example_loads:
  "load_collection_snapshots (ie_decode iceberg_example) (ie_snapshots_ok iceberg_example) snapshots_example = Inr [col_to_snapshot col_example]"
  by (simp add: load_collection_snapshots_def iceberg_example_def snapshots_example_def hm_insert_def)

lemma manager_example_env:
  "manager_example = mgr_from_snapshot (x_tv (tiny_env [])) \<lparr>ms_collections = [col_to_snapshot col_example], ms_last_lsn = 0\<rparr> None"
  "mgr_good (tiny_env []) manager_example"
  using manager_example_ok by (simp_all add: manager_example_def tiny_env_def)

theorem iceberg_recovery_state_witness:
  "\<exists>wm cat'. open_with_iceberg (tiny_env []) iceberg_example (\<lambda>_. 0) True ''d'' \<lparr>d_snapshot = None, d_wal = None\<rparr> snapshots_example catalog_example =
      (Inr wm, cat') \<and> map_option (\<lambda>x. a_vecs x 7) (abs_mgr (w_inner wm) ''c'') = Some (Some [0])"
proof -
  have env: "env_ok (tiny_env []) map_of" by (rule tiny_env_ok) simp
  have d: "disk_holds (tiny_env []) \<lparr>d_snapshot = None, d_wal = None\<rparr> []" by (simp add: disk_holds_def)
  let ?r = "\<lparr>sr_id = 7, sr_vector = [0], sr_payload = None, sr_lsn = 3, sr_is_tombstone = False\<rparr> :: f64 staging_row"
  have "row_textual tiny_serde ?r" by (simp add: row_textual_def tiny_serde_def)
  then have "staged_pending iceberg_example catalog_example ''c'' = [pending_row ?r]"
    using pending_of_stored [of tiny_serde ?r 0]
    by (simp add: staged_pending_def catalog_example_def iceberg_example_def map_filter_simps)
  moreover obtain wm cat' where "open_with_iceberg (tiny_env []) iceberg_example (\<lambda>_. 0) True ''d'' \<lparr>d_snapshot = None, d_wal = None\<rparr> snapshots_example catalog_example = (Inr wm, cat')"
      "abs_mgr (w_inner wm) = (\<lambda>n. map_option (fold acol_pending (staged_pending iceberg_example catalog_example n)) (abs_mgr manager_example n))"
    using iceberg_recovery_state [OF env _ _ _ _ example_loads _ manager_example_env d, of "\<lambda>_. 0" "''d''" catalog_example]
    by (auto simp: iceberg_example_def)
  ultimately show ?thesis
    by (simp add: manager_example_ok acol_pending_def pending_row_def acol_insert_def new_acol_def unsigned_zero_def)
qed

theorem iceberg_positions_restart_witness:
  "\<exists>wm cat'. open_with_iceberg (tiny_env []) iceberg_example (\<lambda>_. 0) True ''d'' \<lparr>d_snapshot = None, d_wal = None\<rparr> snapshots_example catalog_example =
      (Inr wm, cat') \<and> w_next_lsn wm = 1 \<and>
    collect_unflushed (tiny_env []) (snd (wal_insert (tiny_env []) IoOk CkOk 0 wm ''c'' 8 [0] None)) = []"
proof -
  have env: "env_ok (tiny_env []) map_of" by (rule tiny_env_ok) simp
  have d: "disk_holds (tiny_env []) \<lparr>d_snapshot = None, d_wal = None\<rparr> []" by (simp add: disk_holds_def)
  have "abs_mgr manager_example ''c'' \<noteq> None" using manager_example_ok by simp
  then have c: "hm_get manager_example ''c'' \<noteq> None" by (simp add: abs_mgr_None)
  have "staged_watermark catalog_example ''c'' = 3"
    using parse_u64_show [of 3] by (simp add: staged_watermark_def catalog_example_def read_watermark_def)
  then have w: "0 < staged_watermark catalog_example ''c''" by simp
  show ?thesis
    using iceberg_positions_restart [OF env _ _ _ _ example_loads _ manager_example_env d c w, of "\<lambda>_. 0" "''d''"]
    by (auto simp: iceberg_example_def)
qed

end
