(* ===== verification/Startup.thy ===== *)
theory Startup
  imports Session IcebergRecovery
begin

text \<open>
  The server process: the shared state (\<open>state.rs\<close>), and what \<open>main.rs\<close> does when it starts and stops. Environment
  variables and command line are arguments. Signals, listeners and the runtime are left out.
\<close>

section \<open>The shared state\<close>

record ('n, 't, 's) app_state =
  as_inner :: "('n, 't) wal_manager"
  as_pipeline :: "'s pipeline option"

definition app_state_new :: "('n, 't) wal_manager \<Rightarrow> ('n, 't, 's) app_state" where
  "app_state_new wal = \<lparr>as_inner = wal, as_pipeline = None\<rparr>"

definition app_with_pipeline :: "('n, 't, 's) app_state \<Rightarrow> 's pipeline \<Rightarrow> ('n, 't, 's) app_state" where
  "app_with_pipeline state p = state\<lparr>as_pipeline := Some p\<rparr>"

text \<open>One tick of \<open>spawn_checkpoint_task\<close>; a failure is only counted.\<close>

definition checkpoint_tick :: "('n, 't) wal_env \<Rightarrow> ck_io \<Rightarrow> ('n, 't) wal_manager \<Rightarrow> ('n, 't) wal_manager" where
  "checkpoint_tick env ck wm = snd (checkpoint env ck wm)"

section \<open>Start\<close>

definition var_or :: "(string \<Rightarrow> string option) \<Rightarrow> string \<Rightarrow> string \<Rightarrow> string" where
  "var_or vars key d = (case vars key of Some s \<Rightarrow> s | None \<Rightarrow> d)"

definition data_dir :: "string list \<Rightarrow> string" where
  "data_dir args = (if 1 < length args then args ! 1 else ''data'')"

text \<open>The variable of the catalog decides whether the server works with Iceberg.\<close>

definition iceberg_config_from_env :: "(string \<Rightarrow> string option) \<Rightarrow> iceberg_config option" where
  "iceberg_config_from_env vars = map_option (\<lambda>catalog_uri.
     \<lparr>ic_catalog_uri = catalog_uri, ic_s3_endpoint = var_or vars ''S3_ENDPOINT'' [],
      ic_access_key = var_or vars ''AWS_ACCESS_KEY_ID'' [], ic_secret_key = var_or vars ''AWS_SECRET_ACCESS_KEY'' [],
      ic_region = var_or vars ''AWS_DEFAULT_REGION'' ''us-east-1'', ic_warehouse = var_or vars ''ICEBERG_WAREHOUSE'' [],
      ic_extra_properties = []\<rparr>) (vars ''ICEBERG_CATALOG_URI'')"

definition iceberg_namespace :: "(string \<Rightarrow> string option) \<Rightarrow> string" where
  "iceberg_namespace vars = var_or vars ''ICEBERG_NAMESPACE'' ''likhadb''"

text \<open>\<open>lake\<close>: the lakehouse behind a configuration and a namespace, with the rows of its table of index snapshots. The
  process exits on an error.\<close>

definition open_store ::
  "('n, 't) wal_env \<Rightarrow> (iceberg_config \<Rightarrow> string \<Rightarrow> 'n iceberg_env \<times> snapshot_row list option) \<Rightarrow> (nat \<Rightarrow> nat) \<Rightarrow> bool \<Rightarrow>
     (string \<Rightarrow> string option) \<Rightarrow> string list \<Rightarrow> disk \<Rightarrow> catalog \<Rightarrow> (recovery_error + ('n, 't) wal_manager) \<times> catalog"
where
  "open_store env lake ls io_ok vars args d cat = (case iceberg_config_from_env vars of
       Some config \<Rightarrow> (case lake config (iceberg_namespace vars) of (ie, table) \<Rightarrow>
         open_with_iceberg env ie ls io_ok (data_dir args) d table cat)
     | None \<Rightarrow> (map_sum RPersist id (wal_open env ls io_ok (data_dir args) d), cat))"

definition attach_pipeline ::
  "(iceberg_config \<Rightarrow> 's pipeline option) \<Rightarrow> (string \<Rightarrow> string option) \<Rightarrow> ('n, 't, 's) app_state \<Rightarrow> ('n, 't, 's) app_state"
where
  "attach_pipeline try_build vars state = (case iceberg_config_from_env vars of
       None \<Rightarrow> state
     | Some config \<Rightarrow> (case try_build config of Some p \<Rightarrow> app_with_pipeline state p | None \<Rightarrow> state))"

datatype background_task = MaintenanceTask | FlusherTask | CheckpointTask nat

text \<open>\<open>None\<close>: the catalog of the maintenance task cannot be built and the process exits.\<close>

definition background_tasks :: "(iceberg_config \<Rightarrow> bool) \<Rightarrow> (string \<Rightarrow> string option) \<Rightarrow> background_task list option" where
  "background_tasks catalog_ok vars = (case iceberg_config_from_env vars of
       None \<Rightarrow> Some [CheckpointTask 300]
     | Some config \<Rightarrow> if catalog_ok config then Some [MaintenanceTask, FlusherTask, CheckpointTask 300] else None)"

section \<open>Stop\<close>

text \<open>After a signal the servers are drained and a last checkpoint is taken; when a server fails the process just exits.\<close>

definition shut_down :: "('n, 't) wal_env \<Rightarrow> ck_io \<Rightarrow> bool \<Rightarrow> ('n, 't) wal_manager \<Rightarrow> (persist_error + unit) option \<times> ('n, 't) wal_manager" where
  "shut_down env ck graceful wm = (if graceful then map_prod Some id (checkpoint env ck wm) else (None, wm))"

text \<open>Without the variable of the catalog the server works on its own directory.\<close>

lemma open_store_local:
  "vars ''ICEBERG_CATALOG_URI'' = None \<Longrightarrow>
    open_store env lake ls io_ok vars args d cat = (map_sum RPersist id (wal_open env ls io_ok (data_dir args) d), cat)"
  by (simp add: open_store_def iceberg_config_from_env_def)

end
