(* ===== verification/System.thy ===== *)
theory System
  imports Grpc Maintenance Startup
begin

text \<open>
  The running server: the HTTP and gRPC requests, the flusher, the periodic checkpoint and the maintenance task take turns on
  the store behind its lock. What one of them relies on when it finds a collection is a contract that all the others keep.
\<close>

section \<open>The contract of a collection\<close>

text \<open>\<open>ok\<close> is what every operation may expect of a collection and leaves behind: no operation panics then.\<close>

locale collection_law =
  fixes ok :: "('n, 't) collection \<Rightarrow> bool"
  assumes new_flat: "0 < d \<Longrightarrow> ok (collection_new name d m)"
    and new_ivf: "ivf_new d m nlist nprobe = Inr a \<Longrightarrow> ok (collection_with_index name d m (IvfIndex a))"
    and new_ivf_sq8: "ivf_new_sq8 d m nlist nprobe = Inr a \<Longrightarrow> ok (collection_with_index name d m (IvfIndex a))"
    and new_hnsw: "hnsw_new d m edges efc efs = Inr b \<Longrightarrow> ok (collection_with_index name d m (HnswIndex b))"
    and insert: "rt_ok rt \<Longrightarrow> ok c \<Longrightarrow> col_insert rt tv l c y v p lsn = (r, c') \<Longrightarrow> ok c' \<and> r \<noteq> Inl Panicked"
    and delete: "ok c \<Longrightarrow> col_delete tv c y lsn = (q, c') \<Longrightarrow> ok c' \<and> q \<noteq> Inl Panicked"
    and fts: "ok c \<Longrightarrow> col_enable_fts tv c dir = (r, c') \<Longrightarrow> ok c' \<and> r \<noteq> Inl Panicked"
    and bound: "ok c \<Longrightarrow> ok (c\<lparr>c_source_binding := binding\<rparr>)"
    and sourced: "ok c \<Longrightarrow> ok (c\<lparr>c_source_snapshot_id := i\<rparr>)"
    and search: "rt_ok rt \<Longrightarrow> ok c \<Longrightarrow> col_search rt num c qv k f incl \<noteq> Inl Panicked"
    and hybrid: "rt_ok rt \<Longrightarrow> ok c \<Longrightarrow> hybrid_search rt tv num c qv t k rrf_k f incl \<noteq> Inl Panicked"

text \<open>The maintenance task relies on more: an index that was built in the background may replace the collection's.\<close>

locale upkeep_law = collection_law ok for ok :: "('n, 't) collection \<Rightarrow> bool" +
  fixes built :: "any_index \<Rightarrow> bool"
  assumes compact: "rt_ok rt \<Longrightarrow> ok c \<Longrightarrow> compact_ivf_index rt ls c = (q, c') \<Longrightarrow> ok c' \<and> q \<noteq> Inl Panicked"
    and prepare: "ok c \<Longrightarrow> prepare_index_compaction c th = (z, c') \<Longrightarrow> ok c' \<and>
      (\<forall>e. z \<noteq> Some (Inl e)) \<and> (\<forall>p. z = Some (Inr p) \<longrightarrow> (\<forall>rt' ls. rt_ok rt' \<longrightarrow> (\<exists>s. prepared_build rt' ls p = Inr s \<and> built s)))"
    and finish: "rt_ok rt \<Longrightarrow> ok c \<Longrightarrow> built s \<Longrightarrow> finish_index_compaction rt ls c s = (q, c') \<Longrightarrow> ok c' \<and> q \<noteq> Inl Panicked"
    and cancel: "ok c \<Longrightarrow> ok (cancel_index_compaction c)"

section \<open>The models keep it\<close>

text \<open>The invariants do not depend on the schedule.\<close>

lemma any_inv_rt: "any_inv P rt ix \<longleftrightarrow> rt_ok rt \<and> any_inv P plain_rt ix"
  using plain_rt_ok by (cases ix) (auto simp: any_inv_def flat_inv_def ivf_inv_def hnsw_inv_def)

abbreviation index_ok :: "any_index \<Rightarrow> bool" where
  "index_ok \<equiv> any_inv any_params plain_rt"

lemma and_then_panic:
  "fst m \<noteq> Inl Panicked \<Longrightarrow> (\<And>x s. fst (f x s) \<noteq> Inl Panicked) \<Longrightarrow> fst (and_then m f) \<noteq> Inl Panicked"
  by (cases m; cases "fst m") auto

lemma tv_step_panic: "fst (tv_step s r) \<noteq> Inl Panicked"
  by (simp add: tv_step_def)

lemma fts_set_lsn_panic: "fst (fts_set_lsn tv s lsn) \<noteq> Inl Panicked"
  by (simp add: fts_set_lsn_def split: option.split prod.split bool.split)

lemma fts_upsert_panic: "fst (fts_upsert tv s y p lsn) \<noteq> Inl Panicked"
  by (simp add: fts_upsert_def Let_def fts_index_document_def and_then_panic tv_step_panic fts_set_lsn_panic)

lemma fts_remove_panic: "fst (fts_remove tv s y lsn) \<noteq> Inl Panicked"
  by (simp add: fts_remove_def fts_delete_document_def and_then_panic tv_step_panic fts_set_lsn_panic)

lemma on_fts_panic: "(\<And>s. fst (step s) \<noteq> Inl Panicked) \<Longrightarrow> fst (on_fts step c) \<noteq> Inl Panicked"
  by (simp add: on_fts_def split: option.split)

lemma apply_insert_payload_panic: "fst (apply_insert_payload tv c y payload lsn) \<noteq> Inl Panicked"
  by (simp add: apply_insert_payload_def and_then_panic on_fts_panic fts_upsert_panic split: option.split)

lemma on_fts_index: "c_index (snd (on_fts step c)) = c_index c"
  by (simp add: on_fts_def split: option.split prod.split)

lemma apply_insert_payload_index: "c_index (snd (apply_insert_payload tv c y payload lsn)) = c_index c"
proof (cases payload)
  case (Some p)
  obtain r c1 where o: "on_fts (\<lambda>s. fts_upsert tv s y p lsn) c = (r, c1)" by (cases "on_fts (\<lambda>s. fts_upsert tv s y p lsn) c")
  then show ?thesis using on_fts_index [of "\<lambda>s. fts_upsert tv s y p lsn" c] Some by (cases r) (simp_all add: apply_insert_payload_def)
qed (simp add: apply_insert_payload_def)

lemma ix_insert_law:
  assumes "rt_ok rt" "index_ok ix"
  shows "case ix_insert rt l ix y v of Inl e \<Rightarrow> e \<noteq> Panicked | Inr s \<Rightarrow> index_ok s"
proof -
  have ok: "any_inv any_params rt ix" using assms any_inv_rt by blast
  show ?thesis
  proof (cases "ix_insert rt l ix y v")
    case (Inl e)
    then show ?thesis using any.insert_cases [OF ok, of v l y] by auto
  next
    case (Inr s)
    have "index_ok s" using any.insert_ok [OF ok Inr] any_inv_rt by blast
    then show ?thesis using Inr by simp
  qed
qed

lemma col_insert_law:
  assumes "rt_ok rt" "index_ok (c_index c)" "col_insert rt tv l c y v p lsn = (r, c')"
  shows "index_ok (c_index c') \<and> r \<noteq> Inl Panicked"
proof (cases "ix_insert rt l (c_index c) y v")
  case (Inl e)
  then show ?thesis using ix_insert_law [OF assms(1,2), of l y v] assms(2,3) by (auto simp: col_insert_def)
next
  case (Inr ix)
  let ?c = "journal_push [MUpsert y v] (c\<lparr>c_index := ix\<rparr>)"
  have "apply_insert_payload tv ?c y p lsn = (r, c')" using assms(3) Inr by (simp add: col_insert_def)
  then have "c_index c' = ix" "r \<noteq> Inl Panicked"
    using apply_insert_payload_index [of tv ?c y p lsn] apply_insert_payload_panic [of tv ?c y p lsn]
    by (simp_all add: journal_push_def)
  then show ?thesis using ix_insert_law [OF assms(1,2), of l y v] Inr by simp
qed

lemma col_delete_law:
  assumes "index_ok (c_index c)" "col_delete tv c y lsn = (q, c')"
  shows "index_ok (c_index c') \<and> q \<noteq> Inl Panicked"
proof -
  obtain b ix where d: "ix_delete (c_index c) y = (b, ix)" by (cases "ix_delete (c_index c) y")
  have ix: "index_ok ix" using any.delete_ok [OF assms(1) d] by simp
  define c2 where "c2 = (let c1 = (if b then journal_push [MDelete y] (c\<lparr>c_index := ix\<rparr>) else c\<lparr>c_index := ix\<rparr>)
    in c1\<lparr>c_meta := snd (meta_remove (c_meta c1) y)\<rparr>)"
  have c2: "c_index c2 = ix" by (simp add: c2_def Let_def journal_push_def)
  have "(q, c') = and_then (on_fts (\<lambda>s. fts_remove tv s y lsn) c2) (\<lambda>_ c3. (Inr b, c3))"
    using assms(2) by (simp add: col_delete_def d Let_def c2_def)
  moreover have "fst (on_fts (\<lambda>s. fts_remove tv s y lsn) c2) \<noteq> Inl Panicked" by (simp add: on_fts_panic fts_remove_panic)
  ultimately show ?thesis using c2 ix on_fts_index [of "\<lambda>s. fts_remove tv s y lsn" c2]
    by (auto simp: and_then_def split: prod.splits sum.splits)
qed

lemma ix_search_law:
  assumes "rt_ok rt" "index_ok ix"
  shows "ix_search rt ix q k f \<noteq> (Inl Panicked :: db_error + 'p scored_result list)"
proof -
  have ok: "any_inv any_params rt ix" using assms any_inv_rt by blast
  show ?thesis
  proof (cases "length q = ix_dim ix")
    case True
    then obtain rs :: "'p scored_result list" where "ix_search rt ix q k f = Inr rs" using any.search_ok [OF ok, of q k f] by blast
    then show ?thesis by simp
  next
    case False
    then have "ix_search rt ix q k f = (Inl (DimMismatch (ix_dim ix) (length q)) :: db_error + 'p scored_result list)"
      by (rule any.search_mismatch)
    then show ?thesis by simp
  qed
qed

lemma col_search_law: "rt_ok rt \<Longrightarrow> index_ok (c_index c) \<Longrightarrow> col_search rt num c q k f incl \<noteq> Inl Panicked"
  using ix_search_law by (fastforce simp: col_search_def map_sum_def split: sum.splits)

lemma hybrid_search_law:
  assumes "rt_ok rt" "index_ok (c_index c)"
  shows "hybrid_search rt tv num c q t k rrf_k f incl \<noteq> Inl Panicked"
proof -
  have "col_fts_search tv c t n \<noteq> Inl Panicked" for n
    by (simp add: col_fts_search_def fts_search_docs_def split: option.split)
  then show ?thesis using col_search_law [OF assms]
    by (auto simp: hybrid_search_def Let_def split: sum.splits)
qed

lemma col_enable_fts_law:
  assumes "index_ok (c_index c)" "col_enable_fts tv c dir = (r, c')"
  shows "index_ok (c_index c') \<and> r \<noteq> Inl Panicked"
  using assms by (auto simp: col_enable_fts_def fts_open_or_create_def fts_new_def Let_def split: option.splits sum.splits)

lemma replay_journal_law:
  assumes "rt_ok rt" "index_ok ix"
  shows "case replay_journal rt ls ix ms of Inl e \<Rightarrow> e \<noteq> Panicked | Inr s \<Rightarrow> index_ok s"
  using assms(2)
proof (induction ms arbitrary: ix)
  case (Cons m ms)
  show ?case
  proof (cases m)
    case (MUpsert y v)
    then show ?thesis using ix_insert_law [OF assms(1) Cons.prems, of "ls (length ms)" y v] Cons.IH
      by (cases "ix_insert rt (ls (length ms)) ix y v") auto
  next
    case (MDelete y)
    have "index_ok (snd (ix_delete ix y))" using any.delete_ok [OF Cons.prems, of y] by (cases "ix_delete ix y") auto
    then show ?thesis using Cons.IH MDelete by simp
  qed
qed simp

lemma compact_ivf_law:
  assumes "rt_ok rt" "index_ok (c_index c)" "compact_ivf_index rt ls c = (q, c')"
  shows "index_ok (c_index c') \<and> q \<noteq> Inl Panicked"
proof (cases "\<exists>s. c_index c = IvfIndex s \<and> ivf_trained s")
  case True
  then obtain s where s: "c_index c = IvfIndex s" "ivf_ok s" "ivf_trained s" using assms(2) by (auto simp: any_inv_def ivf_inv_def)
  obtain t where "ivf_compact rt s = Some (Inr t)" "ivf_ok t" using ivf_compact_ok [OF assms(1) s(2,3)] by blast
  then show ?thesis using assms(3) s(1) plain_rt_ok
    by (auto simp: compact_ivf_index_def ix_compact_def ix_type_def any_inv_def ivf_inv_def)
next
  case False
  then have "q = Inr False \<and> c' = c" using assms(3)
    by (cases "c_index c") (auto simp: compact_ivf_index_def ix_compact_def ix_type_def ivf_compact_def)
  then show ?thesis using assms(2) by simp
qed

lemma prepare_law:
  assumes "index_ok (c_index c)" "prepare_index_compaction c th = (z, c')"
  shows "index_ok (c_index c') \<and> (\<forall>e. z \<noteq> Some (Inl e)) \<and>
    (\<forall>p. z = Some (Inr p) \<longrightarrow> (\<forall>rt' ls. rt_ok rt' \<longrightarrow> (\<exists>s. prepared_build rt' ls p = Inr s \<and> index_ok s)))"
proof -
  have c': "c_index c' = c_index c" "z = None \<or> z = ix_prepare_compaction (c_index c)"
    using assms(2) by (auto simp: prepare_index_compaction_def split: if_splits option.splits sum.splits)
  have "\<exists>p. r = Inr p" if "ix_prepare_compaction (c_index c) = Some r" for r
    using prepare_compaction_ok [OF assms(1) that] by blast
  moreover have "\<exists>s. prepared_build rt' ls p = Inr s \<and> index_ok s"
    if "ix_prepare_compaction (c_index c) = Some (Inr p)" "rt_ok rt'" for p rt' ls
  proof -
    have "any_inv any_params rt' (c_index c)" using assms(1) that(2) any_inv_rt by blast
    from prepared_build_ok [OF this that(1), of ls] show ?thesis using any_inv_rt by blast
  qed
  ultimately show ?thesis using assms(1) c' by fastforce
qed

lemma finish_law:
  assumes "rt_ok rt" "index_ok (c_index c)" "index_ok s" "finish_index_compaction rt ls c s = (q, c')"
  shows "index_ok (c_index c') \<and> q \<noteq> Inl Panicked"
proof (cases "c_journal c")
  case (Some ms)
  then show ?thesis using replay_journal_law [OF assms(1,3), of ls ms] assms(2,4)
    by (auto simp: finish_index_compaction_def split: sum.splits)
qed (use assms(2,4) in \<open>auto simp: finish_index_compaction_def\<close>)

lemma new_flat_law: "0 < d \<Longrightarrow> index_ok (FlatIndex (flat_new d m))"
proof -
  have "flat_dim (flat_new d m) = d" by (simp add: flat_new_def)
  then show "0 < d \<Longrightarrow> index_ok (FlatIndex (flat_new d m))"
    using flat_new_ok [of d m] plain_rt_ok by (simp add: any_inv_def flat_inv_def)
qed

lemma new_ivf_law: "ivf_new d m nlist nprobe = Inr a \<Longrightarrow> index_ok (IvfIndex a)"
  using ivf_new_ok [of d m nlist nprobe a] plain_rt_ok by (simp add: any_inv_def ivf_inv_def)

lemma new_ivf_sq8_law: "ivf_new_sq8 d m nlist nprobe = Inr a \<Longrightarrow> index_ok (IvfIndex a)"
  using ivf_new_sq8_ok [of d m nlist nprobe a] plain_rt_ok by (simp add: any_inv_def ivf_inv_def)

lemma new_hnsw_law: "hnsw_new d m edges efc efs = Inr b \<Longrightarrow> index_ok (HnswIndex b)"
  using hnsw_new_ok [of d m edges efc efs b] plain_rt_ok by (simp add: any_inv_def hnsw_inv_def)

lemmas new_laws = new_flat_law new_ivf_law new_ivf_sq8_law new_hnsw_law

text \<open>The weakest invariant: the index of the collection is sound, whatever the rest of the collection says about it.\<close>

interpretation sound: upkeep_law "\<lambda>c. index_ok (c_index c)" index_ok
proof (unfold_locales, goal_cases)
  case (5 rt c tv l y v p lsn r c')
  then show ?case by (rule col_insert_law)
next
  case (6 c tv y lsn q c')
  then show ?case by (rule col_delete_law)
next
  case (7 c tv dir r c')
  then show ?case by (rule col_enable_fts_law)
next
  case (10 rt c num qv k f incl)
  then show ?case by (rule col_search_law)
next
  case (11 rt c tv num qv t k rrf_k f incl)
  then show ?case by (rule hybrid_search_law)
next
  case (12 rt c ls q c')
  then show ?case by (rule compact_ivf_law)
next
  case (13 c th z c')
  then show ?case by (rule prepare_law)
next
  case (14 rt c s ls q c')
  then show ?case by (rule finish_law)
qed (simp_all add: new_laws collection_new_def collection_with_index_def cancel_index_compaction_def)

text \<open>The invariant that also ties the index to the collection's dimension and payloads; it holds as long as no background
  build of another collection is put in.\<close>

lemma col_inv_rt: "col_inv P rt c \<longleftrightarrow> rt_ok rt \<and> col_inv P plain_rt c"
  using any_inv_rt [of P rt "c_index c"] by (auto simp: col_inv_def)

lemma placed_index: "col_inv any_params plain_rt c \<Longrightarrow> index_ok (c_index c)"
  by (simp add: col_inv_def)

lemma placed_new: "index_ok ix \<Longrightarrow> ix_dim ix = d \<Longrightarrow> col_inv any_params plain_rt (collection_with_index name d m ix)"
  by (simp add: col_inv_def collection_with_index_def meta_defs)

interpretation placed: collection_law "col_inv any_params plain_rt"
proof (unfold_locales, goal_cases)
  case (1 d name m)
  then show ?case unfolding collection_new_def by (intro placed_new new_laws) (simp_all add: ix_dim_def flat_new_def)
next
  case (2 d m nlist nprobe a name)
  then show ?case using ivf_new_ok [OF 2] by (intro placed_new new_laws) (simp_all add: ix_dim_def)
next
  case (3 d m nlist nprobe a name)
  then show ?case using ivf_new_sq8_ok [OF 3] by (intro placed_new new_laws) (simp_all add: ix_dim_def)
next
  case (4 d m edges efc efs b name)
  then show ?case using hnsw_new_ok [OF 4] by (intro placed_new new_laws) (simp_all add: ix_dim_def)
next
  case (5 rt c tv l y v p lsn r c')
  have "col_inv any_params rt c" using 5(1,2) col_inv_rt by blast
  then show ?case using col_inv_insert 5(3) col_insert_law [OF 5(1) placed_index [OF 5(2)] 5(3)] col_inv_rt by blast
next
  case (6 c tv y lsn q c')
  then show ?case using col_inv_delete col_delete_law placed_index by blast
next
  case (7 c tv dir r c')
  obtain s where "c' = c \<or> c' = c\<lparr>c_fts := Some s\<rparr>" using 7(2) by (auto simp: col_enable_fts_def split: sum.splits)
  then have "col_inv any_params plain_rt c'" using 7(1) by (elim disjE) (simp_all add: col_inv_def)
  then show ?case using col_enable_fts_law [OF placed_index [OF 7(1)] 7(2)] by simp
next
  case (10 rt c num qv k f incl)
  then show ?case using col_search_law placed_index by blast
next
  case (11 rt c tv num qv t k rrf_k f incl)
  then show ?case using hybrid_search_law placed_index by blast
qed (simp_all add: col_inv_def)

section \<open>What the log manager's operations keep\<close>

definition all_ok :: "(('n, 't) collection \<Rightarrow> bool) \<Rightarrow> ('n, 't) manager \<Rightarrow> bool" where
  "all_ok ok mgr \<longleftrightarrow> (\<forall>name c. hm_get mgr name = Some c \<longrightarrow> ok c)"

lemma all_ok_new: "all_ok ok manager_new"
  by (simp add: all_ok_def manager_new_def hash_simps)

lemma all_ok_insert: "all_ok ok mgr \<Longrightarrow> ok c \<Longrightarrow> all_ok ok (hm_insert name c mgr)"
  by (simp add: all_ok_def hash_simps)

lemma all_ok_remove: "all_ok ok mgr \<Longrightarrow> all_ok ok (hm_remove name mgr)"
  by (simp add: all_ok_def hash_simps)

lemma all_ok_get: "all_ok ok (w_inner wm) \<Longrightarrow> wal_get wm name = Inr c \<Longrightarrow> ok c"
  by (auto simp: all_ok_def wal_get_def mgr_get_def split: option.splits)

lemma all_ok_on_collection:
  assumes "all_ok ok mgr" "on_collection mgr name f = (r, mgr')"
    and "\<And>c r c'. ok c \<Longrightarrow> f c = (r, c') \<Longrightarrow> ok c' \<and> r \<noteq> Inl Panicked"
  shows "all_ok ok mgr' \<and> r \<noteq> Inl Panicked"
  using assms(2)
proof (cases rule: on_collection_cases)
  case (found c c')
  have "ok c" using assms(1) found(1) unfolding all_ok_def by blast
  with found(2) have "ok c' \<and> r \<noteq> Inl Panicked" by (rule assms(3) [rotated])
  then show ?thesis using all_ok_insert [OF assms(1), of c' name] found(3) by simp
qed (use assms(1) in auto)

text \<open>A logged operation does nothing to the collections, or what the operation does.\<close>

lemma append_error: "append_entry lib bin io w e = (Inl x, w') \<Longrightarrow> x \<noteq> Apply y"
  by (cases io) (auto simp: append_entry_def append_batch_def and_then_def Let_def split: option.splits if_splits prod.splits)

lemma maybe_checkpoint_error: "maybe_checkpoint env ck wm = (Inl x, wm') \<Longrightarrow> x \<noteq> Apply y"
  by (auto simp: maybe_checkpoint_def checkpoint_def Let_def split: if_splits option.splits prod.splits)

lemma maybe_checkpoint_next: "maybe_checkpoint env ck wm = (r, wm') \<Longrightarrow> w_next_lsn wm' = w_next_lsn wm"
  by (auto simp: maybe_checkpoint_def checkpoint_def Let_def split: if_splits option.splits prod.splits)

lemma log_and_apply_cases:
  assumes "log_and_apply env io ck wm opn f = (r, wm')"
  obtains (unchanged) x where "r = Inl x" "\<And>e. x \<noteq> Apply e" "w_inner wm' = w_inner wm"
  | (applied) q where "f (w_inner wm) = (q, w_inner wm')" "\<And>e. r = Inl (Apply e) \<longleftrightarrow> q = Inl e" "w_next_lsn wm' = w_next_lsn wm + 1"
proof -
  let ?e = "wal_entry_new (w_next_lsn wm) opn"
  obtain a w where app: "append_entry (x_lib env) (x_bin env) io (w_wal wm) ?e = (a, w)"
    by (cases "append_entry (x_lib env) (x_bin env) io (w_wal wm) ?e")
  define wm2 where "wm2 = record_append env (wm\<lparr>w_wal := w\<rparr>) ?e"
  have wm2: "w_inner wm2 = w_inner wm" "w_next_lsn wm2 = w_next_lsn wm + 1" by (simp_all add: wm2_def record_append_def)
  obtain q mgr where q: "f (w_inner wm2) = (q, mgr)" by (cases "f (w_inner wm2)")
  obtain r4 wm4 where m: "maybe_checkpoint env ck (wm2\<lparr>w_inner := mgr\<rparr>) = (r4, wm4)"
    by (cases "maybe_checkpoint env ck (wm2\<lparr>w_inner := mgr\<rparr>)")
  have run: "(r, wm') = and_then (a, wm\<lparr>w_wal := w\<rparr>) (\<lambda>_ wm1. and_then (map_sum Apply id q, wm2\<lparr>w_inner := mgr\<rparr>) (\<lambda>x wm3.
      and_then (maybe_checkpoint env ck wm3) (\<lambda>_ wm4. (Inr x, wm4))))"
    using assms app q by (cases a) (simp_all add: log_and_apply_def Let_def flip: wm2_def)
  show thesis
  proof (cases a)
    case (Inl x)
    then have "x \<noteq> Apply e" for e using app append_error by blast
    then show thesis using run Inl by (intro unchanged [of x]) auto
  next
    case a: (Inr u)
    show thesis
    proof (cases q)
      case (Inl e)
      then show thesis using run a q wm2 by (intro applied [of q]) auto
    next
      case (Inr y)
      then show thesis using run a q wm2 maybe_checkpoint_collections [OF m] maybe_checkpoint_next [OF m] m maybe_checkpoint_error
        by (intro applied [of q]) (cases r4; fastforce)+
    qed
  qed
qed

text \<open>The results: no panic, and the collections kept.\<close>

definition kept :: "(('n, 't) collection \<Rightarrow> bool) \<Rightarrow> (persist_error + 'a) \<times> ('n, 't) wal_manager \<Rightarrow> bool" where
  "kept ok x \<longleftrightarrow> fst x \<noteq> Inl (Apply Panicked) \<and> all_ok ok (w_inner (snd x))"

definition answered :: "(('n, 't) collection \<Rightarrow> bool) \<Rightarrow> (api_error + 'a) \<times> ('n, 't) wal_manager \<Rightarrow> bool" where
  "answered ok x \<longleftrightarrow> fst x \<noteq> Inl HandlerPanic \<and> all_ok ok (w_inner (snd x))"

definition served :: "(('n, 't) collection \<Rightarrow> bool) \<Rightarrow> (status + 'a) \<times> ('n, 't) wal_manager \<Rightarrow> bool" where
  "served ok x \<longleftrightarrow> fst x \<noteq> Inl SPanic \<and> all_ok ok (w_inner (snd x))"

lemma persist_no_panic: "api_of_persist e = HandlerPanic \<longleftrightarrow> e = Apply Panicked" "persist_err e = SPanic \<longleftrightarrow> e = Apply Panicked"
proof -
  have "api_of_db d = HandlerPanic \<longleftrightarrow> d = Panicked" "core_err d = SPanic \<longleftrightarrow> d = Panicked" for d by (cases d; simp)+
  then show "api_of_persist e = HandlerPanic \<longleftrightarrow> e = Apply Panicked" "persist_err e = SPanic \<longleftrightarrow> e = Apply Panicked"
    by (cases e; simp)+
qed

lemma db_no_panic: "api_of_db d = HandlerPanic \<longleftrightarrow> d = Panicked" "core_err d = SPanic \<longleftrightarrow> d = Panicked"
  by (cases d; simp)+

lemma lakehouse_no_panic: "api_of_lakehouse e \<noteq> HandlerPanic"
  by (cases e) simp_all

lemma keptD: "kept ok x \<Longrightarrow> x = (r, wm) \<Longrightarrow> all_ok ok (w_inner wm) \<and> r \<noteq> Inl (Apply Panicked)"
  by (simp add: kept_def)

lemma and_next_Inl: "and_next m f = Inl e \<longleftrightarrow> m = Inl e \<or> (\<exists>x. m = Inr x \<and> f x = Inl e)"
  by (cases m) simp_all

lemma map_sum_Inr_iff: "map_sum g h x = Inr y \<longleftrightarrow> (\<exists>z. x = Inr z \<and> y = h z)"
  by (cases x) auto

lemma map_sum_Inl: "map_sum g h x = Inl e \<longleftrightarrow> (\<exists>d. x = Inl d \<and> g d = e)"
  by (cases x) auto

lemma log_kept:
  assumes "all_ok ok (w_inner wm)"
    and "\<And>q mgr. f (w_inner wm) = (q, mgr) \<Longrightarrow> all_ok ok mgr \<and> q \<noteq> Inl Panicked"
  shows "kept ok (log_and_apply env io ck wm opn f)"
proof (cases "log_and_apply env io ck wm opn f")
  case (Pair r wm')
  then show ?thesis
  proof (cases rule: log_and_apply_cases)
    case (unchanged x)
    then show ?thesis using assms(1) Pair by (auto simp: kept_def)
  next
    case (applied q)
    then show ?thesis using assms(2) [OF applied(1)] Pair by (auto simp: kept_def)
  qed
qed

lemma create_with_kept:
  assumes "all_ok ok mgr" "mgr_step (\<lambda>mgr. create_with mgr name x) mgr = (q, mgr')"
    and "\<And>c. x = Inr c \<Longrightarrow> ok c" "x \<noteq> Inl Panicked"
  shows "all_ok ok mgr' \<and> q \<noteq> Inl Panicked"
  using assms all_ok_insert [OF assms(1)]
  by (auto simp: mgr_step_def create_with_def split: if_splits sum.splits)

lemma create_logged:
  assumes "all_ok ok (w_inner wm)" "\<And>c. x = Inr c \<Longrightarrow> ok c" "x \<noteq> Inl Panicked"
  shows "kept ok (log_and_apply env io ck wm opn (mgr_step (\<lambda>mgr. create_with mgr name x)))"
  by (rule log_kept [OF assms(1)]) (rule create_with_kept [OF assms(1) _ assms(2,3)])

lemma new_index_errors:
  "ivf_new d m nlist nprobe \<noteq> Inl Panicked" "ivf_new_sq8 d m nlist nprobe \<noteq> Inl Panicked"
  "2 * edges < 2 ^ 64 \<Longrightarrow> hnsw_new d m edges efc efs \<noteq> Inl Panicked"
  by (simp_all add: ivf_new_def ivf_new_sq8_def hnsw_new_def)

lemma map_error [simp]: "map_sum id g x = Inl e \<longleftrightarrow> x = Inl e"
  by (cases x) simp_all

text \<open>
  A request that does not ask for a flat index of dimension zero, the only index of that dimension that is accepted, or for
  an HNSW index whose \<open>2 * m\<close> does not fit into \<open>usize\<close>. The message of a gRPC request has no room for such an \<open>m\<close>.
\<close>

definition sized_index :: "nat \<Rightarrow> index_config \<Rightarrow> bool" where
  "sized_index d cfg \<longleftrightarrow> (case cfg of CfgFlat \<Rightarrow> 0 < d | CfgHnsw edges efc efs \<Rightarrow> 2 * edges < 2 ^ 64 | _ \<Rightarrow> True)"

definition sized_route :: "'n route \<Rightarrow> bool" where
  "sized_route req \<longleftrightarrow> (case req of CreateRoute q \<Rightarrow> sized_index (cq_dim q) (cq_index q) | _ \<Rightarrow> True)"

definition sized_call :: "call \<Rightarrow> bool" where
  "sized_call c \<longleftrightarrow> (case c of
     CCreateCollection q \<Rightarrow> index_of_message (gc_index_config q) = CfgFlat \<longrightarrow> 0 < gc_dim q | _ \<Rightarrow> True)"

lemma sized_message:
  assumes "index_of_message m = CfgFlat \<Longrightarrow> 0 < d"
  shows "sized_index d (index_of_message m)"
proof -
  have "2 * unat edges < 2 ^ 64" for edges :: u32 using unsigned_less [of edges, where ?'a = nat] by simp
  then show ?thesis using assms by (auto simp: sized_index_def index_of_message_def split: option.split grpc_index.split)
qed

text \<open>A pipeline that always answers.\<close>

definition steady :: "('n, 't, 'f) server_env \<Rightarrow> bool" where
  "steady sv \<longleftrightarrow> (\<forall>run rq. sv_pipeline sv = Some run \<longrightarrow> run rq \<noteq> None)"

lemma answer_steady: "steady sv \<Longrightarrow> answer sv rs q teams k \<noteq> Inl HandlerPanic"
  by (cases "sv_pipeline sv") (auto simp: answer_def steady_def split: option.split sum.split)

context collection_law begin

lemma insert_kept:
  assumes "rt_ok (x_rt env)" "all_ok ok (w_inner wm)"
  shows "kept ok (wal_insert env io ck l wm col y v p)"
  unfolding wal_insert_def Let_def
  by (rule log_kept [OF assms(2)], rule all_ok_on_collection [OF assms(2)], assumption) (rule insert [OF assms(1)])

lemma delete_kept: "all_ok ok (w_inner wm) \<Longrightarrow> kept ok (wal_delete env io ck wm col y)"
  unfolding wal_delete_def Let_def
  by (rule log_kept, assumption, rule all_ok_on_collection, assumption, assumption) (rule delete)

lemma fts_kept: "all_ok ok (w_inner wm) \<Longrightarrow> kept ok (wal_enable_fts env io ck wm col)"
  unfolding wal_enable_fts_def Let_def mgr_enable_fts_def
  by (rule log_kept, assumption, rule all_ok_on_collection, assumption, assumption) (rule fts)

lemma bound_kept: "all_ok ok (w_inner wm) \<Longrightarrow> kept ok (wal_set_source_binding env io ck wm col b)"
  unfolding wal_set_source_binding_def Let_def mgr_set_source_binding_def
  by (rule log_kept, assumption, rule all_ok_on_collection, assumption, assumption) (auto intro: bound)

lemma drop_kept: "all_ok ok (w_inner wm) \<Longrightarrow> kept ok (wal_drop_collection env io ck wm name)"
  unfolding wal_drop_collection_def
  by (rule log_kept, assumption) (auto simp: mgr_step_def drop_collection_def all_ok_remove split: option.splits)

lemma create_kept:
  assumes "all_ok ok (w_inner wm)" "sized_index d cfg"
  shows "kept ok (create_index env io ck wm name d m cfg)"
proof (cases cfg)
  case CfgFlat
  then show ?thesis unfolding create_index_def wal_create_collection_def create_collection_def
    using assms new_flat by (auto simp: sized_index_def intro!: create_logged)
next
  case (CfgIvf nlist nprobe)
  then show ?thesis unfolding create_index_def wal_create_ivf_collection_def create_ivf_collection_def
    using assms(1) new_ivf new_index_errors by (auto simp: map_sum_Inr intro!: create_logged)
next
  case (CfgIvfSq8 nlist nprobe)
  then show ?thesis unfolding create_index_def wal_create_ivf_sq8_collection_def create_ivf_sq8_collection_def
    using assms(1) new_ivf_sq8 new_index_errors by (auto simp: map_sum_Inr intro!: create_logged)
next
  case (CfgHnsw edges efc efs)
  then show ?thesis unfolding create_index_def wal_create_hnsw_collection_def create_hnsw_collection_def
    using assms new_hnsw new_index_errors by (auto simp: map_sum_Inr sized_index_def intro!: create_logged)
qed

lemma read_back_answered:
  assumes "kept ok x"
  shows "answered ok (read_back_collection name x)"
proof -
  obtain r wm where x: "x = (r, wm)" by (cases x)
  show ?thesis using assms
    by (cases r) (auto simp: x kept_def answered_def read_back_collection_def persist_no_panic wal_get_def mgr_get_def split: option.splits)
qed

lemma then_answered:
  assumes "kept ok x" "\<And>wm. all_ok ok (w_inner wm) \<Longrightarrow> answered ok (g wm)"
  shows "answered ok (case x of (Inl e, wm) \<Rightarrow> (Inl (api_of_persist e), wm) | (Inr _, wm) \<Rightarrow> g wm)"
  using assms by (cases x; cases "fst x") (auto simp: kept_def answered_def persist_no_panic)

lemma as_answer: "kept ok x \<Longrightarrow> answered ok (map_prod (map_sum api_of_persist g) id x)"
  by (cases x; cases "fst x") (auto simp: kept_def answered_def persist_no_panic)

lemma as_reply: "kept ok x \<Longrightarrow> served ok (map_prod (map_sum persist_err g) id x)"
  by (cases x; cases "fst x") (auto simp: kept_def served_def persist_no_panic)

lemma import_rows_ok:
  "rt_ok (x_rt env) \<Longrightarrow> all_ok ok (w_inner wm) \<Longrightarrow> all_ok ok (w_inner (snd (wal_import_rows env ios ls name items wm)))"
proof (induction items arbitrary: wm)
  case (Cons item items)
  obtain y v p where item: "item = (y, v, p)" by (cases item)
  obtain r wm1 where r: "wal_insert env (fst (ios (length items))) (snd (ios (length items))) (ls (length items)) wm name y v p = (r, wm1)"
    by fastforce
  have "all_ok ok (w_inner wm1)" using keptD [OF insert_kept [OF Cons.prems] r] by simp
  then show ?case using Cons.IH [OF Cons.prems(1)] r by (cases r) (auto simp: item)
qed simp

lemma import_batches_ok:
  "rt_ok (x_rt env) \<Longrightarrow> all_ok ok (w_inner wm) \<Longrightarrow> all_ok ok (w_inner (snd (wal_import_batches env ios ls name dec n bs wm)))"
proof (induction bs arbitrary: wm n)
  case (Cons b bs)
  show ?case
  proof (cases "\<exists>a items. b = Inr a \<and> dec a = Inr items")
    case True
    then obtain a items where b: "b = Inr a" "dec a = Inr items" by blast
    obtain r wm1 where r: "wal_import_rows env (ios (length bs)) (ls (length bs)) name items wm = (r, wm1)" by fastforce
    have "all_ok ok (w_inner wm1)" using import_rows_ok [OF Cons.prems] r by (metis snd_conv)
    then show ?thesis using Cons.IH [OF Cons.prems(1)] r b by (cases r) auto
  next
    case False
    then show ?thesis using Cons.prems(2) by (cases b) (auto split: sum.split)
  qed
qed simp

lemma create_answered:
  assumes "rt_ok (x_rt (sv_wal sv))" "all_ok ok (w_inner wm)" "sized_index (cq_dim req) (cq_index req)"
  shows "answered ok (create_collection_handler sv req wm)"
proof (cases "parse_metric (cq_metric req)")
  case (Inl e)
  then have "e = BadRequest" by (auto simp: parse_metric_def Let_def split: if_splits)
  then show ?thesis using assms(2) Inl by (simp add: create_collection_handler_def answered_def)
next
  case (Inr m)
  have done_ok: "all_ok ok (w_inner wm) \<Longrightarrow> answered ok (Inr Created, wm)" for wm :: "('n, 't) wal_manager" by (simp add: answered_def)
  have none_kept: "all_ok ok (w_inner wm) \<Longrightarrow> kept ok (Inr (), wm)" for wm :: "('n, 't) wal_manager" by (simp add: kept_def)
  show ?thesis
    unfolding create_collection_handler_def Inr sum.case
    by (rule then_answered [OF create_kept [OF assms(2,3)]], rule then_answered)
      (auto intro: fts_kept none_kept done_ok then_answered [OF bound_kept] split: option.split)
qed

lemma query_answered:
  assumes "rt_ok (x_rt (sv_wal sv))" "all_ok ok (w_inner wm)" "steady sv"
  shows "query_vectors sv name q wm \<noteq> Inl HandlerPanic" "hybrid_query_vectors sv name h wm \<noteq> Inl HandlerPanic"
proof -
  have k: "validate_k n \<noteq> Inl HandlerPanic" for n by (simp add: validate_k_def)
  have found: "ok c" if "wal_get wm name = Inr c" for c using all_ok_get [OF assms(2) that] .
  have missing: "wal_get wm name \<noteq> Inl Panicked" by (simp add: wal_get_def mgr_get_def split: option.split)
  note steps = and_next_Inl map_sum_Inl map_sum_Inr_iff db_no_panic k missing answer_steady [OF assms(3)]
  show "query_vectors sv name q wm \<noteq> Inl HandlerPanic"
    using search [OF assms(1) found] by (auto simp: query_vectors_def steps)
  show "hybrid_query_vectors sv name h wm \<noteq> Inl HandlerPanic"
    using hybrid [OF assms(1) found] by (auto simp: hybrid_query_vectors_def steps)
qed

lemma import_answered:
  assumes "rt_ok (x_rt (sv_wal sv))" "all_ok ok (w_inner wm)"
  shows "answered ok (import_parquet_handler sv name req wm)"
proof (cases "resolve_under_root (sv_parquet_root sv) (sv_canonicalize sv) (mq_path req) True")
  case (Inl e)
  then have "e \<noteq> HandlerPanic" by (auto simp: resolve_under_root_def Let_def ok_or_def and_next_Inl split: option.splits if_splits)
  then show ?thesis using Inl assms(2) by (simp add: import_parquet_handler_def answered_def)
next
  case (Inr path)
  obtain r wm1 where r: "wal_import_parquet (sv_wal sv) (sv_import_io sv) (sv_import_levels sv) (sv_serde sv) (sv_arrow sv) (sv_parquet sv) wm name
      (sv_read_file sv path) (mq_id_col req) (mq_vector_col req) (mq_payload_cols req) = (r, wm1)" by fastforce
  have "all_ok ok (w_inner wm1)"
    using r import_batches_ok [OF assms] assms(2)
    by (fastforce simp: wal_import_parquet_def split: sum.splits option.splits prod.splits dest: arg_cong [of _ _ snd])
  then show ?thesis using Inr r by (cases r) (simp_all add: import_parquet_handler_def answered_def lakehouse_no_panic)
qed

lemma reads_no_panic:
  "get_collection_handler name wm \<noteq> Inl HandlerPanic" "get_vector_handler name y wm \<noteq> Inl HandlerPanic"
  "export_parquet_handler sv name path wm \<noteq> Inl HandlerPanic"
  by (auto simp: get_collection_handler_def get_vector_handler_def export_parquet_handler_def wal_get_def mgr_get_def and_next_Inl map_sum_Inl
    resolve_under_root_def Let_def ok_or_def lakehouse_no_panic db_no_panic split: option.splits if_splits sum.splits)

lemma handle_answered:
  assumes "rt_ok (x_rt (sv_wal sv))" "all_ok ok (w_inner wm)" "steady sv" "sized_route req"
  shows "answered ok (handle sv req wm)"
proof (cases req)
  case (CreateRoute q)
  then show ?thesis using create_answered [OF assms(1,2), of q] assms(4) by (simp add: sized_route_def)
next
  case (ImportRoute name q)
  then show ?thesis using import_answered [OF assms(1,2)] by simp
next
  case (InsertRoute name q)
  then show ?thesis by (simp add: insert_vector_handler_def read_back_answered insert_kept [OF assms(1,2)])
next
  case (DeleteRoute name y)
  then show ?thesis by (simp add: delete_vector_handler_def read_back_answered delete_kept [OF assms(2)])
next
  case (DropRoute name)
  then show ?thesis by (simp add: drop_collection_handler_def as_answer drop_kept [OF assms(2)])
qed (use assms(2) query_answered [OF assms(1-3)] reads_no_panic in \<open>simp_all add: answered_def\<close>)

lemma then_served:
  assumes "kept ok x" "\<And>wm. all_ok ok (w_inner wm) \<Longrightarrow> served ok (g wm)"
  shows "served ok (case x of (Inl e, wm) \<Rightarrow> (Inl (persist_err e), wm) | (Inr _, wm) \<Rightarrow> g wm)"
  using assms by (cases x; cases "fst x") (auto simp: kept_def served_def persist_no_panic)

lemma grpc_create_served:
  assumes "all_ok ok (w_inner wm)" "index_of_message (gc_index_config req) = CfgFlat \<Longrightarrow> 0 < gc_dim req"
  shows "served ok (grpc_create_collection sv req wm)"
proof (cases "parse_metric (gc_metric req)")
  case (Inl e)
  then have "e = BadRequest" by (auto simp: parse_metric_def Let_def split: if_splits)
  then show ?thesis using assms(1) Inl by (simp add: grpc_create_collection_def served_def)
next
  case (Inr m)
  have "0 < unat (gc_dim req)" if "index_of_message (gc_index_config req) = CfgFlat"
    using assms(2) [OF that] by (simp add: unat_gt_0 word_gt_0)
  note made = create_kept [OF assms(1) sized_message [OF this]]
  show ?thesis
    unfolding grpc_create_collection_def Inr sum.case Let_def create_index_message [symmetric]
    by (rule then_served [OF made]) (auto simp: served_def dest: as_reply [OF fts_kept])
qed

lemma grpc_queries_served:
  assumes "rt_ok (x_rt (sv_wal sv))" "all_ok ok (w_inner wm)"
  shows "grpc_query_method js sv q wm \<noteq> Inl SPanic" "grpc_query_stream js sv q wm \<noteq> Inl SPanic" "grpc_hybrid_query js sv h wm \<noteq> Inl SPanic"
proof -
  have k: "map_sum api_err id (validate_k n) \<noteq> Inl SPanic" for n by (simp add: validate_k_def)
  have f: "decode_filter js raw \<noteq> Inl SPanic" for raw by (simp add: decode_filter_def ok_or_def split: option.split)
  have found: "ok c" if "wal_get wm name = Inr c" for name c using all_ok_get [OF assms(2) that] .
  have missing: "wal_get wm name \<noteq> Inl Panicked" for name by (simp add: wal_get_def mgr_get_def split: option.split)
  have enc: "encode_scored_result js x \<noteq> Inl SPanic" for x
    by (auto simp: encode_scored_result_def ok_or_def map_sum_Inl split: option.splits)
  have encs: "encode_scored_results js rs \<noteq> Inl SPanic" for rs unfolding encode_scored_results_def
    using enc by (induction rs) (auto simp: and_next_Inl split: sum.splits)
  note steps = and_next_Inl map_sum_Inl map_sum_Inr_iff db_no_panic f missing encs
  have s: "grpc_search js sv q wm \<noteq> Inl SPanic"
    using search [OF assms(1) found] k by (auto simp: grpc_search_def steps)
  then show "grpc_query_method js sv q wm \<noteq> Inl SPanic" "grpc_query_stream js sv q wm \<noteq> Inl SPanic"
    by (auto simp: grpc_query_method_def grpc_query_stream_def steps)
  show "grpc_hybrid_query js sv h wm \<noteq> Inl SPanic"
    using hybrid [OF assms(1) found] k by (auto simp: grpc_hybrid_query_def steps)
qed

lemma serve_answered:
  assumes "rt_ok (x_rt (sv_wal sv))" "all_ok ok (w_inner wm)" "sized_call c"
  shows "served ok (serve js sv c wm)"
proof (cases c)
  case (CCreateCollection req)
  then show ?thesis using grpc_create_served [OF assms(2), of req] assms(3) by (simp add: sized_call_def)
next
  case (CInsertVector req)
  then show ?thesis using assms(2) as_reply [OF insert_kept [OF assms(1,2)]]
    by (auto simp: grpc_insert_vector_def served_def ok_or_def map_sum_Inl split: option.split sum.split)
next
  case (CDeleteVector name y)
  then show ?thesis by (simp add: grpc_delete_vector_def as_reply delete_kept [OF assms(2)])
next
  case (CDropCollection name)
  then show ?thesis by (simp add: grpc_drop_collection_def as_reply drop_kept [OF assms(2)])
next
  case (CGetCollection name)
  then show ?thesis using assms(2)
    by (auto simp: grpc_get_collection_def served_def wal_get_def mgr_get_def map_sum_Inl split: option.splits)
next
  case (CGetVector name y)
  then show ?thesis using assms(2)
    by (auto simp: grpc_get_vector_def served_def wal_get_def mgr_get_def map_sum_Inl payload_to_bytes_def ok_or_def
      split: option.splits sum.splits)
qed (use assms(2) grpc_queries_served [OF assms(1,2)] in \<open>simp_all add: served_def\<close>)

lemma delta_rows_ok:
  "rt_ok rt \<Longrightarrow> ok c \<Longrightarrow> apply_delta_rows rt tv ls c ds lsn = (r, c') \<Longrightarrow> ok c' \<and> r \<noteq> Inl Panicked"
proof (induction ds arbitrary: c)
  case (Cons d ds)
  obtain q c1 where q: "apply_delta_row rt tv (ls (length ds)) c d lsn = (q, c1)" by fastforce
  have "ok c1 \<and> q \<noteq> Inl Panicked"
  proof (cases d)
    case (DUpsert y v p)
    then show ?thesis using insert [OF Cons.prems(1,2)] q by (simp add: apply_delta_row_def)
  next
    case (DDelete y)
    obtain b c2 where "col_delete tv c y lsn = (b, c2)" by fastforce
    then show ?thesis using delete [OF Cons.prems(2)] q DDelete by (cases b) (fastforce simp: apply_delta_row_def)+
  qed
  then show ?case using Cons.IH [OF Cons.prems(1), of c1] Cons.prems(3) q by (cases q) auto
qed auto

lemma source_delta_ok:
  assumes "rt_ok (x_rt env)" "all_ok ok (w_inner wm)" "apply_source_delta env ls wm col b from_id to_id ds = (r, wm')"
  shows "all_ok ok (w_inner wm') \<and> r \<noteq> Inl Panicked"
proof -
  let ?f = "\<lambda>c. if c_source_binding c \<noteq> Some b \<or> c_source_snapshot_id c \<noteq> from_id then (Inr False, c)
    else and_then (apply_delta_rows (x_rt env) (x_tv env) ls c ds out_of_band_lsn) (\<lambda>_ c1. (Inr True, c1\<lparr>c_source_snapshot_id := Some to_id\<rparr>))"
  obtain mgr where m: "on_collection (w_inner wm) col ?f = (r, mgr)" "wm' = wm\<lparr>w_inner := mgr\<rparr>"
    using assms(3) by (auto simp: apply_source_delta_def map_prod_eq)
  have "ok c' \<and> r \<noteq> Inl Panicked" if c: "ok c" and f: "?f c = (r, c')" for c r c'
  proof (cases "c_source_binding c \<noteq> Some b \<or> c_source_snapshot_id c \<noteq> from_id")
    case True
    then show ?thesis using c f by auto
  next
    case False
    obtain q c1 where q: "apply_delta_rows (x_rt env) (x_tv env) ls c ds out_of_band_lsn = (q, c1)" by fastforce
    then show ?thesis using delta_rows_ok [OF assms(1) c q] sourced f False by (cases q) auto
  qed
  then show ?thesis using all_ok_on_collection [OF assms(2) m(1)] m(2) by simp
qed

end

context upkeep_law begin

lemma compact_ivf_ok:
  assumes "rt_ok (x_rt env)" "all_ok ok (w_inner wm)" "wal_compact_ivf_collection env ls wm col = (r, wm')"
  shows "all_ok ok (w_inner wm') \<and> r \<noteq> Inl Panicked"
proof -
  obtain mgr where m: "on_collection (w_inner wm) col (compact_ivf_index (x_rt env) ls) = (r, mgr)" "wm' = wm\<lparr>w_inner := mgr\<rparr>"
    using assms(3) by (auto simp: wal_compact_ivf_collection_def map_prod_eq)
  then show ?thesis using all_ok_on_collection [OF assms(2) m(1)] compact [OF assms(1)] by simp
qed

lemma prepare_ok:
  assumes "all_ok ok (w_inner wm)" "wal_prepare_index_compaction wm col th = (r, wm')"
  shows "all_ok ok (w_inner wm') \<and> r \<noteq> Inl Panicked \<and> (\<forall>e. r \<noteq> Inr (Some (Inl e))) \<and>
    (\<forall>p. r = Inr (Some (Inr p)) \<longrightarrow> (\<forall>rt' ls. rt_ok rt' \<longrightarrow> (\<exists>s. prepared_build rt' ls p = Inr s \<and> built s)))"
proof -
  let ?f = "\<lambda>c. map_prod Inr id (prepare_index_compaction c th)"
  obtain mgr where m: "on_collection (w_inner wm) col ?f = (r, mgr)" "wm' = wm\<lparr>w_inner := mgr\<rparr>"
    using assms(2) by (auto simp: wal_prepare_index_compaction_def map_prod_eq)
  have "ok c' \<and> r \<noteq> Inl Panicked" if "ok c" "?f c = (r, c')" for c c' and r :: "db_error + (db_error + prepared_compaction) option"
    using prepare [OF that(1)] that(2) by (cases "prepare_index_compaction c th") fastforce
  then have "all_ok ok mgr \<and> r \<noteq> Inl Panicked" using all_ok_on_collection [OF assms(1) m(1)] by blast
  moreover have "(\<forall>e. x \<noteq> Inl e) \<and> (\<forall>p. x = Inr p \<longrightarrow> (\<forall>rt' ls. rt_ok rt' \<longrightarrow> (\<exists>s. prepared_build rt' ls p = Inr s \<and> built s)))"
    if x: "r = Inr (Some x)" for x
    using m(1)
  proof (cases rule: on_collection_cases)
    case (found c c')
    then have "prepare_index_compaction c th = (Some x, c')" using x by (cases "prepare_index_compaction c th") auto
    moreover have "ok c" using assms(1) found(1) unfolding all_ok_def by blast
    ultimately show ?thesis using prepare [of c th "Some x" c'] by simp
  qed (simp add: x)
  ultimately show ?thesis using m(2) by fastforce
qed

lemma cancel_ok: "all_ok ok (w_inner wm) \<Longrightarrow> all_ok ok (w_inner (snd (wal_cancel_index_compaction wm col)))"
proof -
  assume ok: "all_ok ok (w_inner wm)"
  obtain r mgr where m: "on_collection (w_inner wm) col (\<lambda>c. (Inr (), cancel_index_compaction c)) = (r, mgr)" by fastforce
  have "all_ok ok mgr" using all_ok_on_collection [OF ok m] cancel by blast
  then show ?thesis using m by (simp add: wal_cancel_index_compaction_def)
qed

lemma finish_ok:
  assumes "rt_ok (x_rt env)" "all_ok ok (w_inner wm)" "\<And>s. q = Some (Inr s) \<Longrightarrow> built s"
  shows "all_ok ok (w_inner (snd (finish_compaction_task env ls wm col q)))"
proof (cases "\<exists>s. q = Some (Inr s)")
  case True
  then obtain s where s: "q = Some (Inr s)" "built s" using assms(3) by blast
  obtain r mgr where m: "on_collection (w_inner wm) col (\<lambda>c. finish_index_compaction (x_rt env) ls c s) = (r, mgr)" by fastforce
  have "all_ok ok mgr" using all_ok_on_collection [OF assms(2) m] finish [OF assms(1) _ s(2)] by blast
  then show ?thesis using m s(1) by (simp add: finish_compaction_task_def wal_finish_index_compaction_def)
next
  case False
  then show ?thesis using cancel_ok [OF assms(2)] by (auto simp: finish_compaction_task_def split: option.split sum.split)
qed

end

section \<open>The running server\<close>

text \<open>
  A step of one of the tasks, between taking the lock and giving it back. The flusher takes the lock twice, and works on the
  entries it found the first time; \<open>sy_flush\<close> is the manager it saw then. \<open>sy_plans\<close> are the compaction plans that the
  maintenance task has handed to workers, by the name of their collection.
\<close>

record ('n, 't) system =
  sy_wal :: "('n, 't) wal_manager"
  sy_catalog :: catalog
  sy_flush :: "('n, 't) wal_manager option"
  sy_plans :: "(string \<times> prepared_compaction) list"

definition system_start :: "('n, 't) wal_manager \<Rightarrow> catalog \<Rightarrow> ('n, 't) system" where
  "system_start wm cat = \<lparr>sy_wal = wm, sy_catalog = cat, sy_flush = None, sy_plans = []\<rparr>"

text \<open>What does not change while the server runs: the token, the query pipeline and the libraries.\<close>

record ('n, 't) server_setup =
  ss_token :: api_token
  ss_pipeline :: "(pipeline_request \<Rightarrow> (query_error + pipeline_result list) option) option"
  ss_env :: "('n, 't) wal_env"

definition fits_setup :: "('n, 't) server_setup \<Rightarrow> ('n, 't) wal_env \<Rightarrow> bool" where
  "fits_setup ss env \<longleftrightarrow> rt_ok (x_rt env) \<and> env = (ss_env ss)\<lparr>x_rt := x_rt env\<rparr>"

datatype 'n event =
    HttpRequest "string option" "'n route"
  | GrpcRequest "string option" call
  | FlushStart
  | FlushEnd
  | CheckpointTick
  | SourceDelta string
  | IvfCompaction string
  | PrepareCompaction string
  | FinishCompaction string

datatype ('n, 'f) outcome =
    HttpAnswer "(api_error + ('n, 'f) response) option"
  | GrpcAnswer "status + reply"
  | TaskResult "db_error option"
  | Silent

inductive step ::
  "('n, 't) server_setup \<Rightarrow> ('n, 't) system \<Rightarrow> 'n event \<Rightarrow> ('n, 'f) outcome \<Rightarrow> ('n, 't) system \<Rightarrow> bool"
  for ss :: "('n, 't) server_setup"
where
  http: "fits_setup ss (sv_wal sv) \<Longrightarrow> sv_pipeline sv = ss_pipeline ss \<Longrightarrow>
    router (ss_token ss) header sv req (sy_wal s) = (r, wm) \<Longrightarrow>
    step ss s (HttpRequest header req) (HttpAnswer r) (s\<lparr>sy_wal := wm\<rparr>)"
| grpc: "fits_setup ss (sv_wal (sv :: ('n, 't, 'f) server_env)) \<Longrightarrow> sv_pipeline sv = ss_pipeline ss \<Longrightarrow>
    grpc_interceptor (ss_token ss) header js sv c (sy_wal s) = (a, wm) \<Longrightarrow>
    step ss s (GrpcRequest header c) (GrpcAnswer a) (s\<lparr>sy_wal := wm\<rparr>)"
| flush_start: "sy_flush s = None \<Longrightarrow> collect_unflushed (ss_env ss) (sy_wal s) \<noteq> [] \<Longrightarrow>
    step ss s FlushStart Silent (s\<lparr>sy_flush := Some (sy_wal s)\<rparr>)"
| flush_end: "sy_flush s = Some wm0 \<Longrightarrow> 0 < fe_max_batch_entries fe \<Longrightarrow>
    flush_once (ss_env ss) fe (\<lambda>_. sy_wal s) wm0 (sy_catalog s) = (q, wm, cat) \<Longrightarrow>
    step ss s FlushEnd Silent (s\<lparr>sy_wal := wm, sy_catalog := cat, sy_flush := None\<rparr>)"
| tick: "step ss s CheckpointTick Silent (s\<lparr>sy_wal := checkpoint_tick (ss_env ss) ck (sy_wal s)\<rparr>)"
| delta: "fits_setup ss env \<Longrightarrow> apply_source_delta env ls (sy_wal s) col b from_id to_id ds = (d, wm) \<Longrightarrow>
    step ss s (SourceDelta col) (TaskResult (case d of Inl e \<Rightarrow> Some e | Inr _ \<Rightarrow> None)) (s\<lparr>sy_wal := wm\<rparr>)"
| ivf: "fits_setup ss env \<Longrightarrow> wal_compact_ivf_collection env ls (sy_wal s) col = (d, wm) \<Longrightarrow>
    step ss s (IvfCompaction col) (TaskResult (case d of Inl e \<Rightarrow> Some e | Inr _ \<Rightarrow> None)) (s\<lparr>sy_wal := wm\<rparr>)"
| prepared: "wal_prepare_index_compaction (sy_wal s) col th = (Inr (Some (Inr p)), wm) \<Longrightarrow>
    step ss s (PrepareCompaction col) (TaskResult None) (s\<lparr>sy_wal := wm, sy_plans := (col, p) # sy_plans s\<rparr>)"
| unprepared: "wal_prepare_index_compaction (sy_wal s) col th = (z, wm) \<Longrightarrow> \<forall>p. z \<noteq> Inr (Some (Inr p)) \<Longrightarrow>
    step ss s (PrepareCompaction col) (TaskResult (case z of Inl e \<Rightarrow> Some e | Inr (Some (Inl e)) \<Rightarrow> Some e | _ \<Rightarrow> None)) (s\<lparr>sy_wal := wm\<rparr>)"
| finished: "(col, p) \<in> set (sy_plans s) \<Longrightarrow> fits_setup ss env \<Longrightarrow> fits_setup ss env' \<Longrightarrow>
    q = Some (prepared_build (x_rt env') ls' p) \<or> q = None \<Longrightarrow>
    finish_compaction_task env ls (sy_wal s) col q = (z, wm) \<Longrightarrow>
    step ss s (FinishCompaction col)
      (TaskResult (case q of Some (Inl e) \<Rightarrow> Some e | _ \<Rightarrow> None)) (s\<lparr>sy_wal := wm, sy_plans := remove1 (col, p) (sy_plans s)\<rparr>)"

inductive run ::
  "('n, 't) server_setup \<Rightarrow> ('n, 't) system \<Rightarrow> ('n event \<times> ('n, 'f) outcome) list \<Rightarrow> ('n, 't) system \<Rightarrow> bool"
  for ss :: "('n, 't) server_setup"
where
  run_nil: "run ss s [] s"
| run_step: "run ss s t s1 \<Longrightarrow> step ss s1 e z s2 \<Longrightarrow> run ss s (t @ [(e, z)]) s2"

inductive_cases step_elim: "step ss s e z s'"

definition panics :: "('n, 'f) outcome \<Rightarrow> bool" where
  "panics z \<longleftrightarrow> (case z of HttpAnswer r \<Rightarrow> r = Some (Inl HandlerPanic) | GrpcAnswer a \<Rightarrow> a = Inl SPanic
     | TaskResult e \<Rightarrow> e = Some Panicked | Silent \<Rightarrow> False)"

text \<open>A request that creates neither a flat index of dimension zero nor an HNSW index of too many edges.\<close>

definition sized :: "'n event \<Rightarrow> bool" where
  "sized e \<longleftrightarrow> (case e of HttpRequest _ req \<Rightarrow> sized_route req | GrpcRequest _ c \<Rightarrow> sized_call c | _ \<Rightarrow> True)"

definition system_ok :: "('n, 't) server_setup \<Rightarrow> ('n, 't) system \<Rightarrow> bool" where
  "system_ok ss s \<longleftrightarrow> all_ok (\<lambda>c. index_ok (c_index c)) (w_inner (sy_wal s)) \<and>
     (\<forall>wm0. sy_flush s = Some wm0 \<longrightarrow> collect_unflushed (ss_env ss) wm0 \<noteq> []) \<and>
     (\<forall>(col, p) \<in> set (sy_plans s). \<forall>rt ls. rt_ok rt \<longrightarrow> (\<exists>a. prepared_build rt ls p = Inr a \<and> index_ok a))"

lemma checkpoint_tick_inner: "w_inner (checkpoint_tick env ck wm) = w_inner wm"
  by (simp add: checkpoint_tick_def checkpoint_def Let_def split: option.split prod.split)

lemma flush_once_inner:
  assumes "collect_unflushed env wm0 \<noteq> []" "0 < fe_max_batch_entries fe" "flush_once env fe between wm0 cat = (q, wm, cat')"
  shows "w_inner wm = w_inner (between wm0)"
proof -
  have "take (fe_max_batch_entries fe) (collect_unflushed env wm0) \<noteq> []" using assms(1,2) by simp
  then show ?thesis using assms(3)
    by (auto simp: flush_once_def Let_def watermark_frame truncate_frame split: if_splits prod.splits)
qed

lemma setup_rt: "fits_setup ss env \<Longrightarrow> rt_ok (x_rt env)"
  by (simp add: fits_setup_def)

lemma router_result:
  "router token header sv req wm = (r, wm') \<Longrightarrow> r = None \<and> wm' = wm \<or> (\<exists>x. handle sv req wm = (x, wm') \<and> r = Some x)"
  by (cases "handle sv req wm") (auto simp: router_def require_bearer_def split: if_splits)

lemma step_ok:
  assumes "step ss s e z s'" "system_ok ss s" "sized e"
    and pipe: "\<forall>p rq. ss_pipeline ss = Some p \<longrightarrow> p rq \<noteq> None"
  shows "system_ok ss s' \<and> \<not> panics z"
proof -
  let ?ok = "\<lambda>c :: ('a, 'b) collection. index_ok (c_index c)"
  have ok: "all_ok ?ok (w_inner (sy_wal s))" using assms(2) by (simp add: system_ok_def)
  have keep: "system_ok ss (s\<lparr>sy_wal := wm\<rparr>)" if "all_ok ?ok (w_inner wm)" for wm using assms(2) that by (simp add: system_ok_def)
  show ?thesis using assms(1)
  proof (cases rule: step.cases)
    case (http sv header req r wm)
    have st: "steady sv" using pipe http(5) by (simp add: steady_def)
    have sz: "sized_route req" using assms(3) http(1) by (simp add: sized_def)
    show ?thesis using router_result [OF http(6)]
    proof (elim disjE exE conjE)
      fix x assume x: "handle sv req (sy_wal s) = (x, wm)" "r = Some x"
      have "answered ?ok (handle sv req (sy_wal s))" by (rule sound.handle_answered [OF setup_rt [OF http(4)] ok st sz])
      then show ?thesis using keep x http(2,3) by (simp add: answered_def panics_def)
    qed (use assms(2) http(2,3) in \<open>simp add: panics_def\<close>)
  next
    case (grpc sv header js c a wm)
    have sz: "sized_call c" using assms(3) grpc(1) by (simp add: sized_def)
    have "served ?ok (serve js sv c (sy_wal s))" by (rule sound.serve_answered [OF setup_rt [OF grpc(4)] ok sz])
    then have "served ?ok (a, wm)" using grpc(6) ok by (auto simp: grpc_interceptor_def served_def split: if_splits)
    then show ?thesis using keep grpc(2,3) by (simp add: served_def panics_def)
  next
    case flush_start
    then show ?thesis using assms(2) by (simp add: system_ok_def panics_def)
  next
    case (flush_end wm0 fe q wm cat)
    have "collect_unflushed (ss_env ss) wm0 \<noteq> []" using assms(2) flush_end(4) by (simp add: system_ok_def)
    then have "w_inner wm = w_inner (sy_wal s)" using flush_once_inner flush_end(5,6) by blast
    then show ?thesis using assms(2) flush_end(2,3) by (simp add: system_ok_def panics_def)
  next
    case (tick ck)
    then show ?thesis using keep ok by (simp add: checkpoint_tick_inner panics_def)
  next
    case (delta env ls col b from_id to_id ds d wm)
    have "all_ok ?ok (w_inner wm) \<and> d \<noteq> Inl Panicked" by (rule sound.source_delta_ok [OF setup_rt [OF delta(4)] ok delta(5)])
    then show ?thesis using keep delta(2,3) by (auto simp: panics_def split: sum.split)
  next
    case (ivf env ls col d wm)
    have "all_ok ?ok (w_inner wm) \<and> d \<noteq> Inl Panicked" by (rule sound.compact_ivf_ok [OF setup_rt [OF ivf(4)] ok ivf(5)])
    then show ?thesis using keep ivf(2,3) by (auto simp: panics_def split: sum.split)
  next
    case (prepared col th p wm)
    show ?thesis using sound.prepare_ok [OF ok prepared(4)] assms(2) prepared(2,3) by (simp add: system_ok_def panics_def)
  next
    case (unprepared col th x wm)
    show ?thesis using sound.prepare_ok [OF ok unprepared(4)] keep unprepared(2,3,5)
      by (auto simp: panics_def split: sum.split option.split)
  next
    case (finished col p env env' q ls' ls x wm)
    obtain a where a: "prepared_build (x_rt env') ls' p = Inr a" "index_ok a"
      using assms(2) finished(4) setup_rt [OF finished(6)] unfolding system_ok_def by blast
    have "all_ok ?ok (w_inner (snd (finish_compaction_task env ls (sy_wal s) col q)))"
      by (rule sound.finish_ok [OF setup_rt [OF finished(5)] ok]) (use a finished(7) in auto)
    moreover have "set (remove1 (col, p) (sy_plans s)) \<subseteq> set (sy_plans s)" by (rule set_remove1_subset)
    ultimately show ?thesis using assms(2) finished(2,3,7,8) a by (fastforce simp: system_ok_def panics_def)
  qed
qed

lemma run_ok:
  assumes "run ss s0 t s" "system_ok ss s0" "\<forall>(e, z) \<in> set t. sized e"
    and "\<forall>p rq. ss_pipeline ss = Some p \<longrightarrow> p rq \<noteq> None"
  shows "system_ok ss s \<and> (\<forall>(e, z) \<in> set t. \<not> panics z)"
  using assms(1-3)
proof (induction rule: run.induct)
  case (run_step s t s1 e z s2)
  then have "system_ok ss s1 \<and> (\<forall>(e, z) \<in> set t. \<not> panics z)" "sized e" by auto
  then show ?case using step_ok [OF run_step.hyps(2) _ _ assms(4)] by auto
qed simp

text \<open>Without index snapshots in the lakehouse the server starts from its own directory.\<close>

lemma open_fresh_empty: "wal_open env ls io_ok dir \<lparr>d_snapshot = None, d_wal = None\<rparr> = Inr wm \<Longrightarrow> w_inner wm = manager_new"
  by (auto simp: wal_open_def open_with_config_def load_snapshot_def replay_path_def opened_def split: if_splits)

lemma load_no_snapshots:
  "table \<in> {None, Some []} \<Longrightarrow> load_collection_snapshots dec ok table = (if ok then Inr [] else Inl LkIceberg)"
  by (auto simp: load_collection_snapshots_def)

text \<open>Nothing in the program writes the table of index snapshots.\<close>

lemma open_store_no_snapshots:
  assumes "\<forall>c ns. snd (lake c ns) \<in> {None, Some []}" "open_store env lake ls io_ok vars args d cat = (Inr wm, cat')"
  shows "wal_open env ls io_ok (data_dir args) d = Inr wm \<and> cat' = cat"
proof (cases "iceberg_config_from_env vars")
  case None
  then show ?thesis using assms(2) by (auto simp: open_store_def map_sum_Inr_iff)
next
  case (Some config)
  obtain ie table where l: "lake config (iceberg_namespace vars) = (ie, table)" by fastforce
  then have "table \<in> {None, Some []}" using assms(1) by (metis snd_conv)
  then show ?thesis using assms(2) Some l
    by (auto simp: open_store_def open_with_iceberg_def load_no_snapshots map_sum_Inr_iff split: if_splits)
qed

section \<open>No request and no task panics\<close>


text \<open>No variable is set.\<close>

definition local_vars :: "string \<Rightarrow> string option" where
  "local_vars = (\<lambda>_. None)"

definition setup_example :: "(f64, (vecid \<times> string) list) server_setup" where
  "setup_example = \<lparr>ss_token = None, ss_pipeline = None, ss_env = tiny_env run_ops\<rparr>"

text \<open>A collection is created over HTTP, a vector is sent over gRPC, and a checkpoint is taken.\<close>

definition create_example :: create_request where
  "create_example = \<lparr>cq_name = ''c'', cq_dim = 1, cq_metric = ''l2'', cq_index = CfgFlat, cq_enable_fts = False, cq_source_binding = None\<rparr>"

definition insert_example :: grpc_insert where
  "insert_example = \<lparr>gi_collection = ''c'', gi_id = 7, gi_vector = [0], gi_payload_json = []\<rparr>"

definition no_lake :: "iceberg_config \<Rightarrow> string \<Rightarrow> f64 iceberg_env \<times> snapshot_row list option" where
  "no_lake = (\<lambda>_ _. (iceberg_example, None))"

definition session_example :: "(unit, nat, nat) session_lib" where
  "session_example = \<lparr>sn_new_with_config = \<lambda>_ _. (), sn_join = path_join, sn_exists = \<lambda>_. False, sn_register_parquet = \<lambda>_ _ _. Some (),
     sn_register_table = \<lambda>_ _ _. Some (), sn_mem_table = \<lambda>_ bs. Some (length bs), sn_batch_schema = \<lambda>_. 0, sn_sql = \<lambda>_ _. None\<rparr>"

definition json_example :: "f64 json_bytes" where
  "json_example = \<lparr>from_slice = \<lambda>_. Some JNull, to_vec = \<lambda>_. Some []\<rparr>"


end
