(* ===== verification/Restart.thy ===== *)
theory Restart
  imports System
begin

text \<open>
  What is left after a stop: a restart of the server without a catalog, and of one with a catalog, whose flusher has truncated
  the log. And what is left of a collection after the swap of an index that was built for another one of its name.
\<close>

section \<open>A restart after a clean stop\<close>

text \<open>Nothing is left to replay after the last checkpoint.\<close>

lemma shut_down_restart:
  assumes env: "env_ok env docs" and inv: "wal_inv env wm base old es" and stop: "shut_down env ck True wm = (Some (Inr ()), wm1)"
  shows "\<exists>wm2. wal_open env ls True (w_dir wm) (disk_of wm1) = Inr wm2 \<and> mgr_good env (w_inner wm2) \<and>
    abs_mgr (w_inner wm2) = abs_mgr (w_inner wm) \<and> w_next_lsn wm2 = w_next_lsn wm \<and> unat (w_wal_entries wm2) = 0 \<and>
    rr_replayed (w_report wm2) = 0 \<and> rr_skipped (w_report wm2) = []"
proof -
  have ck: "checkpoint env ck wm = (Inr (), wm1)" using stop by (cases "checkpoint env ck wm") (simp add: shut_down_def)
  obtain base' where 1: "wal_inv env wm1 base' [] []" "w_inner wm1 = w_inner wm" "w_next_lsn wm1 = w_next_lsn wm" "same_setup wm wm1"
    using checkpoint_inv [OF env inv ck] by blast
  have "disk_inv env (w_dir wm) (disk_of wm1) (w_snapshot_lsn wm1) base' [] []" using 1(1,4) by (simp add: wal_inv_def same_setup_def)
  from reopen [OF env this, of ls wal_config_default] obtain wm2 where 2:
      "wal_open env ls True (w_dir wm) (disk_of wm1) = Inr wm2" "mgr_good env (w_inner wm2)" "abs_mgr (w_inner wm2) = base'"
      "unat (w_next_lsn wm2) = unat (w_snapshot_lsn wm1) + 1" "unat (w_wal_entries wm2) = 0"
      "unat (rr_replayed (w_report wm2)) + length (rr_skipped (w_report wm2)) = 0"
    by (auto simp: wal_open_def)
  have "base' = abs_mgr (w_inner wm)" using 1(1,2) by (simp add: wal_inv_def)
  moreover have "unat (w_next_lsn wm2) = unat (w_next_lsn wm)" using 1(1,3) 2(4) by (simp add: wal_inv_def)
  then have "w_next_lsn wm2 = w_next_lsn wm" by (rule unsigned_word_eqI)
  ultimately show ?thesis using 2 by (simp add: unsigned_eq_0_iff)
qed

text \<open>C6. Stopping and starting the server changes nothing. Take a server without an Iceberg catalog on a new directory and a
  run of operations on collections of any index kind, in which every append to the log succeeds while the periodic
  checkpoints may fail, and a stop by a signal whose last checkpoint succeeds. Every logged operation fits into a frame,
  creates neither a collection of dimension zero nor an HNSW index whose \<open>2 * m\<close> overflows, and there are fewer than
  \<open>2 ^ 64\<close> of them; the full-text library, the codecs of the log and of the snapshot work. Then the next start opens the
  directory, replays and skips no entry, and has exactly the collections the operations mean, with positions going on
  where they stopped. The collections are compared as in the refinement of the operations: vectors up to the sign of a
  zero, and of an IVF-SQ8 collection the ids, not the decoded vectors.\<close>

theorem graceful_restart:
  assumes env: "env_ok env docs" and vars: "vars ''ICEBERG_CATALOG_URI'' = None"
    and start: "open_store env lake ls True vars args \<lparr>d_snapshot = None, d_wal = None\<rparr> cat = (Inr wm0, cat0)"
    and fine: "\<forall>opn \<in> set (logged xs). op_fine env NoCompression opn" and room: "1 + length (logged xs) < (2::nat) ^ 64"
    and stop: "shut_down env ck True (run_lives env xs wm0) = (Some (Inr ()), wm1)"
  shows "\<exists>wm2. open_store env lake ls2 True vars args (disk_of wm1) cat0 = (Inr wm2, cat0) \<and>
    abs_mgr (w_inner wm2) = spec_lives xs Map.empty \<and> abs_mgr (w_inner wm1) = spec_lives xs Map.empty \<and>
    w_next_lsn wm2 = w_next_lsn wm1 \<and> unat (w_wal_entries wm2) = 0 \<and>
    rr_replayed (w_report wm2) = 0 \<and> rr_skipped (w_report wm2) = []"
proof -
  have open0: "open_with_config env ls True wal_config_default (data_dir args) \<lparr>d_snapshot = None, d_wal = None\<rparr> = Inr wm0"
    using start by (auto simp: open_store_local [where vars = vars, OF vars] wal_open_def map_sum_def split: sum.splits)
  have comp: "cfg_compression wal_config_default = NoCompression" by (simp add: wal_config_default_def)
  let ?wm = "run_lives env xs wm0"
  obtain base old es where w: "wal_inv env ?wm base old es" "abs_mgr (w_inner ?wm) = spec_lives xs Map.empty" "w_dir ?wm = data_dir args"
    using fresh_run [OF env open0, of xs] fine room comp by auto
  obtain wm2 where 2: "wal_open env ls2 True (data_dir args) (disk_of wm1) = Inr wm2" "abs_mgr (w_inner wm2) = spec_lives xs Map.empty"
      "w_next_lsn wm2 = w_next_lsn ?wm" "unat (w_wal_entries wm2) = 0" "rr_replayed (w_report wm2) = 0" "rr_skipped (w_report wm2) = []"
    using shut_down_restart [OF env w(1) stop, of ls2] w(2,3) by auto
  have "checkpoint env ck ?wm = (Inr (), wm1)" using stop by (cases "checkpoint env ck ?wm") (simp add: shut_down_def)
  then have "w_inner wm1 = w_inner ?wm" "w_next_lsn wm1 = w_next_lsn ?wm" using checkpoint_inv [OF env w(1)] by auto
  then show ?thesis using 2 w(2) by (simp add: open_store_local [where vars = vars, OF vars])
qed

text \<open>A serializer that knows one snapshot.\<close>

definition saving_env :: "f64 manager_snapshot \<Rightarrow> (f64, (vecid \<times> string) list) wal_env" where
  "saving_env s = (tiny_env run_ops)\<lparr>x_snap_write := \<lambda>t. if t = s then Some [1] else None,
     x_snap_read := \<lambda>b. if b = [1] then Some s else None\<rparr>"

lemma saving_env_ok: "env_ok (saving_env s) map_of"
  using tiny_env_ok [of run_ops] by (simp add: env_ok_def saving_env_def run_ops_def)

lemma saving_fine: "op_fine (saving_env s) c opn = op_fine (tiny_env run_ops) c opn"
  by (simp add: op_fine_def saving_env_def no_legacy_def)

lemma shut_down_saves:
  "x_snap_write env (mgr_to_snapshot_with_lsn (x_order env) (w_inner wm) (sat_pred (w_next_lsn wm))) = Some b \<Longrightarrow>
    \<exists>wm1. shut_down env CkOk True wm = (Some (Inr ()), wm1) \<and> w_next_lsn wm1 = w_next_lsn wm"
  by (simp add: shut_down_def checkpoint_def Let_def wal_truncate_def)

text \<open>The snapshot after the creation of a collection.\<close>

definition one_flat :: "f64 manager_snapshot" where
  "one_flat = mgr_to_snapshot_with_lsn (\<lambda>ns. ns)
     (hm_insert ''c'' (collection_new ''c'' 1 L2) manager_new :: (f64, (vecid \<times> string) list) manager) 1"

theorem graceful_restart_witness:
  "\<exists>wm0 wm1 wm2. open_store (saving_env one_flat) no_lake (\<lambda>_. 0) True local_vars [] \<lparr>d_snapshot = None, d_wal = None\<rparr> Map.empty = (Inr wm0, Map.empty) \<and>
    shut_down (saving_env one_flat) CkOk True (run_lives (saving_env one_flat) [(CkOk, \<lambda>_. 0, LCreate ''c'' 1 L2 KFlat)] wm0) = (Some (Inr ()), wm1) \<and>
    open_store (saving_env one_flat) no_lake (\<lambda>_. 0) True local_vars [] (disk_of wm1) Map.empty = (Inr wm2, Map.empty) \<and>
    abs_mgr (w_inner wm2) ''c'' \<noteq> None \<and> w_next_lsn wm2 = 2"
proof -
  let ?env = "saving_env one_flat" and ?xs = "[(CkOk, \<lambda>_. 0 :: nat, LCreate ''c'' 1 L2 KFlat)] :: (ck_io \<times> (nat \<Rightarrow> nat) \<times> f64 live) list"
  have vars: "local_vars ''ICEBERG_CATALOG_URI'' = None" by (simp add: local_vars_def)
  obtain wm0 where open0: "open_with_config ?env (\<lambda>_. 0) True wal_config_default (data_dir []) \<lparr>d_snapshot = None, d_wal = None\<rparr> = Inr wm0"
      "unat (w_next_lsn wm0) = 1"
    using open_fresh [OF saving_env_ok [of one_flat], of "\<lambda>_. 0" wal_config_default "data_dir []"] by blast
  then have start: "open_store ?env no_lake (\<lambda>_. 0) True local_vars [] \<lparr>d_snapshot = None, d_wal = None\<rparr> Map.empty = (Inr wm0, Map.empty)"
    by (simp add: open_store_local [where vars = local_vars, OF vars] wal_open_def)
  have empty: "w_inner wm0 = manager_new" using open0(1) open_fresh_empty by (fastforce simp: wal_open_def)
  have next0: "w_next_lsn wm0 = 1" using open0(2) by (intro unsigned_word_eqI [where ?'a = nat]) simp
  have fine: "\<forall>opn \<in> set (logged ?xs). op_fine ?env NoCompression opn"
    by (simp add: saving_fine tiny_fine run_ops_def op_exact_def)
  let ?wm = "run_lives ?env ?xs wm0"
  have abs: "abs_mgr (w_inner ?wm) = spec_lives ?xs Map.empty"
    using fresh_run [OF saving_env_ok [of one_flat] open0(1), of ?xs] fine by (simp add: wal_config_default_def)
  then have some: "abs_mgr (w_inner ?wm) ''c'' \<noteq> None"
    by (simp add: spec_live_def spec_op_def valid_kind_def)
  obtain r where run: "log_and_apply ?env IoOk CkOk wm0 (CreateCollection ''c'' 1 L2 KFlat)
      (mgr_step (\<lambda>mgr. create_collection mgr ''c'' 1 L2)) = (r, ?wm)"
    by (cases "wal_create_collection ?env IoOk CkOk wm0 ''c'' 1 L2") (simp add: run_live_def wal_create_collection_def)
  have wm: "w_inner ?wm = hm_insert ''c'' (collection_new ''c'' 1 L2) manager_new \<and> w_next_lsn ?wm = 2"
    using run
  proof (cases rule: log_and_apply_cases)
    case (unchanged x)
    then have "abs_mgr (w_inner ?wm) ''c'' = None" by (simp add: empty abs_mgr_def manager_new_def)
    then show ?thesis using some by simp
  next
    case (applied q)
    then show ?thesis
      by (simp_all add: empty next0 mgr_step_def create_collection_def create_with_def manager_new_def)
  qed
  have "sat_pred (2 :: u64) = 1" by (simp add: sat_pred_def)
  then have "x_snap_write ?env (mgr_to_snapshot_with_lsn (x_order ?env) (w_inner ?wm) (sat_pred (w_next_lsn ?wm))) = Some [1]"
    unfolding conjunct1 [OF wm] conjunct2 [OF wm] by (simp add: saving_env_def one_flat_def) (simp add: tiny_env_def)
  then obtain wm1 where stop: "shut_down ?env CkOk True ?wm = (Some (Inr ()), wm1)" "w_next_lsn wm1 = w_next_lsn ?wm"
    using shut_down_saves by blast
  obtain wm2 where "open_store ?env no_lake (\<lambda>_. 0) True local_vars [] (disk_of wm1) Map.empty = (Inr wm2, Map.empty)"
      "abs_mgr (w_inner wm2) = spec_lives ?xs Map.empty" "w_next_lsn wm2 = w_next_lsn wm1"
    using graceful_restart [OF saving_env_ok [of one_flat] vars start fine _ stop(1), of "\<lambda>_. 0"] by auto
  then show ?thesis using start stop wm abs some by (intro exI conjI) (assumption | simp)+
qed

section \<open>A restart with a catalog\<close>

text \<open>C33. A server with a catalog forgets what it flushed when it crashes. A tick of the flusher whose rows reach the
  staging tables cuts their entries from the log, but no part of the program writes the table of index snapshots, so
  recovery never looks at the staging tables and opens the local directory as a server without a catalog does: after the
  crash the collections are those of the last local checkpoint, although every row of the batch is staged.\<close>

theorem flushed_rows_forgotten:
  assumes env: "env_ok env docs" and inv: "wal_inv env wm base old es" and q: "waiting env wm q"
    and batch: "b = take (fe_max_batch_entries fe) q" "b \<noteq> []" "\<forall>e \<in> set b. row_of_entry e \<noteq> None"
    and newest: "\<forall>e \<in> set (old @ es). e_lsn e \<le> e_lsn (last b)"
    and fe: "\<And>bs. mset (fe_order fe bs) = mset bs" "fe_catalog_ok fe" "fe_truncate fe = TrOk" "\<And>c. fe_stage fe c = StOk"
    and run: "flush_once env fe id wm cat = (r, wm', cat')"
    and config: "iceberg_config_from_env vars = Some config" "lake config (iceberg_namespace vars) = (ie, table)"
      "table \<in> {None, Some []}" "ie_catalog_ok ie" "ie_snapshots_ok ie" "data_dir args = w_dir wm"
  shows "(\<forall>c. staged_rows cat' c = staged_rows cat c @ map (stored_row_of (fe_serde fe) (fe_now fe)) (rows_of c b)) \<and>
    (\<exists>wm2. open_store env lake ls True vars args (disk_of wm') cat' = (Inr wm2, cat') \<and> abs_mgr (w_inner wm2) = base)"
proof -
  note erased = flush_erases_unstaged [OF env inv q batch newest fe run, of ls wal_config_default]
  then obtain wm2 where "wal_open env ls True (w_dir wm) (disk_of wm') = Inr wm2" "abs_mgr (w_inner wm2) = base"
    by (auto simp: wal_open_def)
  then show ?thesis using erased config by (simp add: open_store_def open_with_iceberg_def load_no_snapshots)
qed

text \<open>A catalog is configured.\<close>

definition lake_vars :: "string \<Rightarrow> string option" where
  "lake_vars key = (if key = ''ICEBERG_CATALOG_URI'' then Some ''http://catalog'' else None)"

theorem flushed_rows_forgotten_witness:
  "\<exists>wm r wm' cat' wm2. abs_mgr (w_inner wm) ''c'' \<noteq> None \<and>
    flush_once (tiny_env run_ops) (flush_example 5) id wm Map.empty = (r, wm', cat') \<and> length (staged_rows cat' ''c'') = 1 \<and>
    open_store (tiny_env run_ops) no_lake (\<lambda>_. 0) True lake_vars [''likhadb'', ''d''] (disk_of wm') cat' = (Inr wm2, cat') \<and>
    abs_mgr (w_inner wm2) = Map.empty"
proof -
  let ?env = "tiny_env run_ops" and ?q = "[wal_entry_new 2 (WInsert ''c'' 7 [0] None)] :: f64 wal_entry list" and ?fe = "flush_example 5"
  have env: "env_ok ?env map_of" by (rule tiny_env_ok) (simp add: run_ops_def)
  obtain wm es where wm: "waiting ?env wm ?q" "w_dir wm = ''d''" "wal_inv ?env wm Map.empty [] es" "\<forall>e \<in> set es. e_lsn e \<le> 2"
      "abs_mgr (w_inner wm) ''c'' \<noteq> None"
    using example_run by blast
  obtain r wm' cat' where run: "flush_once ?env ?fe id wm Map.empty = (r, wm', cat')" by (cases "flush_once ?env ?fe id wm Map.empty")
  have batch: "?q = take (fe_max_batch_entries ?fe) ?q" "?q \<noteq> []" "\<forall>e \<in> set ?q. row_of_entry e \<noteq> None"
    by (simp_all add: flush_example_def row_of_entry_def wal_entry_new_def)
  have newest: "\<forall>e \<in> set ([] @ es). e_lsn e \<le> e_lsn (last ?q)" using wm(4) by (simp add: wal_entry_new_def)
  have fe: "\<And>bs. mset (fe_order ?fe bs) = mset bs" "fe_catalog_ok ?fe" "fe_truncate ?fe = TrOk" "\<And>c. fe_stage ?fe c = StOk"
    by (simp_all add: flush_example_def)
  obtain config where config: "iceberg_config_from_env lake_vars = Some config" by (simp add: iceberg_config_from_env_def lake_vars_def)
  have lake: "no_lake config (iceberg_namespace lake_vars) = (iceberg_example, None)" "ie_catalog_ok iceberg_example" "ie_snapshots_ok iceberg_example"
    by (simp_all add: no_lake_def iceberg_example_def)
  have dir: "data_dir [''likhadb'', ''d''] = w_dir wm" by (simp add: data_dir_def wm(2))
  have "rows_of ''c'' ?q = [\<lparr>sr_id = 7, sr_vector = [0], sr_payload = None, sr_lsn = 2, sr_is_tombstone = False\<rparr>]"
    by (simp add: rows_of_single row_of_entry_def wal_entry_new_def)
  then have "length (staged_rows cat' ''c'') = 1 \<and>
      (\<exists>wm2. open_store ?env no_lake (\<lambda>_. 0) True lake_vars [''likhadb'', ''d''] (disk_of wm') cat' = (Inr wm2, cat') \<and> abs_mgr (w_inner wm2) = Map.empty)"
    using flushed_rows_forgotten [where fe = ?fe and ls = "\<lambda>_. 0" and vars = lake_vars and lake = no_lake and b = ?q and base = Map.empty and table = None and args = "[''likhadb'', ''d'']", OF env wm(3,1) batch newest _ fe(2,3) _ run config lake(1) _ lake(2,3) dir] fe(1,4)
    by (simp add: staged_rows_def)
  then show ?thesis using run wm(5) by blast
qed

section \<open>A build of another collection\<close>

text \<open>C21. A finished build does not know which collection it was made for. When a collection is dropped and created again
  while a worker still rebuilds the old one, and a compaction of the new one has been prepared in the meantime, the old
  build is put in: the new collection has exactly the vectors of the dropped one when its compaction was prepared, whatever
  it held itself and whatever its dimension is, and the build that was made for it is thrown away as stale.\<close>

theorem stale_compaction_swaps:
  assumes old: "hm_get (w_inner wm) col = Some c" "col_inv any_params (x_rt env) c"
    and prepared: "wal_prepare_index_compaction wm col th = (Inr (Some (Inr p)), wm1)"
    and new: "hm_get (w_inner wm2) col = Some c2"
    and again: "wal_prepare_index_compaction wm2 col th2 = (Inr (Some (Inr p2)), wm3)"
  shows "\<exists>build wm4 c4. prepared_build (x_rt env) ls p = Inr build \<and>
    finish_compaction_task env ls' wm3 col (Some (Inr build)) = (CSuccess, wm4) \<and> hm_get (w_inner wm4) col = Some c4 \<and>
    ix_get (c_index c4) = ix_get (c_index c) \<and> ix_dim (c_index c4) = c_dim c \<and>
    c_dim c4 = c_dim c2 \<and> c_meta c4 = c_meta c2 \<and>
    (\<forall>q. \<exists>wm5. finish_compaction_task env ls' wm4 col (Some (Inr q)) = (CStale, wm5) \<and> hm_get (w_inner wm5) col = Some c4)"
proof -
  have p: "ix_prepare_compaction (c_index c) = Some (Inr p)" "ix_dim (c_index c) = c_dim c"
    using prepared old by (auto simp: wal_prepare_index_compaction_def on_collection_def prepare_index_compaction_def map_prod_eq col_inv_def
      split: if_splits option.splits sum.splits)
  obtain build where b: "prepared_build (x_rt env) ls p = Inr build" "ix_get build = ix_get (c_index c)" "ix_dim build = c_dim c"
    using prepared_build_ok [OF _ p(1), of any_params "x_rt env" ls] old(2) p(2) by (auto simp: col_inv_def)
  have wm3: "hm_get (w_inner wm3) col = Some (c2\<lparr>c_journal := Some []\<rparr>)"
    using again new by (auto simp: wal_prepare_index_compaction_def on_collection_def prepare_index_compaction_def map_prod_eq hm_get_insert
      split: if_splits option.splits sum.splits)
  let ?c4 = "c2\<lparr>c_journal := None, c_index := build\<rparr>"
  have "finish_compaction_task env ls' wm3 col (Some (Inr build)) = (CSuccess, wm3\<lparr>w_inner := hm_insert col ?c4 (w_inner wm3)\<rparr>)"
    by (simp add: finish_compaction_task_def wal_finish_index_compaction_def on_collection_def wm3 finish_index_compaction_def)
  moreover have "finish_compaction_task env ls' (wm3\<lparr>w_inner := hm_insert col ?c4 (w_inner wm3)\<rparr>) col (Some (Inr q)) =
      (CStale, wm3\<lparr>w_inner := hm_insert col ?c4 (hm_insert col ?c4 (w_inner wm3))\<rparr>)" for q
    by (simp add: finish_compaction_task_def wal_finish_index_compaction_def on_collection_def finish_index_compaction_def hm_get_insert)
  ultimately show ?thesis using b
    by (intro exI [of _ build] exI [of _ "wm3\<lparr>w_inner := hm_insert col ?c4 (w_inner wm3)\<rparr>"] exI [of _ ?c4]) (auto simp: hm_get_insert)
qed

text \<open>Two collections of one name, the first holding one vector and the second another one, each written twice, so that half
  of their nodes are dead and both are due for a compaction under the default threshold of 0.2.\<close>

definition docs_example :: "any_index \<Rightarrow> (f64, (vecid \<times> string) list) wal_manager" where
  "docs_example ix = opened tiny_config ''d'' \<lparr>d_snapshot = None, d_wal = None\<rparr>
     \<lparr>rp_mgr = hm_insert ''docs'' (collection_with_index ''docs'' 1 L2 ix) manager_new, rp_last_lsn = 0, rp_entries = 0, rp_since = 0,
      rp_report = report_empty\<rparr> 0 0 0"

lemma docs_example_get [simp]: "hm_get (w_inner (docs_example ix)) ''docs'' = Some (collection_with_index ''docs'' 1 L2 ix)"
  by (simp add: docs_example_def opened_def hm_get_insert)

lemma link_back_nodes: "length (h_nodes (link_back rt i lc ix nbr)) = length (h_nodes ix)"
  by (simp add: link_back_def prune_connections_def set_layer_def Let_def)

lemma link_backs_nodes: "length (h_nodes (foldl (link_back rt i lc) ix nbrs)) = length (h_nodes ix)"
  by (induction nbrs arbitrary: ix) (simp_all add: link_back_nodes)

lemma relink_nodes:
  "length (h_nodes (foldl (\<lambda>s lc. foldl (link_back rt i lc) s (layer_of s i lc)) ix lcs)) = length (h_nodes ix)"
  by (induction lcs arbitrary: ix) (simp_all add: link_backs_nodes)

lemma hnsw_insert_nodes: "hnsw_insert rt l ix y v = Inr ix' \<Longrightarrow> length (h_nodes ix') = Suc (length (h_nodes ix))"
  by (auto simp: hnsw_insert_def commit_insert_def Let_def relink_nodes split: if_splits)

lemma half_dead: "\<not> f32_le (f32_div (f32_of_nat 1) (f32_of_nat 2)) 0x3E4CCCCD"
proof -
  have one: "f32_of_nat 1 = 0x3F800000" "f32_of_nat 2 = 0x40000000" by (simp_all add: f32_of_nat_def float_eval)
  have dec: "f32_dec 0x3F800000 = Num False 8388608 (-23)" "f32_dec 0x40000000 = Num False 8388608 (-22)" by (simp_all add: float_eval)
  have "bitlen 8388608 = 24" "bitlen 1125899906842624 = 51" by (simp_all add: bitlen.simps)
  then have "fl_div_enc 23 8 (Num False 8388608 (-23)) (Num False 8388608 (-22)) = 1056964608"
    by (simp add: Let_def) (simp add: fl_round_def fl_emin_def Let_def)
  then have "f32_div (f32_of_nat 1) (f32_of_nat 2) = 0x3F000000" unfolding one f32_div_def dec by simp
  then show ?thesis by (simp add: f32_le_def float_eval)
qed

lemma written_twice:
  "\<exists>s1 s2. hnsw_insert plain_rt 0 hnsw_example y [0] = Inr s1 \<and> hnsw_insert plain_rt 0 s1 y [0] = Inr s2 \<and>
    hnsw_inv plain_rt s2 \<and> h_dim s2 = 1 \<and> hnsw_get s2 = [y \<mapsto> [0]] \<and> \<not> f32_le (hnsw_tombstone_ratio s2) 0x3E4CCCCD"
proof -
  have ok: "hnsw_inv plain_rt hnsw_example" using hnsw_example_ok plain_rt_ok by (simp add: hnsw_inv_def)
  have d: "h_dim hnsw_example = 1" and e: "hnsw_get hnsw_example = Map.empty" "length (h_nodes hnsw_example) = 0"
    using hnsw_new_ok [OF hnsw_example_new] by (simp_all add: hnsw_example_def)
  obtain s1 where s1: "hnsw_insert plain_rt 0 hnsw_example y [0] = Inr s1" using hnsw_insert_total [of "[0]" hnsw_example plain_rt 0 y] d by auto
  note i1 = hnsw.insert_ok [OF ok s1] hnsw.insert_get [OF ok s1] hnsw_insert_nodes [OF s1]
  then obtain s2 where s2: "hnsw_insert plain_rt 0 s1 y [0] = Inr s2" using hnsw_insert_total [of "[0]" s1 plain_rt 0 y] d by auto
  have ok1: "hnsw_inv plain_rt s1" using i1 by simp
  note i2 = hnsw.insert_ok [OF ok1 s2] hnsw.insert_get [OF ok1 s2] hnsw_insert_nodes [OF s2]
  have g: "hnsw_get s2 = [y \<mapsto> [0]]" using i1 i2 e by simp
  have "hnsw_len s2 = 1" using hnsw.len_ok [of plain_rt s2] i2 by (simp add: g)
  moreover have "length (h_nodes s2) = 2" using i1 i2 e by simp
  ultimately have "hnsw_tombstone_ratio s2 = f32_div (f32_of_nat 1) (f32_of_nat 2)" by (simp add: hnsw_tombstone_ratio_def)
  then show ?thesis using s1 s2 i1 i2 d g half_dead by simp
qed

lemma docs_example_prepare:
  assumes "hnsw_inv plain_rt s" "\<not> f32_le (hnsw_tombstone_ratio s) th"
  shows "\<exists>p wm. wal_prepare_index_compaction (docs_example (HnswIndex s)) ''docs'' th = (Inr (Some (Inr p)), wm)"
proof -
  obtain r where r: "ix_prepare_compaction (HnswIndex s) = Some r"
    by (cases "ix_prepare_compaction (HnswIndex s)") (auto simp: ix_prepare_compaction_def split: sum.splits prod.splits)
  then obtain p where "r = Inr p" using prepare_compaction_ok [OF _ r, of any_params plain_rt] assms(1) by (auto simp: any_inv_def)
  then show ?thesis using r assms(2)
    by (simp add: wal_prepare_index_compaction_def on_collection_def prepare_index_compaction_def ix_tombstone_ratio_def collection_with_index_def)
qed

theorem stale_compaction_swaps_witness:
  "\<exists>old new p p2 wm1 wm3 build wm4 c4. hnsw_get old = [9 \<mapsto> [0]] \<and> hnsw_get new = [7 \<mapsto> [0]] \<and>
    wal_prepare_index_compaction (docs_example (HnswIndex old)) ''docs'' 0x3E4CCCCD = (Inr (Some (Inr p)), wm1) \<and>
    wal_prepare_index_compaction (docs_example (HnswIndex new)) ''docs'' 0x3E4CCCCD = (Inr (Some (Inr p2)), wm3) \<and>
    prepared_build plain_rt (\<lambda>_. 0) p = Inr build \<and>
    finish_compaction_task (tiny_env []) (\<lambda>_. 0) wm3 ''docs'' (Some (Inr build)) = (CSuccess, wm4) \<and>
    hm_get (w_inner wm4) ''docs'' = Some c4 \<and> ix_get (c_index c4) = [9 \<mapsto> [0]]"
proof -
  obtain old where old: "hnsw_inv plain_rt old" "h_dim old = 1" "hnsw_get old = [9 \<mapsto> [0]]" "\<not> f32_le (hnsw_tombstone_ratio old) 0x3E4CCCCD"
    using written_twice by blast
  obtain new where new: "hnsw_inv plain_rt new" "hnsw_get new = [7 \<mapsto> [0]]" "\<not> f32_le (hnsw_tombstone_ratio new) 0x3E4CCCCD"
    using written_twice by blast
  let ?c = "collection_with_index ''docs'' 1 L2 (HnswIndex old)"
  have rt: "x_rt (tiny_env []) = plain_rt" by (simp add: tiny_env_def)
  have c: "col_inv any_params (x_rt (tiny_env [])) ?c"
    unfolding rt using old(1,2) by (intro placed_new) (simp_all add: any_inv_def ix_dim_def)
  obtain p wm1 where p: "wal_prepare_index_compaction (docs_example (HnswIndex old)) ''docs'' 0x3E4CCCCD = (Inr (Some (Inr p)), wm1)"
    using docs_example_prepare [OF old(1,4)] by blast
  obtain p2 wm3 where p2: "wal_prepare_index_compaction (docs_example (HnswIndex new)) ''docs'' 0x3E4CCCCD = (Inr (Some (Inr p2)), wm3)"
    using docs_example_prepare [OF new(1,3)] by blast
  have "ix_get (c_index ?c) = [9 \<mapsto> [0]]" using old(3) by (simp add: collection_with_index_def ix_get_def)
  then show ?thesis
    using stale_compaction_swaps [OF docs_example_get c p docs_example_get p2, of "\<lambda>_. 0" "\<lambda>_. 0"] old(3) new(2) p p2
    unfolding rt by (intro exI [of _ old] exI [of _ new] exI [of _ p] exI [of _ p2] exI [of _ wm1] exI [of _ wm3]) auto
qed

end
