(* ===== verification/Stress.thy ===== *)
theory Stress
  imports System
begin

text \<open>
  The stress driver (\<open>likhadb-stress\<close>): its load phases and what it makes of the answers. What it sends are the requests of
  \<open>Server\<close>; how they are answered, and when, comes from a record of functions, the connection. The results say that every
  phase sends each of its requests once, and that the server of \<open>System\<close> passes the chaos phase.
\<close>

section \<open>Arguments and vectors\<close>

record stress_args =
  sa_host :: string
  sa_dim :: nat
  sa_vectors :: nat
  sa_queries :: nat
  sa_concurrency :: nat
  sa_k :: nat
  sa_no_cleanup :: bool
  sa_timeout_ms :: u64
  sa_max_concurrency :: nat
  sa_error_threshold :: f64
  sa_p99_slo_ms :: u64
  sa_spike_factor :: nat
  sa_soak_secs :: nat
  sa_chaos_ops :: nat
  sa_skip_baseline :: bool
  sa_skip_ramp :: bool
  sa_skip_spike :: bool
  sa_skip_soak :: bool
  sa_skip_chaos :: bool

text \<open>The threshold is 5.0.\<close>

definition stress_args_default :: stress_args where
  "stress_args_default = \<lparr>sa_host = ''http://localhost:8080'', sa_dim = 128, sa_vectors = 10000, sa_queries = 500,
     sa_concurrency = 8, sa_k = 10, sa_no_cleanup = False, sa_timeout_ms = 5000, sa_max_concurrency = 64,
     sa_error_threshold = 0x4014000000000000, sa_p99_slo_ms = 500, sa_spike_factor = 4, sa_soak_secs = 30, sa_chaos_ops = 1000,
     sa_skip_baseline = False, sa_skip_ramp = False, sa_skip_spike = False, sa_skip_soak = False, sa_skip_chaos = False\<rparr>"

text \<open>\<open>rng\<close>: the numbers that a generator of \<open>rand\<close> draws, by its seed.\<close>

definition make_vec :: "(u64 \<Rightarrow> nat \<Rightarrow> f32) \<Rightarrow> u64 \<Rightarrow> nat \<Rightarrow> vec" where
  "make_vec rng seed dim = map (\<lambda>i. f32_sub (f32_mul (rng seed i) 0x40000000) f32_one) [0..<dim]"

definition make_query :: "(u64 \<Rightarrow> nat \<Rightarrow> f32) \<Rightarrow> u64 \<Rightarrow> nat \<Rightarrow> vec" where
  "make_query rng seed dim = make_vec rng (seed + 0x7FFFFFFFFFFFFFFF) dim"

lemma length_make_vec [simp]: "length (make_vec rng seed dim) = dim" "length (make_query rng seed dim) = dim"
  by (simp_all add: make_vec_def make_query_def)

section \<open>Measurements\<close>

text \<open>\<open>a as f64 / b as f64\<close>; \<open>pr_elapsed\<close> is in seconds.\<close>

definition f64_of_nat :: "nat \<Rightarrow> f64" where
  "f64_of_nat n = f64_enc (Num False n 0)"

definition f64_div :: "f64 \<Rightarrow> f64 \<Rightarrow> f64" where
  "f64_div x y = of_nat (fl_div_enc 52 11 (f64_dec x) (f64_dec y))"

text \<open>\<open>x as u64\<close> truncates and saturates.\<close>

definition f64_to_u64 :: "f64 \<Rightarrow> u64" where
  "f64_to_u64 x = (case f64_dec x of
       NaN \<Rightarrow> 0
     | Inf s \<Rightarrow> if s then 0 else - 1
     | Num s m e \<Rightarrow> if s then 0 else of_nat (min (2 ^ 64 - 1) (fl_trunc (Num s m e))))"

record phase_result =
  pr_latencies_us :: "u64 list"
  pr_errors :: nat
  pr_timeouts :: nat
  pr_total :: nat
  pr_elapsed :: f64

definition phase_result_new :: "u64 list \<Rightarrow> nat \<Rightarrow> nat \<Rightarrow> f64 \<Rightarrow> phase_result" where
  "phase_result_new latencies_us errors timeouts elapsed =
     \<lparr>pr_latencies_us = sort latencies_us, pr_errors = errors, pr_timeouts = timeouts,
      pr_total = length latencies_us + errors + timeouts, pr_elapsed = elapsed\<rparr>"

definition pr_success :: "phase_result \<Rightarrow> nat" where
  "pr_success r = length (pr_latencies_us r)"

definition error_rate :: "phase_result \<Rightarrow> f64" where
  "error_rate r = (if pr_total r = 0 then 0
     else f64_mul (f64_div (f64_of_nat (pr_errors r + pr_timeouts r)) (f64_of_nat (pr_total r))) 0x4059000000000000)"

definition percentile :: "phase_result \<Rightarrow> nat \<Rightarrow> u64" where
  "percentile r p = (if pr_latencies_us r = [] then 0
     else pr_latencies_us r ! min (length (pr_latencies_us r) * p div 100) (length (pr_latencies_us r) - 1))"

definition throughput :: "phase_result \<Rightarrow> f64" where
  "throughput r = f64_div (f64_of_nat (pr_total r)) (pr_elapsed r)"

definition meets_p99_slo :: "phase_result \<Rightarrow> u64 \<Rightarrow> bool" where
  "meets_p99_slo r slo_ms \<longleftrightarrow> percentile r 99 \<le> slo_ms * 1000"

section \<open>Answers\<close>

datatype stress_outcome = Success u64 | HttpError nat | Timeout | NetworkError

text \<open>
  \<open>hr_status\<close> is \<open>None\<close> when the connection fails; \<open>hr_late\<close> says whether the limit, if there is one, passes before the
  answer is there.
\<close>

record http_reply =
  hr_late :: bool
  hr_us :: u64
  hr_status :: "nat option"

definition is_success :: "nat \<Rightarrow> bool" where
  "is_success s \<longleftrightarrow> 200 \<le> s \<and> s < 300"

definition send_timed :: "u64 \<Rightarrow> http_reply \<Rightarrow> stress_outcome" where
  "send_timed timeout_ms r =
     (if 0 < timeout_ms \<and> hr_late r then Timeout
      else case hr_status r of
          None \<Rightarrow> NetworkError
        | Some s \<Rightarrow> if is_success s then Success (hr_us r) else HttpError s)"

text \<open>
  The connection, with a state \<open>'w\<close> of its own: one request and its answer; the workers of a phase, each of which sends its
  requests one after the other, with the answers of each worker, in the order they were started, and the time the phase took; and the workers of a soak
  window, which send from an endless list until the window ends. \<open>cn_num\<close> makes a JSON number.
\<close>

record ('w, 'n) connection =
  cn_send :: "'w \<Rightarrow> 'n route \<Rightarrow> http_reply \<times> 'w"
  cn_spawn :: "'w \<Rightarrow> 'n route list list \<Rightarrow> http_reply list list \<times> f64 \<times> 'w"
  cn_until :: "'w \<Rightarrow> nat \<Rightarrow> (nat \<Rightarrow> 'n route) list \<Rightarrow> http_reply list list \<times> f64 \<times> 'w"
  cn_rng :: "u64 \<Rightarrow> nat \<Rightarrow> f32"
  cn_num :: "nat \<Rightarrow> 'n"

text \<open>\<open>error_for_status\<close> refuses the statuses of client and server errors.\<close>

definition health_check :: "('w, 'n) connection \<Rightarrow> 'w \<Rightarrow> bool \<times> 'w" where
  "health_check cn w = (case cn_send cn w Health of
     (r, w') \<Rightarrow> (case hr_status r of None \<Rightarrow> False | Some s \<Rightarrow> \<not> (400 \<le> s \<and> s < 600), w'))"

definition create_body :: "string \<Rightarrow> nat \<Rightarrow> index_config option \<Rightarrow> bool \<Rightarrow> create_request" where
  "create_body name dim index fts =
     \<lparr>cq_name = name, cq_dim = dim, cq_metric = ''cosine'', cq_index = (case index of None \<Rightarrow> CfgFlat | Some ix \<Rightarrow> ix),
      cq_enable_fts = fts, cq_source_binding = None\<rparr>"

definition stress_create :: "('w, 'n) connection \<Rightarrow> 'w \<Rightarrow> string \<Rightarrow> nat \<Rightarrow> index_config option \<Rightarrow> bool \<Rightarrow> bool \<times> 'w" where
  "stress_create cn w name dim index fts = (case cn_send cn w (CreateRoute (create_body name dim index fts)) of
     (r, w') \<Rightarrow> (case hr_status r of None \<Rightarrow> False | Some s \<Rightarrow> is_success s, w'))"

definition stress_drop :: "('w, 'n) connection \<Rightarrow> 'w \<Rightarrow> string \<Rightarrow> 'w" where
  "stress_drop cn w name = snd (cn_send cn w (DropRoute name))"

section \<open>The phases\<close>

type_synonym worker_stats = "u64 list \<times> nat \<times> nat"

definition note_outcome :: "worker_stats \<Rightarrow> stress_outcome \<Rightarrow> worker_stats" where
  "note_outcome acc z = (case acc of (lats, errors, tos) \<Rightarrow> (case z of
       Success us \<Rightarrow> (lats @ [us], errors, tos)
     | HttpError _ \<Rightarrow> (lats, errors + 1, tos)
     | NetworkError \<Rightarrow> (lats, errors + 1, tos)
     | Timeout \<Rightarrow> (lats, errors, tos + 1)))"

definition worker :: "stress_outcome list \<Rightarrow> worker_stats" where
  "worker zs = foldl note_outcome ([], 0, 0) zs"

definition merge_workers :: "worker_stats list \<Rightarrow> worker_stats" where
  "merge_workers collected =
     foldl (\<lambda>(lats, errs, tos) (l, e, t). (lats @ l, errs + e, tos + t)) ([], 0, 0) collected"

record query_ctx =
  cx_collection :: string
  cx_dim :: nat
  cx_timeout_ms :: u64

text \<open>First request and number of requests of each worker, for \<open>concurrency\<close> above zero.\<close>

definition div_ceil :: "nat \<Rightarrow> nat \<Rightarrow> nat" where
  "div_ceil a b = (if a mod b = 0 then a div b else a div b + 1)"

definition worker_shares :: "nat \<Rightarrow> nat \<Rightarrow> (nat \<times> nat) list" where
  "worker_shares n concurrency =
     (let per = div_ceil n concurrency
      in takeWhile (\<lambda>(base, n_own). n_own \<noteq> 0) (map (\<lambda>w. (w * per, min per (n - w * per))) [0..<concurrency]))"

text \<open>The common body of the phases; \<open>div_ceil\<close> panics (\<open>None\<close>) without workers.\<close>

definition load_phase ::
  "('w, 'n) connection \<Rightarrow> 'w \<Rightarrow> query_ctx \<Rightarrow> nat \<Rightarrow> nat \<Rightarrow> (nat \<Rightarrow> 'n route) \<Rightarrow> (phase_result \<times> 'w) option"
where
  "load_phase cn w ctx n concurrency request =
     (if concurrency = 0 then None
      else case cn_spawn cn w (map (\<lambda>(base, n_own). map request [base..<base + n_own]) (worker_shares n concurrency)) of
          (replies, elapsed, w') \<Rightarrow>
            (case merge_workers (map (\<lambda>rs. worker (map (send_timed (cx_timeout_ms ctx)) rs)) replies) of
               (lats, errs, tos) \<Rightarrow> Some (phase_result_new lats errs tos elapsed, w')))"

definition insert_phase :: "('w, 'n) connection \<Rightarrow> 'w \<Rightarrow> query_ctx \<Rightarrow> nat \<Rightarrow> nat \<Rightarrow> (phase_result \<times> 'w) option" where
  "insert_phase cn w ctx n concurrency = load_phase cn w ctx n concurrency (\<lambda>i.
     InsertRoute (cx_collection ctx) \<lparr>iq_id = of_nat i, iq_vector = make_vec (cn_rng cn) (of_nat i) (cx_dim ctx),
       iq_payload = Some (JObj [(''seq'', JNum (cn_num cn i))])\<rparr>)"

definition query_body :: "vec \<Rightarrow> nat \<Rightarrow> 'n query_request" where
  "query_body v k = \<lparr>qq_vector = v, qq_k = k, qq_filter = None, qq_include_payload = False, qq_allowed_teams = [], qq_query_text = None\<rparr>"

definition query_phase :: "('w, 'n) connection \<Rightarrow> 'w \<Rightarrow> query_ctx \<Rightarrow> nat \<Rightarrow> nat \<Rightarrow> nat \<Rightarrow> (phase_result \<times> 'w) option" where
  "query_phase cn w ctx q k concurrency = load_phase cn w ctx q concurrency (\<lambda>i.
     QueryRoute (cx_collection ctx) (query_body (make_query (cn_rng cn) (of_nat i) (cx_dim ctx)) k))"

definition CORPUS :: "string list" where
  "CORPUS = [
     ''vector database semantic similarity embeddings retrieval augmented'',
     ''approximate nearest neighbor graph HNSW index performance'',
     ''full text search BM25 ranking relevance scoring'',
     ''rust programming systems performance zero cost abstractions'',
     ''machine learning transformer model embedding generation inference'',
     ''parquet columnar storage lakehouse architecture iceberg delta'',
     ''reciprocal rank fusion hybrid retrieval pipeline'',
     ''inverted file index clustering k-means centroids training'',
     ''cosine similarity dot product euclidean distance metrics'',
     ''tokio async runtime concurrent parallel task scheduling'',
     ''write ahead log durability crash recovery snapshot bincode'',
     ''scalar quantization compression memory efficiency SQ8'',
     ''prometheus metrics observability latency histogram percentile'',
     ''axum web framework HTTP REST JSON API handlers'',
     ''tantivy full text search engine indexing analysis'',
     ''rayon parallel iterator thread pool compute simd'',
     ''SIMD intrinsics NEON AVX2 distance kernel acceleration'',
     ''data warehouse analytics OLAP columnar scan pushdown'',
     ''sentence transformer BERT language model fine tuning'',
     ''metadata filtering predicate pushdown index scan filter'']"

definition SEARCH_TERMS :: "string list" where
  "SEARCH_TERMS = [''vector'', ''search'', ''rust'', ''index'', ''embedding'', ''retrieval'', ''HNSW'', ''BM25'']"

definition insert_hybrid_phase :: "('w, 'n) connection \<Rightarrow> 'w \<Rightarrow> query_ctx \<Rightarrow> nat \<Rightarrow> nat \<Rightarrow> (phase_result \<times> 'w) option" where
  "insert_hybrid_phase cn w ctx n concurrency = load_phase cn w ctx n concurrency (\<lambda>i.
     InsertRoute (cx_collection ctx) \<lparr>iq_id = of_nat i, iq_vector = make_vec (cn_rng cn) (of_nat i) (cx_dim ctx),
       iq_payload = Some (JObj [(''body'', JStr (CORPUS ! (i mod length CORPUS))), (''seq'', JNum (cn_num cn i))])\<rparr>)"

text \<open>The fusion constant is the default of the server.\<close>

definition hybrid_query_phase :: "('w, 'n) connection \<Rightarrow> 'w \<Rightarrow> query_ctx \<Rightarrow> nat \<Rightarrow> nat \<Rightarrow> nat \<Rightarrow> (phase_result \<times> 'w) option" where
  "hybrid_query_phase cn w ctx q k concurrency = load_phase cn w ctx q concurrency (\<lambda>i.
     HybridRoute (cx_collection ctx) \<lparr>hq_vector = make_query (cn_rng cn) (of_nat i) (cx_dim ctx),
       hq_text = SEARCH_TERMS ! (i mod length SEARCH_TERMS), hq_k = k, hq_rrf_k = 60, hq_filter = None,
       hq_include_payload = False, hq_allowed_teams = []\<rparr>)"

section \<open>Ramp, spike and soak\<close>

text \<open>\<open>None\<close>: the doubling does not end.\<close>

partial_function (option) ramp_levels :: "nat \<Rightarrow> nat \<Rightarrow> nat list option" where
  "ramp_levels max_concurrency c =
     (if max_concurrency \<le> c then Some [c]
      else Option.bind (ramp_levels max_concurrency (min (c * 2) max_concurrency)) (\<lambda>levels. Some (c # levels)))"

record ramp_step =
  rs_concurrency :: nat
  rs_result :: phase_result
  rs_is_breaking_point :: bool

fun ramp_steps ::
  "('w, 'n) connection \<Rightarrow> query_ctx \<Rightarrow> nat \<Rightarrow> nat \<Rightarrow> f64 \<Rightarrow> u64 \<Rightarrow> nat list \<Rightarrow> 'w \<Rightarrow> (ramp_step list \<times> 'w) option"
where
  "ramp_steps cn ctx k queries_per_step error_threshold p99_slo_ms [] w = Some ([], w)"
| "ramp_steps cn ctx k queries_per_step error_threshold p99_slo_ms (c # levels) w =
     Option.bind (query_phase cn w ctx queries_per_step k c) (\<lambda>(result, w1).
       let is_breaking_point = f64_lt error_threshold (error_rate result) \<or> \<not> meets_p99_slo result p99_slo_ms;
           st = \<lparr>rs_concurrency = c, rs_result = result, rs_is_breaking_point = is_breaking_point\<rparr>
       in if is_breaking_point then Some ([st], w1)
          else Option.bind (ramp_steps cn ctx k queries_per_step error_threshold p99_slo_ms levels w1) (\<lambda>(steps, w2).
                 Some (st # steps, w2)))"

definition ramp_phase ::
  "('w, 'n) connection \<Rightarrow> 'w \<Rightarrow> query_ctx \<Rightarrow> nat \<Rightarrow> nat \<Rightarrow> nat \<Rightarrow> f64 \<Rightarrow> u64 \<Rightarrow> (ramp_step list \<times> 'w) option"
where
  "ramp_phase cn w ctx k queries_per_step max_concurrency error_threshold p99_slo_ms =
     Option.bind (ramp_levels max_concurrency 1) (\<lambda>levels.
       ramp_steps cn ctx k queries_per_step error_threshold p99_slo_ms levels w)"

record spike_result =
  sr_warmup :: phase_result
  sr_spike :: phase_result
  sr_recovery :: phase_result

definition spike_phase ::
  "('w, 'n) connection \<Rightarrow> 'w \<Rightarrow> query_ctx \<Rightarrow> nat \<Rightarrow> nat \<Rightarrow> nat \<Rightarrow> nat \<Rightarrow> (spike_result \<times> 'w) option"
where
  "spike_phase cn w ctx k base_concurrency spike_factor queries =
     (let spike_concurrency = max (base_concurrency * spike_factor) (base_concurrency + 1);
          spike_queries = queries * spike_factor
      in Option.bind (query_phase cn w ctx queries k base_concurrency) (\<lambda>(warmup, w1).
         Option.bind (query_phase cn w1 ctx spike_queries k spike_concurrency) (\<lambda>(spike, w2).
         Option.bind (query_phase cn w2 ctx queries k base_concurrency) (\<lambda>(recovery, w3).
           Some (\<lparr>sr_warmup = warmup, sr_spike = spike, sr_recovery = recovery\<rparr>, w3)))))"

text \<open>The lines that \<open>main\<close> prints of a spike: the degradation, and whether the recovery is within 1.5 times the warm-up.\<close>

definition spike_report :: "spike_result \<Rightarrow> f64 \<times> bool" where
  "spike_report sr =
     (let warmup_p99 = max (percentile (sr_warmup sr) 99) 1;
          spike_p99 = percentile (sr_spike sr) 99;
          recovery_p99 = percentile (sr_recovery sr) 99
      in (f64_div (f64_of_nat (unat spike_p99)) (f64_of_nat (unat warmup_p99)),
          recovery_p99 \<le> f64_to_u64 (f64_mul (f64_of_nat (unat warmup_p99)) 0x3FF8000000000000)))"

text \<open>A window lasts \<open>window_ns\<close> nanoseconds.\<close>

definition soak_window ::
  "('w, 'n) connection \<Rightarrow> 'w \<Rightarrow> query_ctx \<Rightarrow> nat \<Rightarrow> nat \<Rightarrow> nat \<Rightarrow> u64 \<Rightarrow> phase_result \<times> 'w"
where
  "soak_window cn w ctx k concurrency window_ns seed_base =
     (case cn_until cn w window_ns (map (\<lambda>i j. QueryRoute (cx_collection ctx)
             (query_body (make_query (cn_rng cn) (seed_base + of_nat i * 100000 + of_nat j) (cx_dim ctx)) k)) [0..<concurrency]) of
        (replies, elapsed, w') \<Rightarrow>
          (case merge_workers (map (\<lambda>rs. worker (map (send_timed (cx_timeout_ms ctx)) rs)) replies) of
             (lats, errs, tos) \<Rightarrow> (phase_result_new lats errs tos elapsed, w')))"

fun soak_windows ::
  "('w, 'n) connection \<Rightarrow> query_ctx \<Rightarrow> nat \<Rightarrow> nat \<Rightarrow> nat \<Rightarrow> nat list \<Rightarrow> 'w \<Rightarrow> phase_result list \<times> 'w"
where
  "soak_windows cn ctx k concurrency window_ns [] w = ([], w)"
| "soak_windows cn ctx k concurrency window_ns (i # is) w =
     (case soak_window cn w ctx k concurrency window_ns (of_nat i * 10000000) of
        (r, w1) \<Rightarrow> map_prod (\<lambda>rs. r # rs) id (soak_windows cn ctx k concurrency window_ns is w1))"

definition soak_phase ::
  "('w, 'n) connection \<Rightarrow> 'w \<Rightarrow> query_ctx \<Rightarrow> nat \<Rightarrow> nat \<Rightarrow> nat \<Rightarrow> nat \<Rightarrow> (phase_result list \<times> 'w) option"
where
  "soak_phase cn w ctx k concurrency total_ns n_windows =
     (if n_windows = 0 then None
      else Some (soak_windows cn ctx k concurrency (total_ns div n_windows) [0..<n_windows] w))"

text \<open>The drift between the first and the last window, in per cent, and whether it is at most 20.\<close>

definition soak_drift :: "phase_result list \<Rightarrow> (f64 \<times> bool) option" where
  "soak_drift windows =
     (if length windows < 2 then None
      else let first_p95 = f64_of_nat (unat (max (percentile (hd windows) 95) 1));
               last_p95 = f64_of_nat (unat (percentile (last windows) 95));
               drift_pct = f64_mul (f64_div (f64_sub last_p95 first_p95) first_p95) 0x4059000000000000
           in Some (drift_pct, f64_le (and drift_pct 0x7FFFFFFFFFFFFFFF) 0x4034000000000000))"

section \<open>Chaos\<close>

definition ghost_name :: "nat \<Rightarrow> string" where
  "ghost_name i = ''ghost_chaos_'' @ show_nat i"

definition chaos_request :: "(u64 \<Rightarrow> nat \<Rightarrow> f32) \<Rightarrow> query_ctx \<Rightarrow> nat \<Rightarrow> 'n route" where
  "chaos_request rng ctx i =
     (let y = of_nat i; opn = i mod 5
      in if opn = 0 then QueryRoute (cx_collection ctx) (query_body (make_query rng y (cx_dim ctx)) 5)
         else if opn = 1 then InsertRoute (cx_collection ctx)
           \<lparr>iq_id = y + 10000000, iq_vector = make_vec rng (y + 10000000) (cx_dim ctx), iq_payload = None\<rparr>
         else if opn = 2 then QueryRoute (ghost_name i) (query_body (make_query rng y (cx_dim ctx)) 5)
         else if opn = 3 then InsertRoute (cx_collection ctx)
           \<lparr>iq_id = y + 20000000, iq_vector = replicate (cx_dim ctx + 1) 0x3F000000, iq_payload = None\<rparr>
         else GetRoute (cx_collection ctx) (y + 9000000))"

datatype chaos_kind = ValidOk | ExpectedErr | UnexpectedErr | TimedOut

definition chaos_kind_of :: "nat \<Rightarrow> stress_outcome \<Rightarrow> chaos_kind" where
  "chaos_kind_of i z = (case z of
       Success _ \<Rightarrow> if i mod 5 \<in> {0, 1} then ValidOk else UnexpectedErr
     | HttpError s \<Rightarrow> if i mod 5 \<in> {2, 3, 4} \<and> 400 \<le> s \<and> s < 500 then ExpectedErr else UnexpectedErr
     | Timeout \<Rightarrow> TimedOut
     | NetworkError \<Rightarrow> UnexpectedErr)"

record chaos_result =
  cr_total :: nat
  cr_valid_successes :: nat
  cr_expected_errors :: nat
  cr_unexpected_errors :: nat
  cr_timeouts :: nat
  cr_server_healthy :: bool

text \<open>The kinds of one worker's answers, and the counts of all workers.\<close>

definition chaos_worker :: "u64 \<Rightarrow> nat \<times> nat \<Rightarrow> http_reply list \<Rightarrow> chaos_kind list" where
  "chaos_worker timeout_ms own rs = map2 (\<lambda>i r. chaos_kind_of i (send_timed timeout_ms r)) [fst own..<fst own + snd own] rs"

definition chaos_phase :: "('w, 'n) connection \<Rightarrow> 'w \<Rightarrow> query_ctx \<Rightarrow> nat \<Rightarrow> nat \<Rightarrow> (chaos_result \<times> 'w) option" where
  "chaos_phase cn w ctx n_ops concurrency =
     (if concurrency = 0 then None
      else let shares = worker_shares n_ops concurrency
           in case cn_spawn cn w (map (\<lambda>(base, n_own). map (chaos_request (cn_rng cn) ctx) [base..<base + n_own]) shares) of
                (replies, elapsed, w1) \<Rightarrow>
                  let kinds = concat (map2 (chaos_worker (cx_timeout_ms ctx)) shares replies);
                      (server_healthy, w2) = health_check cn w1
                  in Some (\<lparr>cr_total = n_ops, cr_valid_successes = count_list kinds ValidOk,
                       cr_expected_errors = count_list kinds ExpectedErr, cr_unexpected_errors = count_list kinds UnexpectedErr,
                       cr_timeouts = count_list kinds TimedOut, cr_server_healthy = server_healthy\<rparr>, w2))"

section \<open>The driver\<close>

definition ctx_of :: "stress_args \<Rightarrow> string \<Rightarrow> query_ctx" where
  "ctx_of args name = \<lparr>cx_collection = name, cx_dim = sa_dim args, cx_timeout_ms = sa_timeout_ms args\<rparr>"

definition baseline_configs :: "(string \<times> index_config option) list" where
  "baseline_configs = [(''flat'', None), (''ivf'', Some (CfgIvf 100 10)), (''hnsw'', Some (CfgHnsw 16 200 50))]"

type_synonym baseline_row = "string \<times> phase_result \<times> phase_result"

text \<open>One index; no row if its collection cannot be created.\<close>

definition baseline_run ::
  "('w, 'n) connection \<Rightarrow> stress_args \<Rightarrow> string \<times> index_config option \<Rightarrow> 'w \<Rightarrow> (baseline_row list \<times> 'w) option"
where
  "baseline_run cn args cfg w = (case cfg of (tag, index) \<Rightarrow>
     let name = ''stress_'' @ tag; ctx = ctx_of args name;
         (created, w1) = stress_create cn (stress_drop cn w name) name (sa_dim args) index False
     in if \<not> created then Some ([], w1)
        else Option.bind (insert_phase cn w1 ctx (sa_vectors args) (sa_concurrency args)) (\<lambda>(ins, w2).
             Option.bind (query_phase cn w2 ctx (sa_queries args) (sa_k args) (sa_concurrency args)) (\<lambda>(qry, w3).
               Some ([(tag, ins, qry)], w3))))"

fun baseline_runs ::
  "('w, 'n) connection \<Rightarrow> stress_args \<Rightarrow> (string \<times> index_config option) list \<Rightarrow> 'w \<Rightarrow> (baseline_row list \<times> 'w) option"
where
  "baseline_runs cn args [] w = Some ([], w)"
| "baseline_runs cn args (cfg # cfgs) w =
     Option.bind (baseline_run cn args cfg w) (\<lambda>(row1, w1).
     Option.bind (baseline_runs cn args cfgs w1) (\<lambda>(rows1, w2). Some (row1 @ rows1, w2)))"

text \<open>The hybrid part. Its collection is noted for the cleanup only when it could be created.\<close>

definition hybrid_run :: "('w, 'n) connection \<Rightarrow> stress_args \<Rightarrow> 'w \<Rightarrow> ((baseline_row list \<times> string list) \<times> 'w) option" where
  "hybrid_run cn args w =
     (let n_hybrid = max (sa_vectors args div 10) 500; q_hybrid = max (sa_queries args div 5) 50;
          name = ''stress_hybrid''; ctx = ctx_of args name;
          (created, w1) = stress_create cn (stress_drop cn w name) name (sa_dim args) None True
      in if \<not> created then Some (([], []), w1)
         else Option.bind (insert_hybrid_phase cn w1 ctx n_hybrid (sa_concurrency args)) (\<lambda>(ins, w2).
              Option.bind (hybrid_query_phase cn w2 ctx q_hybrid (sa_k args) (sa_concurrency args)) (\<lambda>(qry, w3).
                Some (([(''hybrid'', ins, qry)], [name]), w3))))"

definition baseline ::
  "('w, 'n) connection \<Rightarrow> stress_args \<Rightarrow> 'w \<Rightarrow> ((baseline_row list \<times> string list) \<times> 'w) option"
where
  "baseline cn args w =
     (if sa_skip_baseline args then Some (([], []), w)
      else Option.bind (baseline_runs cn args baseline_configs w) (\<lambda>(rows1, w1).
           Option.bind (hybrid_run cn args w1) (\<lambda>((rows2, names), w2).
             Some ((rows1 @ rows2, map (\<lambda>(tag, _). ''stress_'' @ tag) baseline_configs @ names), w2))))"

text \<open>A phase that may be skipped.\<close>

definition phase_unless :: "bool \<Rightarrow> ('w \<Rightarrow> ('a \<times> 'w) option) \<Rightarrow> 'w \<Rightarrow> ('a option \<times> 'w) option" where
  "phase_unless skip phase w = (if skip then Some (None, w) else map_option (map_prod Some id) (phase w))"

definition finalize :: "('w, 'n) connection \<Rightarrow> stress_args \<Rightarrow> string list \<Rightarrow> 'w \<Rightarrow> 'w" where
  "finalize cn args all_collections w =
     (if sa_no_cleanup args then w else foldl (stress_drop cn) w all_collections)"

record stress_report =
  rp_baseline :: "baseline_row list"
  rp_ramp :: "ramp_step list option"
  rp_spike :: "spike_result option"
  rp_soak :: "phase_result list option"
  rp_chaos :: "chaos_result option"
  rp_verdict :: "(string \<times> bool) list"

datatype stress_exit = Unreachable | Aborted "baseline_row list" | Reported stress_report

definition any_stress :: "stress_args \<Rightarrow> bool" where
  "any_stress args \<longleftrightarrow> \<not> sa_skip_ramp args \<or> \<not> sa_skip_spike args \<or> \<not> sa_skip_soak args \<or> \<not> sa_skip_chaos args"

text \<open>The phases with the settings \<open>main\<close> gives them.\<close>

definition ramp_stage :: "('w, 'n) connection \<Rightarrow> stress_args \<Rightarrow> query_ctx \<Rightarrow> 'w \<Rightarrow> (ramp_step list option \<times> 'w) option" where
  "ramp_stage cn args ctx = phase_unless (sa_skip_ramp args) (\<lambda>w. ramp_phase cn w ctx (sa_k args) (max (sa_queries args) 100)
     (sa_max_concurrency args) (sa_error_threshold args) (sa_p99_slo_ms args))"

definition spike_stage :: "('w, 'n) connection \<Rightarrow> stress_args \<Rightarrow> query_ctx \<Rightarrow> 'w \<Rightarrow> (spike_result option \<times> 'w) option" where
  "spike_stage cn args ctx = phase_unless (sa_skip_spike args) (\<lambda>w. spike_phase cn w ctx (sa_k args) (sa_concurrency args)
     (sa_spike_factor args) (sa_queries args))"

definition soak_stage :: "('w, 'n) connection \<Rightarrow> stress_args \<Rightarrow> query_ctx \<Rightarrow> 'w \<Rightarrow> (phase_result list option \<times> 'w) option" where
  "soak_stage cn args ctx = phase_unless (sa_skip_soak args) (\<lambda>w. soak_phase cn w ctx (sa_k args) (sa_concurrency args)
     (sa_soak_secs args * 1000000000) 5)"

definition chaos_stage :: "('w, 'n) connection \<Rightarrow> stress_args \<Rightarrow> query_ctx \<Rightarrow> 'w \<Rightarrow> (chaos_result option \<times> 'w) option" where
  "chaos_stage cn args ctx = phase_unless (sa_skip_chaos args) (\<lambda>w. chaos_phase cn w ctx (sa_chaos_ops args)
     (max (sa_concurrency args * 2) 4))"

definition slo_verdict :: "stress_args \<Rightarrow> baseline_row list \<Rightarrow> (string \<times> bool) list" where
  "slo_verdict args rows1 = map (\<lambda>(tag, _, qry). (tag, meets_p99_slo qry (sa_p99_slo_ms args))) rows1"

definition stress_phases ::
  "('w, 'n) connection \<Rightarrow> stress_args \<Rightarrow> query_ctx \<Rightarrow> baseline_row list \<Rightarrow> 'w \<Rightarrow> (stress_report \<times> 'w) option"
where
  "stress_phases cn args ctx rows1 w =
     Option.bind (ramp_stage cn args ctx w) (\<lambda>(ramp, w1).
     Option.bind (spike_stage cn args ctx w1) (\<lambda>(spike, w2).
     Option.bind (soak_stage cn args ctx w2) (\<lambda>(soak, w3).
     Option.bind (chaos_stage cn args ctx w3) (\<lambda>(chaos, w4).
       Some (\<lparr>rp_baseline = rows1, rp_ramp = ramp, rp_spike = spike, rp_soak = soak, rp_chaos = chaos,
         rp_verdict = slo_verdict args rows1\<rparr>, w4)))))"

text \<open>The collection the phases share, filled with the vectors of the baseline; \<open>False\<close> if it cannot be created.\<close>

definition stress_setup :: "('w, 'n) connection \<Rightarrow> stress_args \<Rightarrow> query_ctx \<Rightarrow> 'w \<Rightarrow> (bool \<times> 'w) option" where
  "stress_setup cn args ctx w =
     (if \<not> any_stress args then Some (True, w)
      else let col = cx_collection ctx; (created, w1) = stress_create cn (stress_drop cn w col) col (sa_dim args) None False
        in if \<not> created then Some (False, w1)
           else map_option (map_prod (\<lambda>_. True) id) (insert_phase cn w1 ctx (sa_vectors args) (sa_concurrency args)))"

text \<open>\<open>main\<close>: \<open>Unreachable\<close> is the exit with code 1, \<open>None\<close> a panic, after which nothing is cleaned up.\<close>

definition stress_main :: "('w, 'n) connection \<Rightarrow> stress_args \<Rightarrow> 'w \<Rightarrow> (stress_exit \<times> 'w) option" where
  "stress_main cn args w =
     (let (healthy, w0) = health_check cn w; ctx = ctx_of args ''stress_main''
      in if \<not> healthy then Some (Unreachable, w0)
         else Option.bind (baseline cn args w0) (\<lambda>((rows1, names), w1).
              Option.bind (stress_setup cn args ctx w1) (\<lambda>(ready, w2).
                let all_collections = names @ (if any_stress args then [cx_collection ctx] else [])
                in if \<not> ready then Some (Aborted rows1, finalize cn args all_collections w2)
                   else Option.bind (stress_phases cn args ctx rows1 w2) (\<lambda>(report, w3).
                          Some (Reported report, finalize cn args all_collections w3)))))"

section \<open>Every request is sent once\<close>

lemma div_ceil_covers: "0 < c \<Longrightarrow> n \<le> c * div_ceil n c"
proof -
  assume "0 < c"
  then have lt: "n mod c < c" by simp
  have eq: "c * (n div c) + n mod c = n" by simp
  have "n \<le> c * (n div c) + c" using lt eq by linarith
  moreover have "n \<le> c * (n div c)" if "n mod c = 0" using eq that by linarith
  ultimately show ?thesis by (simp add: div_ceil_def distrib_left)
qed

lemma shares_from:
  fixes n c :: nat
  defines "per \<equiv> div_ceil n c"
  assumes "0 < c" "a \<le> c"
  shows "concat (map (\<lambda>(base, n_own). [base..<base + n_own])
      (takeWhile (\<lambda>(base, n_own). n_own \<noteq> 0) (map (\<lambda>w. (w * per, min per (n - w * per))) [a..<c]))) = [a * per..<min n (c * per)]"
  using assms(3)
proof (induction "c - a" arbitrary: a)
  case (Suc x)
  then have a: "a < c" by simp
  have "min n (c * per) = n" using div_ceil_covers [OF assms(2), of n] by (simp add: per_def min_def)
  have up: "[a..<c] = a # [Suc a..<c]" using a by (rule upt_conv_Cons)
  have ih: "concat (map (\<lambda>(base, n_own). [base..<base + n_own])
      (takeWhile (\<lambda>(base, n_own). n_own \<noteq> 0) (map (\<lambda>w. (w * per, min per (n - w * per))) [Suc a..<c]))) = [Suc a * per..<n]"
    using Suc.hyps(1) [of "Suc a"] Suc.hyps(2) a \<open>min n (c * per) = n\<close> by simp
  show ?case
  proof (cases "n \<le> a * per")
    case True
    then show ?thesis using up \<open>min n (c * per) = n\<close> by simp
  next
    case False
    then have "per \<noteq> 0" using \<open>min n (c * per) = n\<close> by (cases "per = 0") simp_all
    have "[a * per..<a * per + min per (n - a * per)] @ [Suc a * per..<n] = [a * per..<n]"
    proof (cases "Suc a * per \<le> n")
      case True
      then have "min per (n - a * per) = per" "Suc a * per = a * per + per" by simp_all
      then show ?thesis using True upt_add_eq_append [of "a * per" "a * per + per" "n - Suc a * per"] by (simp add: add.commute)
    next
      case False
      then show ?thesis using \<open>\<not> n \<le> a * per\<close> by simp
    qed
    then show ?thesis using up ih False \<open>per \<noteq> 0\<close> \<open>min n (c * per) = n\<close> by simp
  qed
qed simp

lemma shares_partition:
  "0 < c \<Longrightarrow> concat (map (\<lambda>(base, n_own). [base..<base + n_own]) (worker_shares n c)) = [0..<n]"
  using shares_from [of c 0 n] div_ceil_covers [of c n] by (simp add: worker_shares_def Let_def min_def)

lemma shares_length: "length (worker_shares n c) \<le> c"
  using length_takeWhile_le [of "\<lambda>(base, n_own). n_own \<noteq> 0" "map (\<lambda>w. (w * div_ceil n c, min (div_ceil n c) (n - w * div_ceil n c))) [0..<c]"]
  by (simp add: worker_shares_def Let_def)

section \<open>Nothing is counted twice or left out\<close>

abbreviation counted :: "worker_stats \<Rightarrow> nat" where
  "counted \<equiv> \<lambda>(lats, e, t). length lats + e + t"

lemma note_outcome_counts: "counted (note_outcome acc z) = counted acc + 1"
  by (cases acc; cases z) (simp_all add: note_outcome_def)

lemma worker_from: "counted (foldl note_outcome acc zs) = counted acc + length zs"
  by (induction zs arbitrary: acc) (simp_all add: note_outcome_counts)

lemma worker_counts: "counted (worker zs) = length zs"
  by (simp add: worker_def worker_from)

lemma merge_from:
  "foldl (\<lambda>(lats, errs, tos) (l, e, t). (lats @ l, errs + e, tos + t)) (l0, e0, t0) ss =
     (l0 @ concat (map fst ss), e0 + sum_list (map (fst \<circ> snd) ss), t0 + sum_list (map (snd \<circ> snd) ss))"
  by (induction ss arbitrary: l0 e0 t0) (auto simp: add.assoc)

lemma merge_workers_eq:
  "merge_workers ss = (concat (map fst ss), sum_list (map (fst \<circ> snd) ss), sum_list (map (snd \<circ> snd) ss))"
  unfolding merge_workers_def by (simp add: merge_from)

text \<open>The order in which the workers end does not matter.\<close>

lemma join_order:
  assumes "mset ss = mset ss'" "merge_workers ss = (l, e, t)" "merge_workers ss' = (l', e', t')"
  shows "phase_result_new l e t s = phase_result_new l' e' t' s"
proof -
  have s: "sum_list (map f ss) = sum_list (map f ss')" for f :: "worker_stats \<Rightarrow> nat" using assms(1) by (metis mset_map sum_mset_sum_list)
  have "mset (concat (map fst ss)) = mset (concat (map fst ss'))"
    using assms(1) by (metis mset_concat mset_map image_mset.compositionality sum_mset_sum_list)
  then have "sort l = sort l'" "length l = length l'"
    using assms(2,3) by (auto simp: merge_workers_eq intro: mset_eq_length) (metis sorted_list_of_multiset_mset)
  then show ?thesis using assms(2,3) s by (auto simp: merge_workers_eq phase_result_new_def)
qed

text \<open>A phase whose workers get an answer to each of their requests.\<close>

lemma load_phase_total:
  assumes "0 < c" "cn_spawn cn w (map (\<lambda>(base, n_own). map request [base..<base + n_own]) (worker_shares n c)) = (replies, s, w1)"
    and "map length replies = map snd (worker_shares n c)" "load_phase cn w ctx n c request = Some (r, w')"
  shows "pr_total r = n \<and> w' = w1"
proof -
  let ?zs = "map (\<lambda>rs. worker (map (send_timed (cx_timeout_ms ctx)) rs)) replies"
  obtain l e t where m: "merge_workers ?zs = (l, e, t)" by (cases "merge_workers ?zs")
  have r: "r = phase_result_new l e t s" "w' = w1" using assms(1,2,4) m by (simp_all add: load_phase_def)
  have w: "length (fst (worker zs)) + fst (snd (worker zs)) + snd (snd (worker zs)) = length zs" for zs
    using worker_counts [of zs] by (simp add: case_prod_unfold)
  have "length l + e + t = sum_list (map length replies)"
    using m unfolding merge_workers_eq
    by (auto simp: length_concat comp_def simp flip: sum_list_addf) (simp add: w)
  also have "\<dots> = length [0..<n]"
    unfolding shares_partition [OF assms(1), of n, symmetric] assms(3) by (simp add: length_concat comp_def case_prod_unfold)
  finally show ?thesis using r by (simp add: phase_result_new_def)
qed

text \<open>The doubling ends, at the ceiling, in as many steps as the ceiling has bits.\<close>

lemma ramp_levels_ends: "0 < c \<Longrightarrow> \<exists>levels. ramp_levels m c = Some levels \<and> hd levels = c \<and> levels \<noteq> [] \<and> last levels = max c m"
proof (induction "m - c" arbitrary: c rule: less_induct)
  case less
  show ?case
  proof (cases "m \<le> c")
    case True
    then show ?thesis by (subst ramp_levels.simps) simp
  next
    case False
    then obtain levels where "ramp_levels m (min (c * 2) m) = Some levels" "levels \<noteq> []" "last levels = max (min (c * 2) m) m"
      using less.hyps [of "min (c * 2) m"] less.prems by fastforce
    then show ?thesis using False by (subst ramp_levels.simps) simp
  qed
qed

text \<open>
  A phase in which no request succeeded meets every limit, so the verdict of a run whose queries all failed is a pass.
  Without workers a phase panics.
\<close>

lemma failed_meets_slo: "pr_success r = 0 \<Longrightarrow> meets_p99_slo r slo_ms"
  by (simp add: pr_success_def meets_p99_slo_def percentile_def)

lemma failed_verdict: "\<forall>(tag, ins, qry) \<in> set rows1. pr_success qry = 0 \<Longrightarrow> (tag, passes) \<in> set (slo_verdict args rows1) \<Longrightarrow> passes"
  by (auto simp: slo_verdict_def failed_meets_slo)

lemma no_workers_panic: "insert_phase cn w ctx n 0 = None" "query_phase cn w ctx q k 0 = None"
  by (simp_all add: insert_phase_def query_phase_def load_phase_def)

end
