(* ===== verification/Chaos.thy ===== *)
theory Chaos
  imports Stress
begin

text \<open>
  The chaos phase of the stress driver against the server of \<open>System\<close>: whatever order the requests of its workers arrive in,
  every one is answered the way the driver expects, unless the log fails for it, and the counts of the driver say so.
\<close>

section \<open>The collection the phase works on\<close>

text \<open>Its ids are below those that the phase reads and never writes, or were inserted by the phase.\<close>

definition chaos_id :: "vecid \<Rightarrow> bool" where
  "chaos_id y \<longleftrightarrow> unat y < 9000000 \<or> unat y mod 5 = 1"

definition chaos_collection :: "nat \<Rightarrow> ('n, 't) collection \<Rightarrow> bool" where
  "chaos_collection d c \<longleftrightarrow> index_ok (c_index c) \<and> ix_dim (c_index c) = d \<and> (\<forall>y. ix_get (c_index c) y \<noteq> None \<longrightarrow> chaos_id y)"

definition chaos_ready :: "query_ctx \<Rightarrow> ('n, 't) manager \<Rightarrow> bool" where
  "chaos_ready ctx mgr \<longleftrightarrow> (\<exists>c. hm_get mgr (cx_collection ctx) = Some c \<and> chaos_collection (cx_dim ctx) c) \<and>
     (\<forall>i. hm_get mgr (ghost_name i) = None)"

lemma chaos_search:
  assumes "rt_ok rt" "chaos_collection d c" "length q = d"
  obtains rs :: "'n json scored_result list" where "col_search rt num c q k f incl = Inr rs"
proof -
  have "any_inv any_params rt (c_index c)" using assms(1,2) any_inv_rt unfolding chaos_collection_def by blast
  then obtain rs :: "'n json scored_result list" where "ix_search rt (c_index c) q k (make_filter num (c_meta c) f) = Inr rs"
    using any.search_ok assms(2,3) unfolding chaos_collection_def by metis
  then show thesis using that by (simp add: col_search_def)
qed

lemma insert_no_payload: "apply_insert_payload tv c y None lsn = (Inr (), c)"
  by (simp add: apply_insert_payload_def)

lemma chaos_insert:
  assumes "rt_ok rt" "chaos_collection d c" "length v = d" "chaos_id y"
  shows "\<exists>c'. col_insert rt tv l c y v None lsn = (Inr (), c') \<and> chaos_collection d c'"
proof -
  have ok: "any_inv any_params rt (c_index c)" using assms(1,2) any_inv_rt unfolding chaos_collection_def by blast
  obtain ix where ix: "ix_insert rt l (c_index c) y v = Inr ix" "any_inv any_params rt ix" "ix_dim ix = d"
      "dom (ix_get ix) = {y} \<union> dom (ix_get (c_index c))"
    using any.insert_cases [OF ok, of v l y] assms(2,3) unfolding chaos_collection_def by metis
  let ?c = "journal_push [MUpsert y v] (c\<lparr>c_index := ix\<rparr>)"
  have "index_ok ix" using ix(2) any_inv_rt by blast
  moreover have "chaos_id z" if "ix_get ix z \<noteq> None" for z
  proof -
    have "z \<in> {y} \<union> dom (ix_get (c_index c))" using that unfolding ix(4) [symmetric] by blast
    then show ?thesis using assms(2,4) unfolding chaos_collection_def by blast
  qed
  ultimately have "chaos_collection d ?c" using ix(3) by (simp add: chaos_collection_def journal_push_def)
  then show ?thesis using ix(1) by (simp add: col_insert_def insert_no_payload)
qed

lemma chaos_insert_refused:
  assumes "chaos_collection d c" "length v \<noteq> d"
  shows "col_insert rt tv l c y v None lsn = (Inl (DimMismatch d (length v)), c)"
  using assms any.insert_mismatch [of v "c_index c"] by (auto simp: col_insert_def chaos_collection_def)

lemma chaos_ready_insert:
  assumes "chaos_ready ctx mgr" "chaos_collection (cx_dim ctx) c"
  shows "chaos_ready ctx (hm_insert (cx_collection ctx) c mgr)"
proof -
  have "ghost_name i \<noteq> cx_collection ctx" for i using assms(1) unfolding chaos_ready_def by (metis option.distinct(1))
  then show ?thesis using assms by (simp add: chaos_ready_def hash_simps)
qed

section \<open>Each request is answered as expected\<close>

text \<open>The status of an answer; 401 when the token is refused, none when the handler panics.\<close>

definition http_status :: "(api_error + ('n, 'f) response) option \<Rightarrow> nat option" where
  "http_status a = (case a of
       None \<Rightarrow> Some 401
     | Some (Inl e) \<Rightarrow> status_of e
     | Some (Inr r) \<Rightarrow> Some (case r of Created \<Rightarrow> 201 | NoContent \<Rightarrow> 204 | Exported path file \<Rightarrow> 204 | _ \<Rightarrow> 200))"

definition chaos_expected :: "nat \<Rightarrow> nat" where
  "chaos_expected i = [200, 204, 404, 400, 404] ! (i mod 5)"

text \<open>
  The log fails for an operation: the entry cannot be appended, or the checkpoint that is due after the operation fails.
\<close>

definition log_fails ::
  "('n, 't) wal_env \<Rightarrow> io \<Rightarrow> ck_io \<Rightarrow> ('n, 't) wal_manager \<Rightarrow> 'n wal_op \<Rightarrow>
     (('n, 't) manager \<Rightarrow> (db_error + 'a) \<times> ('n, 't) manager) \<Rightarrow> bool"
where
  "log_fails env io ck wm opn f \<longleftrightarrow> (case append_entry (x_lib env) (x_bin env) io (w_wal wm) (wal_entry_new (w_next_lsn wm) opn) of
       (Inl e, w) \<Rightarrow> True
     | (Inr u, w) \<Rightarrow> (case f (w_inner wm) of
           (Inl e, mgr) \<Rightarrow> False
         | (Inr x, mgr) \<Rightarrow> isl (fst (maybe_checkpoint env ck
             ((record_append env (wm\<lparr>w_wal := w\<rparr>) (wal_entry_new (w_next_lsn wm) opn))\<lparr>w_inner := mgr\<rparr>)))))"

definition insert_unlogged :: "('n, 't, 'f) server_env \<Rightarrow> 'n route \<Rightarrow> ('n, 't) wal_manager \<Rightarrow> bool" where
  "insert_unlogged sv req wm \<longleftrightarrow> (case req of
       InsertRoute name q \<Rightarrow> log_fails (sv_wal sv) (fst (sv_io sv 0)) (snd (sv_io sv 0)) wm (WInsert name (iq_id q) (iq_vector q) (iq_payload q))
         (\<lambda>mgr. on_collection mgr name (\<lambda>c. col_insert (x_rt (sv_wal sv)) (x_tv (sv_wal sv)) (sv_level sv) c (iq_id q) (iq_vector q) (iq_payload q) (w_next_lsn wm)))
     | _ \<Rightarrow> False)"

lemma log_answer:
  assumes run: "log_and_apply env io ck wm opn f = (r, wm')" and f: "f (w_inner wm) = (q, mgr)"
  shows "if log_fails env io ck wm opn f then (\<exists>x. r = Inl x \<and> (\<forall>e. x \<noteq> Apply e)) \<and> w_inner wm' \<in> {w_inner wm, mgr}
    else r = map_sum Apply id q \<and> w_inner wm' = mgr"
proof -
  let ?e = "wal_entry_new (w_next_lsn wm) opn"
  obtain a w where app: "append_entry (x_lib env) (x_bin env) io (w_wal wm) ?e = (a, w)"
    by (cases "append_entry (x_lib env) (x_bin env) io (w_wal wm) ?e")
  define wm2 where "wm2 = record_append env (wm\<lparr>w_wal := w\<rparr>) ?e"
  have inner: "w_inner wm2 = w_inner wm" by (simp add: wm2_def record_append_def)
  obtain r4 wm4 where m: "maybe_checkpoint env ck (wm2\<lparr>w_inner := mgr\<rparr>) = (r4, wm4)"
    by (cases "maybe_checkpoint env ck (wm2\<lparr>w_inner := mgr\<rparr>)")
  note ck = maybe_checkpoint_collections [OF m]
  show ?thesis
  proof (cases a)
    case (Inl x)
    then have "x \<noteq> Apply e" for e using app append_error by blast
    then show ?thesis using run app Inl by (auto simp: log_and_apply_def log_fails_def Let_def)
  next
    case a: (Inr u)
    have x: "r4 = Inl x \<Longrightarrow> x \<noteq> Apply e" for x e using m maybe_checkpoint_error by blast
    show ?thesis using run app a f m ck x inner
      by (cases q; cases r4) (auto simp: log_and_apply_def log_fails_def Let_def simp flip: wm2_def)
  qed
qed

text \<open>With working system calls the log does not fail for an entry that fits into a frame, unless a checkpoint is due.\<close>

definition calm :: "('n, 't) wal_manager \<Rightarrow> bool" where
  "calm wm \<longleftrightarrow> w_config wm = tiny_config \<and> ww_buf (w_wal wm) = [] \<and> ww_compression (w_wal wm) = NoCompression"

lemma calm_log:
  assumes "calm wm" "\<And>lsn. fits (x_lib env) (x_bin env) NoCompression (wal_entry_new lsn opn)"
  shows "\<not> log_fails env IoOk ck wm opn f" and "log_and_apply env IoOk ck wm opn f = (r, wm') \<Longrightarrow> calm wm'"
proof -
  let ?e = "wal_entry_new (w_next_lsn wm) opn"
  have "\<forall>e \<in> set [?e]. fits (x_lib env) (x_bin env) (ww_compression (w_wal wm)) e \<and> e_version e = CURRENT_WAL_VERSION"
    using assms by (simp add: wal_entry_new_def calm_def)
  then obtain ps bs where "append_batch (x_lib env) (x_bin env) IoOk (w_wal wm) [?e] = (Inr ps, (w_wal wm)\<lparr>ww_file := ww_file (w_wal wm) @ bs,
      ww_buf := [], ww_bytes_written := sat_add (ww_bytes_written (w_wal wm)) (of_nat (length bs))\<rparr>)"
    using append_batch_ok [of "[?e]"] assms(1) unfolding calm_def by blast
  then obtain w where app: "append_entry (x_lib env) (x_bin env) IoOk (w_wal wm) ?e = (Inr (), w)"
      "ww_buf w = []" "ww_compression w = NoCompression" using assms(1) by (simp add: append_entry_def calm_def)
  show "\<not> log_fails env IoOk ck wm opn f" using assms(1) app(1)
    by (simp add: log_fails_def maybe_checkpoint_def record_append_def tiny_config_def calm_def split: prod.split sum.split option.split)
  show "log_and_apply env IoOk ck wm opn f = (r, wm') \<Longrightarrow> calm wm'" using assms(1) app
    by (cases "f (w_inner wm)"; cases "fst (f (w_inner wm))")
      (auto simp: log_and_apply_def Let_def maybe_checkpoint_def record_append_def tiny_config_def calm_def split: option.splits)
qed

lemma not_applied_500: "\<forall>e. x \<noteq> Apply e \<Longrightarrow> api_of_persist x = Internal"
  by (cases x) auto

lemma large_id: "i < 2 ^ 63 \<Longrightarrow> k < 2 ^ 63 \<Longrightarrow> unat (of_nat i + of_nat k :: u64) = i + k"
  by (simp add: unsigned_of_nat take_bit_nat_eq_self flip: of_nat_add)

lemma chaos_query_handled:
  assumes "rt_ok (x_rt (sv_wal sv))" "sv_pipeline sv = None" "chaos_ready ctx (w_inner wm)" "length v = cx_dim ctx"
  shows "\<exists>rs. query_vectors sv (cx_collection ctx) (query_body v 5) wm = Inr (Hits rs)"
proof -
  obtain c where c: "hm_get (w_inner wm) (cx_collection ctx) = Some c" "chaos_collection (cx_dim ctx) c"
    using assms(3) unfolding chaos_ready_def by blast
  obtain rs where "col_search (x_rt (sv_wal sv)) (sv_num sv) c v 5 None False = Inr rs"
    using chaos_search [OF assms(1) c(2) assms(4)] .
  then show ?thesis using c(1) assms(2)
    by (simp add: query_vectors_def query_body_def validate_k_def MAX_K_def wal_get_def mgr_get_def answer_def)
qed

lemma chaos_ghost_handled:
  "chaos_ready ctx (w_inner wm) \<Longrightarrow> query_vectors sv (ghost_name i) (query_body v 5) wm = Inl NotFound"
  by (simp add: chaos_ready_def query_vectors_def query_body_def validate_k_def MAX_K_def wal_get_def mgr_get_def)

lemma chaos_insert_handled:
  fixes sv :: "('n, 't, 'f) server_env"
  assumes rt: "rt_ok (x_rt (sv_wal sv))" and ready: "chaos_ready ctx (w_inner wm)" and y: "length v = cx_dim ctx \<Longrightarrow> chaos_id y"
    and h: "insert_vector_handler sv (cx_collection ctx) \<lparr>iq_id = y, iq_vector = v, iq_payload = None\<rparr> wm = (r, wm')"
  defines "failed \<equiv> insert_unlogged sv (InsertRoute (cx_collection ctx) \<lparr>iq_id = y, iq_vector = v, iq_payload = None\<rparr>) wm"
  shows "chaos_ready ctx (w_inner wm') \<and>
    r = (if failed then Inl Internal else if length v = cx_dim ctx then Inr NoContent else Inl BadRequest)"
proof -
  let ?col = "cx_collection ctx" and ?d = "cx_dim ctx"
  let ?f = "\<lambda>mgr. on_collection mgr ?col (\<lambda>c. col_insert (x_rt (sv_wal sv)) (x_tv (sv_wal sv)) (sv_level sv) c y v None (w_next_lsn wm))"
  obtain c where c: "hm_get (w_inner wm) ?col = Some c" "chaos_collection ?d c" using ready unfolding chaos_ready_def by blast
  obtain q where w: "wal_insert (sv_wal sv) (fst (sv_io sv 0)) (snd (sv_io sv 0)) (sv_level sv) wm ?col y v None = (q, wm')"
      "r = (case q of Inl e \<Rightarrow> Inl (api_of_persist e) | Inr _ \<Rightarrow> map_sum api_of_db (\<lambda>_. NoContent) (wal_get wm' ?col))"
    using h by (auto simp: insert_vector_handler_def read_back_collection_def split: prod.splits sum.splits)
  obtain p mgr where f: "?f (w_inner wm) = (p, mgr)" by (cases "?f (w_inner wm)")
  have step: "(p, mgr) = map_prod id (\<lambda>c'. hm_insert ?col c' (w_inner wm))
      (col_insert (x_rt (sv_wal sv)) (x_tv (sv_wal sv)) (sv_level sv) c y v None (w_next_lsn wm))"
    using f c(1) by (simp add: on_collection_def)
  have app: "chaos_ready ctx mgr \<and> hm_get mgr ?col \<noteq> None \<and> p = (if length v = ?d then Inr () else Inl (DimMismatch ?d (length v)))"
  proof (cases "length v = ?d")
    case True
    obtain c' where "col_insert (x_rt (sv_wal sv)) (x_tv (sv_wal sv)) (sv_level sv) c y v None (w_next_lsn wm) = (Inr (), c')"
        "chaos_collection ?d c'"
      using chaos_insert [OF rt c(2) True y [OF True]] by metis
    then show ?thesis using True step chaos_ready_insert [OF ready] by (simp add: hash_simps)
  next
    case False
    then show ?thesis using step chaos_insert_refused [OF c(2) False] chaos_ready_insert [OF ready c(2)] by (simp add: hash_simps)
  qed
  have failed: "failed = log_fails (sv_wal sv) (fst (sv_io sv 0)) (snd (sv_io sv 0)) wm (WInsert ?col y v None) ?f"
    by (simp add: failed_def insert_unlogged_def)
  note result = log_answer [OF w(1) [unfolded wal_insert_def Let_def] f, folded failed]
  show ?thesis
  proof (cases failed)
    case True
    then obtain x where "q = Inl x" "\<forall>e. x \<noteq> Apply e" "w_inner wm' \<in> {w_inner wm, mgr}" using result by auto
    then show ?thesis using True w(2) app ready not_applied_500 by auto
  next
    case False
    then show ?thesis using result w(2) app by (auto simp: wal_get_def mgr_get_def)
  qed
qed

lemma chaos_get_handled:
  assumes "chaos_ready ctx (w_inner wm)" "\<not> chaos_id y"
  shows "get_vector_handler (cx_collection ctx) y wm = Inl NotFound"
proof -
  obtain c where c: "hm_get (w_inner wm) (cx_collection ctx) = Some c" "chaos_collection (cx_dim ctx) c"
    using assms(1) unfolding chaos_ready_def by blast
  then have "ix_get (c_index c) y = None" using assms(2) unfolding chaos_collection_def by blast
  then show ?thesis using c(1) by (simp add: get_vector_handler_def wal_get_def mgr_get_def col_get_def)
qed

lemma chaos_request_cases:
  "i mod 5 = 0 \<Longrightarrow> chaos_request rng ctx i = QueryRoute (cx_collection ctx) (query_body (make_query rng (of_nat i) (cx_dim ctx)) 5)"
  "i mod 5 = 1 \<Longrightarrow> chaos_request rng ctx i = InsertRoute (cx_collection ctx)
    \<lparr>iq_id = of_nat i + 10000000, iq_vector = make_vec rng (of_nat i + 10000000) (cx_dim ctx), iq_payload = None\<rparr>"
  "i mod 5 = 2 \<Longrightarrow> chaos_request rng ctx i = QueryRoute (ghost_name i) (query_body (make_query rng (of_nat i) (cx_dim ctx)) 5)"
  "i mod 5 = 3 \<Longrightarrow> chaos_request rng ctx i = InsertRoute (cx_collection ctx)
    \<lparr>iq_id = of_nat i + 20000000, iq_vector = replicate (cx_dim ctx + 1) 0x3F000000, iq_payload = None\<rparr>"
  "i mod 5 = 4 \<Longrightarrow> chaos_request rng ctx i = GetRoute (cx_collection ctx) (of_nat i + 9000000)"
  by (simp_all only: chaos_request_def Let_def) simp_all

lemma expected_not_500: "chaos_expected i \<noteq> 500"
proof -
  have "i mod 5 = 0 \<or> i mod 5 = 1 \<or> i mod 5 = 2 \<or> i mod 5 = 3 \<or> i mod 5 = 4" by linarith
  then show ?thesis by (elim disjE; simp add: chaos_expected_def)
qed

section \<open>The requests as they arrive\<close>

text \<open>
  Request \<open>i\<close> of the phase, handled by the server with the outcomes of the system calls and the schedule that the record gives,
  or a periodic checkpoint. The answers come with their number, their status, and whether the log failed for the request.
\<close>

datatype ('n, 't, 'f) arrival = Arrive nat "('n, 't, 'f) server_env" | TickDue "('n, 't) wal_env" ck_io

fun chaos_served ::
  "(u64 \<Rightarrow> nat \<Rightarrow> f32) \<Rightarrow> query_ctx \<Rightarrow> ('n, 't, 'f) arrival list \<Rightarrow> ('n, 't) wal_manager \<Rightarrow>
     (nat \<times> nat option \<times> bool) list \<times> ('n, 't) wal_manager"
where
  "chaos_served rng ctx [] wm = ([], wm)"
| "chaos_served rng ctx (Arrive i sv # as) wm =
     (let (r, wm1) = router None None sv (chaos_request rng ctx i) wm;
          (answers, wm2) = chaos_served rng ctx as wm1
      in ((i, http_status r, insert_unlogged sv (chaos_request rng ctx i) wm) # answers, wm2))"
| "chaos_served rng ctx (TickDue env ck # as) wm = chaos_served rng ctx as (checkpoint_tick env ck wm)"

fun arrival_ok :: "nat \<Rightarrow> ('n, 't, 'f) arrival \<Rightarrow> bool" where
  "arrival_ok n (Arrive i sv) \<longleftrightarrow> i < n \<and> rt_ok (x_rt (sv_wal sv)) \<and> sv_pipeline sv = None"
| "arrival_ok n (TickDue env ck) \<longleftrightarrow> True"

lemma chaos_handled:
  fixes sv :: "('n, 't, 'f) server_env"
  assumes "rt_ok (x_rt (sv_wal sv))" "sv_pipeline sv = None" "chaos_ready ctx (w_inner wm)" "i < 2 ^ 63"
    and h: "handle sv (chaos_request rng ctx i) wm = (r, wm')"
  defines "failed \<equiv> insert_unlogged sv (chaos_request rng ctx i) wm"
  shows "chaos_ready ctx (w_inner wm') \<and> http_status (Some r) = Some (if failed then 500 else chaos_expected i) \<and>
    (failed \<longrightarrow> i mod 5 \<in> {1, 3})"
proof -
  have ids: "unat (of_nat i + 10000000 :: u64) = i + 10000000" "unat (of_nat i + 9000000 :: u64) = i + 9000000"
    using large_id [OF assms(4), of 10000000] large_id [OF assms(4), of 9000000] by simp_all
  have reads: "\<not> failed" if "i mod 5 \<in> {0, 2, 4}"
    using that by (elim insertE) (simp_all add: failed_def insert_unlogged_def chaos_request_cases)
  consider "i mod 5 = 0" | "i mod 5 = 1" | "i mod 5 = 2" | "i mod 5 = 3" | "i mod 5 = 4" by linarith
  then show ?thesis
  proof cases
    case 1
    obtain rs where "query_vectors sv (cx_collection ctx) (query_body (make_query rng (of_nat i) (cx_dim ctx)) 5) wm = Inr (Hits rs)"
      using chaos_query_handled [OF assms(1-3)] by (metis length_make_vec(2))
    then have "r = Inr (Hits rs)" "wm' = wm" using h unfolding chaos_request_cases(1) [OF 1] by simp_all
    then show ?thesis using assms(3) 1 reads by (simp add: chaos_expected_def http_status_def)
  next
    case 2
    have "(i + 10000000) mod 5 = 1" using 2 mod_mult_self2 [of i 5 2000000] by simp
    then have y: "chaos_id (of_nat i + 10000000)" by (simp add: chaos_id_def ids)
    have "insert_vector_handler sv (cx_collection ctx) \<lparr>iq_id = of_nat i + 10000000,
        iq_vector = make_vec rng (of_nat i + 10000000) (cx_dim ctx), iq_payload = None\<rparr> wm = (r, wm')"
      using h unfolding chaos_request_cases(2) [OF 2] by simp
    from chaos_insert_handled [OF assms(1,3) y this, folded chaos_request_cases(2) [OF 2, of rng ctx], folded failed_def]
    show ?thesis using 2 by (simp add: chaos_expected_def http_status_def)
  next
    case 3
    have "r = Inl NotFound" "wm' = wm" using h unfolding chaos_request_cases(3) [OF 3] by (auto simp: chaos_ghost_handled [OF assms(3)])
    then show ?thesis using assms(3) 3 reads by (simp add: chaos_expected_def http_status_def)
  next
    case 4
    have "insert_vector_handler sv (cx_collection ctx) \<lparr>iq_id = of_nat i + 20000000,
        iq_vector = replicate (cx_dim ctx + 1) 0x3F000000, iq_payload = None\<rparr> wm = (r, wm')"
      using h unfolding chaos_request_cases(4) [OF 4] by simp
    from chaos_insert_handled [OF assms(1,3) _ this, folded chaos_request_cases(4) [OF 4, of rng], folded failed_def]
    show ?thesis using 4 by (simp add: chaos_expected_def http_status_def)
  next
    case 5
    have "(i + 9000000) mod 5 = 4" using 5 mod_mult_self2 [of i 5 1800000] by simp
    then have "\<not> chaos_id (of_nat i + 9000000)" by (simp add: chaos_id_def ids)
    then have "r = Inl NotFound" "wm' = wm"
      using h unfolding chaos_request_cases(5) [OF 5] by (auto simp: chaos_get_handled [OF assms(3)])
    then show ?thesis using assms(3) 5 reads by (simp add: chaos_expected_def http_status_def)
  qed
qed

lemma chaos_served_ok:
  assumes "chaos_served rng ctx as wm = (answers, wm')" "chaos_ready ctx (w_inner wm)" "list_all (arrival_ok n) as" "n \<le> 2 ^ 63"
  shows "\<forall>(i, st, failed) \<in> set answers. i < n \<and> st = Some (if failed then 500 else chaos_expected i) \<and> (failed \<longrightarrow> i mod 5 \<in> {1, 3})"
  using assms(1-3)
proof (induction as arbitrary: wm answers)
  case (Cons a as)
  show ?case
  proof (cases a)
    case (Arrive i sv)
    have "chaos_request rng ctx i \<noteq> Health" by (auto simp: chaos_request_def Let_def split: if_splits)
    then have opened: "router None None sv (chaos_request rng ctx i) wm = map_prod Some id (handle sv (chaos_request rng ctx i) wm)"
      by (simp add: router_def require_bearer_def admitted_def is_enabled_def)
    obtain r wm1 where r: "handle sv (chaos_request rng ctx i) wm = (r, wm1)" by fastforce
    then have r2: "router None None sv (chaos_request rng ctx i) wm = (Some r, wm1)" using opened by simp
    have i: "i < n" "rt_ok (x_rt (sv_wal sv))" "sv_pipeline sv = None" using Cons.prems(3) Arrive by simp_all
    then have "i < 2 ^ 63" using assms(4) by simp
    note one = chaos_handled [OF i(2,3) Cons.prems(2) this r]
    obtain rest where rest: "chaos_served rng ctx as wm1 = (rest, wm')"
        "answers = (i, http_status (Some r), insert_unlogged sv (chaos_request rng ctx i) wm) # rest"
      using Cons.prems(1) r2 Arrive by (auto split: prod.splits)
    then show ?thesis using Cons.IH [OF rest(1)] one i(1) Cons.prems(3) by simp
  next
    case (TickDue env ck)
    then show ?thesis using Cons.IH [of "checkpoint_tick env ck wm"] Cons.prems by (simp add: checkpoint_tick_inner)
  qed
qed simp

section \<open>What the driver counts\<close>

text \<open>A reply that comes in time.\<close>

definition in_time :: "u64 \<Rightarrow> http_reply \<Rightarrow> bool" where
  "in_time tm r \<longleftrightarrow> \<not> (0 < tm \<and> hr_late r)"

lemma chaos_kind_served:
  assumes "hr_status r = Some (if failed then 500 else chaos_expected i)" "failed \<longrightarrow> i mod 5 \<in> {1, 3}"
  shows "chaos_kind_of i (send_timed tm r) = (if \<not> in_time tm r then TimedOut else if failed then UnexpectedErr
    else if i mod 5 \<in> {0, 1} then ValidOk else ExpectedErr)"
proof -
  have "i mod 5 = 0 \<or> i mod 5 = 1 \<or> i mod 5 = 2 \<or> i mod 5 = 3 \<or> i mod 5 = 4" by linarith
  then show ?thesis using assms
    by (elim disjE; simp add: chaos_expected_def send_timed_def chaos_kind_of_def is_success_def in_time_def)
qed

lemma kind_count:
  assumes "\<And>i. i < n \<Longrightarrow> f i = k \<longleftrightarrow> P i"
  shows "count_list (map f [0..<n]) k = card {i. i < n \<and> P i}"
proof -
  have "count_list (map f [0..<n]) k = length (filter P [0..<n])"
    unfolding count_list_eq_length_filter filter_map comp_def length_map
    by (intro arg_cong [of _ _ length] filter_cong) (use assms in auto)
  also have "\<dots> = card {i. i < n \<and> P i}" by (simp add: length_filter_conv_card cong: conj_cong)
  finally show ?thesis .
qed

lemma chaos_kinds:
  assumes "0 < c"
  shows "concat (map2 (chaos_worker tm) (worker_shares n c) (map (\<lambda>(base, n_own). map rep [base..<base + n_own]) (worker_shares n c)))
    = map (\<lambda>i. chaos_kind_of i (send_timed tm (rep i))) [0..<n]"
proof -
  have "map2 (chaos_worker tm) ss (map (\<lambda>(base, n_own). map rep [base..<base + n_own]) ss) =
      map (map (\<lambda>i. chaos_kind_of i (send_timed tm (rep i)))) (map (\<lambda>(base, n_own). [base..<base + n_own]) ss)" for ss
    by (induction ss) (auto simp: chaos_worker_def map2_map_map [where f = id and g = rep, simplified])
  then show ?thesis unfolding shares_partition [OF assms, of n, symmetric] by (simp add: map_concat)
qed

text \<open>C22. The server survives the chaos phase of the stress driver. Each of the requests of the workers reaches a server without
  a token and a query pipeline once, in any order, between any checkpoints, with any schedule and any outcome of the system
  calls, and any answer may come too late. An answer is 500 exactly when the request is an insert for which the log fails:
  its entry cannot be appended, or the checkpoint due after it fails. Every other request has the status the driver
  expects: 200 for a query, 204 for an insert, 404 for a missing collection or vector, and 400 for a vector of the wrong
  dimension. The driver counts, of the answers in time, exactly the failures of the log as unexpected errors, so none when the
  log works, the other queries and inserts as valid successes and the refused requests as expected errors, and the late
  answers as timeouts; its health check after the phase succeeds.\<close>

theorem chaos_graceful:
  assumes served: "chaos_served (cn_rng cn) ctx as wm = (answers, wm')" and ready: "chaos_ready ctx (w_inner wm)"
    and arrivals: "list_all (arrival_ok n) as" and once: "mset (map fst answers) = mset [0..<n]" and n: "n \<le> 2 ^ 63" "0 < c"
    and replies: "\<forall>(i, st, failed) \<in> set answers. hr_status (rep i) = st"
    and spawn: "cn_spawn cn w (map (\<lambda>(base, n_own). map (chaos_request (cn_rng cn) ctx) [base..<base + n_own]) (worker_shares n c)) =
      (map (\<lambda>(base, n_own). map rep [base..<base + n_own]) (worker_shares n c), secs, w1)"
    and health: "hr_status (fst (cn_send cn w1 Health)) = http_status (fst (router None None sv Health wm'))"
  defines "failed \<equiv> \<lambda>i. \<exists>st. (i, st, True) \<in> set answers" and "soon \<equiv> \<lambda>i. in_time (cx_timeout_ms ctx) (rep i)"
  shows "(\<forall>i < n. hr_status (rep i) = Some (if failed i then 500 else chaos_expected i)) \<and> (\<forall>i. failed i \<longrightarrow> i mod 5 \<in> {1, 3}) \<and>
    (\<exists>res w'. chaos_phase cn w ctx n c = Some (res, w') \<and>
      cr_unexpected_errors res = card {i. i < n \<and> soon i \<and> failed i} \<and>
      cr_valid_successes res = card {i. i < n \<and> soon i \<and> \<not> failed i \<and> i mod 5 \<in> {0, 1}} \<and>
      cr_expected_errors res = card {i. i < n \<and> soon i \<and> \<not> failed i \<and> i mod 5 \<in> {2, 3, 4}} \<and>
      cr_timeouts res = card {i. i < n \<and> \<not> soon i} \<and> cr_server_healthy res)"
proof -
  let ?tm = "cx_timeout_ms ctx"
  let ?kinds = "map (\<lambda>i. chaos_kind_of i (send_timed ?tm (rep i))) [0..<n]"
  note ok = chaos_served_ok [OF served ready arrivals n(1)]
  have st: "hr_status (rep i) = Some (if failed i then 500 else chaos_expected i)" "failed i \<longrightarrow> i mod 5 \<in> {1, 3}" if "i < n" for i
  proof -
    have "i \<in> set (map fst answers)" using that mset_eq_setD [OF once] by simp
    then obtain st f where a: "(i, st, f) \<in> set answers" by auto
    have same: "hr_status (rep i) = Some (if f' then 500 else chaos_expected i) \<and> (f' \<longrightarrow> i mod 5 \<in> {1, 3})"
      if "(i, st', f') \<in> set answers" for st' f'
      using bspec [OF ok that] bspec [OF replies that] by simp
    have "f = failed i"
    proof (cases f)
      case False
      then have "\<not> failed i" using same [OF a] same expected_not_500 [of i] unfolding failed_def by fastforce
      then show ?thesis using False by simp
    qed (use a in \<open>auto simp: failed_def\<close>)
    then show "hr_status (rep i) = Some (if failed i then 500 else chaos_expected i)" "failed i \<longrightarrow> i mod 5 \<in> {1, 3}"
      using same [OF a] by simp_all
  qed
  have kind: "chaos_kind_of i (send_timed ?tm (rep i)) = (if \<not> soon i then TimedOut else if failed i then UnexpectedErr
      else if i mod 5 \<in> {0, 1} then ValidOk else ExpectedErr)" if "i < n" for i
    using chaos_kind_served [OF st [OF that], of ?tm] by (simp add: soon_def)
  have late: "failed i \<longrightarrow> i mod 5 \<in> {1, 3}" for i using ok by (auto simp: failed_def)
  have five: "i mod 5 = 2 \<or> i mod 5 = 3 \<or> i mod 5 = 4 \<longleftrightarrow> i mod 5 \<noteq> 0 \<and> i mod 5 \<noteq> Suc 0" for i :: nat by presburger
  have counts: "count_list ?kinds UnexpectedErr = card {i. i < n \<and> soon i \<and> failed i}"
      "count_list ?kinds ValidOk = card {i. i < n \<and> soon i \<and> \<not> failed i \<and> i mod 5 \<in> {0, 1}}"
      "count_list ?kinds ExpectedErr = card {i. i < n \<and> soon i \<and> \<not> failed i \<and> i mod 5 \<in> {2, 3, 4}}"
      "count_list ?kinds TimedOut = card {i. i < n \<and> \<not> soon i}"
    by (rule kind_count; simp add: kind five)+
  obtain r w2 where send: "cn_send cn w1 Health = (r, w2)" by fastforce
  then have alive: "health_check cn w1 = (True, w2)" using health by (simp add: health_check_def router_def http_status_def)
  have "\<exists>res w'. chaos_phase cn w ctx n c = Some (res, w') \<and> cr_unexpected_errors res = count_list ?kinds UnexpectedErr \<and>
      cr_valid_successes res = count_list ?kinds ValidOk \<and> cr_expected_errors res = count_list ?kinds ExpectedErr \<and>
      cr_timeouts res = count_list ?kinds TimedOut \<and> cr_server_healthy res"
    using n(2) spawn alive chaos_kinds [OF n(2), of ?tm n rep] by (simp add: chaos_phase_def Let_def)
  then show ?thesis unfolding counts using st(1) late by blast
qed

text \<open>Five requests by two workers, answered in time.\<close>

definition ctx_example :: query_ctx where
  "ctx_example = \<lparr>cx_collection = ''stress_main'', cx_dim = 1, cx_timeout_ms = 5000\<rparr>"

definition connection_example :: "(nat \<Rightarrow> http_reply) \<Rightarrow> (unit, f64) connection" where
  "connection_example rep = \<lparr>cn_send = \<lambda>w req. (\<lparr>hr_late = False, hr_us = 1, hr_status = Some 200\<rparr>, w),
     cn_spawn = \<lambda>w reqs. (map (\<lambda>(base, n_own). map rep [base..<base + n_own]) (worker_shares 5 2), 0, w),
     cn_until = \<lambda>w window reqs. ([], 0, w), cn_rng = \<lambda>seed i. 0, cn_num = \<lambda>i. 0\<rparr>"

lemma chaos_ready_example: "chaos_ready ctx_example [(''stress_main'', collection_new ''stress_main'' 1 Cosine)]"
proof -
  have "index_ok (c_index (collection_new ''stress_main'' 1 Cosine))"
    using new_flat_law [of 1 Cosine] by (simp add: collection_new_def collection_with_index_def)
  moreover have "ix_get (c_index (collection_new ''stress_main'' 1 Cosine)) y = None" for y
    by (simp add: collection_new_def collection_with_index_def ix_get_def flat_get_def flat_new_def slab_get_def)
  ultimately show ?thesis
    by (simp add: chaos_ready_def chaos_collection_def ctx_example_def ghost_name_def ix_dim_def collection_new_def
        collection_with_index_def flat_new_def)
qed

text \<open>The two inserts of the five requests can be logged; the log fails for the first of them.\<close>

definition chaos_ops :: "f64 wal_op list" where
  "chaos_ops = [WInsert ''stress_main'' 10000001 (make_vec (\<lambda>seed i. 0) 10000001 1) None,
     WInsert ''stress_main'' 20000003 (replicate 2 0x3F000000) None]"

definition chaos_server :: "nat \<Rightarrow> (f64, (vecid \<times> string) list, nat \<times> record_batch list) server_env" where
  "chaos_server i = server_example\<lparr>sv_wal := tiny_env chaos_ops, sv_io := \<lambda>_. (if i = 1 then SyncErr else IoOk, CkOk)\<rparr>"

definition chaos_arrivals :: "(f64, (vecid \<times> string) list, nat \<times> record_batch list) arrival list" where
  "chaos_arrivals = map (\<lambda>i. Arrive i (chaos_server i)) [3, 1, 0, 4, 2]"

lemma chaos_ops_fit: "opn \<in> set chaos_ops \<Longrightarrow> fits (x_lib (tiny_env chaos_ops)) (x_bin (tiny_env chaos_ops)) NoCompression (wal_entry_new lsn opn)"
  using tiny_fine [of opn chaos_ops] by (auto simp: op_fine_def chaos_ops_def op_exact_def)

lemma calm_fails:
  assumes "calm wm" "fits (x_lib env) (x_bin env) NoCompression (wal_entry_new (w_next_lsn wm) opn)"
  shows "log_fails env SyncErr ck wm opn f"
proof -
  have "\<forall>e \<in> set [wal_entry_new (w_next_lsn wm) opn]. fits (x_lib env) (x_bin env) (ww_compression (w_wal wm)) e \<and> e_version e = CURRENT_WAL_VERSION"
    using assms by (simp add: wal_entry_new_def calm_def)
  from batch_frames_log [OF this] show ?thesis
    by (auto simp: log_fails_def append_entry_def append_batch_def Let_def split: prod.splits sum.splits)
qed

lemma chaos_flags:
  assumes "calm wm"
  shows "map (\<lambda>(i, st, failed). (i, failed)) (fst (chaos_served (\<lambda>seed i. 0) ctx_example chaos_arrivals wm)) =
    [(3, False), (1, True), (0, False), (4, False), (2, False)]"
proof -
  have r1: "chaos_request (\<lambda>seed i. 0) ctx_example 1 = InsertRoute ''stress_main''
      \<lparr>iq_id = 10000001, iq_vector = make_vec (\<lambda>seed i. 0) 10000001 1, iq_payload = None\<rparr>"
    and r3: "chaos_request (\<lambda>seed i. 0) ctx_example 3 = InsertRoute ''stress_main''
      \<lparr>iq_id = 20000003, iq_vector = replicate 2 0x3F000000, iq_payload = None\<rparr>"
    by (simp_all add: chaos_request_def ctx_example_def numeral_2_eq_2)
  have reads: "\<not> insert_unlogged sv (chaos_request (\<lambda>seed i. 0) ctx_example i) wm" if "i \<in> {0, 2, 4}"
    for sv :: "(f64, (vecid \<times> string) list, nat \<times> record_batch list) server_env" and i wm
    using that by (elim insertE) (simp_all add: insert_unlogged_def chaos_request_def)
  have sv: "sv_wal (chaos_server i) = tiny_env chaos_ops" "sv_io (chaos_server i) k = (if i = 1 then SyncErr else IoOk, CkOk)" for i k
    by (simp_all add: chaos_server_def server_example_def)
  have ops: "WInsert ''stress_main'' 10000001 (make_vec (\<lambda>seed i. 0) 10000001 1) None \<in> set chaos_ops"
    "WInsert ''stress_main'' 20000003 (replicate 2 0x3F000000) None \<in> set chaos_ops"
    by (simp_all add: chaos_ops_def)
  obtain r wm1 where one: "router None None (chaos_server 3) (chaos_request (\<lambda>seed i. 0) ctx_example 3) wm = (r, wm1)" by fastforce
  note three = calm_log [OF assms chaos_ops_fit [OF ops(2)]]
  have ok: "\<not> insert_unlogged (chaos_server 3) (chaos_request (\<lambda>seed i. 0) ctx_example 3) wm"
    unfolding r3 by (simp add: insert_unlogged_def sv three(1))
  obtain q where "log_and_apply (tiny_env chaos_ops) IoOk CkOk wm (WInsert ''stress_main'' 20000003 (replicate 2 0x3F000000) None)
      (\<lambda>mgr. on_collection mgr ''stress_main'' (\<lambda>c. col_insert (x_rt (tiny_env chaos_ops)) (x_tv (tiny_env chaos_ops)) (sv_level (chaos_server 3)) c
        20000003 (replicate 2 0x3F000000) None (w_next_lsn wm))) = (q, wm1)"
    using one unfolding r3
    by (auto simp: router_def require_bearer_def admitted_def is_enabled_def insert_vector_handler_def wal_insert_def Let_def
      read_back_collection_def sv split: prod.splits sum.splits)
  then have "calm wm1" by (rule three(2))
  from calm_fails [OF this chaos_ops_fit [OF ops(1)]]
  have bad: "insert_unlogged (chaos_server 1) (chaos_request (\<lambda>seed i. 0) ctx_example 1) wm1"
    unfolding r1 by (simp add: insert_unlogged_def sv)
  show ?thesis using one ok bad reads by (simp add: chaos_arrivals_def split: prod.split)
qed

theorem chaos_graceful_witness:
  "\<exists>wm answers wm' rep res w'. chaos_served (\<lambda>seed i. 0) ctx_example chaos_arrivals wm = (answers, wm') \<and>
    map (\<lambda>i. hr_status (rep i)) [0..<5] = [Some 200, Some 500, Some 404, Some 400, Some 404] \<and>
    chaos_phase (connection_example rep) () ctx_example 5 2 = Some (res, w') \<and> cr_unexpected_errors res = 1 \<and>
    cr_valid_successes res = 1 \<and> cr_expected_errors res = 3 \<and> cr_timeouts res = 0 \<and> cr_server_healthy res"
proof -
  have env: "env_ok (tiny_env chaos_ops) map_of" by (rule tiny_env_ok) (simp add: chaos_ops_def)
  obtain wm0 where "wal_inv (tiny_env chaos_ops) wm0 Map.empty [] []" "w_config wm0 = tiny_config" "ww_compression (w_wal wm0) = NoCompression"
    using open_fresh [OF env, of "\<lambda>_. 0" tiny_config "[]"] by (auto simp: tiny_config_def)
  then have calm0: "calm wm0" by (simp add: calm_def wal_inv_def)
  let ?wm = "wm0\<lparr>w_inner := [(''stress_main'', collection_new ''stress_main'' 1 Cosine)]\<rparr>"
  have calm: "calm ?wm" using calm0 by (simp add: calm_def)
  obtain answers wm' where served: "chaos_served (\<lambda>seed i. 0) ctx_example chaos_arrivals ?wm = (answers, wm')" by fastforce
  have flags: "map (\<lambda>(i, st, failed). (i, failed)) answers = [(3, False), (1, True), (0, False), (4, False), (2, False)]"
    using chaos_flags [OF calm] served by simp
  define rep where "rep = (\<lambda>i. \<lparr>hr_late = False, hr_us = 1, hr_status = fst (the (map_of answers i))\<rparr>)"
  let ?failed = "\<lambda>i. \<exists>st. (i, st, True) \<in> set answers" and ?soon = "\<lambda>i. in_time (cx_timeout_ms ctx_example) (rep i)"
  obtain a3 a1 a0 a4 a2 where answers: "answers = [(3, a3, False), (1, a1, True), (0, a0, False), (4, a4, False), (2, a2, False)]"
    using flags by (auto simp: map_eq_Cons_conv)
  have failed: "?failed i \<longleftrightarrow> i = 1" for i by (auto simp: answers)
  have soon: "?soon i" for i by (simp add: in_time_def rep_def)
  have "(\<forall>i < 5. hr_status (rep i) = Some (if ?failed i then 500 else chaos_expected i)) \<and> (\<forall>i. ?failed i \<longrightarrow> i mod 5 \<in> {1, 3}) \<and>
    (\<exists>res w'. chaos_phase (connection_example rep) () ctx_example 5 2 = Some (res, w') \<and>
      cr_unexpected_errors res = card {i. i < 5 \<and> ?soon i \<and> ?failed i} \<and>
      cr_valid_successes res = card {i. i < 5 \<and> ?soon i \<and> \<not> ?failed i \<and> i mod 5 \<in> {0, 1}} \<and>
      cr_expected_errors res = card {i. i < 5 \<and> ?soon i \<and> \<not> ?failed i \<and> i mod 5 \<in> {2, 3, 4}} \<and>
      cr_timeouts res = card {i. i < 5 \<and> \<not> ?soon i} \<and> cr_server_healthy res)"
  proof (rule chaos_graceful [where wm = ?wm and as = chaos_arrivals and secs = 0 and ?w1.0 = "()" and sv = server_example])
    show "chaos_served (cn_rng (connection_example rep)) ctx_example chaos_arrivals ?wm = (answers, wm')"
      using served by (simp add: connection_example_def)
    show "chaos_ready ctx_example (w_inner ?wm)" using chaos_ready_example by simp
    show "list_all (arrival_ok 5) chaos_arrivals"
      by (simp add: chaos_arrivals_def chaos_server_def server_example_def tiny_env_def plain_rt_ok)
    show "mset (map fst answers) = mset [0..<5]" by (simp add: answers upt_rec eval_nat_numeral)
    show "\<forall>(i, st, failed) \<in> set answers. hr_status (rep i) = st" by (simp add: answers rep_def)
    show "hr_status (fst (cn_send (connection_example rep) () Health)) = http_status (fst (router None None server_example Health wm'))"
      by (simp add: connection_example_def router_def http_status_def)
    show "cn_spawn (connection_example rep) () (map (\<lambda>(base, n_own). map (chaos_request (cn_rng (connection_example rep)) ctx_example)
        [base..<base + n_own]) (worker_shares 5 2)) = (map (\<lambda>(base, n_own). map rep [base..<base + n_own]) (worker_shares 5 2), 0, ())"
      unfolding connection_example_def by (simp only: connection.simps)
  qed simp_all
  then obtain res w' where res: "\<forall>i < 5. hr_status (rep i) = Some (if i = 1 then 500 else chaos_expected i)"
      "chaos_phase (connection_example rep) () ctx_example 5 2 = Some (res, w')"
      "cr_unexpected_errors res = card {i. i < 5 \<and> i = (1 :: nat)}"
      "cr_valid_successes res = card {i. i < 5 \<and> i \<noteq> (1 :: nat) \<and> i mod 5 \<in> {0, 1}}"
      "cr_expected_errors res = card {i. i < 5 \<and> i \<noteq> (1 :: nat) \<and> i mod 5 \<in> {2, 3, 4}}" "cr_timeouts res = 0" "cr_server_healthy res"
    unfolding failed by (auto simp: soon)
  have "{i. i < 5 \<and> i = (1 :: nat)} = {1}" "{i. i < 5 \<and> i \<noteq> (1 :: nat) \<and> i mod 5 \<in> {0, 1}} = {0}"
    "{i. i < 5 \<and> i \<noteq> (1 :: nat) \<and> i mod 5 \<in> {2, 3, 4}} = {2, 3, 4}" by auto
  then have "cr_unexpected_errors res = 1" "cr_valid_successes res = 1" "cr_expected_errors res = 3" using res(3-5) by simp_all
  moreover have "map (\<lambda>i. hr_status (rep i)) [0..<5] = [Some 200, Some 500, Some 404, Some 400, Some 404]"
    using res(1) by (simp add: upt_rec chaos_expected_def numeral_2_eq_2)
  ultimately show ?thesis using served res(2,6,7) by (intro exI conjI)
qed

end
