(* ===== verification/Spec2Isabelle.thy ===== *)
theory Spec2Isabelle
  imports Compaction Search Restart Chaos
begin

text \<open>
  LikhaDB, a vector store: collections of vectors with JSON payloads, searched by distance, by text or both, kept in
  memory, made durable by a write-ahead log, mirrored to and fed from Iceberg tables, and served over HTTP and gRPC.

  \<^bold>\<open>The program and its model.\<close> A request enters through a handler of the server, which takes the lock on the log
  manager. The log manager appends an entry and applies the operation to the collection manager; a collection
  updates its index, its payload store and its text index. Queries go the same way and end in the search of an index,
  and then, if the server has one, in the query pipeline. Two background tasks share the lock: the flusher copies the
  rows of the log to staging tables and rewrites the log, the maintenance task applies the changes of a source table
  and compacts indexes. Starting the server replays the log on a snapshot, or on the state the lakehouse holds.

  \<^item> \<open>Prelude\<close>, \<open>Results\<close>, \<open>Floats\<close>, \<open>Core\<close>: words, slabs, hash maps as association lists, code that stops at the
    first error, IEEE 754 numbers as bit patterns, and \<open>likhadb-core\<close> (metric, errors, result rows, distances).
  \<^item> \<open>TopK\<close>, \<open>Traits\<close>, \<open>Flat\<close>, \<open>Ivf\<close>, \<open>Hnsw\<close>, \<open>AnyIndex\<close>: \<open>likhadb-index\<close>. \<open>TopK\<close> is the bounded heap under
    \<open>rayon\<close>; \<open>Traits\<close> states the contract of \<open>VectorIndex\<close> as the locales \<open>vector_index\<close>, \<open>exact_store\<close> and
    \<open>exact_search\<close>; the three indexes and the boxed index interpret them; the collection is their client.
  \<^item> \<open>Meta\<close>, \<open>Fts\<close>, \<open>Collection\<close>, \<open>Search\<close>, \<open>Compaction\<close>, \<open>Manager\<close>: \<open>likhadb-store\<close> and \<open>likhadb-fts\<close>: payloads and
    filters, the text index, a collection and its operations, its queries, the compaction of a live collection, the
    collection manager and snapshots.
  \<^item> \<open>Frame\<close>, \<open>WalLog\<close>, \<open>WalWriter\<close>, \<open>Recovery\<close>, \<open>Wal\<close>: \<open>likhadb-persist\<close>: frames, entries and the reader, the writer
    and its file, the replay of an entry, and the log manager. \<open>Durability\<close>, \<open>Crash\<close>, \<open>Guarantees\<close> and \<open>Upkeep\<close> hold
    its invariant, the runs and crashes, and the theorems about them.
  \<^item> \<open>Staging\<close>, \<open>Flusher\<close>, \<open>IcebergRecovery\<close>: \<open>staging_io.rs\<close>, \<open>iceberg_flusher.rs\<close>, \<open>index_snapshot_io.rs\<close> and
    \<open>iceberg_recovery.rs\<close> of \<open>likhadb-lakehouse\<close>.
  \<^item> \<open>Arrow\<close>, \<open>Parquet\<close>, \<open>ObjectStore\<close>, \<open>DeltaScan\<close>, \<open>Maintenance\<close>: its \<open>parquet_io.rs\<close> and \<open>wal_io.rs\<close>, \<open>minio.rs\<close> and
    \<open>iceberg_io.rs\<close>, and \<open>incremental_scan.rs\<close>, \<open>source_table.rs\<close>, \<open>maintenance.rs\<close> and \<open>index_maintenance_task.rs\<close>.
  \<^item> \<open>QueryConfig\<close>, \<open>Query\<close>, \<open>QueryProps\<close>, \<open>Session\<close>: \<open>likhadb-query\<close> (settings, pipeline, session, clients of the models)
    and \<open>pipeline_setup.rs\<close> of the server.
  \<^item> \<open>Server\<close>, \<open>ServerProps\<close>, \<open>Grpc\<close>: \<open>auth.rs\<close>, \<open>error.rs\<close>, \<open>types.rs\<close>, \<open>routes.rs\<close>, \<open>grpc/error.rs\<close> and
    \<open>grpc/service.rs\<close> of \<open>likhadb-server\<close>.
  \<^item> \<open>Startup\<close>, \<open>System\<close>, \<open>Restart\<close>: \<open>state.rs\<close> and \<open>main.rs\<close>, and the composition of all the parts. \<open>System\<close> has one step
    relation, \<open>step\<close>, for the requests of both protocols, the flusher, the checkpoint, and the source deltas and index
    builds of the maintenance task, which take turns on the store behind its lock. What a step relies on when it finds a
    collection is the locale \<open>collection_law\<close> (with compactions \<open>upkeep_law\<close>); \<open>sound\<close> interprets it by the invariant of
    the indexes, \<open>placed\<close> by the directory of the text index. \<open>Restart\<close> follows a stop and a start.
  \<^item> \<open>Stress\<close>, \<open>Chaos\<close>: \<open>likhadb-stress\<close>, the driver that loads a server; its requests are those of \<open>Server\<close>, and \<open>Chaos\<close>
    runs its last phase against the steps of \<open>System\<close>.

  \<^bold>\<open>How the code is translated.\<close> A struct is a record, an enum a datatype, an operation with \<open>&mut self\<close> a function that
  returns the new state. Errors are values of a sum type; a panic is the error \<open>Panicked\<close> or an option. Integers of a
  fixed width whose wrapping matters are words. What is not under \<open>src/\<close> is an argument: the records \<open>rt\<close> (distance
  kernels, orders, schedules), \<open>tantivy\<close>, \<open>wal_env\<close> (hash, compressor, serializer), \<open>serde\<close>, \<open>arrow_lib\<close>,
  \<open>parquet_lib\<close>, the catalog and the SQL engine. So is how each system call ends, and what other tasks do between two
  acquisitions of a lock. Laws of the libraries that a theorem needs are its hypotheses (\<open>env_ok\<close> and the like), and
  its witness discharges them on a small concrete library.

  \<^bold>\<open>What is proved.\<close>
  \<^item> Indexes: insertion, deletion, batches and compaction refine the operations of a finite map (for quantized lists
    up to the code); the exhaustive search is exact and the approximate ones return live, filtered rows in order; the
    graph of the HNSW index stays well formed; and what overwriting does to it.
  \<^item> Collections: filters mean what their document says; filtered and hybrid search; a compaction running beside writes
    loses none; snapshots restore the same collections.
  \<^item> Log: reading returns what was appended and drops a torn tail; after any run and a crash at any byte the state is
    that of the acknowledged operations; positions are consecutive; and what torn tails, failed appends, damaged
    frames and batches lead to.
  \<^item> Lakehouse: rows staged are read back; a tick of the flusher delivers the rows that wait and what its rewriting
    erases; recovery gives the snapshots, the staged rows and the log, and where its positions start; a Parquet file
    gives back the collection; a maintenance tick takes a collection from one state of its source to the next, and a
    delta may be retried.
  \<^item> Queries and server: team names cannot change the SQL; the reranked answer holds the best candidates; only the bearer
    of the token gets in; the two protocols are the same service.
  \<^item> The whole server: no interleaving of requests and tasks makes one of them panic; a clean stop and a start change
    nothing; with a catalog, what was flushed is gone after a crash; and an index built for a dropped collection
    can end up in a new one of the same name. The chaos phase of the stress driver finds no unexpected answer.

  \<^bold>\<open>Loops.\<close> No definition carries fuel. Loops are total functions: the beam search ends because every step marks nodes
  that were not marked before or shortens its queue (\<open>Hnsw\<close>), the waves of the bulk build, the frames of a log and
  the interpreter of filters because their input shrinks; the rounds of k-means are those of the code. Two
  loops are partial functions: the walk from a snapshot to its parents, \<open>walk_back\<close> of \<open>DeltaScan\<close>, may run forever, on
  parents that form a cycle, and the theorem about a maintenance tick shows that it returns on a chain; the doubling of
  the ramp phase, \<open>ramp_levels\<close> of \<open>Stress\<close>, is shown to end when it starts above zero, as it does.

  \<^bold>\<open>Not modelled.\<close> What libraries compute: the SQL engine from a statement, the catalog and the object store from a
  request, the web frameworks from a body or a path (routing, size limits, decoding); listeners, signals and timers of
  \<open>main.rs\<close>, whose effects are the events of \<open>System\<close>; metrics, log lines and the texts of errors; the tests; and the
  benchmarks \<open>likhadb-bench\<close>, which call the indexes under a timer.
\<close>

end
